(* ===== verification/Elenor_Prelude.thy ===== *)
theory Elenor_Prelude
  imports Main "HOL-Library.AList"
begin

text \<open>
  Shared vocabulary of the development: Python exceptions as values, operations that may
  raise after having changed their object, insertion-ordered dictionaries, counting over
  dictionary values, and the two locales through which every component states that its
  operations keep its invariant.
\<close>

section \<open>Exceptions and outcomes\<close>

text \<open>
  An exception is a value that carries the fixed fragment of its message. An operation
  returns the exception or the result \<^emph>\<open>together with\<close> the object it leaves behind, since
  Python keeps every mutation made before the raise.
\<close>

datatype py_error =
    MemoryInvariantError string
  | ValueError string
  | TypeError string
  | RuntimeError string
  | EventProtocolError string
  | PoolPageError string
  | KeyError
  | IndexError
  | ZeroDivisionError
  | AssertionError
  | AttributeError

type_synonym ('s, 'a) outcome = "(py_error + 'a) \<times> 's"

abbreviation raise :: "py_error \<Rightarrow> 's \<Rightarrow> ('s, 'a) outcome" where
  "raise e s \<equiv> (Inl e, s)"

abbreviation ret :: "'a \<Rightarrow> 's \<Rightarrow> ('s, 'a) outcome" where
  "ret x s \<equiv> (Inr x, s)"

definition and_then :: "('s, 'a) outcome \<Rightarrow> ('a \<Rightarrow> 's \<Rightarrow> ('s, 'b) outcome) \<Rightarrow> ('s, 'b) outcome" where
  "and_then r k = (case r of (Inl e, s) \<Rightarrow> (Inl e, s) | (Inr x, s) \<Rightarrow> k x s)"

lemma and_then_simps [simp]:
  "and_then (Inl e, s) k = (Inl e, s)"
  "and_then (Inr x, s) k = k x s"
  by (simp_all add: and_then_def)

lemma snd_and_then_ret [simp]: "snd (and_then r (\<lambda>x s. ret (f x) s)) = snd r"
  by (auto simp: and_then_def split: prod.splits sum.splits)

definition is_ok :: "('s, 'a) outcome \<Rightarrow> bool" where
  "is_ok r \<longleftrightarrow> (case fst r of Inl e \<Rightarrow> False | Inr x \<Rightarrow> True)"

lemma is_ok_simps [simp]: "\<not> is_ok (Inl e, s)" "is_ok (Inr x, s)"
  by (simp_all add: is_ok_def)

section \<open>Dictionaries\<close>

text \<open>
  A Python \<open>dict\<close> iterates in insertion order, assignment to an existing key keeps its
  place and deletion closes the gap: an association list with \<open>AList.update\<close> and
  \<open>AList.delete\<close>. Keys stay distinct, which is part of every component invariant.
\<close>

type_synonym ('k, 'v) dict = "('k \<times> 'v) list"

abbreviation dict_get :: "('k, 'v) dict \<Rightarrow> 'k \<Rightarrow> 'v option" where
  "dict_get d k \<equiv> map_of d k"

abbreviation dict_set :: "'k \<Rightarrow> 'v \<Rightarrow> ('k, 'v) dict \<Rightarrow> ('k, 'v) dict" where
  "dict_set k v d \<equiv> AList.update k v d"

abbreviation dict_del :: "'k \<Rightarrow> ('k, 'v) dict \<Rightarrow> ('k, 'v) dict" where
  "dict_del k d \<equiv> AList.delete k d"

abbreviation dict_keys :: "('k, 'v) dict \<Rightarrow> 'k list" where
  "dict_keys d \<equiv> map fst d"

abbreviation dict_values :: "('k, 'v) dict \<Rightarrow> 'v list" where
  "dict_values d \<equiv> map snd d"

abbreviation keys_distinct :: "('k, 'v) dict \<Rightarrow> bool" where
  "keys_distinct d \<equiv> distinct (map fst d)"

text \<open>Lookups stay lookups: the library would turn them into membership of pairs.\<close>

declare map_of_eq_Some_iff [simp del] Some_eq_map_of_iff [simp del]

named_theorems dict_simps

declare AList.update_conv' [dict_simps] AList.delete_conv' [dict_simps]
  AList.distinct_update [dict_simps] AList.distinct_delete [dict_simps]

lemma dict_get_in_set: "dict_get d k = Some v \<Longrightarrow> (k, v) \<in> set d"
  by (rule map_of_SomeD)

lemma dict_get_iff: "keys_distinct d \<Longrightarrow> dict_get d k = Some v \<longleftrightarrow> (k, v) \<in> set d"
  by (rule map_of_eq_Some_iff)

lemma dict_get_None_iff: "dict_get d k = None \<longleftrightarrow> k \<notin> set (dict_keys d)"
  by (simp add: map_of_eq_None_iff)

lemma set_dict_set:
  assumes "keys_distinct d"
  shows "set (dict_set k v d) = insert (k, v) {p \<in> set d. fst p \<noteq> k}"
proof (rule set_eqI)
  fix p :: "'a \<times> 'b"
  have "p \<in> set (dict_set k v d) \<longleftrightarrow> dict_get (dict_set k v d) (fst p) = Some (snd p)"
    using dict_get_iff [OF AList.distinct_update [OF assms, of k v], of "fst p" "snd p"] by simp
  also have "\<dots> \<longleftrightarrow> (if fst p = k then snd p = v else dict_get d (fst p) = Some (snd p))"
    by (auto simp: AList.update_conv')
  also have "\<dots> \<longleftrightarrow> p \<in> insert (k, v) {p \<in> set d. fst p \<noteq> k}"
    using dict_get_iff [OF assms, of "fst p" "snd p"] by (cases p) auto
  finally show "p \<in> set (dict_set k v d) \<longleftrightarrow> p \<in> insert (k, v) {p \<in> set d. fst p \<noteq> k}" .
qed

lemma set_dict_del: "set (dict_del k d) = {p \<in> set d. fst p \<noteq> k}"
  by (auto simp: AList.delete_eq case_prod_unfold)

lemma dict_set_fresh: "dict_get d k = None \<Longrightarrow> dict_set k v d = d @ [(k, v)]"
  by (induction d) (auto split: if_splits)

lemma dict_set_twice [simp]: "dict_set k v (dict_set k w d) = dict_set k v d"
  by (induction d) auto

lemma dict_del_set [simp]: "dict_del k (dict_set k v d) = dict_del k d"
  by (induction d) (auto simp: AList.delete_eq)

lemma dict_set_same: "dict_get d k = Some v \<Longrightarrow> dict_set k v d = d"
  by (induction d) (auto split: if_splits)

lemma length_dict_set:
  "length (dict_set k v d) = (if dict_get d k = None then Suc (length d) else length d)"
  by (induction d) auto

lemma length_dict_del:
  assumes "keys_distinct d"
  shows "length (dict_del k d) = (if dict_get d k = None then length d else length d - 1)"
  using assms
proof (induction d)
  case (Cons p d)
  show ?case
  proof (cases "fst p = k")
    case True
    with Cons.prems have "k \<notin> fst ` set d" by auto
    then have "dict_del k d = d" by simp
    with True show ?thesis by (cases p) (simp add: AList.delete_eq)
  next
    case False
    with Cons show ?thesis
      by (cases p; cases d) (auto simp: AList.delete_eq)
  qed
qed simp

section \<open>Sums and counts over dictionary values\<close>

text \<open>
  Counters such as the number of dirty cache lines or the bytes held by live allocations
  are sums over dictionary values. The three lemmas say how such a sum moves when one
  entry is added, replaced or deleted; every accounting invariant below rests on them.
\<close>

definition dict_sum :: "('v \<Rightarrow> 'm :: comm_monoid_add) \<Rightarrow> ('k, 'v) dict \<Rightarrow> 'm" where
  "dict_sum f d = sum_list (map (f \<circ> snd) d)"

lemma dict_sum_Nil [simp]: "dict_sum f [] = 0"
  by (simp add: dict_sum_def)

lemma dict_sum_Cons [simp]: "dict_sum f (p # d) = f (snd p) + dict_sum f d"
  by (simp add: dict_sum_def)

lemma dict_sum_append [simp]: "dict_sum f (d @ e) = dict_sum f d + dict_sum f e"
  by (simp add: dict_sum_def)

lemma dict_sum_fresh:
  "dict_get d k = None \<Longrightarrow> dict_sum f (dict_set k v d) = dict_sum f d + f v"
  by (simp add: dict_set_fresh)

lemma dict_sum_update_add:
  "dict_get d k = Some w \<Longrightarrow> dict_sum f (dict_set k v d) + f w = dict_sum f d + f v"
proof (induction d)
  case (Cons p d)
  show ?case
  proof (cases "fst p = k")
    case True
    with Cons.prems show ?thesis by (cases p) (simp add: ac_simps)
  next
    case False
    with Cons have "dict_sum f (dict_set k v d) + f w = dict_sum f d + f v" by (cases p) simp
    with False show ?thesis by (simp add: add.assoc)
  qed
qed simp

lemma dict_sum_del_add:
  "keys_distinct d \<Longrightarrow> dict_get d k = Some w \<Longrightarrow> dict_sum f (dict_del k d) + f w = dict_sum f d"
proof (induction d)
  case (Cons p d)
  show ?case
  proof (cases "fst p = k")
    case True
    with Cons.prems have "k \<notin> fst ` set d" by auto
    then have "dict_del k d = d" by simp
    with True Cons.prems show ?thesis by (cases p) (simp add: AList.delete_eq add.commute)
  next
    case False
    with Cons have "dict_sum f (dict_del k d) + f w = dict_sum f d" by (cases p) simp
    with False show ?thesis by (cases p) (simp add: AList.delete_eq add.assoc)
  qed
qed simp

lemma dict_sum_update:
  fixes f :: "'v \<Rightarrow> int"
  shows "dict_get d k = Some w \<Longrightarrow> dict_sum f (dict_set k v d) = dict_sum f d - f w + f v"
  using dict_sum_update_add [of d k w f v] by simp

lemma dict_sum_del:
  fixes f :: "'v \<Rightarrow> int"
  shows "keys_distinct d \<Longrightarrow> dict_get d k = Some w \<Longrightarrow> dict_sum f (dict_del k d) = dict_sum f d - f w"
  using dict_sum_del_add [of d k w f] by simp

lemma dict_sum_del_absent: "dict_get d k = None \<Longrightarrow> dict_sum f (dict_del k d) = dict_sum f d"
  by (simp add: dict_get_None_iff)

lemma dict_sum_nonneg:
  fixes f :: "'v \<Rightarrow> int"
  shows "\<forall>p \<in> set d. 0 \<le> f (snd p) \<Longrightarrow> 0 \<le> dict_sum f d"
  by (induction d) auto

lemma dict_sum_member_le:
  fixes f :: "'v \<Rightarrow> int"
  shows "\<forall>p \<in> set d. 0 \<le> f (snd p) \<Longrightarrow> (k, v) \<in> set d \<Longrightarrow> f v \<le> dict_sum f d"
proof (induction d)
  case (Cons p d)
  then have "0 \<le> dict_sum f d" and "0 \<le> f (snd p)" by (auto intro: dict_sum_nonneg)
  with Cons show ?case by fastforce
qed simp

lemma dict_sum_cong: "\<forall>p \<in> set d. f (snd p) = g (snd p) \<Longrightarrow> dict_sum f d = dict_sum g d"
  by (induction d) auto

lemma dict_sum_zero: "\<forall>p \<in> set d. f (snd p) = 0 \<Longrightarrow> dict_sum f d = 0"
  by (induction d) auto

lemmas dict_sum_moves = dict_sum_fresh dict_sum_update dict_sum_del dict_sum_del_absent

text \<open>Rewriting every value of a dictionary keeps its keys and their order.\<close>

lemma map_fst_map_values [simp]: "map (fst \<circ> (\<lambda>(k, v). (k, g v))) d = dict_keys d"
  by (induction d) auto

lemma map_of_map_snd: "dict_get (map (\<lambda>(k, v). (k, g v)) d) k = map_option g (dict_get d k)"
  by (induction d) auto

lemma dict_sum_map: "dict_sum f (map (\<lambda>(k, v). (k, g v)) d) = dict_sum (f \<circ> g) d"
  by (induction d) auto

text \<open>A default dictionary of counters (\<open>collections.defaultdict(int)\<close>).\<close>

definition dd_get :: "('k, int) dict \<Rightarrow> 'k \<Rightarrow> int" where
  "dd_get d k = (case dict_get d k of None \<Rightarrow> 0 | Some n \<Rightarrow> n)"

definition dd_add :: "'k \<Rightarrow> int \<Rightarrow> ('k, int) dict \<Rightarrow> ('k, int) dict" where
  "dd_add k n d = dict_set k (dd_get d k + n) d"

lemma dd_get_Nil [simp]: "dd_get [] k = 0"
  by (simp add: dd_get_def)

lemma dd_get_add: "dd_get (dd_add k n d) j = dd_get d j + (if j = k then n else 0)"
  by (simp add: dd_get_def dd_add_def AList.update_conv')

section \<open>Text and slices\<close>

text \<open>\<open>str(n)\<close> for an integer, and \<open>xs[i:j]\<close> with Python's clipping of negative and large bounds.\<close>

fun show_nat :: "nat \<Rightarrow> string" where
  "show_nat n = (if n < 10 then [''0123456789'' ! n] else show_nat (n div 10) @ [''0123456789'' ! (n mod 10)])"

declare show_nat.simps [simp del]

definition show_int :: "int \<Rightarrow> string" where
  "show_int i = (if i < 0 then ''-'' @ show_nat (nat (- i)) else show_nat (nat i))"

definition py_clip :: "nat \<Rightarrow> int \<Rightarrow> nat" where
  "py_clip n i = (if i < 0 then nat (i + int n) else min (nat i) n)"

definition py_slice :: "int \<Rightarrow> int \<Rightarrow> 'a list \<Rightarrow> 'a list" where
  "py_slice i j xs =
     (let a = py_clip (length xs) i; b = py_clip (length xs) j in take (b - a) (drop a xs))"

lemma py_slice_inside:
  "0 \<le> i \<Longrightarrow> i \<le> j \<Longrightarrow> j \<le> int (length xs) \<Longrightarrow> py_slice i j xs = take (nat j - nat i) (drop (nat i) xs)"
  by (simp add: py_slice_def py_clip_def Let_def min_def nat_le_iff)

section \<open>Operation sequences and invariants\<close>

text \<open>
  A component is driven by a sequence of operations. \<open>legal_run\<close> says that every operation
  of the sequence is enabled where it is issued: the discipline the component's callers
  follow. A component whose operations need no discipline uses \<open>\<lambda>_ _. True\<close>.
\<close>

fun run_ops :: "('op \<Rightarrow> 's \<Rightarrow> 's) \<Rightarrow> 'op list \<Rightarrow> 's \<Rightarrow> 's" where
  "run_ops exec [] s = s"
| "run_ops exec (x # xs) s = run_ops exec xs (exec x s)"

fun legal_run :: "('op \<Rightarrow> 's \<Rightarrow> bool) \<Rightarrow> ('op \<Rightarrow> 's \<Rightarrow> 's) \<Rightarrow> 'op list \<Rightarrow> 's \<Rightarrow> bool" where
  "legal_run enabled exec [] s \<longleftrightarrow> True"
| "legal_run enabled exec (x # xs) s \<longleftrightarrow> enabled x s \<and> legal_run enabled exec xs (exec x s)"

lemma run_ops_append: "run_ops exec (xs @ ys) s = run_ops exec ys (run_ops exec xs s)"
  by (induction xs arbitrary: s) auto

locale guarded_machine =
  fixes enabled :: "'op \<Rightarrow> 's \<Rightarrow> bool"
    and exec :: "'op \<Rightarrow> 's \<Rightarrow> 's"
    and inv :: "'s \<Rightarrow> bool"
  assumes exec_inv: "inv s \<Longrightarrow> enabled x s \<Longrightarrow> inv (exec x s)"
begin

lemma run_inv: "inv s \<Longrightarrow> legal_run enabled exec xs s \<Longrightarrow> inv (run_ops exec xs s)"
  by (induction xs arbitrary: s) (auto intro: exec_inv)

lemma prefix_inv:
  "inv s \<Longrightarrow> legal_run enabled exec (xs @ ys) s \<Longrightarrow> inv (run_ops exec xs s)"
  by (induction xs arbitrary: s) (auto intro: exec_inv)

end

text \<open>A machine without discipline: any sequence of operations keeps the invariant.\<close>

locale total_machine =
  fixes exec :: "'op \<Rightarrow> 's \<Rightarrow> 's"
    and inv :: "'s \<Rightarrow> bool"
  assumes step_inv: "inv s \<Longrightarrow> inv (exec x s)"
begin

lemma legal_always: "legal_run (\<lambda>_ _. True) exec xs s"
  by (induction xs arbitrary: s) auto

end

sublocale total_machine \<subseteq> guarded_machine "\<lambda>_ _. True" exec inv
  by unfold_locales (rule step_inv)

context total_machine
begin

lemma any_run_inv: "inv s \<Longrightarrow> inv (run_ops exec xs s)"
  by (rule run_inv) (auto intro: legal_always)

end

text \<open>
  Generations, versions and token counters only grow: a machine with a counter that no
  operation lowers. The run lemma is what makes a stale handle recognisable for ever.
\<close>

locale monotone_machine = total_machine +
  fixes clock :: "'b \<Rightarrow> int"
  assumes clock_mono: "inv s \<Longrightarrow> clock s \<le> clock (exec x s)"
begin

lemma clock_run_mono: "inv s \<Longrightarrow> clock s \<le> clock (run_ops exec xs s)"
proof (induction xs arbitrary: s)
  case (Cons x xs)
  have "clock s \<le> clock (exec x s)" using Cons.prems by (rule clock_mono)
  also have "\<dots> \<le> clock (run_ops exec xs (exec x s))"
    by (rule Cons.IH) (rule step_inv [OF Cons.prems])
  finally show ?case by simp
qed simp

end

section \<open>Reasoning about outcomes\<close>

text \<open>
  A compositional logic for operations built from returns, raises and sequencing: an outcome
  \<open>keeps\<close> the state it started from when it preserves the invariant and moves the state only
  along a reflexive and transitive relation, whether the operation succeeded or raised.
\<close>

locale outcome_logic =
  fixes inv :: "'s \<Rightarrow> bool" and rel :: "'s \<Rightarrow> 's \<Rightarrow> bool"
  assumes rel_refl: "rel s s"
    and rel_trans: "rel s t \<Longrightarrow> rel t u \<Longrightarrow> rel s u"
begin

definition keeps :: "'s \<Rightarrow> ('s, 'a) outcome \<Rightarrow> bool" where
  "keeps s r \<longleftrightarrow> (inv s \<longrightarrow> inv (snd r) \<and> rel s (snd r))"

lemma keeps_same: "keeps s (v, s)"
  by (simp add: keeps_def rel_refl)

lemma keeps_and_then:
  assumes "keeps s r" "\<And>x t. r = (Inr x, t) \<Longrightarrow> inv t \<Longrightarrow> keeps t (k x t)"
  shows "keeps s (and_then r k)"
proof (cases r)
  case (Pair v t)
  show ?thesis
  proof (cases v)
    case (Inl e)
    with assms(1) Pair show ?thesis by (simp add: keeps_def)
  next
    case (Inr x)
    show ?thesis
      unfolding keeps_def
    proof
      assume "inv s"
      with assms(1) Pair have 1: "inv t" "rel s t" by (simp_all add: keeps_def)
      with assms(2) [of x t] Pair Inr have "inv (snd (k x t)) \<and> rel t (snd (k x t))"
        by (simp add: keeps_def)
      with 1(2) Pair Inr show "inv (snd (and_then r k)) \<and> rel s (snd (and_then r k))"
        by (auto intro: rel_trans)
    qed
  qed
qed

lemma keeps_if: "(b \<Longrightarrow> keeps s x) \<Longrightarrow> (\<not> b \<Longrightarrow> keeps s y) \<Longrightarrow> keeps s (if b then x else y)"
  by simp

lemma keeps_opt:
  "(m = None \<Longrightarrow> keeps s x) \<Longrightarrow> (\<And>e. m = Some e \<Longrightarrow> keeps s (f e)) \<Longrightarrow> keeps s (case m of None \<Rightarrow> x | Some e \<Rightarrow> f e)"
  by (simp split: option.splits)

lemma keeps_sum:
  "(\<And>e. w = Inl e \<Longrightarrow> keeps s (f e)) \<Longrightarrow> (\<And>x. w = Inr x \<Longrightarrow> keeps s (g x)) \<Longrightarrow>
   keeps s (case w of Inl e \<Rightarrow> f e | Inr x \<Rightarrow> g x)"
  by (simp split: sum.splits)

end

end
