(* ===== verification/Pmu.thy ===== *)
theory Pmu
  imports Elenor_Prelude
begin

text \<open>
  Performance counters (\<open>pipeline_validator/pmu.py\<close>): the three counter dictionaries of
  \<open>PMUCounter\<close>, stall attribution to one primary owner, and merging of counter sets.
  \<open>utilization\<close> is a floating-point quotient and is not modelled.
\<close>

section \<open>Stall reasons\<close>

datatype stall_reason =
    SR_NONE | SR_WAIT_EVENT | SR_WAIT_OPERAND | SR_STREAM_CREDIT | SR_WAIT_L1_BANK
  | SR_WAIT_L2_BANK | SR_WAIT_NOC_CREDIT | SR_WAIT_DMA_QUEUE | SR_WAIT_HBM_OUTSTANDING
  | SR_UCE_PROGRAM_DESC | SR_UNKNOWN | SR_WAIT_MSHR

fun stall_value :: "stall_reason \<Rightarrow> nat" where
  "stall_value SR_NONE = 0"
| "stall_value SR_WAIT_EVENT = 1"
| "stall_value SR_WAIT_OPERAND = 2"
| "stall_value SR_STREAM_CREDIT = 3"
| "stall_value SR_WAIT_L1_BANK = 4"
| "stall_value SR_WAIT_L2_BANK = 5"
| "stall_value SR_WAIT_NOC_CREDIT = 6"
| "stall_value SR_WAIT_DMA_QUEUE = 7"
| "stall_value SR_WAIT_HBM_OUTSTANDING = 8"
| "stall_value SR_UCE_PROGRAM_DESC = 9"
| "stall_value SR_UNKNOWN = 10"
| "stall_value SR_WAIT_MSHR = 11"

fun stall_label :: "stall_reason \<Rightarrow> string" where
  "stall_label SR_NONE = ''engine_active''"
| "stall_label SR_WAIT_EVENT = ''engine_wait_event''"
| "stall_label SR_WAIT_OPERAND = ''engine_wait_operand''"
| "stall_label SR_STREAM_CREDIT = ''stream_credit_empty_or_full''"
| "stall_label SR_WAIT_L1_BANK = ''l1_bank_conflict''"
| "stall_label SR_WAIT_L2_BANK = ''l2_bank_conflict''"
| "stall_label SR_WAIT_NOC_CREDIT = ''noc_credit_backpressure''"
| "stall_label SR_WAIT_DMA_QUEUE = ''dma_queue_wait''"
| "stall_label SR_WAIT_HBM_OUTSTANDING = ''hbm_outstanding_wait''"
| "stall_label SR_UCE_PROGRAM_DESC = ''uce_program_or_descriptor_stall''"
| "stall_label SR_UNKNOWN = ''unknown_or_unclassified''"
| "stall_label SR_WAIT_MSHR = ''mshr_full''"

lemma stall_value_inject: "stall_value a = stall_value b \<longleftrightarrow> a = b"
  by (cases a; cases b) simp_all

text \<open>\<open>IntEnum\<close> members compare by value: the priority order of the attribution rule.\<close>

instantiation stall_reason :: linorder
begin

definition less_eq_stall_reason :: "stall_reason \<Rightarrow> stall_reason \<Rightarrow> bool" where
  "less_eq_stall_reason a b \<longleftrightarrow> stall_value a \<le> stall_value b"

definition less_stall_reason :: "stall_reason \<Rightarrow> stall_reason \<Rightarrow> bool" where
  "less_stall_reason a b \<longleftrightarrow> stall_value a < stall_value b"

instance
  by standard (auto simp: less_eq_stall_reason_def less_stall_reason_def stall_value_inject
      dest: antisym)

end

definition primary_stall_owner :: "stall_reason list \<Rightarrow> stall_reason" where
  "primary_stall_owner reasons =
     (case filter (\<lambda>r. r \<noteq> SR_NONE) reasons of
        [] \<Rightarrow> SR_NONE
      | r # rs \<Rightarrow> fold min rs r)"

lemma fold_min_Min: "fold min rs (r :: 'a :: linorder) = Min (insert r (set rs))"
  by (simp add: Min.set_eq_fold [symmetric])

lemma primary_stall_owner_eq_Min:
  assumes "\<exists>r \<in> set reasons. r \<noteq> SR_NONE"
  shows "primary_stall_owner reasons = Min (set (filter (\<lambda>r. r \<noteq> SR_NONE) reasons))"
proof -
  from assms have "filter (\<lambda>r. r \<noteq> SR_NONE) reasons \<noteq> []" by (auto simp: filter_empty_conv)
  then show ?thesis
    unfolding primary_stall_owner_def
    by (cases "filter (\<lambda>r. r \<noteq> SR_NONE) reasons") (simp_all add: fold_min_Min)
qed

section \<open>Counter sets\<close>

record pmu_counter =
  stall_cycles :: "(stall_reason, int) dict"
  named_cycles :: "(string, int) dict"
  pmu_events :: "(string, int) dict"

definition pmu_new :: pmu_counter where
  "pmu_new = \<lparr>stall_cycles = [], named_cycles = [], pmu_events = []\<rparr>"

definition pmu_add :: "stall_reason \<Rightarrow> int \<Rightarrow> pmu_counter \<Rightarrow> pmu_counter" where
  "pmu_add reason n p = p\<lparr>stall_cycles := dd_add reason n (stall_cycles p)\<rparr>"

definition pmu_add_cycle :: "string \<Rightarrow> int \<Rightarrow> pmu_counter \<Rightarrow> pmu_counter" where
  "pmu_add_cycle name n p = p\<lparr>named_cycles := dd_add name n (named_cycles p)\<rparr>"

definition pmu_add_event :: "string \<Rightarrow> int \<Rightarrow> pmu_counter \<Rightarrow> pmu_counter" where
  "pmu_add_event name n p = p\<lparr>pmu_events := dd_add name n (pmu_events p)\<rparr>"

definition pmu_active_cycles :: "pmu_counter \<Rightarrow> int" where
  "pmu_active_cycles p =
     (let total_stall = sum_list (dict_values (stall_cycles p))
      in max (dd_get (named_cycles p) ''total'' - total_stall) 0)"

definition pmu_stall_breakdown :: "pmu_counter \<Rightarrow> (string, int) dict" where
  "pmu_stall_breakdown p =
     fold (\<lambda>(r, c) d. if c \<noteq> 0 then dict_set (stall_label r) c d else d) (stall_cycles p) []"

fun dd_merge :: "('k, int) dict \<Rightarrow> ('k, int) dict \<Rightarrow> ('k, int) dict" where
  "dd_merge d [] = d"
| "dd_merge d ((k, v) # other) = dd_merge (dd_add k v d) other"

definition pmu_merge :: "pmu_counter \<Rightarrow> pmu_counter \<Rightarrow> pmu_counter" where
  "pmu_merge self other =
     self\<lparr>stall_cycles := dd_merge (stall_cycles self) (stall_cycles other),
          named_cycles := dd_merge (named_cycles self) (named_cycles other),
          pmu_events := dd_merge (pmu_events self) (pmu_events other)\<rparr>"

definition pmu_reset :: "pmu_counter \<Rightarrow> pmu_counter" where
  "pmu_reset p = p\<lparr>stall_cycles := [], named_cycles := [], pmu_events := []\<rparr>"

lemma dd_merge_get:
  "keys_distinct e \<Longrightarrow> dd_get (dd_merge d e) k = dd_get d k + dd_get e k"
proof (induction d e rule: dd_merge.induct)
  case (2 d j v other)
  then have "dd_get (dd_merge (dd_add j v d) other) k = dd_get (dd_add j v d) k + dd_get other k"
    by simp
  moreover have "dd_get ((j, v) # other) k = (if k = j then v else 0) + dd_get other k"
  proof (cases "k = j")
    case True
    with 2 have "dict_get other k = None" by (auto simp: map_of_eq_None_iff)
    with True show ?thesis by (simp add: dd_get_def)
  qed (simp add: dd_get_def)
  ultimately show ?case by (simp add: dd_get_add)
qed simp

definition pmu_wf :: "pmu_counter \<Rightarrow> bool" where
  "pmu_wf p \<longleftrightarrow> keys_distinct (stall_cycles p) \<and> keys_distinct (named_cycles p)
     \<and> keys_distinct (pmu_events p)"

end
