(* ===== verification/Stream_Queue.thy ===== *)
theory Stream_Queue
  imports Pmu
begin

unbundle bit_operations_syntax

text \<open>
  The producer/consumer stream queue (\<open>pipeline_validator/stream_queue.py\<close>): tokens with flag
  bits, credit accounting between \<open>acquire\<close>, \<open>push\<close>, \<open>pop\<close> and \<open>release\<close>, the end-of-stream
  bitmap, and the credit invariant under the token life cycle of the module's contract.
\<close>

section \<open>Tokens\<close>

text \<open>\<open>TokenFlags\<close> is an \<open>IntFlag\<close>: an integer whose bits are the flags.\<close>

definition TokenFlags_VALID :: int where "TokenFlags_VALID = 1"
definition TokenFlags_EOS :: int where "TokenFlags_EOS = 2"
definition TokenFlags_ERROR :: int where "TokenFlags_ERROR = 4"
definition TokenFlags_FENCE :: int where "TokenFlags_FENCE = 8"

lemmas token_flag_defs =
  TokenFlags_VALID_def TokenFlags_EOS_def TokenFlags_ERROR_def TokenFlags_FENCE_def

datatype queue_kind = SPSC | MPSC | BROADCAST

datatype eos_policy = SINGLE_PRODUCER | ALL_PRODUCERS | PER_PRODUCER

record stream_token =
  token_id :: int
  payload_addr :: int
  payload_bytes :: int
  tok_flags :: int
  producer_id :: nat
  sequence_id :: int
  fault_record_index :: int
  user_metadata :: int
  tok_generation :: int
  pushed_cycle :: int
  popped_cycle :: int
  tok_released :: bool

definition new_token :: "int \<Rightarrow> int \<Rightarrow> nat \<Rightarrow> stream_token" where
  "new_token tid fl pid =
     \<lparr>token_id = tid, payload_addr = 0, payload_bytes = 0, tok_flags = fl, producer_id = pid,
      sequence_id = 0, fault_record_index = 0, user_metadata = 0, tok_generation = 0,
      pushed_cycle = 0, popped_cycle = 0, tok_released = False\<rparr>"

definition tok_is_eos :: "stream_token \<Rightarrow> bool" where
  "tok_is_eos t \<longleftrightarrow> tok_flags t AND TokenFlags_EOS \<noteq> 0"

definition tok_is_error :: "stream_token \<Rightarrow> bool" where
  "tok_is_error t \<longleftrightarrow> tok_flags t AND TokenFlags_ERROR \<noteq> 0"

definition tok_is_valid :: "stream_token \<Rightarrow> bool" where
  "tok_is_valid t \<longleftrightarrow> tok_flags t AND TokenFlags_VALID \<noteq> 0"

section \<open>The queue\<close>

record stream_queue =
  queue_id :: int
  sq_depth :: int
  sq_producers :: "nat list"
  sq_consumers :: "nat list"
  sq_kind :: queue_kind
  sq_eos_policy :: eos_policy
  sq_pmu :: pmu_counter
  sq_fifo :: "stream_token list"
  sq_credit_available :: int
  sq_credit_leased :: int
  sq_producer_eos_bitmap :: int
  sq_producer_seq :: "(nat, int) dict"
  sq_popped_unreleased :: int
  sq_first_fault_index :: int
  sq_faulted :: bool
  sq_next_token_id :: int
  sq_generation :: int
  sq_last_producer_stall_cycle :: int
  sq_last_consumer_stall_cycle :: int

definition sq_new :: "int \<Rightarrow> int \<Rightarrow> nat list \<Rightarrow> nat list \<Rightarrow> queue_kind \<Rightarrow> eos_policy \<Rightarrow> stream_queue" where
  "sq_new qid d ps cs k pol =
     \<lparr>queue_id = qid, sq_depth = d, sq_producers = ps, sq_consumers = cs, sq_kind = k,
      sq_eos_policy = pol, sq_pmu = pmu_new, sq_fifo = [], sq_credit_available = 0,
      sq_credit_leased = 0, sq_producer_eos_bitmap = 0, sq_producer_seq = [],
      sq_popped_unreleased = 0, sq_first_fault_index = -1, sq_faulted = False,
      sq_next_token_id = 0, sq_generation = 0, sq_last_producer_stall_cycle = -1,
      sq_last_consumer_stall_cycle = -1\<rparr>"

definition sq_init :: "stream_queue \<Rightarrow> stream_queue" where
  "sq_init q = q\<lparr>sq_credit_available := sq_depth q, sq_credit_leased := 0, sq_fifo := [],
     sq_producer_eos_bitmap := 0, sq_popped_unreleased := 0, sq_first_fault_index := -1,
     sq_faulted := False, sq_producer_seq := map (\<lambda>p. (p, 0)) (sq_producers q)\<rparr>"

definition sq_occupancy :: "stream_queue \<Rightarrow> int" where
  "sq_occupancy q = int (length (sq_fifo q))"

definition sq_is_empty :: "stream_queue \<Rightarrow> bool" where
  "sq_is_empty q \<longleftrightarrow> length (sq_fifo q) = 0"

definition sq_is_full :: "stream_queue \<Rightarrow> bool" where
  "sq_is_full q \<longleftrightarrow> sq_credit_available q = 0"

definition sq_all_producer_mask :: "stream_queue \<Rightarrow> int" where
  "sq_all_producer_mask q = fold (\<lambda>p m. m OR push_bit p 1) (sq_producers q) 0"

definition sq_all_eos_seen :: "stream_queue \<Rightarrow> bool" where
  "sq_all_eos_seen q =
     (if sq_eos_policy q = SINGLE_PRODUCER then sq_producer_eos_bitmap q \<noteq> 0
      else if sq_eos_policy q = ALL_PRODUCERS
        then sq_producer_eos_bitmap q = sq_all_producer_mask q
      else sq_producer_eos_bitmap q \<noteq> 0)"

definition sq_valid_fifo_count :: "stream_queue \<Rightarrow> int" where
  "sq_valid_fifo_count q = int (length (filter (\<lambda>t. \<not> tok_is_eos t) (sq_fifo q)))"

definition sq_credit_invariant_holds :: "stream_queue \<Rightarrow> bool" where
  "sq_credit_invariant_holds q \<longleftrightarrow>
     sq_credit_available q + sq_credit_leased q + sq_valid_fifo_count q + sq_popped_unreleased q
       = sq_depth q"

definition sq_acquire :: "int \<Rightarrow> stream_queue \<Rightarrow> bool \<times> stream_queue" where
  "sq_acquire cycle q =
     (if sq_credit_available q > 0 \<and> \<not> sq_faulted q
      then (True, q\<lparr>sq_credit_available := sq_credit_available q - 1,
                    sq_credit_leased := sq_credit_leased q + 1\<rparr>)
      else (False, q\<lparr>sq_last_producer_stall_cycle := cycle,
                     sq_pmu := pmu_add_cycle ''queue_full'' 1 (pmu_add SR_STREAM_CREDIT 1 (sq_pmu q))\<rparr>))"

definition sq_push :: "stream_token \<Rightarrow> int \<Rightarrow> stream_queue \<Rightarrow> bool \<times> stream_queue" where
  "sq_push tok cycle q =
     (if tok_is_error tok then
        (True, q\<lparr>sq_first_fault_index :=
                   (if sq_first_fault_index q < 0 then fault_record_index tok
                    else sq_first_fault_index q),
                 sq_faulted := True\<rparr>)
      else if tok_is_eos tok then
        (True, q\<lparr>sq_producer_eos_bitmap := sq_producer_eos_bitmap q OR push_bit (producer_id tok) 1,
                 sq_fifo := sq_fifo q @ [tok\<lparr>pushed_cycle := cycle\<rparr>]\<rparr>)
      else
        (let sid = dd_get (sq_producer_seq q) (producer_id tok);
             tok' = tok\<lparr>sequence_id := sid, tok_generation := sq_generation q, pushed_cycle := cycle\<rparr>
         in (True, q\<lparr>sq_producer_seq := dict_set (producer_id tok) (sid + 1) (sq_producer_seq q),
                     sq_credit_leased := (if sq_credit_leased q > 0 then sq_credit_leased q - 1
                                          else sq_credit_leased q),
                     sq_fifo := sq_fifo q @ [tok']\<rparr>)))"

definition sq_push_eos :: "nat \<Rightarrow> int \<Rightarrow> stream_queue \<Rightarrow> stream_queue" where
  "sq_push_eos pid cycle q =
     (let tok = (new_token (sq_next_token_id q) TokenFlags_EOS pid)\<lparr>pushed_cycle := cycle\<rparr>;
          q' = q\<lparr>sq_next_token_id := sq_next_token_id q + 1\<rparr>
      in snd (sq_push tok cycle q'))"

definition sq_pop :: "int \<Rightarrow> stream_queue \<Rightarrow> stream_token option \<times> stream_queue" where
  "sq_pop cycle q =
     (case sq_fifo q of
        t # ts \<Rightarrow>
          (let tok = t\<lparr>popped_cycle := cycle\<rparr>
           in (Some tok, q\<lparr>sq_fifo := ts,
                 sq_popped_unreleased :=
                   (if tok_is_valid tok then sq_popped_unreleased q + 1
                    else sq_popped_unreleased q)\<rparr>))
      | [] \<Rightarrow>
          (None, q\<lparr>sq_last_consumer_stall_cycle := cycle,
                   sq_pmu := pmu_add_cycle ''queue_empty'' 1 (pmu_add SR_STREAM_CREDIT 1 (sq_pmu q))\<rparr>))"

text \<open>\<open>release\<close> marks the consumer's token object: the marked token is returned.\<close>

definition sq_release :: "stream_token \<Rightarrow> int \<Rightarrow> stream_queue \<Rightarrow> stream_token \<times> stream_queue" where
  "sq_release tok cycle q =
     (if tok_released tok then
        (tok, q\<lparr>sq_pmu := pmu_add_cycle ''credit_fault'' 1 (sq_pmu q)\<rparr>)
      else
        (let tok' = tok\<lparr>tok_released := True\<rparr>
         in (tok', if tok_is_valid tok'
                   then q\<lparr>sq_popped_unreleased := sq_popped_unreleased q - 1,
                          sq_credit_available := sq_credit_available q + 1\<rparr>
                   else q)))"

definition sq_tick :: "int \<Rightarrow> stream_queue \<Rightarrow> stream_queue" where
  "sq_tick cycle q =
     (let p0 = pmu_add_cycle ''occupancy'' (sq_occupancy q) (sq_pmu q);
          p1 = (if sq_is_full q then pmu_add_cycle ''credit_full'' 1 p0 else p0);
          p2 = (if sq_is_empty q then pmu_add_cycle ''credit_empty'' 1 p1 else p1)
      in q\<lparr>sq_pmu := p2\<rparr>)"

definition sq_reset :: "stream_queue \<Rightarrow> stream_queue" where
  "sq_reset q = q\<lparr>sq_fifo := [], sq_credit_available := sq_depth q, sq_credit_leased := 0,
     sq_popped_unreleased := 0, sq_producer_eos_bitmap := 0, sq_first_fault_index := -1,
     sq_faulted := False, sq_producer_seq := map (\<lambda>p. (p, 0)) (sq_producers q),
     sq_generation := sq_generation q + 1\<rparr>"

section \<open>Facts about single operations\<close>

lemma tok_flag_updates [simp]:
  "tok_is_eos (t\<lparr>pushed_cycle := c\<rparr>) = tok_is_eos t"
  "tok_is_eos (t\<lparr>popped_cycle := c\<rparr>) = tok_is_eos t"
  "tok_is_eos (t\<lparr>tok_released := b\<rparr>) = tok_is_eos t"
  "tok_is_eos (t\<lparr>sequence_id := i\<rparr>) = tok_is_eos t"
  "tok_is_eos (t\<lparr>tok_generation := g\<rparr>) = tok_is_eos t"
  "tok_is_valid (t\<lparr>pushed_cycle := c\<rparr>) = tok_is_valid t"
  "tok_is_valid (t\<lparr>popped_cycle := c\<rparr>) = tok_is_valid t"
  "tok_is_valid (t\<lparr>tok_released := b\<rparr>) = tok_is_valid t"
  "tok_is_valid (t\<lparr>sequence_id := i\<rparr>) = tok_is_valid t"
  "tok_is_valid (t\<lparr>tok_generation := g\<rparr>) = tok_is_valid t"
  by (simp_all add: tok_is_eos_def tok_is_valid_def)

lemma new_eos_token [simp]:
  "tok_is_eos (new_token i TokenFlags_EOS p)"
  "\<not> tok_is_valid (new_token i TokenFlags_EOS p)"
  "\<not> tok_is_error ((new_token i TokenFlags_EOS p)\<lparr>pushed_cycle := c\<rparr>)"
  "\<not> tok_released (new_token i TokenFlags_EOS p)"
  "producer_id (new_token i TokenFlags_EOS p) = p"
  by (simp_all add: tok_is_eos_def tok_is_valid_def tok_is_error_def new_token_def token_flag_defs)

lemma sq_push_eos_eq:
  "sq_push_eos pid cycle q =
     q\<lparr>sq_next_token_id := sq_next_token_id q + 1,
       sq_producer_eos_bitmap := sq_producer_eos_bitmap q OR push_bit pid 1,
       sq_fifo := sq_fifo q @ [(new_token (sq_next_token_id q) TokenFlags_EOS pid)\<lparr>pushed_cycle := cycle\<rparr>]\<rparr>"
  by (simp add: sq_push_eos_def sq_push_def Let_def)

section \<open>The token life cycle as a machine\<close>

text \<open>
  The queue together with the tokens its consumers have popped. The guards are the contract
  of the module: a payload token is pushed on acquired credit and carries \<open>VALID\<close> without
  \<open>EOS\<close>, an end-of-stream token carries no payload, a consumer releases a token it popped, and
  the queue is reset only when no popped payload token is still to be released.
\<close>

datatype sq_op =
    SqAcquire int | SqPush stream_token int | SqPushEos nat int | SqPop int
  | SqRelease nat int | SqTick int | SqReset

type_synonym sq_sys = "stream_queue \<times> stream_token list"

fun sq_exec :: "sq_op \<Rightarrow> sq_sys \<Rightarrow> sq_sys" where
  "sq_exec (SqAcquire c) (q, held) = (snd (sq_acquire c q), held)"
| "sq_exec (SqPush t c) (q, held) = (snd (sq_push t c q), held)"
| "sq_exec (SqPushEos p c) (q, held) = (sq_push_eos p c q, held)"
| "sq_exec (SqPop c) (q, held) =
     (case sq_pop c q of (None, q') \<Rightarrow> (q', held) | (Some t, q') \<Rightarrow> (q', held @ [t]))"
| "sq_exec (SqRelease i c) (q, held) =
     (case sq_release (held ! i) c q of (t, q') \<Rightarrow> (q', held[i := t]))"
| "sq_exec (SqTick c) (q, held) = (sq_tick c q, held)"
| "sq_exec SqReset (q, held) = (sq_reset q, held)"

definition owes_credit :: "stream_token \<Rightarrow> bool" where
  "owes_credit t \<longleftrightarrow> tok_is_valid t \<and> \<not> tok_released t"

fun sq_enabled :: "sq_op \<Rightarrow> sq_sys \<Rightarrow> bool" where
  "sq_enabled (SqPush t c) (q, held) \<longleftrightarrow>
     tok_is_error t
     \<or> (\<not> tok_released t \<and>
        (if tok_is_eos t then \<not> tok_is_valid t else tok_is_valid t \<and> sq_credit_leased q > 0))"
| "sq_enabled (SqRelease i c) (q, held) \<longleftrightarrow> i < length held"
| "sq_enabled SqReset (q, held) \<longleftrightarrow> filter owes_credit held = []"
| "sq_enabled _ _ \<longleftrightarrow> True"

definition sq_fifo_wf :: "stream_queue \<Rightarrow> bool" where
  "sq_fifo_wf q \<longleftrightarrow> (\<forall>t \<in> set (sq_fifo q). \<not> tok_released t \<and> (tok_is_valid t \<longleftrightarrow> \<not> tok_is_eos t))"

fun sq_inv :: "sq_sys \<Rightarrow> bool" where
  "sq_inv (q, held) \<longleftrightarrow>
     sq_credit_invariant_holds q \<and> 0 \<le> sq_depth q \<and> 0 \<le> sq_credit_available q
     \<and> 0 \<le> sq_credit_leased q \<and> sq_fifo_wf q
     \<and> sq_popped_unreleased q = int (length (filter owes_credit held))"

lemma sq_valid_fifo_count_nonneg [simp]: "0 \<le> sq_valid_fifo_count q"
  by (simp add: sq_valid_fifo_count_def)

lemma filter_update_drop:
  assumes "i < length xs" "P (xs ! i)" "\<not> P y"
  shows "Suc (length (filter P (xs[i := y]))) = length (filter P xs)"
proof -
  have "xs = take i xs @ xs ! i # drop (Suc i) xs"
    using assms(1) by (simp add: id_take_nth_drop)
  then have "length (filter P xs) = length (filter P (take i xs @ xs ! i # drop (Suc i) xs))"
    by simp
  with assms show ?thesis by (simp add: upd_conv_take_nth_drop)
qed

lemma filter_update_same:
  assumes "i < length xs" "\<not> P (xs ! i)" "\<not> P y"
  shows "length (filter P (xs[i := y])) = length (filter P xs)"
proof -
  have "xs = take i xs @ xs ! i # drop (Suc i) xs"
    using assms(1) by (simp add: id_take_nth_drop)
  then have "length (filter P xs) = length (filter P (take i xs @ xs ! i # drop (Suc i) xs))"
    by simp
  with assms show ?thesis by (simp add: upd_conv_take_nth_drop)
qed

lemmas sq_inv_unfold =
  sq_credit_invariant_holds_def sq_valid_fifo_count_def sq_fifo_wf_def

lemma sq_inv_acquire: "sq_inv (q, held) \<Longrightarrow> sq_inv (snd (sq_acquire c q), held)"
  by (auto simp: sq_acquire_def sq_inv_unfold)

lemma sq_inv_push:
  "sq_inv (q, held) \<Longrightarrow> sq_enabled (SqPush t c) (q, held) \<Longrightarrow> sq_inv (snd (sq_push t c q), held)"
  by (auto simp: sq_push_def sq_inv_unfold Let_def split: if_splits)

lemma sq_inv_push_eos: "sq_inv (q, held) \<Longrightarrow> sq_inv (sq_push_eos p c q, held)"
  by (auto simp: sq_push_eos_eq sq_inv_unfold)

lemma sq_inv_pop: "sq_inv (q, held) \<Longrightarrow> sq_inv (sq_exec (SqPop c) (q, held))"
  by (cases "sq_fifo q")
    (auto simp: sq_pop_def sq_inv_unfold Let_def owes_credit_def)

lemma sq_inv_release:
  assumes "sq_inv (q, held)" "i < length held"
  shows "sq_inv (sq_exec (SqRelease i c) (q, held))"
proof (cases "owes_credit (held ! i)")
  case True
  then show ?thesis
    using assms filter_update_drop [of i held owes_credit "(held ! i)\<lparr>tok_released := True\<rparr>"]
    by (auto simp: sq_release_def sq_inv_unfold Let_def owes_credit_def)
next
  case False
  show ?thesis
  proof (cases "tok_released (held ! i)")
    case True
    then show ?thesis using assms by (simp add: sq_release_def sq_inv_unfold)
  next
    case unreleased: False
    with False have "\<not> tok_is_valid (held ! i)" by (simp add: owes_credit_def)
    moreover from this have "length (filter owes_credit (held[i := (held ! i)\<lparr>tok_released := True\<rparr>]))
        = length (filter owes_credit held)"
      by (intro filter_update_same) (use assms False in \<open>auto simp: owes_credit_def\<close>)
    ultimately show ?thesis
      using assms unreleased by (simp add: sq_release_def sq_inv_unfold Let_def)
  qed
qed

lemma sq_inv_tick: "sq_inv (q, held) \<Longrightarrow> sq_inv (sq_tick c q, held)"
  by (simp add: sq_tick_def sq_inv_unfold Let_def)

lemma sq_inv_reset: "sq_inv (q, held) \<Longrightarrow> filter owes_credit held = [] \<Longrightarrow> sq_inv (sq_reset q, held)"
  by (simp add: sq_reset_def sq_inv_unfold)

interpretation sqm: guarded_machine sq_enabled sq_exec sq_inv
proof
  fix s x
  assume inv: "sq_inv s" and en: "sq_enabled x s"
  obtain q held where s: "s = (q, held)" by (cases s)
  show "sq_inv (sq_exec x s)"
  proof (cases x)
    case (SqPop c)
    with inv s show ?thesis using sq_inv_pop by simp
  next
    case (SqRelease i c)
    with inv en s show ?thesis using sq_inv_release by simp
  qed (use inv en s in \<open>auto simp del: sq_inv.simps intro: sq_inv_acquire sq_inv_push sq_inv_push_eos
      sq_inv_tick sq_inv_reset\<close>)
qed

lemma sq_inv_init: "0 \<le> d \<Longrightarrow> sq_inv (sq_init (sq_new qid d ps cs k pol), [])"
  by (simp add: sq_init_def sq_new_def sq_inv_unfold)

section \<open>Sequence numbers and end of stream\<close>

text \<open>
  Payload tokens of one producer leave the queue in the order of their sequence numbers, with
  no gap: the numbers present in the FIFO are a contiguous range that ends just below the
  producer's next number.
\<close>

definition sq_seq_ids :: "stream_queue \<Rightarrow> nat \<Rightarrow> int list" where
  "sq_seq_ids q p =
     map sequence_id (filter (\<lambda>t. \<not> tok_is_eos t \<and> producer_id t = p) (sq_fifo q))"

definition sq_contiguous :: "stream_queue \<Rightarrow> bool" where
  "sq_contiguous q \<longleftrightarrow>
     (\<forall>p. \<exists>k \<le> dd_get (sq_producer_seq q) p. sq_seq_ids q p = [k..dd_get (sq_producer_seq q) p - 1])"

lemma sq_contiguousI:
  assumes "\<And>p. \<exists>k \<le> dd_get (sq_producer_seq q) p.
    sq_seq_ids q p = [k..dd_get (sq_producer_seq q) p - 1]"
  shows "sq_contiguous q"
  using assms by (simp add: sq_contiguous_def)

lemma sq_contiguous_frame:
  "sq_producer_seq q' = sq_producer_seq q \<Longrightarrow> (\<And>p. sq_seq_ids q' p = sq_seq_ids q p)
     \<Longrightarrow> sq_contiguous q \<Longrightarrow> sq_contiguous q'"
  by (simp add: sq_contiguous_def)

lemma dd_get_zeroes [simp]: "dd_get (map (\<lambda>p. (p, 0)) ps) j = 0"
  by (induction ps) (auto simp: dd_get_def)

lemma sq_contiguous_empty:
  "sq_fifo q = [] \<Longrightarrow> sq_contiguous q"
  by (auto simp: sq_contiguous_def sq_seq_ids_def)

lemma sq_contiguous_push:
  assumes "sq_contiguous q"
  shows "sq_contiguous (snd (sq_push t c q))"
proof (cases "tok_is_error t \<or> tok_is_eos t")
  case True
  then show ?thesis
    by (intro sq_contiguous_frame [OF _ _ assms]) (auto simp: sq_push_def sq_seq_ids_def)
next
  case False
  show ?thesis
  proof (rule sq_contiguousI)
    fix p
    let ?s = "dd_get (sq_producer_seq q) p"
    from assms obtain k where k: "k \<le> ?s" "sq_seq_ids q p = [k..?s - 1]"
      unfolding sq_contiguous_def by blast
    with False show "\<exists>k \<le> dd_get (sq_producer_seq (snd (sq_push t c q))) p.
        sq_seq_ids (snd (sq_push t c q)) p
          = [k..dd_get (sq_producer_seq (snd (sq_push t c q))) p - 1]"
      by (cases "producer_id t = p")
        (auto simp: sq_push_def Let_def sq_seq_ids_def dd_get_def AList.update_conv' upto_rec2
          intro: exI [of _ k])
  qed
qed

lemma sq_contiguous_pop:
  assumes "sq_contiguous q"
  shows "sq_contiguous (snd (sq_pop c q))"
proof (cases "sq_fifo q")
  case Nil
  then show ?thesis using assms
    by (auto simp: sq_pop_def sq_seq_ids_def intro: sq_contiguous_frame)
next
  case (Cons t ts)
  show ?thesis
  proof (rule sq_contiguousI)
    fix p
    let ?s = "dd_get (sq_producer_seq q) p"
    from assms obtain k where k: "k \<le> ?s" "sq_seq_ids q p = [k..?s - 1]"
      unfolding sq_contiguous_def by blast
    show "\<exists>k \<le> dd_get (sq_producer_seq (snd (sq_pop c q))) p.
        sq_seq_ids (snd (sq_pop c q)) p = [k..dd_get (sq_producer_seq (snd (sq_pop c q))) p - 1]"
    proof (cases "\<not> tok_is_eos t \<and> producer_id t = p")
      case True
      with Cons k have "k < ?s" by (cases "k = ?s") (auto simp: sq_seq_ids_def)
      moreover from this have "[k..?s - 1] = k # [k + 1..?s - 1]" by (simp add: upto_rec1)
      ultimately show ?thesis
        using True Cons k by (intro exI [of _ "k + 1"]) (auto simp: sq_pop_def Let_def sq_seq_ids_def)
    next
      case False
      with Cons k show ?thesis
        by (intro exI [of _ k]) (auto simp: sq_pop_def Let_def sq_seq_ids_def)
    qed
  qed
qed

lemma sq_contiguous_exec:
  assumes "sq_contiguous (fst s)"
  shows "sq_contiguous (fst (sq_exec x s))"
proof -
  obtain q held where s: "s = (q, held)" by (cases s)
  show ?thesis
  proof (cases x)
    case (SqPop c)
    with s show ?thesis
      using sq_contiguous_pop [of q c] assms by (auto split: prod.splits option.splits)
  next
    case (SqPush t c)
    with s show ?thesis using sq_contiguous_push assms by simp
  next
    case SqReset
    with s show ?thesis by (simp add: sq_reset_def sq_contiguous_empty)
  qed (use s assms in \<open>auto simp: sq_acquire_def sq_push_eos_eq sq_release_def sq_tick_def Let_def
      sq_seq_ids_def intro: sq_contiguous_frame split: prod.splits\<close>)
qed

interpretation sqseq: total_machine sq_exec "\<lambda>s. sq_contiguous (fst s)"
  by unfold_locales (rule sq_contiguous_exec)

lemma bit_shifted_one: "bit (m OR push_bit p 1 :: int) n \<longleftrightarrow> bit m n \<or> n = p"
  by (auto simp: bit_or_iff bit_exp_iff)

lemma bit_mask_fold:
  "bit (fold (\<lambda>p m. m OR push_bit p 1) ps (m :: int)) n \<longleftrightarrow> bit m n \<or> n \<in> set ps"
proof (induction ps arbitrary: m)
  case (Cons p ps)
  show ?case unfolding fold.simps o_apply Cons.IH bit_shifted_one by auto
qed simp

lemma bitmap_fold_eos:
  "sq_producer_eos_bitmap (fold (\<lambda>p. sq_push_eos p c) ps q)
     = fold (\<lambda>p m. m OR push_bit p 1) ps (sq_producer_eos_bitmap q)"
  by (induction ps arbitrary: q) (simp_all add: sq_push_eos_eq)

lemma eos_config_fold:
  "sq_eos_policy (fold (\<lambda>p. sq_push_eos p c) ps q) = sq_eos_policy q"
  "sq_producers (fold (\<lambda>p. sq_push_eos p c) ps q) = sq_producers q"
  by (induction ps arbitrary: q) (simp_all add: sq_push_eos_eq)

lemma sq_depth_exec: "sq_depth (fst (sq_exec x s)) = sq_depth (fst s)"
proof -
  obtain q held where s: "s = (q, held)" by (cases s)
  show ?thesis
    by (cases x) (auto simp: s sq_acquire_def sq_push_def sq_push_eos_eq sq_pop_def sq_release_def
        sq_tick_def sq_reset_def Let_def split: prod.splits list.splits)
qed

lemma sq_depth_run: "sq_depth (fst (run_ops sq_exec xs s)) = sq_depth (fst s)"
  by (induction xs arbitrary: s) (simp_all add: sq_depth_exec)

section \<open>Properties\<close>

text \<open>C37. Credit conservation of the stream queue: after any sequence of operations that follows
  the token life cycle (acquire, push, pop, release, with resets only when drained),
  the credits available, leased, held by payload tokens in the FIFO and held by popped but unreleased
  tokens add up to the depth, none of them is negative and available credit never exceeds the depth.\<close>

theorem sq_credit_conservation:
  assumes "0 \<le> d"
    and "legal_run sq_enabled sq_exec ops (sq_init (sq_new qid d ps cs k pol), [])"
    and "run_ops sq_exec ops (sq_init (sq_new qid d ps cs k pol), []) = (q, held)"
  shows "sq_credit_invariant_holds q \<and> 0 \<le> sq_credit_available q \<and> 0 \<le> sq_credit_leased q
    \<and> sq_popped_unreleased q = int (length (filter owes_credit held))
    \<and> sq_credit_available q \<le> d \<and> int (length (filter (\<lambda>t. \<not> tok_is_eos t) (sq_fifo q))) \<le> d"
proof -
  have inv: "sq_inv (q, held)"
    using sqm.run_inv [OF sq_inv_init assms(2)] assms(1,3) by (simp del: sq_inv.simps)
  have "sq_depth q = d"
    using sq_depth_run [of ops "(sq_init (sq_new qid d ps cs k pol), [])"] assms(3)
    by (simp add: sq_init_def sq_new_def)
  with inv show ?thesis by (auto simp: sq_credit_invariant_holds_def sq_valid_fifo_count_def)
qed

theorem sq_credit_conservation_witness:
  "\<exists>q held. run_ops sq_exec [SqAcquire 1, SqPush (new_token 7 TokenFlags_VALID 0) 1, SqPushEos 0 2,
      SqPop 3, SqAcquire 3, SqRelease 0 4] (sq_init (sq_new 0 2 [0] [1] SPSC ALL_PRODUCERS), [])
      = (q, held)
    \<and> sq_credit_invariant_holds q \<and> sq_credit_available q \<le> 2 \<and> sq_credit_leased q = 1"
proof -
  let ?ops = "[SqAcquire 1, SqPush (new_token 7 TokenFlags_VALID 0) 1, SqPushEos 0 2,
      SqPop 3, SqAcquire 3, SqRelease 0 4]"
  let ?s = "(sq_init (sq_new 0 2 [0] [1] SPSC ALL_PRODUCERS), [])"
  have legal: "legal_run sq_enabled sq_exec ?ops ?s" by code_simp
  have leased: "sq_credit_leased (fst (run_ops sq_exec ?ops ?s)) = 1" by code_simp
  show ?thesis
    using sq_credit_conservation [OF _ legal, of "fst (run_ops sq_exec ?ops ?s)"
        "snd (run_ops sq_exec ?ops ?s)"] leased
    by (intro exI [of _ "fst (run_ops sq_exec ?ops ?s)"] exI [of _ "snd (run_ops sq_exec ?ops ?s)"])
      (simp del: run_ops.simps)
qed

text \<open>Per-producer order: after any operations at all on an initialised queue, the sequence
  numbers of one producer's payload tokens in the FIFO are a contiguous ascending range ending
  just below that producer's next sequence number.\<close>

theorem sq_sequence_order:
  "\<exists>k. sq_seq_ids (fst (run_ops sq_exec ops (sq_init (sq_new qid d ps cs kd pol), []))) p
     = [k..dd_get (sq_producer_seq (fst (run_ops sq_exec ops
           (sq_init (sq_new qid d ps cs kd pol), [])))) p - 1]"
proof -
  have "sq_contiguous (fst (sq_init (sq_new qid d ps cs kd pol), []))"
    by (simp add: sq_contiguous_empty sq_init_def)
  from sqseq.any_run_inv [OF this] show ?thesis
    by (auto simp: sq_contiguous_def)
qed

text \<open>End of stream: under the all-producers policy the queue reports end of stream exactly
  when the set of producers that pushed an end-of-stream token is the declared producer set.\<close>

theorem sq_all_eos_exact:
  "sq_all_eos_seen (fold (\<lambda>p. sq_push_eos p c) ended (sq_init (sq_new qid d ps cs k ALL_PRODUCERS)))
     \<longleftrightarrow> set ended = set ps"
proof -
  let ?q = "sq_init (sq_new qid d ps cs k ALL_PRODUCERS)"
  have "sq_all_eos_seen (fold (\<lambda>p. sq_push_eos p c) ended ?q) \<longleftrightarrow>
      fold (\<lambda>p m. m OR push_bit p 1) ended (0 :: int) = fold (\<lambda>p m. m OR push_bit p 1) ps 0"
    by (simp add: sq_all_eos_seen_def sq_all_producer_mask_def eos_config_fold bitmap_fold_eos)
      (simp add: sq_init_def sq_new_def)
  also have "\<dots> \<longleftrightarrow> set ended = set ps"
    unfolding bit_eq_iff bit_mask_fold by auto
  finally show ?thesis .
qed

text \<open>Stale tokens after a reset: the generation stamp a reset bumps is not consulted by
  \<open>release\<close>. Releasing a payload token that was popped before the reset is accepted, lifts the
  available credit above the depth and drives the popped count to \<open>-1\<close>, and the reported
  credit invariant still evaluates to true.\<close>

theorem sq_stale_release_accepted:
  assumes "tok_is_valid t" "\<not> tok_released t" "tok_generation t < sq_generation (sq_reset q)"
  shows "sq_credit_available (snd (sq_release t c (sq_reset q))) = sq_depth q + 1
    \<and> sq_popped_unreleased (snd (sq_release t c (sq_reset q))) = -1
    \<and> sq_credit_invariant_holds (snd (sq_release t c (sq_reset q)))"
  using assms by (simp add: sq_release_def sq_reset_def Let_def sq_credit_invariant_holds_def
      sq_valid_fifo_count_def)

theorem sq_stale_release_accepted_witness:
  "sq_credit_available (snd (sq_release (new_token 0 TokenFlags_VALID 0) 9
     (sq_reset (sq_init (sq_new 0 4 [0] [1] SPSC ALL_PRODUCERS))))) = 5"
proof -
  let ?t = "new_token 0 TokenFlags_VALID 0"
  let ?q = "sq_init (sq_new 0 4 [0] [1] SPSC ALL_PRODUCERS)"
  have "tok_is_valid ?t" "\<not> tok_released ?t" "tok_generation ?t < sq_generation (sq_reset ?q)"
    "sq_depth ?q = 4" by code_simp+
  then show ?thesis using sq_stale_release_accepted [of ?t ?q 9] by simp
qed

end
