(* ===== verification/Mshr_Table.thy ===== *)
theory Mshr_Table
  imports Elenor_Prelude
begin

text \<open>
  The miss-status holding registers (\<open>pipeline_validator/memory/mshr.py\<close>): a bounded table of
  refill entries with leader/waiter merging per (generation, merge group), callback lists, and
  reconfiguration by profile generation. Callbacks are opaque values of type \<open>'cb\<close>.
\<close>

section \<open>State\<close>

datatype mshr_result =
    MshrAllocation int bool "string option" int
  | MshrWait string int

record 'cb mshr_entry =
  me_token :: int
  me_merge_group :: "string option"
  me_generation :: int
  me_callbacks :: "'cb list"

record 'cb mshr_table =
  mshr_capacity :: int
  mshr_generation :: int
  mshr_entries :: "(int, 'cb mshr_entry) dict"
  mshr_groups :: "(int \<times> string, int) dict"
  mshr_next_token :: int
  mshr_merged :: int
  mshr_stalls :: int
  mshr_callback_count :: int
  mshr_version :: int

record mshr_stats =
  st_active :: int
  st_merged :: int
  st_stalls :: int
  st_callbacks :: int
  st_capacity :: int
  st_version :: int
  st_generation :: int

section \<open>Operations\<close>

definition mshr_new :: "int \<Rightarrow> int \<Rightarrow> py_error + 'cb mshr_table" where
  "mshr_new capacity gen =
     (if capacity \<le> 0 then Inl (ValueError ''MSHR capacity must be > 0'')
      else if gen < 0 then Inl (ValueError ''MSHR generation must be non-negative'')
      else Inr \<lparr>mshr_capacity = capacity, mshr_generation = gen, mshr_entries = [],
                mshr_groups = [], mshr_next_token = 0, mshr_merged = 0, mshr_stalls = 0,
                mshr_callback_count = 0, mshr_version = 0\<rparr>)"

definition mshr_active_count :: "'cb mshr_table \<Rightarrow> int" where
  "mshr_active_count t = int (length (mshr_entries t))"

definition mshr_allocate ::
    "string option \<Rightarrow> int option \<Rightarrow> 'cb mshr_table \<Rightarrow> ('cb mshr_table, mshr_result) outcome" where
  "mshr_allocate merge_group gen t =
     (let requested = (case gen of None \<Rightarrow> mshr_generation t | Some g \<Rightarrow> g) in
      if requested \<noteq> mshr_generation t then
        raise (MemoryInvariantError ''MSHR allocation uses an old profile generation'') t
      else
        (case (case merge_group of None \<Rightarrow> None
               | Some m \<Rightarrow> dict_get (mshr_groups t) (requested, m)) of
           Some existing \<Rightarrow>
             ret (MshrAllocation existing False merge_group requested)
               (t\<lparr>mshr_merged := mshr_merged t + 1\<rparr>)
         | None \<Rightarrow>
             if int (length (mshr_entries t)) \<ge> mshr_capacity t then
               ret (MshrWait ''mshr_full'' (mshr_version t)) (t\<lparr>mshr_stalls := mshr_stalls t + 1\<rparr>)
             else
               (let tok = mshr_next_token t;
                    e = \<lparr>me_token = tok, me_merge_group = merge_group,
                         me_generation = requested, me_callbacks = []\<rparr>
                in ret (MshrAllocation tok True merge_group requested)
                     (t\<lparr>mshr_next_token := tok + 1,
                        mshr_entries := dict_set tok e (mshr_entries t),
                        mshr_groups := (case merge_group of None \<Rightarrow> mshr_groups t
                          | Some m \<Rightarrow> dict_set (requested, m) tok (mshr_groups t))\<rparr>))))"

definition mshr_wait :: "int \<Rightarrow> 'cb \<Rightarrow> 'cb mshr_table \<Rightarrow> ('cb mshr_table, unit) outcome" where
  "mshr_wait tok cb t =
     (case dict_get (mshr_entries t) tok of
        None \<Rightarrow> raise (MemoryInvariantError ''unknown MSHR token'') t
      | Some e \<Rightarrow>
          if me_generation e \<noteq> mshr_generation t then
            raise (MemoryInvariantError ''MSHR waiter targets an old generation'') t
          else ret () (t\<lparr>mshr_entries := dict_set tok (e\<lparr>me_callbacks := me_callbacks e @ [cb]\<rparr>) (mshr_entries t),
                         mshr_callback_count := mshr_callback_count t + 1\<rparr>))"

definition mshr_is_active :: "int \<Rightarrow> 'cb mshr_table \<Rightarrow> bool" where
  "mshr_is_active tok t \<longleftrightarrow> dict_get (mshr_entries t) tok \<noteq> None"

text \<open>\<open>cancel\<close> and \<open>complete\<close> remove an entry the same way; they differ in their result.\<close>

definition mshr_drop_entry :: "int \<Rightarrow> 'cb mshr_entry \<Rightarrow> 'cb mshr_table \<Rightarrow> 'cb mshr_table" where
  "mshr_drop_entry tok e t =
     t\<lparr>mshr_entries := dict_del tok (mshr_entries t),
       mshr_callback_count := mshr_callback_count t - int (length (me_callbacks e)),
       mshr_groups := (case me_merge_group e of None \<Rightarrow> mshr_groups t
         | Some m \<Rightarrow> dict_del (me_generation e, m) (mshr_groups t)),
       mshr_version := mshr_version t + 1\<rparr>"

definition mshr_cancel :: "int \<Rightarrow> int option \<Rightarrow> 'cb mshr_table \<Rightarrow> ('cb mshr_table, int) outcome" where
  "mshr_cancel tok gen t =
     (case dict_get (mshr_entries t) tok of
        None \<Rightarrow> raise (MemoryInvariantError ''unknown or completed MSHR token'') t
      | Some e \<Rightarrow>
          (let expected = (case gen of None \<Rightarrow> mshr_generation t | Some g \<Rightarrow> g) in
           if me_generation e \<noteq> expected \<or> expected \<noteq> mshr_generation t then
             raise (MemoryInvariantError ''old-generation MSHR cancellation rejected'') t
           else ret (int (length (me_callbacks e))) (mshr_drop_entry tok e t)))"

definition mshr_complete :: "int \<Rightarrow> int option \<Rightarrow> 'cb mshr_table \<Rightarrow> ('cb mshr_table, 'cb list) outcome" where
  "mshr_complete tok gen t =
     (case dict_get (mshr_entries t) tok of
        None \<Rightarrow> raise (MemoryInvariantError ''unknown or completed MSHR token'') t
      | Some e \<Rightarrow>
          (let expected = (case gen of None \<Rightarrow> mshr_generation t | Some g \<Rightarrow> g) in
           if me_generation e \<noteq> expected \<or> expected \<noteq> mshr_generation t then
             raise (MemoryInvariantError ''old-generation MSHR refill rejected'') t
           else ret (me_callbacks e) (mshr_drop_entry tok e t)))"

definition mshr_reconfigure :: "int \<Rightarrow> 'cb mshr_table \<Rightarrow> ('cb mshr_table, unit) outcome" where
  "mshr_reconfigure gen t =
     (if gen \<le> mshr_generation t then
        raise (MemoryInvariantError ''MSHR generation must increase monotonically'') t
      else if mshr_entries t \<noteq> [] \<or> mshr_groups t \<noteq> [] then
        raise (MemoryInvariantError ''cannot reconfigure MSHR with active refills'') t
      else ret () (t\<lparr>mshr_generation := gen, mshr_version := mshr_version t + 1\<rparr>))"

definition mshr_get_stats :: "'cb mshr_table \<Rightarrow> mshr_stats" where
  "mshr_get_stats t =
     \<lparr>st_active = int (length (mshr_entries t)), st_merged = mshr_merged t,
      st_stalls = mshr_stalls t, st_callbacks = mshr_callback_count t,
      st_capacity = mshr_capacity t, st_version = mshr_version t,
      st_generation = mshr_generation t\<rparr>"

definition mshr_reset :: "'cb mshr_table \<Rightarrow> ('cb mshr_table, unit) outcome" where
  "mshr_reset t =
     (if mshr_entries t \<noteq> [] then
        raise (MemoryInvariantError ''MSHR reset would discard active refills'') t
      else ret () (t\<lparr>mshr_groups := [], mshr_merged := 0, mshr_stalls := 0,
                     mshr_version := mshr_version t + 1\<rparr>))"

section \<open>Invariant\<close>

definition mshr_entries_ok :: "int \<Rightarrow> int \<Rightarrow> (int, 'cb mshr_entry) dict \<Rightarrow> bool" where
  "mshr_entries_ok gen nxt es \<longleftrightarrow>
     (\<forall>k e. dict_get es k = Some e \<longrightarrow>
        me_token e = k \<and> me_generation e = gen \<and> 0 \<le> k \<and> k < nxt)"

definition mshr_groups_match ::
    "int \<Rightarrow> (int, 'cb mshr_entry) dict \<Rightarrow> (int \<times> string, int) dict \<Rightarrow> bool" where
  "mshr_groups_match gen es gs \<longleftrightarrow>
     (\<forall>g m k. dict_get gs (g, m) = Some k \<longleftrightarrow>
        g = gen \<and> (\<exists>e. dict_get es k = Some e \<and> me_merge_group e = Some m))"

definition mshr_inv :: "'cb mshr_table \<Rightarrow> bool" where
  "mshr_inv t \<longleftrightarrow>
     0 < mshr_capacity t \<and> 0 \<le> mshr_next_token t
     \<and> keys_distinct (mshr_entries t) \<and> keys_distinct (mshr_groups t)
     \<and> int (length (mshr_entries t)) \<le> mshr_capacity t
     \<and> mshr_entries_ok (mshr_generation t) (mshr_next_token t) (mshr_entries t)
     \<and> mshr_groups_match (mshr_generation t) (mshr_entries t) (mshr_groups t)
     \<and> mshr_callback_count t = dict_sum (\<lambda>e. int (length (me_callbacks e))) (mshr_entries t)"

lemma mshr_entries_ok_set:
  "mshr_entries_ok gen nxt es \<Longrightarrow> me_token e = k \<Longrightarrow> me_generation e = gen \<Longrightarrow> 0 \<le> k \<Longrightarrow> k < nxt'
     \<Longrightarrow> nxt \<le> nxt' \<Longrightarrow> mshr_entries_ok gen nxt' (dict_set k e es)"
  by (fastforce simp: mshr_entries_ok_def AList.update_conv' split: if_splits)

lemma mshr_entries_ok_del: "mshr_entries_ok gen nxt es \<Longrightarrow> mshr_entries_ok gen nxt (dict_del k es)"
  by (simp add: mshr_entries_ok_def AList.delete_conv')

definition leads :: "(int, 'cb mshr_entry) dict \<Rightarrow> int \<Rightarrow> string \<Rightarrow> bool" where
  "leads es k m \<longleftrightarrow> (\<exists>e. dict_get es k = Some e \<and> me_merge_group e = Some m)"

lemma mshr_groups_match_iff:
  "mshr_groups_match gen es gs \<longleftrightarrow>
     (\<forall>g m k. dict_get gs (g, m) = Some k \<longleftrightarrow> g = gen \<and> leads es k m)"
  by (simp add: mshr_groups_match_def leads_def)

lemma leads_set:
  "leads (dict_set k e es) j m \<longleftrightarrow> (if j = k then me_merge_group e = Some m else leads es j m)"
  by (simp add: leads_def AList.update_conv')

lemma leads_del: "leads (dict_del k es) j m \<longleftrightarrow> j \<noteq> k \<and> leads es j m"
  by (auto simp: leads_def AList.delete_conv')

lemma leads_at:
  "dict_get es k = None \<Longrightarrow> \<not> leads es k m"
  "dict_get es k = Some e \<Longrightarrow> leads es k m \<longleftrightarrow> me_merge_group e = Some m"
  by (simp_all add: leads_def)

lemma mshr_groups_match_none:
  assumes "mshr_groups_match gen es gs" "me_merge_group e = None" "dict_get es k = None"
  shows "mshr_groups_match gen (dict_set k e es) gs"
proof -
  have "leads (dict_set k e es) = leads es" using assms by (auto simp: fun_eq_iff leads_set leads_at)
  with assms(1) show ?thesis by (simp add: mshr_groups_match_iff)
qed

lemma mshr_groups_match_keep:
  assumes "mshr_groups_match gen es gs" "dict_get es k = Some d" "me_merge_group e = me_merge_group d"
  shows "mshr_groups_match gen (dict_set k e es) gs"
proof -
  have "leads (dict_set k e es) = leads es" using assms by (auto simp: fun_eq_iff leads_set leads_at)
  with assms(1) show ?thesis by (simp add: mshr_groups_match_iff)
qed

lemma mshr_groups_match_some:
  assumes "mshr_groups_match gen es gs" "me_merge_group e = Some m" "dict_get es k = None"
    "dict_get gs (gen, m) = None"
  shows "mshr_groups_match gen (dict_set k e es) (dict_set (gen, m) k gs)"
proof -
  have "me_merge_group d \<noteq> Some m" if "dict_get es j = Some d" for j d
    using assms(1,4) that unfolding mshr_groups_match_def by (metis option.distinct(1))
  then have "dict_get (dict_set (gen, m) k gs) (g, n) = Some j \<longleftrightarrow>
      g = gen \<and> (\<exists>d. dict_get (dict_set k e es) j = Some d \<and> me_merge_group d = Some n)" for g n j
    using assms by (cases "g = gen \<and> n = m"; cases "j = k")
      (auto simp: AList.update_conv' mshr_groups_match_def)
  then show ?thesis by (simp add: mshr_groups_match_def)
qed

lemma mshr_groups_match_del_none:
  assumes "mshr_groups_match gen es gs" "dict_get es k = Some e" "me_merge_group e = None"
  shows "mshr_groups_match gen (dict_del k es) gs"
proof -
  have "leads (dict_del k es) = leads es" using assms by (auto simp: fun_eq_iff leads_del leads_at)
  with assms(1) show ?thesis by (simp add: mshr_groups_match_iff)
qed

lemma mshr_groups_match_del_some:
  assumes match: "mshr_groups_match gen es gs" and e: "dict_get es k = Some e"
    and m: "me_merge_group e = Some m"
  shows "mshr_groups_match gen (dict_del k es) (dict_del (gen, m) gs)"
proof -
  have k: "dict_get gs (gen, m) = Some k" using assms unfolding mshr_groups_match_def by blast
  have only: "j = k" if "dict_get es j = Some d" "me_merge_group d = Some m" for j d
  proof -
    from match that have "dict_get gs (gen, m) = Some j" unfolding mshr_groups_match_def by blast
    with k show "j = k" by simp
  qed
  have "dict_get (dict_del (gen, m) gs) (g, n) = Some j \<longleftrightarrow>
      g = gen \<and> (\<exists>d. dict_get (dict_del k es) j = Some d \<and> me_merge_group d = Some n)" for g n j
  proof (cases "j = k")
    case True
    have "dict_get gs (g, n) = Some k \<longleftrightarrow> g = gen \<and> n = m"
      using match e m unfolding mshr_groups_match_def by auto
    with True show ?thesis by (auto simp: AList.delete_conv')
  next
    case False
    with only match show ?thesis
      by (cases "g = gen \<and> n = m") (auto simp: AList.delete_conv' mshr_groups_match_def)
  qed
  then show ?thesis by (simp add: mshr_groups_match_def)
qed

lemma mshr_inv_new: "mshr_new c g = Inr t \<Longrightarrow> mshr_inv t"
  by (auto simp: mshr_new_def mshr_inv_def mshr_entries_ok_def mshr_groups_match_def split: if_splits)

lemma mshr_fresh_token: "mshr_inv t \<Longrightarrow> dict_get (mshr_entries t) (mshr_next_token t) = None"
  by (cases "dict_get (mshr_entries t) (mshr_next_token t)") (auto simp: mshr_inv_def mshr_entries_ok_def)

lemma mshr_group_entry:
  "mshr_inv t \<Longrightarrow> dict_get (mshr_groups t) (mshr_generation t, m) = Some k \<longleftrightarrow>
     (\<exists>e. dict_get (mshr_entries t) k = Some e \<and> me_merge_group e = Some m)"
  by (simp add: mshr_inv_def mshr_groups_match_def)

lemma mshr_one_entry_per_group:
  assumes "mshr_inv t" "dict_get (mshr_entries t) j = Some d" "dict_get (mshr_entries t) k = Some e"
    and "me_merge_group d = Some m" "me_merge_group e = Some m"
  shows "j = k"
  using mshr_group_entry [OF assms(1), of m j] mshr_group_entry [OF assms(1), of m k] assms(2-5)
  by auto

section \<open>Every operation keeps the invariant\<close>

lemma mshr_inv_insert:
  fixes t :: "'cb mshr_table"
  assumes inv: "mshr_inv t" and room: "int (length (mshr_entries t)) < mshr_capacity t"
    and new: "\<And>a. m = Some a \<Longrightarrow> dict_get (mshr_groups t) (mshr_generation t, a) = None"
  shows "mshr_inv (t\<lparr>mshr_next_token := mshr_next_token t + 1,
      mshr_entries := dict_set (mshr_next_token t) \<lparr>me_token = mshr_next_token t, me_merge_group = m,
        me_generation = mshr_generation t, me_callbacks = []\<rparr> (mshr_entries t),
      mshr_groups := (case m of None \<Rightarrow> mshr_groups t
        | Some a \<Rightarrow> dict_set (mshr_generation t, a) (mshr_next_token t) (mshr_groups t))\<rparr>)"
proof -
  let ?n = "mshr_next_token t" and ?g = "mshr_generation t"
  let ?e = "\<lparr>me_token = ?n, me_merge_group = m, me_generation = ?g, me_callbacks = []\<rparr> :: 'cb mshr_entry"
  note fresh = mshr_fresh_token [OF inv]
  have "mshr_entries_ok ?g (?n + 1) (dict_set ?n ?e (mshr_entries t))"
    using inv by (intro mshr_entries_ok_set [of _ ?n]) (auto simp: mshr_inv_def)
  moreover have "mshr_groups_match ?g (dict_set ?n ?e (mshr_entries t))
      (case m of None \<Rightarrow> mshr_groups t | Some a \<Rightarrow> dict_set (?g, a) ?n (mshr_groups t))"
    using inv fresh new
    by (cases m) (auto simp: mshr_inv_def intro: mshr_groups_match_none mshr_groups_match_some)
  ultimately show ?thesis
    using inv fresh room
    by (auto simp: mshr_inv_def dict_simps dict_sum_moves length_dict_set split: option.splits)
qed

lemma mshr_inv_allocate:
  assumes inv: "mshr_inv t"
  shows "mshr_inv (snd (mshr_allocate m g t))"
proof -
  have "mshr_inv (t\<lparr>mshr_merged := x\<rparr>)" "mshr_inv (t\<lparr>mshr_stalls := x\<rparr>)" for x
    using inv by (auto simp: mshr_inv_def)
  with inv mshr_inv_insert [OF inv, of m] show ?thesis
    by (auto simp: mshr_allocate_def Let_def split: option.splits)
qed

lemma mshr_inv_wait:
  assumes inv: "mshr_inv t"
  shows "mshr_inv (snd (mshr_wait k cb t))"
proof (cases "dict_get (mshr_entries t) k")
  case (Some e)
  let ?e = "e\<lparr>me_callbacks := me_callbacks e @ [cb]\<rparr>"
  have "me_token e = k" "me_generation e = mshr_generation t" "0 \<le> k" "k < mshr_next_token t"
    using inv Some by (auto simp: mshr_inv_def mshr_entries_ok_def)
  moreover from this inv have "mshr_entries_ok (mshr_generation t) (mshr_next_token t) (dict_set k ?e (mshr_entries t))"
    by (intro mshr_entries_ok_set) (auto simp: mshr_inv_def)
  moreover have "mshr_groups_match (mshr_generation t) (dict_set k ?e (mshr_entries t)) (mshr_groups t)"
    by (rule mshr_groups_match_keep [OF _ Some]) (use inv in \<open>auto simp: mshr_inv_def\<close>)
  ultimately show ?thesis
    using inv Some by (simp add: mshr_wait_def mshr_inv_def dict_simps dict_sum_moves length_dict_set)
qed (use inv in \<open>simp add: mshr_wait_def\<close>)

lemma mshr_inv_drop:
  assumes inv: "mshr_inv t" and e: "dict_get (mshr_entries t) k = Some e"
  shows "mshr_inv (mshr_drop_entry k e t)"
proof -
  have gen: "me_generation e = mshr_generation t"
    using assms by (auto simp: mshr_inv_def mshr_entries_ok_def)
  have "mshr_groups_match (mshr_generation t) (dict_del k (mshr_entries t))
      (case me_merge_group e of None \<Rightarrow> mshr_groups t | Some m \<Rightarrow> dict_del (mshr_generation t, m) (mshr_groups t))"
    using inv e by (cases "me_merge_group e")
      (auto simp: mshr_inv_def intro: mshr_groups_match_del_none mshr_groups_match_del_some)
  then show ?thesis
    using inv e gen
    by (auto simp: mshr_drop_entry_def mshr_inv_def dict_simps dict_sum_moves length_dict_del
        intro: mshr_entries_ok_del split: option.splits)
qed

lemma mshr_inv_cancel: "mshr_inv t \<Longrightarrow> mshr_inv (snd (mshr_cancel k g t))"
  by (auto simp: mshr_cancel_def Let_def intro: mshr_inv_drop split: option.splits)

lemma mshr_inv_complete: "mshr_inv t \<Longrightarrow> mshr_inv (snd (mshr_complete k g t))"
  by (auto simp: mshr_complete_def Let_def intro: mshr_inv_drop split: option.splits)

lemma mshr_inv_reconfigure: "mshr_inv t \<Longrightarrow> mshr_inv (snd (mshr_reconfigure g t))"
  by (auto simp: mshr_reconfigure_def mshr_inv_def mshr_entries_ok_def mshr_groups_match_def)

lemma mshr_inv_reset: "mshr_inv t \<Longrightarrow> mshr_inv (snd (mshr_reset t))"
  by (auto simp: mshr_reset_def mshr_inv_def mshr_groups_match_def)

datatype 'cb mshr_op =
    MshrAllocate "string option" "int option" | MshrWaitOn int 'cb | MshrCancel int "int option"
  | MshrComplete int "int option" | MshrReconfigure int | MshrReset

fun mshr_exec :: "'cb mshr_op \<Rightarrow> 'cb mshr_table \<Rightarrow> 'cb mshr_table" where
  "mshr_exec (MshrAllocate m g) t = snd (mshr_allocate m g t)"
| "mshr_exec (MshrWaitOn k cb) t = snd (mshr_wait k cb t)"
| "mshr_exec (MshrCancel k g) t = snd (mshr_cancel k g t)"
| "mshr_exec (MshrComplete k g) t = snd (mshr_complete k g t)"
| "mshr_exec (MshrReconfigure g) t = snd (mshr_reconfigure g t)"
| "mshr_exec MshrReset t = snd (mshr_reset t)"

lemmas mshr_op_defs = mshr_allocate_def mshr_wait_def mshr_cancel_def mshr_complete_def
  mshr_drop_entry_def mshr_reconfigure_def mshr_reset_def

lemma mshr_exec_inv: "mshr_inv t \<Longrightarrow> mshr_inv (mshr_exec x t)"
  by (cases x) (auto intro: mshr_inv_allocate mshr_inv_wait mshr_inv_cancel mshr_inv_complete
      mshr_inv_reconfigure mshr_inv_reset)

lemma mshr_token_mono: "mshr_next_token t \<le> mshr_next_token (mshr_exec x t)"
  by (cases x) (auto simp: mshr_op_defs Let_def split: option.splits)

lemma mshr_generation_mono: "mshr_generation t \<le> mshr_generation (mshr_exec x t)"
  by (cases x) (auto simp: mshr_op_defs Let_def split: option.splits)

interpretation mshr_tok: monotone_machine mshr_exec mshr_inv mshr_next_token
  by unfold_locales (auto intro: mshr_exec_inv mshr_token_mono)

interpretation mshr_gen: monotone_machine mshr_exec mshr_inv mshr_generation
  by unfold_locales (auto intro: mshr_exec_inv mshr_generation_mono)

lemma mshr_capacity_run: "mshr_capacity (run_ops mshr_exec xs t) = mshr_capacity t"
proof (induction xs arbitrary: t)
  case (Cons x xs)
  have "mshr_capacity (mshr_exec x t) = mshr_capacity t"
    by (cases x) (auto simp: mshr_op_defs Let_def split: option.splits)
  with Cons show ?case by simp
qed simp

text \<open>Waiting callbacks pile up at the end of the entry they wait on.\<close>

lemma mshr_wait_all:
  assumes "dict_get (mshr_entries t) k = Some e" "me_generation e = mshr_generation t"
  shows "\<exists>e'. dict_get (mshr_entries (run_ops mshr_exec (map (MshrWaitOn k) cbs) t)) k = Some e'
    \<and> me_callbacks e' = me_callbacks e @ cbs \<and> me_generation e' = me_generation e
    \<and> mshr_generation (run_ops mshr_exec (map (MshrWaitOn k) cbs) t) = mshr_generation t"
  using assms
proof (induction cbs arbitrary: t e)
  case (Cons cb cbs)
  let ?t = "mshr_exec (MshrWaitOn k cb) t"
  have "dict_get (mshr_entries ?t) k = Some (e\<lparr>me_callbacks := me_callbacks e @ [cb]\<rparr>)"
    and "mshr_generation ?t = mshr_generation t"
    using Cons.prems by (simp_all add: mshr_wait_def AList.update_conv')
  with Cons.IH [of ?t "e\<lparr>me_callbacks := me_callbacks e @ [cb]\<rparr>"] Cons.prems
  show ?case by auto
qed simp

section \<open>Properties\<close>

text \<open>C35. Bounded table, exact bookkeeping: after any sequence of allocations, waits, cancels,
  completions, reconfigurations and resets, rejected or not, the table holds at most its
  capacity of entries, every entry belongs to the current generation, at most one entry
  leads each merge group, and the callback counter equals the callbacks in the entries.\<close>

theorem mshr_bounded_and_exact:
  assumes "mshr_new cap gen = Inr t0" and "t = run_ops mshr_exec ops t0"
  shows "mshr_active_count t \<le> cap
    \<and> (\<forall>k e. dict_get (mshr_entries t) k = Some e \<longrightarrow> me_generation e = mshr_generation t)
    \<and> (\<forall>j k d e m. dict_get (mshr_entries t) j = Some d \<and> dict_get (mshr_entries t) k = Some e
         \<and> me_merge_group d = Some m \<and> me_merge_group e = Some m \<longrightarrow> j = k)
    \<and> st_callbacks (mshr_get_stats t)
        = dict_sum (\<lambda>e. int (length (me_callbacks e))) (mshr_entries t)"
proof -
  have inv: "mshr_inv t"
    unfolding assms(2) by (rule mshr_tok.any_run_inv [OF mshr_inv_new [OF assms(1)]])
  have "mshr_capacity t = cap"
    using assms by (auto simp: mshr_capacity_run mshr_new_def split: if_splits)
  with inv have "mshr_active_count t \<le> cap" by (simp add: mshr_inv_def mshr_active_count_def)
  moreover have "\<forall>k e. dict_get (mshr_entries t) k = Some e \<longrightarrow> me_generation e = mshr_generation t"
    using inv by (simp add: mshr_inv_def mshr_entries_ok_def)
  moreover have "\<forall>j k d e m. dict_get (mshr_entries t) j = Some d \<and> dict_get (mshr_entries t) k = Some e
         \<and> me_merge_group d = Some m \<and> me_merge_group e = Some m \<longrightarrow> j = k"
    using mshr_one_entry_per_group [OF inv] by blast
  moreover have "st_callbacks (mshr_get_stats t)
        = dict_sum (\<lambda>e. int (length (me_callbacks e))) (mshr_entries t)"
    using inv by (simp add: mshr_inv_def mshr_get_stats_def)
  ultimately show ?thesis by blast
qed

theorem mshr_bounded_and_exact_witness:
  "\<exists>t0 t :: nat mshr_table. mshr_new 2 5 = Inr t0
    \<and> t = run_ops mshr_exec [MshrAllocate (Some ''a'') None, MshrWaitOn 0 7, MshrAllocate (Some ''a'') None,
        MshrAllocate None (Some 5), MshrAllocate None None, MshrComplete 1 None] t0
    \<and> mshr_active_count t \<le> 2"
proof -
  have n: "mshr_new 2 5 = Inr (projr (mshr_new 2 5 :: py_error + nat mshr_table))" by code_simp
  show ?thesis using mshr_bounded_and_exact [OF n refl] n by blast
qed

text \<open>Refill wake-up: a leader's token is fresh; callbacks registered on it are all handed
  back by its completion, in registration order; the completed token is no longer active, and
  completing it again is rejected without any change.\<close>

theorem mshr_leader_wakeup:
  assumes "mshr_inv t"
    and "mshr_allocate m None t = (Inr (MshrAllocation k True m g), t1)"
    and "t2 = run_ops mshr_exec (map (MshrWaitOn k) cbs) t1"
  shows "\<not> mshr_is_active k t \<and> mshr_is_active k t1
    \<and> fst (mshr_complete k None t2) = Inr cbs
    \<and> \<not> mshr_is_active k (snd (mshr_complete k None t2))
    \<and> mshr_complete k None (snd (mshr_complete k None t2))
        = (Inl (MemoryInvariantError ''unknown or completed MSHR token''), snd (mshr_complete k None t2))"
proof -
  from assms(2) have k: "k = mshr_next_token t"
    and e: "dict_get (mshr_entries t1) k =
      Some \<lparr>me_token = k, me_merge_group = m, me_generation = mshr_generation t, me_callbacks = []\<rparr>"
    and gen: "mshr_generation t1 = mshr_generation t"
    by (auto simp: mshr_allocate_def Let_def AList.update_conv' split: option.splits if_splits)
  from mshr_wait_all [OF e, of cbs] gen obtain e' where
    "dict_get (mshr_entries t2) k = Some e'" "me_callbacks e' = cbs"
    "me_generation e' = mshr_generation t2"
    unfolding assms(3) by auto
  then show ?thesis
    using mshr_fresh_token [OF assms(1)] k e
    by (simp add: mshr_is_active_def mshr_complete_def Let_def mshr_drop_entry_def AList.delete_conv')
qed

theorem mshr_leader_wakeup_witness:
  "fst (mshr_complete 0 None (run_ops mshr_exec (map (MshrWaitOn 0) [10, 11 :: nat])
     (snd (mshr_allocate (Some ''g'') None (projr (mshr_new 1 0)))))) = Inr [10, 11]"
proof -
  let ?t = "projr (mshr_new 1 0) :: nat mshr_table"
  have inv: "mshr_inv ?t"
    by (rule mshr_inv_new [of 1 0]) code_simp
  have al: "mshr_allocate (Some ''g'') None ?t
      = (Inr (MshrAllocation 0 True (Some ''g'') 0), snd (mshr_allocate (Some ''g'') None ?t))"
    by code_simp
  show ?thesis using mshr_leader_wakeup [OF inv al refl, of "[10, 11]"] by blast
qed

text \<open>C36. Generation isolation: once a table has been reconfigured, no later operation sequence
  brings the old generation back: every allocation, cancellation or completion that names a
  generation below the reconfigured one is rejected and leaves the table unchanged.\<close>

theorem mshr_old_generation_rejected:
  assumes "mshr_inv t" "mshr_reconfigure g t = (Inr (), t1)"
    and "old < g" and "t2 = run_ops mshr_exec ops t1"
  shows "(\<exists>e. mshr_allocate m (Some old) t2 = (Inl e, t2))
    \<and> (\<exists>e. mshr_complete k (Some old) t2 = (Inl e, t2))
    \<and> (\<exists>e. mshr_cancel k (Some old) t2 = (Inl e, t2))"
proof -
  have inv1: "mshr_inv t1" using mshr_inv_reconfigure [OF assms(1), of g] assms(2) by simp
  have "mshr_generation t1 = g" using assms(2) by (auto simp: mshr_reconfigure_def split: if_splits)
  with mshr_gen.clock_run_mono [OF inv1, of ops] assms(3,4) have "old < mshr_generation t2" by simp
  then show ?thesis
    by (auto simp: mshr_allocate_def mshr_complete_def mshr_cancel_def Let_def split: option.splits)
qed

theorem mshr_old_generation_rejected_witness:
  "\<exists>e t2. t2 = run_ops mshr_exec [MshrAllocate None None]
      (snd (mshr_reconfigure 3 (projr (mshr_new 1 2 :: py_error + nat mshr_table))))
    \<and> mshr_complete 0 (Some 2) t2 = (Inl e, t2)"
proof -
  let ?t = "projr (mshr_new 1 2) :: nat mshr_table"
  have inv: "mshr_inv ?t" by (rule mshr_inv_new [of 1 2]) code_simp
  have r: "mshr_reconfigure 3 ?t = (Inr (), snd (mshr_reconfigure 3 ?t))" by code_simp
  have "(2 :: int) < 3" by simp
  from mshr_old_generation_rejected [OF inv r this refl, of None "[MshrAllocate None None]" 0]
  show ?thesis by blast
qed

end
