(* ===== verification/Noc_Router.thy ===== *)
theory Noc_Router
  imports Elenor_Prelude "HOL-Library.Multiset"
begin

text \<open>
  The network-on-chip router (\<open>pipeline_validator/memory/noc.py\<close>): four virtual channels with
  credits, priority arbitration with the starvation branch, tagged flits whose credit returns
  with their acknowledgement, cancellation and reset. Trace emission is output only and absent.
\<close>

section \<open>Flits and virtual channels\<close>

definition normalize_vc_id :: "int \<Rightarrow> py_error + int" where
  "normalize_vc_id vc = (if vc \<in> {0, 1, 2, 3} then Inr vc else Inl (ValueError ''unknown NoC VC id''))"

record flit =
  fl_vc :: int
  fl_src :: int
  fl_dst :: int
  fl_bytes_total :: int
  fl_tag :: string
  fl_arrived_cycle :: int

record virtual_channel =
  vc_id :: int
  vc_chan_depth :: int
  vc_priority :: int
  vc_credit_available :: int
  vc_pending :: "flit list"
  vc_occupancy_cycles :: int
  vc_stall_cycles :: int
  vc_starvation :: int

definition vc_new :: "int \<Rightarrow> int \<Rightarrow> int \<Rightarrow> virtual_channel" where
  "vc_new i depth prio =
     \<lparr>vc_id = i, vc_chan_depth = depth, vc_priority = prio, vc_credit_available = depth,
      vc_pending = [], vc_occupancy_cycles = 0, vc_stall_cycles = 0, vc_starvation = 0\<rparr>"

definition vc_can_send :: "virtual_channel \<Rightarrow> bool" where
  "vc_can_send c \<longleftrightarrow> vc_credit_available c > 0"

definition vc_enqueue :: "flit \<Rightarrow> int \<Rightarrow> virtual_channel \<Rightarrow> (virtual_channel, unit) outcome" where
  "vc_enqueue f cycle c =
     (case normalize_vc_id (fl_vc f) of
        Inl e \<Rightarrow> raise e c
      | Inr v \<Rightarrow>
          if v \<noteq> vc_id c then raise (ValueError ''NoC flit enqueued on the wrong virtual channel'') c
          else ret () (c\<lparr>vc_pending := vc_pending c @ [f\<lparr>fl_vc := vc_id c, fl_arrived_cycle := cycle\<rparr>]\<rparr>))"

definition vc_try_send :: "int \<Rightarrow> virtual_channel \<Rightarrow> flit option \<times> virtual_channel" where
  "vc_try_send cycle c =
     (case vc_pending c of
        [] \<Rightarrow> (None, c)
      | f # fs \<Rightarrow>
          if \<not> vc_can_send c then
            (None, c\<lparr>vc_stall_cycles := vc_stall_cycles c + 1, vc_starvation := vc_starvation c + 1\<rparr>)
          else
            (Some f, c\<lparr>vc_pending := fs, vc_credit_available := vc_credit_available c - 1,
                       vc_starvation := 0\<rparr>))"

definition vc_return_credit :: "int \<Rightarrow> virtual_channel \<Rightarrow> virtual_channel" where
  "vc_return_credit n c = c\<lparr>vc_credit_available := min (vc_chan_depth c) (vc_credit_available c + n)\<rparr>"

definition vc_occupancy :: "virtual_channel \<Rightarrow> int" where
  "vc_occupancy c = int (length (vc_pending c))"

definition vc_tick :: "virtual_channel \<Rightarrow> virtual_channel" where
  "vc_tick c = c\<lparr>vc_occupancy_cycles := vc_occupancy_cycles c + vc_occupancy c\<rparr>"

definition vc_reset :: "virtual_channel \<Rightarrow> virtual_channel" where
  "vc_reset c = c\<lparr>vc_credit_available := vc_chan_depth c, vc_pending := [], vc_occupancy_cycles := 0,
     vc_stall_cycles := 0, vc_starvation := 0\<rparr>"

section \<open>The router\<close>

record noc_router =
  noc_vc_depth :: int
  noc_router_latency_cycles :: int
  noc_vcs :: "(int, virtual_channel) dict"
  noc_switch_contention :: int
  noc_last_cycle :: int
  noc_traversed :: "(string, int) dict"

definition noc_new :: "int \<Rightarrow> int \<Rightarrow> noc_router" where
  "noc_new depth latency =
     \<lparr>noc_vc_depth = depth, noc_router_latency_cycles = latency,
      noc_vcs = map (\<lambda>i. (i, vc_new i depth i)) [0, 1, 2, 3],
      noc_switch_contention = 0, noc_last_cycle = 0, noc_traversed = []\<rparr>"

definition noc_set_vc :: "int \<Rightarrow> virtual_channel \<Rightarrow> noc_router \<Rightarrow> noc_router" where
  "noc_set_vc v c r = r\<lparr>noc_vcs := dict_set v c (noc_vcs r)\<rparr>"

definition noc_send :: "int \<Rightarrow> flit \<Rightarrow> int \<Rightarrow> noc_router \<Rightarrow> (noc_router, unit) outcome" where
  "noc_send vc f cycle r =
     (case normalize_vc_id vc of
        Inl e \<Rightarrow> raise e r
      | Inr v \<Rightarrow>
          (case normalize_vc_id (fl_vc f) of
             Inl e \<Rightarrow> raise e r
           | Inr w \<Rightarrow>
               if w \<noteq> v then raise (ValueError ''NoC flit VC does not match enqueue VC'') r
               else
                 (let r1 = r\<lparr>noc_last_cycle := cycle\<rparr> in
                  case dict_get (noc_vcs r1) v of
                    None \<Rightarrow> raise KeyError r1
                  | Some c \<Rightarrow>
                      (case vc_enqueue (f\<lparr>fl_vc := v\<rparr>) cycle c of
                         (Inl e, c') \<Rightarrow> raise e (noc_set_vc v c' r1)
                       | (Inr _, c') \<Rightarrow> ret () (noc_set_vc v c' r1)))))"

definition noc_note_traversed :: "flit \<Rightarrow> int \<Rightarrow> noc_router \<Rightarrow> (noc_router, unit) outcome" where
  "noc_note_traversed f v r =
     (if fl_tag f \<noteq> [] then
        if dict_get (noc_traversed r) (fl_tag f) \<noteq> None then
          raise (RuntimeError ''duplicate in-flight NoC tag'') r
        else ret () (r\<lparr>noc_traversed := dict_set (fl_tag f) v (noc_traversed r)\<rparr>)
      else ret () r)"

text \<open>The arbitration loop of \<open>step\<close>, with the starvation branch of channel 0 written out.\<close>

fun noc_arbitrate ::
    "int list \<Rightarrow> int \<Rightarrow> flit list \<Rightarrow> int \<Rightarrow> noc_router \<Rightarrow> (noc_router, flit list \<times> int) outcome" where
  "noc_arbitrate [] cycle sent cont r = ret (sent, cont) r"
| "noc_arbitrate (v # vs) cycle sent cont r =
     (case dict_get (noc_vcs r) v of
        None \<Rightarrow> raise KeyError r
      | Some c \<Rightarrow>
          if vc_id c = 0 \<and> vc_starvation c > 4
             \<and> vc_pending c \<noteq> [] \<and> vc_credit_available c > 0 then
            (let f = hd (vc_pending c);
                 c' = c\<lparr>vc_pending := tl (vc_pending c),
                        vc_credit_available := vc_credit_available c - 1, vc_starvation := 0\<rparr>
             in and_then (noc_note_traversed f v (noc_set_vc v c' r))
                  (\<lambda>_. noc_arbitrate vs cycle (sent @ [f]) cont))
          else
            (case vc_try_send cycle c of
               (Some f, c') \<Rightarrow>
                 and_then (noc_note_traversed f v (noc_set_vc v c' r))
                   (\<lambda>_. noc_arbitrate vs cycle (sent @ [f]) cont)
             | (None, c') \<Rightarrow>
                 noc_arbitrate vs cycle sent (if vc_occupancy c' > 0 then cont + 1 else cont)
                   (noc_set_vc v c' r)))"

definition noc_step :: "int \<Rightarrow> noc_router \<Rightarrow> (noc_router, flit list) outcome" where
  "noc_step cycle r =
     (let r1 = r\<lparr>noc_last_cycle := cycle,
                 noc_vcs := map (\<lambda>(v, c). (v, vc_tick c)) (noc_vcs r)\<rparr>
      in and_then (noc_arbitrate (sort (dict_keys (noc_vcs r1))) cycle [] 0 r1)
           (\<lambda>(sent, cont) r2. ret sent (r2\<lparr>noc_switch_contention := noc_switch_contention r2 + cont\<rparr>)))"

definition noc_contains :: "string \<Rightarrow> noc_router \<Rightarrow> bool" where
  "noc_contains tag r \<longleftrightarrow>
     list_ex (\<lambda>c. list_ex (\<lambda>f. fl_tag f = tag) (vc_pending c)) (dict_values (noc_vcs r))"

definition noc_is_traversed :: "string \<Rightarrow> noc_router \<Rightarrow> bool" where
  "noc_is_traversed tag r \<longleftrightarrow> dict_get (noc_traversed r) tag \<noteq> None"

text \<open>The nested search of \<open>cancel\<close>: the first channel, in dictionary order, that holds the tag.\<close>

fun drop_tagged :: "string \<Rightarrow> flit list \<Rightarrow> flit list" where
  "drop_tagged tag [] = []"
| "drop_tagged tag (f # fs) = (if fl_tag f = tag then fs else f # drop_tagged tag fs)"

definition noc_cancel :: "string \<Rightarrow> noc_router \<Rightarrow> int option \<times> noc_router" where
  "noc_cancel tag r =
     (case find (\<lambda>(v, c). list_ex (\<lambda>f. fl_tag f = tag) (vc_pending c)) (noc_vcs r) of
        None \<Rightarrow> (None, r)
      | Some (v, c) \<Rightarrow>
          (Some (vc_id c), noc_set_vc v (c\<lparr>vc_pending := drop_tagged tag (vc_pending c)\<rparr>) r))"

definition noc_return_credit ::
    "int \<Rightarrow> int \<Rightarrow> string option \<Rightarrow> noc_router \<Rightarrow> (noc_router, unit) outcome" where
  "noc_return_credit vc n tag r =
     (case normalize_vc_id vc of
        Inl e \<Rightarrow> raise e r
      | Inr v \<Rightarrow>
          (let credit = (\<lambda>r'. case dict_get (noc_vcs r') v of
                           None \<Rightarrow> raise KeyError r'
                         | Some c \<Rightarrow> ret () (noc_set_vc v (vc_return_credit n c) r'))
           in case tag of
                None \<Rightarrow> credit r
              | Some t \<Rightarrow>
                  (case dict_get (noc_traversed r) t of
                     None \<Rightarrow> raise (RuntimeError ''unknown or already acknowledged NoC tag'') r
                   | Some w \<Rightarrow>
                       if w \<noteq> v \<or> n \<noteq> 1 then
                         raise (RuntimeError ''NoC acknowledgement does not match traversed flit'')
                           (r\<lparr>noc_traversed := dict_set t w (dict_del t (noc_traversed r))\<rparr>)
                       else credit (r\<lparr>noc_traversed := dict_del t (noc_traversed r)\<rparr>))))"

definition noc_is_quiescent :: "noc_router \<Rightarrow> bool" where
  "noc_is_quiescent r \<longleftrightarrow>
     noc_traversed r = []
     \<and> list_all (\<lambda>c. vc_pending c = [] \<and> vc_credit_available c = vc_chan_depth c) (dict_values (noc_vcs r))"

definition noc_reset :: "noc_router \<Rightarrow> (noc_router, unit) outcome" where
  "noc_reset r =
     (if \<not> noc_is_quiescent r then
        raise (RuntimeError ''NoC reset requires queued and traversed flits to drain'') r
      else ret () (r\<lparr>noc_vcs := map (\<lambda>(v, c). (v, vc_reset c)) (noc_vcs r), noc_traversed := [],
                     noc_switch_contention := 0\<rparr>))"

section \<open>Arbitration\<close>

text \<open>One channel's turn without the starvation branch, and the loop built on it.\<close>

fun noc_arbitrate_plain ::
    "int list \<Rightarrow> int \<Rightarrow> flit list \<Rightarrow> int \<Rightarrow> noc_router \<Rightarrow> (noc_router, flit list \<times> int) outcome" where
  "noc_arbitrate_plain [] cycle sent cont r = ret (sent, cont) r"
| "noc_arbitrate_plain (v # vs) cycle sent cont r =
     (case dict_get (noc_vcs r) v of
        None \<Rightarrow> raise KeyError r
      | Some c \<Rightarrow>
          (case vc_try_send cycle c of
             (Some f, c') \<Rightarrow>
               and_then (noc_note_traversed f v (noc_set_vc v c' r))
                 (\<lambda>_. noc_arbitrate_plain vs cycle (sent @ [f]) cont)
           | (None, c') \<Rightarrow>
               noc_arbitrate_plain vs cycle sent (if vc_occupancy c' > 0 then cont + 1 else cont)
                 (noc_set_vc v c' r)))"

definition vc_ready :: "virtual_channel \<Rightarrow> bool" where
  "vc_ready c \<longleftrightarrow> vc_pending c \<noteq> [] \<and> vc_credit_available c > 0"

definition vc_sent :: "virtual_channel \<Rightarrow> virtual_channel" where
  "vc_sent c = c\<lparr>vc_pending := tl (vc_pending c),
     vc_credit_available := vc_credit_available c - 1, vc_starvation := 0\<rparr>"

definition vc_stalled :: "virtual_channel \<Rightarrow> virtual_channel" where
  "vc_stalled c = (if vc_pending c = [] then c
     else c\<lparr>vc_stall_cycles := vc_stall_cycles c + 1, vc_starvation := vc_starvation c + 1\<rparr>)"

lemma vc_try_send_ready: "vc_ready c \<Longrightarrow> vc_try_send cycle c = (Some (hd (vc_pending c)), vc_sent c)"
  by (cases "vc_pending c") (auto simp: vc_try_send_def vc_ready_def vc_can_send_def vc_sent_def)

lemma vc_try_send_blocked: "\<not> vc_ready c \<Longrightarrow> vc_try_send cycle c = (None, vc_stalled c)"
  by (cases "vc_pending c") (auto simp: vc_try_send_def vc_ready_def vc_can_send_def vc_stalled_def)

lemma noc_arbitrate_eq_plain: "noc_arbitrate vs cycle sent cont r = noc_arbitrate_plain vs cycle sent cont r"
proof (induction vs arbitrary: sent cont r)
  case (Cons v vs)
  show ?case
  proof (cases "dict_get (noc_vcs r) v")
    case (Some c)
    have "vc_try_send cycle c = (Some (hd (vc_pending c)),
        c\<lparr>vc_pending := tl (vc_pending c), vc_credit_available := vc_credit_available c - 1,
          vc_starvation := 0\<rparr>)"
      if "vc_pending c \<noteq> []" "vc_credit_available c > 0"
      using vc_try_send_ready [of c cycle] that by (simp add: vc_ready_def vc_sent_def)
    moreover have "noc_arbitrate vs cycle s n = noc_arbitrate_plain vs cycle s n" for s n
      by (rule ext) (rule Cons)
    ultimately show ?thesis
      using Some by (simp add: Let_def split: prod.splits option.splits)
  qed simp
qed simp

definition noc_served :: "int list \<Rightarrow> noc_router \<Rightarrow> flit list" where
  "noc_served vs r = concat (map (\<lambda>v. case dict_get (noc_vcs r) v of
     None \<Rightarrow> [] | Some c \<Rightarrow> if vc_ready c then [hd (vc_pending c)] else []) vs)"

section \<open>Invariant: credits owed by traversed flits\<close>

definition noc_owed :: "int \<Rightarrow> noc_router \<Rightarrow> int" where
  "noc_owed v r = dict_sum (\<lambda>w. if w = v then 1 else 0) (noc_traversed r)"

definition noc_tags :: "noc_router \<Rightarrow> string multiset" where
  "noc_tags r = dict_sum (\<lambda>c. mset (map fl_tag (vc_pending c))) (noc_vcs r)
     + mset (dict_keys (noc_traversed r))"

definition vc_ok :: "noc_router \<Rightarrow> int \<Rightarrow> virtual_channel \<Rightarrow> bool" where
  "vc_ok r v c \<longleftrightarrow> vc_id c = v \<and> vc_chan_depth c = noc_vc_depth r \<and> 0 \<le> vc_credit_available c
     \<and> vc_credit_available c + noc_owed v r = noc_vc_depth r
     \<and> (\<forall>f \<in> set (vc_pending c). fl_vc f = v \<and> fl_tag f \<noteq> [])"

definition noc_inv :: "noc_router \<Rightarrow> bool" where
  "noc_inv r \<longleftrightarrow> dict_keys (noc_vcs r) = [0, 1, 2, 3]
     \<and> (\<forall>v c. dict_get (noc_vcs r) v = Some c \<longrightarrow> vc_ok r v c)
     \<and> keys_distinct (noc_traversed r) \<and> (\<forall>t. count (noc_tags r) t \<le> 1)"

lemma noc_inv_channel:
  assumes "noc_inv r" "v \<in> {0, 1, 2, 3}"
  obtains c where "dict_get (noc_vcs r) v = Some c" "vc_ok r v c"
proof -
  from assms have "v \<in> set (dict_keys (noc_vcs r))" by (simp add: noc_inv_def)
  then obtain c where "dict_get (noc_vcs r) v = Some c"
    by (cases "dict_get (noc_vcs r) v") (auto simp: dict_get_None_iff)
  with assms show ?thesis by (intro that) (auto simp: noc_inv_def)
qed

lemma noc_keys_set_vc:
  "dict_get (noc_vcs r) v = Some c \<Longrightarrow> dict_keys (noc_vcs (noc_set_vc v c' r)) = dict_keys (noc_vcs r)"
  by (auto simp: noc_set_vc_def AList.update_keys dict_get_None_iff dest: dict_get_in_set intro: rev_image_eqI)

lemma noc_tags_set_vc:
  assumes "dict_get (noc_vcs r) v = Some c"
  shows "noc_tags (noc_set_vc v c' r) + mset (map fl_tag (vc_pending c))
    = noc_tags r + mset (map fl_tag (vc_pending c'))"
  using dict_sum_update_add [OF assms, of "\<lambda>c. mset (map fl_tag (vc_pending c))" c']
  by (simp add: noc_tags_def noc_set_vc_def ac_simps)

text \<open>A change of one channel that keeps its tags, credit and identity keeps the invariant.\<close>

lemma noc_inv_set_vc:
  assumes inv: "noc_inv r" and c: "dict_get (noc_vcs r) v = Some c"
    and ok: "vc_ok r v c'" and tags: "\<And>t. count (mset (map fl_tag (vc_pending c'))) t
      \<le> count (mset (map fl_tag (vc_pending c))) t"
  shows "noc_inv (noc_set_vc v c' r)"
proof -
  let ?r = "noc_set_vc v c' r"
  have owed: "noc_owed w ?r = noc_owed w r" for w by (simp add: noc_owed_def noc_set_vc_def)
  have "vc_ok ?r w d" if "dict_get (noc_vcs ?r) w = Some d" for w d
    using that inv ok by (auto simp: noc_set_vc_def noc_inv_def vc_ok_def owed AList.update_conv'
        noc_owed_def split: if_splits)
  moreover have "count (noc_tags ?r) t \<le> 1" for t
  proof -
    have "count (noc_tags ?r) t + count (mset (map fl_tag (vc_pending c))) t
        = count (noc_tags r) t + count (mset (map fl_tag (vc_pending c'))) t"
      using arg_cong [OF noc_tags_set_vc [OF c, of c'], of "\<lambda>M. count M t"] by simp
    moreover have "count (noc_tags r) t \<le> 1" using inv by (simp add: noc_inv_def)
    ultimately show ?thesis using tags [of t] by linarith
  qed
  ultimately show ?thesis
    using inv noc_keys_set_vc [OF c, of c'] by (simp add: noc_inv_def noc_set_vc_def)
qed

text \<open>Sending the head flit moves its tag from the channel to the traversed table.\<close>

lemma noc_channel_tags:
  assumes "noc_inv r" "dict_get (noc_vcs r) v = Some c"
  shows "count (mset (map fl_tag (vc_pending c))) t + count (mset (dict_keys (noc_traversed r))) t
    \<le> count (noc_tags r) t"
proof -
  have "keys_distinct (noc_vcs r)" using assms by (simp add: noc_inv_def)
  from dict_sum_del_add [OF this assms(2), of "\<lambda>c. mset (map fl_tag (vc_pending c))"]
  have "noc_tags r = dict_sum (\<lambda>c. mset (map fl_tag (vc_pending c))) (dict_del v (noc_vcs r))
      + mset (map fl_tag (vc_pending c)) + mset (dict_keys (noc_traversed r))"
    by (simp add: noc_tags_def)
  then show ?thesis by (simp only: count_union)
qed

lemma noc_inv_serve:
  assumes inv: "noc_inv r" and c: "dict_get (noc_vcs r) v = Some c" and ready: "vc_ready c"
  defines "f \<equiv> hd (vc_pending c)"
  defines "r' \<equiv> (noc_set_vc v (vc_sent c) r)\<lparr>noc_traversed := dict_set (fl_tag f) v (noc_traversed r)\<rparr>"
  shows "noc_note_traversed f v (noc_set_vc v (vc_sent c) r) = ret () r'" and "noc_inv r'"
proof -
  have pend: "vc_pending c = f # tl (vc_pending c)" using ready by (simp add: vc_ready_def f_def)
  then have f: "f \<in> set (vc_pending c)" by (metis list.set_intros(1))
  have ok: "vc_ok r v c" using inv c by (simp add: noc_inv_def)
  with f have tag: "fl_tag f \<noteq> []" by (simp add: vc_ok_def)
  let ?p = "\<lambda>c. mset (map fl_tag (vc_pending c))"
  have p: "?p c = add_mset (fl_tag f) (?p (vc_sent c))" by (subst pend) (simp add: vc_sent_def)
  have "count (noc_tags r) (fl_tag f) \<le> 1" using inv by (simp add: noc_inv_def)
  with noc_channel_tags [OF inv c, of "fl_tag f"] p
  have "count (mset (dict_keys (noc_traversed r))) (fl_tag f) = 0" by simp
  then have fresh: "dict_get (noc_traversed r) (fl_tag f) = None"
    by (simp add: dict_get_None_iff count_eq_zero_iff)
  then show "noc_note_traversed f v (noc_set_vc v (vc_sent c) r) = ret () r'"
    using tag by (simp add: noc_note_traversed_def r'_def noc_set_vc_def)
  have tags: "noc_tags r' = noc_tags r"
    using noc_tags_set_vc [OF c, of "vc_sent c"] p fresh
    by (simp add: noc_tags_def r'_def noc_set_vc_def dict_set_fresh)
  have owed: "noc_owed w r' = noc_owed w r + (if v = w then 1 else 0)" for w
    using fresh by (simp add: noc_owed_def r'_def noc_set_vc_def dict_sum_fresh)
  have "vc_ok r' w d" if "dict_get (noc_vcs r') w = Some d" for w d
  proof (cases "w = v")
    case True
    with that have "d = vc_sent c" by (simp add: r'_def noc_set_vc_def AList.update_conv')
    moreover have "noc_vc_depth r' = noc_vc_depth r" by (simp add: r'_def noc_set_vc_def)
    ultimately show ?thesis
      using True ok ready by (auto simp: vc_ok_def owed vc_sent_def vc_ready_def dest: list.set_sel(2))
  next
    case False
    with that have "dict_get (noc_vcs r) w = Some d" by (simp add: r'_def noc_set_vc_def AList.update_conv')
    with inv have "vc_ok r w d" by (simp add: noc_inv_def)
    with False owed [of w] show ?thesis by (simp add: vc_ok_def) (simp add: r'_def noc_set_vc_def)
  qed
  moreover have "dict_keys (noc_vcs r') = [0, 1, 2, 3]"
    using noc_keys_set_vc [OF c, of "vc_sent c"] inv by (simp add: r'_def noc_inv_def noc_set_vc_def)
  moreover have "keys_distinct (noc_traversed r')"
    using inv by (simp add: r'_def noc_inv_def AList.distinct_update)
  ultimately show "noc_inv r'" using inv tags by (simp add: noc_inv_def)
qed

lemma noc_inv_stall:
  assumes "noc_inv r" "dict_get (noc_vcs r) v = Some c"
  shows "noc_inv (noc_set_vc v (vc_stalled c) r)"
  using assms by (intro noc_inv_set_vc) (auto simp: noc_inv_def vc_ok_def vc_stalled_def)

lemma noc_served_other:
  "v \<notin> set vs \<Longrightarrow> noc_vcs r' = dict_set v c (noc_vcs r) \<Longrightarrow> noc_served vs r' = noc_served vs r"
  unfolding noc_served_def
  by (intro arg_cong [where f = concat] map_cong) (auto simp: AList.update_conv' split: option.splits)

lemma noc_served_Cons:
  "dict_get (noc_vcs r) v = Some c \<Longrightarrow>
     noc_served (v # vs) r = (if vc_ready c then [hd (vc_pending c)] else []) @ noc_served vs r"
  by (simp add: noc_served_def)

lemma noc_arbitrate_serves:
  assumes "noc_inv r" "distinct vs" "set vs \<subseteq> {0, 1, 2, 3}"
  shows "\<exists>cont' r'. noc_arbitrate vs cycle sent cont r = ret (sent @ noc_served vs r, cont') r'
    \<and> noc_inv r' \<and> noc_vc_depth r' = noc_vc_depth r"
  using assms
proof (induction vs arbitrary: sent cont r)
  case (Cons v vs)
  from Cons.prems obtain c where c: "dict_get (noc_vcs r) v = Some c"
    by (auto elim: noc_inv_channel)
  show ?case
  proof (cases "vc_ready c")
    case True
    note serve = noc_inv_serve [OF Cons.prems(1) c True]
    let ?r = "(noc_set_vc v (vc_sent c) r)\<lparr>noc_traversed :=
      dict_set (fl_tag (hd (vc_pending c))) v (noc_traversed r)\<rparr>"
    have "noc_served vs ?r = noc_served vs r"
      using Cons.prems(2) by (intro noc_served_other) (auto simp: noc_set_vc_def)
    moreover have "noc_vc_depth ?r = noc_vc_depth r" by (simp add: noc_set_vc_def)
    ultimately show ?thesis
      using Cons.IH [OF serve(2), of "sent @ [hd (vc_pending c)]" cont] Cons.prems serve(1) c True
      by (simp add: noc_arbitrate_eq_plain vc_try_send_ready noc_served_Cons del: noc_arbitrate.simps)
  next
    case False
    have "noc_served vs (noc_set_vc v (vc_stalled c) r) = noc_served vs r"
      using Cons.prems(2) by (intro noc_served_other) (auto simp: noc_set_vc_def)
    moreover have "noc_vc_depth (noc_set_vc v (vc_stalled c) r) = noc_vc_depth r"
      by (simp add: noc_set_vc_def)
    ultimately show ?thesis
      using Cons.IH [OF noc_inv_stall [OF Cons.prems(1) c], of sent] Cons.prems c False
      by (simp add: noc_arbitrate_eq_plain vc_try_send_blocked noc_served_Cons del: noc_arbitrate.simps)
  qed
qed (simp add: noc_served_def)

section \<open>The router as a machine\<close>

text \<open>
  The discipline of the transfer manager: a flit is sent with a fresh, non-empty tag and every
  acknowledgement names the tag it acknowledges.
\<close>

datatype noc_op =
    NocSend int flit int | NocStep int | NocCancel string | NocAck int int string | NocReset

fun noc_exec :: "noc_op \<Rightarrow> noc_router \<Rightarrow> noc_router" where
  "noc_exec (NocSend vc f cycle) r = snd (noc_send vc f cycle r)"
| "noc_exec (NocStep cycle) r = snd (noc_step cycle r)"
| "noc_exec (NocCancel tag) r = snd (noc_cancel tag r)"
| "noc_exec (NocAck vc n tag) r = snd (noc_return_credit vc n (Some tag) r)"
| "noc_exec NocReset r = snd (noc_reset r)"

fun noc_enabled :: "noc_op \<Rightarrow> noc_router \<Rightarrow> bool" where
  "noc_enabled (NocSend vc f cycle) r \<longleftrightarrow>
     fl_tag f \<noteq> [] \<and> \<not> noc_contains (fl_tag f) r \<and> \<not> noc_is_traversed (fl_tag f) r"
| "noc_enabled _ r \<longleftrightarrow> True"

lemma noc_inv_last_cycle: "noc_inv (r\<lparr>noc_last_cycle := x\<rparr>) = noc_inv r"
  "noc_inv (r\<lparr>noc_switch_contention := x\<rparr>) = noc_inv r"
  by (simp_all add: noc_inv_def vc_ok_def noc_owed_def noc_tags_def)

lemma noc_absent_tag:
  assumes "\<not> noc_contains t r" "\<not> noc_is_traversed t r"
  shows "count (noc_tags r) t = 0"
proof -
  have "count (dict_sum (\<lambda>c. mset (map fl_tag (vc_pending c))) d) t = 0"
    if "\<not> list_ex (\<lambda>c. list_ex (\<lambda>f. fl_tag f = t) (vc_pending c)) (dict_values d)"
    for d :: "(int, virtual_channel) dict"
    using that by (induction d) (auto simp: list_ex_iff count_eq_zero_iff)
  with assms show ?thesis
    by (simp add: noc_tags_def noc_contains_def noc_is_traversed_def dict_get_None_iff count_eq_zero_iff)
qed

lemma noc_inv_send:
  assumes inv: "noc_inv r" and en: "noc_enabled (NocSend vc f cycle) r"
  shows "noc_inv (snd (noc_send vc f cycle r))"
proof (cases "vc \<in> {0, 1, 2, 3} \<and> fl_vc f = vc")
  case True
  then obtain c where c: "dict_get (noc_vcs r) vc = Some c" and ok: "vc_ok r vc c"
    using noc_inv_channel [OF inv] by blast
  let ?f = "f\<lparr>fl_vc := vc, fl_arrived_cycle := cycle\<rparr>"
  let ?c = "c\<lparr>vc_pending := vc_pending c @ [?f]\<rparr>"
  let ?r = "noc_set_vc vc ?c r"
  have send: "snd (noc_send vc f cycle r) = ?r\<lparr>noc_last_cycle := cycle\<rparr>"
    using True c ok by (auto simp: noc_send_def normalize_vc_id_def Let_def vc_enqueue_def vc_ok_def noc_set_vc_def)
  have tags: "noc_tags ?r = add_mset (fl_tag f) (noc_tags r)"
    using noc_tags_set_vc [OF c, of ?c] by simp
  have absent: "count (noc_tags r) (fl_tag f) = 0" using en by (intro noc_absent_tag) auto
  have "count (noc_tags ?r) t \<le> 1" for t
    using inv absent by (cases "t = fl_tag f") (auto simp: tags noc_inv_def)
  moreover have "vc_ok ?r w d" if "dict_get (noc_vcs ?r) w = Some d" for w d
  proof (cases "w = vc")
    case True
    with that have "d = ?c" by (simp add: noc_set_vc_def AList.update_conv')
    with True ok en show ?thesis by (auto simp: vc_ok_def noc_owed_def noc_set_vc_def)
  next
    case False
    with that inv have "vc_ok r w d" by (simp add: noc_set_vc_def AList.update_conv' noc_inv_def)
    then show ?thesis by (simp add: vc_ok_def noc_owed_def noc_set_vc_def)
  qed
  ultimately have "noc_inv ?r"
    using inv noc_keys_set_vc [OF c, of ?c] by (simp add: noc_inv_def) (simp add: noc_set_vc_def)
  then show ?thesis using send by (simp add: noc_inv_last_cycle)
next
  case False
  then show ?thesis
    using inv by (auto simp: noc_send_def normalize_vc_id_def noc_inv_last_cycle Let_def
        split: option.splits)
qed

lemma noc_inv_map_vcs:
  assumes "noc_inv r" "\<And>v c. vc_ok r v c \<Longrightarrow> vc_ok r v (g c)" "\<And>c. vc_pending (g c) = vc_pending c"
  shows "noc_inv (r\<lparr>noc_vcs := map (\<lambda>(v, c). (v, g c)) (noc_vcs r)\<rparr>)"
proof -
  let ?r = "r\<lparr>noc_vcs := map (\<lambda>(v, c). (v, g c)) (noc_vcs r)\<rparr>"
  have "noc_tags ?r = noc_tags r" using assms(3) by (simp add: noc_tags_def dict_sum_map comp_def)
  moreover have "vc_ok ?r v c = vc_ok r v c" for v c by (simp add: vc_ok_def noc_owed_def)
  moreover have "dict_keys (map (\<lambda>(v, c). (v, g c)) (noc_vcs r)) = dict_keys (noc_vcs r)" by auto
  ultimately show ?thesis
    using assms(1,2) by (auto simp: noc_inv_def map_of_map_snd)
qed

lemma noc_step_serves:
  assumes inv: "noc_inv r"
  shows "\<exists>r'. noc_step cycle r = ret (noc_served [0, 1, 2, 3] r) r' \<and> noc_inv r'
    \<and> noc_vc_depth r' = noc_vc_depth r"
proof -
  let ?r = "r\<lparr>noc_last_cycle := cycle, noc_vcs := map (\<lambda>(v, c). (v, vc_tick c)) (noc_vcs r)\<rparr>"
  have "noc_inv (r\<lparr>noc_last_cycle := cycle\<rparr>)" using inv by (simp add: noc_inv_last_cycle)
  from noc_inv_map_vcs [OF this, of vc_tick] have invr: "noc_inv ?r"
    by (simp add: vc_ok_def vc_tick_def)
  have keys: "sort (dict_keys (noc_vcs ?r)) = [0, 1, 2, 3]"
    using invr by (simp add: noc_inv_def)
  have served: "noc_served [0, 1, 2, 3] ?r = noc_served [0, 1, 2, 3] r"
    by (simp add: noc_served_def map_of_map_snd vc_tick_def vc_ready_def split: option.splits)
  from noc_arbitrate_serves [OF invr, of "[0, 1, 2, 3]" cycle "[]" 0] served
  obtain cont' r' where "noc_arbitrate [0, 1, 2, 3] cycle [] 0 ?r = ret (noc_served [0, 1, 2, 3] r, cont') r'"
    "noc_inv r'" "noc_vc_depth r' = noc_vc_depth r" by auto
  then show ?thesis
    using keys unfolding noc_step_def Let_def by (simp add: noc_inv_last_cycle del: noc_arbitrate.simps)
qed

lemma drop_tagged_count: "count (mset (map fl_tag (drop_tagged tag fs))) t \<le> count (mset (map fl_tag fs)) t"
  by (induction fs) auto

lemma set_drop_tagged: "set (drop_tagged tag fs) \<subseteq> set fs"
  by (induction fs) auto

lemma noc_inv_cancel:
  assumes "noc_inv r"
  shows "noc_inv (snd (noc_cancel tag r))"
proof (cases "find (\<lambda>(v, c). list_ex (\<lambda>f. fl_tag f = tag) (vc_pending c)) (noc_vcs r)")
  case None
  then show ?thesis using assms by (simp add: noc_cancel_def)
next
  case (Some p)
  obtain v c where p: "p = (v, c)" by (cases p)
  have "(v, c) \<in> set (noc_vcs r)" using Some p by (auto simp: find_Some_iff in_set_conv_nth)
  moreover have "keys_distinct (noc_vcs r)" using assms by (simp add: noc_inv_def)
  ultimately have c: "dict_get (noc_vcs r) v = Some c" by (simp add: dict_get_iff)
  let ?c = "c\<lparr>vc_pending := drop_tagged tag (vc_pending c)\<rparr>"
  have "vc_ok r v c" using assms c by (simp add: noc_inv_def)
  then have "vc_ok r v ?c" using set_drop_tagged [of tag "vc_pending c"] by (auto simp: vc_ok_def)
  from noc_inv_set_vc [OF assms c this] have "noc_inv (noc_set_vc v ?c r)"
    using drop_tagged_count [of tag "vc_pending c"] by simp
  then show ?thesis using Some p by (simp add: noc_cancel_def)
qed

lemma mset_keys_del:
  assumes "keys_distinct d" "dict_get d k = Some w"
  shows "add_mset k (mset (dict_keys (dict_del k d))) = mset (dict_keys d)"
proof -
  have "k \<in># mset (dict_keys d)" using dict_get_in_set [OF assms(2)] by force
  moreover have "mset (dict_keys (dict_del k d)) = mset (dict_keys d) - {#k#}"
    using assms(1) by (simp only: AList.delete_keys distinct_remove1_removeAll [symmetric] mset_remove1)
  ultimately show ?thesis by simp
qed

lemma noc_inv_ack:
  assumes inv: "noc_inv r"
  shows "noc_inv (snd (noc_return_credit vc n (Some t) r))"
proof (cases "dict_get (noc_traversed r) t")
  case None
  then show ?thesis using inv by (simp add: noc_return_credit_def normalize_vc_id_def)
next
  case (Some w)
  have dist: "keys_distinct (noc_traversed r)" using inv by (simp add: noc_inv_def)
  let ?del = "r\<lparr>noc_traversed := dict_del t (noc_traversed r)\<rparr>"
  let ?put = "r\<lparr>noc_traversed := dict_set t w (dict_del t (noc_traversed r))\<rparr>"
  have keys: "mset (dict_keys (noc_traversed ?del)) + {#t#} = mset (dict_keys (noc_traversed r))"
    using mset_keys_del [OF dist Some] by simp
  have "noc_inv ?put"
  proof -
    have "noc_owed v ?put = noc_owed v r" for v
      using dict_sum_del_add [OF dist Some, of "\<lambda>w. if w = v then 1 else 0 :: int"]
      by (simp add: noc_owed_def dict_sum_fresh AList.delete_conv')
    moreover have "mset (dict_keys (noc_traversed ?put)) = mset (dict_keys (noc_traversed r))"
      using keys by (simp add: dict_set_fresh AList.delete_conv')
    ultimately show ?thesis
      using inv by (simp add: noc_inv_def vc_ok_def noc_tags_def dict_simps)
  qed
  moreover have "noc_inv (noc_set_vc w (vc_return_credit 1 c) ?del)"
    if c: "dict_get (noc_vcs r) w = Some c" for c
  proof -
    let ?c = "vc_return_credit 1 c" and ?r = "noc_set_vc w (vc_return_credit 1 c) ?del"
    have owed: "noc_owed v ?r = noc_owed v r - (if w = v then 1 else 0)" for v
      using dict_sum_del [OF dist Some, of "\<lambda>w. if w = v then 1 else 0 :: int"]
      by (simp add: noc_owed_def noc_set_vc_def)
    have pos: "noc_owed w r \<ge> 1"
      unfolding noc_owed_def
      using dict_sum_member_le [of "noc_traversed r" "\<lambda>x. if x = w then 1 else 0" t w] dict_get_in_set [OF Some]
      by simp
    have ok: "vc_ok r w c" using inv c by (simp add: noc_inv_def)
    have "noc_tags (noc_set_vc w ?c ?del) = noc_tags ?del"
      using noc_tags_set_vc [of ?del w c ?c] c by (simp add: vc_return_credit_def)
    moreover have "noc_tags ?del + {#t#} = noc_tags r"
      unfolding noc_tags_def keys [symmetric] by (simp add: ac_simps)
    then have "count (noc_tags ?del) x \<le> count (noc_tags r) x" for x
      by (metis count_union le_add1)
    ultimately have "\<forall>x. count (noc_tags ?r) x \<le> 1"
      using inv by (metis noc_inv_def order_trans)
    moreover have "vc_ok ?r v d" if "dict_get (noc_vcs ?r) v = Some d" for v d
    proof (cases "v = w")
      case True
      with that have "d = ?c" by (simp add: noc_set_vc_def AList.update_conv')
      with True ok pos owed [of w] show ?thesis
        by (simp add: vc_ok_def vc_return_credit_def) (simp add: noc_set_vc_def)
    next
      case False
      with that inv have "vc_ok r v d" by (simp add: noc_set_vc_def AList.update_conv' noc_inv_def)
      with False owed [of v] show ?thesis by (simp add: vc_ok_def) (simp add: noc_set_vc_def)
    qed
    moreover have "dict_keys (noc_vcs ?r) = [0, 1, 2, 3]"
      using noc_keys_set_vc [of ?del w c ?c] c inv by (simp add: noc_inv_def)
    moreover have "keys_distinct (noc_traversed ?r)"
      using dist by (simp add: noc_set_vc_def AList.distinct_delete)
    ultimately show ?thesis by (simp add: noc_inv_def)
  qed
  ultimately show ?thesis
  proof (cases "vc \<in> {0, 1, 2, 3} \<and> w = vc \<and> n = 1")
    case True
    then obtain c where c: "dict_get (noc_vcs r) w = Some c" using noc_inv_channel [OF inv] by blast
    have "snd (noc_return_credit vc n (Some t) r) = noc_set_vc w (vc_return_credit 1 c) ?del"
      using True c Some by (simp add: noc_return_credit_def normalize_vc_id_def)
    with \<open>\<And>c. dict_get (noc_vcs r) w = Some c \<Longrightarrow> noc_inv (noc_set_vc w (vc_return_credit 1 c) ?del)\<close> [OF c]
    show ?thesis by simp
  next
    case False
    then consider (bad) "vc \<notin> {0, 1, 2, 3}" | (mismatch) "vc \<in> {0, 1, 2, 3}" "w \<noteq> vc \<or> n \<noteq> 1" by blast
    then show ?thesis
    proof cases
      case bad
      then show ?thesis using inv by (simp add: noc_return_credit_def normalize_vc_id_def)
    next
      case mismatch
      then have "snd (noc_return_credit vc n (Some t) r) = ?put"
        using Some by (simp only: noc_return_credit_def normalize_vc_id_def) simp
      with \<open>noc_inv ?put\<close> show ?thesis by simp
    qed
  qed
qed

lemma noc_inv_reset: "noc_inv r \<Longrightarrow> noc_inv (snd (noc_reset r))"
proof -
  assume inv: "noc_inv r"
  show ?thesis
  proof (cases "noc_is_quiescent r")
    case True
    let ?r = "r\<lparr>noc_vcs := map (\<lambda>(v, c). (v, vc_reset c)) (noc_vcs r), noc_traversed := [],
      noc_switch_contention := 0\<rparr>"
    have "noc_traversed r = []" using True by (simp add: noc_is_quiescent_def)
    have "noc_tags ?r = {#}"
      by (simp add: noc_tags_def dict_sum_map comp_def vc_reset_def dict_sum_zero)
    moreover have "vc_ok ?r v d" if "dict_get (noc_vcs ?r) v = Some d" for v d
    proof -
      from that obtain c where c: "dict_get (noc_vcs r) v = Some c" and d: "d = vc_reset c"
        by (auto simp: map_of_map_snd)
      from inv c have "vc_ok r v c" by (simp add: noc_inv_def)
      with d \<open>noc_traversed r = []\<close> show ?thesis by (simp add: vc_ok_def noc_owed_def vc_reset_def)
    qed
    moreover have "dict_keys (noc_vcs ?r) = dict_keys (noc_vcs r)" by auto
    ultimately show ?thesis using inv True by (simp add: noc_reset_def noc_inv_def)
  qed (simp add: noc_reset_def inv)
qed

interpretation nocm: guarded_machine noc_enabled noc_exec noc_inv
proof
  fix r x
  assume inv: "noc_inv r" and en: "noc_enabled x r"
  show "noc_inv (noc_exec x r)"
  proof (cases x)
    case (NocStep cycle)
    with noc_step_serves [OF inv, of cycle] show ?thesis by auto
  qed (use inv en in \<open>auto intro: noc_inv_send noc_inv_cancel noc_inv_ack noc_inv_reset\<close>)
qed

lemma noc_inv_new: "0 \<le> d \<Longrightarrow> noc_inv (noc_new d l)"
  by (auto simp: noc_inv_def noc_new_def vc_ok_def vc_new_def noc_owed_def noc_tags_def split: if_splits)

lemma noc_depth_exec:
  assumes "noc_inv r"
  shows "noc_vc_depth (noc_exec x r) = noc_vc_depth r"
proof (cases x)
  case (NocStep cycle)
  with noc_step_serves [OF assms, of cycle] show ?thesis by auto
next
  case (NocAck v n t)
  then show ?thesis
    by (auto simp: noc_return_credit_def normalize_vc_id_def Let_def noc_set_vc_def split: option.splits)
next
  case (NocSend v f c)
  then show ?thesis
    by (auto simp: noc_send_def normalize_vc_id_def Let_def noc_set_vc_def vc_enqueue_def split: option.splits)
qed (auto simp: noc_cancel_def noc_reset_def noc_set_vc_def split: option.splits)

lemma noc_depth_run:
  "noc_inv r \<Longrightarrow> legal_run noc_enabled noc_exec xs r \<Longrightarrow> noc_vc_depth (run_ops noc_exec xs r) = noc_vc_depth r"
proof (induction xs arbitrary: r)
  case (Cons x xs)
  then have "noc_inv (noc_exec x r)" by (auto intro: nocm.exec_inv)
  with Cons show ?case by (simp add: noc_depth_exec)
qed simp

section \<open>Properties\<close>

text \<open>C38. Credit conservation of the router: when every flit is sent under a fresh tag and every
  acknowledgement names its tag, then after any sequence of sends, cycles, cancellations,
  acknowledgements (accepted or rejected) and resets, each of the four channels has
  non-negative credit and credit plus traversed-but-unacknowledged flits equals the depth.\<close>

theorem noc_credit_conservation:
  assumes "0 \<le> d" and "legal_run noc_enabled noc_exec ops (noc_new d l)"
    and "r = run_ops noc_exec ops (noc_new d l)" and "v \<in> {0, 1, 2, 3}"
  shows "\<exists>c. dict_get (noc_vcs r) v = Some c \<and> 0 \<le> vc_credit_available c
    \<and> vc_credit_available c + int (length (filter (\<lambda>p. snd p = v) (noc_traversed r))) = d"
proof -
  have inv: "noc_inv r" unfolding assms(3) by (rule nocm.run_inv [OF noc_inv_new [OF assms(1)] assms(2)])
  have depth: "noc_vc_depth r = d"
    using noc_depth_run [OF noc_inv_new [OF assms(1)] assms(2)] assms(3) by (simp add: noc_new_def)
  have "dict_sum (\<lambda>w. if w = v then 1 else 0) d = int (length (filter (\<lambda>p. snd p = v) d))"
    for d :: "(string, int) dict" by (induction d) auto
  then have "noc_owed v r = int (length (filter (\<lambda>p. snd p = v) (noc_traversed r)))"
    by (simp add: noc_owed_def)
  with noc_inv_channel [OF inv assms(4)] depth show ?thesis by (auto simp: vc_ok_def)
qed

definition demo_flit :: "int \<Rightarrow> string \<Rightarrow> flit" where
  "demo_flit v t = \<lparr>fl_vc = v, fl_src = 0, fl_dst = 1, fl_bytes_total = 64, fl_tag = t, fl_arrived_cycle = 0\<rparr>"

theorem noc_credit_conservation_witness:
  "\<exists>c. dict_get (noc_vcs (run_ops noc_exec [NocSend 1 (demo_flit 1 ''a'') 0, NocSend 1 (demo_flit 1 ''b'') 0,
       NocStep 1, NocAck 1 1 ''a'', NocStep 2] (noc_new 2 4))) 1 = Some c
     \<and> 0 \<le> vc_credit_available c"
proof -
  have "legal_run noc_enabled noc_exec [NocSend 1 (demo_flit 1 ''a'') 0, NocSend 1 (demo_flit 1 ''b'') 0,
       NocStep 1, NocAck 1 1 ''a'', NocStep 2] (noc_new 2 4)" by code_simp
  from noc_credit_conservation [OF _ this refl, of 1] show ?thesis by auto
qed

text \<open>C39. What a cycle delivers: in every state reached under the same discipline, one \<open>step\<close> does
  not raise and returns exactly the head flit of every channel that has a pending flit and
  credit, in channel order; no channel is held back by another.\<close>

theorem noc_step_delivers:
  assumes "0 \<le> d" and "legal_run noc_enabled noc_exec ops (noc_new d l)"
  shows "fst (noc_step cycle (run_ops noc_exec ops (noc_new d l)))
    = Inr (noc_served [0, 1, 2, 3] (run_ops noc_exec ops (noc_new d l)))"
  using noc_step_serves [OF nocm.run_inv [OF noc_inv_new [OF assms(1)] assms(2)], of cycle] by auto

theorem noc_step_delivers_witness:
  "fst (noc_step 5 (run_ops noc_exec [NocSend 2 (demo_flit 2 ''w'') 0, NocSend 0 (demo_flit 0 ''e'') 0] (noc_new 1 4)))
     = Inr (noc_served [0, 1, 2, 3] (run_ops noc_exec [NocSend 2 (demo_flit 2 ''w'') 0,
         NocSend 0 (demo_flit 0 ''e'') 0] (noc_new 1 4)))"
proof -
  have "legal_run noc_enabled noc_exec [NocSend 2 (demo_flit 2 ''w'') 0, NocSend 0 (demo_flit 0 ''e'') 0] (noc_new 1 4)"
    by code_simp
  from noc_step_delivers [OF _ this] show ?thesis by simp
qed

text \<open>The starvation branch is inert: on every router state and channel list, the arbitration
  loop with the branch that force-sends from a starved channel 0 gives the same outcome, the
  same exceptions and the same state as the loop that only ever calls \<open>try_send\<close>.\<close>

theorem noc_starvation_branch_inert:
  "noc_arbitrate vs cycle sent cont r = noc_arbitrate_plain vs cycle sent cont r"
  by (rule noc_arbitrate_eq_plain)

end
