(* ===== verification/Fault_Ring.thy ===== *)
theory Fault_Ring
  imports Elenor_Prelude
begin

text \<open>
  The fault record ring (\<open>pipeline_validator/runtime/fault_ring.py\<close>): a bounded deque of fault
  records with a wrapping write index.
\<close>

datatype fault_code =
    INVALID_DESCRIPTOR | UNSUPPORTED_ABI | ADDRESS_FAULT | DMA_TIMEOUT | EVENT_DEPENDENCY_TIMEOUT
  | STREAM_PROTOCOL_ERROR | ENGINE_INTERNAL_FAULT | RESET_DURING_EXECUTION | L2_CAPACITY_FAULT
  | INVALID_LAYOUT_FAULT | SLOT_PERMISSION_FAULT

datatype fault_domain = DOMAIN_QUEUE | DOMAIN_TILE | DOMAIN_GROUP | DOMAIN_DEVICE

record fault_record =
  abi_version :: int
  fr_code :: fault_code
  fr_source :: int
  fr_severity :: int
  fr_index :: int
  fr_context_id :: int
  fr_command_id :: int
  fr_event_id :: int
  fr_program_id :: int
  fr_desc_id :: int
  fr_group_id :: int
  fr_tile_id :: int
  fr_queue_id :: int
  fr_slot_id :: int
  fr_patch_id :: int
  fr_engine_id :: int
  fr_offending_addr :: int
  fr_aux0 :: int
  fr_aux1 :: int
  fr_pmu_snapshot_ptr :: int

definition default_fault :: fault_record where
  "default_fault =
     \<lparr>abi_version = 1, fr_code = ENGINE_INTERNAL_FAULT, fr_source = 0, fr_severity = 0, fr_index = 0,
      fr_context_id = 0, fr_command_id = 0, fr_event_id = 0, fr_program_id = 0, fr_desc_id = 0,
      fr_group_id = 0, fr_tile_id = 0, fr_queue_id = 0, fr_slot_id = 0, fr_patch_id = 0,
      fr_engine_id = 0, fr_offending_addr = 0, fr_aux0 = 0, fr_aux1 = 0, fr_pmu_snapshot_ptr = 0\<rparr>"

record fault_ring =
  ring_records :: "fault_record list"
  ring_head :: nat
  ring_write_count :: nat
  ring_slots :: nat

definition ring_new :: "nat \<Rightarrow> fault_ring" where
  "ring_new n = \<lparr>ring_records = [], ring_head = 0, ring_write_count = 0, ring_slots = n\<rparr>"

text \<open>\<open>deque(maxlen=n).append\<close>: the oldest element falls out on the left.\<close>

definition deque_append :: "nat \<Rightarrow> 'a list \<Rightarrow> 'a \<Rightarrow> 'a list" where
  "deque_append maxlen xs x = drop (Suc (length xs) - maxlen) (xs @ [x])"

definition ring_write :: "fault_record \<Rightarrow> fault_ring \<Rightarrow> (fault_ring, nat) outcome" where
  "ring_write rec r =
     (if ring_slots r = 0 then raise ZeroDivisionError r
      else
        (let idx = ring_head r;
             rec' = rec\<lparr>fr_index := int idx\<rparr>
         in ret idx (r\<lparr>ring_head := (ring_head r + 1) mod ring_slots r,
                       ring_records := deque_append (ring_slots r) (ring_records r) rec',
                       ring_write_count := ring_write_count r + 1\<rparr>)))"

definition ring_read :: "int \<Rightarrow> fault_ring \<Rightarrow> fault_record option" where
  "ring_read slot r =
     (if 0 \<le> slot \<and> slot < int (length (ring_records r)) then Some (ring_records r ! nat slot) else None)"

definition ring_latest :: "fault_ring \<Rightarrow> fault_record option" where
  "ring_latest r = (if ring_records r \<noteq> [] then Some (last (ring_records r)) else None)"

definition ring_length :: "fault_ring \<Rightarrow> nat" where
  "ring_length r = length (ring_records r)"

definition ring_reset :: "fault_ring \<Rightarrow> fault_ring" where
  "ring_reset r = r\<lparr>ring_records := [], ring_head := 0, ring_write_count := 0\<rparr>"

section \<open>Contents after a sequence of writes\<close>

fun ring_writes :: "fault_record list \<Rightarrow> fault_ring \<Rightarrow> fault_ring" where
  "ring_writes [] r = r"
| "ring_writes (x # xs) r = ring_writes xs (snd (ring_write x r))"

lemma ring_writes_append: "ring_writes (xs @ ys) r = ring_writes ys (ring_writes xs r)"
  by (induction xs arbitrary: r) auto

definition ring_window :: "nat \<Rightarrow> fault_record list \<Rightarrow> fault_record list" where
  "ring_window n ws = map (\<lambda>i. (ws ! i)\<lparr>fr_index := int (i mod n)\<rparr>) [length ws - n..<length ws]"

lemma length_ring_window: "length (ring_window n ws) = min n (length ws)"
  by (simp add: ring_window_def min_def)

lemma ring_window_nth:
  assumes "j < min n (length ws)"
  shows "ring_window n ws ! j = (ws ! (length ws - min n (length ws) + j))
    \<lparr>fr_index := int ((length ws - min n (length ws) + j) mod n)\<rparr>"
  using assms by (cases "n \<le> length ws") (auto simp: ring_window_def min_def)

lemma ring_window_snoc:
  assumes "0 < n"
  shows "ring_window n (ws @ [w]) = deque_append n (ring_window n ws) (w\<lparr>fr_index := int (length ws mod n)\<rparr>)"
proof -
  let ?f = "\<lambda>xs i. (xs ! i)\<lparr>fr_index := int (i mod n)\<rparr>"
  have "map (?f (ws @ [w])) [a..<length ws] = map (?f ws) [a..<length ws]" for a
    by (rule map_cong) (auto simp: nth_append)
  moreover have "[Suc (length ws) - n..<Suc (length ws)] = [Suc (length ws) - n..<length ws] @ [length ws]"
    using assms by simp
  ultimately have "ring_window n (ws @ [w])
      = map (?f ws) [Suc (length ws) - n..<length ws] @ [w\<lparr>fr_index := int (length ws mod n)\<rparr>]"
    by (simp add: ring_window_def)
  moreover have "drop (Suc (length (ring_window n ws)) - n) (ring_window n ws)
      = map (?f ws) [Suc (length ws) - n..<length ws]"
    by (cases "length ws < n") (auto simp: length_ring_window ring_window_def drop_map Suc_diff_le)
  moreover have "Suc (length (ring_window n ws)) - n \<le> length (ring_window n ws)"
    using assms by (simp add: length_ring_window) linarith
  ultimately show ?thesis by (simp add: deque_append_def)
qed

lemma ring_writes_state:
  assumes "0 < n"
  shows "ring_writes ws (ring_new n) =
    \<lparr>ring_records = ring_window n ws, ring_head = length ws mod n, ring_write_count = length ws, ring_slots = n\<rparr>"
proof (induction ws rule: rev_induct)
  case Nil
  then show ?case by (simp add: ring_new_def ring_window_def)
next
  case (snoc w ws)
  then show ?case
    using assms by (simp add: ring_writes_append ring_write_def ring_window_snoc mod_Suc_eq Let_def)
qed

section \<open>Properties\<close>

text \<open>C40. Contents of the fault ring: after any list of writes to a ring with at least one slot, the
  ring holds the last \<open>min slots n\<close> of the \<open>n\<close> records, oldest first, the record of write \<open>i\<close>
  carries index \<open>i mod slots\<close>, the write counter is \<open>n\<close>, and reading position \<open>i\<close>
  returns the \<open>i\<close>-th record of that window and nothing beyond it.\<close>

theorem ring_holds_last_writes:
  assumes "0 < n"
  shows "ring_length (ring_writes ws (ring_new n)) = min n (length ws)
    \<and> ring_write_count (ring_writes ws (ring_new n)) = length ws
    \<and> (\<forall>i. ring_read i (ring_writes ws (ring_new n)) =
         (if 0 \<le> i \<and> i < int (min n (length ws))
          then (let k = length ws - min n (length ws) + nat i
                in Some ((ws ! k)\<lparr>fr_index := int (k mod n)\<rparr>))
          else None))"
proof -
  have "nat i < min n (length ws)" if "0 \<le> i" "i < int (min n (length ws))" for i
    using that by linarith
  then show ?thesis
    using assms by (simp add: ring_writes_state ring_length_def ring_read_def length_ring_window
        ring_window_nth Let_def del: min_less_iff_conj)
qed

theorem ring_holds_last_writes_witness:
  "ring_length (ring_writes (replicate 5 default_fault) (ring_new 4)) = 4"
  using ring_holds_last_writes [of 4 "replicate 5 default_fault"] by simp

text \<open>Index returned by a write against position read: the index that \<open>write\<close> returns finds the
  newest record through \<open>read\<close> only while the ring has not wrapped, or when the
  index is the last slot; after wrapping, reading the returned index of any other slot gives an
  older record with a different index.\<close>

theorem ring_returned_index_reads_other_record:
  assumes "0 < n" "n \<le> length ws" "length ws mod n \<noteq> n - 1"
  shows "\<exists>idx r rec. ring_write w (ring_writes ws (ring_new n)) = (Inr idx, r)
    \<and> ring_read (int idx) r = Some rec \<and> fr_index rec \<noteq> int idx"
proof -
  let ?m = "length ws"
  let ?r = "snd (ring_write w (ring_writes ws (ring_new n)))"
  have r: "ring_writes (ws @ [w]) (ring_new n) = ?r" by (simp add: ring_writes_append)
  have idx: "ring_write w (ring_writes ws (ring_new n)) = (Inr (?m mod n), ?r)"
    using assms(1) by (simp add: ring_writes_state ring_write_def Let_def)
  have lt: "?m mod n < n" using assms(1) by simp
  let ?k = "Suc ?m - n + ?m mod n"
  have read: "ring_read (int (?m mod n)) ?r = Some (((ws @ [w]) ! ?k)\<lparr>fr_index := int (?k mod n)\<rparr>)"
    using assms(1,2) lt ring_window_nth [of "?m mod n" n "ws @ [w]"] unfolding r [symmetric]
    by (simp add: ring_writes_state ring_read_def length_ring_window)
  have "?k mod n \<noteq> ?m mod n"
  proof
    assume eq: "?k mod n = ?m mod n"
    have "(?k + n) mod n = (Suc ?m + ?m mod n) mod n" using assms(2) by simp
    with eq have "?m mod n = (Suc ?m + ?m mod n) mod n" by simp
    also have "\<dots> = (Suc (?m mod n) + ?m mod n) mod n" by (metis mod_Suc_eq mod_add_left_eq)
    finally have "(Suc (?m mod n) + ?m mod n) mod n = (0 + ?m mod n) mod n" by simp
    then have "n dvd Suc (?m mod n)" by (metis add.commute add_0 mod_eq_dvd_iff_nat diff_add_inverse2 le_add2)
    with lt assms(3) show False by (metis Suc_lessI diff_Suc_1 dvd_imp_le linorder_not_less zero_less_Suc)
  qed
  then have "fr_index (((ws @ [w]) ! ?k)\<lparr>fr_index := int (?k mod n)\<rparr>) \<noteq> int (?m mod n)" by simp
  with idx read show ?thesis by blast
qed

theorem ring_returned_index_reads_other_record_witness:
  "\<exists>idx r rec. ring_write default_fault (ring_writes (replicate 4 default_fault) (ring_new 4)) = (Inr idx, r)
    \<and> ring_read (int idx) r = Some rec \<and> fr_index rec \<noteq> int idx"
  using ring_returned_index_reads_other_record [of 4 "replicate 4 default_fault" default_fault] by simp

end
