(* ===== verification/Program_Table.thy ===== *)
theory Program_Table
  imports Elenor_Prelude
begin

text \<open>
  Program residency (\<open>pipeline_validator/runtime/program_table.py\<close>): which tiles hold which
  program, cold and warm launches, and invalidation by tile, by group epoch and by eviction.
  The cold-launch latency is computed in floating point from the machine configuration; it
  is a function \<open>cold_latency\<close> of the byte count here.
\<close>

datatype residency_state = HBM_ONLY | FETCHING | TILE_RESIDENT | EVICTED

record program_entry =
  pe_program_id :: int
  pe_version :: int
  pe_program_hash :: int
  pe_epoch :: int
  pe_hbm_iova :: int
  pe_hbm_bytes :: int
  pe_tile_states :: "(int, residency_state) dict"
  pe_tile_epochs :: "(int, int) dict"

record program_table =
  pt_cold_latency :: "int \<Rightarrow> int"
  pt_entries :: "(int, program_entry) dict"
  pt_cold_load_cycles :: int

definition pt_new :: "(int \<Rightarrow> int) \<Rightarrow> program_table" where
  "pt_new lat = \<lparr>pt_cold_latency = lat, pt_entries = [], pt_cold_load_cycles = 0\<rparr>"

definition pt_register ::
    "int \<Rightarrow> int \<Rightarrow> int \<Rightarrow> int \<Rightarrow> int \<Rightarrow> program_table \<Rightarrow> (program_table, program_entry) outcome" where
  "pt_register pid ver hash iova bytes t =
     (if pid \<le> 0 \<or> ver \<le> 0 \<or> hash \<le> 0 \<or> bytes \<le> 0 then
        raise (ValueError ''program registration requires complete compiled identity and size'') t
      else
        (let fresh = \<lparr>pe_program_id = pid, pe_version = ver, pe_program_hash = hash, pe_epoch = 0,
                      pe_hbm_iova = iova, pe_hbm_bytes = bytes, pe_tile_states = [], pe_tile_epochs = []\<rparr>;
             install = ret fresh (t\<lparr>pt_entries := dict_set pid fresh (pt_entries t)\<rparr>)
         in case dict_get (pt_entries t) pid of
              None \<Rightarrow> install
            | Some prior \<Rightarrow>
                if (pe_version prior, pe_program_hash prior, pe_hbm_bytes prior) = (ver, hash, bytes)
                then ret prior t else install))"

definition pt_warm :: "program_entry \<Rightarrow> int \<Rightarrow> bool" where
  "pt_warm e tile \<longleftrightarrow>
     (case dict_get (pe_tile_states e) tile of None \<Rightarrow> HBM_ONLY | Some st \<Rightarrow> st) = TILE_RESIDENT
     \<and> (case dict_get (pe_tile_epochs e) tile of None \<Rightarrow> -1 | Some x \<Rightarrow> x) = pe_epoch e"

definition pt_ensure_resident :: "int \<Rightarrow> int \<Rightarrow> program_table \<Rightarrow> (program_table, int) outcome" where
  "pt_ensure_resident pid tile t =
     (case dict_get (pt_entries t) pid of
        None \<Rightarrow> raise (ValueError ''program was not registered'') t
      | Some e \<Rightarrow>
          if pt_warm e tile then ret 0 t
          else
            (let lat = pt_cold_latency t (pe_hbm_bytes e);
                 e' = e\<lparr>pe_tile_states := dict_set tile TILE_RESIDENT (pe_tile_states e),
                        pe_tile_epochs := dict_set tile (pe_epoch e) (pe_tile_epochs e)\<rparr>
             in ret lat (t\<lparr>pt_entries := dict_set pid e' (pt_entries t),
                           pt_cold_load_cycles := pt_cold_load_cycles t + lat\<rparr>)))"

definition pt_invalidate_tile :: "int \<Rightarrow> program_table \<Rightarrow> program_table" where
  "pt_invalidate_tile tile t =
     t\<lparr>pt_entries := map (\<lambda>(pid, e). (pid,
         e\<lparr>pe_tile_states := dict_del tile (pe_tile_states e),
           pe_tile_epochs := dict_del tile (pe_tile_epochs e)\<rparr>)) (pt_entries t)\<rparr>"

definition pt_invalidate_group :: "program_table \<Rightarrow> program_table" where
  "pt_invalidate_group t =
     t\<lparr>pt_entries := map (\<lambda>(pid, e). (pid,
         e\<lparr>pe_epoch := pe_epoch e + 1, pe_tile_states := [], pe_tile_epochs := []\<rparr>)) (pt_entries t)\<rparr>"

definition pt_evict :: "int \<Rightarrow> int \<Rightarrow> program_table \<Rightarrow> program_table" where
  "pt_evict pid tile t =
     (case dict_get (pt_entries t) pid of
        None \<Rightarrow> t
      | Some e \<Rightarrow> t\<lparr>pt_entries := dict_set pid
          (e\<lparr>pe_tile_states := dict_set tile EVICTED (pe_tile_states e)\<rparr>) (pt_entries t)\<rparr>)"

definition pt_reset :: "program_table \<Rightarrow> program_table" where
  "pt_reset t = t\<lparr>pt_entries := [], pt_cold_load_cycles := 0\<rparr>"

section \<open>Properties\<close>

text \<open>Operations on other tiles or programs leave a warm program warm.\<close>

lemma pt_warm_other_tile:
  "pt_warm e tile \<Longrightarrow> other \<noteq> tile \<Longrightarrow>
     pt_warm (e\<lparr>pe_tile_states := dict_del other (pe_tile_states e),
                pe_tile_epochs := dict_del other (pe_tile_epochs e)\<rparr>) tile"
  by (simp add: pt_warm_def AList.delete_conv')

text \<open>Cold and warm launches: a registered program that is made resident on a tile costs nothing
  when it is requested there again, with no change of state, and still costs nothing after
  another tile is invalidated; after invalidating that tile, the whole group, or evicting the
  program there, the next request pays the cold latency of the program's size again.\<close>

theorem pt_residency:
  assumes "dict_get (pt_entries t) pid = Some e"
    and "pt_ensure_resident pid tile t = (Inr lat, t1)"
  shows "pt_ensure_resident pid tile t1 = (Inr 0, t1)
    \<and> (other \<noteq> tile \<longrightarrow> fst (pt_ensure_resident pid tile (pt_invalidate_tile other t1)) = Inr 0)
    \<and> fst (pt_ensure_resident pid tile (pt_invalidate_tile tile t1)) = Inr (pt_cold_latency t (pe_hbm_bytes e))
    \<and> fst (pt_ensure_resident pid tile (pt_invalidate_group t1)) = Inr (pt_cold_latency t (pe_hbm_bytes e))
    \<and> fst (pt_ensure_resident pid tile (pt_evict pid tile t1)) = Inr (pt_cold_latency t (pe_hbm_bytes e))"
proof -
  obtain e1 where e1: "dict_get (pt_entries t1) pid = Some e1" and warm: "pt_warm e1 tile"
    and bytes: "pe_hbm_bytes e1 = pe_hbm_bytes e" and lat: "pt_cold_latency t1 = pt_cold_latency t"
    using assms by (auto simp: pt_ensure_resident_def Let_def AList.update_conv' pt_warm_def split: if_splits)
  have "pt_ensure_resident pid tile t1 = (Inr 0, t1)"
    using e1 warm by (simp add: pt_ensure_resident_def)
  moreover have "fst (pt_ensure_resident pid tile (pt_invalidate_tile other t1)) = Inr 0" if "other \<noteq> tile"
    using e1 pt_warm_other_tile [OF warm that]
    by (simp add: pt_ensure_resident_def pt_invalidate_tile_def map_of_map_snd)
  moreover have "fst (pt_ensure_resident pid tile (pt_invalidate_tile tile t1)) = Inr (pt_cold_latency t (pe_hbm_bytes e))"
    using e1 bytes lat
    by (simp add: pt_ensure_resident_def pt_invalidate_tile_def map_of_map_snd pt_warm_def AList.delete_conv' Let_def)
  moreover have "fst (pt_ensure_resident pid tile (pt_invalidate_group t1)) = Inr (pt_cold_latency t (pe_hbm_bytes e))"
    using e1 bytes lat
    by (simp add: pt_ensure_resident_def pt_invalidate_group_def map_of_map_snd pt_warm_def Let_def)
  moreover have "fst (pt_ensure_resident pid tile (pt_evict pid tile t1)) = Inr (pt_cold_latency t (pe_hbm_bytes e))"
    using e1 bytes lat
    by (simp add: pt_ensure_resident_def pt_evict_def pt_warm_def AList.update_conv' Let_def)
  ultimately show ?thesis by blast
qed

theorem pt_residency_witness:
  "\<exists>t1. pt_ensure_resident 1 0 (snd (pt_register 1 1 77 0 256 (pt_new (\<lambda>b. b div 64 + 1)))) = (Inr 5, t1)
     \<and> pt_ensure_resident 1 0 t1 = (Inr 0, t1)"
proof -
  let ?t = "snd (pt_register 1 1 77 0 256 (pt_new (\<lambda>b. b div 64 + 1)))"
  have e: "\<exists>e. dict_get (pt_entries ?t) 1 = Some e" by (simp add: pt_register_def pt_new_def Let_def)
  have r: "pt_ensure_resident 1 0 ?t = (Inr 5, snd (pt_ensure_resident 1 0 ?t))"
    by (simp add: pt_register_def pt_new_def Let_def pt_ensure_resident_def pt_warm_def)
  from e obtain x where "dict_get (pt_entries ?t) 1 = Some x" ..
  from pt_residency [OF this r] r show ?thesis by blast
qed

end
