(* ===== verification/Extents.thy ===== *)
theory Extents
  imports Elenor_Prelude "HOL-Library.Multiset" "HOL-Library.Product_Lexorder"
begin

text \<open>
  Bank-local free extents: the static helpers of \<open>BankedFreeExtentAllocator\<close> in
  \<open>src/pipeline_validator/memory/allocator.py\<close>. An extent list is read through its
  \<^emph>\<open>cover\<close>, the number of its extents that contain a byte. \<open>consume\<close>, sorting and
  coalescing are characterised by what they do to the cover and by the canonical form
  (ascending, positive, separated by gaps) they keep or establish.
\<close>

section \<open>Operations\<close>

type_synonym extents = "(int \<times> int) list"

fun consume :: "extents \<Rightarrow> int \<Rightarrow> int \<Rightarrow> extents" where
  "consume [] start sz = []"
| "consume ((estart, esize) # es) start sz =
     (let eend = estart + esize; astart = start; aend = start + sz in
      if aend \<le> estart \<or> astart \<ge> eend then (estart, esize) # consume es start sz
      else (if astart > estart then [(estart, astart - estart)] else [])
           @ (if aend < eend then [(aend, eend - aend)] else [])
           @ consume es start sz)"

definition range_available :: "extents \<Rightarrow> int \<Rightarrow> int \<Rightarrow> bool" where
  "range_available es start sz =
     list_ex (\<lambda>(es, en). start \<ge> es \<and> start + sz \<le> es + en) es"

definition range_overlaps :: "extents \<Rightarrow> int \<Rightarrow> int \<Rightarrow> bool" where
  "range_overlaps es start sz =
     list_ex (\<lambda>(es, en). start < es + en \<and> es < start + sz) es"

fun coalesce_from :: "int \<times> int \<Rightarrow> extents \<Rightarrow> py_error + extents" where
  "coalesce_from e [] = Inr [e]"
| "coalesce_from (last_start, last_size) ((start, sz) # es) =
     (if start < last_start + last_size then Inl (MemoryInvariantError ''free extents overlap'')
      else if start = last_start + last_size then coalesce_from (last_start, last_size + sz) es
      else map_sum id ((#) (last_start, last_size)) (coalesce_from (start, sz) es))"

definition coalesce_extents :: "extents \<Rightarrow> py_error + extents" where
  "coalesce_extents es = (case sort es of [] \<Rightarrow> Inr [] | e # rest \<Rightarrow> coalesce_from e rest)"

section \<open>Cover and canonical form\<close>

definition ind :: "int \<Rightarrow> int \<Rightarrow> int \<Rightarrow> int" where
  "ind start sz x = of_bool (start \<le> x \<and> x < start + sz)"

definition ext_cov :: "extents \<Rightarrow> int \<Rightarrow> int" where
  "ext_cov es x = sum_list (map (\<lambda>(s, n). ind s n x) es)"

definition ext_total :: "extents \<Rightarrow> int" where
  "ext_total es = sum_list (map snd es)"

definition canonical :: "extents \<Rightarrow> bool" where
  "canonical es \<longleftrightarrow> sorted_wrt (\<lambda>p q. fst p + snd p < fst q) es \<and> (\<forall>p \<in> set es. 0 < snd p)"

lemma ind_nonneg [simp]: "0 \<le> ind s n x"
  by (simp add: ind_def)

lemma ind_le_1 [simp]: "ind s n x \<le> 1"
  by (simp add: ind_def)

lemma ext_cov_simps [simp]:
  "ext_cov [] x = 0"
  "ext_cov (p # es) x = ind (fst p) (snd p) x + ext_cov es x"
  "ext_cov (es @ fs) x = ext_cov es x + ext_cov fs x"
  by (simp_all add: ext_cov_def case_prod_unfold)

lemma ext_total_simps [simp]:
  "ext_total [] = 0"
  "ext_total (p # es) = snd p + ext_total es"
  "ext_total (es @ fs) = ext_total es + ext_total fs"
  by (simp_all add: ext_total_def)

lemma ext_cov_nonneg [simp]: "0 \<le> ext_cov es x"
  by (induction es) auto

lemma ext_cov_sort [simp]: "ext_cov (sort es) x = ext_cov es x"
proof -
  have "mset (map (\<lambda>(s, n). ind s n x) (sort es)) = mset (map (\<lambda>(s, n). ind s n x) es)"
    by simp
  then show ?thesis unfolding ext_cov_def by (metis sum_mset_sum_list)
qed

lemma ext_cov_member: "(s, n) \<in> set es \<Longrightarrow> ind s n x \<le> ext_cov es x"
  by (induction es) (auto simp: add_increasing add_increasing2)

lemma ext_cov_zero_iff: "ext_cov es x = 0 \<longleftrightarrow> (\<forall>(s, n) \<in> set es. \<not> (s \<le> x \<and> x < s + n))"
proof (induction es)
  case (Cons p es)
  have "ext_cov (p # es) x = 0 \<longleftrightarrow> ind (fst p) (snd p) x = 0 \<and> ext_cov es x = 0"
    by (simp add: add_nonneg_eq_0_iff)
  with Cons show ?case by (auto simp: ind_def)
qed simp

lemma canonical_Nil [simp]: "canonical []"
  by (simp add: canonical_def)

lemma canonical_Cons:
  "canonical (p # es) \<longleftrightarrow> 0 < snd p \<and> (\<forall>q \<in> set es. fst p + snd p < fst q) \<and> canonical es"
  by (auto simp: canonical_def)

lemma canonical_cov_before: "\<forall>q \<in> set es. y < fst q \<Longrightarrow> x \<le> y \<Longrightarrow> ext_cov es x = 0"
  by (fastforce simp: ext_cov_zero_iff)

lemma canonical_cov_le_1: "canonical es \<Longrightarrow> ext_cov es x \<le> 1"
proof (induction es)
  case (Cons p es)
  show ?case
  proof (cases "x < fst p + snd p")
    case True
    with Cons.prems have "ext_cov es x = 0"
      by (intro canonical_cov_before [of _ "fst p + snd p"]) (auto simp: canonical_Cons)
    then show ?thesis by simp
  next
    case False
    with Cons show ?thesis by (simp add: canonical_Cons ind_def)
  qed
qed simp

text \<open>
  In a canonical list a contiguous covered range lies in one extent, so the code's
  availability test is exactly byte-wise freeness, and its overlap test is exactly that
  some byte is free.
\<close>

lemma range_available_cov:
  assumes "canonical es" "0 < n"
  shows "range_available es s n \<longleftrightarrow> (\<forall>x. s \<le> x \<and> x < s + n \<longrightarrow> ext_cov es x = 1)"
proof
  assume "range_available es s n"
  then obtain a k where "(a, k) \<in> set es" "s \<ge> a" "s + n \<le> a + k"
    by (auto simp: range_available_def list_ex_iff)
  then have "s \<le> x \<and> x < s + n \<Longrightarrow> 1 \<le> ext_cov es x" for x
    using ext_cov_member [of a k es x] by (simp add: ind_def)
  then show "\<forall>x. s \<le> x \<and> x < s + n \<longrightarrow> ext_cov es x = 1"
    using canonical_cov_le_1 [OF assms(1)] by (meson order_antisym)
next
  assume "\<forall>x. s \<le> x \<and> x < s + n \<longrightarrow> ext_cov es x = 1"
  then show "range_available es s n"
    using assms
  proof (induction es)
    case Nil
    from Nil(1) [rule_format, of s] Nil(3) show ?case by simp
  next
    case (Cons p es)
    obtain a k where p: "p = (a, k)" by (cases p)
    from Cons.prems p have k: "0 < k" "\<forall>q \<in> set es. a + k < fst q" "canonical es"
      by (auto simp: canonical_Cons)
    have gap: "ext_cov es x = 0" if "x \<le> a + k" for x
      using canonical_cov_before [OF k(2) that] .
    have cov: "ind a k x + ext_cov es x = 1" if "s \<le> x" "x < s + n" for x
      using Cons.prems(1) that p by auto
    have end_free: "\<not> (s \<le> a + k \<and> a + k < s + n)"
      using cov [of "a + k"] gap [of "a + k"] by (auto simp: ind_def)
    show ?case
    proof (cases "s < a + k")
      case True
      with cov [of s] gap [of s] Cons.prems(3) have "a \<le> s" by (auto simp: ind_def split: if_splits)
      moreover from True end_free have "s + n \<le> a + k" by linarith
      ultimately show ?thesis by (auto simp: range_available_def p)
    next
      case False
      then have "ind a k x = 0" if "s \<le> x" for x using that by (simp add: ind_def)
      with cov have "\<forall>x. s \<le> x \<and> x < s + n \<longrightarrow> ext_cov es x = 1" by fastforce
      from Cons.IH [OF this k(3) Cons.prems(3)] show ?thesis
        by (simp add: range_available_def p)
    qed
  qed
qed

lemma range_overlaps_cov:
  assumes "\<forall>p \<in> set es. 0 < snd p" "0 < n"
  shows "range_overlaps es s n \<longleftrightarrow> (\<exists>x. s \<le> x \<and> x < s + n \<and> 0 < ext_cov es x)"
proof
  assume "range_overlaps es s n"
  then obtain a k where ak: "(a, k) \<in> set es" "s < a + k" "a < s + n"
    by (auto simp: range_overlaps_def list_ex_iff)
  with assms have "0 < k" by auto
  with ak assms ext_cov_member [OF ak(1), of "max s a"]
  have "s \<le> max s a \<and> max s a < s + n \<and> 0 < ext_cov es (max s a)"
    by (auto simp: ind_def)
  then show "\<exists>x. s \<le> x \<and> x < s + n \<and> 0 < ext_cov es x" ..
next
  assume "\<exists>x. s \<le> x \<and> x < s + n \<and> 0 < ext_cov es x"
  then obtain x where x: "s \<le> x" "x < s + n" "ext_cov es x \<noteq> 0" by auto
  from x(3) obtain a k where "(a, k) \<in> set es" "a \<le> x" "x < a + k"
    by (auto simp: ext_cov_zero_iff)
  with x show "range_overlaps es s n"
    unfolding range_overlaps_def list_ex_iff by (intro bexI [of _ "(a, k)"]) auto
qed

section \<open>Consuming a range\<close>

lemma consume_cov:
  "0 < n \<Longrightarrow> ext_cov (consume es s n) x = (if s \<le> x \<and> x < s + n then 0 else ext_cov es x)"
  by (induction es s n rule: consume.induct) (auto simp: Let_def ind_def)

lemma consume_bounds:
  "0 < n \<Longrightarrow> q \<in> set (consume es s n) \<Longrightarrow> \<exists>p \<in> set es. fst p \<le> fst q \<and> fst q + snd q \<le> fst p + snd p"
  by (induction es s n rule: consume.induct) (fastforce simp: Let_def split: if_splits)+

lemma consume_canonical:
  assumes "0 < n"
  shows "canonical es \<Longrightarrow> canonical (consume es s n)"
proof (induction es)
  case (Cons p es)
  obtain a k where p: "p = (a, k)" by (cases p)
  have IH: "canonical (consume es s n)" using Cons by (simp add: canonical_Cons)
  have gap: "a + k < fst q" if "q \<in> set (consume es s n)" for q
    using consume_bounds [OF assms that] Cons.prems by (fastforce simp: canonical_Cons p)
  show ?case
    using IH gap assms Cons.prems
    by (auto simp: p Let_def canonical_Cons dest: gap)
qed simp

section \<open>Coalescing\<close>

lemma coalesce_from_ok:
  assumes "sorted (e # es)" "\<forall>p \<in> set (e # es). 0 < snd p" "\<forall>x. ext_cov (e # es) x \<le> 1"
  shows "\<exists>ys. coalesce_from e es = Inr ys \<and> canonical ys \<and> ys \<noteq> [] \<and> fst (hd ys) = fst e
           \<and> (\<forall>x. ext_cov ys x = ext_cov (e # es) x)"
  using assms
proof (induction e es rule: coalesce_from.induct)
  case (1 e)
  then show ?case by (simp add: canonical_Cons)
next
  case (2 ls ln s n es)
  have le: "ls \<le> s" using 2(3) by (auto simp: less_eq_prod_def)
  have pos: "0 < ln" "0 < n" using 2(4) by auto
  have no_overlap: "\<not> s < ls + ln"
  proof
    assume "s < ls + ln"
    with le pos have "2 \<le> ext_cov ((ls, ln) # (s, n) # es) s"
      using ext_cov_nonneg [of es s] by (simp add: ind_def)
    moreover have "ext_cov ((ls, ln) # (s, n) # es) s \<le> 1" using 2(5) by blast
    ultimately show False by linarith
  qed
  have "ext_cov ((s, n) # es) x \<le> ext_cov ((ls, ln) # (s, n) # es) x" for x by simp
  with 2(3,5) have rest: "sorted ((s, n) # es)" "\<forall>x. ext_cov ((s, n) # es) x \<le> 1"
    by (simp, meson order_trans)
  show ?case
  proof (cases "s = ls + ln")
    case True
    have same: "ind ls (ln + n) x = ind ls ln x + ind s n x" for x
      using True pos by (auto simp: ind_def)
    have "\<forall>q \<in> set es. (s, n) \<le> q" "sorted es" using 2(3) by simp_all
    moreover from this(1) have "\<forall>q \<in> set es. (ls, ln + n) \<le> q"
      using True pos by (auto simp: less_eq_prod_def)
    ultimately have "sorted ((ls, ln + n) # es)" by simp
    moreover have "\<forall>p \<in> set ((ls, ln + n) # es). 0 < snd p" using 2(4) by auto
    moreover have "\<forall>x. ext_cov ((ls, ln + n) # es) x \<le> 1" using 2(5) by (simp add: same add.assoc)
    ultimately show ?thesis
      using 2(1) [OF no_overlap True] no_overlap True by (auto simp: same add.assoc)
  next
    case False
    with no_overlap have gap: "ls + ln < s" by simp
    from 2(2) [OF no_overlap False rest(1) _ rest(2)] 2(4)
    obtain ys where ys: "coalesce_from (s, n) es = Inr ys" "canonical ys" "ys \<noteq> []"
        "fst (hd ys) = s" "\<forall>x. ext_cov ys x = ext_cov ((s, n) # es) x"
      by auto
    have "\<forall>q \<in> set ys. s \<le> fst q"
      using ys(2-4) by (cases ys) (auto simp: canonical_Cons dest!: bspec)
    with gap have "\<forall>q \<in> set ys. ls + ln < fst q" by fastforce
    with ys pos no_overlap False show ?thesis by (simp add: canonical_Cons)
  qed
qed

lemma coalesce_ok:
  assumes "\<forall>p \<in> set es. 0 < snd p" "\<forall>x. ext_cov es x \<le> 1"
  shows "\<exists>ys. coalesce_extents es = Inr ys \<and> canonical ys \<and> (\<forall>x. ext_cov ys x = ext_cov es x)"
proof (cases "sort es")
  case Nil
  then have "es = []" by (metis length_0_conv length_sort)
  then show ?thesis by (simp add: coalesce_extents_def)
next
  case (Cons e rest)
  have "sorted (e # rest)" using Cons by (metis sorted_sort)
  moreover have "\<forall>p \<in> set (e # rest). 0 < snd p" using assms(1) Cons by (metis set_sort)
  moreover have "ext_cov (e # rest) x = ext_cov es x" for x using Cons by (metis ext_cov_sort)
  ultimately show ?thesis
    using coalesce_from_ok [of e rest] assms(2) Cons by (auto simp: coalesce_extents_def)
qed

section \<open>Sizes\<close>

text \<open>The bytes of a list that stays within a window are the sum of its cover over the window.\<close>

lemma sum_ind:
  assumes "lo \<le> s" "s + n \<le> hi" "0 \<le> n"
  shows "(\<Sum>x \<in> {lo..<hi}. ind s n x) = n"
proof -
  have "(\<Sum>x \<in> {lo..<hi}. ind s n x) = (\<Sum>x \<in> {s..<s + n}. ind s n x)"
    using assms by (intro sum.mono_neutral_right) (auto simp: ind_def)
  also have "\<dots> = (\<Sum>x \<in> {s..<s + n}. 1)" by (rule sum.cong) (auto simp: ind_def)
  finally show ?thesis using assms by simp
qed

lemma ext_cov_total:
  assumes "\<forall>p \<in> set es. 0 < snd p \<and> lo \<le> fst p \<and> fst p + snd p \<le> hi"
  shows "(\<Sum>x \<in> {lo..<hi}. ext_cov es x) = ext_total es"
  using assms
proof (induction es)
  case (Cons p es)
  then show ?case by (simp add: sum.distrib sum_ind)
qed simp

lemma ext_in_window:
  assumes "\<forall>x. ext_cov es x \<le> of_bool (lo \<le> x \<and> x < hi)" "p \<in> set es" "0 < snd p"
  shows "lo \<le> fst p \<and> fst p + snd p \<le> hi"
proof -
  have "1 \<le> ext_cov es (fst p)" "1 \<le> ext_cov es (fst p + snd p - 1)"
    using ext_cov_member [of "fst p" "snd p" es "fst p"] assms(2,3)
      ext_cov_member [of "fst p" "snd p" es "fst p + snd p - 1"] by (simp_all add: ind_def)
  with assms(1) have "(1::int) \<le> of_bool (lo \<le> fst p \<and> fst p < hi)"
    "(1::int) \<le> of_bool (lo \<le> fst p + snd p - 1 \<and> fst p + snd p - 1 < hi)"
    by (meson order_trans)+
  then show ?thesis by (auto simp: of_bool_def split: if_splits)
qed

text \<open>A canonical list is determined by the bytes it covers: the maximal runs, in order.\<close>

lemma canonical_unique:
  assumes "canonical es" "canonical fs" "\<forall>x. ext_cov es x = ext_cov fs x"
  shows "es = fs"
  using assms
proof (induction es arbitrary: fs)
  case Nil
  show ?case
  proof (cases fs)
    case (Cons q gs)
    then have "1 \<le> ext_cov fs (fst q)"
      using Nil(2) ext_cov_member [of "fst q" "snd q" fs "fst q"] by (simp add: canonical_Cons ind_def)
    with Nil(3) show ?thesis by simp
  qed simp
next
  case (Cons p es)
  have p: "0 < snd p" "\<forall>q \<in> set es. fst p + snd p < fst q" "canonical es"
    using Cons.prems(1) by (auto simp: canonical_Cons)
  have "fs \<noteq> []"
  proof
    assume "fs = []"
    with Cons.prems(3) have "ext_cov (p # es) (fst p) = 0" by simp
    with p(1) show False using ext_cov_nonneg [of es "fst p"] by (simp add: ind_def)
  qed
  then obtain q gs where fs: "fs = q # gs" by (cases fs) auto
  have q: "0 < snd q" "\<forall>r \<in> set gs. fst q + snd q < fst r" "canonical gs"
    using Cons.prems(2) by (auto simp: canonical_Cons fs)
  have eq: "ind (fst p) (snd p) x + ext_cov es x = ind (fst q) (snd q) x + ext_cov gs x" for x
    using Cons.prems(3) by (simp add: fs)
  have gp: "ext_cov es x = 0" if "x \<le> fst p + snd p" for x using canonical_cov_before [OF p(2) that] .
  have gq: "ext_cov gs x = 0" if "x \<le> fst q + snd q" for x using canonical_cov_before [OF q(2) that] .
  have start: "fst p = fst q"
    using eq [of "fst p"] eq [of "fst q"] gp gq p(1) q(1)
    by (cases "fst p" "fst q" rule: linorder_cases) (auto simp: ind_def)
  have size: "snd p = snd q"
    using eq [of "fst p + snd p"] eq [of "fst q + snd q"] gp gq p(1) q(1) start
    by (cases "snd p" "snd q" rule: linorder_cases) (auto simp: ind_def)
  from start size have "p = q" by (simp add: prod_eq_iff)
  with eq Cons.IH [OF p(3) q(3)] fs show ?case by simp
qed

end
