(* ===== verification/Allocator.thy ===== *)
theory Allocator
  imports Extents
begin

unbundle bit_operations_syntax

text \<open>
  The banked free-extent allocator of \<open>src/pipeline_validator/memory/allocator.py\<close>: owners,
  requests, handles and plans, first-fit planning on a cloned free map, commit, exact
  reservations, pins, release, segment resolution, reconfiguration and reset. Tracing has
  no effect on the pool and is left out; the f-string of an allocation id is kept as the
  tuple of its parts, which the pool never takes apart. Only \<open>l2\<close>, \<open>l1\<close> and \<open>hbm\<close> pools
  of fixed name and tile exist, so the parts determine the string and conversely.
\<close>

section \<open>Data\<close>

datatype memory_owner =
    ExternalOwner string
  | ContextBufferOwner string int string
  | TaskBufferOwner string int string int int int string

record bank_segment =
  seg_bank_id :: int
  seg_address :: int
  seg_size_bytes :: int

record allocation_request =
  rq_memory_space :: string
  rq_buffer_id :: string
  rq_owner :: memory_owner
  rq_size_bytes :: int
  rq_alignment :: int
  rq_role :: string

type_synonym allocation_id = "string \<times> int option \<times> int \<times> int"

text \<open>
  A handle is generic in its allocation id: the pool below keeps the parts of the id, the HBM
  region and the byte store keep the printed string.
\<close>

record 'id handle =
  hd_allocation_id :: 'id
  hd_memory_space :: string
  hd_owner :: memory_owner
  hd_base_address :: int
  hd_size_bytes :: int
  hd_alignment :: int
  hd_bank_segments :: "bank_segment list"
  hd_generation :: int
  hd_allocate_cycle :: int
  hd_arena_id :: string
  hd_profile_generation :: int
  hd_backing_id :: string

type_synonym allocation_handle = "allocation_id handle"

definition end_address :: "'id handle \<Rightarrow> int" where
  "end_address h = hd_base_address h + hd_size_bytes h"

datatype admission_failure_kind = INVALID_REQUEST | PERMANENT_CAPACITY | TEMPORARY_CAPACITY

datatype admission_wait_reason =
  WAIT_CAPACITY | WAIT_FRAGMENTATION | WAIT_SLOT | WAIT_CONTROL_RESOURCE | WAIT_CONTEXT_LIMIT

record admission_failure =
  af_kind :: admission_failure_kind
  af_reason :: string
  af_buffer_id :: string
  af_wait_reason :: "admission_wait_reason option"

definition mk_admission_failure ::
  "admission_failure_kind \<Rightarrow> string \<Rightarrow> string \<Rightarrow> admission_wait_reason option
   \<Rightarrow> py_error + admission_failure" where
  "mk_admission_failure kind reason buffer_id wait_reason =
     (if kind = TEMPORARY_CAPACITY then
        Inr \<lparr>af_kind = kind, af_reason = reason, af_buffer_id = buffer_id,
             af_wait_reason = (case wait_reason of None \<Rightarrow> Some WAIT_CAPACITY | Some w \<Rightarrow> Some w)\<rparr>
      else if wait_reason \<noteq> None then
        Inl (ValueError ''permanent admission failure cannot enter a wait queue'')
      else Inr \<lparr>af_kind = kind, af_reason = reason, af_buffer_id = buffer_id, af_wait_reason = None\<rparr>)"

record allocation_plan =
  pl_pool_version :: int
  pl_requests :: "allocation_request list"
  pl_placements :: "(string, bank_segment list) dict"

datatype allocation_state = LIVE | RELEASE_PENDING | RELEASED

record allocation_record =
  rc_handle :: allocation_handle
  rc_state :: allocation_state
  rc_release_cycle :: int
  rc_pins :: "string set"

record allocator =
  al_memory_space :: string
  al_capacity_bytes :: int
  al_banks :: int
  al_bytes_per_bank :: int
  al_free :: "extents list"
  al_live :: "(allocation_id, allocation_record) dict"
  al_exact_live :: "bank_segment set"
  al_pool_version :: int
  al_generation :: int
  al_counter :: int
  al_peak_allocated :: int
  al_allocated_bytes :: int
  al_trace_tile_id :: "int option"

definition allocator_new :: "string \<Rightarrow> int \<Rightarrow> int \<Rightarrow> int option \<Rightarrow> py_error + allocator" where
  "allocator_new space capacity n_banks tile =
     (if capacity \<le> 0 then Inl (ValueError ''invalid allocation capacity'')
      else if n_banks < 1 then Inl (ValueError ''banks must be >= 1'')
      else if capacity mod n_banks \<noteq> 0 then Inl (ValueError ''capacity not divisible by banks'')
      else Inr \<lparr>al_memory_space = space, al_capacity_bytes = capacity, al_banks = n_banks,
                al_bytes_per_bank = capacity div n_banks,
                al_free = replicate (nat n_banks) [(0, capacity div n_banks)],
                al_live = [], al_exact_live = {}, al_pool_version = 0, al_generation = 0,
                al_counter = 0, al_peak_allocated = 0, al_allocated_bytes = 0,
                al_trace_tile_id = tile\<rparr>)"

section \<open>Planning\<close>

text \<open>
  \<open>_plan_one\<close>: the inner loop walks the extents of one bank with the remaining size and
  the segments found so far; alignment applies while no segment has been placed. The outer
  loop stops once nothing remains and leaves the later banks alone.
\<close>

fun plan_extents ::
  "int \<Rightarrow> int \<Rightarrow> int \<Rightarrow> extents \<Rightarrow> int \<Rightarrow> bank_segment list \<Rightarrow> extents \<times> int \<times> bank_segment list" where
  "plan_extents bank base al [] remaining segs = ([], remaining, segs)"
| "plan_extents bank base al ((start, sz) # es) remaining segs =
     (if remaining \<le> 0 then
        (let (new_es, r, sg) = plan_extents bank base al es remaining segs
         in ((start, sz) # new_es, r, sg))
      else
        let need_align = (if segs = [] then al else 1);
            aligned_start = ((start + need_align - 1) div need_align) * need_align
        in if aligned_start \<ge> start + sz then
             (let (new_es, r, sg) = plan_extents bank base al es remaining segs
              in ((start, sz) # new_es, r, sg))
           else
             let tk = min remaining ((start + sz) - aligned_start);
                 seg = \<lparr>seg_bank_id = bank, seg_address = base + aligned_start, seg_size_bytes = tk\<rparr>;
                 leftover_start = aligned_start + tk;
                 leftover_size = (start + sz) - leftover_start;
                 (new_es, r, sg) = plan_extents bank base al es (remaining - tk) (segs @ [seg])
             in ((if aligned_start > start then [(start, aligned_start - start)] else [])
                 @ (if leftover_size > 0 then [(leftover_start, leftover_size)] else [])
                 @ new_es, r, sg))"

fun plan_banks ::
  "int \<Rightarrow> int \<Rightarrow> int \<Rightarrow> extents list \<Rightarrow> int \<Rightarrow> bank_segment list \<Rightarrow> extents list \<times> int \<times> bank_segment list" where
  "plan_banks bank bpb al [] remaining segs = ([], remaining, segs)"
| "plan_banks bank bpb al (es # rest) remaining segs =
     (if remaining \<le> 0 then (es # rest, remaining, segs)
      else let (es', r, sg) = plan_extents bank (bank * bpb) al es remaining segs;
               (rest', r', sg') = plan_banks (bank + 1) bpb al rest r sg
           in (es' # rest', r', sg'))"

definition plan_one ::
  "allocator \<Rightarrow> extents list \<Rightarrow> allocation_request \<Rightarrow> bank_segment list option \<times> extents list" where
  "plan_one a fm req =
     (let (fm', remaining, segs) = plan_banks 0 (al_bytes_per_bank a) (rq_alignment req) fm (rq_size_bytes req) []
      in (if remaining > 0 then None else Some segs, fm'))"

fun fits_all :: "allocator \<Rightarrow> extents list \<Rightarrow> allocation_request list \<Rightarrow> bool" where
  "fits_all a fm [] = True"
| "fits_all a fm (req # reqs) =
     (case plan_one a fm req of (None, _) \<Rightarrow> False | (Some _, fm') \<Rightarrow> fits_all a fm' reqs)"

definition can_ever_fit_bundle :: "allocator \<Rightarrow> allocation_request list \<Rightarrow> bool" where
  "can_ever_fit_bundle a reqs =
     fits_all a (replicate (nat (al_banks a)) [(0, al_bytes_per_bank a)]) reqs"

fun validate_requests :: "allocation_request list \<Rightarrow> (string \<times> string) option" where
  "validate_requests [] = None"
| "validate_requests (req # reqs) =
     (if rq_size_bytes req \<le> 0 then Some (''invalid allocation size'', rq_buffer_id req)
      else if rq_alignment req \<le> 0 \<or> (rq_alignment req AND (rq_alignment req - 1)) \<noteq> 0
      then Some (''invalid allocation alignment'', rq_buffer_id req)
      else validate_requests reqs)"

fun plan_requests ::
  "allocator \<Rightarrow> extents list \<Rightarrow> allocation_request list \<Rightarrow> (string, bank_segment list) dict
   \<Rightarrow> string + (string, bank_segment list) dict" where
  "plan_requests a fm [] placements = Inr placements"
| "plan_requests a fm (req # reqs) placements =
     (case plan_one a fm req of
        (None, _) \<Rightarrow> Inl (rq_buffer_id req)
      | (Some segs, fm') \<Rightarrow> plan_requests a fm' reqs (dict_set (rq_buffer_id req) segs placements))"

definition failure :: "admission_failure_kind \<Rightarrow> string \<Rightarrow> string \<Rightarrow> admission_failure" where
  "failure kind reason buffer_id = projr (mk_admission_failure kind reason buffer_id None)"

definition plan_bundle ::
  "allocator \<Rightarrow> allocation_request list \<Rightarrow> admission_failure + allocation_plan" where
  "plan_bundle a reqs =
     (case validate_requests reqs of
        Some (reason, buffer_id) \<Rightarrow> Inl (failure INVALID_REQUEST reason buffer_id)
      | None \<Rightarrow>
          (case plan_requests a (al_free a) reqs [] of
             Inl buffer_id \<Rightarrow>
               Inl (failure (if \<not> can_ever_fit_bundle a reqs then PERMANENT_CAPACITY else TEMPORARY_CAPACITY)
                      ''allocation capacity exceeded'' buffer_id)
           | Inr placements \<Rightarrow>
               Inr \<lparr>pl_pool_version = al_pool_version a, pl_requests = reqs, pl_placements = placements\<rparr>))"

section \<open>Commit\<close>

text \<open>
  Indexing the per-bank list follows Python: a negative index counts from the end, an index
  out of range raises.
\<close>

definition py_index :: "nat \<Rightarrow> int \<Rightarrow> nat option" where
  "py_index n i = (if 0 \<le> i \<and> i < int n then Some (nat i)
                   else if - int n \<le> i \<and> i < 0 then Some (nat (int n + i)) else None)"

definition local_start :: "allocator \<Rightarrow> bank_segment \<Rightarrow> int" where
  "local_start a seg = seg_address seg - seg_bank_id seg * al_bytes_per_bank a"

fun consume_segments :: "allocator \<Rightarrow> extents list \<Rightarrow> bank_segment list \<Rightarrow> py_error + extents list" where
  "consume_segments a fm [] = Inr fm"
| "consume_segments a fm (seg # segs) =
     (case py_index (length fm) (seg_bank_id seg) of
        None \<Rightarrow> Inl IndexError
      | Some i \<Rightarrow> consume_segments a (fm[i := consume (fm ! i) (local_start a seg) (seg_size_bytes seg)]) segs)"

fun consume_placements ::
  "allocator \<Rightarrow> (string, bank_segment list) dict \<Rightarrow> extents list \<Rightarrow> allocation_request list
   \<Rightarrow> py_error + extents list" where
  "consume_placements a placements fm [] = Inr fm"
| "consume_placements a placements fm (req # reqs) =
     (case dict_get placements (rq_buffer_id req) of
        None \<Rightarrow> Inl KeyError
      | Some segs \<Rightarrow>
          (case consume_segments a fm segs of
             Inl e \<Rightarrow> Inl e
           | Inr fm' \<Rightarrow> consume_placements a placements fm' reqs))"

definition new_handle :: "allocator \<Rightarrow> allocation_request \<Rightarrow> bank_segment list \<Rightarrow> int \<Rightarrow> allocation_handle" where
  "new_handle a req segs cycle =
     \<lparr>hd_allocation_id = (al_memory_space a, al_trace_tile_id a, al_generation a, al_counter a),
      hd_memory_space = al_memory_space a, hd_owner = rq_owner req,
      hd_base_address = seg_address (hd segs), hd_size_bytes = rq_size_bytes req,
      hd_alignment = rq_alignment req, hd_bank_segments = segs, hd_generation = al_generation a,
      hd_allocate_cycle = cycle, hd_arena_id = '''', hd_profile_generation = 0, hd_backing_id = ''''\<rparr>"

definition new_record :: "allocation_handle \<Rightarrow> allocation_record" where
  "new_record h = \<lparr>rc_handle = h, rc_state = LIVE, rc_release_cycle = -1, rc_pins = {}\<rparr>"

definition commit_one :: "allocator \<Rightarrow> allocation_request \<Rightarrow> bank_segment list \<Rightarrow> int \<Rightarrow> allocator" where
  "commit_one a req segs cycle =
     (let a = a\<lparr>al_counter := al_counter a + 1\<rparr>;
          h = new_handle a req segs cycle;
          total = al_allocated_bytes a + rq_size_bytes req
      in a\<lparr>al_live := dict_set (hd_allocation_id h) (new_record h) (al_live a),
           al_allocated_bytes := total,
           al_peak_allocated := (if total > al_peak_allocated a then total else al_peak_allocated a)\<rparr>)"

fun commit_requests ::
  "(string, bank_segment list) dict \<Rightarrow> int \<Rightarrow> allocation_request list \<Rightarrow> allocator
   \<Rightarrow> (allocator, allocation_handle list) outcome" where
  "commit_requests placements cycle [] a = ret [] a"
| "commit_requests placements cycle (req # reqs) a =
     (case dict_get placements (rq_buffer_id req) of
        None \<Rightarrow> raise KeyError a
      | Some [] \<Rightarrow> raise IndexError (a\<lparr>al_counter := al_counter a + 1\<rparr>)
      | Some segs \<Rightarrow>
          and_then (commit_requests placements cycle reqs (commit_one a req segs cycle))
            (\<lambda>hs a'. ret (new_handle (a\<lparr>al_counter := al_counter a + 1\<rparr>) req segs cycle # hs) a'))"

definition commit :: "allocation_plan \<Rightarrow> int \<Rightarrow> allocator \<Rightarrow> (allocator, allocation_handle list) outcome" where
  "commit plan cycle a =
     (if pl_pool_version plan \<noteq> al_pool_version a
      then raise (MemoryInvariantError ''stale allocation plan'') a
      else case consume_placements a (pl_placements plan) (al_free a) (pl_requests plan) of
             Inl e \<Rightarrow> raise e a
           | Inr fm \<Rightarrow>
               and_then (commit_requests (pl_placements plan) cycle (pl_requests plan) (a\<lparr>al_free := fm\<rparr>))
                 (\<lambda>hs a'. ret hs (a'\<lparr>al_pool_version := al_pool_version a' + 1\<rparr>)))"

definition rollback :: "allocation_plan \<Rightarrow> allocator \<Rightarrow> (allocator, unit) outcome" where
  "rollback plan a =
     (if pl_pool_version plan \<noteq> al_pool_version a
      then raise (MemoryInvariantError ''stale allocation plan'') a else ret () a)"

section \<open>Exact reservations\<close>

definition segment_local_start :: "allocator \<Rightarrow> bank_segment \<Rightarrow> py_error + int" where
  "segment_local_start a seg =
     (if \<not> (0 \<le> seg_bank_id seg \<and> seg_bank_id seg < al_banks a) \<or> seg_size_bytes seg \<le> 0
      then Inl (MemoryInvariantError ''invalid exact extent segment'')
      else if local_start a seg < 0 \<or> local_start a seg + seg_size_bytes seg > al_bytes_per_bank a
      then Inl (MemoryInvariantError ''exact extent crosses its physical bank'')
      else Inr (local_start a seg))"

fun exact_ranges ::
  "allocator \<Rightarrow> bank_segment list \<Rightarrow> (int, (int \<times> int) list) dict \<Rightarrow> py_error + (int, (int \<times> int) list) dict" where
  "exact_ranges a [] per_bank = Inr per_bank"
| "exact_ranges a (seg # segs) per_bank =
     (case segment_local_start a seg of
        Inl e \<Rightarrow> Inl e
      | Inr ls \<Rightarrow>
          exact_ranges a segs
            (dict_set (seg_bank_id seg)
               ((case dict_get per_bank (seg_bank_id seg) of None \<Rightarrow> [] | Some rs \<Rightarrow> rs)
                @ [(ls, ls + seg_size_bytes seg)]) per_bank))"

fun ranges_overlap :: "(int \<times> int) list \<Rightarrow> bool" where
  "ranges_overlap (r # s # rs) = (fst s < snd r \<or> ranges_overlap (s # rs))"
| "ranges_overlap _ = False"

definition validate_exact_bundle :: "allocator \<Rightarrow> bank_segment list \<Rightarrow> py_error + unit" where
  "validate_exact_bundle a segs =
     (if segs = [] then Inl (MemoryInvariantError ''exact extent bundle must be a non-empty tuple'')
      else case exact_ranges a segs [] of
             Inl e \<Rightarrow> Inl e
           | Inr per_bank \<Rightarrow>
               if list_ex (\<lambda>rs. ranges_overlap (sort rs)) (dict_values per_bank)
               then Inl (MemoryInvariantError ''exact extent bundle overlaps itself'')
               else Inr ())"

fun reserve_exact :: "allocator \<Rightarrow> extents list \<Rightarrow> bank_segment list \<Rightarrow> py_error + extents list" where
  "reserve_exact a fm [] = Inr fm"
| "reserve_exact a fm (seg # segs) =
     (case segment_local_start a seg of
        Inl e \<Rightarrow> Inl e
      | Inr ls \<Rightarrow>
          (let b = nat (seg_bank_id seg) in
           if \<not> range_available (fm ! b) ls (seg_size_bytes seg)
           then Inl (MemoryInvariantError ''exact extent is not wholly available'')
           else reserve_exact a (fm[b := consume (fm ! b) ls (seg_size_bytes seg)]) segs))"

definition segs_size :: "bank_segment list \<Rightarrow> int" where
  "segs_size segs = sum_list (map seg_size_bytes segs)"

definition commit_exact :: "int \<Rightarrow> bank_segment list \<Rightarrow> int \<Rightarrow> allocator \<Rightarrow> (allocator, unit) outcome" where
  "commit_exact expected segs cycle a =
     (if expected \<noteq> al_pool_version a then raise (MemoryInvariantError ''stale exact extent plan'') a
      else case validate_exact_bundle a segs of
             Inl e \<Rightarrow> raise e a
           | Inr _ \<Rightarrow>
               (case reserve_exact a (al_free a) segs of
                  Inl e \<Rightarrow> raise e a
                | Inr fm \<Rightarrow>
                    ret () (a\<lparr>al_free := fm,
                              al_exact_live := al_exact_live a \<union> set segs,
                              al_pool_version := al_pool_version a + 1,
                              al_peak_allocated := max (al_peak_allocated a) (al_allocated_bytes a + segs_size segs),
                              al_allocated_bytes := al_allocated_bytes a + segs_size segs\<rparr>)))"

fun return_exact :: "allocator \<Rightarrow> extents list \<Rightarrow> bank_segment list \<Rightarrow> py_error + extents list" where
  "return_exact a fm [] = Inr fm"
| "return_exact a fm (seg # segs) =
     (case segment_local_start a seg of
        Inl e \<Rightarrow> Inl e
      | Inr ls \<Rightarrow>
          (let b = nat (seg_bank_id seg) in
           if range_overlaps (fm ! b) ls (seg_size_bytes seg)
           then Inl (MemoryInvariantError ''exact extent overlaps the live free map'')
           else case coalesce_extents (fm ! b @ [(ls, seg_size_bytes seg)]) of
                  Inl e \<Rightarrow> Inl e
                | Inr merged \<Rightarrow> return_exact a (fm[b := merged]) segs))"

definition release_exact :: "int \<Rightarrow> bank_segment list \<Rightarrow> int \<Rightarrow> allocator \<Rightarrow> (allocator, unit) outcome" where
  "release_exact expected segs cycle a =
     (if expected \<noteq> al_pool_version a then raise (MemoryInvariantError ''stale exact extent release'') a
      else case validate_exact_bundle a segs of
             Inl e \<Rightarrow> raise e a
           | Inr _ \<Rightarrow>
               if list_ex (\<lambda>seg. seg \<notin> al_exact_live a) segs
               then raise (MemoryInvariantError ''unknown or already released exact extent'') a
               else (case return_exact a (al_free a) segs of
                  Inl e \<Rightarrow> raise e a
                | Inr fm \<Rightarrow>
                    if segs_size segs > al_allocated_bytes a
                    then raise (MemoryInvariantError ''exact extent accounting underflow'') a
                    else ret () (a\<lparr>al_free := fm,
                                   al_exact_live := al_exact_live a - set segs,
                                   al_pool_version := al_pool_version a + 1,
                                   al_allocated_bytes := al_allocated_bytes a - segs_size segs\<rparr>)))"

definition reconfigure_free_intervals :: "int \<Rightarrow> int \<Rightarrow> int \<Rightarrow> allocator \<Rightarrow> (allocator, unit) outcome" where
  "reconfigure_free_intervals start stop cycle a =
     (if start < 0 \<or> stop < start \<or> stop > al_bytes_per_bank a
      then raise (MemoryInvariantError ''invalid exact free interval'') a
      else if list_ex (\<lambda>r. rc_state r \<noteq> RELEASED) (dict_values (al_live a))
      then raise (MemoryInvariantError ''cannot reconfigure allocator with live allocations'') a
      else if al_exact_live a \<noteq> {}
      then raise (MemoryInvariantError ''cannot reconfigure allocator with exact reservations'') a
      else if al_allocated_bytes a \<noteq> 0
      then raise (MemoryInvariantError ''cannot reconfigure allocator with allocated bytes'') a
      else ret () (a\<lparr>al_free := replicate (nat (al_banks a)) (if stop > start then [(start, stop - start)] else []),
                     al_live := [],
                     al_pool_version := al_pool_version a + 1,
                     al_generation := al_generation a + 1,
                     al_counter := 0\<rparr>))"

section \<open>Live checks, pins and release\<close>

definition assert_live :: "allocation_handle \<Rightarrow> memory_owner option \<Rightarrow> allocator \<Rightarrow> py_error + unit" where
  "assert_live h owner a =
     (case dict_get (al_live a) (hd_allocation_id h) of
        None \<Rightarrow> Inl (MemoryInvariantError ''stale allocation generation'')
      | Some rec \<Rightarrow>
          if hd_generation (rc_handle rec) \<noteq> hd_generation h
          then Inl (MemoryInvariantError ''stale allocation generation'')
          else if rc_handle rec \<noteq> h then Inl (MemoryInvariantError ''stale allocation generation'')
          else if rc_state rec = RELEASED then Inl (MemoryInvariantError ''use-after-release'')
          else if owner \<noteq> None \<and> Some (hd_owner (rc_handle rec)) \<noteq> owner
          then Inl (MemoryInvariantError ''wrong-owner release'')
          else Inr ())"

definition set_record :: "allocation_id \<Rightarrow> allocation_record \<Rightarrow> allocator \<Rightarrow> allocator" where
  "set_record i rec a = a\<lparr>al_live := dict_set i rec (al_live a)\<rparr>"

definition pin :: "allocation_handle \<Rightarrow> string \<Rightarrow> allocator \<Rightarrow> (allocator, unit) outcome" where
  "pin h consumer a =
     (case dict_get (al_live a) (hd_allocation_id h) of
        None \<Rightarrow> raise (MemoryInvariantError ''stale allocation generation'') a
      | Some rec \<Rightarrow>
          if hd_generation (rc_handle rec) \<noteq> hd_generation h
          then raise (MemoryInvariantError ''stale allocation generation'') a
          else if rc_state rec = RELEASED then raise (MemoryInvariantError ''use-after-release'') a
          else if consumer \<in> rc_pins rec then raise (MemoryInvariantError ''duplicate allocation pin'') a
          else ret () (set_record (hd_allocation_id h)
                         (rec\<lparr>rc_pins := insert consumer (rc_pins rec)\<rparr>) a))"

fun append_segments :: "allocator \<Rightarrow> bank_segment list \<Rightarrow> extents list \<Rightarrow> (extents list, unit) outcome" where
  "append_segments a [] fm = ret () fm"
| "append_segments a (seg # segs) fm =
     (case py_index (length fm) (seg_bank_id seg) of
        None \<Rightarrow> raise IndexError fm
      | Some i \<Rightarrow> append_segments a segs (fm[i := sort (fm ! i @ [(local_start a seg, seg_size_bytes seg)])]))"

fun merge_banks :: "bank_segment list \<Rightarrow> extents list \<Rightarrow> (extents list, unit) outcome" where
  "merge_banks [] fm = ret () fm"
| "merge_banks (seg # segs) fm =
     (case py_index (length fm) (seg_bank_id seg) of
        None \<Rightarrow> raise IndexError fm
      | Some i \<Rightarrow>
          (case coalesce_extents (fm ! i) of
             Inl e \<Rightarrow> raise e fm
           | Inr merged \<Rightarrow> merge_banks segs (fm[i := merged])))"

definition do_release :: "allocation_id \<Rightarrow> allocation_record \<Rightarrow> int \<Rightarrow> allocator \<Rightarrow> (allocator, unit) outcome" where
  "do_release i rec cycle a =
     (case and_then (append_segments a (hd_bank_segments (rc_handle rec)) (al_free a))
             (\<lambda>_ fm. merge_banks (hd_bank_segments (rc_handle rec)) fm) of
        (Inl e, fm) \<Rightarrow> raise e (a\<lparr>al_free := fm\<rparr>)
      | (Inr _, fm) \<Rightarrow>
          ret () (a\<lparr>al_free := fm,
                    al_live := dict_set i (rec\<lparr>rc_state := RELEASED, rc_release_cycle := cycle\<rparr>) (al_live a),
                    al_pool_version := al_pool_version a + 1,
                    al_allocated_bytes := al_allocated_bytes a - hd_size_bytes (rc_handle rec)\<rparr>))"

definition unpin :: "allocation_handle \<Rightarrow> string \<Rightarrow> int \<Rightarrow> allocator \<Rightarrow> (allocator, bool) outcome" where
  "unpin h consumer cycle a =
     (case dict_get (al_live a) (hd_allocation_id h) of
        None \<Rightarrow> raise (MemoryInvariantError ''stale allocation generation'') a
      | Some rec \<Rightarrow>
          if hd_generation (rc_handle rec) \<noteq> hd_generation h
          then raise (MemoryInvariantError ''stale allocation generation'') a
          else if consumer \<notin> rc_pins rec then raise (MemoryInvariantError ''unknown allocation pin'') a
          else let rec = rec\<lparr>rc_pins := rc_pins rec - {consumer}\<rparr>;
                   a = set_record (hd_allocation_id h) rec a
               in if rc_state rec = RELEASE_PENDING \<and> rc_pins rec = {}
                  then and_then (do_release (hd_allocation_id h) rec cycle a) (\<lambda>_ a'. ret True a')
                  else ret False a)"

definition request_release ::
  "allocation_handle \<Rightarrow> memory_owner \<Rightarrow> int \<Rightarrow> allocator \<Rightarrow> (allocator, bool) outcome" where
  "request_release h owner cycle a =
     (case dict_get (al_live a) (hd_allocation_id h) of
        None \<Rightarrow> raise (MemoryInvariantError ''stale allocation generation'') a
      | Some rec \<Rightarrow>
          if hd_generation (rc_handle rec) \<noteq> hd_generation h
          then raise (MemoryInvariantError ''stale allocation generation'') a
          else if rc_state rec = RELEASED then raise (MemoryInvariantError ''double release'') a
          else if hd_owner (rc_handle rec) \<noteq> owner
          then raise (MemoryInvariantError ''wrong-owner release'') a
          else if rc_pins rec \<noteq> {}
          then ret False (set_record (hd_allocation_id h)
                            (rec\<lparr>rc_state := RELEASE_PENDING, rc_release_cycle := cycle\<rparr>) a)
          else and_then (do_release (hd_allocation_id h) rec cycle a) (\<lambda>_ a'. ret True a'))"

section \<open>Segment resolution, queries and reset\<close>

fun clip_segments :: "bank_segment list \<Rightarrow> int \<Rightarrow> int \<Rightarrow> int \<Rightarrow> bank_segment list" where
  "clip_segments [] cursor off sz = []"
| "clip_segments (seg # segs) cursor off sz =
     (let seg_end = cursor + seg_size_bytes seg in
      if seg_end \<le> off \<or> cursor \<ge> off + sz then clip_segments segs seg_end off sz
      else let clip_start = max 0 (off - cursor);
               clip_end = min (seg_size_bytes seg) (off + sz - cursor);
               tk = clip_end - clip_start
           in (if tk > 0 then [\<lparr>seg_bank_id = seg_bank_id seg, seg_address = seg_address seg + clip_start,
                                seg_size_bytes = tk\<rparr>] else [])
              @ clip_segments segs seg_end off sz)"

definition resolve_segments :: "allocation_handle \<Rightarrow> int \<Rightarrow> int \<Rightarrow> allocator \<Rightarrow> py_error + bank_segment list" where
  "resolve_segments h off sz a =
     (if off < 0 then Inl (MemoryInvariantError ''memory view out of bounds'')
      else if off + sz > hd_size_bytes h then Inl (MemoryInvariantError ''memory view out of bounds'')
      else case dict_get (al_live a) (hd_allocation_id h) of
             None \<Rightarrow> Inl (MemoryInvariantError ''stale allocation generation'')
           | Some rec \<Rightarrow>
               if hd_generation (rc_handle rec) \<noteq> hd_generation h
               then Inl (MemoryInvariantError ''stale allocation generation'')
               else if rc_state rec = RELEASED then Inl (MemoryInvariantError ''use-after-release'')
               else Inr (clip_segments (hd_bank_segments h) 0 off sz))"

definition is_released :: "allocation_handle \<Rightarrow> allocator \<Rightarrow> bool" where
  "is_released h a =
     (case dict_get (al_live a) (hd_allocation_id h) of
        None \<Rightarrow> True | Some rec \<Rightarrow> rc_state rec = RELEASED)"

definition allocator_reset :: "allocator \<Rightarrow> allocator" where
  "allocator_reset a =
     a\<lparr>al_free := replicate (nat (al_banks a)) [(0, al_bytes_per_bank a)],
       al_live := [], al_exact_live := {}, al_pool_version := 0,
       al_generation := al_generation a + 1, al_counter := 0,
       al_peak_allocated := 0, al_allocated_bytes := 0\<rparr>"

record bank_snapshot =
  bs_bank_id :: int
  bs_free_bytes :: int
  bs_allocated_bytes :: int
  bs_largest_free_extent :: int

definition bank_snapshots :: "allocator \<Rightarrow> bank_snapshot list" where
  "bank_snapshots a =
     map (\<lambda>b. \<lparr>bs_bank_id = int b, bs_free_bytes = ext_total (al_free a ! b),
               bs_allocated_bytes = al_bytes_per_bank a - ext_total (al_free a ! b),
               bs_largest_free_extent = fold max (map snd (al_free a ! b)) 0\<rparr>)
       [0..<nat (al_banks a)]"

definition snapshot_free_bytes :: "allocator \<Rightarrow> int" where
  "snapshot_free_bytes a = sum_list (map bs_free_bytes (bank_snapshots a))"

definition snapshot_live_allocations :: "allocator \<Rightarrow> int" where
  "snapshot_live_allocations a = dict_sum (\<lambda>r. of_bool (rc_state r \<noteq> RELEASED)) (al_live a)"

end
