(* ===== verification/Allocator_Cover.thy ===== *)
theory Allocator_Cover
  imports Allocator
begin

text \<open>
  How the allocator's loops move bytes: first-fit planning takes exactly the segments it
  returns out of the cloned free map, committing a plan leaves exactly the map that
  planning computed, and appending, sorting and merging gives released segments back.
  All statements are equations on the cover of a bank.
\<close>

section \<open>Cover of segments\<close>

definition lstart :: "int \<Rightarrow> bank_segment \<Rightarrow> int" where
  "lstart B seg = seg_address seg - seg_bank_id seg * B"

definition seg_cov :: "int \<Rightarrow> int \<Rightarrow> int \<Rightarrow> bank_segment \<Rightarrow> int" where
  "seg_cov B b x seg = (if seg_bank_id seg = b then ind (lstart B seg) (seg_size_bytes seg) x else 0)"

definition segs_cov :: "int \<Rightarrow> int \<Rightarrow> int \<Rightarrow> bank_segment list \<Rightarrow> int" where
  "segs_cov B b x segs = sum_list (map (seg_cov B b x) segs)"

definition seg_ok :: "int \<Rightarrow> int \<Rightarrow> bank_segment \<Rightarrow> bool" where
  "seg_ok n B seg \<longleftrightarrow> 0 \<le> seg_bank_id seg \<and> seg_bank_id seg < n \<and> 0 < seg_size_bytes seg
     \<and> 0 \<le> lstart B seg \<and> lstart B seg + seg_size_bytes seg \<le> B"

lemma local_start_lstart [simp]: "local_start a seg = lstart (al_bytes_per_bank a) seg"
  by (simp add: local_start_def lstart_def)

lemma seg_cov_nonneg [simp]: "0 \<le> seg_cov B b x seg"
  by (simp add: seg_cov_def)

lemma segs_cov_simps [simp]:
  "segs_cov B b x [] = 0"
  "segs_cov B b x (seg # segs) = seg_cov B b x seg + segs_cov B b x segs"
  "segs_cov B b x (segs @ segs') = segs_cov B b x segs + segs_cov B b x segs'"
  by (simp_all add: segs_cov_def)

lemma segs_cov_nonneg [simp]: "0 \<le> segs_cov B b x segs"
  by (induction segs) auto

lemma segs_size_simps [simp]:
  "segs_size [] = 0"
  "segs_size (seg # segs) = seg_size_bytes seg + segs_size segs"
  "segs_size (segs @ segs') = segs_size segs + segs_size segs'"
  by (simp_all add: segs_size_def)

lemma segs_cov_other: "\<forall>seg \<in> set segs. seg_bank_id seg \<noteq> b \<Longrightarrow> segs_cov B b x segs = 0"
  by (induction segs) (auto simp: seg_cov_def)

lemma segs_cov_member: "seg \<in> set segs \<Longrightarrow> seg_cov B b x seg \<le> segs_cov B b x segs"
  by (induction segs) (auto simp: add_increasing add_increasing2)

lemma py_index_bank [simp]:
  "0 \<le> i \<Longrightarrow> i < int n \<Longrightarrow> py_index n i = Some (nat i)"
  by (simp add: py_index_def)

lemma segment_local_start_ok:
  "segment_local_start a seg = Inr ls \<longleftrightarrow>
     seg_ok (al_banks a) (al_bytes_per_bank a) seg \<and> ls = lstart (al_bytes_per_bank a) seg"
  by (auto simp: segment_local_start_def seg_ok_def)

section \<open>Planning\<close>

lemma align_up_ge:
  assumes "0 < (al::int)"
  shows "s \<le> (s + al - 1) div al * al"
proof -
  have "(s + al - 1) div al * al = (s + al - 1) - (s + al - 1) mod al"
    by (simp add: minus_mod_eq_div_mult [symmetric])
  moreover have "(s + al - 1) mod al \<le> al - 1" using pos_mod_bound [OF assms, of "s + al - 1"] by linarith
  ultimately show ?thesis by linarith
qed

definition plan_frame :: "int \<Rightarrow> int \<Rightarrow> extents \<Rightarrow> extents \<Rightarrow> bank_segment list \<Rightarrow> bool" where
  "plan_frame B bank es es' segs \<longleftrightarrow>
     (\<forall>x. ext_cov es' x + segs_cov B bank x segs = ext_cov es x) \<and>
     (\<forall>q \<in> set es'. \<exists>p \<in> set es. fst p \<le> fst q \<and> fst q + snd q \<le> fst p + snd p) \<and>
     (\<forall>seg \<in> set segs. seg_bank_id seg = bank \<and> 0 < seg_size_bytes seg) \<and>
     (canonical es \<longrightarrow> canonical es')"

lemma plan_frame_skip:
  assumes "plan_frame B bank es es' segs"
  shows "plan_frame B bank (p # es) (p # es') segs"
proof -
  have "canonical (p # es')" if "canonical (p # es)"
    using assms that unfolding plan_frame_def canonical_Cons by (meson order_less_le_trans)
  with assms show ?thesis by (auto simp: plan_frame_def)
qed

lemma plan_frame_Nil [simp]: "plan_frame B bank es es []"
  by (auto simp: plan_frame_def)

text \<open>Taking \<open>[al, al + tk)\<close> out of one extent leaves a leading gap and a leftover.\<close>

definition remainder :: "int \<Rightarrow> int \<Rightarrow> int \<Rightarrow> int \<Rightarrow> extents" where
  "remainder start sz al tk =
     (if al > start then [(start, al - start)] else [])
     @ (if start + sz - (al + tk) > 0 then [(al + tk, start + sz - (al + tk))] else [])"

lemma remainder_cov:
  "start \<le> al \<Longrightarrow> 0 < tk \<Longrightarrow> al + tk \<le> start + sz \<Longrightarrow>
   ext_cov (remainder start sz al tk) x + ind al tk x = ind start sz x"
  by (auto simp: remainder_def ind_def of_bool_def)

lemma remainder_bounds:
  "start \<le> al \<Longrightarrow> 0 < tk \<Longrightarrow> al + tk \<le> start + sz \<Longrightarrow> q \<in> set (remainder start sz al tk) \<Longrightarrow>
   start \<le> fst q \<and> fst q + snd q \<le> start + sz"
  by (auto simp: remainder_def split: if_splits)

lemma remainder_canonical:
  assumes "start \<le> al" "0 < tk" "al + tk \<le> start + sz" "canonical es" "\<forall>q \<in> set es. start + sz < fst q"
  shows "canonical (remainder start sz al tk @ es)"
  using assms by (fastforce simp: remainder_def canonical_Cons)

lemma plan_frame_take:
  assumes fr: "plan_frame B bank es es' segs" and b: "start \<le> al" "0 < tk" "al + tk \<le> start + sz"
  shows "plan_frame B bank ((start, sz) # es) (remainder start sz al tk @ es')
     (\<lparr>seg_bank_id = bank, seg_address = bank * B + al, seg_size_bytes = tk\<rparr> # segs)"
proof -
  have 1: "ext_cov (remainder start sz al tk @ es') x + (ind al tk x + segs_cov B bank x segs)
      = ind start sz x + ext_cov es x" for x
  proof -
    have "ext_cov es' x + segs_cov B bank x segs = ext_cov es x" using fr by (simp add: plan_frame_def)
    with remainder_cov [OF b, of x] show ?thesis by simp
  qed
  have 2: "\<exists>p \<in> set ((start, sz) # es). fst p \<le> fst q \<and> fst q + snd q \<le> fst p + snd p"
    if "q \<in> set (remainder start sz al tk @ es')" for q
    using that fr remainder_bounds [OF b, of q] unfolding plan_frame_def by auto
  have 3: "canonical (remainder start sz al tk @ es')" if can: "canonical ((start, sz) # es)"
  proof (rule remainder_canonical [OF b])
    show "canonical es'" using fr can by (simp add: plan_frame_def canonical_Cons)
    have "\<forall>p \<in> set es. start + sz < fst p" using can by (simp add: canonical_Cons)
    with fr show "\<forall>q \<in> set es'. start + sz < fst q"
      unfolding plan_frame_def by (meson order_less_le_trans)
  qed
  show ?thesis
    unfolding plan_frame_def
  proof (intro conjI allI ballI impI)
    fix x show "ext_cov (remainder start sz al tk @ es') x
        + segs_cov B bank x (\<lparr>seg_bank_id = bank, seg_address = bank * B + al, seg_size_bytes = tk\<rparr> # segs)
        = ext_cov ((start, sz) # es) x"
      using 1 [of x] by (simp add: seg_cov_def lstart_def)
  qed (use 2 3 fr b in \<open>auto simp: plan_frame_def\<close>)
qed

lemma plan_extents_spec:
  assumes "0 < al" "0 \<le> remaining" "plan_extents bank (bank * B) al es remaining segs = (es', r, sg)"
  shows "\<exists>new. sg = segs @ new \<and> plan_frame B bank es es' new \<and> 0 \<le> r \<and> r + segs_size new = remaining
    \<and> (segs = [] \<and> new \<noteq> [] \<longrightarrow> al dvd lstart B (hd new))"
  using assms
proof (induction bank "bank * B" al es remaining segs arbitrary: es' r sg rule: plan_extents.induct)
  case (1 bank al remaining segs)
  then show ?case by auto
next
  case (2 bank al start sz es remaining segs)
  define need where "need = (if segs = [] then al else 1)"
  define astart where "astart = (start + need - 1) div need * need"
  have astart: "start \<le> astart"
    unfolding astart_def by (rule align_up_ge) (use 2(4) in \<open>simp add: need_def\<close>)
  consider (finished) "remaining \<le> 0" | (skip) "0 < remaining" "astart \<ge> start + sz"
    | (tk) "0 < remaining" "astart < start + sz" by linarith
  then show ?case
  proof cases
    case finished
    then obtain es'' where "plan_extents bank (bank * B) al es remaining segs = (es'', r, sg)"
      "es' = (start, sz) # es''" using 2(6) by (auto split: prod.splits)
    with 2(1) [OF finished 2(4,5)] show ?thesis by (auto intro: plan_frame_skip)
  next
    case skip
    then obtain es'' where "plan_extents bank (bank * B) al es remaining segs = (es'', r, sg)"
      "es' = (start, sz) # es''" using 2(6)
      by (auto simp: Let_def need_def astart_def split: prod.splits if_splits)
    with 2(2) [OF _ need_def astart_def _ 2(4,5)] skip show ?thesis by (auto intro: plan_frame_skip)
  next
    case tk
    define t where "t = min remaining (start + sz - astart)"
    define seg where "seg = \<lparr>seg_bank_id = bank, seg_address = bank * B + astart, seg_size_bytes = t\<rparr>"
    have t: "0 < t" "astart + t \<le> start + sz" "t \<le> remaining" using tk by (auto simp: t_def)
    obtain es'' where rec: "plan_extents bank (bank * B) al es (remaining - t) (segs @ [seg]) = (es'', r, sg)"
      and es': "es' = remainder start sz astart t @ es''"
      using 2(6) tk by (auto simp: Let_def need_def [symmetric] astart_def [symmetric] t_def [symmetric]
          seg_def [symmetric] remainder_def split: prod.splits)
    from 2(3) [OF _ need_def astart_def _ t_def seg_def refl refl 2(4) _ rec] tk t
    obtain new where new: "sg = (segs @ [seg]) @ new" "plan_frame B bank es es'' new" "0 \<le> r"
      "r + segs_size new = remaining - t" by auto
    have "plan_frame B bank ((start, sz) # es) es' (seg # new)"
      unfolding es' seg_def by (rule plan_frame_take [OF new(2) astart t(1,2)])
    moreover have "segs = [] \<longrightarrow> al dvd lstart B seg"
      by (simp add: seg_def lstart_def astart_def need_def)
    ultimately show ?thesis using new by (intro exI [of _ "seg # new"]) (simp add: seg_def)
  qed
qed


text \<open>The outer loop: a whole free map, starting at some bank index.\<close>

definition map_frame :: "int \<Rightarrow> int \<Rightarrow> extents list \<Rightarrow> extents list \<Rightarrow> bank_segment list \<Rightarrow> bool" where
  "map_frame B bank fm fm' segs \<longleftrightarrow>
     length fm' = length fm \<and>
     (\<forall>i < length fm. \<forall>x. ext_cov (fm' ! i) x + segs_cov B (bank + int i) x segs = ext_cov (fm ! i) x) \<and>
     ((\<forall>es \<in> set fm. canonical es) \<longrightarrow> (\<forall>es \<in> set fm'. canonical es)) \<and>
     (\<forall>seg \<in> set segs. bank \<le> seg_bank_id seg \<and> seg_bank_id seg < bank + int (length fm) \<and> 0 < seg_size_bytes seg)"

lemma map_frame_Nil [simp]: "map_frame B bank fm fm []"
  by (simp add: map_frame_def)

lemma map_frame_Cons:
  assumes "plan_frame B bank es es' s1" "map_frame B (bank + 1) fm fm' s2"
  shows "map_frame B bank (es # fm) (es' # fm') (s1 @ s2)"
proof -
  have low: "segs_cov B bank x s2 = 0" for x
    using assms(2) by (intro segs_cov_other) (auto simp: map_frame_def)
  have high: "segs_cov B (bank + 1 + int i) x s1 = 0" for x i
    using assms(1) by (intro segs_cov_other) (auto simp: plan_frame_def)
  have "ext_cov ((es' # fm') ! i) x + segs_cov B (bank + int i) x (s1 @ s2) = ext_cov ((es # fm) ! i) x"
    if "i < length (es # fm)" for i x
    using that assms low [of x] high [of "i - 1" x]
    by (cases i) (auto simp: plan_frame_def map_frame_def add.assoc)
  moreover have "\<forall>seg \<in> set (s1 @ s2). bank \<le> seg_bank_id seg
      \<and> seg_bank_id seg < bank + int (length (es # fm)) \<and> 0 < seg_size_bytes seg"
    using assms by (fastforce simp: plan_frame_def map_frame_def)
  ultimately show ?thesis
    using assms unfolding map_frame_def by (auto simp: plan_frame_def)
qed

lemma plan_banks_spec:
  assumes "0 < al" "0 \<le> remaining" "plan_banks bank B al fm remaining segs = (fm', r, sg)"
  shows "\<exists>new. sg = segs @ new \<and> map_frame B bank fm fm' new \<and> 0 \<le> r \<and> r + segs_size new = remaining
    \<and> (segs = [] \<and> new \<noteq> [] \<longrightarrow> al dvd lstart B (hd new))"
  using assms
proof (induction fm arbitrary: bank remaining segs fm' r sg)
  case Nil
  then show ?case by auto
next
  case (Cons es fm)
  show ?case
  proof (cases "remaining \<le> 0")
    case True
    with Cons.prems show ?thesis by auto
  next
    case False
    then obtain es1 r1 sg1 fm1 where
      1: "plan_extents bank (bank * B) al es remaining segs = (es1, r1, sg1)" and
      2: "plan_banks (bank + 1) B al fm r1 sg1 = (fm1, r, sg)" and fm': "fm' = es1 # fm1"
      using Cons.prems(3) by (auto split: prod.splits)
    from plan_extents_spec [OF Cons.prems(1,2) 1] obtain n1 where n1: "sg1 = segs @ n1"
      "plan_frame B bank es es1 n1" "0 \<le> r1" "r1 + segs_size n1 = remaining"
      "segs = [] \<and> n1 \<noteq> [] \<longrightarrow> al dvd lstart B (hd n1)" by blast
    from Cons.IH [OF Cons.prems(1) n1(3) 2] obtain n2 where n2: "sg = sg1 @ n2"
      "map_frame B (bank + 1) fm fm1 n2" "0 \<le> r" "r + segs_size n2 = r1"
      "sg1 = [] \<and> n2 \<noteq> [] \<longrightarrow> al dvd lstart B (hd n2)" by blast
    show ?thesis
      using n1 n2 map_frame_Cons [OF n1(2) n2(2)]
      by (intro exI [of _ "n1 @ n2"]) (cases n1; simp add: fm')
  qed
qed

definition req_ok :: "allocation_request \<Rightarrow> bool" where
  "req_ok req \<longleftrightarrow> 0 < rq_size_bytes req \<and> 0 < rq_alignment req
     \<and> rq_alignment req AND (rq_alignment req - 1) = 0"

lemma validate_requests_None: "validate_requests reqs = None \<longleftrightarrow> (\<forall>req \<in> set reqs. req_ok req)"
  by (induction reqs) (auto simp: req_ok_def)

lemma plan_one_spec:
  assumes "req_ok req" "plan_one a fm req = (Some segs, fm')"
  shows "map_frame (al_bytes_per_bank a) 0 fm fm' segs" "segs_size segs = rq_size_bytes req" "segs \<noteq> []"
    "rq_alignment req dvd lstart (al_bytes_per_bank a) (hd segs)"
proof -
  obtain r where r: "plan_banks 0 (al_bytes_per_bank a) (rq_alignment req) fm (rq_size_bytes req) [] = (fm', r, segs)"
    "r \<le> 0" using assms(2) by (auto simp: plan_one_def split: prod.splits if_splits)
  from plan_banks_spec [OF _ _ r(1)] assms(1) r(2)
  have *: "map_frame (al_bytes_per_bank a) 0 fm fm' segs" "segs_size segs = rq_size_bytes req"
    "segs \<noteq> [] \<longrightarrow> rq_alignment req dvd lstart (al_bytes_per_bank a) (hd segs)"
    by (auto simp: req_ok_def)
  moreover from *(2) assms(1) have "segs \<noteq> []" by (auto simp: req_ok_def)
  ultimately show "map_frame (al_bytes_per_bank a) 0 fm fm' segs" "segs_size segs = rq_size_bytes req"
    "segs \<noteq> []" "rq_alignment req dvd lstart (al_bytes_per_bank a) (hd segs)" by auto
qed

section \<open>Committing a plan\<close>

definition fm_ok :: "extents list \<Rightarrow> bool" where
  "fm_ok fm \<longleftrightarrow> (\<forall>es \<in> set fm. canonical es)"

lemma fm_ok_nth: "fm_ok fm \<Longrightarrow> i < length fm \<Longrightarrow> canonical (fm ! i)"
  by (simp add: fm_ok_def)

lemma fm_ok_update: "fm_ok fm \<Longrightarrow> canonical es \<Longrightarrow> fm_ok (fm[i := es])"
  by (auto simp: fm_ok_def dest: set_update_subset_insert [THEN subsetD])

lemma fm_unique:
  assumes "fm_ok fm" "fm_ok fm'" "length fm = length fm'"
    "\<forall>i < length fm. \<forall>x. ext_cov (fm ! i) x = ext_cov (fm' ! i) x"
  shows "fm = fm'"
proof (rule nth_equalityI [OF assms(3)])
  fix i assume "i < length fm"
  with assms show "fm ! i = fm' ! i" by (intro canonical_unique fm_ok_nth) simp_all
qed

text \<open>
  Removing segments whose bytes are all free, each as often as the segments cover it:
  afterwards every byte's cover has dropped by the segments' cover.
\<close>

lemma consume_segments_ok:
  assumes "fm_ok fm" "\<forall>seg \<in> set segs. 0 \<le> seg_bank_id seg \<and> seg_bank_id seg < int (length fm) \<and> 0 < seg_size_bytes seg"
    "\<forall>i < length fm. \<forall>x. segs_cov (al_bytes_per_bank a) (int i) x segs \<le> ext_cov (fm ! i) x"
  shows "\<exists>fm'. consume_segments a fm segs = Inr fm' \<and> length fm' = length fm \<and> fm_ok fm' \<and>
     (\<forall>i < length fm. \<forall>x. ext_cov (fm' ! i) x = ext_cov (fm ! i) x - segs_cov (al_bytes_per_bank a) (int i) x segs)"
  using assms
proof (induction segs arbitrary: fm)
  case (Cons seg segs)
  let ?B = "al_bytes_per_bank a" and ?n = "seg_size_bytes seg"
  define j where "j = nat (seg_bank_id seg)"
  have j: "j < length fm" "seg_bank_id seg = int j" "0 < ?n" using Cons.prems(2) by (auto simp: j_def)
  define fm1 where "fm1 = fm[j := consume (fm ! j) (lstart ?B seg) ?n]"
  have fm1: "fm_ok fm1" "length fm1 = length fm"
    using Cons.prems(1) j by (simp_all add: fm1_def fm_ok_update consume_canonical fm_ok_nth)
  have cov1: "ext_cov (fm1 ! i) x = ext_cov (fm ! i) x - seg_cov ?B (int i) x seg" if i: "i < length fm" for i x
  proof (cases "i = j")
    case True
    have "seg_cov ?B (int j) x seg + segs_cov ?B (int j) x segs \<le> ext_cov (fm ! j) x"
      using Cons.prems(3) j(1) by simp
    moreover have "ext_cov (fm ! j) x \<le> 1"
      by (rule canonical_cov_le_1) (rule fm_ok_nth [OF Cons.prems(1) j(1)])
    ultimately have "ind (lstart ?B seg) ?n x = 1 \<Longrightarrow> ext_cov (fm ! j) x = 1"
      using segs_cov_nonneg [of ?B "int j" x segs] j(2) by (simp add: seg_cov_def del: segs_cov_nonneg)
    then show ?thesis
      using True j by (auto simp: fm1_def consume_cov seg_cov_def ind_def)
  qed (use j in \<open>auto simp: fm1_def seg_cov_def\<close>)
  have "\<forall>i < length fm1. \<forall>x. segs_cov ?B (int i) x segs \<le> ext_cov (fm1 ! i) x"
    using Cons.prems(3) fm1(2) by (auto simp: cov1 algebra_simps)
  from Cons.IH [OF fm1(1) _ this] Cons.prems(2) fm1(2) obtain fm' where
    "consume_segments a fm1 segs = Inr fm'" "length fm' = length fm" "fm_ok fm'"
    "\<forall>i < length fm. \<forall>x. ext_cov (fm' ! i) x = ext_cov (fm1 ! i) x - segs_cov ?B (int i) x segs" by auto
  then show ?case using j cov1 by (simp add: fm1_def)
qed simp

lemma plan_requests_other:
  "plan_requests a fm reqs pl = Inr pl' \<Longrightarrow> k \<notin> rq_buffer_id ` set reqs \<Longrightarrow> dict_get pl' k = dict_get pl k"
  by (induction reqs arbitrary: fm pl) (auto simp: dict_simps split: prod.splits option.splits)

text \<open>Committing leaves exactly the free map that planning computed on its clone.\<close>

lemma consume_plan_one:
  assumes "req_ok req" "fm_ok fm" "plan_one a fm req = (Some segs, fm')"
  shows "consume_segments a fm segs = Inr fm'"
proof -
  let ?B = "al_bytes_per_bank a"
  have fr: "map_frame ?B 0 fm fm' segs" using plan_one_spec(1) [OF assms(1,3)] .
  then have fm': "fm_ok fm'" "length fm' = length fm"
    and cov: "\<And>i x. i < length fm \<Longrightarrow> ext_cov (fm' ! i) x + segs_cov ?B (int i) x segs = ext_cov (fm ! i) x"
    using assms(2) by (auto simp: map_frame_def fm_ok_def)
  have "\<forall>i < length fm. \<forall>x. segs_cov ?B (int i) x segs \<le> ext_cov (fm ! i) x"
    using cov by (metis ext_cov_nonneg le_add_same_cancel2)
  moreover have "\<forall>seg \<in> set segs. 0 \<le> seg_bank_id seg \<and> seg_bank_id seg < int (length fm) \<and> 0 < seg_size_bytes seg"
    using fr by (simp add: map_frame_def)
  ultimately obtain fm2 where fm2: "consume_segments a fm segs = Inr fm2" "length fm2 = length fm" "fm_ok fm2"
    "\<forall>i < length fm. \<forall>x. ext_cov (fm2 ! i) x = ext_cov (fm ! i) x - segs_cov ?B (int i) x segs"
    using consume_segments_ok [OF assms(2)] by blast
  have "fm2 = fm'"
  proof (rule fm_unique [OF fm2(3) fm'(1)])
    show "length fm2 = length fm'" using fm2(2) fm'(2) by simp
    show "\<forall>i < length fm2. \<forall>x. ext_cov (fm2 ! i) x = ext_cov (fm' ! i) x"
      using fm2(2,4) cov by (metis add_diff_cancel_right')
  qed
  with fm2(1) show ?thesis by simp
qed


definition pl_cov :: "int \<Rightarrow> int \<Rightarrow> int \<Rightarrow> (string, bank_segment list) dict \<Rightarrow> allocation_request list \<Rightarrow> int" where
  "pl_cov B b x pl reqs = sum_list (map (\<lambda>req. segs_cov B b x (the (dict_get pl (rq_buffer_id req)))) reqs)"

definition placed :: "int \<Rightarrow> int \<Rightarrow> (string, bank_segment list) dict \<Rightarrow> allocation_request \<Rightarrow> bool" where
  "placed n B pl req \<longleftrightarrow> (\<exists>segs. dict_get pl (rq_buffer_id req) = Some segs \<and> segs \<noteq> []
     \<and> segs_size segs = rq_size_bytes req
     \<and> (\<forall>seg \<in> set segs. 0 \<le> seg_bank_id seg \<and> seg_bank_id seg < n \<and> 0 < seg_size_bytes seg)
     \<and> rq_alignment req dvd lstart B (hd segs))"

lemma pl_cov_simps [simp]:
  "pl_cov B b x pl [] = 0"
  "pl_cov B b x pl (req # reqs) = segs_cov B b x (the (dict_get pl (rq_buffer_id req))) + pl_cov B b x pl reqs"
  by (simp_all add: pl_cov_def)

lemma pl_cov_nonneg [simp]: "0 \<le> pl_cov B b x pl reqs"
  by (induction reqs) auto

lemma plan_commit_frame:
  assumes "plan_requests a fm reqs pl0 = Inr pl" "fm_ok fm" "\<forall>req \<in> set reqs. req_ok req"
    "distinct (map rq_buffer_id reqs)"
  shows "\<exists>fm'. consume_placements a pl fm reqs = Inr fm' \<and> fm_ok fm' \<and> length fm' = length fm
     \<and> (\<forall>i < length fm. \<forall>x. ext_cov (fm' ! i) x + pl_cov (al_bytes_per_bank a) (int i) x pl reqs = ext_cov (fm ! i) x)
     \<and> (\<forall>req \<in> set reqs. placed (int (length fm)) (al_bytes_per_bank a) pl req)"
  using assms
proof (induction reqs arbitrary: fm pl0)
  case (Cons req reqs)
  let ?B = "al_bytes_per_bank a"
  obtain segs fm1 where one: "plan_one a fm req = (Some segs, fm1)"
    and rest: "plan_requests a fm1 reqs (dict_set (rq_buffer_id req) segs pl0) = Inr pl"
    using Cons.prems(1) by (auto split: prod.splits option.splits)
  have ok: "req_ok req" using Cons.prems(3) by simp
  note spec = plan_one_spec [OF ok one]
  have fm1: "fm_ok fm1" "length fm1 = length fm"
    using spec(1) Cons.prems(2) by (auto simp: map_frame_def fm_ok_def)
  have get: "dict_get pl (rq_buffer_id req) = Some segs"
    using plan_requests_other [OF rest, of "rq_buffer_id req"] Cons.prems(4) by (auto simp: dict_simps)
  from Cons.IH [OF rest fm1(1)] Cons.prems(3,4) fm1(2) obtain fm' where fm':
    "consume_placements a pl fm1 reqs = Inr fm'" "fm_ok fm'" "length fm' = length fm"
    "\<forall>i < length fm. \<forall>x. ext_cov (fm' ! i) x + pl_cov ?B (int i) x pl reqs = ext_cov (fm1 ! i) x"
    "\<forall>req \<in> set reqs. placed (int (length fm)) ?B pl req" by auto
  have "placed (int (length fm)) ?B pl req"
    using spec get by (auto simp: placed_def map_frame_def)
  moreover have "ext_cov (fm' ! i) x + pl_cov ?B (int i) x pl (req # reqs) = ext_cov (fm ! i) x"
    if "i < length fm" for i x
  proof -
    have "ext_cov (fm1 ! i) x + segs_cov ?B (int i) x segs = ext_cov (fm ! i) x"
      using spec(1) that by (simp add: map_frame_def)
    moreover have "ext_cov (fm' ! i) x + pl_cov ?B (int i) x pl reqs = ext_cov (fm1 ! i) x"
      using fm'(4) that by simp
    ultimately show ?thesis by (simp add: get)
  qed
  ultimately show ?case
    using fm' get consume_plan_one [OF ok Cons.prems(2) one] by auto
qed simp

section \<open>Giving segments back\<close>

definition fm_pos :: "extents list \<Rightarrow> bool" where
  "fm_pos fm \<longleftrightarrow> (\<forall>es \<in> set fm. \<forall>p \<in> set es. 0 < snd p)"

lemma fm_ok_pos: "fm_ok fm \<Longrightarrow> fm_pos fm"
  by (auto simp: fm_ok_def fm_pos_def canonical_def)

lemma fm_pos_nth: "fm_pos fm \<Longrightarrow> i < length fm \<Longrightarrow> \<forall>p \<in> set (fm ! i). 0 < snd p"
  using nth_mem by (fastforce simp: fm_pos_def)

lemma fm_pos_update: "fm_pos fm \<Longrightarrow> \<forall>p \<in> set es. 0 < snd p \<Longrightarrow> fm_pos (fm[i := es])"
  by (auto simp: fm_pos_def dest!: set_update_subset_insert [THEN subsetD])

definition banks_in :: "nat \<Rightarrow> bank_segment list \<Rightarrow> bool" where
  "banks_in n segs \<longleftrightarrow> (\<forall>seg \<in> set segs. 0 \<le> seg_bank_id seg \<and> seg_bank_id seg < int n \<and> 0 < seg_size_bytes seg)"

lemma banks_in_Cons:
  "banks_in n (seg # segs) \<longleftrightarrow>
     (\<exists>j < n. seg_bank_id seg = int j) \<and> 0 < seg_size_bytes seg \<and> banks_in n segs"
  using zero_le_imp_eq_int [of "seg_bank_id seg"] by (auto simp: banks_in_def)

lemma append_segments_ok:
  assumes "banks_in (length fm) segs" "fm_pos fm"
  shows "\<exists>fm'. append_segments a segs fm = (Inr (), fm') \<and> length fm' = length fm \<and> fm_pos fm'
    \<and> (\<forall>i < length fm. \<forall>x. ext_cov (fm' ! i) x = ext_cov (fm ! i) x + segs_cov (al_bytes_per_bank a) (int i) x segs)
    \<and> (\<forall>i < length fm. int i \<notin> seg_bank_id ` set segs \<longrightarrow> fm' ! i = fm ! i)"
  using assms
proof (induction segs arbitrary: fm)
  case (Cons seg segs)
  from Cons.prems(1) obtain j where j: "j < length fm" "seg_bank_id seg = int j" "0 < seg_size_bytes seg"
    by (auto simp: banks_in_Cons)
  define fm1 where "fm1 = fm[j := sort (fm ! j @ [(lstart (al_bytes_per_bank a) seg, seg_size_bytes seg)])]"
  have fm1: "length fm1 = length fm" "fm_pos fm1"
    using Cons.prems(2) j fm_pos_nth [OF Cons.prems(2) j(1)] by (auto simp: fm1_def intro!: fm_pos_update)
  have cov: "ext_cov (fm1 ! i) x = ext_cov (fm ! i) x + seg_cov (al_bytes_per_bank a) (int i) x seg"
    if "i < length fm" for i x
    using that j by (cases "i = j") (auto simp: fm1_def seg_cov_def)
  from Cons.IH [OF _ fm1(2)] Cons.prems(1) fm1(1) obtain fm' where
    "append_segments a segs fm1 = (Inr (), fm')" "length fm' = length fm" "fm_pos fm'"
    "\<forall>i < length fm. \<forall>x. ext_cov (fm' ! i) x = ext_cov (fm1 ! i) x + segs_cov (al_bytes_per_bank a) (int i) x segs"
    "\<forall>i < length fm. int i \<notin> seg_bank_id ` set segs \<longrightarrow> fm' ! i = fm1 ! i"
    by (auto simp: banks_in_Cons)
  then show ?case using j cov by (auto simp: fm1_def)
qed simp

lemma merge_banks_ok:
  assumes "banks_in (length fm) segs" "fm_pos fm" "\<forall>i < length fm. \<forall>x. ext_cov (fm ! i) x \<le> 1"
    "\<forall>i < length fm. int i \<notin> seg_bank_id ` set segs \<longrightarrow> canonical (fm ! i)"
  shows "\<exists>fm'. merge_banks segs fm = (Inr (), fm') \<and> length fm' = length fm \<and> fm_ok fm'
    \<and> (\<forall>i < length fm. \<forall>x. ext_cov (fm' ! i) x = ext_cov (fm ! i) x)"
  using assms
proof (induction segs arbitrary: fm)
  case Nil
  then show ?case by (auto simp: fm_ok_def in_set_conv_nth)
next
  case (Cons seg segs)
  from Cons.prems(1) obtain j where j: "j < length fm" "seg_bank_id seg = int j"
    by (auto simp: banks_in_Cons)
  obtain ys where ys: "coalesce_extents (fm ! j) = Inr ys" "canonical ys"
    "\<forall>x. ext_cov ys x = ext_cov (fm ! j) x"
    using coalesce_ok [OF fm_pos_nth [OF Cons.prems(2) j(1)]] Cons.prems(3) j(1) by blast
  define fm1 where "fm1 = fm[j := ys]"
  have fm1: "length fm1 = length fm" "fm_pos fm1"
    using Cons.prems(2) ys(2) by (auto simp: fm1_def canonical_def intro!: fm_pos_update)
  have cov: "ext_cov (fm1 ! i) x = ext_cov (fm ! i) x" if "i < length fm" for i x
    using that ys(3) j by (cases "i = j") (auto simp: fm1_def)
  have can: "\<forall>i < length fm1. int i \<notin> seg_bank_id ` set segs \<longrightarrow> canonical (fm1 ! i)"
    using Cons.prems(4) j ys(2) by (auto simp: fm1_def nth_list_update)
  from Cons.IH [OF _ fm1(2) _ can] Cons.prems(1,3) fm1(1) cov obtain fm' where
    "merge_banks segs fm1 = (Inr (), fm')" "length fm' = length fm" "fm_ok fm'"
    "\<forall>i < length fm. \<forall>x. ext_cov (fm' ! i) x = ext_cov (fm1 ! i) x"
    by (auto simp: banks_in_Cons)
  then show ?case using j ys cov by (auto simp: fm1_def)
qed

lemma give_back_ok:
  assumes "fm_ok fm" "banks_in (length fm) segs"
    "\<forall>i < length fm. \<forall>x. ext_cov (fm ! i) x + segs_cov (al_bytes_per_bank a) (int i) x segs \<le> 1"
  shows "\<exists>fm'. and_then (append_segments a segs fm) (\<lambda>_ fm. merge_banks segs fm) = (Inr (), fm')
    \<and> length fm' = length fm \<and> fm_ok fm'
    \<and> (\<forall>i < length fm. \<forall>x. ext_cov (fm' ! i) x = ext_cov (fm ! i) x + segs_cov (al_bytes_per_bank a) (int i) x segs)"
proof -
  obtain fm1 where fm1: "append_segments a segs fm = (Inr (), fm1)" "length fm1 = length fm" "fm_pos fm1"
    "\<forall>i < length fm. \<forall>x. ext_cov (fm1 ! i) x = ext_cov (fm ! i) x + segs_cov (al_bytes_per_bank a) (int i) x segs"
    "\<forall>i < length fm. int i \<notin> seg_bank_id ` set segs \<longrightarrow> fm1 ! i = fm ! i"
    using append_segments_ok [OF assms(2) fm_ok_pos [OF assms(1)]] by blast
  have "banks_in (length fm1) segs" "\<forall>i < length fm1. \<forall>x. ext_cov (fm1 ! i) x \<le> 1"
    "\<forall>i < length fm1. int i \<notin> seg_bank_id ` set segs \<longrightarrow> canonical (fm1 ! i)"
    using assms fm1(2,4,5) by (simp_all add: fm_ok_nth)
  from merge_banks_ok [OF this(1) fm1(3) this(2,3)] fm1(1,2,4) show ?thesis by auto
qed

section \<open>Exact reservations\<close>

definition segs_ok :: "int \<Rightarrow> int \<Rightarrow> bank_segment list \<Rightarrow> bool" where
  "segs_ok n B segs \<longleftrightarrow> (\<forall>seg \<in> set segs. seg_ok n B seg)"

lemma reserve_exact_ok:
  assumes "reserve_exact a fm segs = Inr fm'" "fm_ok fm" "al_banks a = int (length fm)"
  shows "segs_ok (al_banks a) (al_bytes_per_bank a) segs \<and> length fm' = length fm \<and> fm_ok fm'
    \<and> (\<forall>i < length fm. \<forall>x. ext_cov (fm' ! i) x + segs_cov (al_bytes_per_bank a) (int i) x segs = ext_cov (fm ! i) x)"
  using assms
proof (induction segs arbitrary: fm)
  case (Cons seg segs)
  let ?B = "al_bytes_per_bank a" and ?n = "seg_size_bytes seg"
  have ok: "seg_ok (al_banks a) ?B seg" and av: "range_available (fm ! nat (seg_bank_id seg)) (lstart ?B seg) ?n"
    and rest: "reserve_exact a (fm[nat (seg_bank_id seg) := consume (fm ! nat (seg_bank_id seg)) (lstart ?B seg) ?n]) segs = Inr fm'"
    using Cons.prems(1) by (auto simp: Let_def segment_local_start_ok split: sum.splits if_splits)
  define j where "j = nat (seg_bank_id seg)"
  have j: "j < length fm" "seg_bank_id seg = int j" "0 < ?n"
    using ok Cons.prems(3) by (auto simp: j_def seg_ok_def)
  have can: "canonical (fm ! j)" by (rule fm_ok_nth [OF Cons.prems(2) j(1)])
  define fm1 where "fm1 = fm[j := consume (fm ! j) (lstart ?B seg) ?n]"
  have fm1: "length fm1 = length fm" "fm_ok fm1"
    using Cons.prems(2) can j(3) by (simp_all add: fm1_def fm_ok_update consume_canonical)
  have cov: "ext_cov (fm1 ! i) x + seg_cov ?B (int i) x seg = ext_cov (fm ! i) x" if "i < length fm" for i x
    using that j av range_available_cov [OF can j(3), of "lstart ?B seg"]
    by (cases "i = j") (auto simp: fm1_def seg_cov_def consume_cov ind_def j_def [symmetric])
  have "segs_ok (al_banks a) ?B segs \<and> length fm' = length fm1 \<and> fm_ok fm'
    \<and> (\<forall>i < length fm1. \<forall>x. ext_cov (fm' ! i) x + segs_cov ?B (int i) x segs = ext_cov (fm1 ! i) x)"
    using rest fm1 Cons.prems(3) by (intro Cons.IH) (simp_all add: fm1_def j_def)
  then show ?case using ok cov fm1(1) by (auto simp: segs_ok_def) (smt (verit))
qed (simp add: segs_ok_def)

lemma return_exact_ok:
  assumes "fm_ok fm" "al_banks a = int (length fm)" "segs_ok (al_banks a) (al_bytes_per_bank a) segs"
    "\<forall>i < length fm. \<forall>x. ext_cov (fm ! i) x + segs_cov (al_bytes_per_bank a) (int i) x segs \<le> 1"
  shows "\<exists>fm'. return_exact a fm segs = Inr fm' \<and> length fm' = length fm \<and> fm_ok fm'
    \<and> (\<forall>i < length fm. \<forall>x. ext_cov (fm' ! i) x = ext_cov (fm ! i) x + segs_cov (al_bytes_per_bank a) (int i) x segs)"
  using assms
proof (induction segs arbitrary: fm)
  case (Cons seg segs)
  let ?B = "al_bytes_per_bank a" and ?n = "seg_size_bytes seg"
  have ok: "seg_ok (al_banks a) ?B seg" "segs_ok (al_banks a) ?B segs"
    using Cons.prems(3) by (simp_all add: segs_ok_def)
  define j where "j = nat (seg_bank_id seg)"
  have j: "j < length fm" "seg_bank_id seg = int j" "0 < ?n"
    using ok Cons.prems(2) by (auto simp: j_def seg_ok_def)
  let ?es = "fm ! j @ [(lstart ?B seg, ?n)]"
  have le: "ext_cov (fm ! j) x + ind (lstart ?B seg) ?n x \<le> 1" for x
    using Cons.prems(4) [rule_format, OF j(1), of x] segs_cov_nonneg [of ?B "int j" x segs] j(2)
    by (simp add: seg_cov_def del: segs_cov_nonneg)
  have pos: "\<forall>p \<in> set (fm ! j). 0 < snd p" using fm_pos_nth [OF fm_ok_pos [OF Cons.prems(1)] j(1)] .
  have no: "\<not> range_overlaps (fm ! j) (lstart ?B seg) ?n"
  proof
    assume "range_overlaps (fm ! j) (lstart ?B seg) ?n"
    then obtain x where "lstart ?B seg \<le> x" "x < lstart ?B seg + ?n" "0 < ext_cov (fm ! j) x"
      by (auto simp: range_overlaps_cov [OF pos j(3)])
    with le [of x] show False by (simp add: ind_def)
  qed
  obtain ys where ys: "coalesce_extents ?es = Inr ys" "canonical ys" "\<forall>x. ext_cov ys x = ext_cov ?es x"
    using coalesce_ok [of ?es] pos j(3) le by auto
  define fm1 where "fm1 = fm[j := ys]"
  have fm1: "length fm1 = length fm" "fm_ok fm1"
    using Cons.prems(1) ys(2) by (simp_all add: fm1_def fm_ok_update)
  have cov: "ext_cov (fm1 ! i) x = ext_cov (fm ! i) x + seg_cov ?B (int i) x seg" if "i < length fm" for i x
    using that j ys(3) by (cases "i = j") (auto simp: fm1_def seg_cov_def)
  have "\<exists>fm'. return_exact a fm1 segs = Inr fm' \<and> length fm' = length fm1 \<and> fm_ok fm'
    \<and> (\<forall>i < length fm1. \<forall>x. ext_cov (fm' ! i) x = ext_cov (fm1 ! i) x + segs_cov ?B (int i) x segs)"
    using Cons.prems(2,4) fm1 ok(2) cov by (intro Cons.IH) (auto simp: add.assoc)
  moreover have "return_exact a fm (seg # segs) = return_exact a fm1 segs"
    using no ys(1) ok(1) by (simp add: segment_local_start_ok [THEN iffD2] j_def [symmetric] fm1_def)
  ultimately show ?case using cov fm1(1) by (auto simp: add.assoc)
qed simp


text \<open>
  The overlap test rejects a bundle that returns the same segment twice: once returned, its
  bytes stay in the map that the later tests read.
\<close>

lemma return_exact_fresh:
  assumes "return_exact a fm segs = Inr fm'" "fm_ok fm" "al_banks a = int (length fm)"
    "segs_ok (al_banks a) (al_bytes_per_bank a) segs"
  shows "distinct segs \<and> (\<forall>seg \<in> set segs. \<forall>x. seg_cov (al_bytes_per_bank a) (seg_bank_id seg) x seg = 1
     \<longrightarrow> ext_cov (fm ! nat (seg_bank_id seg)) x = 0)"
  using assms
proof (induction segs arbitrary: fm)
  case (Cons seg segs)
  let ?B = "al_bytes_per_bank a" and ?n = "seg_size_bytes seg" and ?j = "nat (seg_bank_id seg)"
  let ?es = "fm ! ?j @ [(lstart ?B seg, ?n)]"
  have ok: "seg_ok (al_banks a) ?B seg" "segs_ok (al_banks a) ?B segs"
    using Cons.prems(4) by (simp_all add: segs_ok_def)
  have j: "?j < length fm" "0 < ?n" using ok(1) Cons.prems(3) by (auto simp: seg_ok_def)
  have ls: "segment_local_start a seg = Inr (lstart ?B seg)" using ok(1) by (simp add: segment_local_start_ok)
  obtain ys where no: "\<not> range_overlaps (fm ! ?j) (lstart ?B seg) ?n" and ys: "coalesce_extents ?es = Inr ys"
    and rest: "return_exact a (fm[?j := ys]) segs = Inr fm'"
    using Cons.prems(1) ls by (auto simp: Let_def split: if_splits sum.splits)
  have pos: "\<forall>p \<in> set (fm ! ?j). 0 < snd p" using fm_pos_nth [OF fm_ok_pos [OF Cons.prems(2)] j(1)] .
  have free: "ind (lstart ?B seg) ?n x = 1 \<Longrightarrow> ext_cov (fm ! ?j) x = 0" for x
  proof -
    assume "ind (lstart ?B seg) ?n x = 1"
    then have "lstart ?B seg \<le> x \<and> x < lstart ?B seg + ?n" by (simp add: ind_def of_bool_def split: if_splits)
    with no have "\<not> 0 < ext_cov (fm ! ?j) x" by (auto simp: range_overlaps_cov [OF pos j(2)])
    with ext_cov_nonneg [of "fm ! ?j" x] show "ext_cov (fm ! ?j) x = 0" by linarith
  qed
  have "ext_cov ?es x \<le> 1" for x
    using free [of x] canonical_cov_le_1 [OF fm_ok_nth [OF Cons.prems(2) j(1)], of x] by (auto simp: ind_def)
  with coalesce_ok [of ?es] ys pos j(2) have can: "canonical ys" and cov: "\<And>x. ext_cov ys x = ext_cov ?es x" by auto
  have IH: "distinct segs" "\<forall>s \<in> set segs. \<forall>x. seg_cov ?B (seg_bank_id s) x s = 1
      \<longrightarrow> ext_cov ((fm[?j := ys]) ! nat (seg_bank_id s)) x = 0"
    using Cons.IH [OF rest] Cons.prems(2,3) ok(2) can by (simp_all add: fm_ok_update)
  have "seg \<notin> set segs"
  proof
    assume "seg \<in> set segs"
    moreover have "seg_cov ?B (seg_bank_id seg) (lstart ?B seg) seg = 1" using j(2) by (simp add: seg_cov_def ind_def)
    ultimately have "ext_cov ys (lstart ?B seg) = 0" using IH(2) j(1) by fastforce
    with cov [of "lstart ?B seg"] j(2) ext_cov_nonneg [of "fm ! ?j" "lstart ?B seg"] show False
      by (simp add: ind_def)
  qed
  moreover have "ext_cov (fm ! nat (seg_bank_id s)) x = 0"
    if "s \<in> set segs" "seg_cov ?B (seg_bank_id s) x s = 1" for s x
  proof (cases "nat (seg_bank_id s) = ?j")
    case True
    with IH(2) that j(1) have "ext_cov ys x = 0" by fastforce
    with cov [of x] True ext_cov_nonneg [of "fm ! ?j" x] show ?thesis
      using ind_nonneg [of "lstart ?B seg" ?n x] by (simp del: ind_nonneg ext_cov_nonneg)
  next
    case False
    with IH(2) that show ?thesis by fastforce
  qed
  moreover have "ext_cov (fm ! ?j) x = 0" if "seg_cov ?B (seg_bank_id seg) x seg = 1" for x
    using that free by (simp add: seg_cov_def)
  ultimately show ?case using IH(1) by auto
qed simp

lemmas return_exact_distinct = return_exact_fresh [THEN conjunct1]

end
