(* ===== verification/Allocator_Safety.thy ===== *)
theory Allocator_Safety
  imports Allocator_Cover
begin

text \<open>
  The allocator as a machine: its invariant (every byte of the configured window is free or
  held by exactly one live allocation or exact reservation, and the byte counters are the
  sums they stand for), that every operation keeps it, and the properties that follow.
\<close>

section \<open>Invariant\<close>

definition rec_cov :: "int \<Rightarrow> int \<Rightarrow> int \<Rightarrow> allocation_record \<Rightarrow> int" where
  "rec_cov B b x r = (if rc_state r = RELEASED then 0 else segs_cov B b x (hd_bank_segments (rc_handle r)))"

definition rec_bytes :: "allocation_record \<Rightarrow> int" where
  "rec_bytes r = (if rc_state r = RELEASED then 0 else hd_size_bytes (rc_handle r))"

definition held_cov :: "allocator \<Rightarrow> int \<Rightarrow> int \<Rightarrow> int" where
  "held_cov a b x = dict_sum (rec_cov (al_bytes_per_bank a) b x) (al_live a)
     + (\<Sum>seg \<in> al_exact_live a. seg_cov (al_bytes_per_bank a) b x seg)"

definition rec_wf :: "allocator \<Rightarrow> allocation_id \<Rightarrow> allocation_record \<Rightarrow> bool" where
  "rec_wf a i r \<longleftrightarrow> hd_allocation_id (rc_handle r) = i
     \<and> i = (al_memory_space a, al_trace_tile_id a, al_generation a, snd (snd (snd i)))
     \<and> snd (snd (snd i)) \<le> al_counter a
     \<and> hd_generation (rc_handle r) = al_generation a
     \<and> (rc_state r = RELEASED \<longrightarrow> rc_pins r = {}) \<and> (rc_state r = RELEASE_PENDING \<longrightarrow> rc_pins r \<noteq> {})
     \<and> segs_ok (al_banks a) (al_bytes_per_bank a) (hd_bank_segments (rc_handle r))
     \<and> hd_bank_segments (rc_handle r) \<noteq> []
     \<and> hd_base_address (rc_handle r) = seg_address (hd (hd_bank_segments (rc_handle r)))
     \<and> hd_size_bytes (rc_handle r) = segs_size (hd_bank_segments (rc_handle r))"

definition al_geom :: "int \<Rightarrow> int \<Rightarrow> allocator \<Rightarrow> bool" where
  "al_geom lo hi a \<longleftrightarrow> al_banks a = int (length (al_free a)) \<and> fm_ok (al_free a)
     \<and> 0 \<le> lo \<and> lo \<le> hi \<and> hi \<le> al_bytes_per_bank a
     \<and> al_capacity_bytes a = al_banks a * al_bytes_per_bank a"

definition al_cover :: "(int \<Rightarrow> int \<Rightarrow> int) \<Rightarrow> int \<Rightarrow> int \<Rightarrow> allocator \<Rightarrow> bool" where
  "al_cover P lo hi a \<longleftrightarrow> (\<forall>i < length (al_free a). \<forall>x.
     ext_cov (al_free a ! i) x + P (int i) x + held_cov a (int i) x = of_bool (lo \<le> x \<and> x < hi))"

definition al_recs :: "allocator \<Rightarrow> bool" where
  "al_recs a \<longleftrightarrow> keys_distinct (al_live a) \<and> (\<forall>(i, r) \<in> set (al_live a). rec_wf a i r)"

definition al_exact :: "allocator \<Rightarrow> bool" where
  "al_exact a \<longleftrightarrow> finite (al_exact_live a)
     \<and> (\<forall>seg \<in> al_exact_live a. seg_ok (al_banks a) (al_bytes_per_bank a) seg)"

definition al_bytes :: "allocator \<Rightarrow> bool" where
  "al_bytes a \<longleftrightarrow> al_allocated_bytes a
       = dict_sum rec_bytes (al_live a) + (\<Sum>seg \<in> al_exact_live a. seg_size_bytes seg)
     \<and> al_allocated_bytes a \<le> al_peak_allocated a"

definition al_inv :: "(int \<Rightarrow> int \<Rightarrow> int) \<Rightarrow> int \<Rightarrow> int \<Rightarrow> allocator \<Rightarrow> bool" where
  "al_inv P lo hi a \<longleftrightarrow> al_geom lo hi a \<and> al_cover P lo hi a \<and> al_recs a \<and> al_exact a \<and> al_bytes a"

lemmas al_inv_parts = al_inv_def al_geom_def al_cover_def al_recs_def al_exact_def al_bytes_def

lemma rec_cov_nonneg [simp]: "0 \<le> rec_cov B b x r"
  by (simp add: rec_cov_def)

lemma held_cov_nonneg: "0 \<le> held_cov a b x"
  by (simp add: held_cov_def dict_sum_nonneg sum_nonneg)

lemma al_recs_get: "al_recs a \<Longrightarrow> dict_get (al_live a) i = Some r \<Longrightarrow> rec_wf a i r"
  by (auto simp: al_recs_def dest: dict_get_in_set)

lemma rec_wfD:
  assumes "rec_wf a i r"
  shows "segs_ok (al_banks a) (al_bytes_per_bank a) (hd_bank_segments (rc_handle r))"
    "hd_size_bytes (rc_handle r) = segs_size (hd_bank_segments (rc_handle r))"
    "hd_allocation_id (rc_handle r) = i" "hd_generation (rc_handle r) = al_generation a"
    "rc_state r = RELEASED \<Longrightarrow> rc_pins r = {}" "rc_state r = RELEASE_PENDING \<Longrightarrow> rc_pins r \<noteq> {}"
  using assms unfolding rec_wf_def by simp_all

lemma segs_size_nonneg: "segs_ok n B segs \<Longrightarrow> 0 \<le> segs_size segs"
  by (induction segs) (auto simp: segs_ok_def seg_ok_def)

lemma al_free_frame [simp]:
  "held_cov (a\<lparr>al_free := fm\<rparr>) = held_cov a"
  "al_recs (a\<lparr>al_free := fm\<rparr>) = al_recs a"
  "al_exact (a\<lparr>al_free := fm\<rparr>) = al_exact a"
  "al_bytes (a\<lparr>al_free := fm\<rparr>) = al_bytes a"
  by (simp_all add: held_cov_def [abs_def] al_recs_def rec_wf_def al_exact_def al_bytes_def)

lemma al_coverD:
  "al_cover P lo hi a \<Longrightarrow> i < length (al_free a) \<Longrightarrow>
   ext_cov (al_free a ! i) x + P (int i) x + held_cov a (int i) x = of_bool (lo \<le> x \<and> x < hi)"
  by (simp add: al_cover_def)

lemma seg_in_window:
  assumes "\<forall>x. seg_cov B (seg_bank_id seg) x seg \<le> of_bool (lo \<le> x \<and> x < hi)" "0 < seg_size_bytes seg"
  shows "lo \<le> lstart B seg \<and> lstart B seg + seg_size_bytes seg \<le> hi"
  using ext_in_window [of "[(lstart B seg, seg_size_bytes seg)]" lo hi] assms by (simp add: seg_cov_def)

section \<open>Committing\<close>

lemma commit_one_inv:
  assumes inv: "al_inv (\<lambda>b x. segs_cov (al_bytes_per_bank a) b x segs + P b x) lo hi a"
    and P: "\<And>b x. 0 \<le> P b x"
    and segs: "segs \<noteq> []" "banks_in (length (al_free a)) segs" "segs_size segs = rq_size_bytes req"
  shows "al_inv P lo hi (commit_one a req segs cycle)"
    and "dict_get (al_live (commit_one a req segs cycle)) (al_memory_space a, al_trace_tile_id a, al_generation a, al_counter a + 1)
         = Some (new_record (new_handle (a\<lparr>al_counter := al_counter a + 1\<rparr>) req segs cycle))"
proof -
  let ?B = "al_bytes_per_bank a"
  let ?i = "(al_memory_space a, al_trace_tile_id a, al_generation a, al_counter a + 1)"
  let ?h = "new_handle (a\<lparr>al_counter := al_counter a + 1\<rparr>) req segs cycle"
  let ?a' = "commit_one a req segs cycle"
  note parts = inv [unfolded al_inv_def]
  have live: "al_live ?a' = dict_set ?i (new_record ?h) (al_live a)"
    by (simp add: commit_one_def Let_def new_handle_def)
  have same: "al_free ?a' = al_free a" "al_banks ?a' = al_banks a" "al_bytes_per_bank ?a' = ?B"
    "al_capacity_bytes ?a' = al_capacity_bytes a" "al_exact_live ?a' = al_exact_live a"
    "al_generation ?a' = al_generation a" "al_memory_space ?a' = al_memory_space a"
    "al_trace_tile_id ?a' = al_trace_tile_id a" "al_counter ?a' = al_counter a + 1"
    by (simp_all add: commit_one_def Let_def)
  have fresh: "dict_get (al_live a) ?i = None"
  proof (rule ccontr)
    assume "dict_get (al_live a) ?i \<noteq> None"
    then obtain r where "dict_get (al_live a) ?i = Some r" by blast
    with parts show False by (auto dest!: al_recs_get simp: rec_wf_def)
  qed
  have nonneg: "0 \<le> rq_size_bytes req"
    using segs(2) unfolding segs(3) [symmetric] segs_size_def banks_in_def by (intro sum_list_nonneg) auto
  have held: "held_cov ?a' b x = held_cov a b x + segs_cov ?B b x segs" for b x
    by (simp add: held_cov_def same live dict_sum_fresh [OF fresh] rec_cov_def new_record_def new_handle_def)
  have cover: "al_cover P lo hi ?a'"
    using parts by (simp add: al_cover_def same held algebra_simps)
  have ok: "segs_ok (al_banks a) ?B segs"
    unfolding segs_ok_def
  proof
    fix seg assume seg: "seg \<in> set segs"
    with segs(2) have b: "0 \<le> seg_bank_id seg" "seg_bank_id seg < int (length (al_free a))" "0 < seg_size_bytes seg"
      by (auto simp: banks_in_def)
    let ?j = "nat (seg_bank_id seg)"
    have "seg_cov ?B (seg_bank_id seg) x seg \<le> of_bool (lo \<le> x \<and> x < hi)" for x
    proof -
      have "ext_cov (al_free a ! ?j) x + (segs_cov ?B (int ?j) x segs + P (int ?j) x) + held_cov a (int ?j) x
          = of_bool (lo \<le> x \<and> x < hi)"
        by (rule al_coverD [of "\<lambda>b x. segs_cov ?B b x segs + P b x"]) (use parts b in auto)
      then show ?thesis
        using segs_cov_member [OF seg, of ?B "seg_bank_id seg" x] b P [of "seg_bank_id seg" x]
          ext_cov_nonneg [of "al_free a ! ?j" x] held_cov_nonneg [of a "seg_bank_id seg" x]
        unfolding nat_0_le [OF b(1)] by linarith
    qed
    with seg_in_window [of ?B seg lo hi] b parts show "seg_ok (al_banks a) ?B seg"
      by (fastforce simp: seg_ok_def al_geom_def)
  qed
  have "rec_wf ?a' ?i (new_record ?h)"
    using ok segs(1,3) by (simp add: rec_wf_def new_record_def new_handle_def same)
  moreover have "rec_wf ?a' i r" if "rec_wf a i r" for i r
    using that by (simp add: rec_wf_def same)
  ultimately have "al_recs ?a'"
    using parts by (auto simp: al_recs_def live set_dict_set dict_simps)
  moreover have "al_bytes ?a'"
    using parts nonneg
    by (auto simp: al_bytes_def live dict_sum_fresh [OF fresh] same rec_bytes_def new_record_def new_handle_def)
       (simp_all add: commit_one_def Let_def)
  moreover have "al_geom lo hi ?a'" using parts by (simp add: al_geom_def same)
  moreover have "al_exact ?a'" using parts by (simp add: al_exact_def same)
  ultimately show "al_inv P lo hi ?a'" using cover by (simp add: al_inv_def)
  show "dict_get (al_live ?a') ?i = Some (new_record ?h)" by (simp add: live dict_simps)
qed


definition handle_for :: "allocator \<Rightarrow> (string, bank_segment list) dict \<Rightarrow> allocation_request \<Rightarrow> allocation_handle \<Rightarrow> bool" where
  "handle_for a pl req h \<longleftrightarrow> hd_owner h = rq_owner req \<and> hd_size_bytes h = rq_size_bytes req
     \<and> hd_alignment h = rq_alignment req \<and> hd_generation h = al_generation a
     \<and> dict_get pl (rq_buffer_id req) = Some (hd_bank_segments h)
     \<and> hd_base_address h = seg_address (hd (hd_bank_segments h))"

lemma commit_one_frame [simp]:
  "al_free (commit_one a req segs cycle) = al_free a"
  "al_bytes_per_bank (commit_one a req segs cycle) = al_bytes_per_bank a"
  "al_banks (commit_one a req segs cycle) = al_banks a"
  "al_pool_version (commit_one a req segs cycle) = al_pool_version a"
  "al_generation (commit_one a req segs cycle) = al_generation a"
  "al_memory_space (commit_one a req segs cycle) = al_memory_space a"
  "al_trace_tile_id (commit_one a req segs cycle) = al_trace_tile_id a"
  "al_counter (commit_one a req segs cycle) = al_counter a + 1"
  by (simp_all add: commit_one_def Let_def)

lemma new_handle_simps [simp]:
  "hd_allocation_id (new_handle a req segs cycle) = (al_memory_space a, al_trace_tile_id a, al_generation a, al_counter a)"
  by (simp add: new_handle_def)

lemma commit_requests_ok:
  assumes "al_inv (\<lambda>b x. pl_cov (al_bytes_per_bank a) b x pl reqs) lo hi a"
    "\<forall>req \<in> set reqs. placed (int (length (al_free a))) (al_bytes_per_bank a) pl req"
  shows "\<exists>hs a'. commit_requests pl cycle reqs a = (Inr hs, a') \<and> al_inv (\<lambda>_ _. 0) lo hi a'
     \<and> al_pool_version a' = al_pool_version a \<and> al_generation a' = al_generation a
     \<and> list_all2 (handle_for a pl) reqs hs
     \<and> (\<forall>h \<in> set hs. dict_get (al_live a') (hd_allocation_id h) = Some (new_record h))
     \<and> (\<forall>i r. snd (snd (snd i)) \<le> al_counter a \<longrightarrow> dict_get (al_live a) i = Some r
             \<longrightarrow> dict_get (al_live a') i = Some r)"
  using assms
proof (induction reqs arbitrary: a)
  case (Cons req reqs)
  let ?B = "al_bytes_per_bank a"
  obtain segs where segs: "dict_get pl (rq_buffer_id req) = Some segs" "segs \<noteq> []"
    "segs_size segs = rq_size_bytes req" "banks_in (length (al_free a)) segs"
    using Cons.prems(2) by (auto simp: placed_def banks_in_def)
  let ?a1 = "commit_one a req segs cycle" and ?h = "new_handle (a\<lparr>al_counter := al_counter a + 1\<rparr>) req segs cycle"
  have "al_inv (\<lambda>b x. segs_cov ?B b x segs + pl_cov ?B b x pl reqs) lo hi a"
    using Cons.prems(1) segs(1) by simp
  note one = commit_one_inv [OF this pl_cov_nonneg segs(2,4,3), of cycle]
  have "al_inv (\<lambda>b x. pl_cov (al_bytes_per_bank ?a1) b x pl reqs) lo hi ?a1"
    "\<forall>req \<in> set reqs. placed (int (length (al_free ?a1))) (al_bytes_per_bank ?a1) pl req"
    using one(1) Cons.prems(2) by simp_all
  from Cons.IH [OF this] obtain hs a' where IH:
    "commit_requests pl cycle reqs ?a1 = (Inr hs, a')" "al_inv (\<lambda>_ _. 0) lo hi a'"
    "al_pool_version a' = al_pool_version a" "al_generation a' = al_generation a"
    "list_all2 (handle_for ?a1 pl) reqs hs"
    "\<forall>h \<in> set hs. dict_get (al_live a') (hd_allocation_id h) = Some (new_record h)"
    and keep: "\<And>i r. snd (snd (snd i)) \<le> al_counter a + 1 \<Longrightarrow> dict_get (al_live ?a1) i = Some r
             \<Longrightarrow> dict_get (al_live a') i = Some r"
    by auto
  have live: "al_live ?a1 = dict_set (hd_allocation_id ?h) (new_record ?h) (al_live a)"
    by (simp add: commit_one_def Let_def new_handle_def)
  have "list_all2 (handle_for a pl) reqs hs"
    using IH(5) by (rule list_all2_mono) (simp add: handle_for_def)
  moreover have "handle_for a pl req ?h" using segs(1) by (simp add: handle_for_def new_handle_def)
  moreover have "dict_get (al_live a') (hd_allocation_id ?h) = Some (new_record ?h)"
    by (rule keep) (simp_all add: live dict_simps)
  moreover have "dict_get (al_live a') i = Some r"
    if "snd (snd (snd i)) \<le> al_counter a" "dict_get (al_live a) i = Some r" for i r
    using that by (intro keep) (auto simp: live dict_simps)
  ultimately show ?case
    using IH(1-4,6) segs(1,2) by (auto split: list.splits)
qed simp

lemma pool_version_inv [simp]:
  "al_inv P lo hi (a\<lparr>al_pool_version := v\<rparr>) = al_inv P lo hi a"
  by (simp add: al_inv_parts held_cov_def rec_wf_def)

text \<open>A plan that planning would produce now, for requests with distinct buffer ids.\<close>

definition plan_fits :: "allocator \<Rightarrow> allocation_plan \<Rightarrow> bool" where
  "plan_fits a plan \<longleftrightarrow> distinct (map rq_buffer_id (pl_requests plan))
     \<and> plan_bundle a (pl_requests plan) = Inr plan"

lemma plan_bundle_Inr:
  "plan_bundle a reqs = Inr plan \<longleftrightarrow> (\<forall>req \<in> set reqs. req_ok req) \<and> pl_pool_version plan = al_pool_version a
     \<and> pl_requests plan = reqs \<and> plan_requests a (al_free a) reqs [] = Inr (pl_placements plan)"
  by (cases plan) (auto simp: plan_bundle_def validate_requests_None [symmetric] split: option.splits sum.splits)

lemma commit_ok:
  assumes inv: "al_inv (\<lambda>_ _. 0) lo hi a" and fits: "plan_fits a plan"
  shows "\<exists>hs a'. commit plan cycle a = (Inr hs, a') \<and> al_inv (\<lambda>_ _. 0) lo hi a'
     \<and> al_pool_version a' = al_pool_version a + 1 \<and> al_generation a' = al_generation a
     \<and> list_all2 (handle_for a (pl_placements plan)) (pl_requests plan) hs
     \<and> (\<forall>h \<in> set hs. dict_get (al_live a') (hd_allocation_id h) = Some (new_record h))
     \<and> (\<forall>i r. dict_get (al_live a) i = Some r \<longrightarrow> dict_get (al_live a') i = Some r)"
proof -
  let ?B = "al_bytes_per_bank a" and ?pl = "pl_placements plan" and ?reqs = "pl_requests plan"
  note parts = inv [unfolded al_inv_def]
  have ok: "fm_ok (al_free a)" using parts by (simp add: al_geom_def)
  have pv: "pl_pool_version plan = al_pool_version a"
    and pr: "plan_requests a (al_free a) ?reqs [] = Inr ?pl" and rq: "\<forall>req \<in> set ?reqs. req_ok req"
    and di: "distinct (map rq_buffer_id ?reqs)"
    using fits by (auto simp: plan_fits_def plan_bundle_Inr)
  from plan_commit_frame [OF pr ok rq di] obtain fm' where fm':
    "consume_placements a ?pl (al_free a) ?reqs = Inr fm'" "fm_ok fm'" "length fm' = length (al_free a)"
    "\<forall>i < length (al_free a). \<forall>x. ext_cov (fm' ! i) x + pl_cov ?B (int i) x ?pl ?reqs = ext_cov (al_free a ! i) x"
    "\<forall>req \<in> set ?reqs. placed (int (length (al_free a))) ?B ?pl req" by blast
  let ?a1 = "a\<lparr>al_free := fm'\<rparr>"
  have "al_cover (\<lambda>b x. pl_cov ?B b x ?pl ?reqs) lo hi ?a1"
    using parts fm'(3,4) by (simp add: al_cover_def)
  then have "al_inv (\<lambda>b x. pl_cov (al_bytes_per_bank ?a1) b x ?pl ?reqs) lo hi ?a1"
    using parts fm'(2,3) by (simp add: al_inv_def al_geom_def)
  from commit_requests_ok [OF this, of cycle] fm'(3,5) obtain hs a' where res:
    "commit_requests ?pl cycle ?reqs ?a1 = (Inr hs, a')" "al_inv (\<lambda>_ _. 0) lo hi a'"
    "al_pool_version a' = al_pool_version a" "al_generation a' = al_generation a"
    "list_all2 (handle_for ?a1 ?pl) ?reqs hs"
    "\<forall>h \<in> set hs. dict_get (al_live a') (hd_allocation_id h) = Some (new_record h)"
    "\<forall>i r. snd (snd (snd i)) \<le> al_counter a \<longrightarrow> dict_get (al_live a) i = Some r
        \<longrightarrow> dict_get (al_live a') i = Some r" by auto
  have "snd (snd (snd i)) \<le> al_counter a" if "dict_get (al_live a) i = Some r" for i r
    using parts that al_recs_get [of a i r] by (simp add: rec_wf_def)
  with res(7) have "\<forall>i r. dict_get (al_live a) i = Some r \<longrightarrow> dict_get (al_live a') i = Some r" by blast
  moreover have "handle_for ?a1 ?pl = handle_for a ?pl"
    by (intro ext) (simp add: handle_for_def)
  ultimately show ?thesis
    using pv fm'(1) res(1-6) by (simp add: commit_def)
qed


section \<open>Releasing\<close>

text \<open>
  Rewriting the record of a live allocation: cover and bytes move by the difference of the
  old and the new record.
\<close>

lemma set_record_frame:
  assumes "al_recs a" "dict_get (al_live a) i = Some r0"
  shows "held_cov (set_record i r a) b x
           = held_cov a b x - rec_cov (al_bytes_per_bank a) b x r0 + rec_cov (al_bytes_per_bank a) b x r"
    and "dict_sum rec_bytes (al_live (set_record i r a)) = dict_sum rec_bytes (al_live a) - rec_bytes r0 + rec_bytes r"
    and "rec_wf a i r \<Longrightarrow> al_recs (set_record i r a)"
proof -
  have wf: "rec_wf (set_record i r a) j s = rec_wf a j s" for j s
    by (simp add: rec_wf_def set_record_def)
  show "held_cov (set_record i r a) b x
           = held_cov a b x - rec_cov (al_bytes_per_bank a) b x r0 + rec_cov (al_bytes_per_bank a) b x r"
    using assms(2) by (simp add: held_cov_def set_record_def dict_sum_update)
  show "dict_sum rec_bytes (al_live (set_record i r a)) = dict_sum rec_bytes (al_live a) - rec_bytes r0 + rec_bytes r"
    using assms(2) by (simp add: set_record_def dict_sum_update)
  assume "rec_wf a i r"
  with assms(1) show "al_recs (set_record i r a)"
    unfolding al_recs_def wf by (auto simp: set_record_def set_dict_set dict_simps)
qed

lemma set_record_inv:
  assumes "al_inv P lo hi a" "dict_get (al_live a) i = Some r0" "rec_wf a i r"
    "rc_handle r = rc_handle r0" "rc_state r = RELEASED \<longleftrightarrow> rc_state r0 = RELEASED"
  shows "al_inv P lo hi (set_record i r a)"
proof -
  have recs: "al_recs a" using assms(1) by (simp add: al_inv_def)
  note frame = set_record_frame [OF recs assms(2), of r]
  have same: "rec_cov B b x r = rec_cov B b x r0" "rec_bytes r = rec_bytes r0" for B b x
    using assms(4,5) by (simp_all add: rec_cov_def rec_bytes_def)
  have "held_cov (set_record i r a) b x = held_cov a b x" for b x
    using frame(1) same by simp
  moreover have "al_bytes (set_record i r a)"
    using assms(1) frame(2) same by (simp add: al_inv_def al_bytes_def set_record_def)
  moreover have "al_exact (set_record i r a)"
    using assms(1) by (simp add: al_inv_def al_exact_def set_record_def)
  ultimately show ?thesis
    using assms(1) frame(3) [OF assms(3)]
    by (simp add: al_inv_def al_geom_def al_cover_def) (simp add: set_record_def)
qed

lemma append_segments_cong:
  "al_bytes_per_bank a' = al_bytes_per_bank a \<Longrightarrow> append_segments a' segs fm = append_segments a segs fm"
  by (induction segs arbitrary: fm) (simp_all split: option.splits)

lemma held_le_window:
  assumes inv: "al_inv P lo hi a" and P: "\<And>b x. 0 \<le> P b x" and r: "dict_get (al_live a) i = Some r"
    and live: "rc_state r \<noteq> RELEASED" and j: "j < length (al_free a)"
  shows "ext_cov (al_free a ! j) x + segs_cov (al_bytes_per_bank a) (int j) x (hd_bank_segments (rc_handle r)) \<le> 1"
proof -
  have "ext_cov (al_free a ! j) x + P (int j) x + held_cov a (int j) x = of_bool (lo \<le> x \<and> x < hi)"
    using inv j by (intro al_coverD) (simp_all add: al_inv_def)
  moreover have "rec_cov (al_bytes_per_bank a) (int j) x r \<le> dict_sum (rec_cov (al_bytes_per_bank a) (int j) x) (al_live a)"
    by (rule dict_sum_member_le [OF _ dict_get_in_set [OF r]]) simp
  moreover have "0 \<le> (\<Sum>seg \<in> al_exact_live a. seg_cov (al_bytes_per_bank a) (int j) x seg)"
    by (rule sum_nonneg) simp
  moreover have "of_bool (lo \<le> x \<and> x < hi) \<le> (1::int)" by simp
  ultimately show ?thesis using live P [of "int j" x] unfolding held_cov_def rec_cov_def if_not_P [OF live]
    by linarith
qed

lemma do_release_ok:
  assumes inv: "al_inv (\<lambda>_ _. 0) lo hi a" and get: "dict_get (al_live a) i = Some r0"
    and live: "rc_state r0 \<noteq> RELEASED" and r: "rc_handle r = rc_handle r0" "rc_pins r = {}"
  shows "\<exists>a'. do_release i r cycle (set_record i r a) = (Inr (), a') \<and> al_inv (\<lambda>_ _. 0) lo hi a'
     \<and> al_pool_version a' = al_pool_version a + 1 \<and> al_generation a' = al_generation a
     \<and> al_counter a' = al_counter a
     \<and> al_live a' = dict_set i (r\<lparr>rc_state := RELEASED, rc_release_cycle := cycle\<rparr>) (al_live a)
     \<and> al_allocated_bytes a' = al_allocated_bytes a - hd_size_bytes (rc_handle r0)"
proof -
  let ?B = "al_bytes_per_bank a" and ?segs = "hd_bank_segments (rc_handle r0)"
  let ?r' = "r\<lparr>rc_state := RELEASED, rc_release_cycle := cycle\<rparr>"
  note parts = inv [unfolded al_inv_def]
  have wf: "rec_wf a i r0" using parts get by (blast intro: al_recs_get)
  have recs: "al_recs a" using parts by simp
  have ok: "fm_ok (al_free a)" "al_banks a = int (length (al_free a))" using parts by (simp_all add: al_geom_def)
  have "banks_in (length (al_free a)) ?segs"
    using rec_wfD(1) [OF wf] ok(2) by (auto simp: segs_ok_def seg_ok_def banks_in_def)
  moreover have "\<forall>j < length (al_free a). \<forall>x. ext_cov (al_free a ! j) x + segs_cov ?B (int j) x ?segs \<le> 1"
    using held_le_window [OF inv _ get live] by simp
  ultimately obtain fm' where fm':
    "and_then (append_segments a ?segs (al_free a)) (\<lambda>_ fm. merge_banks ?segs fm) = (Inr (), fm')"
    "length fm' = length (al_free a)" "fm_ok fm'"
    "\<forall>j < length (al_free a). \<forall>x. ext_cov (fm' ! j) x = ext_cov (al_free a ! j) x + segs_cov ?B (int j) x ?segs"
    using give_back_ok [OF ok(1), of ?segs a] by blast
  define b where "b = set_record i ?r' a"
  define a' where "a' = b\<lparr>al_free := fm', al_pool_version := al_pool_version a + 1,
      al_allocated_bytes := al_allocated_bytes a - hd_size_bytes (rc_handle r0)\<rparr>"
  have eq: "do_release i r cycle (set_record i r a) = (Inr (), a')"
    using fm'(1) r(1)
    by (simp add: do_release_def set_record_def a'_def b_def append_segments_cong [of "a\<lparr>al_live := dict_set i r (al_live a)\<rparr>" a])
  have wf': "rec_wf a i ?r'" using wf r by (simp add: rec_wf_def)
  note frame = set_record_frame [OF recs get, of ?r', folded b_def]
  have held: "held_cov b c x = held_cov a c x - segs_cov ?B c x ?segs" for c x
    using frame(1) live by (simp add: rec_cov_def)
  have "ext_cov (fm' ! j) x + 0 + held_cov b (int j) x = of_bool (lo \<le> x \<and> x < hi)"
    if "j < length fm'" for j x
    using al_coverD [of "\<lambda>_ _. 0" lo hi a j x] parts that fm'(2,4) held by simp
  then have cover: "al_cover (\<lambda>_ _. 0) lo hi a'"
    by (simp add: al_cover_def a'_def held_cov_def)
  have nonneg: "0 \<le> hd_size_bytes (rc_handle r0)"
    using rec_wfD [OF wf] segs_size_nonneg by simp
  have "al_bytes a'"
    using parts frame(2) live nonneg by (auto simp: al_bytes_def a'_def rec_bytes_def b_def set_record_def)
  moreover have "al_recs a'"
    using frame(3) [OF wf'] by (simp add: al_recs_def a'_def rec_wf_def)
  moreover have "al_exact a'" using parts by (simp add: al_exact_def a'_def b_def set_record_def)
  moreover have "al_geom lo hi a'"
    using parts fm'(2,3) by (simp add: al_geom_def a'_def b_def set_record_def)
  ultimately have "al_inv (\<lambda>_ _. 0) lo hi a'" using cover by (simp add: al_inv_def)
  with eq show ?thesis by (simp add: a'_def b_def set_record_def)
qed


section \<open>Pins, exact reservations, reconfiguration, reset\<close>

lemma set_record_same: "dict_get (al_live a) i = Some r \<Longrightarrow> set_record i r a = a"
  by (simp add: set_record_def dict_set_same)

lemma rec_wf_repin:
  assumes "rec_wf a i r" "rc_state r = RELEASED \<longrightarrow> ps = {}" "rc_state r = RELEASE_PENDING \<longrightarrow> ps \<noteq> {}"
  shows "rec_wf a i (r\<lparr>rc_pins := ps\<rparr>)"
  using assms unfolding rec_wf_def by simp

lemma pin_inv:
  assumes "al_inv (\<lambda>_ _. 0) lo hi a"
  shows "al_inv (\<lambda>_ _. 0) lo hi (snd (pin h c a))"
proof (cases "dict_get (al_live a) (hd_allocation_id h)")
  case (Some r)
  have "rec_wf a (hd_allocation_id h) r" using assms Some by (simp add: al_inv_def al_recs_get)
  then have "al_inv (\<lambda>_ _. 0) lo hi (set_record (hd_allocation_id h) (r\<lparr>rc_pins := insert c (rc_pins r)\<rparr>) a)"
    if "rc_state r \<noteq> RELEASED"
    using that by (intro set_record_inv [OF assms Some] rec_wf_repin) simp_all
  with assms show ?thesis by (simp add: pin_def Some)
qed (simp add: pin_def assms)

lemma unpin_cases:
  assumes inv: "al_inv (\<lambda>_ _. 0) lo hi a" and get: "dict_get (al_live a) (hd_allocation_id h) = Some r"
    and gen: "hd_generation (rc_handle r) = hd_generation h" and c: "c \<in> rc_pins r"
  shows "\<exists>a'. unpin h c cycle a = (Inr (rc_state r = RELEASE_PENDING \<and> rc_pins r = {c}), a')
     \<and> al_inv (\<lambda>_ _. 0) lo hi a' \<and> al_generation a' = al_generation a \<and> al_counter a' = al_counter a
     \<and> al_pool_version a' = al_pool_version a + of_bool (rc_state r = RELEASE_PENDING \<and> rc_pins r = {c})
     \<and> (\<not> (rc_state r = RELEASE_PENDING \<and> rc_pins r = {c}) \<longrightarrow> al_free a' = al_free a)
     \<and> al_allocated_bytes a' = al_allocated_bytes a
         - (if rc_state r = RELEASE_PENDING \<and> rc_pins r = {c} then hd_size_bytes (rc_handle r) else 0)
     \<and> (\<exists>r'. dict_get (al_live a') (hd_allocation_id h) = Some r' \<and> rc_pins r' = rc_pins r - {c}
          \<and> rc_state r' = (if rc_state r = RELEASE_PENDING \<and> rc_pins r = {c} then RELEASED else rc_state r))"
proof -
  let ?i = "hd_allocation_id h" and ?r = "r\<lparr>rc_pins := rc_pins r - {c}\<rparr>"
  have wf: "rec_wf a ?i r" using inv get by (simp add: al_inv_def al_recs_get)
  have live: "rc_state r \<noteq> RELEASED" using rec_wfD(5) [OF wf] c by auto
  have empty: "rc_pins r - {c} = {} \<longleftrightarrow> rc_pins r = {c}" using c by auto
  show ?thesis
  proof (cases "rc_state r = RELEASE_PENDING \<and> rc_pins r = {c}")
    case True
    then obtain a' where a': "do_release ?i ?r cycle (set_record ?i ?r a) = (Inr (), a')"
      "al_inv (\<lambda>_ _. 0) lo hi a'" "al_pool_version a' = al_pool_version a + 1"
      "al_generation a' = al_generation a" "al_counter a' = al_counter a"
      "al_live a' = dict_set ?i (?r\<lparr>rc_state := RELEASED, rc_release_cycle := cycle\<rparr>) (al_live a)"
      "al_allocated_bytes a' = al_allocated_bytes a - hd_size_bytes (rc_handle r)"
      using do_release_ok [OF inv get live, of ?r cycle] by auto
    then have "unpin h c cycle a = (Inr True, a')" using True get gen c by (simp add: unpin_def)
    with a' True show ?thesis by (simp add: dict_simps)
  next
    case False
    then have "rc_state r = RELEASE_PENDING \<Longrightarrow> rc_pins r - {c} \<noteq> {}" using empty by blast
    then have "al_inv (\<lambda>_ _. 0) lo hi (set_record ?i ?r a)"
      using live by (intro set_record_inv [OF inv get] rec_wf_repin wf) simp_all
    moreover have "unpin h c cycle a = (Inr False, set_record ?i ?r a)"
      using get gen c False empty by (auto simp: unpin_def Let_def)
    ultimately show ?thesis using False unfolding if_not_P [OF False] by (simp add: set_record_def dict_simps)
  qed
qed

lemma unpin_inv:
  assumes "al_inv (\<lambda>_ _. 0) lo hi a"
  shows "al_inv (\<lambda>_ _. 0) lo hi (snd (unpin h c cycle a))"
proof (cases "dict_get (al_live a) (hd_allocation_id h)")
  case (Some r)
  show ?thesis
  proof (cases "hd_generation (rc_handle r) = hd_generation h \<and> c \<in> rc_pins r")
    case True
    then obtain v a' where "unpin h c cycle a = (Inr v, a')" "al_inv (\<lambda>_ _. 0) lo hi a'"
      using unpin_cases [OF assms Some, of c cycle] by blast
    then show ?thesis by simp
  next
    case False
    then have "snd (unpin h c cycle a) = a" using Some by (auto simp: unpin_def)
    with assms show ?thesis by simp
  qed
qed (simp add: unpin_def assms)

lemma request_release_cases:
  assumes inv: "al_inv (\<lambda>_ _. 0) lo hi a" and get: "dict_get (al_live a) (hd_allocation_id h) = Some r"
    and gen: "hd_generation (rc_handle r) = hd_generation h" and live: "rc_state r \<noteq> RELEASED"
    and ow: "hd_owner (rc_handle r) = owner"
  shows "\<exists>a'. request_release h owner cycle a = (Inr (rc_pins r = {}), a') \<and> al_inv (\<lambda>_ _. 0) lo hi a'
     \<and> al_generation a' = al_generation a \<and> al_counter a' = al_counter a
     \<and> al_pool_version a' = al_pool_version a + of_bool (rc_pins r = {})
     \<and> (rc_pins r \<noteq> {} \<longrightarrow> al_free a' = al_free a)
     \<and> al_allocated_bytes a' = al_allocated_bytes a - (if rc_pins r = {} then hd_size_bytes (rc_handle r) else 0)
     \<and> (\<exists>r'. dict_get (al_live a') (hd_allocation_id h) = Some r' \<and> rc_pins r' = rc_pins r
          \<and> rc_handle r' = rc_handle r
          \<and> rc_state r' = (if rc_pins r = {} then RELEASED else RELEASE_PENDING))"
proof -
  let ?i = "hd_allocation_id h"
  have wf: "rec_wf a ?i r" using inv get by (simp add: al_inv_def al_recs_get)
  show ?thesis
  proof (cases "rc_pins r = {}")
    case True
    then obtain a' where a': "do_release ?i r cycle (set_record ?i r a) = (Inr (), a')"
      "al_inv (\<lambda>_ _. 0) lo hi a'" "al_pool_version a' = al_pool_version a + 1"
      "al_generation a' = al_generation a" "al_counter a' = al_counter a"
      "al_live a' = dict_set ?i (r\<lparr>rc_state := RELEASED, rc_release_cycle := cycle\<rparr>) (al_live a)"
      "al_allocated_bytes a' = al_allocated_bytes a - hd_size_bytes (rc_handle r)"
      using do_release_ok [OF inv get live refl, of cycle] by auto
    then have "request_release h owner cycle a = (Inr True, a')"
      using True get gen live ow by (simp add: request_release_def set_record_same)
    with a' True show ?thesis by (simp add: dict_simps)
  next
    case False
    let ?r = "r\<lparr>rc_state := RELEASE_PENDING, rc_release_cycle := cycle\<rparr>"
    have "rec_wf a ?i ?r" using wf False unfolding rec_wf_def by simp
    then have "al_inv (\<lambda>_ _. 0) lo hi (set_record ?i ?r a)"
      using live by (intro set_record_inv [OF inv get]) simp_all
    moreover have "request_release h owner cycle a = (Inr False, set_record ?i ?r a)"
      using get gen live ow False by (simp add: request_release_def)
    ultimately show ?thesis using False by (simp add: set_record_def dict_simps)
  qed
qed

lemma request_release_inv:
  assumes "al_inv (\<lambda>_ _. 0) lo hi a"
  shows "al_inv (\<lambda>_ _. 0) lo hi (snd (request_release h owner cycle a))"
proof (cases "dict_get (al_live a) (hd_allocation_id h)")
  case (Some r)
  show ?thesis
  proof (cases "hd_generation (rc_handle r) = hd_generation h \<and> rc_state r \<noteq> RELEASED \<and> hd_owner (rc_handle r) = owner")
    case True
    then obtain v a' where "request_release h owner cycle a = (Inr v, a')" "al_inv (\<lambda>_ _. 0) lo hi a'"
      using request_release_cases [OF assms Some, of owner cycle] by blast
    then show ?thesis by simp
  next
    case False
    then have "snd (request_release h owner cycle a) = a" using Some by (auto simp: request_release_def)
    with assms show ?thesis by simp
  qed
qed (simp add: request_release_def assms)

lemma sum_set_segs: "distinct segs \<Longrightarrow> sum f (set segs) = sum_list (map f segs)"
  by (simp add: sum_list_distinct_conv_sum_set)

text \<open>Segments that cover no byte twice are distinct.\<close>

lemma segs_distinct:
  assumes "segs_ok n B segs" "\<forall>i < nat n. \<forall>x. segs_cov B (int i) x segs \<le> 1"
  shows "distinct segs"
  using assms
proof (induction segs)
  case (Cons seg segs)
  have ok: "seg_ok n B seg" "segs_ok n B segs" using Cons.prems(1) by (simp_all add: segs_ok_def)
  have "segs_cov B (int i) x segs \<le> 1" if "i < nat n" for i x
    using Cons.prems(2) that seg_cov_nonneg [of B "int i" x seg]
    by (smt (verit) segs_cov_simps(2))
  then have "distinct segs" using Cons.IH ok(2) by blast
  moreover have "seg \<notin> set segs"
  proof
    assume "seg \<in> set segs"
    let ?j = "nat (seg_bank_id seg)"
    have j: "?j < nat n" "int ?j = seg_bank_id seg" using ok(1) by (auto simp: seg_ok_def)
    have "seg_cov B (int ?j) (lstart B seg) seg = 1"
      using ok(1) j by (simp add: seg_cov_def ind_def seg_ok_def)
    with segs_cov_member [OF \<open>seg \<in> set segs\<close>, of B "int ?j" "lstart B seg"] Cons.prems(2) j(1)
    show False by (smt (verit) segs_cov_simps(2))
  qed
  ultimately show ?case by simp
qed simp


lemma exact_member_held:
  assumes "al_exact a" "seg \<in> al_exact_live a"
  shows "seg_cov (al_bytes_per_bank a) b x seg \<le> held_cov a b x"
proof -
  have "seg_cov (al_bytes_per_bank a) b x seg \<le> (\<Sum>s \<in> al_exact_live a. seg_cov (al_bytes_per_bank a) b x s)"
    using assms by (intro member_le_sum) (simp_all add: al_exact_def)
  moreover have "0 \<le> dict_sum (rec_cov (al_bytes_per_bank a) b x) (al_live a)"
    by (rule dict_sum_nonneg) simp
  ultimately show ?thesis by (simp add: held_cov_def)
qed

lemma segs_size_set: "distinct segs \<Longrightarrow> (\<Sum>seg \<in> set segs. seg_size_bytes seg) = segs_size segs"
  by (simp add: segs_size_def sum_set_segs)

lemma segs_cov_set: "distinct segs \<Longrightarrow> (\<Sum>seg \<in> set segs. seg_cov B b x seg) = segs_cov B b x segs"
  by (simp add: segs_cov_def sum_set_segs)

lemma commit_exact_inv:
  assumes inv: "al_inv (\<lambda>_ _. 0) lo hi a"
  shows "al_inv (\<lambda>_ _. 0) lo hi (snd (commit_exact v segs cycle a))"
proof (cases "v = al_pool_version a \<and> validate_exact_bundle a segs = Inr () \<and> (\<exists>fm. reserve_exact a (al_free a) segs = Inr fm)")
  case True
  then obtain fm where fm: "reserve_exact a (al_free a) segs = Inr fm" by blast
  let ?B = "al_bytes_per_bank a" and ?a' = "snd (commit_exact v segs cycle a)"
  note parts = inv [unfolded al_inv_def]
  have geom: "fm_ok (al_free a)" "al_banks a = int (length (al_free a))" using parts by (simp_all add: al_geom_def)
  from reserve_exact_ok [OF fm geom] have ok: "segs_ok (al_banks a) ?B segs" "length fm = length (al_free a)" "fm_ok fm"
    and cov: "\<And>i x. i < length (al_free a) \<Longrightarrow> ext_cov (fm ! i) x + segs_cov ?B (int i) x segs = ext_cov (al_free a ! i) x"
    by auto
  have "segs_cov ?B (int i) x segs \<le> 1" if "i < nat (al_banks a)" for i x
    using cov [of i x] canonical_cov_le_1 [OF fm_ok_nth [OF geom(1)], of i x] ext_cov_nonneg [of "fm ! i" x] that geom(2)
    by (simp del: ext_cov_nonneg)
  then have dist: "distinct segs" using segs_distinct [OF ok(1)] by blast
  have disj: "al_exact_live a \<inter> set segs = {}"
  proof (rule ccontr)
    assume "al_exact_live a \<inter> set segs \<noteq> {}"
    then obtain seg where seg: "seg \<in> al_exact_live a" "seg \<in> set segs" by blast
    let ?j = "nat (seg_bank_id seg)" and ?x = "lstart ?B seg"
    have so: "seg_ok (al_banks a) ?B seg" using ok(1) seg(2) by (simp add: segs_ok_def)
    have j: "?j < length (al_free a)" "int ?j = seg_bank_id seg" using so geom(2) by (auto simp: seg_ok_def)
    have one: "seg_cov ?B (int ?j) ?x seg = 1" using so j(2) by (simp add: seg_cov_def ind_def seg_ok_def)
    have "1 \<le> ext_cov (al_free a ! ?j) ?x"
      using cov [OF j(1), of ?x] segs_cov_member [OF seg(2), of ?B "int ?j" ?x] one ext_cov_nonneg [of "fm ! ?j" ?x]
      by linarith
    moreover have "1 \<le> held_cov a (int ?j) ?x"
      using exact_member_held [of a seg "int ?j" ?x] parts seg(1) one by simp
    moreover have "ext_cov (al_free a ! ?j) ?x + 0 + held_cov a (int ?j) ?x = of_bool (lo \<le> ?x \<and> ?x < hi)"
      using parts j(1) by (intro al_coverD [of "\<lambda>_ _. 0"]) simp_all
    ultimately show False using of_bool_less_eq_one [of "lo \<le> ?x \<and> ?x < hi", where 'a = int]
      by linarith
  qed
  have a': "?a' = a\<lparr>al_free := fm, al_exact_live := al_exact_live a \<union> set segs,
      al_pool_version := al_pool_version a + 1,
      al_peak_allocated := max (al_peak_allocated a) (al_allocated_bytes a + segs_size segs),
      al_allocated_bytes := al_allocated_bytes a + segs_size segs\<rparr>"
    using True fm by (simp add: commit_exact_def)
  have fin: "finite (al_exact_live a)" using parts by (simp add: al_exact_def)
  have held: "held_cov ?a' b x = held_cov a b x + segs_cov ?B b x segs" for b x
    using fin disj dist by (simp add: a' held_cov_def sum.union_disjoint segs_cov_set)
  have "al_cover (\<lambda>_ _. 0) lo hi ?a'"
    unfolding al_cover_def held
  proof (intro allI impI)
    fix i x assume "i < length (al_free ?a')"
    then have i: "i < length (al_free a)" by (simp add: a' ok(2))
    show "ext_cov (al_free ?a' ! i) x + 0 + (held_cov a (int i) x + segs_cov ?B (int i) x segs)
        = of_bool (lo \<le> x \<and> x < hi)"
      using al_coverD [of "\<lambda>_ _. 0" lo hi a i x] parts i cov [OF i, of x] by (simp add: a')
  qed
  moreover have "al_bytes ?a'"
    using parts fin disj dist by (simp add: al_bytes_def a' sum.union_disjoint segs_size_set)
  moreover have "al_exact ?a'" using parts ok(1) by (auto simp: al_exact_def a' segs_ok_def)
  moreover have "al_recs ?a'" using parts by (simp add: al_recs_def a' rec_wf_def)
  moreover have "al_geom lo hi ?a'" using parts ok by (simp add: al_geom_def a')
  ultimately show ?thesis by (simp add: al_inv_def)
next
  case False
  then have "snd (commit_exact v segs cycle a) = a"
    by (auto simp: commit_exact_def split: sum.splits)
  with inv show ?thesis by simp
qed

lemma release_exact_inv:
  assumes inv: "al_inv (\<lambda>_ _. 0) lo hi a"
  shows "al_inv (\<lambda>_ _. 0) lo hi (snd (release_exact v segs cycle a))"
proof (cases "v = al_pool_version a \<and> validate_exact_bundle a segs = Inr () \<and> set segs \<subseteq> al_exact_live a
    \<and> (\<exists>fm. return_exact a (al_free a) segs = Inr fm) \<and> segs_size segs \<le> al_allocated_bytes a")
  case True
  then obtain fm where fm: "return_exact a (al_free a) segs = Inr fm" by blast
  let ?B = "al_bytes_per_bank a" and ?a' = "snd (release_exact v segs cycle a)"
  note parts = inv [unfolded al_inv_def]
  have geom: "fm_ok (al_free a)" "al_banks a = int (length (al_free a))" using parts by (simp_all add: al_geom_def)
  have sub: "set segs \<subseteq> al_exact_live a" and fin: "finite (al_exact_live a)"
    using True parts by (simp_all add: al_exact_def)
  have ok: "segs_ok (al_banks a) ?B segs" using sub parts by (auto simp: segs_ok_def al_exact_def)
  have dist: "distinct segs" by (rule return_exact_distinct [OF fm geom ok])
  have le: "segs_cov ?B b x segs \<le> held_cov a b x" for b x
  proof -
    have "segs_cov ?B b x segs \<le> (\<Sum>s \<in> al_exact_live a. seg_cov ?B b x s)"
      unfolding segs_cov_set [OF dist, symmetric] using fin sub by (intro sum_mono2) simp_all
    moreover have "0 \<le> dict_sum (rec_cov ?B b x) (al_live a)" by (rule dict_sum_nonneg) simp
    ultimately show ?thesis by (simp add: held_cov_def)
  qed
  have cover: "ext_cov (al_free a ! i) x + 0 + held_cov a (int i) x = of_bool (lo \<le> x \<and> x < hi)"
    if "i < length (al_free a)" for i x
    using parts that by (intro al_coverD [of "\<lambda>_ _. 0"]) simp_all
  have "ext_cov (al_free a ! i) x + segs_cov ?B (int i) x segs \<le> 1" if "i < length (al_free a)" for i x
    using cover [OF that, of x] le [of "int i" x] zero_less_one
    by (cases "lo \<le> x \<and> x < hi") simp_all
  with return_exact_ok [OF geom ok] fm have fm': "length fm = length (al_free a)" "fm_ok fm"
    and cov: "\<And>i x. i < length (al_free a) \<Longrightarrow> ext_cov (fm ! i) x = ext_cov (al_free a ! i) x + segs_cov ?B (int i) x segs"
    by auto
  have a': "?a' = a\<lparr>al_free := fm, al_exact_live := al_exact_live a - set segs,
      al_pool_version := al_pool_version a + 1,
      al_allocated_bytes := al_allocated_bytes a - segs_size segs\<rparr>"
    using True fm by (auto simp: release_exact_def list_ex_iff)
  have held: "held_cov ?a' b x = held_cov a b x - segs_cov ?B b x segs" for b x
    using fin sub dist by (simp add: a' held_cov_def sum_diff segs_cov_set)
  have "al_cover (\<lambda>_ _. 0) lo hi ?a'"
    unfolding al_cover_def held
  proof (intro allI impI)
    fix i x assume "i < length (al_free ?a')"
    then have i: "i < length (al_free a)" by (simp add: a' fm'(1))
    show "ext_cov (al_free ?a' ! i) x + 0 + (held_cov a (int i) x - segs_cov ?B (int i) x segs)
        = of_bool (lo \<le> x \<and> x < hi)"
      using cover [OF i, of x] cov [OF i, of x] by (simp add: a')
  qed
  moreover have "al_bytes ?a'"
    using parts fin sub dist segs_size_nonneg [OF ok] by (simp add: al_bytes_def a' sum_diff segs_size_set)
  moreover have "al_exact ?a'" using parts by (auto simp: al_exact_def a')
  moreover have "al_recs ?a'" using parts by (simp add: al_recs_def a' rec_wf_def)
  moreover have "al_geom lo hi ?a'" using parts fm' by (simp add: al_geom_def a')
  ultimately show ?thesis by (simp add: al_inv_def)
next
  case False
  then have "snd (release_exact v segs cycle a) = a"
    by (auto simp: release_exact_def list_ex_iff split: sum.splits)
  with inv show ?thesis by simp
qed


lemma uniform_cover:
  assumes "al_free a = replicate (nat (al_banks a)) (if hi > lo then [(lo, hi - lo)] else [])"
    "al_live a = []" "al_exact_live a = {}"
  shows "al_cover (\<lambda>_ _. 0) lo hi a" and "fm_ok (al_free a)"
  using assms by (auto simp: al_cover_def held_cov_def ind_def fm_ok_def canonical_Cons)

lemma reconfigure_inv:
  assumes inv: "al_inv (\<lambda>_ _. 0) lo hi a"
  shows "if is_ok (reconfigure_free_intervals s e cycle a)
     then al_inv (\<lambda>_ _. 0) s e (snd (reconfigure_free_intervals s e cycle a))
     else al_inv (\<lambda>_ _. 0) lo hi (snd (reconfigure_free_intervals s e cycle a))"
proof (cases "\<exists>a'. reconfigure_free_intervals s e cycle a = (Inr (), a')")
  case True
  then obtain a' where a': "reconfigure_free_intervals s e cycle a = (Inr (), a')" by blast
  then have ok: "0 \<le> s" "s \<le> e" "e \<le> al_bytes_per_bank a" "al_allocated_bytes a = 0"
    and eq: "a' = a\<lparr>al_free := replicate (nat (al_banks a)) (if e > s then [(s, e - s)] else []), al_live := [],
      al_pool_version := al_pool_version a + 1, al_generation := al_generation a + 1, al_counter := 0\<rparr>"
    and ex: "al_exact_live a = {}"
    by (auto simp: reconfigure_free_intervals_def split: if_splits)
  note parts = inv [unfolded al_inv_def]
  have fm: "al_free a' = replicate (nat (al_banks a')) (if e > s then [(s, e - s)] else [])"
    and emp: "al_live a' = []" "al_exact_live a' = {}" using ex by (simp_all add: eq)
  note uniform_cover [OF fm emp]
  moreover have "al_geom s e a'"
    using parts ok uniform_cover(2) [OF fm emp] by (auto simp: al_geom_def eq)
  moreover have "al_bytes a'" using parts ok by (simp add: al_bytes_def eq ex)
  moreover have "al_recs a'" "al_exact a'" by (simp_all add: al_recs_def al_exact_def eq ex)
  ultimately have "al_inv (\<lambda>_ _. 0) s e a'" by (simp add: al_inv_def)
  with a' show ?thesis by simp
next
  case False
  then have "snd (reconfigure_free_intervals s e cycle a) = a" "\<not> is_ok (reconfigure_free_intervals s e cycle a)"
    by (auto simp: reconfigure_free_intervals_def split: if_splits)
  with inv show ?thesis by simp
qed

lemma fresh_inv:
  assumes "al_free a = replicate (nat (al_banks a)) [(0, al_bytes_per_bank a)]" "al_live a = []" "al_exact_live a = {}"
    "al_allocated_bytes a = 0" "al_peak_allocated a = 0" "0 \<le> al_banks a" "0 < al_bytes_per_bank a"
    "al_capacity_bytes a = al_banks a * al_bytes_per_bank a"
  shows "al_inv (\<lambda>_ _. 0) 0 (al_bytes_per_bank a) a"
proof -
  have fm: "al_free a = replicate (nat (al_banks a)) (if al_bytes_per_bank a > 0 then [(0, al_bytes_per_bank a - 0)] else [])"
    using assms(1,7) by simp
  note uniform_cover [OF fm assms(2,3)]
  then show ?thesis using assms by (simp add: al_inv_def al_geom_def al_recs_def al_exact_def al_bytes_def)
qed

section \<open>The allocator as a machine\<close>

datatype alloc_op =
    Commit allocation_plan int
  | CommitExact int "bank_segment list" int
  | ReleaseExact int "bank_segment list" int
  | Reconfigure int int int
  | Pin allocation_handle string
  | Unpin allocation_handle string int
  | RequestRelease allocation_handle memory_owner int
  | Reset

fun alloc_exec :: "alloc_op \<Rightarrow> allocator \<Rightarrow> allocator" where
  "alloc_exec (Commit plan cycle) a = snd (commit plan cycle a)"
| "alloc_exec (CommitExact v segs cycle) a = snd (commit_exact v segs cycle a)"
| "alloc_exec (ReleaseExact v segs cycle) a = snd (release_exact v segs cycle a)"
| "alloc_exec (Reconfigure s e cycle) a = snd (reconfigure_free_intervals s e cycle a)"
| "alloc_exec (Pin h c) a = snd (pin h c a)"
| "alloc_exec (Unpin h c cycle) a = snd (unpin h c cycle a)"
| "alloc_exec (RequestRelease h owner cycle) a = snd (request_release h owner cycle a)"
| "alloc_exec Reset a = allocator_reset a"

text \<open>
  The callers' discipline concerns commits alone: a plan is either stale, which \<open>commit\<close>
  rejects, or still what planning gives, for requests with distinct buffer ids. That plans
  taken from \<open>plan_bundle\<close> stay in this class is \<open>plan_stays_valid\<close> below.
\<close>

fun alloc_enabled :: "alloc_op \<Rightarrow> allocator \<Rightarrow> bool" where
  "alloc_enabled (Commit plan cycle) a \<longleftrightarrow> pl_pool_version plan \<noteq> al_pool_version a \<or> plan_fits a plan"
| "alloc_enabled _ a \<longleftrightarrow> True"

definition alloc_ok :: "allocator \<Rightarrow> bool" where
  "alloc_ok a \<longleftrightarrow> 0 < al_bytes_per_bank a \<and> 0 < al_banks a \<and> (\<exists>lo hi. al_inv (\<lambda>_ _. 0) lo hi a)"

text \<open>Geometry never changes.\<close>

lemma commit_requests_geom:
  "al_banks (snd (commit_requests pl cycle reqs a)) = al_banks a
   \<and> al_bytes_per_bank (snd (commit_requests pl cycle reqs a)) = al_bytes_per_bank a"
  by (induction reqs arbitrary: a) (auto split: option.splits list.splits)

lemma do_release_geom [simp]:
  "al_banks (snd (do_release i r cycle a)) = al_banks a"
  "al_bytes_per_bank (snd (do_release i r cycle a)) = al_bytes_per_bank a"
  by (simp_all add: do_release_def split: prod.splits sum.splits)

lemma set_record_geom [simp]:
  "al_banks (set_record i r a) = al_banks a"
  "al_bytes_per_bank (set_record i r a) = al_bytes_per_bank a"
  by (simp_all add: set_record_def)

lemma commit_geom:
  "al_banks (snd (commit plan cycle a)) = al_banks a
   \<and> al_bytes_per_bank (snd (commit plan cycle a)) = al_bytes_per_bank a"
proof -
  have "al_banks a' = al_banks a \<and> al_bytes_per_bank a' = al_bytes_per_bank a"
    if "commit_requests (pl_placements plan) cycle (pl_requests plan) (a\<lparr>al_free := fm\<rparr>) = (v, a')" for fm v a'
    using commit_requests_geom [of "pl_placements plan" cycle "pl_requests plan" "a\<lparr>al_free := fm\<rparr>"] that by simp
  then show ?thesis
    by (auto simp: commit_def and_then_def split: sum.splits prod.splits)
qed

lemma alloc_geom:
  "al_banks (alloc_exec x a) = al_banks a \<and> al_bytes_per_bank (alloc_exec x a) = al_bytes_per_bank a"
  by (cases x)
     (auto simp: commit_geom commit_exact_def release_exact_def reconfigure_free_intervals_def pin_def unpin_def
        request_release_def allocator_reset_def Let_def split: sum.splits option.splits)

definition full_ok :: "allocator \<Rightarrow> bool" where
  "full_ok a \<longleftrightarrow> 0 < al_bytes_per_bank a \<and> 0 < al_banks a \<and> al_inv (\<lambda>_ _. 0) 0 (al_bytes_per_bank a) a"

lemma full_imp_ok:
  assumes "full_ok a"
  shows "alloc_ok a"
  using assms unfolding full_ok_def alloc_ok_def
  by (intro conjI exI [of _ 0] exI [of _ "al_bytes_per_bank a"]) simp_all

lemma alloc_reset_full:
  assumes "alloc_ok a"
  shows "full_ok (allocator_reset a)"
proof -
  have "al_inv (\<lambda>_ _. 0) 0 (al_bytes_per_bank (allocator_reset a)) (allocator_reset a)"
    using assms by (intro fresh_inv) (auto simp: alloc_ok_def allocator_reset_def al_inv_def al_geom_def)
  with assms show ?thesis by (simp add: full_ok_def alloc_ok_def allocator_reset_def)
qed

lemma window_kept:
  assumes inv: "al_inv (\<lambda>_ _. 0) lo hi a" and en: "alloc_enabled x a"
    and x: "x \<noteq> Reset" "\<forall>s e c. x \<noteq> Reconfigure s e c"
  shows "al_inv (\<lambda>_ _. 0) lo hi (alloc_exec x a)"
proof (cases x)
  case (Commit plan cycle)
  show ?thesis
  proof (cases "pl_pool_version plan = al_pool_version a")
    case True
    with en Commit have "plan_fits a plan" by simp
    from commit_ok [OF inv this, of cycle] obtain hs a' where "commit plan cycle a = (Inr hs, a')"
      "al_inv (\<lambda>_ _. 0) lo hi a'" by blast
    then show ?thesis by (simp add: Commit)
  qed (use inv in \<open>simp add: Commit commit_def\<close>)
qed (use inv x in \<open>simp_all add: commit_exact_inv release_exact_inv pin_inv unpin_inv request_release_inv\<close>)

lemma alloc_exec_inv:
  assumes ok: "alloc_ok a" and en: "alloc_enabled x a"
  shows "alloc_ok (alloc_exec x a)"
proof -
  obtain lo hi where inv: "al_inv (\<lambda>_ _. 0) lo hi a" using ok by (auto simp: alloc_ok_def)
  have "\<exists>lo hi. al_inv (\<lambda>_ _. 0) lo hi (alloc_exec x a)"
  proof (cases x)
    case Reset
    then show ?thesis using full_imp_ok [OF alloc_reset_full [OF ok]] by (simp add: alloc_ok_def)
  next
    case (Reconfigure s e c)
    then show ?thesis using reconfigure_inv [OF inv, of s e c] by (auto split: if_splits)
  qed (rule exI, rule exI, rule window_kept [OF inv en]; simp)+
  then show ?thesis using ok alloc_geom [of x a] by (simp add: alloc_ok_def)
qed

interpretation alloc: guarded_machine alloc_enabled alloc_exec alloc_ok
  by unfold_locales (rule alloc_exec_inv)

lemma full_new: "allocator_new space cap n tile = Inr a \<Longrightarrow> full_ok a"
proof -
  assume a: "allocator_new space cap n tile = Inr a"
  then have n: "0 < cap" "1 \<le> n" "cap mod n = 0" by (auto simp: allocator_new_def split: if_splits)
  then have pos: "0 < cap div n" and eq: "n * (cap div n) = cap"
    by (auto simp: pos_imp_zdiv_pos_iff zdvd_imp_le mod_eq_0_iff_dvd)
  have "al_inv (\<lambda>_ _. 0) 0 (al_bytes_per_bank a) a"
    using a n pos eq by (intro fresh_inv) (auto simp: allocator_new_def split: if_splits)
  then show "full_ok a" using a n pos by (auto simp: full_ok_def allocator_new_def split: if_splits)
qed

lemma alloc_new_ok: "allocator_new space cap n tile = Inr a \<Longrightarrow> alloc_ok a"
  by (rule full_imp_ok) (rule full_new)

section \<open>Addresses\<close>

definition segs_addrs :: "bank_segment list \<Rightarrow> int set" where
  "segs_addrs segs = (\<Union>seg \<in> set segs. {seg_address seg ..< seg_address seg + seg_size_bytes seg})"

definition free_addrs :: "allocator \<Rightarrow> int set" where
  "free_addrs a = (\<Union>b \<in> {..<length (al_free a)}. \<Union>(s, n) \<in> set (al_free a ! b).
     {int b * al_bytes_per_bank a + s ..< int b * al_bytes_per_bank a + s + n})"

definition exact_addrs :: "allocator \<Rightarrow> int set" where
  "exact_addrs a = (\<Union>seg \<in> al_exact_live a. {seg_address seg ..< seg_address seg + seg_size_bytes seg})"

text \<open>An address lies in a well-formed segment iff its bank and bank offset do.\<close>

lemma seg_addr_cov:
  assumes "seg_ok n B seg" "0 < B"
  shows "seg_address seg \<le> y \<and> y < seg_address seg + seg_size_bytes seg \<longleftrightarrow> seg_cov B (y div B) (y mod B) seg = 1"
proof -
  let ?b = "seg_bank_id seg" and ?l = "lstart B seg"
  have ad: "seg_address seg = ?b * B + ?l" by (simp add: lstart_def)
  have l: "0 \<le> ?l" "?l + seg_size_bytes seg \<le> B" using assms by (auto simp: seg_ok_def)
  show ?thesis
  proof
    assume y: "seg_address seg \<le> y \<and> y < seg_address seg + seg_size_bytes seg"
    then have div: "y div B = ?b"
      using l ad by (intro int_div_pos_eq [of _ _ _ "y - ?b * B"]) auto
    then have "y mod B = y - ?b * B" by (simp add: minus_div_mult_eq_mod [symmetric])
    with div y ad show "seg_cov B (y div B) (y mod B) seg = 1" by (simp add: seg_cov_def ind_def)
  next
    assume "seg_cov B (y div B) (y mod B) seg = 1"
    then have "y div B = ?b" "?l \<le> y mod B" "y mod B < ?l + seg_size_bytes seg"
      by (auto simp: seg_cov_def ind_def of_bool_def split: if_splits)
    moreover have "y = y div B * B + y mod B" by simp
    ultimately show "seg_address seg \<le> y \<and> y < seg_address seg + seg_size_bytes seg"
      using ad by (metis add.commute add_le_cancel_left add_less_cancel_left group_cancel.add2)
  qed
qed

lemma segs_addrs_cov:
  assumes "segs_ok n B segs" "0 < B" "y \<in> segs_addrs segs"
  shows "1 \<le> segs_cov B (y div B) (y mod B) segs" "0 \<le> y div B \<and> y div B < n"
proof -
  from assms(3) obtain seg where seg: "seg \<in> set segs" "seg_address seg \<le> y" "y < seg_address seg + seg_size_bytes seg"
    by (auto simp: segs_addrs_def)
  have ok: "seg_ok n B seg" using assms(1) seg(1) by (simp add: segs_ok_def)
  have one: "seg_cov B (y div B) (y mod B) seg = 1" using seg_addr_cov [OF ok assms(2)] seg by blast
  then show "1 \<le> segs_cov B (y div B) (y mod B) segs" using segs_cov_member [OF seg(1), of B "y div B" "y mod B"] by simp
  from one have "seg_bank_id seg = y div B" by (simp add: seg_cov_def split: if_splits)
  with ok show "0 \<le> y div B \<and> y div B < n" by (simp add: seg_ok_def)
qed

lemma free_addrs_cov:
  assumes "al_inv (\<lambda>_ _. 0) lo hi a" "0 < al_bytes_per_bank a" "y \<in> free_addrs a"
  shows "1 \<le> ext_cov (al_free a ! nat (y div al_bytes_per_bank a)) (y mod al_bytes_per_bank a)"
    "0 \<le> y div al_bytes_per_bank a" "y div al_bytes_per_bank a < al_banks a"
proof -
  let ?B = "al_bytes_per_bank a"
  note parts = assms(1) [unfolded al_inv_def]
  from assms(3) obtain b s n where b: "b < length (al_free a)" "(s, n) \<in> set (al_free a ! b)"
    "int b * ?B + s \<le> y" "y < int b * ?B + s + n" by (auto simp: free_addrs_def)
  have pos: "0 < n" using b(3,4) by linarith
  have le: "ext_cov (al_free a ! b) x \<le> of_bool (lo \<le> x \<and> x < hi)" for x
    using al_coverD [of "\<lambda>_ _. 0" lo hi a b x] parts b(1) held_cov_nonneg [of a "int b" x] by simp
  have w: "lo \<le> s \<and> s + n \<le> hi" using ext_in_window [of "al_free a ! b" lo hi "(s, n)"] le b(2) pos by simp
  have bnd: "0 \<le> lo" "hi \<le> ?B" using parts by (simp_all add: al_geom_def)
  have div: "y div ?B = int b" using b w bnd assms(2) by (intro int_div_pos_eq [of _ _ _ "y - int b * ?B"]) auto
  have md: "y mod ?B = y - int b * ?B" using div by (simp add: minus_div_mult_eq_mod [symmetric])
  have "1 \<le> ind s n (y mod ?B)" using b md by (simp add: ind_def)
  with ext_cov_member [OF b(2), of "y mod ?B"] show "1 \<le> ext_cov (al_free a ! nat (y div ?B)) (y mod ?B)"
    by (simp add: div)
  show "0 \<le> y div ?B" "y div ?B < al_banks a" using div b(1) parts by (simp_all add: al_geom_def)
qed

end
