(* ===== verification/Allocator_Props.thy ===== *)
theory Allocator_Props
  imports Allocator_Safety
begin

text \<open>
  What the allocator promises its clients: exclusive bytes, exact accounting, plans that
  either go stale or stay valid, complete first fit, handles that resolve to exactly the
  bytes asked for, deferred release of pinned allocations, and stale handles that stay
  stale. The first two are stated for clients that commit only plans made since the last reset;
  the version reset of \<open>reset\<close> is shown to break the plan check for any other.
\<close>

section \<open>Exclusive ownership of bytes\<close>

definition rec_addrs :: "allocation_record \<Rightarrow> int set" where
  "rec_addrs r = (if rc_state r = RELEASED then {} else segs_addrs (hd_bank_segments (rc_handle r)))"






lemma alloc_ok_parts:
  assumes "alloc_ok a"
  shows "al_recs a" "al_exact a" "al_bytes a" "0 < al_bytes_per_bank a" "keys_distinct (al_live a)"
  using assms by (auto simp: alloc_ok_def al_inv_def al_recs_def)



text \<open>A closed run used by the witnesses: two buffers, one pinned, released and unpinned.\<close>

definition demo_pool :: allocator where
  "demo_pool = projr (allocator_new ''l2'' 64 2 None)"

definition demo_req :: "string \<Rightarrow> int \<Rightarrow> int \<Rightarrow> allocation_request" where
  "demo_req name sz al = \<lparr>rq_memory_space = ''l2'', rq_buffer_id = name,
     rq_owner = ContextBufferOwner ''ctx'' 0 name, rq_size_bytes = sz, rq_alignment = al, rq_role = ''''\<rparr>"

definition demo_plan :: allocation_plan where
  "demo_plan = projr (plan_bundle demo_pool [demo_req ''q'' 20 4, demo_req ''k'' 24 8])"

definition demo_id :: "int \<Rightarrow> allocation_id" where
  "demo_id c = (''l2'', None, 0, c)"

definition demo_after :: allocator where
  "demo_after = run_ops alloc_exec [Commit demo_plan 1] demo_pool"

definition demo_rec :: "int \<Rightarrow> allocation_record" where
  "demo_rec c = the (dict_get (al_live demo_after) (demo_id c))"

lemma demo_new: "allocator_new ''l2'' 64 2 None = Inr demo_pool"
  by code_simp

lemma demo_legal: "legal_run alloc_enabled alloc_exec [Commit demo_plan 1] demo_pool"
  by code_simp

lemma demo_ok: "alloc_ok demo_after"
  unfolding demo_after_def by (rule alloc.run_inv [OF alloc_new_ok [OF demo_new] demo_legal])


section \<open>Byte accounting\<close>

lemma sum_seg_cov:
  assumes "seg_ok (int n) B seg"
  shows "(\<Sum>b < n. \<Sum>x \<in> {0..<B}. seg_cov B (int b) x seg) = seg_size_bytes seg"
proof -
  obtain j where j: "j < n" "seg_bank_id seg = int j"
    using assms zero_le_imp_eq_int [of "seg_bank_id seg"] by (auto simp: seg_ok_def)
  have "(\<Sum>x \<in> {0..<B}. seg_cov B (int b) x seg) = (if b = j then seg_size_bytes seg else 0)" for b
    using assms j by (auto simp: seg_cov_def seg_ok_def sum_ind)
  then show ?thesis using j(1) by simp
qed

lemma sum_segs_cov:
  "segs_ok (int n) B segs \<Longrightarrow> (\<Sum>b < n. \<Sum>x \<in> {0..<B}. segs_cov B (int b) x segs) = segs_size segs"
  by (induction segs) (simp_all add: segs_ok_def sum.distrib sum_seg_cov)

lemma sum_rec_cov:
  assumes "\<forall>p \<in> set d. segs_ok (int n) B (hd_bank_segments (rc_handle (snd p)))
      \<and> hd_size_bytes (rc_handle (snd p)) = segs_size (hd_bank_segments (rc_handle (snd p)))"
  shows "(\<Sum>b < n. \<Sum>x \<in> {0..<B}. dict_sum (rec_cov B (int b) x) d) = dict_sum rec_bytes d"
  using assms by (induction d) (simp_all add: sum.distrib rec_cov_def rec_bytes_def sum_segs_cov)

lemma sum_exact_cov:
  assumes "finite E" "\<forall>seg \<in> E. seg_ok (int n) B seg"
  shows "(\<Sum>b < n. \<Sum>x \<in> {0..<B}. \<Sum>seg \<in> E. seg_cov B (int b) x seg) = (\<Sum>seg \<in> E. seg_size_bytes seg)"
  using assms by (induction E) (simp_all add: sum.distrib sum_seg_cov)

lemma free_bytes_sum:
  assumes "al_inv (\<lambda>_ _. 0) lo hi a"
  shows "snapshot_free_bytes a = (\<Sum>b < length (al_free a). \<Sum>x \<in> {0..<al_bytes_per_bank a}. ext_cov (al_free a ! b) x)"
proof -
  note parts = assms [unfolded al_inv_def]
  let ?B = "al_bytes_per_bank a"
  have len: "nat (al_banks a) = length (al_free a)" using parts by (simp add: al_geom_def)
  have tot: "(\<Sum>x \<in> {0..<?B}. ext_cov (al_free a ! b) x) = ext_total (al_free a ! b)" if "b < length (al_free a)" for b
  proof (rule ext_cov_total, rule ballI)
    fix p assume p: "p \<in> set (al_free a ! b)"
    have pos: "0 < snd p" using p that parts fm_pos_nth [OF fm_ok_pos] by (auto simp: al_geom_def)
    have "ext_cov (al_free a ! b) x \<le> of_bool (lo \<le> x \<and> x < hi)" for x
      using al_coverD [of "\<lambda>_ _. 0" lo hi a b x] parts that held_cov_nonneg [of a "int b" x] by simp
    then have "lo \<le> fst p \<and> fst p + snd p \<le> hi" using ext_in_window p pos by blast
    with pos parts show "0 < snd p \<and> 0 \<le> fst p \<and> fst p + snd p \<le> ?B" by (auto simp: al_geom_def)
  qed
  show ?thesis
    unfolding snapshot_free_bytes_def bank_snapshots_def len
    by (simp add: comp_def interv_sum_list_conv_sum_set_nat atLeast0LessThan tot)
qed

lemma held_bytes_sum:
  assumes "al_inv P lo hi a"
  shows "(\<Sum>b < length (al_free a). \<Sum>x \<in> {0..<al_bytes_per_bank a}. held_cov a (int b) x) = al_allocated_bytes a"
proof -
  note parts = assms [unfolded al_inv_def]
  have len: "al_banks a = int (length (al_free a))" using parts by (simp add: al_geom_def)
  have recs: "\<forall>p \<in> set (al_live a). segs_ok (int (length (al_free a))) (al_bytes_per_bank a) (hd_bank_segments (rc_handle (snd p)))
      \<and> hd_size_bytes (rc_handle (snd p)) = segs_size (hd_bank_segments (rc_handle (snd p)))"
    using parts len rec_wfD(1,2) unfolding al_recs_def by fastforce
  have ex: "finite (al_exact_live a)"
    "\<forall>seg \<in> al_exact_live a. seg_ok (int (length (al_free a))) (al_bytes_per_bank a) seg"
    using parts len by (simp_all add: al_exact_def)
  show ?thesis
    using parts by (simp add: held_cov_def sum.distrib sum_rec_cov [OF recs] sum_exact_cov [OF ex] al_bytes_def)
qed

section \<open>Plans: stale or valid\<close>

text \<open>Planning reads the free map, the version and the bank size, nothing else.\<close>

lemma plan_one_cong: "al_bytes_per_bank a' = al_bytes_per_bank a \<Longrightarrow> plan_one a' fm req = plan_one a fm req"
  by (simp add: plan_one_def)

lemma plan_requests_cong:
  "al_bytes_per_bank a' = al_bytes_per_bank a \<Longrightarrow> plan_requests a' fm reqs pl = plan_requests a fm reqs pl"
  by (induction reqs arbitrary: fm pl) (simp_all add: plan_one_cong [of a' a] split: prod.splits option.splits)

lemma plan_fits_cong:
  assumes "al_bytes_per_bank a' = al_bytes_per_bank a" "al_free a' = al_free a" "al_pool_version a' = al_pool_version a"
  shows "plan_fits a' plan = plan_fits a plan"
  using assms by (simp add: plan_fits_def plan_bundle_Inr plan_requests_cong [of a' a])

lemma pin_frame [simp]:
  "al_free (snd (pin h c a)) = al_free a" "al_pool_version (snd (pin h c a)) = al_pool_version a"
  "al_generation (snd (pin h c a)) = al_generation a"
  by (simp_all add: pin_def set_record_def split: option.splits)

lemma unpin_version:
  assumes "al_inv (\<lambda>_ _. 0) lo hi a"
  shows "al_generation (snd (unpin h c cycle a)) = al_generation a \<and>
    (al_pool_version a < al_pool_version (snd (unpin h c cycle a)) \<or>
     al_pool_version (snd (unpin h c cycle a)) = al_pool_version a \<and> al_free (snd (unpin h c cycle a)) = al_free a)"
proof (cases "\<exists>r. dict_get (al_live a) (hd_allocation_id h) = Some r \<and> hd_generation (rc_handle r) = hd_generation h \<and> c \<in> rc_pins r")
  case True
  then obtain r where r: "dict_get (al_live a) (hd_allocation_id h) = Some r"
    "hd_generation (rc_handle r) = hd_generation h" "c \<in> rc_pins r" by blast
  from unpin_cases [OF assms r, of cycle] show ?thesis by fastforce
next
  case False
  then have "snd (unpin h c cycle a) = a" by (auto simp: unpin_def split: option.splits)
  then show ?thesis by simp
qed

lemma request_release_version:
  assumes "al_inv (\<lambda>_ _. 0) lo hi a"
  shows "al_generation (snd (request_release h ow cycle a)) = al_generation a \<and>
    (al_pool_version a < al_pool_version (snd (request_release h ow cycle a)) \<or>
     al_pool_version (snd (request_release h ow cycle a)) = al_pool_version a
     \<and> al_free (snd (request_release h ow cycle a)) = al_free a)"
proof (cases "\<exists>r. dict_get (al_live a) (hd_allocation_id h) = Some r \<and> hd_generation (rc_handle r) = hd_generation h
    \<and> rc_state r \<noteq> RELEASED \<and> hd_owner (rc_handle r) = ow")
  case True
  then obtain r where r: "dict_get (al_live a) (hd_allocation_id h) = Some r"
    "hd_generation (rc_handle r) = hd_generation h" "rc_state r \<noteq> RELEASED" "hd_owner (rc_handle r) = ow" by blast
  from request_release_cases [OF assms r, of cycle] show ?thesis by fastforce
next
  case False
  then have "snd (request_release h ow cycle a) = a" by (auto simp: request_release_def split: option.splits)
  then show ?thesis by simp
qed

lemma alloc_version_step:
  assumes ok: "alloc_ok a" and en: "alloc_enabled x a" and x: "x \<noteq> Reset"
  shows "al_generation a \<le> al_generation (alloc_exec x a) \<and>
    (al_pool_version a < al_pool_version (alloc_exec x a) \<or>
     al_pool_version (alloc_exec x a) = al_pool_version a \<and> al_free (alloc_exec x a) = al_free a)"
proof -
  obtain lo hi where inv: "al_inv (\<lambda>_ _. 0) lo hi a" using ok by (auto simp: alloc_ok_def)
  show ?thesis
  proof (cases x)
    case (Commit plan cycle)
    show ?thesis
    proof (cases "pl_pool_version plan = al_pool_version a")
      case True
      with en Commit have "plan_fits a plan" by simp
      from commit_ok [OF inv this, of cycle] Commit show ?thesis by fastforce
    qed (simp add: Commit commit_def)
  next
    case (Unpin h c cycle)
    with unpin_version [OF inv, of h c cycle] show ?thesis by simp
  next
    case (RequestRelease h ow cycle)
    with request_release_version [OF inv, of h ow cycle] show ?thesis by simp
  qed (use x in \<open>auto simp: commit_exact_def release_exact_def reconfigure_free_intervals_def split: sum.splits\<close>)
qed

lemma alloc_version_run:
  assumes "alloc_ok a" "legal_run alloc_enabled alloc_exec ops a" "Reset \<notin> set ops"
  shows "al_pool_version a < al_pool_version (run_ops alloc_exec ops a) \<or>
     al_pool_version (run_ops alloc_exec ops a) = al_pool_version a \<and> al_free (run_ops alloc_exec ops a) = al_free a"
  using assms
proof (induction ops arbitrary: a)
  case (Cons x ops)
  have "alloc_ok (alloc_exec x a)" using Cons.prems by (intro alloc_exec_inv) simp_all
  with Cons.IH [of "alloc_exec x a"] alloc_version_step [of a x] Cons.prems show ?case by fastforce
qed simp

lemma alloc_geom_run: "al_bytes_per_bank (run_ops alloc_exec ops a) = al_bytes_per_bank a"
  by (induction ops arbitrary: a) (simp_all add: alloc_geom)

text \<open>C17. The version check is sufficient between resets: a plan made by \<open>plan_bundle\<close> in a
  reachable state, for requests with distinct buffer ids, is after any further legal
  operations without a reset either stale, and \<open>commit\<close> then raises without effect, or
  it is committed in full: one live handle per request, with the planned segments, the
  requested size, owner and alignment, an aligned bank-local start, and all earlier records kept.
\<close>

theorem plan_stays_valid:
  assumes "alloc_ok a" and "plan_bundle a reqs = Inr plan" and "distinct (map rq_buffer_id reqs)"
    and "legal_run alloc_enabled alloc_exec ops a" and "Reset \<notin> set ops" and "a1 = run_ops alloc_exec ops a"
  shows "commit plan cycle a1 = (Inl (MemoryInvariantError ''stale allocation plan''), a1) \<or>
    (\<exists>hs a2. commit plan cycle a1 = (Inr hs, a2) \<and> alloc_ok a2
       \<and> list_all2 (handle_for a1 (pl_placements plan)) reqs hs
       \<and> (\<forall>h \<in> set hs. assert_live h None a2 = Inr ()
            \<and> segs_size (hd_bank_segments h) = hd_size_bytes h
            \<and> hd_alignment h dvd local_start a2 (hd (hd_bank_segments h)))
       \<and> (\<forall>i r. dict_get (al_live a1) i = Some r \<longrightarrow> dict_get (al_live a2) i = Some r))"
proof (cases "pl_pool_version plan = al_pool_version a1")
  case False
  then show ?thesis by (simp add: commit_def)
next
  case True
  have v: "pl_pool_version plan = al_pool_version a" and rq: "pl_requests plan = reqs"
    using assms(2) by (simp_all add: plan_bundle_Inr)
  have ok1: "alloc_ok a1" unfolding assms(6) by (rule alloc.run_inv [OF assms(1,4)])
  obtain lo hi where inv: "al_inv (\<lambda>_ _. 0) lo hi a1" using ok1 by (auto simp: alloc_ok_def)
  have "al_free a1 = al_free a" "al_pool_version a1 = al_pool_version a"
    using alloc_version_run [OF assms(1,4,5)] True v assms(6) by auto
  then have fits: "plan_fits a1 plan"
    using assms(2,3,6) rq plan_fits_cong [of a1 a plan] by (simp add: alloc_geom_run plan_fits_def)
  from commit_ok [OF inv fits, of cycle] obtain hs a2 where c: "commit plan cycle a1 = (Inr hs, a2)"
    "al_inv (\<lambda>_ _. 0) lo hi a2" "list_all2 (handle_for a1 (pl_placements plan)) (pl_requests plan) hs"
    "\<forall>h \<in> set hs. dict_get (al_live a2) (hd_allocation_id h) = Some (new_record h)"
    "\<forall>i r. dict_get (al_live a1) i = Some r \<longrightarrow> dict_get (al_live a2) i = Some r" by blast
  have ok2: "alloc_ok a2" using alloc_exec_inv [OF ok1, of "Commit plan cycle"] fits c(1) by simp
  have B: "al_bytes_per_bank a2 = al_bytes_per_bank a1" using commit_geom [of plan cycle a1] c(1) by simp
  have pr: "\<forall>req \<in> set reqs. placed (int (length (al_free a1))) (al_bytes_per_bank a1) (pl_placements plan) req"
  proof -
    have "plan_requests a1 (al_free a1) reqs [] = Inr (pl_placements plan)" "\<forall>req \<in> set reqs. req_ok req"
      using fits rq by (auto simp: plan_fits_def plan_bundle_Inr)
    moreover have "fm_ok (al_free a1)" using inv by (simp add: al_inv_def al_geom_def)
    ultimately show ?thesis using plan_commit_frame [of a1 "al_free a1" reqs "[]"] assms(3) by blast
  qed
  have "assert_live h None a2 = Inr () \<and> segs_size (hd_bank_segments h) = hd_size_bytes h
      \<and> hd_alignment h dvd local_start a2 (hd (hd_bank_segments h))" if h: "h \<in> set hs" for h
  proof -
    obtain req where "req \<in> set reqs" "handle_for a1 (pl_placements plan) req h"
      using c(3) h rq by (metis in_set_conv_nth list_all2_conv_all_nth)
    with pr have "segs_size (hd_bank_segments h) = hd_size_bytes h"
      "hd_alignment h dvd lstart (al_bytes_per_bank a1) (hd (hd_bank_segments h))"
      by (auto simp: handle_for_def placed_def)
    moreover have "assert_live h None a2 = Inr ()"
      using c(4) h by (simp add: assert_live_def new_record_def)
    ultimately show ?thesis by (simp add: B)
  qed
  with c ok2 rq show ?thesis by blast
qed

theorem plan_stays_valid_witness:
  "alloc_ok demo_after \<and> (\<exists>hs a2. commit (projr (plan_bundle demo_after [demo_req ''v'' 8 2])) 9 demo_after = (Inr hs, a2) \<and> alloc_ok a2)"
proof -
  let ?plan = "projr (plan_bundle demo_after [demo_req ''v'' 8 2])"
  note ok = demo_ok
  have "plan_bundle demo_after [demo_req ''v'' 8 2] = Inr ?plan" by code_simp
  from plan_stays_valid [OF ok this, of "[]" demo_after 9]
  have "commit ?plan 9 demo_after = (Inl (MemoryInvariantError ''stale allocation plan''), demo_after)
      \<or> (\<exists>hs a2. commit ?plan 9 demo_after = (Inr hs, a2) \<and> alloc_ok a2)" by auto
  moreover have "pl_pool_version ?plan = al_pool_version demo_after" by code_simp
  then have "commit ?plan 9 demo_after \<noteq> (Inl (MemoryInvariantError ''stale allocation plan''), demo_after)"
  proof -
    have "is_ok (commit ?plan 9 demo_after)" by code_simp
    then show ?thesis by auto
  qed
  ultimately show ?thesis using ok by blast
qed

section \<open>A client of the pool\<close>

text \<open>
  The callers of the allocator get their plans from \<open>plan_bundle\<close>. A client state is a pool with
  the plans made on it since its last reset, and the window of every bank that the last
  accepted reconfiguration (or reset) left to first fit. The only conditions on a run are that
  the requests of one plan have distinct buffer ids and that a committed plan is one of those made
  since the last reset; whether it still fits is not assumed.
\<close>

record pool_client =
  pc_pool :: allocator
  pc_plans :: "allocation_plan list"
  pc_window :: "int \<times> int"

datatype client_op = MakePlan "allocation_request list" | OnPool alloc_op

fun window_after :: "alloc_op \<Rightarrow> allocator \<Rightarrow> int \<times> int \<Rightarrow> int \<times> int" where
  "window_after Reset a w = (0, al_bytes_per_bank a)"
| "window_after (Reconfigure s e cycle) a w = (if is_ok (reconfigure_free_intervals s e cycle a) then (s, e) else w)"
| "window_after _ a w = w"

fun client_exec :: "client_op \<Rightarrow> pool_client \<Rightarrow> pool_client" where
  "client_exec (MakePlan reqs) c =
     (case plan_bundle (pc_pool c) reqs of Inl e \<Rightarrow> c | Inr plan \<Rightarrow> c\<lparr>pc_plans := plan # pc_plans c\<rparr>)"
| "client_exec (OnPool x) c =
     \<lparr>pc_pool = alloc_exec x (pc_pool c), pc_plans = (case x of Reset \<Rightarrow> [] | _ \<Rightarrow> pc_plans c),
      pc_window = window_after x (pc_pool c) (pc_window c)\<rparr>"

fun client_enabled :: "client_op \<Rightarrow> pool_client \<Rightarrow> bool" where
  "client_enabled (MakePlan reqs) c \<longleftrightarrow> distinct (map rq_buffer_id reqs)"
| "client_enabled (OnPool (Commit plan cycle)) c \<longleftrightarrow> plan \<in> set (pc_plans c)"
| "client_enabled (OnPool _) c \<longleftrightarrow> True"

definition client_new :: "allocator \<Rightarrow> pool_client" where
  "client_new a = \<lparr>pc_pool = a, pc_plans = [], pc_window = (0, al_bytes_per_bank a)\<rparr>"

definition plan_current :: "allocator \<Rightarrow> allocation_plan \<Rightarrow> bool" where
  "plan_current a plan \<longleftrightarrow> pl_pool_version plan \<le> al_pool_version a
     \<and> (pl_pool_version plan = al_pool_version a \<longrightarrow> plan_fits a plan)"

definition client_ok :: "pool_client \<Rightarrow> bool" where
  "client_ok c \<longleftrightarrow> 0 < al_bytes_per_bank (pc_pool c) \<and> 0 < al_banks (pc_pool c)
     \<and> al_inv (\<lambda>_ _. 0) (fst (pc_window c)) (snd (pc_window c)) (pc_pool c)
     \<and> (\<forall>plan \<in> set (pc_plans c). plan_current (pc_pool c) plan)"

lemma client_alloc_ok: "client_ok c \<Longrightarrow> alloc_ok (pc_pool c)"
  unfolding client_ok_def alloc_ok_def by blast

lemma plan_current_step:
  assumes "alloc_ok a" "alloc_enabled x a" "x \<noteq> Reset" "plan_current a plan"
  shows "plan_current (alloc_exec x a) plan"
proof -
  have "plan_fits (alloc_exec x a) plan = plan_fits a plan"
    if "al_pool_version (alloc_exec x a) = al_pool_version a" "al_free (alloc_exec x a) = al_free a"
    using that by (intro plan_fits_cong) (simp_all add: alloc_geom)
  with alloc_version_step [OF assms(1-3)] assms(4) show ?thesis by (auto simp: plan_current_def)
qed

lemma client_exec_ok:
  assumes ok: "client_ok c" and en: "client_enabled x c"
  shows "client_ok (client_exec x c)"
proof (cases x)
  case (MakePlan reqs)
  have "plan_current (pc_pool c) plan" if "plan_bundle (pc_pool c) reqs = Inr plan" for plan
    using that en MakePlan by (auto simp: plan_current_def plan_fits_def plan_bundle_Inr)
  with ok MakePlan show ?thesis by (simp add: client_ok_def split: sum.splits)
next
  case (OnPool y)
  let ?a = "pc_pool c" and ?w = "window_after y (pc_pool c) (pc_window c)"
  have a: "alloc_ok ?a" by (rule client_alloc_ok [OF ok])
  have inv: "al_inv (\<lambda>_ _. 0) (fst (pc_window c)) (snd (pc_window c)) ?a" using ok by (simp add: client_ok_def)
  have y: "alloc_enabled y ?a"
    using ok en OnPool by (cases y) (auto simp: client_ok_def plan_current_def)
  have "al_inv (\<lambda>_ _. 0) (fst ?w) (snd ?w) (alloc_exec y ?a)"
  proof (cases y)
    case Reset
    with alloc_reset_full [OF a] show ?thesis by (simp add: full_ok_def) (simp add: allocator_reset_def)
  next
    case (Reconfigure s e cycle)
    with reconfigure_inv [OF inv, of s e cycle] show ?thesis by (simp split: if_splits)
  qed (insert window_kept [OF inv y], simp_all)
  moreover have "\<forall>plan \<in> set (case y of Reset \<Rightarrow> [] | _ \<Rightarrow> pc_plans c). plan_current (alloc_exec y ?a) plan"
  proof (cases "y = Reset")
    case False
    then have "(case y of Reset \<Rightarrow> [] | _ \<Rightarrow> pc_plans c) = pc_plans c" by (cases y) simp_all
    with ok plan_current_step [OF a y False] show ?thesis by (simp add: client_ok_def)
  qed simp
  ultimately show ?thesis
    using ok alloc_geom [of y ?a] by (simp add: OnPool client_ok_def)
qed

interpretation client: guarded_machine client_enabled client_exec client_ok
  by unfold_locales (rule client_exec_ok)

lemma client_new_ok: "allocator_new space cap n tile = Inr a \<Longrightarrow> client_ok (client_new a)"
  using full_new [of space cap n tile a] by (simp add: client_ok_def client_new_def full_ok_def)

section \<open>Exclusive bytes and exact accounting\<close>


definition demo_client_ops :: "client_op list" where
  "demo_client_ops = [MakePlan [demo_req ''q'' 20 4, demo_req ''k'' 24 8], OnPool (Commit demo_plan 1), OnPool (Commit demo_plan 2)]"

lemma demo_client_legal: "legal_run client_enabled client_exec demo_client_ops (client_new demo_pool)"
  by code_simp

lemma demo_client_pool: "demo_after = pc_pool (run_ops client_exec demo_client_ops (client_new demo_pool))"
  by code_simp


lemma window_bytes:
  assumes "al_inv (\<lambda>_ _. 0) lo hi a"
  shows "snapshot_free_bytes a + al_allocated_bytes a = al_banks a * (hi - lo)"
proof -
  note parts = assms [unfolded al_inv_def]
  let ?B = "al_bytes_per_bank a" and ?n = "length (al_free a)"
  have window: "{0..<?B} \<inter> {x. lo \<le> x \<and> x < hi} = {lo..<hi}" using parts by (auto simp: al_geom_def)
  have "(\<Sum>x \<in> {0..<?B}. of_bool (lo \<le> x \<and> x < hi)) = hi - lo"
    using parts unfolding sum.If_cases [OF finite_atLeastLessThan_int, symmetric]
    by (simp add: of_bool_def sum.If_cases window al_geom_def)
  then have "(\<Sum>b < ?n. \<Sum>x \<in> {0..<?B}. ext_cov (al_free a ! b) x + held_cov a (int b) x) = (\<Sum>b < ?n. hi - lo)"
    using al_coverD [of "\<lambda>_ _. 0" lo hi a] parts by (intro sum.cong refl) (auto intro!: sum.cong trans [OF sum.cong])
  then show ?thesis
    using free_bytes_sum [OF assms] held_bytes_sum [OF assms] parts by (simp add: sum.distrib al_geom_def)
qed

lemma whole_window:
  assumes "\<forall>s e c. OnPool (Reconfigure s e c) \<notin> set ops" "pc_window c = (0, al_bytes_per_bank (pc_pool c))"
  shows "pc_window (run_ops client_exec ops c) = (0, al_bytes_per_bank (pc_pool (run_ops client_exec ops c)))"
  using assms
proof (induction ops arbitrary: c)
  case (Cons x ops)
  have "pc_window (client_exec x c) = (0, al_bytes_per_bank (pc_pool (client_exec x c)))"
  proof (cases x)
    case (OnPool y)
    with Cons.prems alloc_geom [of y "pc_pool c"] show ?thesis by (cases y) auto
  qed (use Cons.prems in \<open>simp split: sum.splits\<close>)
  with Cons show ?case by simp
qed simp

text \<open>C16. Accounting is exact in every run of a client (plans are committed only if made since the
  last reset, for distinct buffer ids; everything else is free, reconfigurations included): the
  allocated counter is the sum of the sizes of live allocations and exact reservations, the
  recorded peak bounds it, and the free bytes reported by the snapshot and the counter add up to
  the bytes of the current window of all banks; that is the capacity as long as the pool was not
  reconfigured.
\<close>

theorem alloc_accounting:
  assumes "allocator_new space cap n tile = Inr a0"
    and "legal_run client_enabled client_exec ops (client_new a0)"
    and "c = run_ops client_exec ops (client_new a0)" and "a = pc_pool c"
  shows "snapshot_free_bytes a + al_allocated_bytes a = al_banks a * (snd (pc_window c) - fst (pc_window c))
     \<and> ((\<forall>s e cycle. OnPool (Reconfigure s e cycle) \<notin> set ops) \<longrightarrow>
          snapshot_free_bytes a + al_allocated_bytes a = al_capacity_bytes a)
     \<and> al_allocated_bytes a = dict_sum rec_bytes (al_live a) + (\<Sum>seg \<in> al_exact_live a. seg_size_bytes seg)
     \<and> al_allocated_bytes a \<le> al_peak_allocated a"
proof -
  have "client_ok c" unfolding assms(3) by (rule client.run_inv [OF client_new_ok [OF assms(1)] assms(2)])
  then have inv: "al_inv (\<lambda>_ _. 0) (fst (pc_window c)) (snd (pc_window c)) a" by (simp add: client_ok_def assms(4))
  have "pc_window c = (0, al_bytes_per_bank a)" if "\<forall>s e cycle. OnPool (Reconfigure s e cycle) \<notin> set ops"
    unfolding assms(3,4) by (rule whole_window [OF that]) (simp add: client_new_def)
  with window_bytes [OF inv] inv show ?thesis by (auto simp: al_inv_def al_bytes_def al_geom_def)
qed

definition narrowed_ops :: "client_op list" where
  "narrowed_ops = [OnPool (Reconfigure 8 24 1), MakePlan [demo_req ''q'' 20 4]]"

theorem alloc_accounting_witness:
  "snapshot_free_bytes demo_after + 44 = 64
   \<and> snapshot_free_bytes (pc_pool (run_ops client_exec narrowed_ops (client_new demo_pool))) = 32"
proof -
  have n: "legal_run client_enabled client_exec narrowed_ops (client_new demo_pool)" by code_simp
  have "al_allocated_bytes demo_after = 44" "al_capacity_bytes demo_after = 64"
    "\<forall>s e cycle. OnPool (Reconfigure s e cycle) \<notin> set demo_client_ops"
    by (code_simp, code_simp, simp add: demo_client_ops_def)
  moreover have "al_allocated_bytes (pc_pool (run_ops client_exec narrowed_ops (client_new demo_pool))) = 0"
    "al_banks (pc_pool (run_ops client_exec narrowed_ops (client_new demo_pool))) = 2"
    "pc_window (run_ops client_exec narrowed_ops (client_new demo_pool)) = (8, 24)" by code_simp+
  ultimately show ?thesis
    using alloc_accounting [OF demo_new demo_client_legal refl demo_client_pool] alloc_accounting [OF demo_new n refl refl]
    by simp
qed

section \<open>A reset revives stale plans\<close>

text \<open>
  \<open>commit\<close> looks at the version of a plan and at nothing else: whatever the free map holds, a
  plan of the current version made on a pool of the same geometry is committed in full.
\<close>

lemma consume_segments_total:
  "banks_in (length fm) segs \<Longrightarrow> \<exists>fm'. consume_segments a fm segs = Inr fm' \<and> length fm' = length fm"
proof (induction segs arbitrary: fm)
  case (Cons seg segs)
  then obtain k where "seg_bank_id seg = int k" "k < length fm" "banks_in (length fm) segs" by (auto simp: banks_in_Cons)
  with Cons.IH [of "fm[k := consume (fm ! k) (local_start a seg) (seg_size_bytes seg)]"] show ?case by simp
qed simp

lemma placedD:
  "placed (int n) B pl req \<Longrightarrow> \<exists>segs. dict_get pl (rq_buffer_id req) = Some segs \<and> segs \<noteq> [] \<and> banks_in n segs"
  by (auto simp: placed_def banks_in_def)

lemma consume_placements_total:
  assumes "\<forall>req \<in> set reqs. placed (int (length fm)) B pl req"
  shows "\<exists>fm'. consume_placements a pl fm reqs = Inr fm'"
  using assms
proof (induction reqs arbitrary: fm)
  case (Cons req reqs)
  then obtain segs where segs: "dict_get pl (rq_buffer_id req) = Some segs" "banks_in (length fm) segs"
    using placedD [of "length fm" B pl req] by auto
  from consume_segments_total [OF segs(2), of a] obtain fm' where fm': "consume_segments a fm segs = Inr fm'" "length fm' = length fm"
    by blast
  with Cons.IH [of fm'] Cons.prems segs(1) show ?case by simp
qed simp

lemma commit_requests_mint:
  assumes "\<forall>req \<in> set reqs. \<exists>segs. dict_get pl (rq_buffer_id req) = Some segs \<and> segs \<noteq> []"
  shows "\<exists>hs a'. commit_requests pl cycle reqs a = (Inr hs, a') \<and> list_all2 (handle_for a pl) reqs hs
     \<and> (\<forall>h \<in> set hs. dict_get (al_live a') (hd_allocation_id h) = Some (new_record h) \<and> al_counter a < snd (snd (snd (hd_allocation_id h))))
     \<and> (\<forall>i r. snd (snd (snd i)) \<le> al_counter a \<longrightarrow> dict_get (al_live a) i = Some r \<longrightarrow> dict_get (al_live a') i = Some r)
     \<and> al_allocated_bytes a' = al_allocated_bytes a + sum_list (map rq_size_bytes reqs)"
  using assms
proof (induction reqs arbitrary: a)
  case (Cons req reqs)
  obtain segs where segs: "dict_get pl (rq_buffer_id req) = Some segs" "segs \<noteq> []" using Cons.prems by auto
  let ?a1 = "commit_one a req segs cycle" and ?h = "new_handle (a\<lparr>al_counter := al_counter a + 1\<rparr>) req segs cycle"
  from Cons.IH [of ?a1] Cons.prems obtain hs a' where IH: "commit_requests pl cycle reqs ?a1 = (Inr hs, a')"
    "list_all2 (handle_for ?a1 pl) reqs hs"
    "\<forall>h \<in> set hs. dict_get (al_live a') (hd_allocation_id h) = Some (new_record h) \<and> al_counter a + 1 < snd (snd (snd (hd_allocation_id h)))"
    "al_allocated_bytes a' = al_allocated_bytes ?a1 + sum_list (map rq_size_bytes reqs)"
    and keep: "\<And>i r. snd (snd (snd i)) \<le> al_counter a + 1 \<Longrightarrow> dict_get (al_live ?a1) i = Some r \<Longrightarrow> dict_get (al_live a') i = Some r"
    by auto
  have live: "al_live ?a1 = dict_set (hd_allocation_id ?h) (new_record ?h) (al_live a)"
    and bytes: "al_allocated_bytes ?a1 = al_allocated_bytes a + rq_size_bytes req"
    by (simp_all add: commit_one_def Let_def new_handle_def)
  have "list_all2 (handle_for a pl) reqs hs" using IH(2) by (rule list_all2_mono) (simp add: handle_for_def)
  moreover have "handle_for a pl req ?h" using segs(1) by (simp add: handle_for_def new_handle_def)
  moreover have "dict_get (al_live a') (hd_allocation_id ?h) = Some (new_record ?h)"
    by (rule keep) (simp_all add: live dict_simps)
  moreover have "dict_get (al_live a') i = Some r" if "snd (snd (snd i)) \<le> al_counter a" "dict_get (al_live a) i = Some r" for i r
    using that by (intro keep) (auto simp: live dict_simps)
  moreover have "\<forall>h \<in> set hs. dict_get (al_live a') (hd_allocation_id h) = Some (new_record h) \<and> al_counter a < snd (snd (snd (hd_allocation_id h)))"
    using IH(3) by fastforce
  ultimately show ?case
    using IH(1,4) segs by (auto simp: bytes split: list.splits)
qed simp

lemma commit_blind:
  assumes plan: "plan_bundle a reqs = Inr plan" "distinct (map rq_buffer_id reqs)" "alloc_ok a"
    and same: "alloc_ok a1" "al_banks a1 = al_banks a" "pl_pool_version plan = al_pool_version a1"
  shows "\<exists>hs a2. commit plan cycle a1 = (Inr hs, a2) \<and> list_all2 (handle_for a1 (pl_placements plan)) reqs hs
     \<and> (\<forall>h \<in> set hs. dict_get (al_live a2) (hd_allocation_id h) = Some (new_record h) \<and> dict_get (al_live a1) (hd_allocation_id h) = None)
     \<and> (\<forall>i r. dict_get (al_live a1) i = Some r \<longrightarrow> dict_get (al_live a2) i = Some r)
     \<and> al_allocated_bytes a2 = al_allocated_bytes a1 + sum_list (map rq_size_bytes reqs)"
proof -
  obtain lo hi where inv: "al_inv (\<lambda>_ _. 0) lo hi a" using plan(3) by (auto simp: alloc_ok_def)
  obtain lo1 hi1 where inv1: "al_inv (\<lambda>_ _. 0) lo1 hi1 a1" using same(1) by (auto simp: alloc_ok_def)
  have len: "length (al_free a1) = length (al_free a)" using inv inv1 same(2) by (simp add: al_inv_def al_geom_def)
  have pr: "plan_requests a (al_free a) reqs [] = Inr (pl_placements plan)" "\<forall>req \<in> set reqs. req_ok req" and rq: "pl_requests plan = reqs"
    using plan(1) by (auto simp: plan_bundle_Inr)
  have "fm_ok (al_free a)" using inv by (simp add: al_inv_def al_geom_def)
  from plan_commit_frame [OF pr(1) this pr(2) plan(2)]
  have placed: "\<forall>req \<in> set reqs. placed (int (length (al_free a1))) (al_bytes_per_bank a) (pl_placements plan) req"
    by (auto simp: len)
  obtain fm where fm: "consume_placements a1 (pl_placements plan) (al_free a1) reqs = Inr fm"
    using consume_placements_total [OF placed, of a1] by blast
  have "\<forall>req \<in> set reqs. \<exists>segs. dict_get (pl_placements plan) (rq_buffer_id req) = Some segs \<and> segs \<noteq> []"
    using placed placedD by blast
  from commit_requests_mint [OF this, of cycle "a1\<lparr>al_free := fm\<rparr>"] obtain hs a' where c:
    "commit_requests (pl_placements plan) cycle reqs (a1\<lparr>al_free := fm\<rparr>) = (Inr hs, a')"
    "list_all2 (handle_for (a1\<lparr>al_free := fm\<rparr>) (pl_placements plan)) reqs hs"
    "\<forall>h \<in> set hs. dict_get (al_live a') (hd_allocation_id h) = Some (new_record h) \<and> al_counter a1 < snd (snd (snd (hd_allocation_id h)))"
    "\<forall>i r. snd (snd (snd i)) \<le> al_counter a1 \<longrightarrow> dict_get (al_live a1) i = Some r \<longrightarrow> dict_get (al_live a') i = Some r"
    "al_allocated_bytes a' = al_allocated_bytes a1 + sum_list (map rq_size_bytes reqs)"
    by auto
  have old: "snd (snd (snd i)) \<le> al_counter a1" if "dict_get (al_live a1) i = Some r" for i r
    using inv1 that al_recs_get [of a1 i r] by (simp add: al_inv_def rec_wf_def)
  have fresh: "dict_get (al_live a1) (hd_allocation_id h) = None" if "h \<in> set hs" for h
  proof (rule ccontr)
    assume "dict_get (al_live a1) (hd_allocation_id h) \<noteq> None"
    then obtain r where "dict_get (al_live a1) (hd_allocation_id h) = Some r" by blast
    from old [OF this] c(3) that show False by fastforce
  qed
  have "handle_for (a1\<lparr>al_free := fm\<rparr>) (pl_placements plan) = handle_for a1 (pl_placements plan)"
    by (intro ext) (simp add: handle_for_def)
  moreover have "commit plan cycle a1 = (Inr hs, a'\<lparr>al_pool_version := al_pool_version a' + 1\<rparr>)"
    using same(3) fm c(1) rq by (simp add: commit_def)
  moreover have "\<forall>i r. dict_get (al_live a1) i = Some r \<longrightarrow> dict_get (al_live a') i = Some r" using old c(4) by blast
  ultimately show ?thesis using c(2,3,5) fresh by simp
qed

text \<open>C20. Across a reset the version check is not sufficient: \<open>reset\<close> puts the version back to
  zero, so a plan made before the reset is accepted again as soon as the version number it was
  made for returns. It is then committed in full on the new pool, whatever has been allocated
  there: the commit mints a new live handle per request with the old segments and keeps all
  earlier records, so that a live allocation that covers a byte of an old segment shares it
  with the new one.
\<close>

theorem reset_revives_stale_plan:
  assumes "alloc_ok a" and "plan_bundle a reqs = Inr plan" and "distinct (map rq_buffer_id reqs)"
    and "legal_run alloc_enabled alloc_exec (before @ Reset # after) a"
    and "a1 = run_ops alloc_exec (before @ Reset # after) a"
    and "al_pool_version a1 = pl_pool_version plan"
  shows "\<exists>hs a2. commit plan cycle a1 = (Inr hs, a2) \<and> list_all2 (handle_for a1 (pl_placements plan)) reqs hs
     \<and> al_allocated_bytes a2 = al_allocated_bytes a1 + sum_list (map rq_size_bytes reqs)
     \<and> (\<forall>h \<in> set hs. dict_get (al_live a2) (hd_allocation_id h) = Some (new_record h)
          \<and> (\<forall>i r y. dict_get (al_live a1) i = Some r \<and> y \<in> rec_addrs r \<and> y \<in> segs_addrs (hd_bank_segments h) \<longrightarrow>
               i \<noteq> hd_allocation_id h \<and> dict_get (al_live a2) i = Some r \<and> y \<in> rec_addrs r \<inter> rec_addrs (new_record h)))"
proof -
  have ok1: "alloc_ok a1" unfolding assms(5) by (rule alloc.run_inv [OF assms(1,4)])
  have banks: "al_banks (run_ops alloc_exec ops b) = al_banks b" for ops b
    by (induction ops arbitrary: b) (simp_all add: alloc_geom)
  have "al_banks a1 = al_banks a" by (simp only: assms(5) banks)
  from commit_blind [OF assms(2,3,1) ok1 this assms(6) [symmetric], of cycle] obtain hs a2 where c:
    "commit plan cycle a1 = (Inr hs, a2)" "list_all2 (handle_for a1 (pl_placements plan)) reqs hs"
    "\<forall>h \<in> set hs. dict_get (al_live a2) (hd_allocation_id h) = Some (new_record h) \<and> dict_get (al_live a1) (hd_allocation_id h) = None"
    "\<forall>i r. dict_get (al_live a1) i = Some r \<longrightarrow> dict_get (al_live a2) i = Some r"
    "al_allocated_bytes a2 = al_allocated_bytes a1 + sum_list (map rq_size_bytes reqs)" by blast
  have "rec_addrs (new_record h) = segs_addrs (hd_bank_segments h)" for h
    by (simp add: rec_addrs_def new_record_def)
  with c show ?thesis by (intro exI [of _ hs] exI [of _ a2]) auto
qed

text \<open>
  A pool of 16 bytes: a plan for its upper half, made after a first commit, comes back after a
  reset and a commit of the whole pool. The pool then has 24 allocated bytes.
\<close>

definition aba_pool :: allocator where
  "aba_pool = (let a0 = projr (allocator_new ''l2'' 16 1 None)
     in snd (commit (projr (plan_bundle a0 [demo_req ''x'' 8 1])) 0 a0))"

definition aba_plan :: allocation_plan where
  "aba_plan = projr (plan_bundle aba_pool [demo_req ''y'' 8 1])"

definition aba_after :: "alloc_op list" where
  "aba_after = [Commit (projr (plan_bundle (allocator_reset aba_pool) [demo_req ''z'' 16 1])) 1]"

theorem reset_revives_stale_plan_witness:
  "\<exists>hs a2. commit aba_plan 2 (run_ops alloc_exec ([] @ Reset # aba_after) aba_pool) = (Inr hs, a2)
     \<and> al_allocated_bytes a2 = 24 \<and> al_capacity_bytes aba_pool = 16"
proof -
  have new: "allocator_new ''l2'' 16 1 None = Inr (projr (allocator_new ''l2'' 16 1 None))" by code_simp
  have "legal_run alloc_enabled alloc_exec
      [Commit (projr (plan_bundle (projr (allocator_new ''l2'' 16 1 None)) [demo_req ''x'' 8 1])) 0]
      (projr (allocator_new ''l2'' 16 1 None))" by code_simp
  from alloc.run_inv [OF alloc_new_ok [OF new] this] have ok: "alloc_ok aba_pool" by (simp add: aba_pool_def Let_def)
  have plan: "plan_bundle aba_pool [demo_req ''y'' 8 1] = Inr aba_plan" by code_simp
  have d: "distinct (map rq_buffer_id [demo_req ''y'' 8 1])" by simp
  have legal: "legal_run alloc_enabled alloc_exec ([] @ Reset # aba_after) aba_pool" by code_simp
  have v: "al_pool_version (run_ops alloc_exec ([] @ Reset # aba_after) aba_pool) = pl_pool_version aba_plan"
    "al_allocated_bytes (run_ops alloc_exec ([] @ Reset # aba_after) aba_pool) = 16" "al_capacity_bytes aba_pool = 16"
    by code_simp+
  from reset_revives_stale_plan [OF ok plan d legal refl v(1), of 2] v(2,3) show ?thesis
    by (auto simp: demo_req_def)
qed


section \<open>First fit is complete for unaligned requests\<close>

definition map_total :: "extents list \<Rightarrow> int" where
  "map_total fm = sum_list (map ext_total fm)"

lemma ext_total_nonneg: "\<forall>p \<in> set es. 0 < snd p \<Longrightarrow> 0 \<le> ext_total es"
  by (induction es) auto

lemma plan_extents_remaining:
  assumes "\<forall>p \<in> set es. 0 < snd p" "0 \<le> remaining"
  shows "fst (snd (plan_extents bank base 1 es remaining segs)) = max 0 (remaining - ext_total es)"
  using assms
proof (induction es arbitrary: remaining segs)
  case (Cons p es)
  obtain s n where p: "p = (s, n)" by (cases p)
  have tot: "0 \<le> ext_total es" "0 < n" using Cons.prems(1) ext_total_nonneg by (auto simp: p)
  let ?t = "min remaining n"
  let ?rec = "plan_extents bank base 1 es (remaining - ?t)
      (segs @ [\<lparr>seg_bank_id = bank, seg_address = base + s, seg_size_bytes = ?t\<rparr>])"
  show ?case
  proof (cases "remaining \<le> 0")
    case True
    with Cons.IH [of remaining segs] Cons.prems tot show ?thesis by (auto simp: p split: prod.splits)
  next
    case False
    then have "fst (snd (plan_extents bank base 1 (p # es) remaining segs)) = fst (snd ?rec)"
      using tot by (simp add: p Let_def split: prod.splits)
    also have "\<dots> = max 0 (remaining - ?t - ext_total es)" using Cons.prems by (intro Cons.IH) auto
    finally show ?thesis using tot False by (simp add: p min_def max_def)
  qed
qed simp

lemma plan_banks_remaining:
  assumes "fm_pos fm" "0 \<le> remaining"
  shows "fst (snd (plan_banks bank B 1 fm remaining segs)) = max 0 (remaining - map_total fm)"
  using assms
proof (induction fm arbitrary: bank remaining segs)
  case (Cons es fm)
  have pos: "\<forall>p \<in> set es. 0 < snd p" "fm_pos fm" using Cons.prems(1) by (simp_all add: fm_pos_def)
  have tot: "0 \<le> ext_total es" "0 \<le> map_total fm"
    using pos ext_total_nonneg by (auto simp: map_total_def fm_pos_def intro!: sum_list_nonneg)
  obtain es' r sg where one: "plan_extents bank (bank * B) 1 es remaining segs = (es', r, sg)" by (metis prod_cases3)
  have r: "r = max 0 (remaining - ext_total es)"
    using plan_extents_remaining [OF pos(1) Cons.prems(2), of bank "bank * B" segs] one by simp
  have "fst (snd (plan_banks (bank + 1) B 1 fm r sg)) = max 0 (r - map_total fm)"
    using Cons.IH [OF pos(2), of r] r by simp
  then show ?case
    using one r tot Cons.prems(2) by (auto simp: map_total_def split: prod.splits)
qed (simp add: map_total_def)

text \<open>First fit never fails for fragmentation of unaligned requests: in a reachable pool, a
  single request with alignment 1 and positive size is planned exactly when its size does
  not exceed the free bytes of the snapshot; an allocation may span extents and banks.
\<close>

theorem plan_complete_unaligned:
  assumes "alloc_ok a" and "rq_alignment req = 1" and "0 < rq_size_bytes req"
  shows "(\<exists>plan. plan_bundle a [req] = Inr plan) \<longleftrightarrow> rq_size_bytes req \<le> snapshot_free_bytes a"
proof -
  obtain lo hi where inv: "al_inv (\<lambda>_ _. 0) lo hi a" using assms(1) by (auto simp: alloc_ok_def)
  have geom: "fm_ok (al_free a)" "nat (al_banks a) = length (al_free a)"
    using inv by (simp_all add: al_inv_def al_geom_def)
  have free: "snapshot_free_bytes a = map_total (al_free a)"
    unfolding snapshot_free_bytes_def bank_snapshots_def geom(2) map_total_def
    by (simp add: comp_def) (metis map_nth comp_apply map_map [unfolded comp_def] map_eq_conv)
  have ok: "req_ok req" using assms(2,3) by (simp add: req_ok_def)
  have "fst (snd (plan_banks 0 (al_bytes_per_bank a) 1 (al_free a) (rq_size_bytes req) [])) = max 0 (rq_size_bytes req - map_total (al_free a))"
    using assms(3) by (intro plan_banks_remaining fm_ok_pos geom) simp
  then have "fst (plan_one a (al_free a) req) \<noteq> None \<longleftrightarrow> rq_size_bytes req \<le> map_total (al_free a)"
    using assms(2) by (auto simp: plan_one_def split: prod.splits)
  moreover have "(\<exists>plan. plan_bundle a [req] = Inr plan) \<longleftrightarrow> fst (plan_one a (al_free a) req) \<noteq> None"
    using validate_requests_None [of "[req]"] ok
    by (auto simp del: validate_requests.simps simp: plan_bundle_def split: prod.splits option.splits sum.splits)
  ultimately show ?thesis by (simp add: free)
qed

theorem plan_complete_unaligned_witness:
  "(\<exists>plan. plan_bundle demo_after [demo_req ''v'' 20 1] = Inr plan)
   \<and> \<not> (\<exists>plan. plan_bundle demo_after [demo_req ''v'' 21 1] = Inr plan)"
proof -
  note ok = demo_ok
  have "snapshot_free_bytes demo_after = 20" by code_simp
  then show ?thesis
    using plan_complete_unaligned [OF ok, of "demo_req ''v'' 20 1"] plan_complete_unaligned [OF ok, of "demo_req ''v'' 21 1"]
    by (simp add: demo_req_def)
qed

section \<open>Resolving a view\<close>

definition addr_list :: "bank_segment list \<Rightarrow> int list" where
  "addr_list segs = concat (map (\<lambda>s. map (\<lambda>k. seg_address s + int k) [0..<nat (seg_size_bytes s)]) segs)"

lemma addr_list_simps [simp]:
  "addr_list [] = []"
  "addr_list (s # segs) = map (\<lambda>k. seg_address s + int k) [0..<nat (seg_size_bytes s)] @ addr_list segs"
  "addr_list (segs @ segs') = addr_list segs @ addr_list segs'"
  by (simp_all add: addr_list_def)

lemma length_addr_list: "\<forall>s \<in> set segs. 0 < seg_size_bytes s \<Longrightarrow> int (length (addr_list segs)) = segs_size segs"
  by (induction segs) auto

lemma take_drop_range:
  "take k (drop m (map f [0..<N])) = map f [m..<min N (m + k)]"
  by (simp add: drop_map take_map min_def)

lemma clip_addr_list:
  assumes "\<forall>s \<in> set segs. 0 < seg_size_bytes s"
  shows "addr_list (clip_segments segs cursor off sz)
     = take (nat (off + sz - max cursor off)) (drop (nat (off - cursor)) (addr_list segs))"
  using assms
proof (induction segs arbitrary: cursor)
  case (Cons s segs)
  let ?n = "seg_size_bytes s" and ?f = "\<lambda>k. seg_address s + int k"
  let ?m = "nat (off - cursor)" and ?k = "nat (off + sz - max cursor off)"
  have n: "0 < ?n" using Cons.prems by simp
  have IH: "addr_list (clip_segments segs (cursor + ?n) off sz)
     = take (nat (off + sz - max (cursor + ?n) off)) (drop (nat (off - (cursor + ?n))) (addr_list segs))"
    using Cons by simp
  have split: "take ?k (drop ?m (addr_list (s # segs))) = map ?f [?m..<min (nat ?n) (?m + ?k)]
      @ take (?k - (nat ?n - ?m)) (drop (?m - nat ?n) (addr_list segs))"
    by (simp add: take_drop_range)
  have "?m - nat ?n = nat (off - (cursor + ?n))" "?k - (nat ?n - ?m) = nat (off + sz - max (cursor + ?n) off)"
    using n by (auto simp: max_def)
  with split IH have rest: "take ?k (drop ?m (addr_list (s # segs))) = map ?f [?m..<min (nat ?n) (?m + ?k)]
      @ addr_list (clip_segments segs (cursor + ?n) off sz)" by simp
  have shift: "map (\<lambda>k. seg_address s + c + int k) [0..<nat (e - c)] = map ?f [nat c..<nat e]" if "0 \<le> c" for c e
    using that by (intro nth_equalityI) (auto simp: nat_diff_distrib')
  show ?case
  proof (cases "cursor + ?n \<le> off \<or> off + sz \<le> cursor")
    case True
    then have "min (nat ?n) (?m + ?k) \<le> ?m" using n by (auto simp: max_def)
    with True rest show ?thesis by (auto simp: Let_def)
  next
    case False
    let ?c = "max 0 (off - cursor)" and ?e = "min ?n (off + sz - cursor)"
    have "[?m..<min (nat ?n) (?m + ?k)] = (if ?e - ?c > 0 then [nat ?c..<nat ?e] else [])"
      using False n by (auto simp: max_def min_def nat_add_distrib [symmetric] algebra_simps split: if_splits)
    with False rest shift [of ?c ?e] show ?thesis by (auto simp: Let_def)
  qed
qed simp


text \<open>C18. A view resolves to exactly its bytes, in order: for a live handle, a view inside the
  allocation yields segments whose addresses are the view's slice of the allocation's
  address sequence; every view that leaves the allocation raises.
\<close>

theorem resolve_exact:
  assumes "alloc_ok a" and "assert_live h None a = Inr ()"
  shows "if 0 \<le> off \<and> off + sz \<le> hd_size_bytes h
    then \<exists>segs. resolve_segments h off sz a = Inr segs
       \<and> addr_list segs = take (nat sz) (drop (nat off) (addr_list (hd_bank_segments h)))
       \<and> int (length (addr_list segs)) = max 0 sz
    else resolve_segments h off sz a = Inl (MemoryInvariantError ''memory view out of bounds'')"
proof (cases "0 \<le> off \<and> off + sz \<le> hd_size_bytes h")
  case True
  obtain r where r: "dict_get (al_live a) (hd_allocation_id h) = Some r" "rc_handle r = h" "rc_state r \<noteq> RELEASED"
    using assms(2) by (auto simp: assert_live_def split: option.splits if_splits)
  have wf: "rec_wf a (hd_allocation_id h) r" using al_recs_get [OF alloc_ok_parts(1) [OF assms(1)] r(1)] .
  have pos: "\<forall>s \<in> set (hd_bank_segments h). 0 < seg_size_bytes s"
    using rec_wfD(1) [OF wf] r(2) by (simp add: segs_ok_def seg_ok_def)
  have len: "int (length (addr_list (hd_bank_segments h))) = hd_size_bytes h"
    using length_addr_list [OF pos] rec_wfD(2) [OF wf] r(2) by simp
  have eq: "resolve_segments h off sz a = Inr (clip_segments (hd_bank_segments h) 0 off sz)"
    using True r by (simp add: resolve_segments_def)
  have "addr_list (clip_segments (hd_bank_segments h) 0 off sz)
      = take (nat sz) (drop (nat off) (addr_list (hd_bank_segments h)))"
    using clip_addr_list [OF pos, of 0 off sz] True by simp
  moreover have "int (length (take (nat sz) (drop (nat off) (addr_list (hd_bank_segments h))))) = max 0 sz"
    using True len by simp linarith
  ultimately show ?thesis using True eq by simp
next
  case False
  then show ?thesis unfolding if_not_P [OF False] by (auto simp: resolve_segments_def)
qed

theorem resolve_exact_witness:
  "\<exists>segs. resolve_segments (rc_handle (demo_rec 2)) 8 10 demo_after = Inr segs
    \<and> addr_list segs = [32, 33, 34, 35, 36, 37, 38, 39, 40, 41]"
proof -
  note ok = demo_ok
  have live: "assert_live (rc_handle (demo_rec 2)) None demo_after = Inr ()" by code_simp
  have "hd_size_bytes (rc_handle (demo_rec 2)) = 24"
    "take 10 (drop 8 (addr_list (hd_bank_segments (rc_handle (demo_rec 2))))) = [32, 33, 34, 35, 36, 37, 38, 39, 40, 41]"
    by code_simp+
  with resolve_exact [OF ok live, of 8 10] show ?thesis by auto
qed

section \<open>Pins and generations\<close>

text \<open>Release of a pinned allocation is deferred to the last unpin: with one consumer left,
  \<open>request_release\<close> by the owner reports \<open>False\<close> and leaves the free map, the version and
  the counter alone; the consumer's \<open>unpin\<close> then reports \<open>True\<close>, returns exactly the
  allocation's bytes to the counter and bumps the version.
\<close>

theorem pinned_release_deferred:
  assumes "alloc_ok a" and "dict_get (al_live a) (hd_allocation_id h) = Some r"
    and "hd_generation (rc_handle r) = hd_generation h" and "rc_state r \<noteq> RELEASED"
    and "hd_owner (rc_handle r) = ow" and "rc_pins r = {c}"
  shows "\<exists>a1 a2. request_release h ow t1 a = (Inr False, a1)
     \<and> al_free a1 = al_free a \<and> al_pool_version a1 = al_pool_version a
     \<and> al_allocated_bytes a1 = al_allocated_bytes a \<and> \<not> is_released h a1
     \<and> unpin h c t2 a1 = (Inr True, a2) \<and> is_released h a2 \<and> alloc_ok a2
     \<and> al_allocated_bytes a2 = al_allocated_bytes a - hd_size_bytes (rc_handle r)
     \<and> al_pool_version a2 = al_pool_version a + 1"
proof -
  obtain lo hi where inv: "al_inv (\<lambda>_ _. 0) lo hi a" using assms(1) by (auto simp: alloc_ok_def)
  from request_release_cases [OF inv assms(2-5), of t1] assms(6) obtain a1 r1 where
    1: "request_release h ow t1 a = (Inr False, a1)" "al_inv (\<lambda>_ _. 0) lo hi a1"
      "al_free a1 = al_free a" "al_pool_version a1 = al_pool_version a" "al_allocated_bytes a1 = al_allocated_bytes a"
    and r1: "dict_get (al_live a1) (hd_allocation_id h) = Some r1" "rc_pins r1 = {c}" "rc_handle r1 = rc_handle r"
      "rc_state r1 = RELEASE_PENDING" by auto
  from unpin_cases [OF 1(2) r1(1), of c t2] r1 assms(3) obtain a2 r2 where
    2: "unpin h c t2 a1 = (Inr True, a2)" "al_pool_version a2 = al_pool_version a1 + 1"
      "al_allocated_bytes a2 = al_allocated_bytes a1 - hd_size_bytes (rc_handle r)"
    and r2: "dict_get (al_live a2) (hd_allocation_id h) = Some r2" "rc_state r2 = RELEASED" by auto
  have "alloc_ok (alloc_exec (Unpin h c t2) (alloc_exec (RequestRelease h ow t1) a))"
    by (intro alloc_exec_inv assms(1)) simp_all
  then have "alloc_ok a2" by (simp add: 1(1) 2(1))
  with 1 2 r1 r2 show ?thesis by (simp add: is_released_def)
qed

theorem pinned_release_deferred_witness:
  "\<exists>a1 a2. request_release (rc_handle (demo_rec 1)) (ContextBufferOwner ''ctx'' 0 ''q'') 5
      (snd (pin (rc_handle (demo_rec 1)) ''dma'' demo_after)) = (Inr False, a1)
    \<and> unpin (rc_handle (demo_rec 1)) ''dma'' 6 a1 = (Inr True, a2) \<and> al_allocated_bytes a2 = 24"
proof -
  let ?h = "rc_handle (demo_rec 1)" and ?a = "snd (pin (rc_handle (demo_rec 1)) ''dma'' demo_after)"
  let ?r = "the (dict_get (al_live ?a) (hd_allocation_id ?h))"
  have ok: "alloc_ok ?a" using alloc_exec_inv [OF demo_ok, of "Pin ?h ''dma''"] by simp
  have facts: "dict_get (al_live ?a) (hd_allocation_id ?h) = Some ?r" "hd_generation (rc_handle ?r) = hd_generation ?h"
    "rc_state ?r \<noteq> RELEASED" "hd_owner (rc_handle ?r) = ContextBufferOwner ''ctx'' 0 ''q''" "rc_pins ?r = {''dma''}"
    "al_allocated_bytes ?a = 44" "hd_size_bytes (rc_handle ?r) = 20"
    by code_simp+
  from pinned_release_deferred [OF ok facts(1-5), of 5 6] facts(6,7) show ?thesis by auto
qed

lemma alloc_generation_run:
  assumes "alloc_ok a" "legal_run alloc_enabled alloc_exec ops a"
  shows "al_generation a \<le> al_generation (run_ops alloc_exec ops a)"
  using assms
proof (induction ops arbitrary: a)
  case (Cons x ops)
  have "al_generation a \<le> al_generation (alloc_exec x a)"
    using alloc_version_step [of a x] Cons.prems by (cases "x = Reset") (auto simp: allocator_reset_def)
  also have "\<dots> \<le> al_generation (run_ops alloc_exec (x # ops) a)"
    using Cons alloc_exec_inv [of a x] by simp
  finally show ?case .
qed simp

text \<open>C19. A handle of an earlier generation stays dead: once the pool's generation (bumped by
  \<open>reset\<close> and by reconfiguration) exceeds the handle's, after any further operations every
  live check, pin, unpin and release through it raises the stale-generation error without
  effect, and no view of it resolves.
\<close>

theorem stale_handle_rejected:
  assumes "alloc_ok a" and "hd_generation h < al_generation a"
    and "legal_run alloc_enabled alloc_exec ops a" and "a1 = run_ops alloc_exec ops a"
  shows "assert_live h ow a1 = Inl (MemoryInvariantError ''stale allocation generation'')
     \<and> pin h c a1 = (Inl (MemoryInvariantError ''stale allocation generation''), a1)
     \<and> unpin h c t a1 = (Inl (MemoryInvariantError ''stale allocation generation''), a1)
     \<and> request_release h ow' t a1 = (Inl (MemoryInvariantError ''stale allocation generation''), a1)
     \<and> \<not> (\<exists>segs. resolve_segments h off sz a1 = Inr segs)"
proof -
  have ok: "alloc_ok a1" unfolding assms(4) by (rule alloc.run_inv [OF assms(1,3)])
  have gen: "hd_generation h < al_generation a1"
    using alloc_generation_run [OF assms(1,3)] assms(2,4) by simp
  have other: "hd_generation (rc_handle r) \<noteq> hd_generation h"
    if "dict_get (al_live a1) (hd_allocation_id h) = Some r" for r
    using rec_wfD(4) [OF al_recs_get [OF alloc_ok_parts(1) [OF ok] that]] gen by simp
  then show ?thesis
    by (auto simp: assert_live_def pin_def unpin_def request_release_def resolve_segments_def split: option.splits)
qed

theorem stale_handle_rejected_witness:
  "pin (rc_handle (demo_rec 1)) ''dma'' (allocator_reset demo_after)
     = (Inl (MemoryInvariantError ''stale allocation generation''), allocator_reset demo_after)"
proof -
  have ok: "alloc_ok (allocator_reset demo_after)" using alloc_exec_inv [OF demo_ok, of Reset] by simp
  have gen: "hd_generation (rc_handle (demo_rec 1)) < al_generation (allocator_reset demo_after)" by code_simp
  from stale_handle_rejected [OF ok gen, of "[]" "allocator_reset demo_after"] show ?thesis by simp
qed

end
