(* ===== verification/Event_Table.thy ===== *)
theory Event_Table
  imports Elenor_Prelude
begin

text \<open>
  The bounded, generation-safe event table of \<open>src/pipeline_validator/runtime/event_table.py\<close>:
  persistent compatibility entries, launch quotas over compiler-provided use counts,
  just-in-time output slots, consumer references, signalling, reclamation and release.
  An entry object is the value stored under its name; the code only mutates entries it has
  just read from the table. The diagnostic \<open>snapshot\<close> dictionary is left out.
\<close>

section \<open>Data\<close>

datatype event_status = EV_PENDING | EV_DONE | EV_ERROR | EV_TIMEOUT | EV_RESET

record event_entry =
  ev_name :: string
  ev_id :: int
  ev_sequence :: int
  ev_status :: event_status
  ev_producer_id :: int
  ev_timestamp :: int
  ev_error_code :: int
  ev_expected_sequence :: int
  ev_owner :: string
  ev_generation :: int
  ev_producer_bound :: bool
  ev_consumer_refs :: int
  ev_future_uses :: int
  ev_managed :: bool

record event_quota =
  qt_owner :: string
  qt_generation :: int
  qt_limit :: int
  qt_event_uses :: "(string, int) dict"
  qt_declared_references :: int
  qt_produced :: "string set"

record retired_event =
  rt_name :: string
  rt_id :: int
  rt_seq :: int
  rt_status :: event_status
  rt_producer :: int
  rt_owner :: string
  rt_generation :: int
  rt_retired_cycle :: int
  rt_reason :: string

record event_table =
  et_capacity :: int
  et_entries :: "(string, event_entry) dict"
  et_quotas :: "(string \<times> int, event_quota) dict"
  et_next_id :: int
  et_retired :: "retired_event list"
  et_peak_reserved :: int
  et_peak_active :: int
  et_stale_sequence :: int
  et_wrong_owner :: int
  et_duplicate_signal :: int
  et_capacity_reject :: int
  et_protocol_error :: int
  et_version :: int

type_synonym 'a ev_result = "(event_table, 'a) outcome"

definition et_new :: "int \<Rightarrow> py_error + event_table" where
  "et_new capacity =
     (if capacity < 1 then Inl (ValueError ''event table capacity must be positive'')
      else Inr \<lparr>et_capacity = capacity, et_entries = [], et_quotas = [], et_next_id = 0, et_retired = [],
                et_peak_reserved = 0, et_peak_active = 0, et_stale_sequence = 0, et_wrong_owner = 0,
                et_duplicate_signal = 0, et_capacity_reject = 0, et_protocol_error = 0, et_version = 0\<rparr>)"

definition quota_reserved :: "event_table \<Rightarrow> int" where
  "quota_reserved t = dict_sum qt_limit (et_quotas t)"

definition et_reserved :: "event_table \<Rightarrow> int" where
  "et_reserved t = quota_reserved t + dict_sum (\<lambda>e. of_bool (\<not> ev_managed e)) (et_entries t)"

definition et_active :: "event_table \<Rightarrow> int" where
  "et_active t = int (length (et_entries t))"

definition owned :: "string \<Rightarrow> int \<Rightarrow> event_entry \<Rightarrow> bool" where
  "owned owner gen e \<longleftrightarrow> ev_owner e = owner \<and> ev_generation e = gen"

definition managed_live :: "string \<Rightarrow> int \<Rightarrow> event_table \<Rightarrow> int" where
  "managed_live owner gen t = dict_sum (\<lambda>e. of_bool (ev_managed e \<and> owned owner gen e)) (et_entries t)"

abbreviation count_protocol_error :: "event_table \<Rightarrow> event_table" where
  "count_protocol_error t \<equiv> t\<lparr>et_protocol_error := et_protocol_error t + 1\<rparr>"

abbreviation count_capacity_reject :: "event_table \<Rightarrow> event_table" where
  "count_capacity_reject t \<equiv> t\<lparr>et_capacity_reject := et_capacity_reject t + 1\<rparr>"

abbreviation bump_version :: "event_table \<Rightarrow> event_table" where
  "bump_version t \<equiv> t\<lparr>et_version := et_version t + 1\<rparr>"

definition et_quota :: "string \<Rightarrow> int \<Rightarrow> event_table \<Rightarrow> event_quota ev_result" where
  "et_quota owner gen t =
     (case dict_get (et_quotas t) (owner, gen) of
        None \<Rightarrow> raise (EventProtocolError ''event quota was not reserved'') (count_protocol_error t)
      | Some q \<Rightarrow> ret q t)"

definition validate_identity :: "event_entry \<Rightarrow> string \<Rightarrow> int \<Rightarrow> bool \<Rightarrow> event_table \<Rightarrow> unit ev_result" where
  "validate_identity e owner gen allow_unspecified t =
     (if allow_unspecified \<and> owner = '''' \<and> gen = 0 then ret () t
      else if ev_owner e \<noteq> owner \<or> ev_generation e \<noteq> gen
      then raise (EventProtocolError ''event belongs to another owner or generation'') (count_protocol_error t)
      else ret () t)"

section \<open>Allocation and compatibility surface\<close>

definition new_entry :: "string \<Rightarrow> int \<Rightarrow> string \<Rightarrow> int \<Rightarrow> bool \<Rightarrow> event_entry" where
  "new_entry name i owner gen managed =
     \<lparr>ev_name = name, ev_id = i, ev_sequence = 0, ev_status = EV_PENDING, ev_producer_id = 0,
      ev_timestamp = 0, ev_error_code = 0, ev_expected_sequence = 0, ev_owner = owner,
      ev_generation = gen, ev_producer_bound = False, ev_consumer_refs = 0, ev_future_uses = 0,
      ev_managed = managed\<rparr>"

definition insert_entry :: "string \<Rightarrow> string \<Rightarrow> int \<Rightarrow> bool \<Rightarrow> event_table \<Rightarrow> event_table" where
  "insert_entry name owner gen managed t =
     (let t = t\<lparr>et_entries := dict_set name (new_entry name (et_next_id t) owner gen managed) (et_entries t),
                et_next_id := et_next_id t + 1\<rparr>;
          t = t\<lparr>et_peak_active := max (et_peak_active t) (et_active t)\<rparr>;
          t = t\<lparr>et_peak_reserved := max (et_peak_reserved t) (et_reserved t)\<rparr>
      in if managed then t else bump_version t)"

definition allocate :: "string \<Rightarrow> string \<Rightarrow> int \<Rightarrow> bool \<Rightarrow> event_table \<Rightarrow> event_entry ev_result" where
  "allocate name owner gen managed t =
     (if dict_get (et_entries t) name \<noteq> None
      then raise (EventProtocolError ''event already has a live slot'') (count_protocol_error t)
      else if managed then
        and_then (et_quota owner gen t) (\<lambda>q t.
          if managed_live owner gen t \<ge> qt_limit q
          then raise (EventProtocolError ''event frontier exceeds reserved quota'') (count_protocol_error t)
          else ret (new_entry name (et_next_id t) owner gen True) (insert_entry name owner gen True t))
      else if et_reserved t \<ge> et_capacity t
      then raise (EventProtocolError ''event table capacity exhausted'') (count_capacity_reject t)
      else ret (new_entry name (et_next_id t) owner gen False) (insert_entry name owner gen False t))"

definition register :: "string \<Rightarrow> string \<Rightarrow> int \<Rightarrow> event_table \<Rightarrow> event_entry ev_result" where
  "register name owner gen t =
     (case dict_get (et_entries t) name of
        Some e \<Rightarrow> and_then (validate_identity e owner gen True t) (\<lambda>_ t. ret e t)
      | None \<Rightarrow> allocate name owner gen False t)"

text \<open>\<open>dict.fromkeys\<close>: the first occurrence of every name, in order.\<close>

definition fromkeys :: "'a list \<Rightarrow> 'a list" where
  "fromkeys xs = rev (remdups (rev xs))"

fun allocate_all :: "string list \<Rightarrow> string \<Rightarrow> int \<Rightarrow> bool \<Rightarrow> event_table \<Rightarrow> event_entry list ev_result" where
  "allocate_all [] owner gen managed t = ret [] t"
| "allocate_all (name # names) owner gen managed t =
     and_then (allocate name owner gen managed t) (\<lambda>e t.
       and_then (allocate_all names owner gen managed t) (\<lambda>es t. ret (e # es) t))"

fun missing_names :: "string list \<Rightarrow> string \<Rightarrow> int \<Rightarrow> event_table \<Rightarrow> string list ev_result" where
  "missing_names [] owner gen t = ret [] t"
| "missing_names (name # names) owner gen t =
     (case dict_get (et_entries t) name of
        None \<Rightarrow> and_then (missing_names names owner gen t) (\<lambda>ms t. ret (name # ms) t)
      | Some e \<Rightarrow> and_then (validate_identity e owner gen False t) (\<lambda>_ t. missing_names names owner gen t))"

definition reserve_many :: "string list \<Rightarrow> string \<Rightarrow> int \<Rightarrow> event_table \<Rightarrow> bool ev_result" where
  "reserve_many names owner gen t =
     (if dict_get (et_quotas t) (owner, gen) \<noteq> None
      then raise (EventProtocolError ''managed launches must reserve outputs just in time'') (count_protocol_error t)
      else and_then (missing_names (fromkeys names) owner gen t) (\<lambda>missing t.
        if et_reserved t + int (length missing) > et_capacity t then ret False (count_capacity_reject t)
        else and_then (allocate_all missing owner gen False t) (\<lambda>_ t. ret True t)))"

section \<open>Launch quotas\<close>

fun declared_references :: "(string, int) dict \<Rightarrow> py_error + int" where
  "declared_references [] = Inr 0"
| "declared_references ((name, count) # uses) =
     (if name = '''' then Inl (EventProtocolError ''event_uses keys must be non-empty strings'')
      else if count < 0 then Inl (EventProtocolError ''event_uses must be a non-negative integer'')
      else map_sum id ((+) count) (declared_references uses))"

definition reserve_quota ::
  "int \<Rightarrow> (string, int) dict \<Rightarrow> string \<Rightarrow> int \<Rightarrow> event_table \<Rightarrow> bool ev_result" where
  "reserve_quota limit event_uses owner gen t =
     (if limit < 0 then raise (EventProtocolError ''event quota must be a non-negative integer'') t
      else if dict_get (et_quotas t) (owner, gen) \<noteq> None
      then raise (EventProtocolError ''event quota already exists'') (count_protocol_error t)
      else if list_ex (owned owner gen) (dict_values (et_entries t))
      then raise (EventProtocolError ''event quota identity already owns compatibility entries'') (count_protocol_error t)
      else case declared_references event_uses of
             Inl e \<Rightarrow> raise e t
           | Inr declared \<Rightarrow>
               if et_reserved t + limit > et_capacity t then ret False (count_capacity_reject t)
               else let t = t\<lparr>et_quotas := dict_set (owner, gen)
                               \<lparr>qt_owner = owner, qt_generation = gen, qt_limit = limit, qt_event_uses = event_uses,
                                qt_declared_references = declared, qt_produced = {}\<rparr> (et_quotas t)\<rparr>;
                        t = t\<lparr>et_peak_reserved := max (et_peak_reserved t) (et_reserved t)\<rparr>
                    in ret True (bump_version t))"

fun pop_reservations :: "(string \<times> event_entry) list \<Rightarrow> string \<Rightarrow> int \<Rightarrow> bool \<Rightarrow> event_table \<Rightarrow> bool ev_result" where
  "pop_reservations [] owner gen removed t = ret removed t"
| "pop_reservations ((name, e) # es) owner gen removed t =
     (if \<not> owned owner gen e then pop_reservations es owner gen removed t
      else if ev_producer_bound e \<or> ev_status e \<noteq> EV_PENDING
      then raise (EventProtocolError ''cannot cancel an active event reservation'') t
      else pop_reservations es owner gen True (t\<lparr>et_entries := dict_del name (et_entries t)\<rparr>))"

definition cancel_reservation :: "string \<Rightarrow> int \<Rightarrow> event_table \<Rightarrow> unit ev_result" where
  "cancel_reservation owner gen t =
     (case dict_get (et_quotas t) (owner, gen) of
        Some q \<Rightarrow>
          if qt_produced q \<noteq> {} \<or> list_ex (\<lambda>e. ev_managed e \<and> owned owner gen e) (dict_values (et_entries t))
          then raise (EventProtocolError ''cannot cancel an event quota after output registration'') t
          else ret () (bump_version (t\<lparr>et_quotas := dict_del (owner, gen) (et_quotas t)\<rparr>))
      | None \<Rightarrow>
          and_then (pop_reservations (et_entries t) owner gen False t) (\<lambda>removed t.
            ret () (if removed then bump_version t else t)))"

definition unique_names :: "string list \<Rightarrow> string \<Rightarrow> py_error + string list" where
  "unique_names names kind =
     (if length (fromkeys names) \<noteq> length names
      then Inl (EventProtocolError (''duplicate '' @ kind @ '' event reference'')) else Inr (fromkeys names))"

fun check_outputs :: "string list \<Rightarrow> event_quota \<Rightarrow> event_table \<Rightarrow> py_error + unit" where
  "check_outputs [] q t = Inr ()"
| "check_outputs (name # names) q t =
     (if name \<in> qt_produced q
      then Inl (EventProtocolError ''output event was already produced in this launch'')
      else if dict_get (qt_event_uses q) name = None
      then Inl (EventProtocolError ''output event is absent from compiler event_uses'')
      else if dict_get (et_entries t) name \<noteq> None
      then Inl (EventProtocolError ''output event already has a live slot'')
      else check_outputs names q t)"

definition preflight_outputs :: "string list \<Rightarrow> string \<Rightarrow> int \<Rightarrow> event_table \<Rightarrow> string list ev_result" where
  "preflight_outputs names owner gen t =
     (case unique_names names ''output'' of
        Inl e \<Rightarrow> raise e t
      | Inr names \<Rightarrow>
          and_then (et_quota owner gen t) (\<lambda>q t.
            case check_outputs names q t of
              Inl e \<Rightarrow> raise e t
            | Inr _ \<Rightarrow>
                if managed_live owner gen t + int (length names) > qt_limit q
                then raise (EventProtocolError ''event outputs exceed compiler frontier quota'') t
                else ret names t))"

fun check_dependencies :: "string list \<Rightarrow> string \<Rightarrow> int \<Rightarrow> event_table \<Rightarrow> unit ev_result" where
  "check_dependencies [] owner gen t = ret () t"
| "check_dependencies (name # names) owner gen t =
     (case dict_get (et_entries t) name of
        None \<Rightarrow> raise (EventProtocolError ''dependency event has no live slot; historical events cannot be resurrected'') t
      | Some e \<Rightarrow>
          and_then (validate_identity e owner gen False t) (\<lambda>_ t.
            if \<not> ev_managed e then raise (EventProtocolError ''dependency event is not launch-managed'') t
            else if \<not> ev_producer_bound e then raise (EventProtocolError ''dependency event has no bound producer'') t
            else if ev_consumer_refs e \<ge> ev_future_uses e
            then raise (EventProtocolError ''dependency event exceeds compiler future-use count'') t
            else check_dependencies names owner gen t))"

definition preflight_action ::
  "string list \<Rightarrow> string list \<Rightarrow> string \<Rightarrow> int \<Rightarrow> event_table \<Rightarrow> unit ev_result" where
  "preflight_action outputs deps owner gen t =
     and_then (preflight_outputs outputs owner gen t) (\<lambda>_ t.
       case unique_names deps ''dependency'' of
         Inl e \<Rightarrow> raise e t
       | Inr deps \<Rightarrow>
           and_then (et_quota owner gen t) (\<lambda>_ t. check_dependencies deps owner gen t))"

definition set_entry :: "string \<Rightarrow> event_entry \<Rightarrow> event_table \<Rightarrow> event_table" where
  "set_entry name e t = t\<lparr>et_entries := dict_set name e (et_entries t)\<rparr>"

fun set_future_uses :: "string list \<Rightarrow> (string, int) dict \<Rightarrow> event_table \<Rightarrow> unit ev_result" where
  "set_future_uses [] uses t = ret () t"
| "set_future_uses (name # names) uses t =
     (case dict_get (et_entries t) name of
        None \<Rightarrow> raise KeyError t
      | Some e \<Rightarrow>
          (case dict_get uses name of
             None \<Rightarrow> raise KeyError t
           | Some n \<Rightarrow> set_future_uses names uses (set_entry name (e\<lparr>ev_future_uses := n\<rparr>) t)))"

definition mark_produced :: "string list \<Rightarrow> string \<Rightarrow> int \<Rightarrow> event_quota \<Rightarrow> event_table \<Rightarrow> event_table" where
  "mark_produced names owner gen q t =
     t\<lparr>et_quotas := dict_set (owner, gen) (q\<lparr>qt_produced := qt_produced q \<union> set names\<rparr>) (et_quotas t)\<rparr>"

definition reserve_outputs :: "string list \<Rightarrow> string \<Rightarrow> int \<Rightarrow> event_table \<Rightarrow> event_entry list ev_result" where
  "reserve_outputs names owner gen t =
     and_then (preflight_outputs names owner gen t) (\<lambda>names t.
       and_then (et_quota owner gen t) (\<lambda>q t.
         and_then (allocate_all names owner gen True t) (\<lambda>_ t.
           and_then (set_future_uses names (qt_event_uses q) t) (\<lambda>_ t.
             ret (map (\<lambda>n. the (dict_get (et_entries t) n)) names) (mark_produced names owner gen q t)))))"

section \<open>Retirement\<close>

definition deque_push :: "int \<Rightarrow> 'a \<Rightarrow> 'a list \<Rightarrow> 'a list" where
  "deque_push maxlen x xs = (if int (length xs) \<ge> maxlen then tl (xs @ [x]) else xs @ [x])"

definition retire_record :: "event_entry \<Rightarrow> int \<Rightarrow> string \<Rightarrow> retired_event" where
  "retire_record e cycle reason =
     \<lparr>rt_name = ev_name e, rt_id = ev_id e, rt_seq = ev_sequence e, rt_status = ev_status e,
      rt_producer = ev_producer_id e, rt_owner = ev_owner e, rt_generation = ev_generation e,
      rt_retired_cycle = cycle, rt_reason = reason\<rparr>"

text \<open>
  Retirement of an entry object that is no longer the live instance raises; the code only
  passes entries it has read under their name in the same call.
\<close>

definition retire_entry :: "string \<Rightarrow> int \<Rightarrow> string \<Rightarrow> event_table \<Rightarrow> unit ev_result" where
  "retire_entry name cycle reason t =
     (case dict_get (et_entries t) name of
        None \<Rightarrow> raise (EventProtocolError ''event is not the live instance'') t
      | Some e \<Rightarrow>
          (let t = t\<lparr>et_entries := dict_del name (et_entries t),
                     et_retired := deque_push (et_capacity t) (retire_record e cycle reason) (et_retired t)\<rparr>
           in ret () (if ev_managed e then t else bump_version t)))"

definition reclaimable :: "event_entry \<Rightarrow> bool" where
  "reclaimable e \<longleftrightarrow> \<not> (\<not> ev_managed e \<or> ev_status e = EV_PENDING \<or> ev_consumer_refs e \<noteq> 0 \<or> ev_future_uses e \<noteq> 0)"

definition maybe_reclaim :: "string \<Rightarrow> int \<Rightarrow> string \<Rightarrow> event_table \<Rightarrow> bool ev_result" where
  "maybe_reclaim name cycle reason t =
     (case dict_get (et_entries t) name of
        None \<Rightarrow> raise (EventProtocolError ''event is not the live instance'') t
      | Some e \<Rightarrow>
          if \<not> reclaimable e then ret False t
          else and_then (retire_entry name cycle reason t) (\<lambda>_ t. ret True t))"

section \<open>Producers and consumers\<close>

definition bind_producer :: "string \<Rightarrow> string \<Rightarrow> int \<Rightarrow> int \<Rightarrow> event_table \<Rightarrow> event_entry ev_result" where
  "bind_producer name owner gen producer t =
     (case dict_get (et_entries t) name of
        None \<Rightarrow> raise (EventProtocolError ''event was not reserved'') t
      | Some e \<Rightarrow>
          and_then (validate_identity e owner gen False t) (\<lambda>_ t.
            if ev_status e \<noteq> EV_PENDING then raise (EventProtocolError ''event is already terminal'') t
            else if ev_producer_bound e \<and> ev_producer_id e \<noteq> producer
            then raise (EventProtocolError ''event already has producer'') (count_protocol_error t)
            else let e = e\<lparr>ev_producer_bound := True, ev_producer_id := producer\<rparr>
                 in ret e (set_entry name e t)))"

definition add_consumer :: "string \<Rightarrow> string \<Rightarrow> int \<Rightarrow> event_table \<Rightarrow> event_entry ev_result" where
  "add_consumer name owner gen t =
     (case dict_get (et_entries t) name of
        None \<Rightarrow> raise (EventProtocolError ''dependency event has no live slot'') (count_protocol_error t)
      | Some e \<Rightarrow>
          and_then (validate_identity e owner gen False t) (\<lambda>_ t.
            if \<not> ev_producer_bound e
            then raise (EventProtocolError ''dependency event has no bound producer'') (count_protocol_error t)
            else if ev_managed e \<and> ev_consumer_refs e \<ge> ev_future_uses e
            then raise (EventProtocolError ''dependency event exceeds compiler future-use count'') (count_protocol_error t)
            else let e = e\<lparr>ev_consumer_refs := ev_consumer_refs e + 1\<rparr>
                 in ret e (set_entry name e t)))"

text \<open>
  Consuming and cancelling share their shape: every name is checked first, then every entry
  loses one consumer reference and one future use and is reclaimed if nothing is left.
\<close>

fun check_entries ::
  "string list \<Rightarrow> string \<Rightarrow> int \<Rightarrow> string \<Rightarrow> (event_entry \<Rightarrow> bool) \<Rightarrow> string \<Rightarrow> event_table \<Rightarrow> unit ev_result" where
  "check_entries [] owner gen absent good bad t = ret () t"
| "check_entries (name # names) owner gen absent good bad t =
     (case dict_get (et_entries t) name of
        None \<Rightarrow> raise (EventProtocolError absent) t
      | Some e \<Rightarrow>
          and_then (validate_identity e owner gen False t) (\<lambda>_ t.
            if \<not> good e then raise (EventProtocolError bad) t
            else check_entries names owner gen absent good bad t))"

definition drop_ref :: "event_entry \<Rightarrow> event_entry" where
  "drop_ref e = e\<lparr>ev_consumer_refs := ev_consumer_refs e - 1, ev_future_uses := ev_future_uses e - 1\<rparr>"

fun update_and_reclaim ::
  "(event_entry \<Rightarrow> event_entry) \<Rightarrow> string list \<Rightarrow> int \<Rightarrow> string \<Rightarrow> event_table \<Rightarrow> unit ev_result" where
  "update_and_reclaim f [] cycle reason t = ret () t"
| "update_and_reclaim f (name # names) cycle reason t =
     (case dict_get (et_entries t) name of
        None \<Rightarrow> raise (EventProtocolError ''event is not the live instance'') t
      | Some e \<Rightarrow>
          and_then (maybe_reclaim name cycle reason (set_entry name (f e) t)) (\<lambda>_ t.
            update_and_reclaim f names cycle reason t))"

definition consumable :: "event_entry \<Rightarrow> bool" where
  "consumable e \<longleftrightarrow> \<not> (\<not> ev_managed e \<or> \<not> ev_producer_bound e \<or> ev_status e \<noteq> EV_DONE
     \<or> ev_consumer_refs e \<le> 0 \<or> ev_future_uses e \<le> 0)"

definition consume_dependencies :: "string list \<Rightarrow> string \<Rightarrow> int \<Rightarrow> int \<Rightarrow> event_table \<Rightarrow> unit ev_result" where
  "consume_dependencies names owner gen cycle t =
     (case unique_names names ''dependency'' of
        Inl e \<Rightarrow> raise e t
      | Inr names \<Rightarrow>
          and_then (et_quota owner gen t) (\<lambda>_ t.
            and_then (check_entries names owner gen ''accepted dependency event has no live slot'' consumable
                        ''dependency event cannot be consumed'' t) (\<lambda>_ t.
              update_and_reclaim drop_ref names cycle ''last dependency consumed'' t)))"

definition cancellable :: "event_entry \<Rightarrow> bool" where
  "cancellable e \<longleftrightarrow> \<not> (\<not> ev_managed e \<or> ev_consumer_refs e \<le> 0 \<or> ev_future_uses e \<le> 0)"

definition cancel_dependencies :: "string list \<Rightarrow> string \<Rightarrow> int \<Rightarrow> int \<Rightarrow> event_table \<Rightarrow> unit ev_result" where
  "cancel_dependencies names owner gen cycle t =
     (case unique_names names ''dependency'' of
        Inl e \<Rightarrow> raise e t
      | Inr names \<Rightarrow>
          and_then (et_quota owner gen t) (\<lambda>_ t.
            and_then (check_entries names owner gen ''cancelled dependency event has no live slot'' cancellable
                        ''dependency event has no registered consumer'' t) (\<lambda>_ t.
              update_and_reclaim drop_ref names cycle ''registered consumer cancelled'' t)))"

definition managed_names :: "string \<Rightarrow> int \<Rightarrow> event_table \<Rightarrow> string list" where
  "managed_names owner gen t =
     map fst (filter (\<lambda>(n, e). ev_managed e \<and> owned owner gen e) (et_entries t))"

definition abandon_uses :: "event_entry \<Rightarrow> event_entry" where
  "abandon_uses e = e\<lparr>ev_future_uses := 0\<rparr>"

definition abandon_future_uses :: "string \<Rightarrow> int \<Rightarrow> int \<Rightarrow> event_table \<Rightarrow> unit ev_result" where
  "abandon_future_uses owner gen cycle t =
     and_then (et_quota owner gen t) (\<lambda>_ t.
       if list_ex (\<lambda>e. ev_managed e \<and> owned owner gen e \<and> ev_consumer_refs e \<noteq> 0) (dict_values (et_entries t))
       then raise (EventProtocolError ''cannot abandon future uses while registered consumers remain'') t
       else update_and_reclaim abandon_uses (managed_names owner gen t) cycle ''future references abandoned'' t)"

definition reset_pending :: "int \<Rightarrow> event_entry \<Rightarrow> event_entry" where
  "reset_pending cycle e =
     (if ev_status e = EV_PENDING then e\<lparr>ev_status := EV_RESET, ev_timestamp := cycle\<rparr> else e)"

definition produced_by :: "int \<Rightarrow> event_entry \<Rightarrow> bool" where
  "produced_by producer e \<longleftrightarrow> \<not> (\<not> ev_managed e \<or> \<not> ev_producer_bound e \<or> ev_producer_id e \<noteq> producer)"

definition cancel_outputs :: "string list \<Rightarrow> string \<Rightarrow> int \<Rightarrow> int \<Rightarrow> int \<Rightarrow> event_table \<Rightarrow> unit ev_result" where
  "cancel_outputs names owner gen producer cycle t =
     (case unique_names names ''output'' of
        Inl e \<Rightarrow> raise e t
      | Inr names \<Rightarrow>
          and_then (check_entries names owner gen ''cancelled output event has no live slot''
                      (produced_by producer) ''cancelled output event has a foreign producer'' t) (\<lambda>_ t.
            update_and_reclaim (reset_pending cycle) names cycle ''producer cancelled before acceptance'' t))"

section \<open>Signals and waits\<close>

abbreviation count_stale_sequence :: "event_table \<Rightarrow> event_table" where
  "count_stale_sequence t \<equiv> t\<lparr>et_stale_sequence := et_stale_sequence t + 1\<rparr>"

abbreviation count_wrong_owner :: "event_table \<Rightarrow> event_table" where
  "count_wrong_owner t \<equiv> t\<lparr>et_wrong_owner := et_wrong_owner t + 1\<rparr>"

definition signal_entry ::
  "string \<Rightarrow> event_entry \<Rightarrow> event_status \<Rightarrow> int \<Rightarrow> int \<Rightarrow> int \<Rightarrow> string option \<Rightarrow> int option \<Rightarrow> int option
   \<Rightarrow> event_table \<Rightarrow> bool ev_result" where
  "signal_entry name e status producer cycle code exp_owner exp_gen exp_seq t =
     (case validate_identity e (case exp_owner of Some ow \<Rightarrow> ow | None \<Rightarrow> ev_owner e)
                             (case exp_gen of Some g \<Rightarrow> g | None \<Rightarrow> ev_generation e) False t of
        (Inl _, t) \<Rightarrow> ret False (count_wrong_owner t)
      | (Inr _, t) \<Rightarrow>
          (let sequence = (if exp_seq = None \<and> ev_expected_sequence e \<noteq> 0 then Some (ev_expected_sequence e) else exp_seq)
           in if sequence \<noteq> None \<and> Some (ev_sequence e) \<noteq> sequence then ret False (count_stale_sequence t)
              else if ev_producer_bound e \<and> producer \<noteq> ev_producer_id e then ret False (count_wrong_owner t)
              else if ev_status e \<noteq> EV_PENDING
              then ret False (t\<lparr>et_duplicate_signal := et_duplicate_signal t + 1\<rparr>)
              else and_then (maybe_reclaim name cycle ''terminal event has no remaining references''
                     (set_entry name (e\<lparr>ev_status := status, ev_producer_id := producer, ev_timestamp := cycle,
                                        ev_error_code := code\<rparr>) t))
                     (\<lambda>_ t. ret True t)))"

definition signal ::
  "string \<Rightarrow> event_status \<Rightarrow> int \<Rightarrow> int \<Rightarrow> int \<Rightarrow> string option \<Rightarrow> int option \<Rightarrow> int option
   \<Rightarrow> event_table \<Rightarrow> bool ev_result" where
  "signal name status producer cycle code exp_owner exp_gen exp_seq t =
     (case dict_get (et_entries t) name of
        Some e \<Rightarrow> signal_entry name e status producer cycle code exp_owner exp_gen exp_seq t
      | None \<Rightarrow>
          if exp_owner \<noteq> None \<or> exp_gen \<noteq> None then ret False (count_stale_sequence t)
          else case register name '''' 0 t of
                 (Inl _, t) \<Rightarrow> ret False t
               | (Inr e, t) \<Rightarrow> signal_entry name e status producer cycle code exp_owner exp_gen exp_seq t)"

definition wait ::
  "string \<Rightarrow> int option \<Rightarrow> string option \<Rightarrow> int option \<Rightarrow> event_table \<Rightarrow> event_status option ev_result" where
  "wait name exp_seq exp_owner exp_gen t =
     (case dict_get (et_entries t) name of
        None \<Rightarrow> ret None t
      | Some e \<Rightarrow>
          if exp_owner \<noteq> None \<and> Some (ev_owner e) \<noteq> exp_owner then ret None (count_wrong_owner t)
          else if exp_gen \<noteq> None \<and> Some (ev_generation e) \<noteq> exp_gen then ret None (count_stale_sequence t)
          else let t = (case exp_seq of None \<Rightarrow> t | Some n \<Rightarrow> set_entry name (e\<lparr>ev_expected_sequence := n\<rparr>) t)
               in if exp_seq \<noteq> None \<and> Some (ev_sequence e) \<noteq> exp_seq then ret None t
                  else if \<not> ev_producer_bound e \<and> ev_owner e \<noteq> '''' then ret None t
                  else if ev_status e = EV_PENDING then ret None t
                  else ret (Some (ev_status e)) t)"

definition advance_sequence :: "string \<Rightarrow> event_table \<Rightarrow> int ev_result" where
  "advance_sequence name t =
     and_then (case dict_get (et_entries t) name of Some e \<Rightarrow> ret e t | None \<Rightarrow> register name '''' 0 t) (\<lambda>e t.
       if ev_managed e then raise (EventProtocolError ''managed event sequences are fixed for one launch'') t
       else ret (ev_sequence e + 1)
              (set_entry name (e\<lparr>ev_sequence := ev_sequence e + 1, ev_status := EV_PENDING,
                                 ev_producer_bound := False, ev_consumer_refs := 0\<rparr>) t))"

section \<open>Release, reset and clear\<close>

fun retire_all :: "string list \<Rightarrow> int \<Rightarrow> string \<Rightarrow> event_table \<Rightarrow> unit ev_result" where
  "retire_all [] cycle reason t = ret () t"
| "retire_all (name # names) cycle reason t =
     and_then (retire_entry name cycle reason t) (\<lambda>_ t. retire_all names cycle reason t)"

definition owned_names :: "string \<Rightarrow> int \<Rightarrow> event_table \<Rightarrow> string list" where
  "owned_names owner gen t = map fst (filter (\<lambda>(n, e). owned owner gen e) (et_entries t))"

definition release_owner :: "string \<Rightarrow> int \<Rightarrow> int \<Rightarrow> event_table \<Rightarrow> int ev_result" where
  "release_owner owner gen cycle t =
     (let names = owned_names owner gen t;
          entries = filter (owned owner gen) (dict_values (et_entries t))
      in case dict_get (et_quotas t) (owner, gen) of
           Some q \<Rightarrow>
             if list_ex (\<lambda>e. ev_status e = EV_PENDING) entries
             then raise (EventProtocolError ''cannot release event quota with pending producers'') t
             else if list_ex (\<lambda>e. ev_consumer_refs e \<noteq> 0) entries
             then raise (EventProtocolError ''cannot release event quota with registered consumers'') t
             else if list_ex (\<lambda>e. ev_future_uses e \<noteq> 0) entries
             then raise (EventProtocolError ''cannot release event quota with future dependency references'') t
             else and_then (retire_all names cycle ''owner retired'' t) (\<lambda>_ t.
                    ret (int (length names)) (bump_version (t\<lparr>et_quotas := dict_del (owner, gen) (et_quotas t)\<rparr>)))
         | None \<Rightarrow>
             and_then (retire_all names cycle ''compatibility owner retired'' t) (\<lambda>_ t. ret (int (length names)) t))"

definition et_reset :: "event_table \<Rightarrow> event_table" where
  "et_reset t = t\<lparr>et_entries :=
     map (\<lambda>(n, e). (n, if ev_status e = EV_PENDING then e\<lparr>ev_status := EV_RESET\<rparr> else e)) (et_entries t)\<rparr>"

definition et_clear :: "event_table \<Rightarrow> event_table" where
  "et_clear t = t\<lparr>et_entries := [], et_quotas := [], et_next_id := 0, et_retired := [],
     et_peak_reserved := 0, et_peak_active := 0, et_stale_sequence := 0, et_wrong_owner := 0,
     et_duplicate_signal := 0, et_capacity_reject := 0, et_protocol_error := 0,
     et_version := et_version t + 1\<rparr>"

end
