(* ===== verification/Event_Safety.thy ===== *)
theory Event_Safety
  imports Event_Table
begin

text \<open>
  Invariants and properties of the event table. Every operation is shown to \<^emph>\<open>keep\<close> the
  table: it preserves the invariant (bounded storage, per-launch frontier, reference
  counts) and only lets entries evolve in the permitted way. The proofs are composed along
  the code's structure with one rule per construct (return, raise, sequence, entry update).
\<close>

section \<open>Invariant and evolution\<close>

definition entry_ok :: "event_table \<Rightarrow> string \<Rightarrow> event_entry \<Rightarrow> bool" where
  "entry_ok t n e \<longleftrightarrow> ev_name e = n \<and> ev_id e < et_next_id t \<and> 0 \<le> ev_consumer_refs e
     \<and> (ev_managed e \<longrightarrow> ev_consumer_refs e \<le> ev_future_uses e)"

definition entries_ok :: "event_table \<Rightarrow> bool" where
  "entries_ok t \<longleftrightarrow> keys_distinct (et_entries t) \<and> (\<forall>(n, e) \<in> set (et_entries t). entry_ok t n e)"

definition quotas_ok :: "event_table \<Rightarrow> bool" where
  "quotas_ok t \<longleftrightarrow> keys_distinct (et_quotas t)
     \<and> (\<forall>(k, q) \<in> set (et_quotas t). 0 \<le> qt_limit q \<and> (\<forall>(n, c) \<in> set (qt_event_uses q). 0 \<le> c))"

definition limit_of :: "event_table \<Rightarrow> string \<Rightarrow> int \<Rightarrow> int" where
  "limit_of t ow g = (case dict_get (et_quotas t) (ow, g) of None \<Rightarrow> 0 | Some q \<Rightarrow> qt_limit q)"

definition frontier_ok :: "event_table \<Rightarrow> bool" where
  "frontier_ok t \<longleftrightarrow> (\<forall>ow g. managed_live ow g t \<le> limit_of t ow g)"

definition bounds_ok :: "event_table \<Rightarrow> bool" where
  "bounds_ok t \<longleftrightarrow> 1 \<le> et_capacity t \<and> et_reserved t \<le> et_capacity t
     \<and> et_active t \<le> et_peak_active t \<and> et_reserved t \<le> et_peak_reserved t
     \<and> et_peak_reserved t \<le> et_capacity t \<and> int (length (et_retired t)) \<le> et_capacity t"

definition et_inv :: "event_table \<Rightarrow> bool" where
  "et_inv t \<longleftrightarrow> entries_ok t \<and> quotas_ok t \<and> frontier_ok t \<and> bounds_ok t"

definition evolves :: "event_entry \<Rightarrow> event_entry \<Rightarrow> bool" where
  "evolves e e' \<longleftrightarrow> ev_name e' = ev_name e \<and> ev_id e' = ev_id e \<and> ev_owner e' = ev_owner e
     \<and> ev_generation e' = ev_generation e \<and> ev_managed e' = ev_managed e
     \<and> (ev_managed e \<longrightarrow> ev_sequence e' = ev_sequence e
          \<and> (ev_status e \<noteq> EV_PENDING \<longrightarrow> ev_status e' = ev_status e)
          \<and> (ev_producer_bound e \<longrightarrow> ev_producer_bound e' \<and> ev_producer_id e' = ev_producer_id e))"

definition step_rel :: "event_table \<Rightarrow> event_table \<Rightarrow> bool" where
  "step_rel t t' \<longleftrightarrow> et_next_id t \<le> et_next_id t' \<and> et_capacity t' = et_capacity t
     \<and> (\<forall>n e'. dict_get (et_entries t') n = Some e' \<longrightarrow>
          et_next_id t \<le> ev_id e' \<or> (\<exists>e. dict_get (et_entries t) n = Some e \<and> evolves e e'))"

lemma evolves_refl [simp]: "evolves e e"
  by (simp add: evolves_def)

lemma evolves_trans: "evolves e e' \<Longrightarrow> evolves e' e'' \<Longrightarrow> evolves e e''"
  by (auto simp: evolves_def)

lemma step_rel_refl: "step_rel t t"
  by (auto simp: step_rel_def)

lemma step_rel_trans:
  assumes "step_rel t t'" "step_rel t' t''"
  shows "step_rel t t''"
proof -
  have "et_next_id t \<le> ev_id e'' \<or> (\<exists>e. dict_get (et_entries t) n = Some e \<and> evolves e e'')"
    if e'': "dict_get (et_entries t'') n = Some e''" for n e''
  proof (cases "et_next_id t' \<le> ev_id e''")
    case True
    with assms(1) show ?thesis by (simp add: step_rel_def)
  next
    case False
    with assms(2) e'' obtain e' where e': "dict_get (et_entries t') n = Some e'" "evolves e' e''"
      by (auto simp: step_rel_def)
    with assms(1) have "et_next_id t \<le> ev_id e' \<or> (\<exists>e. dict_get (et_entries t) n = Some e \<and> evolves e e')"
      by (simp add: step_rel_def)
    with e'(2) show ?thesis by (auto simp: evolves_def intro: evolves_trans)
  qed
  with assms show ?thesis by (auto simp: step_rel_def)
qed

lemma step_relD:
  "step_rel t t' \<Longrightarrow> dict_get (et_entries t') n = Some e' \<Longrightarrow> ev_id e' < et_next_id t \<Longrightarrow>
   \<exists>e. dict_get (et_entries t) n = Some e \<and> evolves e e'"
  unfolding step_rel_def by (meson not_le)

section \<open>A small logic of outcomes\<close>

interpretation ev_logic: outcome_logic et_inv step_rel
  by unfold_locales (rule step_rel_refl, rule step_rel_trans)

abbreviation keeps :: "event_table \<Rightarrow> 'a ev_result \<Rightarrow> bool" where
  "keeps \<equiv> ev_logic.keeps"

named_theorems keeps_intros

lemmas keeps_def = ev_logic.keeps_def
lemmas keeps_and_then = ev_logic.keeps_and_then
lemmas keeps_same [keeps_intros] = ev_logic.keeps_same
lemmas keeps_sum [keeps_intros] = ev_logic.keeps_sum

declare ev_logic.keeps_if [keeps_intros] ev_logic.keeps_opt [keeps_intros]

text \<open>Counters and the version are not part of what is kept.\<close>

lemma inv_counters [simp]:
  "et_inv (t\<lparr>et_protocol_error := c\<rparr>) = et_inv t" "et_inv (t\<lparr>et_capacity_reject := c\<rparr>) = et_inv t"
  "et_inv (t\<lparr>et_stale_sequence := c\<rparr>) = et_inv t" "et_inv (t\<lparr>et_wrong_owner := c\<rparr>) = et_inv t"
  "et_inv (t\<lparr>et_duplicate_signal := c\<rparr>) = et_inv t" "et_inv (t\<lparr>et_version := c\<rparr>) = et_inv t"
  by (simp_all add: et_inv_def entries_ok_def entry_ok_def quotas_ok_def frontier_ok_def managed_live_def
      limit_of_def bounds_ok_def et_reserved_def quota_reserved_def et_active_def)

lemma step_counters [simp]:
  "step_rel t (t'\<lparr>et_protocol_error := c\<rparr>) = step_rel t t'" "step_rel t (t'\<lparr>et_capacity_reject := c\<rparr>) = step_rel t t'"
  "step_rel t (t'\<lparr>et_stale_sequence := c\<rparr>) = step_rel t t'" "step_rel t (t'\<lparr>et_wrong_owner := c\<rparr>) = step_rel t t'"
  "step_rel t (t'\<lparr>et_duplicate_signal := c\<rparr>) = step_rel t t'" "step_rel t (t'\<lparr>et_version := c\<rparr>) = step_rel t t'"
  by (simp_all add: step_rel_def)

lemma keeps_counters [keeps_intros]:
  "keeps t (v, t\<lparr>et_protocol_error := c\<rparr>)" "keeps t (v, t\<lparr>et_capacity_reject := c\<rparr>)"
  "keeps t (v, t\<lparr>et_stale_sequence := c\<rparr>)" "keeps t (v, t\<lparr>et_wrong_owner := c\<rparr>)"
  "keeps t (v, t\<lparr>et_duplicate_signal := c\<rparr>)"
  by (simp_all add: keeps_def step_rel_refl)

lemma entries_get: "et_inv t \<Longrightarrow> dict_get (et_entries t) n = Some e \<Longrightarrow> entry_ok t n e"
  by (auto simp: et_inv_def entries_ok_def dest: dict_get_in_set)

lemma keeps_quota [keeps_intros]: "keeps t (et_quota ow g t)"
  unfolding et_quota_def by (intro keeps_intros)

lemma keeps_identity [keeps_intros]: "keeps t (validate_identity e ow g b t)"
  unfolding validate_identity_def by (intro keeps_intros)

lemma et_quota_Inr: "et_quota ow g t = (Inr q, t') \<longleftrightarrow> t' = t \<and> dict_get (et_quotas t) (ow, g) = Some q"
  by (auto simp: et_quota_def split: option.splits)

lemma validate_identity_Inr: "validate_identity e ow g b t = (Inr u, t') \<Longrightarrow> t' = t"
  by (auto simp: validate_identity_def split: if_splits)

section \<open>Entry updates, retirement, allocation\<close>

lemma set_entry_inv:
  assumes inv: "et_inv t" and get: "dict_get (et_entries t) n = Some e" and ev: "evolves e e'"
    and refs: "0 \<le> ev_consumer_refs e'" "ev_managed e' \<Longrightarrow> ev_consumer_refs e' \<le> ev_future_uses e'"
  shows "et_inv (set_entry n e' t) \<and> step_rel t (set_entry n e' t)"
proof -
  have en: "entry_ok t n e" using entries_get [OF inv get] .
  have m: "ev_managed e' = ev_managed e" "\<And>ow g. owned ow g e' = owned ow g e" using ev by (auto simp: evolves_def owned_def)
  have live: "managed_live ow g (set_entry n e' t) = managed_live ow g t" for ow g
    by (simp add: managed_live_def set_entry_def dict_sum_update [OF get] m)
  have res: "et_reserved (set_entry n e' t) = et_reserved t"
    by (simp add: et_reserved_def quota_reserved_def set_entry_def dict_sum_update [OF get] m)
  have act: "et_active (set_entry n e' t) = et_active t"
    using get by (simp add: et_active_def set_entry_def length_dict_set)
  have "entry_ok t n e'" using en ev refs by (auto simp: entry_ok_def evolves_def)
  then have "entries_ok (set_entry n e' t)"
    using inv by (auto simp: et_inv_def entries_ok_def set_entry_def set_dict_set dict_simps entry_ok_def)
  then have "et_inv (set_entry n e' t)"
    using inv by (simp add: et_inv_def frontier_ok_def live bounds_ok_def res act)
      (simp add: set_entry_def quotas_ok_def limit_of_def)
  moreover have "step_rel t (set_entry n e' t)"
    using get ev by (auto simp: step_rel_def set_entry_def dict_simps)
  ultimately show ?thesis ..
qed

lemma keeps_set_entry:
  assumes "dict_get (et_entries t) n = Some e" "evolves e e'" "et_inv t \<Longrightarrow> 0 \<le> ev_consumer_refs e'"
    "et_inv t \<Longrightarrow> ev_managed e' \<Longrightarrow> ev_consumer_refs e' \<le> ev_future_uses e'"
  shows "keeps t (v, set_entry n e' t)"
  using assms set_entry_inv [of t n e e'] by (simp add: keeps_def)

lemma deque_push_length: "1 \<le> cap \<Longrightarrow> int (length xs) \<le> cap \<Longrightarrow> int (length (deque_push cap x xs)) \<le> cap"
  by (simp add: deque_push_def)

lemma delete_entry_inv:
  assumes inv: "et_inv t" and get: "dict_get (et_entries t) n = Some e"
    and rl: "int (length rs) \<le> et_capacity t"
  shows "et_inv (t\<lparr>et_entries := dict_del n (et_entries t), et_retired := rs\<rparr>)"
    "step_rel t (t\<lparr>et_entries := dict_del n (et_entries t), et_retired := rs\<rparr>)"
proof -
  let ?t = "t\<lparr>et_entries := dict_del n (et_entries t), et_retired := rs\<rparr>"
  have kd: "keys_distinct (et_entries t)" using inv by (simp add: et_inv_def entries_ok_def)
  have live: "managed_live ow g ?t \<le> managed_live ow g t" for ow g
    by (simp add: managed_live_def dict_sum_del [OF kd get])
  have res: "et_reserved ?t \<le> et_reserved t"
    by (simp add: et_reserved_def quota_reserved_def dict_sum_del [OF kd get])
  have act: "et_active ?t \<le> et_active t"
    using get by (simp add: et_active_def length_dict_del [OF kd])
  have "entries_ok ?t" using inv by (auto simp: et_inv_def entries_ok_def set_dict_del dict_simps entry_ok_def)
  moreover have "frontier_ok ?t"
    unfolding frontier_ok_def
  proof (intro allI)
    fix ow g
    have "limit_of ?t ow g = limit_of t ow g" by (simp add: limit_of_def)
    with inv live [of ow g] show "managed_live ow g ?t \<le> limit_of ?t ow g"
      by (metis et_inv_def frontier_ok_def order_trans)
  qed
  moreover have "bounds_ok ?t" using inv res act rl by (auto simp: et_inv_def bounds_ok_def)
  ultimately show "et_inv ?t" using inv by (simp add: et_inv_def quotas_ok_def)
  show "step_rel t ?t" by (auto simp: step_rel_def dict_simps split: if_splits)
qed

lemma keeps_retire [keeps_intros]: "keeps t (retire_entry n cycle reason t)"
proof (cases "dict_get (et_entries t) n")
  case (Some e)
  have "int (length (deque_push (et_capacity t) x (et_retired t))) \<le> et_capacity t" if "et_inv t" for x
    using that by (intro deque_push_length) (simp_all add: et_inv_def bounds_ok_def)
  with delete_entry_inv [OF _ Some] show ?thesis
    by (simp add: keeps_def retire_entry_def Some Let_def)
qed (simp add: retire_entry_def keeps_same)

lemma keeps_reclaim [keeps_intros]: "keeps t (maybe_reclaim n cycle reason t)"
  unfolding maybe_reclaim_def by (intro keeps_intros keeps_and_then)

lemma insert_entry_inv:
  assumes inv: "et_inv t" and fresh: "dict_get (et_entries t) n = None"
    and room: "if m then managed_live ow g t < limit_of t ow g else et_reserved t < et_capacity t"
  shows "et_inv (insert_entry n ow g m t) \<and> step_rel t (insert_entry n ow g m t)"
proof -
  let ?e = "new_entry n (et_next_id t) ow g m" and ?t = "insert_entry n ow g m t"
  have ent: "et_entries ?t = dict_set n ?e (et_entries t)" "et_next_id ?t = et_next_id t + 1"
    "et_quotas ?t = et_quotas t" "et_capacity ?t = et_capacity t" "et_retired ?t = et_retired t"
    by (simp_all add: insert_entry_def Let_def)
  have res: "et_reserved ?t = et_reserved t + of_bool (\<not> m)"
    by (simp add: et_reserved_def quota_reserved_def ent dict_sum_fresh [OF fresh] new_entry_def)
  have act: "et_active ?t = et_active t + 1" by (simp add: et_active_def ent length_dict_set fresh)
  have peak: "et_peak_active ?t = max (et_peak_active t) (et_active t + 1)"
    "et_peak_reserved ?t = max (et_peak_reserved t) (et_reserved t + of_bool (\<not> m))"
    using fresh by (simp_all add: insert_entry_def Let_def et_active_def et_reserved_def quota_reserved_def
        length_dict_set dict_sum_fresh new_entry_def add.assoc)
  have live: "managed_live ow' g' ?t = managed_live ow' g' t + of_bool (m \<and> ow' = ow \<and> g' = g)" for ow' g'
    by (auto simp: managed_live_def ent dict_sum_fresh [OF fresh] new_entry_def owned_def)
  have "frontier_ok ?t"
    using inv room by (auto simp: et_inv_def frontier_ok_def live limit_of_def ent split: if_splits)
  moreover have "bounds_ok ?t" using inv room by (auto simp: et_inv_def bounds_ok_def ent act res peak split: if_splits)
  moreover have "entries_ok ?t"
    using inv by (auto simp: et_inv_def entries_ok_def entry_ok_def ent set_dict_set dict_simps new_entry_def)
  ultimately have "et_inv ?t" using inv by (simp add: et_inv_def quotas_ok_def ent)
  moreover have "step_rel t ?t" by (auto simp: step_rel_def ent dict_simps new_entry_def)
  ultimately show ?thesis ..
qed

lemma keeps_allocate [keeps_intros]: "keeps t (allocate n ow g m t)"
proof -
  have "keeps t (ret x (insert_entry n ow g m t))"
    if "dict_get (et_entries t) n = None"
      "et_inv t \<Longrightarrow> if m then managed_live ow g t < limit_of t ow g else et_reserved t < et_capacity t" for x :: event_entry
    using insert_entry_inv [OF _ that(1), of m ow g] that(2) unfolding keeps_def snd_conv by blast
  then show ?thesis
    unfolding allocate_def
    by (intro keeps_intros keeps_and_then) (auto simp: et_quota_Inr limit_of_def intro: keeps_intros split: if_splits)
qed

section \<open>Compatibility operations\<close>

lemma keeps_register [keeps_intros]: "keeps t (register n ow g t)"
  unfolding register_def by (intro keeps_intros keeps_and_then)

lemma keeps_allocate_all [keeps_intros]: "keeps t (allocate_all ns ow g m t)"
  by (induction ns arbitrary: t) (auto intro!: keeps_intros keeps_and_then)

lemma keeps_missing [keeps_intros]: "keeps t (missing_names ns ow g t)"
  by (induction ns arbitrary: t) (auto intro!: keeps_intros keeps_and_then)

lemma keeps_reserve_many [keeps_intros]: "keeps t (reserve_many ns ow g t)"
  unfolding reserve_many_def by (intro keeps_intros keeps_and_then)

lemma keeps_delete: "keeps t (v, t\<lparr>et_entries := dict_del n (et_entries t)\<rparr>)"
proof (cases "dict_get (et_entries t) n")
  case None
  then have "dict_del n (et_entries t) = et_entries t" by (simp add: dict_get_None_iff)
  then show ?thesis by (simp add: keeps_same)
next
  case (Some e)
  have "int (length (et_retired t)) \<le> et_capacity t" if "et_inv t" using that by (simp add: et_inv_def bounds_ok_def)
  with delete_entry_inv [OF _ Some, of "et_retired t"] show ?thesis by (simp add: keeps_def)
qed

lemma keeps_pop: "keeps t (pop_reservations es ow g b t)"
proof (induction es arbitrary: b t)
  case (Cons p es)
  obtain n e where p: "p = (n, e)" by (cases p)
  let ?d = "t\<lparr>et_entries := dict_del n (et_entries t)\<rparr>"
  have "keeps t (and_then (ret () ?d) (\<lambda>_ t. pop_reservations es ow g True t))"
    by (rule keeps_and_then [OF keeps_delete]) (simp add: Cons)
  then show ?case using Cons by (auto simp: p intro: keeps_intros)
qed (simp add: keeps_same)

section \<open>Quota operations\<close>

lemma declared_nonneg: "declared_references uses = Inr d \<Longrightarrow> \<forall>(n, c) \<in> set uses. 0 \<le> c"
proof (induction uses arbitrary: d)
  case (Cons p uses)
  then show ?case
    by (cases p; cases "declared_references uses") (auto split: if_splits)
qed simp

lemma quota_insert_inv:
  assumes inv: "et_inv t" and fresh: "dict_get (et_quotas t) (ow, g) = None"
    and none: "managed_live ow g t = 0" and room: "et_reserved t + qt_limit q \<le> et_capacity t"
    and q: "0 \<le> qt_limit q" "\<forall>(n, c) \<in> set (qt_event_uses q). 0 \<le> c"
    and t': "t' = t\<lparr>et_quotas := dict_set (ow, g) q (et_quotas t),
        et_peak_reserved := max (et_peak_reserved t) (et_reserved t + qt_limit q)\<rparr>"
  shows "et_inv t' \<and> step_rel t t'"
proof -
  have res: "et_reserved t' = et_reserved t + qt_limit q"
    by (simp add: et_reserved_def quota_reserved_def t' dict_sum_fresh [OF fresh])
  have lim: "limit_of t' ow' g' = (if ow' = ow \<and> g' = g then qt_limit q else limit_of t ow' g')" for ow' g'
    by (simp add: limit_of_def t' dict_simps)
  have "frontier_ok t'"
    using inv none q(1) by (auto simp: et_inv_def frontier_ok_def lim) (simp_all add: managed_live_def t')
  moreover have "bounds_ok t'"
    using inv room by (simp add: et_inv_def bounds_ok_def res) (simp add: t' et_active_def)
  moreover have "quotas_ok t'"
    using inv q by (auto simp: et_inv_def quotas_ok_def t' set_dict_set dict_simps)
  moreover have "entries_ok t'" using inv by (simp add: et_inv_def entries_ok_def t' entry_ok_def)
  ultimately show ?thesis by (simp add: et_inv_def step_rel_def t')
qed

lemma managed_live_zero:
  "\<not> list_ex (\<lambda>e. ev_managed e \<and> owned ow g e) (dict_values (et_entries t)) \<Longrightarrow> managed_live ow g t = 0"
  unfolding managed_live_def by (rule dict_sum_zero) (auto simp: list_ex_iff)

lemma keeps_reserve_quota [keeps_intros]: "keeps t (reserve_quota limit uses ow g t)"
proof -
  have "keeps t (ret True (bump_version (t\<lparr>et_quotas := dict_set (ow, g) q (et_quotas t),
      et_peak_reserved := max (et_peak_reserved t) (et_reserved t + qt_limit q)\<rparr>)))"
    if "dict_get (et_quotas t) (ow, g) = None" "\<not> list_ex (owned ow g) (dict_values (et_entries t))"
      "declared_references (qt_event_uses q) = Inr d" "\<not> et_capacity t < et_reserved t + qt_limit q"
      "\<not> qt_limit q < 0" for d q
  proof -
    have "managed_live ow g t = 0" using that(2) by (intro managed_live_zero) (auto simp: list_ex_iff)
    with quota_insert_inv [OF _ that(1), of q] declared_nonneg [OF that(3)] that(4,5) show ?thesis
      unfolding keeps_def by simp
  qed
  from this [of "\<lparr>qt_owner = ow, qt_generation = g, qt_limit = limit, qt_event_uses = uses,
      qt_declared_references = _, qt_produced = {}\<rparr>"]
  show ?thesis
    unfolding reserve_quota_def
    by (intro keeps_intros) (auto simp: Let_def et_reserved_def quota_reserved_def dict_sum_fresh
        add.assoc add.commute add.left_commute)
qed

lemma quota_delete_inv:
  assumes inv: "et_inv t" and get: "dict_get (et_quotas t) (ow, g) = Some q" and none: "managed_live ow g t = 0"
  shows "et_inv (t\<lparr>et_quotas := dict_del (ow, g) (et_quotas t)\<rparr>)
     \<and> step_rel t (t\<lparr>et_quotas := dict_del (ow, g) (et_quotas t)\<rparr>)"
proof -
  let ?t = "t\<lparr>et_quotas := dict_del (ow, g) (et_quotas t)\<rparr>"
  have kd: "keys_distinct (et_quotas t)" and pos: "0 \<le> qt_limit q"
    using inv dict_get_in_set [OF get] by (auto simp: et_inv_def quotas_ok_def)
  have res: "et_reserved ?t = et_reserved t - qt_limit q"
    by (simp add: et_reserved_def quota_reserved_def dict_sum_del [OF kd get])
  have lim: "limit_of ?t ow' g' = (if ow' = ow \<and> g' = g then 0 else limit_of t ow' g')" for ow' g'
    by (simp add: limit_of_def dict_simps)
  have "frontier_ok ?t"
    using inv none by (auto simp: et_inv_def frontier_ok_def lim) (simp_all add: managed_live_def)
  moreover have "bounds_ok ?t"
    using inv pos by (simp add: et_inv_def bounds_ok_def res) (simp add: et_active_def)
  moreover have "quotas_ok ?t" using inv by (auto simp: et_inv_def quotas_ok_def set_dict_del dict_simps)
  moreover have "entries_ok ?t" using inv by (simp add: et_inv_def entries_ok_def entry_ok_def)
  ultimately show ?thesis by (simp add: et_inv_def step_rel_def)
qed

lemma keeps_delete_quota:
  assumes "dict_get (et_quotas t) (ow, g) = Some q" "et_inv t \<Longrightarrow> managed_live ow g t = 0"
  shows "keeps t (v, bump_version (t\<lparr>et_quotas := dict_del (ow, g) (et_quotas t)\<rparr>))"
  using quota_delete_inv [OF _ assms(1)] assms(2) unfolding keeps_def by simp

lemma keeps_bump: "keeps t (v, if b then bump_version t else t)"
  by (simp add: keeps_def step_rel_refl)

lemma keeps_cancel_reservation [keeps_intros]: "keeps t (cancel_reservation ow g t)"
  unfolding cancel_reservation_def
  by (intro keeps_intros keeps_and_then keeps_pop keeps_bump keeps_delete_quota managed_live_zero) auto

section \<open>Updating and reclaiming\<close>

definition upd_ok :: "(event_entry \<Rightarrow> event_entry) \<Rightarrow> event_entry \<Rightarrow> bool" where
  "upd_ok f e \<longleftrightarrow> evolves e (f e) \<and>
     (0 \<le> ev_consumer_refs e \<and> (ev_managed e \<longrightarrow> ev_consumer_refs e \<le> ev_future_uses e) \<longrightarrow>
      0 \<le> ev_consumer_refs (f e) \<and> (ev_managed e \<longrightarrow> ev_consumer_refs (f e) \<le> ev_future_uses (f e)))"

lemma keeps_upd:
  assumes get: "dict_get (et_entries t) n = Some e" and ok: "upd_ok f e"
  shows "keeps t (v, set_entry n (f e) t)"
proof (rule keeps_set_entry [OF get])
  show "evolves e (f e)" using ok by (simp add: upd_ok_def)
  assume inv: "et_inv t"
  have "entry_ok t n e" using entries_get [OF inv get] .
  then have *: "0 \<le> ev_consumer_refs (f e) \<and> (ev_managed e \<longrightarrow> ev_consumer_refs (f e) \<le> ev_future_uses (f e))"
    using ok by (simp add: entry_ok_def upd_ok_def)
  then show "0 \<le> ev_consumer_refs (f e)" ..
  show "ev_consumer_refs (f e) \<le> ev_future_uses (f e)" if "ev_managed (f e)"
    using * that ok by (simp add: upd_ok_def evolves_def)
qed

lemma retire_other: "m \<noteq> n \<Longrightarrow> dict_get (et_entries (snd (retire_entry n cycle reason t))) m = dict_get (et_entries t) m"
  by (simp add: retire_entry_def Let_def dict_simps split: option.splits)

lemma reclaim_other: "m \<noteq> n \<Longrightarrow> dict_get (et_entries (snd (maybe_reclaim n cycle reason t))) m = dict_get (et_entries t) m"
  by (simp add: maybe_reclaim_def retire_other split: option.splits)

lemma keeps_update_reclaim:
  assumes "distinct ns" "\<forall>n \<in> set ns. \<forall>e. dict_get (et_entries t) n = Some e \<longrightarrow> upd_ok f e"
  shows "keeps t (update_and_reclaim f ns cycle reason t)"
  using assms
proof (induction ns arbitrary: t)
  case (Cons n ns)
  show ?case
  proof (cases "dict_get (et_entries t) n")
    case (Some e)
    have ok: "upd_ok f e" using Cons.prems(2) Some by simp
    let ?s = "set_entry n (f e) t"
    have "keeps t (and_then (ret () ?s) (\<lambda>_ t. maybe_reclaim n cycle reason t))"
      by (rule keeps_and_then [OF keeps_upd [of _ _ _ f, OF Some ok]]) (rule keeps_reclaim)
    then have 1: "keeps t (maybe_reclaim n cycle reason ?s)" by simp
    have "keeps t1 (update_and_reclaim f ns cycle reason t1)"
      if r: "maybe_reclaim n cycle reason ?s = (Inr x, t1)" for x t1
    proof (rule Cons.IH)
      show "distinct ns" using Cons.prems(1) by simp
      have "dict_get (et_entries t1) m = dict_get (et_entries t) m" if "m \<in> set ns" for m
        using reclaim_other [of m n cycle reason ?s] r that Cons.prems(1) by (auto simp: set_entry_def dict_simps)
      then show "\<forall>m \<in> set ns. \<forall>e. dict_get (et_entries t1) m = Some e \<longrightarrow> upd_ok f e"
        using Cons.prems(2) by simp
    qed
    then show ?thesis using Some by (simp add: keeps_and_then [OF 1])
  qed (simp add: keeps_same)
qed (simp add: keeps_same)

lemma keeps_check_entries [keeps_intros]: "keeps t (check_entries ns ow g absent good bad t)"
  by (induction ns arbitrary: t) (auto intro!: keeps_intros keeps_and_then)

lemma check_entries_Inr:
  "check_entries ns ow g absent good bad t = (Inr u, t') \<Longrightarrow>
   t' = t \<and> (\<forall>n \<in> set ns. \<exists>e. dict_get (et_entries t) n = Some e \<and> good e \<and> owned ow g e)"
proof (induction ns)
  case (Cons n ns)
  show ?case
  proof (cases "dict_get (et_entries t) n")
    case (Some e)
    with Cons.prems have "owned ow g e" "good e" "check_entries ns ow g absent good bad t = (Inr u, t')"
      by (auto simp: validate_identity_def owned_def split: if_splits)
    with Cons.IH Some show ?thesis by simp
  qed (use Cons.prems in simp)
qed simp

lemma fromkeys_distinct [simp]: "distinct (fromkeys ns)"
  by (simp add: fromkeys_def)

lemma fromkeys_set [simp]: "set (fromkeys ns) = set ns"
  by (simp add: fromkeys_def)

lemma fromkeys_id: "length (fromkeys ns) = length ns \<longleftrightarrow> distinct ns"
  by (auto simp: fromkeys_def length_remdups_card_conv distinct_card intro: card_distinct)

lemma unique_names_Inr: "unique_names ns kind = Inr ms \<longleftrightarrow> distinct ns \<and> ms = ns"
proof -
  have "fromkeys ns = ns" if "distinct ns" using that by (simp add: fromkeys_def distinct_remdups_id)
  then show ?thesis using fromkeys_id [of ns] by (auto simp: unique_names_def)
qed

lemma drop_ref_ok: "ev_consumer_refs e > 0 \<Longrightarrow> upd_ok drop_ref e"
  by (auto simp: upd_ok_def evolves_def drop_ref_def)

lemma keeps_drop_refs:
  assumes "distinct ns" "\<And>e. good e \<Longrightarrow> ev_consumer_refs e > 0"
  shows "keeps t (and_then (check_entries ns ow g absent good bad t)
     (\<lambda>_ t. update_and_reclaim drop_ref ns cycle reason t))"
proof (rule keeps_and_then [OF keeps_check_entries], rule keeps_update_reclaim [OF assms(1)])
  fix x t1 assume "check_entries ns ow g absent good bad t = (Inr x, t1)"
  from check_entries_Inr [OF this] assms(2) drop_ref_ok
  show "\<forall>n \<in> set ns. \<forall>e. dict_get (et_entries t1) n = Some e \<longrightarrow> upd_ok drop_ref e" by fastforce
qed

lemma keeps_consume [keeps_intros]: "keeps t (consume_dependencies ns ow g cycle t)"
  unfolding consume_dependencies_def
  by (rule keeps_sum, rule keeps_same, rule keeps_and_then [OF keeps_quota], rule keeps_drop_refs)
     (auto simp: unique_names_Inr consumable_def)

lemma keeps_cancel_dependencies [keeps_intros]: "keeps t (cancel_dependencies ns ow g cycle t)"
  unfolding cancel_dependencies_def
  by (rule keeps_sum, rule keeps_same, rule keeps_and_then [OF keeps_quota], rule keeps_drop_refs)
     (auto simp: unique_names_Inr cancellable_def)

lemma managed_names_facts:
  assumes "et_inv t"
  shows "distinct (managed_names ow g t)"
    "n \<in> set (managed_names ow g t) \<Longrightarrow> dict_get (et_entries t) n = Some e \<Longrightarrow> ev_managed e \<and> owned ow g e"
proof -
  have kd: "keys_distinct (et_entries t)" using assms by (simp add: et_inv_def entries_ok_def)
  then show "distinct (managed_names ow g t)" by (simp add: managed_names_def distinct_map_filter)
  assume "n \<in> set (managed_names ow g t)" and e: "dict_get (et_entries t) n = Some e"
  then obtain e' where "(n, e') \<in> set (et_entries t)" "ev_managed e' \<and> owned ow g e'"
    by (auto simp: managed_names_def)
  with e show "ev_managed e \<and> owned ow g e" using dict_get_iff [OF kd, of n e'] by simp
qed

lemma keeps_abandon [keeps_intros]: "keeps t (abandon_future_uses ow g cycle t)"
proof -
  have "keeps t (update_and_reclaim abandon_uses (managed_names ow g t) cycle reason t)"
    if none: "\<not> list_ex (\<lambda>e. ev_managed e \<and> owned ow g e \<and> ev_consumer_refs e \<noteq> 0) (dict_values (et_entries t))"
    and inv: "et_inv t" for reason t
  proof (rule keeps_update_reclaim [OF managed_names_facts(1) [OF inv]], intro ballI allI impI)
    fix n e assume n: "n \<in> set (managed_names ow g t)" "dict_get (et_entries t) n = Some e"
    have "ev_managed e \<and> owned ow g e" using managed_names_facts(2) [OF inv n] .
    with none dict_get_in_set [OF n(2)] have "ev_consumer_refs e = 0" by (force simp: list_ex_iff)
    then show "upd_ok abandon_uses e" by (simp add: upd_ok_def abandon_uses_def evolves_def)
  qed
  then show ?thesis
    unfolding abandon_future_uses_def
    by (intro keeps_and_then keeps_quota) (auto simp: et_quota_Inr intro: keeps_intros)
qed

lemma keeps_cancel_outputs [keeps_intros]: "keeps t (cancel_outputs ns ow g producer cycle t)"
proof -
  have ok: "upd_ok (reset_pending cycle) e" for e
    by (auto simp: upd_ok_def reset_pending_def evolves_def)
  show ?thesis
    unfolding cancel_outputs_def
    by (intro keeps_intros keeps_and_then keeps_update_reclaim) (auto simp: unique_names_Inr ok)
qed

section \<open>Outputs of an action\<close>

lemma preflight_outputs_Inr:
  assumes "preflight_outputs ns ow g t = (Inr ms, t')"
  shows "t' = t \<and> ms = ns \<and> distinct ns \<and> (\<exists>q. dict_get (et_quotas t) (ow, g) = Some q
     \<and> managed_live ow g t + int (length ns) \<le> qt_limit q \<and> check_outputs ns q t = Inr ())"
  using assms unfolding preflight_outputs_def
  by (auto simp: unique_names_Inr et_quota_def split: sum.splits option.splits if_splits)

lemma keeps_preflight_outputs [keeps_intros]: "keeps t (preflight_outputs ns ow g t)"
  unfolding preflight_outputs_def by (intro keeps_intros keeps_and_then)

lemma keeps_check_dependencies [keeps_intros]: "keeps t (check_dependencies ns ow g t)"
  by (induction ns arbitrary: t) (auto intro!: keeps_intros keeps_and_then)

lemma keeps_preflight_action [keeps_intros]: "keeps t (preflight_action outs deps ow g t)"
  unfolding preflight_action_def by (intro keeps_intros keeps_and_then)

lemma allocate_Inr:
  assumes "allocate n ow g m t = (Inr e, t')"
  shows "dict_get (et_entries t) n = None \<and> e = new_entry n (et_next_id t) ow g m
     \<and> et_entries t' = dict_set n e (et_entries t) \<and> et_quotas t' = et_quotas t"
  using assms by (auto simp: allocate_def et_quota_def insert_entry_def Let_def split: if_splits option.splits)

lemma allocate_all_Inr:
  assumes "allocate_all ns ow g m t = (Inr es, t')" "distinct ns"
  shows "et_quotas t' = et_quotas t \<and> (\<forall>n \<in> set ns. \<exists>e. dict_get (et_entries t') n = Some e \<and> ev_consumer_refs e = 0)
     \<and> (\<forall>n. n \<notin> set ns \<longrightarrow> dict_get (et_entries t') n = dict_get (et_entries t) n)"
  using assms
proof (induction ns arbitrary: t es)
  case (Cons n ns)
  obtain e t1 where 1: "allocate n ow g m t = (Inr e, t1)"
    using Cons.prems(1) by (cases "allocate n ow g m t"; cases "fst (allocate n ow g m t)") auto
  then obtain fs where 2: "allocate_all ns ow g m t1 = (Inr fs, t')"
    using Cons.prems(1) by (cases "allocate_all ns ow g m t1"; cases "fst (allocate_all ns ow g m t1)") auto
  have "dict_get (et_entries t1) n = Some e" "ev_consumer_refs e = 0" "et_quotas t1 = et_quotas t"
    "\<And>k. k \<noteq> n \<Longrightarrow> dict_get (et_entries t1) k = dict_get (et_entries t) k"
    using allocate_Inr [OF 1] by (simp_all add: dict_simps new_entry_def)
  with Cons.IH [OF 2] Cons.prems(2) show ?case by auto
qed simp

lemma keeps_set_future_uses:
  assumes "distinct ns" "\<forall>n \<in> set ns. \<forall>e. dict_get (et_entries t) n = Some e \<longrightarrow> ev_consumer_refs e = 0"
    "\<forall>(n, c) \<in> set uses. 0 \<le> c"
  shows "keeps t (set_future_uses ns uses t)"
  using assms(1,2)
proof (induction ns arbitrary: t)
  case (Cons n ns)
  show ?case
  proof (cases "dict_get (et_entries t) n"; cases "dict_get uses n")
    fix e c assume e: "dict_get (et_entries t) n = Some e" and c: "dict_get uses n = Some c"
    let ?s = "set_entry n (e\<lparr>ev_future_uses := c\<rparr>) t"
    have "0 \<le> c" using dict_get_in_set [OF c] assms(3) by auto
    moreover have "ev_consumer_refs e = 0" using Cons.prems(2) e by simp
    ultimately have "keeps t (ret () ?s)" by (intro keeps_set_entry [OF e]) (auto simp: evolves_def)
    then have "keeps t (and_then (ret () ?s) (\<lambda>_ t. set_future_uses ns uses t))"
    proof (rule keeps_and_then)
      fix x t1 assume "ret () ?s = (Inr x, t1)"
      then show "keeps t1 (set_future_uses ns uses t1)"
        using Cons.prems by (intro Cons.IH) (auto simp: set_entry_def dict_simps split: if_splits)
    qed
    then show ?thesis using e c by simp
  qed (simp_all add: keeps_same)
qed (simp add: keeps_same)

lemma set_future_uses_quotas: "et_quotas (snd (set_future_uses ns uses t)) = et_quotas t"
  by (induction ns arbitrary: t) (auto simp: set_entry_def split: option.splits)

lemma quota_produced_inv:
  assumes inv: "et_inv t" and get: "dict_get (et_quotas t) (ow, g) = Some q"
  shows "et_inv (mark_produced ns ow g q t) \<and> step_rel t (mark_produced ns ow g q t)"
proof -
  let ?q = "q\<lparr>qt_produced := qt_produced q \<union> set ns\<rparr>" and ?t = "mark_produced ns ow g q t"
  have res: "et_reserved ?t = et_reserved t"
    by (simp add: et_reserved_def quota_reserved_def mark_produced_def dict_sum_update [OF get])
  have lim: "limit_of ?t ow' g' = limit_of t ow' g'" for ow' g'
    using get by (simp add: limit_of_def mark_produced_def dict_simps)
  have "frontier_ok ?t" using inv by (simp add: et_inv_def frontier_ok_def lim) (simp add: managed_live_def mark_produced_def)
  moreover have "bounds_ok ?t" using inv by (simp add: et_inv_def bounds_ok_def res) (simp add: et_active_def mark_produced_def)
  moreover have "quotas_ok ?t"
  proof -
    have "0 \<le> qt_limit q" "\<forall>(n, c) \<in> set (qt_event_uses q). 0 \<le> c"
      using inv dict_get_in_set [OF get] by (auto simp: et_inv_def quotas_ok_def)
    with inv show ?thesis
      by (auto simp: et_inv_def quotas_ok_def mark_produced_def set_dict_set dict_simps)
  qed
  moreover have "entries_ok ?t" using inv by (simp add: et_inv_def entries_ok_def entry_ok_def mark_produced_def)
  ultimately show ?thesis by (simp add: et_inv_def step_rel_def mark_produced_def)
qed

lemma keeps_mark_produced: "dict_get (et_quotas t) (ow, g) = Some q \<Longrightarrow> keeps t (v, mark_produced ns ow g q t)"
  using quota_produced_inv by (simp add: keeps_def)

lemma quota_uses_nonneg:
  "et_inv t \<Longrightarrow> dict_get (et_quotas t) k = Some q \<Longrightarrow> \<forall>(n, c) \<in> set (qt_event_uses q). 0 \<le> c"
  by (auto simp: et_inv_def quotas_ok_def dest!: dict_get_in_set)

lemma keeps_reserve_outputs [keeps_intros]: "keeps t (reserve_outputs ns ow g t)"
  unfolding reserve_outputs_def
proof (rule keeps_and_then [OF keeps_preflight_outputs], rule keeps_and_then [OF keeps_quota],
    rule keeps_and_then [OF keeps_allocate_all])
  fix ms t1 q t2 es t3
  assume pre: "preflight_outputs ns ow g t = (Inr ms, t1)" and q: "et_quota ow g t1 = (Inr q, t2)"
    and al: "allocate_all ms ow g True t2 = (Inr es, t3)" and inv: "et_inv t3"
  have d: "distinct ms" using preflight_outputs_Inr [OF pre] by simp
  note al' = allocate_all_Inr [OF al d]
  have get: "dict_get (et_quotas t3) (ow, g) = Some q" using q al' by (simp add: et_quota_Inr)
  have "keeps t3 (set_future_uses ms (qt_event_uses q) t3)"
    using al' by (intro keeps_set_future_uses d quota_uses_nonneg [OF inv get]) fastforce
  then show "keeps t3 (and_then (set_future_uses ms (qt_event_uses q) t3)
      (\<lambda>_ t. ret (map (\<lambda>n. the (dict_get (et_entries t) n)) ms) (mark_produced ms ow g q t)))"
  proof (rule keeps_and_then)
    fix x t4 assume "set_future_uses ms (qt_event_uses q) t3 = (Inr x, t4)"
    then have "et_quotas t4 = et_quotas t3" using set_future_uses_quotas [of ms "qt_event_uses q" t3] by simp
    with get show "keeps t4 (ret (map (\<lambda>n. the (dict_get (et_entries t4) n)) ms) (mark_produced ms ow g q t4))"
      by (intro keeps_mark_produced) simp
  qed
qed

section \<open>Remaining operations\<close>

lemma keeps_bind_producer [keeps_intros]: "keeps t (bind_producer n ow g p t)"
proof -
  have "keeps t (v, set_entry n (e\<lparr>ev_producer_bound := True, ev_producer_id := p\<rparr>) t)"
    if "dict_get (et_entries t) n = Some e" "\<not> (ev_producer_bound e \<and> ev_producer_id e \<noteq> p)" for v :: "py_error + event_entry" and e
    using that entries_get [of t n e] by (intro keeps_set_entry) (auto simp: evolves_def entry_ok_def)
  then show ?thesis
    unfolding bind_producer_def Let_def
    by (intro keeps_intros keeps_and_then) (auto dest: validate_identity_Inr)
qed

lemma keeps_add_consumer [keeps_intros]: "keeps t (add_consumer n ow g t)"
proof -
  have "keeps t (v, set_entry n (e\<lparr>ev_consumer_refs := ev_consumer_refs e + 1\<rparr>) t)"
    if "dict_get (et_entries t) n = Some e" "\<not> (ev_managed e \<and> ev_future_uses e \<le> ev_consumer_refs e)" for v :: "py_error + event_entry" and e
    using that entries_get [of t n e] by (intro keeps_set_entry) (auto simp: evolves_def entry_ok_def)
  then show ?thesis
    unfolding add_consumer_def Let_def
    by (intro keeps_intros keeps_and_then) (auto dest: validate_identity_Inr)
qed

lemma keeps_signal_entry:
  assumes get: "dict_get (et_entries t) n = Some e"
  shows "keeps t (signal_entry n e st p cycle code ow g sq t)"
proof -
  let ?e = "e\<lparr>ev_status := st, ev_producer_id := p, ev_timestamp := cycle, ev_error_code := code\<rparr>"
  have "keeps t (and_then (maybe_reclaim n cycle reason (set_entry n ?e t)) (\<lambda>_ t. ret True t))"
    if "ev_status e = EV_PENDING" "\<not> (ev_producer_bound e \<and> p \<noteq> ev_producer_id e)" for reason
  proof -
    have "keeps t (ret () (set_entry n ?e t))"
      using that entries_get [OF _ get] by (intro keeps_set_entry [OF get]) (auto simp: evolves_def entry_ok_def)
    then have "keeps t (and_then (ret () (set_entry n ?e t)) (\<lambda>_ t. and_then (maybe_reclaim n cycle reason t) (\<lambda>_ t. ret True t)))"
      by (intro keeps_and_then keeps_intros)
    then show ?thesis by simp
  qed
  then show ?thesis
    unfolding signal_entry_def validate_identity_def Let_def
    by (auto intro: keeps_intros) (simp_all add: keeps_def step_rel_refl)
qed

lemma register_Inr:
  assumes "register n ow g t = (Inr e, t')"
  shows "dict_get (et_entries t') n = Some e"
proof (cases "dict_get (et_entries t) n")
  case None
  with assms have "allocate n ow g False t = (Inr e, t')" by (simp add: register_def)
  from allocate_Inr [OF this] show ?thesis by (simp add: dict_simps)
next
  case (Some e0)
  with assms show ?thesis by (auto simp: register_def validate_identity_def split: if_splits)
qed

lemma keeps_signal [keeps_intros]: "keeps t (signal n st p cycle code ow g sq t)"
proof (cases "dict_get (et_entries t) n")
  case (Some e)
  then show ?thesis by (simp add: signal_def keeps_signal_entry)
next
  case None
  have "keeps t (and_then (register n '''' 0 t) (\<lambda>e t. signal_entry n e st p cycle code ow g sq t))"
    by (rule keeps_and_then [OF keeps_register]) (rule keeps_signal_entry, rule register_Inr)
  moreover have "keeps t (register n '''' 0 t)" by (rule keeps_register)
  ultimately show ?thesis
    using None by (auto simp: signal_def keeps_def and_then_def step_rel_refl split: prod.splits sum.splits)
qed

lemma keeps_wait [keeps_intros]: "keeps t (wait n sq ow g t)"
proof -
  have "keeps t (v, set_entry n (e\<lparr>ev_expected_sequence := k\<rparr>) t)" if "dict_get (et_entries t) n = Some e"
    for v :: "py_error + event_status option" and e k
    using that entries_get [of t n e] by (intro keeps_set_entry) (auto simp: evolves_def entry_ok_def)
  then show ?thesis
    unfolding wait_def Let_def by (cases sq) (intro keeps_intros | simp)+
qed

lemma keeps_advance [keeps_intros]: "keeps t (advance_sequence n t)"
  unfolding advance_sequence_def
proof (rule keeps_and_then)
  show "keeps t (case dict_get (et_entries t) n of None \<Rightarrow> register n '''' 0 t | Some e \<Rightarrow> ret e t)"
    by (intro keeps_intros)
  fix e t1 assume "(case dict_get (et_entries t) n of None \<Rightarrow> register n '''' 0 t | Some e \<Rightarrow> ret e t) = (Inr e, t1)"
  then have get: "dict_get (et_entries t1) n = Some e" by (auto split: option.splits dest: register_Inr)
  show "keeps t1 (if ev_managed e then raise (EventProtocolError ''managed event sequences are fixed for one launch'') t1
      else ret (ev_sequence e + 1) (set_entry n (e\<lparr>ev_sequence := ev_sequence e + 1, ev_status := EV_PENDING,
        ev_producer_bound := False, ev_consumer_refs := 0\<rparr>) t1))"
    by (intro keeps_intros keeps_set_entry [OF get]) (auto simp: evolves_def)
qed

lemma keeps_retire_all [keeps_intros]: "keeps t (retire_all ns cycle reason t)"
  by (induction ns arbitrary: t) (auto intro!: keeps_intros keeps_and_then)

lemma retire_entry_Inr:
  assumes "retire_entry n cycle reason t = (Inr u, t')"
  shows "et_entries t' = dict_del n (et_entries t) \<and> et_quotas t' = et_quotas t"
  using assms by (auto simp: retire_entry_def Let_def split: option.splits)

lemma retire_all_Inr:
  "retire_all ns cycle reason t = (Inr u, t') \<Longrightarrow>
   et_quotas t' = et_quotas t \<and> set (et_entries t') = {p \<in> set (et_entries t). fst p \<notin> set ns}"
proof (induction ns arbitrary: t)
  case (Cons n ns)
  obtain t1 where 1: "retire_entry n cycle reason t = (Inr (), t1)"
    using Cons.prems by (cases "retire_entry n cycle reason t"; cases "fst (retire_entry n cycle reason t)") auto
  with Cons.prems have "retire_all ns cycle reason t1 = (Inr u, t')" by simp
  from Cons.IH [OF this] retire_entry_Inr [OF 1] show ?case by (auto simp: set_dict_del)
qed simp

lemma retire_owned_none:
  assumes "retire_all (owned_names ow g t) cycle reason t = (Inr u, t')"
  shows "managed_live ow g t' = 0"
proof (rule managed_live_zero)
  show "\<not> list_ex (\<lambda>e. ev_managed e \<and> owned ow g e) (dict_values (et_entries t'))"
    using retire_all_Inr [OF assms] by (force simp: list_ex_iff owned_names_def)
qed

lemma keeps_release_owner [keeps_intros]: "keeps t (release_owner ow g cycle t)"
  unfolding release_owner_def Let_def
  by (intro keeps_intros keeps_and_then keeps_delete_quota)
     (auto dest: retire_all_Inr retire_owned_none)

lemma reset_keeps:
  assumes inv: "et_inv t"
  shows "et_inv (et_reset t) \<and> step_rel t (et_reset t)"
proof -
  let ?f = "\<lambda>e. if ev_status e = EV_PENDING then e\<lparr>ev_status := EV_RESET\<rparr> else e"
  have ent: "et_entries (et_reset t) = map (\<lambda>(n, e). (n, ?f e)) (et_entries t)" by (simp add: et_reset_def)
  have f: "ev_managed (?f e) = ev_managed e" "owned ow g (?f e) = owned ow g e" "evolves e (?f e)" for e ow g
    by (auto simp: owned_def evolves_def)
  have live: "managed_live ow g (et_reset t) = managed_live ow g t" for ow g
    unfolding managed_live_def ent dict_sum_map by (simp add: comp_def f)
  have res: "et_reserved (et_reset t) = et_reserved t"
    unfolding et_reserved_def quota_reserved_def ent dict_sum_map by (simp add: comp_def f et_reset_def)
  have "entries_ok (et_reset t)"
  proof -
    have "entry_ok (et_reset t) n (?f e) = entry_ok t n e" for n e by (simp add: entry_ok_def et_reset_def)
    with inv show ?thesis by (auto simp: et_inv_def entries_ok_def ent)
  qed
  moreover have "frontier_ok (et_reset t)"
    using inv by (simp add: et_inv_def frontier_ok_def live) (simp add: limit_of_def et_reset_def)
  moreover have "bounds_ok (et_reset t)"
    using inv by (simp add: et_inv_def bounds_ok_def res) (simp add: et_active_def et_reset_def)
  moreover have "quotas_ok (et_reset t)" using inv by (simp add: et_inv_def quotas_ok_def et_reset_def)
  moreover have "step_rel t (et_reset t)"
  proof -
    have "evolves z (z\<lparr>ev_status := EV_RESET\<rparr>)" if "ev_status z = EV_PENDING" for z
      using that by (simp add: evolves_def)
    then show ?thesis by (auto simp: step_rel_def ent map_of_map_snd) (simp_all add: et_reset_def)
  qed
  ultimately show ?thesis by (simp add: et_inv_def)
qed

lemma clear_inv: "et_inv t \<Longrightarrow> et_inv (et_clear t)"
  by (simp add: et_inv_def et_clear_def entries_ok_def quotas_ok_def frontier_ok_def managed_live_def
      limit_of_def bounds_ok_def et_reserved_def quota_reserved_def et_active_def)

section \<open>The table as a machine\<close>

datatype ev_op =
    EvRegister string string int
  | EvReserveMany "string list" string int
  | EvReserveQuota int "(string, int) dict" string int
  | EvCancelReservation string int
  | EvReserveOutputs "string list" string int
  | EvPreflight "string list" "string list" string int
  | EvBind string string int int
  | EvAddConsumer string string int
  | EvConsume "string list" string int int
  | EvCancelDeps "string list" string int int
  | EvAbandon string int int
  | EvCancelOutputs "string list" string int int int
  | EvSignal string event_status int int int "string option" "int option" "int option"
  | EvWait string "int option" "string option" "int option"
  | EvAdvance string
  | EvRelease string int int
  | EvReset
  | EvClear

fun ev_exec :: "ev_op \<Rightarrow> event_table \<Rightarrow> event_table" where
  "ev_exec (EvRegister n ow g) t = snd (register n ow g t)"
| "ev_exec (EvReserveMany ns ow g) t = snd (reserve_many ns ow g t)"
| "ev_exec (EvReserveQuota l uses ow g) t = snd (reserve_quota l uses ow g t)"
| "ev_exec (EvCancelReservation ow g) t = snd (cancel_reservation ow g t)"
| "ev_exec (EvReserveOutputs ns ow g) t = snd (reserve_outputs ns ow g t)"
| "ev_exec (EvPreflight outs deps ow g) t = snd (preflight_action outs deps ow g t)"
| "ev_exec (EvBind n ow g p) t = snd (bind_producer n ow g p t)"
| "ev_exec (EvAddConsumer n ow g) t = snd (add_consumer n ow g t)"
| "ev_exec (EvConsume ns ow g c) t = snd (consume_dependencies ns ow g c t)"
| "ev_exec (EvCancelDeps ns ow g c) t = snd (cancel_dependencies ns ow g c t)"
| "ev_exec (EvAbandon ow g c) t = snd (abandon_future_uses ow g c t)"
| "ev_exec (EvCancelOutputs ns ow g p c) t = snd (cancel_outputs ns ow g p c t)"
| "ev_exec (EvSignal n st p c code ow g sq) t = snd (signal n st p c code ow g sq t)"
| "ev_exec (EvWait n sq ow g) t = snd (wait n sq ow g t)"
| "ev_exec (EvAdvance n) t = snd (advance_sequence n t)"
| "ev_exec (EvRelease ow g c) t = snd (release_owner ow g c t)"
| "ev_exec EvReset t = et_reset t"
| "ev_exec EvClear t = et_clear t"

lemmas keeps_ops = keeps_register keeps_reserve_many keeps_reserve_quota keeps_cancel_reservation
  keeps_reserve_outputs keeps_preflight_action keeps_bind_producer keeps_add_consumer keeps_consume
  keeps_cancel_dependencies keeps_abandon keeps_cancel_outputs keeps_signal keeps_wait keeps_advance
  keeps_release_owner

lemma ev_step:
  assumes "et_inv t"
  shows "et_inv (ev_exec x t) \<and> (x \<noteq> EvClear \<longrightarrow> step_rel t (ev_exec x t))"
  using assms keeps_ops [unfolded keeps_def] reset_keeps clear_inv by (cases x) simp_all

interpretation ev: total_machine ev_exec et_inv
  by unfold_locales (use ev_step in blast)

lemma ev_new_inv: "et_new cap = Inr t \<Longrightarrow> et_inv t"
  by (auto simp: et_new_def et_inv_def entries_ok_def quotas_ok_def frontier_ok_def managed_live_def
      limit_of_def bounds_ok_def et_reserved_def quota_reserved_def et_active_def split: if_splits)

section \<open>Properties\<close>

lemma managed_by_quota:
  assumes "distinct ks" "\<forall>p \<in> set d. ev_managed (snd p) \<longrightarrow> (ev_owner (snd p), ev_generation (snd p)) \<in> set ks"
  shows "dict_sum (\<lambda>e. of_bool (ev_managed e)) d
     = (\<Sum>(ow, g) \<leftarrow> ks. dict_sum (\<lambda>e. of_bool (ev_managed e \<and> owned ow g e)) d :: int)"
  using assms(2)
proof (induction d)
  case Nil
  then show ?case by (simp add: case_prod_unfold)
next
  case (Cons p d)
  have "(\<Sum>(ow, g) \<leftarrow> ks. of_bool (ev_managed (snd p) \<and> owned ow g (snd p)) :: int) = of_bool (ev_managed (snd p))"
  proof (cases "ev_managed (snd p)")
    case True
    let ?k = "(ev_owner (snd p), ev_generation (snd p))"
    have "(\<Sum>(ow, g) \<leftarrow> ks. of_bool (ev_managed (snd p) \<and> owned ow g (snd p)) :: int) = (\<Sum>k \<leftarrow> ks. if k = ?k then 1 else 0)"
      using True by (intro arg_cong [where f = sum_list] map_cong) (auto simp: owned_def)
    also have "\<dots> = 1" using Cons.prems True assms(1) by (simp add: sum_list_distinct_conv_sum_set)
    finally show ?thesis using True by simp
  qed (simp add: case_prod_unfold)
  with Cons show ?case by (simp add: case_prod_unfold sum_list_addf)
qed

lemma active_le_reserved:
  assumes inv: "et_inv t"
  shows "et_active t \<le> et_reserved t"
proof -
  let ?ks = "map fst (et_quotas t)"
  have kd: "distinct ?ks" using inv by (simp add: et_inv_def quotas_ok_def)
  have "(ev_owner e, ev_generation e) \<in> set ?ks" if "(n, e) \<in> set (et_entries t)" "ev_managed e" for n e
  proof (rule ccontr)
    assume "(ev_owner e, ev_generation e) \<notin> set ?ks"
    then have "limit_of t (ev_owner e) (ev_generation e) = 0"
      by (simp add: limit_of_def dict_get_None_iff [THEN iffD2])
    moreover have "of_bool (ev_managed e \<and> owned (ev_owner e) (ev_generation e) e) \<le> managed_live (ev_owner e) (ev_generation e) t"
      unfolding managed_live_def by (rule dict_sum_member_le [OF _ that(1)]) simp
    moreover have "managed_live (ev_owner e) (ev_generation e) t \<le> limit_of t (ev_owner e) (ev_generation e)"
      using inv by (simp add: et_inv_def frontier_ok_def)
    ultimately show False using that(2) by (simp add: owned_def)
  qed
  then have "dict_sum (\<lambda>e. of_bool (ev_managed e)) (et_entries t)
     = (\<Sum>(ow, g) \<leftarrow> ?ks. managed_live ow g t)"
    unfolding managed_live_def by (intro managed_by_quota kd) auto
  also have "\<dots> \<le> (\<Sum>(ow, g) \<leftarrow> ?ks. limit_of t ow g)"
    using inv by (intro sum_list_mono) (auto simp: et_inv_def frontier_ok_def)
  also have "\<dots> = quota_reserved t"
  proof -
    have "limit_of t (fst k) (snd k) = qt_limit q" if "(k, q) \<in> set (et_quotas t)" for k q
      using that kd by (simp add: limit_of_def dict_get_iff [THEN iffD2])
    then show ?thesis
      unfolding quota_reserved_def dict_sum_def map_map
      by (intro arg_cong [where f = sum_list] map_cong) (auto simp: case_prod_unfold)
  qed
  finally have "dict_sum (\<lambda>e. of_bool (ev_managed e)) (et_entries t) \<le> quota_reserved t" .
  moreover have "et_active t = dict_sum (\<lambda>e. of_bool (ev_managed e)) (et_entries t)
      + dict_sum (\<lambda>e. of_bool (\<not> ev_managed e)) (et_entries t)" for t
  proof -
    have "int (length d) = dict_sum (\<lambda>e. of_bool (ev_managed e)) d + dict_sum (\<lambda>e. of_bool (\<not> ev_managed e)) d" for d :: "(string, event_entry) dict"
      by (induction d) auto
    then show ?thesis by (simp add: et_active_def)
  qed
  ultimately show ?thesis by (simp add: et_reserved_def)
qed

definition demo_table :: event_table where
  "demo_table = projr (et_new 4)"

definition demo_launch :: "ev_op list" where
  "demo_launch = [EvReserveQuota 2 [(''a'', 1), (''b'', 0)] ''ctx'' 1, EvReserveOutputs [''a''] ''ctx'' 1,
     EvBind ''a'' ''ctx'' 1 7, EvAddConsumer ''a'' ''ctx'' 1, EvSignal ''a'' EV_ERROR 7 10 3 None None None]"

text \<open>C21. Event storage is bounded under every sequence of operations, well-behaved or not: the
  live entries fit into the reserved storage, the reserved storage into the capacity, each
  launch's live managed events into the quota it reserved, the retirement log into the
  capacity, and every registered consumer is covered by a declared future use.
\<close>

theorem event_storage_bounded:
  assumes "et_new cap = Inr t0" and "t = run_ops ev_exec ops t0"
  shows "et_active t \<le> et_reserved t \<and> et_reserved t \<le> et_capacity t \<and> et_peak_reserved t \<le> et_capacity t
     \<and> int (length (et_retired t)) \<le> et_capacity t
     \<and> (\<forall>ow g. managed_live ow g t \<le> (case dict_get (et_quotas t) (ow, g) of None \<Rightarrow> 0 | Some q \<Rightarrow> qt_limit q))
     \<and> (\<forall>n e. dict_get (et_entries t) n = Some e \<longrightarrow> 0 \<le> ev_consumer_refs e
          \<and> (ev_managed e \<longrightarrow> ev_consumer_refs e \<le> ev_future_uses e))"
proof -
  have inv: "et_inv t" unfolding assms(2) by (rule ev.any_run_inv [OF ev_new_inv [OF assms(1)]])
  have "0 \<le> ev_consumer_refs e \<and> (ev_managed e \<longrightarrow> ev_consumer_refs e \<le> ev_future_uses e)"
    if "dict_get (et_entries t) n = Some e" for n e
    using entries_get [OF inv that] by (simp add: entry_ok_def)
  moreover have "managed_live ow g t \<le> (case dict_get (et_quotas t) (ow, g) of None \<Rightarrow> 0 | Some q \<Rightarrow> qt_limit q)" for ow g
    using inv by (simp add: et_inv_def frontier_ok_def limit_of_def)
  ultimately show ?thesis using active_le_reserved [OF inv] inv by (simp add: et_inv_def bounds_ok_def)
qed

theorem event_storage_bounded_witness:
  "et_reserved (run_ops ev_exec demo_launch demo_table) \<le> et_capacity (run_ops ev_exec demo_launch demo_table)
   \<and> et_active (run_ops ev_exec demo_launch demo_table) = 1"
proof -
  have new: "et_new 4 = Inr demo_table" by code_simp
  have "et_active (run_ops ev_exec demo_launch demo_table) = 1" by code_simp
  with event_storage_bounded [OF new refl, of demo_launch] show ?thesis by simp
qed

lemma status_stable:
  assumes "et_inv t" "EvClear \<notin> set ops" "k < et_next_id t"
    "\<forall>e. dict_get (et_entries t) n = Some e \<and> ev_id e = k \<longrightarrow> ev_managed e \<and> ev_status e = st" "st \<noteq> EV_PENDING"
  shows "\<forall>e. dict_get (et_entries (run_ops ev_exec ops t)) n = Some e \<and> ev_id e = k \<longrightarrow> ev_status e = st"
  using assms(1-4)
proof (induction ops arbitrary: t)
  case (Cons x ops)
  have s: "et_inv (ev_exec x t)" "step_rel t (ev_exec x t)"
    using ev_step [OF Cons.prems(1), of x] Cons.prems(2) by auto
  have "ev_managed e' \<and> ev_status e' = st"
    if e': "dict_get (et_entries (ev_exec x t)) n = Some e'" "ev_id e' = k" for e'
  proof -
    obtain e where "dict_get (et_entries t) n = Some e" "evolves e e'"
      using step_relD [OF s(2) e'(1)] e'(2) Cons.prems(3) by auto
    with Cons.prems(4) e'(2) assms(5) show ?thesis by (auto simp: evolves_def)
  qed
  moreover have "k < et_next_id (ev_exec x t)" using s(2) Cons.prems(3) by (simp add: step_rel_def)
  ultimately show ?case using Cons.IH [of "ev_exec x t"] s(1) Cons.prems(2) by simp
qed simp

text \<open>C5. A terminal status is never overwritten: once a launch-managed event is DONE, ERROR,
  TIMEOUT or RESET, that event instance (its id) keeps the status through every further
  operation short of clearing the table, as long as it is stored at all.
\<close>

theorem terminal_status_final:
  assumes "et_new cap = Inr t0" and "t = run_ops ev_exec ops t0"
    and "dict_get (et_entries t) n = Some e" and "ev_managed e" and "ev_status e \<noteq> EV_PENDING"
    and "EvClear \<notin> set later"
    and "dict_get (et_entries (run_ops ev_exec later t)) n = Some e'" and "ev_id e' = ev_id e"
  shows "ev_status e' = ev_status e"
proof -
  have inv: "et_inv t" unfolding assms(2) by (rule ev.any_run_inv [OF ev_new_inv [OF assms(1)]])
  have "ev_id e < et_next_id t" using entries_get [OF inv assms(3)] by (simp add: entry_ok_def)
  from status_stable [OF inv assms(6) this, of n "ev_status e"] assms(3,4,5,7,8) show ?thesis by simp
qed

theorem terminal_status_final_witness:
  "ev_status (the (dict_get (et_entries (run_ops ev_exec [EvSignal ''a'' EV_DONE 7 12 0 None None None, EvReset]
      (run_ops ev_exec demo_launch demo_table))) ''a'')) = EV_ERROR"
proof -
  let ?t = "run_ops ev_exec demo_launch demo_table"
  let ?later = "[EvSignal ''a'' EV_DONE 7 12 0 None None None, EvReset]"
  let ?e = "the (dict_get (et_entries ?t) ''a'')" and ?e' = "the (dict_get (et_entries (run_ops ev_exec ?later ?t)) ''a'')"
  have new: "et_new 4 = Inr demo_table" by code_simp
  have f: "dict_get (et_entries ?t) ''a'' = Some ?e" "ev_managed ?e" "ev_status ?e = EV_ERROR"
    "dict_get (et_entries (run_ops ev_exec ?later ?t)) ''a'' = Some ?e'" "ev_id ?e' = ev_id ?e"
    by code_simp+
  from terminal_status_final [OF new refl f(1,2) _ _ f(4,5)] f(3) show ?thesis by simp
qed

text \<open>What a completion must match to be accepted.\<close>

definition signal_matches :: "event_entry \<Rightarrow> int \<Rightarrow> string option \<Rightarrow> int option \<Rightarrow> int option \<Rightarrow> bool" where
  "signal_matches e producer exp_owner exp_gen exp_seq \<longleftrightarrow>
     (exp_owner = None \<or> exp_owner = Some (ev_owner e)) \<and> (exp_gen = None \<or> exp_gen = Some (ev_generation e))
     \<and> (exp_seq = None \<and> (ev_expected_sequence e = 0 \<or> ev_expected_sequence e = ev_sequence e)
        \<or> exp_seq = Some (ev_sequence e))
     \<and> (ev_producer_bound e \<longrightarrow> producer = ev_producer_id e) \<and> ev_status e = EV_PENDING"

lemma signal_accepted:
  assumes "dict_get (et_entries t) n = Some e" "signal_matches e p ow g sq"
    and e': "e' = e\<lparr>ev_status := st, ev_producer_id := p, ev_timestamp := c, ev_error_code := code\<rparr>"
  shows "\<exists>t'. signal n st p c code ow g sq t = (Inr True, t')
     \<and> et_entries t' = (if reclaimable e' then dict_del n (et_entries t) else dict_set n e' (et_entries t))"
proof -
  have id: "validate_identity e (case ow of Some ow \<Rightarrow> ow | None \<Rightarrow> ev_owner e) (case g of Some g \<Rightarrow> g | None \<Rightarrow> ev_generation e) False t
      = (Inr (), t)"
    using assms(2) by (auto simp: signal_matches_def validate_identity_def split: option.splits)
  have eq: "signal n st p c code ow g sq t
      = and_then (maybe_reclaim n c ''terminal event has no remaining references'' (set_entry n e' t)) (\<lambda>_ t. ret True t)"
    using assms by (auto simp: signal_def signal_entry_def id Let_def signal_matches_def)
  show ?thesis
    unfolding eq by (simp add: maybe_reclaim_def set_entry_def dict_simps retire_entry_def Let_def)
qed

lemma signal_rejected:
  assumes "dict_get (et_entries t) n = Some e" "\<not> signal_matches e p ow g sq"
  shows "\<exists>t'. signal n st p c code ow g sq t = (Inr False, t') \<and> et_entries t' = et_entries t \<and> et_quotas t' = et_quotas t"
  using assms
  by (auto simp: signal_def signal_entry_def validate_identity_def Let_def signal_matches_def split: option.splits)

text \<open>An event nobody registered and that no launch is named for enters with the signal itself.\<close>

lemma signal_unknown:
  assumes "dict_get (et_entries t) n = None" "et_reserved t < et_capacity t"
  defines "e0 \<equiv> new_entry n (et_next_id t) '''' 0 False"
  defines "t1 \<equiv> insert_entry n '''' 0 False t"
  shows "signal n st p c code None None sq t = signal n st p c code None None sq t1"
    "dict_get (et_entries t1) n = Some e0" "et_entries t1 = dict_set n e0 (et_entries t)"
    "signal_matches e0 p None None sq \<longleftrightarrow> sq = None \<or> sq = Some 0" "\<not> reclaimable (e0\<lparr>ev_status := st, ev_producer_id := p, ev_timestamp := c, ev_error_code := code\<rparr>)"
proof -
  show entries: "et_entries t1 = dict_set n e0 (et_entries t)" by (simp add: t1_def e0_def insert_entry_def Let_def)
  show get: "dict_get (et_entries t1) n = Some e0" unfolding entries by (simp add: dict_simps)
  have "register n '''' 0 t = (Inr e0, t1)" using assms(1,2) by (simp add: register_def allocate_def e0_def t1_def)
  with assms(1) get show "signal n st p c code None None sq t = signal n st p c code None None sq t1"
    by (simp add: signal_def)
  show "signal_matches e0 p None None sq \<longleftrightarrow> sq = None \<or> sq = Some 0"
    by (auto simp: signal_matches_def e0_def new_entry_def)
  show "\<not> reclaimable (e0\<lparr>ev_status := st, ev_producer_id := p, ev_timestamp := c, ev_error_code := code\<rparr>)"
    by (simp add: reclaimable_def e0_def new_entry_def)
qed

text \<open>C22. Exactly the matching completion takes effect. For a stored event, \<open>signal\<close> returns
  \<open>True\<close> iff owner, generation, sequence and bound producer match and the event is pending;
  it then records the status, or retires a managed event nobody will read; otherwise it returns
  \<open>False\<close> and changes no entry. For a name without a slot, a launch completion (one that
  expects an owner or a generation) and a signal that finds the table full return \<open>False\<close> and
  change no entry and no quota: reclaimed events are never resurrected. The standalone form,
  without an expected identity, registers the name as an unmanaged event when there is room,
  and then completes it unless it expects another sequence than 0.
\<close>

theorem signal_exact:
  "case dict_get (et_entries t) n of
     Some e \<Rightarrow>
       let e' = e\<lparr>ev_status := st, ev_producer_id := p, ev_timestamp := c, ev_error_code := code\<rparr> in
       \<exists>t'. signal n st p c code ow g sq t = (Inr (signal_matches e p ow g sq), t')
         \<and> et_entries t' = (if \<not> signal_matches e p ow g sq then et_entries t
              else if reclaimable e' then dict_del n (et_entries t) else dict_set n e' (et_entries t))
   | None \<Rightarrow>
       if ow = None \<and> g = None \<and> et_reserved t < et_capacity t
       then let e = new_entry n (et_next_id t) '''' 0 False; accepted = (sq = None \<or> sq = Some 0);
                e' = e\<lparr>ev_status := st, ev_producer_id := p, ev_timestamp := c, ev_error_code := code\<rparr> in
            \<exists>t'. signal n st p c code ow g sq t = (Inr accepted, t')
              \<and> et_entries t' = dict_set n (if accepted then e' else e) (et_entries t)
       else \<exists>t'. signal n st p c code ow g sq t = (Inr False, t') \<and> et_entries t' = et_entries t \<and> et_quotas t' = et_quotas t"
proof (cases "dict_get (et_entries t) n")
  case None
  show ?thesis
  proof (cases "ow = None \<and> g = None \<and> et_reserved t < et_capacity t")
    case True
    note u = signal_unknown [OF None conjunct2 [OF conjunct2 [OF True]]]
    show ?thesis
    proof (cases "sq = None \<or> sq = Some 0")
      case ok: True
      from signal_accepted [OF u(2) iffD2 [OF u(4) [of p sq] ok] refl, of st c code] show ?thesis
        using None True ok by (auto simp: u(1) [of st p c code sq] u(3,5) dict_set_twice Let_def)
    next
      case bad: False
      with u(4) [of p sq] have "\<not> signal_matches (new_entry n (et_next_id t) '''' 0 False) p None None sq" by blast
      from signal_rejected [OF u(2) this, of st c code] show ?thesis
        using None True bad by (auto simp: u(1) [of st p c code sq] u(3) Let_def)
    qed
  next
    case False
    with None show ?thesis
      by (auto simp: signal_def register_def allocate_def)
  qed
next
  case (Some e)
  show ?thesis
  proof (cases "signal_matches e p ow g sq")
    case True
    from signal_accepted [OF Some this refl, of st c code] True Some show ?thesis by (simp add: Let_def)
  next
    case False
    from signal_rejected [OF Some this, of st c code] False Some show ?thesis by (auto simp: Let_def)
  qed
qed

lemma retire_all_ok:
  assumes "keys_distinct (et_entries t)" "distinct ns" "\<forall>n \<in> set ns. dict_get (et_entries t) n \<noteq> None"
  shows "\<exists>t'. retire_all ns cycle reason t = (Inr (), t')"
  using assms
proof (induction ns arbitrary: t)
  case (Cons n ns)
  then obtain e where e: "dict_get (et_entries t) n = Some e" by auto
  obtain t1 where t1: "retire_entry n cycle reason t = (Inr (), t1)" "et_entries t1 = dict_del n (et_entries t)"
    using e by (auto simp: retire_entry_def Let_def)
  have "\<exists>t'. retire_all ns cycle reason t1 = (Inr (), t')"
    using Cons.prems t1(2) by (intro Cons.IH) (auto simp: dict_simps)
  then show ?case using t1(1) by simp
qed simp

text \<open>C23. A finished launch always gets rid of its storage: when every event of the owner and
  generation is terminal and unreferenced, \<open>release_owner\<close> succeeds, returns their number,
  leaves no event of that launch, removes its quota and so lowers the reserved storage by
  the quota's limit and the launch's persistent entries.
\<close>

theorem release_owner_frees:
  assumes "et_new cap = Inr t0" and "t = run_ops ev_exec ops t0"
    and "dict_get (et_quotas t) (ow, g) = Some q"
    and "\<forall>e \<in> set (filter (owned ow g) (dict_values (et_entries t))).
           ev_status e \<noteq> EV_PENDING \<and> ev_consumer_refs e = 0 \<and> ev_future_uses e = 0"
  shows "\<exists>t'. release_owner ow g cycle t = (Inr (int (length (owned_names ow g t))), t')
     \<and> dict_get (et_quotas t') (ow, g) = None
     \<and> (\<forall>n e. dict_get (et_entries t') n = Some e \<longrightarrow> \<not> owned ow g e)
     \<and> quota_reserved t' = quota_reserved t - qt_limit q"
proof -
  have inv: "et_inv t" unfolding assms(2) by (rule ev.any_run_inv [OF ev_new_inv [OF assms(1)]])
  have kd: "keys_distinct (et_entries t)" "keys_distinct (et_quotas t)"
    using inv by (simp_all add: et_inv_def entries_ok_def quotas_ok_def)
  have "distinct (owned_names ow g t)" using kd(1) by (simp add: owned_names_def distinct_map_filter)
  moreover have "\<forall>n \<in> set (owned_names ow g t). dict_get (et_entries t) n \<noteq> None"
    using dict_get_None_iff [of "et_entries t"] by (auto simp: owned_names_def)
  ultimately obtain t1 where t1: "retire_all (owned_names ow g t) cycle ''owner retired'' t = (Inr (), t1)"
    using retire_all_ok [OF kd(1)] by blast
  note r = retire_all_Inr [OF t1]
  have "release_owner ow g cycle t = (Inr (int (length (owned_names ow g t))),
      bump_version (t1\<lparr>et_quotas := dict_del (ow, g) (et_quotas t1)\<rparr>))"
    using assms(3,4) t1 by (auto simp: release_owner_def Let_def list_ex_iff)
  moreover have "\<not> owned ow g e" if "dict_get (et_entries t1) n = Some e" for n e
    using dict_get_in_set [OF that] r by (force simp: owned_names_def)
  ultimately show ?thesis
    using r assms(3) by (auto simp: dict_simps quota_reserved_def dict_sum_del [OF kd(2) assms(3)])
qed

text \<open>
  A launch that leaves two events behind: a managed one that a device reset terminated, which
  nobody will read, and an unmanaged one with the launch's identity.
\<close>

definition demo_finished :: "ev_op list" where
  "demo_finished = [EvReserveQuota 2 [(''a'', 0), (''b'', 0)] ''ctx'' 1, EvReserveOutputs [''a''] ''ctx'' 1,
     EvRegister ''x'' ''ctx'' 1, EvReset]"

lemma demo_finished_events:
  "owned_names ''ctx'' 1 (run_ops ev_exec demo_finished demo_table) = [''a'', ''x'']"
  "list_all (\<lambda>e. ev_status e \<noteq> EV_PENDING \<and> ev_consumer_refs e = 0 \<and> ev_future_uses e = 0)
     (filter (owned ''ctx'' 1) (dict_values (et_entries (run_ops ev_exec demo_finished demo_table))))"
  by code_simp+

theorem release_owner_frees_witness:
  "owned_names ''ctx'' 1 (run_ops ev_exec demo_finished demo_table) = [''a'', ''x'']
   \<and> (\<exists>t'. release_owner ''ctx'' 1 20 (run_ops ev_exec demo_finished demo_table) = (Inr 2, t') \<and> quota_reserved t' = 0)"
proof -
  let ?t = "run_ops ev_exec demo_finished demo_table"
  let ?q = "the (dict_get (et_quotas ?t) (''ctx'', 1))"
  have new: "et_new 4 = Inr demo_table" by code_simp
  have f: "dict_get (et_quotas ?t) (''ctx'', 1) = Some ?q" "quota_reserved ?t = 2" "qt_limit ?q = 2"
    by code_simp+
  note ready = demo_finished_events(2) [unfolded list_all_iff]
  from release_owner_frees [OF new refl f(1) ready, of 20] f demo_finished_events(1) show ?thesis by auto
qed

end
