(* ===== verification/Lru_Cache.thy ===== *)
theory Lru_Cache
  imports Elenor_Prelude "HOL-Library.Product_Lexorder"
begin

unbundle bit_operations_syntax

declare map_of_eq_Some_iff [simp del] Some_eq_map_of_iff [simp del]

text \<open>
  The profiled LRU cache of \<open>src/pipeline_validator/memory/cache.py\<close>. The ordered dictionary of
  lines is an association list, least recently used first. The set of identities behind a
  token is a duplicate-free list, the f-string of a clean request keeps its parts apart,
  and a line's bytes are a list of integers. The report snapshot is left out.
\<close>

section \<open>Data\<close>

type_synonym bytes = "int list"

record line_identity =
  li_allocation_id :: string
  li_allocation_generation :: int
  li_line_offset :: int
  li_span_bytes :: int
  li_opaque_token :: string
  li_precise :: bool

record provenance =
  pv_binding_name :: string
  pv_allocation_id :: string
  pv_allocation_generation :: int
  pv_source_offset :: int
  pv_bytes :: int
  pv_precise :: bool

definition pv_end_offset :: "provenance \<Rightarrow> int" where
  "pv_end_offset p = pv_source_offset p + pv_bytes p"

record cache_range =
  cr_allocation_id :: string
  cr_allocation_generation :: int
  cr_offset :: int
  cr_bytes :: int

definition cr_end :: "cache_range \<Rightarrow> int" where
  "cr_end r = cr_offset r + cr_bytes r"

datatype clean_id = CleanId (ck_level: string) (ck_pool: int) (ck_generation: int) (ck_seq: int)

record clean_request =
  cq_request_id :: clean_id
  cq_identity :: line_identity
  cq_provenance :: provenance
  cq_data :: bytes
  cq_profile_generation :: int

record cache_line =
  cl_identity :: line_identity
  cl_token :: "string option"
  cl_provenance :: provenance
  cl_data :: "bytes option"
  cl_profile_generation :: int
  cl_version :: int
  cl_dirty :: bool
  cl_validity :: "bytes option"
  cl_pending_clean :: "clean_id option"
  cl_invalidate_after_clean :: bool

record lru_cache =
  lc_capacity_bytes :: int
  lc_line_bytes :: int
  lc_write_policy :: string
  lc_profile_generation :: int
  lc_level :: string
  lc_pool_id :: int
  lc_capacity_lines :: int
  lc_lines :: "(line_identity, cache_line) dict"
  lc_tokens :: "(string, line_identity list) dict"
  lc_pending_cleans :: "(clean_id, line_identity) dict"
  lc_next_clean_id :: int
  lc_next_version :: int
  lc_hits :: int
  lc_misses :: int
  lc_refills :: int
  lc_evictions :: int
  lc_dirty_lines :: int
  lc_discarded_dirty_lines :: int

type_synonym 'a lc_result = "(lru_cache, 'a) outcome"

abbreviation mem_error :: "string \<Rightarrow> lru_cache \<Rightarrow> 'a lc_result" where
  "mem_error msg c \<equiv> raise (MemoryInvariantError msg) c"

definition lc_new :: "int \<Rightarrow> int \<Rightarrow> string \<Rightarrow> int \<Rightarrow> string \<Rightarrow> int \<Rightarrow> py_error + lru_cache" where
  "lc_new capacity line policy gen level pool =
     (if line \<le> 0 \<or> (line AND (line - 1)) \<noteq> 0
      then Inl (ValueError ''cache line_bytes must be a positive power of 2'')
      else if capacity < 0 \<or> capacity mod line \<noteq> 0
      then Inl (ValueError ''cache capacity_bytes must be non-negative and line-aligned'')
      else if policy \<noteq> ''read_only'' \<and> policy \<noteq> ''write_back''
      then Inl (ValueError ''unsupported cache write policy'')
      else if gen < 0 then Inl (ValueError ''cache profile generation must be non-negative'')
      else Inr \<lparr>lc_capacity_bytes = capacity, lc_line_bytes = line, lc_write_policy = policy,
                lc_profile_generation = gen, lc_level = level, lc_pool_id = pool,
                lc_capacity_lines = capacity div line, lc_lines = [], lc_tokens = [],
                lc_pending_cleans = [], lc_next_clean_id = 0, lc_next_version = 0, lc_hits = 0,
                lc_misses = 0, lc_refills = 0, lc_evictions = 0, lc_dirty_lines = 0,
                lc_discarded_dirty_lines = 0\<rparr>)"

definition lc_enabled :: "lru_cache \<Rightarrow> bool" where
  "lc_enabled c \<longleftrightarrow> lc_capacity_lines c > 0"

definition identity_for :: "string \<Rightarrow> int \<Rightarrow> int \<Rightarrow> int \<Rightarrow> py_error + line_identity" where
  "identity_for aid agen off span =
     (if aid = '''' \<or> agen < 0 \<or> off < 0 then Inl (MemoryInvariantError ''invalid cache line identity'')
      else Inr \<lparr>li_allocation_id = aid, li_allocation_generation = agen, li_line_offset = off,
                li_span_bytes = span, li_opaque_token = '''', li_precise = True\<rparr>)"

text \<open>A lookup argument: a token, an identity, or nothing.\<close>

datatype cache_key = KeyToken string | KeyIdentity line_identity | KeyNone

definition resolve_identity :: "cache_key \<Rightarrow> lru_cache \<Rightarrow> line_identity option" where
  "resolve_identity k c =
     (case k of
        KeyIdentity i \<Rightarrow> Some i
      | KeyToken t \<Rightarrow> (case dict_get (lc_tokens c) t of Some [i] \<Rightarrow> Some i | _ \<Rightarrow> None)
      | KeyNone \<Rightarrow> None)"

definition resident :: "cache_key \<Rightarrow> lru_cache \<Rightarrow> (line_identity \<times> cache_line) option" where
  "resident k c =
     (case resolve_identity k c of
        None \<Rightarrow> None
      | Some i \<Rightarrow> (case dict_get (lc_lines c) i of None \<Rightarrow> None | Some l \<Rightarrow> Some (i, l)))"

definition contains :: "cache_key \<Rightarrow> lru_cache \<Rightarrow> bool" where
  "contains k c \<longleftrightarrow> resident k c \<noteq> None"

text \<open>\<open>OrderedDict.move_to_end\<close>.\<close>

definition move_to_end :: "'k \<Rightarrow> ('k, 'v) dict \<Rightarrow> ('k, 'v) dict" where
  "move_to_end k d = (case dict_get d k of None \<Rightarrow> d | Some v \<Rightarrow> dict_del k d @ [(k, v)])"

definition touch :: "line_identity \<Rightarrow> lru_cache \<Rightarrow> lru_cache" where
  "touch i c = c\<lparr>lc_lines := move_to_end i (lc_lines c)\<rparr>"

definition record_hit :: "cache_key \<Rightarrow> bool \<Rightarrow> lru_cache \<Rightarrow> unit lc_result" where
  "record_hit k require_resident c =
     (if \<not> lc_enabled c then mem_error ''explicit cache hit targets a disabled cache'' c
      else if require_resident \<and> resident k c = None
      then mem_error ''profiled cache hit has no resident line'' c
      else let c = c\<lparr>lc_hits := lc_hits c + 1\<rparr>
           in case resident k c of
                None \<Rightarrow> ret () c
              | Some (i, l) \<Rightarrow>
                  if cl_profile_generation l \<noteq> lc_profile_generation c
                  then mem_error ''cache hit references an old profile generation'' c
                  else ret () (touch i c))"

definition read_validity :: "cache_key \<Rightarrow> lru_cache \<Rightarrow> py_error + bytes option" where
  "read_validity k c =
     (if \<not> lc_enabled c then Inl (MemoryInvariantError ''cache validity read targets a disabled cache'')
      else case resident k c of
             None \<Rightarrow> Inl (MemoryInvariantError ''cache line is not resident in the active generation'')
           | Some (i, l) \<Rightarrow>
               if cl_profile_generation l \<noteq> lc_profile_generation c
               then Inl (MemoryInvariantError ''cache line is not resident in the active generation'')
               else Inr (cl_validity l))"

fun clear_positions :: "bytes \<Rightarrow> nat \<Rightarrow> nat \<Rightarrow> bytes" where
  "clear_positions vmask lo 0 = vmask"
| "clear_positions vmask lo (Suc n) = clear_positions (vmask[lo := 0]) (Suc lo) n"

definition clear_line_validity :: "string \<Rightarrow> int \<Rightarrow> int \<Rightarrow> int \<Rightarrow> line_identity \<Rightarrow> cache_line \<Rightarrow> cache_line" where
  "clear_line_validity aid agen off len i l =
     (if li_allocation_id i \<noteq> aid \<or> li_allocation_generation i \<noteq> agen then l
      else case cl_validity l of
             None \<Rightarrow> l
           | Some vmask \<Rightarrow>
               let line_start = li_line_offset i;
                   line_end = line_start + int (length vmask);
                   overlap_start = max line_start off;
                   overlap_end = min line_end (off + len)
               in if overlap_start \<ge> overlap_end then l
                  else l\<lparr>cl_validity := Some (clear_positions vmask (nat (overlap_start - line_start))
                                              (nat (overlap_end - overlap_start)))\<rparr>)"

definition clear_validity_range :: "string \<Rightarrow> int \<Rightarrow> int \<Rightarrow> int \<Rightarrow> lru_cache \<Rightarrow> lru_cache" where
  "clear_validity_range aid agen off len c =
     c\<lparr>lc_lines := map (\<lambda>(i, l). (i, clear_line_validity aid agen off len i l)) (lc_lines c)\<rparr>"

definition record_miss :: "lru_cache \<Rightarrow> lru_cache" where
  "record_miss c = (if lc_enabled c then c\<lparr>lc_misses := lc_misses c + 1\<rparr> else c)"

definition read_line :: "cache_key \<Rightarrow> bool \<Rightarrow> lru_cache \<Rightarrow> bytes option lc_result" where
  "read_line k require_data c =
     (if \<not> lc_enabled c then mem_error ''cache read targets a disabled cache'' c
      else case resident k c of
             None \<Rightarrow> mem_error ''cache line is not resident in the active generation'' c
           | Some (i, l) \<Rightarrow>
               if cl_profile_generation l \<noteq> lc_profile_generation c
               then mem_error ''cache line is not resident in the active generation'' c
               else if require_data \<and> cl_data l = None
               then mem_error ''cache line has no byte-oracle payload'' c
               else ret (cl_data l) (touch i c))"

section \<open>Token index and eviction\<close>

definition index_token :: "string option \<Rightarrow> line_identity \<Rightarrow> lru_cache \<Rightarrow> lru_cache" where
  "index_token tok i c =
     (case tok of
        None \<Rightarrow> c
      | Some t \<Rightarrow>
          if t = '''' then c
          else let ids = (case dict_get (lc_tokens c) t of None \<Rightarrow> [] | Some ids \<Rightarrow> ids)
               in c\<lparr>lc_tokens := dict_set t (List.insert i ids) (lc_tokens c)\<rparr>)"

definition unindex_token :: "string option \<Rightarrow> line_identity \<Rightarrow> lru_cache \<Rightarrow> lru_cache" where
  "unindex_token tok i c =
     (case tok of
        None \<Rightarrow> c
      | Some t \<Rightarrow>
          if t = '''' then c
          else case dict_get (lc_tokens c) t of
                 None \<Rightarrow> c
               | Some ids \<Rightarrow>
                   let ids = removeAll i ids
                   in if ids = [] then c\<lparr>lc_tokens := dict_del t (lc_tokens c)\<rparr>
                      else c\<lparr>lc_tokens := dict_set t ids (lc_tokens c)\<rparr>)"

definition evict_one :: "lru_cache \<Rightarrow> unit lc_result" where
  "evict_one c =
     (case lc_lines c of
        [] \<Rightarrow> ret () c
      | (i, l) # rest \<Rightarrow>
          if cl_dirty l \<or> cl_pending_clean l \<noteq> None
          then mem_error ''dirty cache line requires a real clean before eviction'' c
          else let c = unindex_token (cl_token l) i (c\<lparr>lc_lines := rest\<rparr>)
               in ret () (c\<lparr>lc_evictions := lc_evictions c + 1\<rparr>))"

text \<open>
  \<open>while len(lines) >= capacity_lines: evict_one()\<close>. Both callers have checked that the
  cache is enabled, so the capacity is positive and the loop has lines to evict; the first
  argument bounds the iterations by the number of resident lines.
\<close>

fun evict_loop :: "nat \<Rightarrow> lru_cache \<Rightarrow> unit lc_result" where
  "evict_loop 0 c = ret () c"
| "evict_loop (Suc n) c =
     (if int (length (lc_lines c)) \<ge> lc_capacity_lines c
      then and_then (evict_one c) (\<lambda>_ c. evict_loop n c) else ret () c)"

definition make_room :: "lru_cache \<Rightarrow> unit lc_result" where
  "make_room c = evict_loop (length (lc_lines c)) c"

definition set_line :: "line_identity \<Rightarrow> cache_line \<Rightarrow> lru_cache \<Rightarrow> lru_cache" where
  "set_line i l c = c\<lparr>lc_lines := dict_set i l (lc_lines c)\<rparr>"

text \<open>\<open>if token and existing.token != token: unindex, replace\<close>, then index the line's token.\<close>

definition retoken :: "string option \<Rightarrow> line_identity \<Rightarrow> cache_line \<Rightarrow> lru_cache \<Rightarrow> cache_line \<times> lru_cache" where
  "retoken tok i l c =
     (if tok \<noteq> None \<and> tok \<noteq> Some '''' \<and> cl_token l \<noteq> tok
      then (l\<lparr>cl_token := tok\<rparr>, unindex_token (cl_token l) i c) else (l, c))"

definition provenance_error :: "line_identity \<Rightarrow> provenance \<Rightarrow> lru_cache \<Rightarrow> py_error option" where
  "provenance_error i p c =
     (if pv_allocation_id p \<noteq> li_allocation_id i \<or> pv_allocation_generation p \<noteq> li_allocation_generation i
         \<or> pv_source_offset p \<noteq> li_line_offset i
      then Some (MemoryInvariantError ''cache identity/provenance mismatch'')
      else if pv_bytes p \<le> 0 then Some (MemoryInvariantError ''cache provenance range must be positive'')
      else if pv_precise p \<and> pv_bytes p \<noteq> lc_line_bytes c
      then Some (MemoryInvariantError ''precise cache provenance must describe one line'')
      else if \<not> pv_precise p \<and> li_precise i
      then Some (MemoryInvariantError ''conservative provenance requires opaque identity'')
      else None)"

definition install_metadata :: "string option \<Rightarrow> line_identity \<Rightarrow> provenance \<Rightarrow> lru_cache \<Rightarrow> unit lc_result" where
  "install_metadata tok i p c =
     (if \<not> lc_enabled c then mem_error ''cache metadata targets a disabled cache'' c
      else if pv_bytes p \<le> 0 then mem_error ''cache provenance range must be positive'' c
      else case provenance_error i p c of
             Some e \<Rightarrow> raise e c
           | None \<Rightarrow>
               (case dict_get (lc_lines c) i of
                  Some l \<Rightarrow>
                    if cl_pending_clean l \<noteq> None
                    then mem_error ''cannot update metadata during pending clean'' c
                    else let (l, c) = retoken tok i l c;
                             v = lc_next_version c + 1;
                             l = l\<lparr>cl_provenance := p, cl_version := v\<rparr>;
                             c = set_line i l (c\<lparr>lc_next_version := v\<rparr>)
                         in ret () (touch i (index_token (cl_token l) i c))
                | None \<Rightarrow>
                    and_then (make_room c) (\<lambda>_ c.
                      let v = lc_next_version c + 1;
                          l = \<lparr>cl_identity = i, cl_token = tok, cl_provenance = p, cl_data = None,
                               cl_profile_generation = lc_profile_generation c, cl_version = v, cl_dirty = False,
                               cl_validity = None, cl_pending_clean = None, cl_invalidate_after_clean = False\<rparr>
                      in ret () (index_token tok i (set_line i l (c\<lparr>lc_next_version := v\<rparr>))))))"

section \<open>Refill and dirty lines\<close>

definition refill_identity ::
  "string option \<Rightarrow> line_identity option \<Rightarrow> provenance option \<Rightarrow> lru_cache
   \<Rightarrow> py_error + line_identity \<times> provenance option" where
  "refill_identity tok ident prov c =
     (case ident of
        Some i \<Rightarrow> Inr (i, prov)
      | None \<Rightarrow>
          (case prov of
             Some p \<Rightarrow>
               Inr (\<lparr>li_allocation_id = pv_allocation_id p, li_allocation_generation = pv_allocation_generation p,
                     li_line_offset = pv_source_offset p, li_span_bytes = pv_bytes p,
                     li_opaque_token = (case tok of None \<Rightarrow> '''' | Some t \<Rightarrow> t), li_precise = pv_precise p\<rparr>, prov)
           | None \<Rightarrow>
               if tok = None \<or> tok = Some ''''
               then Inl (MemoryInvariantError ''cache refill requires a line identity or token'')
               else let t = the tok;
                        i = \<lparr>li_allocation_id = ''opaque:'' @ t, li_allocation_generation = 0, li_line_offset = 0,
                             li_span_bytes = lc_line_bytes c, li_opaque_token = t, li_precise = False\<rparr>
                    in Inr (i, Some \<lparr>pv_binding_name = '''', pv_allocation_id = li_allocation_id i,
                                     pv_allocation_generation = 0, pv_source_offset = 0,
                                     pv_bytes = lc_line_bytes c, pv_precise = False\<rparr>)))"

definition default_provenance :: "line_identity \<Rightarrow> lru_cache \<Rightarrow> provenance" where
  "default_provenance i c =
     \<lparr>pv_binding_name = '''', pv_allocation_id = li_allocation_id i,
      pv_allocation_generation = li_allocation_generation i, pv_source_offset = li_line_offset i,
      pv_bytes = (if li_span_bytes i \<noteq> 0 then li_span_bytes i else lc_line_bytes c), pv_precise = li_precise i\<rparr>"

definition refill_existing ::
  "string option \<Rightarrow> line_identity \<Rightarrow> cache_line \<Rightarrow> provenance \<Rightarrow> bytes option \<Rightarrow> bytes option \<Rightarrow> int \<Rightarrow> bool
   \<Rightarrow> lru_cache \<Rightarrow> lru_cache" where
  "refill_existing tok i l p data validity gen dirty c =
     (let newly = dirty \<and> \<not> cl_dirty l;
          c = c\<lparr>lc_dirty_lines := lc_dirty_lines c + of_bool newly\<rparr>;
          l = l\<lparr>cl_provenance := p,
                cl_data := (if data \<noteq> None then data else cl_data l),
                cl_profile_generation := gen,
                cl_dirty := (cl_dirty l \<or> dirty),
                cl_validity := (if validity \<noteq> None then validity else cl_validity l)\<rparr>;
          (l, c) = retoken tok i l c
      in touch i (index_token (cl_token l) i (set_line i l c)))"

definition refill_new ::
  "string option \<Rightarrow> line_identity \<Rightarrow> provenance \<Rightarrow> bytes option \<Rightarrow> bytes option \<Rightarrow> int \<Rightarrow> bool
   \<Rightarrow> lru_cache \<Rightarrow> lru_cache" where
  "refill_new tok i p data validity gen dirty c =
     (let v = lc_next_version c + 1;
          l = \<lparr>cl_identity = i, cl_token = tok, cl_provenance = p, cl_data = data,
               cl_profile_generation = gen, cl_version = v, cl_dirty = dirty, cl_validity = validity,
               cl_pending_clean = None, cl_invalidate_after_clean = False\<rparr>;
          c = set_line i l (c\<lparr>lc_next_version := v\<rparr>)
      in index_token tok i (c\<lparr>lc_dirty_lines := lc_dirty_lines c + of_bool dirty\<rparr>))"

definition refill ::
  "string option \<Rightarrow> line_identity option \<Rightarrow> provenance option \<Rightarrow> bytes option \<Rightarrow> bytes option \<Rightarrow> int option \<Rightarrow> bool
   \<Rightarrow> lru_cache \<Rightarrow> unit lc_result" where
  "refill tok ident prov data validity generation dirty c =
     (if \<not> lc_enabled c then mem_error ''cache refill targets a disabled cache'' c
      else let gen = (case generation of None \<Rightarrow> lc_profile_generation c | Some g \<Rightarrow> g)
      in if gen \<noteq> lc_profile_generation c then mem_error ''old-generation cache refill rejected'' c
      else if dirty \<and> lc_write_policy c \<noteq> ''write_back''
      then mem_error ''dirty line requires write_back cache policy'' c
      else if data \<noteq> None \<and> int (length (the data)) \<noteq> lc_line_bytes c
      then mem_error ''cache refill data must be exactly one line'' c
      else if validity \<noteq> None \<and> int (length (the validity)) \<noteq> lc_line_bytes c
      then mem_error ''cache refill validity must be exactly one line'' c
      else case refill_identity tok ident prov c of
        Inl e \<Rightarrow> raise e c
      | Inr (i, prov) \<Rightarrow>
          let p = (case prov of None \<Rightarrow> default_provenance i c | Some p \<Rightarrow> p)
          in case provenance_error i p c of
               Some e \<Rightarrow> raise e c
             | None \<Rightarrow>
                 let c = c\<lparr>lc_refills := lc_refills c + 1\<rparr>
                 in case dict_get (lc_lines c) i of
                      Some l \<Rightarrow>
                        if cl_pending_clean l \<noteq> None
                        then mem_error ''cannot refill a line while its clean is pending'' c
                        else ret () (refill_existing tok i l p data validity gen dirty c)
                    | None \<Rightarrow>
                        and_then (make_room c) (\<lambda>_ c. ret () (refill_new tok i p data validity gen dirty c)))"

definition seed_line :: "string \<Rightarrow> int \<Rightarrow> int \<Rightarrow> string \<Rightarrow> bytes \<Rightarrow> bool \<Rightarrow> lru_cache \<Rightarrow> line_identity lc_result" where
  "seed_line aid agen off binding data dirty c =
     (if off mod lc_line_bytes c \<noteq> 0 then mem_error ''cache seed line offset is not aligned'' c
      else case identity_for aid agen off 0 of
             Inl e \<Rightarrow> raise e c
           | Inr i \<Rightarrow>
               and_then (refill None (Some i)
                 (Some \<lparr>pv_binding_name = binding, pv_allocation_id = aid, pv_allocation_generation = agen,
                        pv_source_offset = off, pv_bytes = lc_line_bytes c, pv_precise = True\<rparr>)
                 (Some data) None None dirty c) (\<lambda>_ c. ret i c))"

definition mark_dirty :: "cache_key \<Rightarrow> bytes option \<Rightarrow> lru_cache \<Rightarrow> unit lc_result" where
  "mark_dirty k data c =
     (if lc_write_policy c \<noteq> ''write_back'' then mem_error ''read-only cache line cannot become dirty'' c
      else case resident k c of
             None \<Rightarrow> mem_error ''cannot dirty a non-resident cache line'' c
           | Some (i, l) \<Rightarrow>
               if cl_pending_clean l \<noteq> None
               then mem_error ''cannot dirty a cache line while clean is pending'' c
               else if data \<noteq> None \<and> int (length (the data)) \<noteq> lc_line_bytes c
               then mem_error ''dirty cache data must be exactly one line'' c
               else let l = (if data \<noteq> None then l\<lparr>cl_data := data\<rparr> else l) in
                    if cl_data l = None then mem_error ''dirty cache line requires byte data'' c
                    else let c = c\<lparr>lc_next_version := lc_next_version c + 1,
                                   lc_dirty_lines := lc_dirty_lines c + of_bool (\<not> cl_dirty l)\<rparr>;
                             l = l\<lparr>cl_version := lc_next_version c, cl_dirty := True\<rparr>
                         in ret () (touch i (set_line i l c)))"

section \<open>Maintenance\<close>

definition remove_line :: "line_identity \<Rightarrow> lru_cache \<Rightarrow> unit lc_result" where
  "remove_line i c =
     (case dict_get (lc_lines c) i of
        None \<Rightarrow> ret () c
      | Some l \<Rightarrow>
          let c = c\<lparr>lc_lines := dict_del i (lc_lines c), lc_dirty_lines := lc_dirty_lines c - of_bool (cl_dirty l)\<rparr>
          in if cl_pending_clean l \<noteq> None
             then mem_error ''cannot remove a line with pending clean work'' c
             else ret () (unindex_token (cl_token l) i c))"

text \<open>
  The interval index of \<open>begin_maintenance\<close>: per allocation the sorted starts and the running
  maxima of the ends; \<open>bisect_left\<close> counts the starts below its argument in a sorted list.
\<close>

fun group_ranges :: "cache_range list \<Rightarrow> (string \<times> int, (int \<times> int) list) dict \<Rightarrow> (string \<times> int, (int \<times> int) list) dict" where
  "group_ranges [] d = d"
| "group_ranges (r # rs) d =
     (let key = (cr_allocation_id r, cr_allocation_generation r);
          old = (case dict_get d key of None \<Rightarrow> [] | Some xs \<Rightarrow> xs)
      in group_ranges rs (dict_set key (old @ [(cr_offset r, cr_end r)]) d))"

fun running_max :: "int option \<Rightarrow> (int \<times> int) list \<Rightarrow> int list" where
  "running_max m [] = []"
| "running_max m ((s, e) # xs) =
     (let e' = (case m of None \<Rightarrow> e | Some k \<Rightarrow> max e k) in e' # running_max (Some e') xs)"

definition interval_index :: "cache_range list \<Rightarrow> (string \<times> int, int list \<times> int list) dict" where
  "interval_index rs =
     map (\<lambda>(k, xs). (k, (map fst (sort xs), running_max None (sort xs)))) (group_ranges rs [])"

definition bisect_left :: "int list \<Rightarrow> int \<Rightarrow> int" where
  "bisect_left xs x = int (length (takeWhile (\<lambda>s. s < x) xs))"

definition selected :: "(string \<times> int, int list \<times> int list) dict option \<Rightarrow> cache_line \<Rightarrow> bool" where
  "selected idx l =
     (case idx of
        None \<Rightarrow> True
      | Some d \<Rightarrow>
          let p = cl_provenance l
          in case dict_get d (pv_allocation_id p, pv_allocation_generation p) of
               None \<Rightarrow> False
             | Some (starts, ends) \<Rightarrow>
                 let last = bisect_left starts (pv_end_offset p) - 1
                 in \<not> (last < 0 \<or> ends ! nat last \<le> pv_source_offset p))"

definition start_clean :: "line_identity \<Rightarrow> cache_line \<Rightarrow> bytes \<Rightarrow> bool \<Rightarrow> lru_cache \<Rightarrow> clean_request \<times> lru_cache" where
  "start_clean i l data invalidate c =
     (let n = lc_next_clean_id c + 1;
          rid = CleanId (lc_level c) (lc_pool_id c) (lc_profile_generation c) n;
          l' = l\<lparr>cl_pending_clean := Some rid, cl_invalidate_after_clean := invalidate\<rparr>;
          c = set_line i l' (c\<lparr>lc_pending_cleans := dict_set rid i (lc_pending_cleans c), lc_next_clean_id := n\<rparr>)
      in (\<lparr>cq_request_id = rid, cq_identity = i, cq_provenance = cl_provenance l, cq_data = data,
           cq_profile_generation = cl_profile_generation l\<rparr>, c))"

fun maintain ::
  "(string \<times> int, int list \<times> int list) dict option \<Rightarrow> bool \<Rightarrow> bool \<Rightarrow> (line_identity \<times> cache_line) list
   \<Rightarrow> lru_cache \<Rightarrow> clean_request list lc_result" where
  "maintain idx clean invalidate [] c = ret [] c"
| "maintain idx clean invalidate ((i, l) # ls) c =
     (if \<not> selected idx l \<or> cl_pending_clean l \<noteq> None then maintain idx clean invalidate ls c
      else if cl_dirty l then
        (if \<not> clean then mem_error ''dirty cache line cannot be invalidated without clean'' c
         else case cl_data l of
                None \<Rightarrow> mem_error ''dirty cache line has no bytes to clean'' c
              | Some data \<Rightarrow>
                  let (rq, c) = start_clean i l data invalidate c
                  in and_then (maintain idx clean invalidate ls c) (\<lambda>rqs c. ret (rq # rqs) c))
      else if invalidate then and_then (remove_line i c) (\<lambda>_ c. maintain idx clean invalidate ls c)
      else maintain idx clean invalidate ls c)"

definition begin_maintenance ::
  "cache_range list option \<Rightarrow> bool \<Rightarrow> bool \<Rightarrow> lru_cache \<Rightarrow> clean_request list lc_result" where
  "begin_maintenance ranges clean invalidate c =
     maintain (map_option interval_index ranges) clean invalidate (lc_lines c) c"

definition complete_clean :: "clean_id \<Rightarrow> bool \<Rightarrow> lru_cache \<Rightarrow> unit lc_result" where
  "complete_clean rid success c =
     (case dict_get (lc_pending_cleans c) rid of
        None \<Rightarrow> mem_error ''unknown cache clean request'' c
      | Some i \<Rightarrow>
          let c = c\<lparr>lc_pending_cleans := dict_del rid (lc_pending_cleans c)\<rparr>
          in case dict_get (lc_lines c) i of
               None \<Rightarrow> mem_error ''cache clean request lost its resident line'' c
             | Some l \<Rightarrow>
                 if cl_pending_clean l \<noteq> Some rid
                 then mem_error ''cache clean request lost its resident line'' c
                 else if \<not> success
                 then ret () (set_line i (l\<lparr>cl_pending_clean := None, cl_invalidate_after_clean := False\<rparr>) c)
                 else let c = c\<lparr>lc_dirty_lines := lc_dirty_lines c - of_bool (cl_dirty l)\<rparr>;
                          c = set_line i (l\<lparr>cl_dirty := False, cl_pending_clean := None\<rparr>) c
                      in if cl_invalidate_after_clean l then remove_line i c
                         else ret () c)"

section \<open>Reset and reconfiguration\<close>

definition reset_after_isolation :: "bool \<Rightarrow> lru_cache \<Rightarrow> int lc_result" where
  "reset_after_isolation refills_quiescent c =
     (if \<not> refills_quiescent then mem_error ''recovery reset requires all cache refills to drain'' c
      else if lc_pending_cleans c \<noteq> [] \<or> list_ex (\<lambda>l. cl_pending_clean l \<noteq> None) (dict_values (lc_lines c))
      then mem_error ''recovery reset requires all cache cleans to isolate'' c
      else ret (lc_dirty_lines c)
             (c\<lparr>lc_lines := [], lc_tokens := [], lc_dirty_lines := 0,
                lc_discarded_dirty_lines := lc_discarded_dirty_lines c + lc_dirty_lines c\<rparr>))"

definition reconfigure :: "int \<Rightarrow> int \<Rightarrow> string option \<Rightarrow> lru_cache \<Rightarrow> unit lc_result" where
  "reconfigure capacity gen policy c =
     (if capacity < 0 \<or> capacity mod lc_line_bytes c \<noteq> 0
      then mem_error ''cache profile capacity is not line-aligned'' c
      else if gen \<le> lc_profile_generation c
      then mem_error ''cache profile generation must increase monotonically'' c
      else if lc_pending_cleans c \<noteq> []
      then mem_error ''cannot reconfigure cache with pending clean work'' c
      else if lc_dirty_lines c \<noteq> 0
      then mem_error ''cannot reconfigure cache with dirty lines'' c
      else if policy \<noteq> None \<and> policy \<noteq> Some ''read_only'' \<and> policy \<noteq> Some ''write_back''
      then mem_error ''unsupported cache write policy'' c
      else ret () (c\<lparr>lc_capacity_bytes := capacity,
                     lc_write_policy := (case policy of None \<Rightarrow> lc_write_policy c | Some p \<Rightarrow> p),
                     lc_profile_generation := gen,
                     lc_capacity_lines := capacity div lc_line_bytes c,
                     lc_lines := [], lc_tokens := []\<rparr>))"

definition lc_reset :: "lru_cache \<Rightarrow> unit lc_result" where
  "lc_reset c =
     (if lc_pending_cleans c \<noteq> [] \<or> lc_dirty_lines c \<noteq> 0
      then mem_error ''cache reset would discard uncompleted dirty state'' c
      else ret () (c\<lparr>lc_lines := [], lc_tokens := [], lc_hits := 0, lc_misses := 0, lc_refills := 0,
                     lc_evictions := 0, lc_discarded_dirty_lines := 0\<rparr>))"

definition resident_bytes :: "lru_cache \<Rightarrow> int" where
  "resident_bytes c = int (length (lc_lines c)) * lc_line_bytes c"

end
