(* ===== verification/Lru_Safety.thy ===== *)
theory Lru_Safety
  imports Lru_Cache
begin

text \<open>
  Invariants and properties of the profiled LRU cache: bounded residency, an exact dirty
  counter, a one-to-one correspondence between pending clean requests and lines waiting for
  them, dirty bytes that survive until their own clean completes, and the equivalence of the
  bisecting range index with the plain overlap test.
\<close>

section \<open>Invariant\<close>

definition core ::
  "(line_identity, cache_line) dict \<Rightarrow> (clean_id, line_identity) dict \<Rightarrow> int \<Rightarrow> int \<Rightarrow> int \<Rightarrow> int \<Rightarrow> string \<Rightarrow> bool" where
  "core ls pd d cap g n pol \<longleftrightarrow> keys_distinct ls \<and>
     (\<forall>i l. dict_get ls i = Some l \<longrightarrow> cl_identity l = i \<and> cl_profile_generation l = g
        \<and> (\<forall>r. cl_pending_clean l = Some r \<longrightarrow> cl_dirty l \<and> dict_get pd r = Some i)) \<and>
     keys_distinct pd \<and>
     (\<forall>r i. dict_get pd r = Some i \<longrightarrow> ck_seq r \<le> n
        \<and> (\<exists>l. dict_get ls i = Some l \<and> cl_pending_clean l = Some r)) \<and>
     d = dict_sum (\<lambda>l. of_bool (cl_dirty l)) ls \<and> int (length ls) \<le> cap \<and> (0 < d \<longrightarrow> pol = ''write_back'')"

definition lc_inv :: "lru_cache \<Rightarrow> bool" where
  "lc_inv c \<longleftrightarrow> core (lc_lines c) (lc_pending_cleans c) (lc_dirty_lines c) (lc_capacity_lines c)
     (lc_profile_generation c) (lc_next_clean_id c) (lc_write_policy c) \<and> 0 < lc_line_bytes c"

lemma coreD:
  assumes "core ls pd d cap g n pol"
  shows "keys_distinct ls" "keys_distinct pd" "d = dict_sum (\<lambda>l. of_bool (cl_dirty l)) ls" "int (length ls) \<le> cap"
    "0 < d \<Longrightarrow> pol = ''write_back''"
    "dict_get ls i = Some l \<Longrightarrow> cl_identity l = i" "dict_get ls i = Some l \<Longrightarrow> cl_profile_generation l = g"
    "dict_get ls i = Some l \<Longrightarrow> cl_pending_clean l = Some r \<Longrightarrow> cl_dirty l \<and> dict_get pd r = Some i"
    "dict_get pd r = Some i \<Longrightarrow> ck_seq r \<le> n"
    "dict_get pd r = Some i \<Longrightarrow> \<exists>l. dict_get ls i = Some l \<and> cl_pending_clean l = Some r"
  using assms by (auto simp: core_def)

lemma dirty_member: "dict_get ls i = Some l \<Longrightarrow> cl_dirty l \<Longrightarrow> 0 < dict_sum (\<lambda>l. of_bool (cl_dirty l) :: int) ls"
  using dict_sum_member_le [of ls "\<lambda>l. of_bool (cl_dirty l)" i l] dict_get_in_set [of ls i l] by simp

lemma dirty_nonneg: "0 \<le> dict_sum (\<lambda>l. of_bool (cl_dirty l) :: int) ls"
  by (rule dict_sum_nonneg) simp

lemma coreI:
  assumes "keys_distinct ls" "keys_distinct pd" "d = dict_sum (\<lambda>l. of_bool (cl_dirty l)) ls" "int (length ls) \<le> cap"
    "0 < d \<Longrightarrow> pol = ''write_back''"
    "\<And>i l. dict_get ls i = Some l \<Longrightarrow> cl_identity l = i \<and> cl_profile_generation l = g"
    "\<And>i l r. dict_get ls i = Some l \<Longrightarrow> cl_pending_clean l = Some r \<Longrightarrow> cl_dirty l \<and> dict_get pd r = Some i"
    "\<And>r i. dict_get pd r = Some i \<Longrightarrow> ck_seq r \<le> n
      \<and> (\<exists>l. dict_get ls i = Some l \<and> cl_pending_clean l = Some r)"
  shows "core ls pd d cap g n pol"
  unfolding core_def using assms by blast

text \<open>How the six kinds of change move the invariant.\<close>

lemma core_set:
  assumes c: "core ls pd d cap g n pol" and l: "dict_get ls i = Some l"
    and l': "cl_identity l' = i" "cl_profile_generation l' = g" "cl_pending_clean l' = cl_pending_clean l"
      "cl_pending_clean l \<noteq> None \<Longrightarrow> cl_dirty l'" "cl_dirty l' \<Longrightarrow> cl_dirty l \<or> pol = ''write_back''"
  shows "core (dict_set i l' ls) pd (d - of_bool (cl_dirty l) + of_bool (cl_dirty l')) cap g n pol"
proof (rule coreI)
  have d: "d = dict_sum (\<lambda>l. of_bool (cl_dirty l)) ls" using coreD(3) [OF c] .
  show "keys_distinct (dict_set i l' ls)" "keys_distinct pd" using coreD(1,2) [OF c] by (simp_all add: dict_simps)
  show "d - of_bool (cl_dirty l) + of_bool (cl_dirty l') = dict_sum (\<lambda>l. of_bool (cl_dirty l)) (dict_set i l' ls)"
    using d by (simp add: dict_sum_update [OF l])
  show "int (length (dict_set i l' ls)) \<le> cap" using coreD(4) [OF c] l by (simp add: length_dict_set)
  show "pol = ''write_back''" if "0 < d - of_bool (cl_dirty l) + of_bool (cl_dirty l')"
  proof (cases "cl_dirty l'")
    case True
    with l'(5) coreD(5) [OF c] dirty_member [OF l] d show ?thesis by auto
  next
    case False
    with that have "0 < d" by (cases "cl_dirty l") auto
    then show ?thesis by (rule coreD(5) [OF c])
  qed
  show "cl_identity k = j \<and> cl_profile_generation k = g" if "dict_get (dict_set i l' ls) j = Some k" for j k
    using that l' coreD(6,7) [OF c] by (auto simp: dict_simps split: if_splits)
  show "cl_dirty k \<and> dict_get pd r = Some j"
    if "dict_get (dict_set i l' ls) j = Some k" "cl_pending_clean k = Some r" for j k r
  proof (cases "j = i")
    case True
    with that have k: "k = l'" "cl_pending_clean l = Some r" using l'(3) by (simp_all add: dict_simps)
    with coreD(8) [OF c l k(2)] l'(4) True show ?thesis by simp
  next
    case False
    with that coreD(8) [OF c] show ?thesis by (simp add: dict_simps)
  qed
  show "ck_seq r \<le> n \<and> (\<exists>k. dict_get (dict_set i l' ls) j = Some k \<and> cl_pending_clean k = Some r)"
    if "dict_get pd r = Some j" for r j
    using coreD(9,10) [OF c that] l l'(3) by (auto simp: dict_simps)
qed

lemma move_get [simp]: "dict_get (move_to_end i d) j = dict_get d j"
  by (auto simp: move_to_end_def dict_simps map_add_def split: option.splits)

lemma move_distinct: "keys_distinct d \<Longrightarrow> keys_distinct (move_to_end i d)"
  by (auto simp: move_to_end_def dict_simps set_dict_del split: option.splits)

lemma move_length: "keys_distinct d \<Longrightarrow> length (move_to_end i d) = length d"
  using length_pos_if_in_set [OF dict_get_in_set, of d i]
  by (auto simp: move_to_end_def length_dict_del split: option.splits)

lemma move_sum:
  fixes f :: "'v \<Rightarrow> int"
  shows "keys_distinct d \<Longrightarrow> dict_sum f (move_to_end i d) = dict_sum f d"
  by (auto simp: move_to_end_def dict_sum_del split: option.splits)

lemma core_move: "core ls pd d cap g n pol \<Longrightarrow> core (move_to_end i ls) pd d cap g n pol"
  unfolding core_def by (simp add: move_distinct move_length move_sum)

lemma core_new:
  assumes c: "core ls pd d cap g n pol" and fresh: "dict_get ls i = None" and room: "int (length ls) < cap"
    and l: "cl_identity l = i" "cl_profile_generation l = g" "cl_pending_clean l = None"
      "cl_dirty l \<Longrightarrow> pol = ''write_back''"
  shows "core (dict_set i l ls) pd (d + of_bool (cl_dirty l)) cap g n pol"
proof (rule coreI)
  show "keys_distinct (dict_set i l ls)" "keys_distinct pd" using coreD(1,2) [OF c] by (simp_all add: dict_simps)
  show "d + of_bool (cl_dirty l) = dict_sum (\<lambda>l. of_bool (cl_dirty l)) (dict_set i l ls)"
    using coreD(3) [OF c] by (simp add: dict_sum_fresh [OF fresh])
  show "int (length (dict_set i l ls)) \<le> cap" using room fresh by (simp add: length_dict_set)
  show "pol = ''write_back''" if "0 < d + of_bool (cl_dirty l)"
    using that l(4) coreD(5) [OF c] by (cases "cl_dirty l") auto
  show "cl_identity k = j \<and> cl_profile_generation k = g" if "dict_get (dict_set i l ls) j = Some k" for j k
    using that l coreD(6,7) [OF c] by (auto simp: dict_simps split: if_splits)
  show "cl_dirty k \<and> dict_get pd r = Some j"
    if "dict_get (dict_set i l ls) j = Some k" "cl_pending_clean k = Some r" for j k r
    using that l coreD(8) [OF c] by (auto simp: dict_simps split: if_splits)
  show "ck_seq r \<le> n \<and> (\<exists>k. dict_get (dict_set i l ls) j = Some k \<and> cl_pending_clean k = Some r)"
    if "dict_get pd r = Some j" for r j
    using coreD(9,10) [OF c that] fresh by (auto simp: dict_simps)
qed

lemma core_del:
  assumes c: "core ls pd d cap g n pol" and l: "dict_get ls i = Some l" "cl_pending_clean l = None"
  shows "core (dict_del i ls) pd (d - of_bool (cl_dirty l)) cap g n pol"
proof (rule coreI)
  have kd: "keys_distinct ls" using coreD(1) [OF c] .
  show "keys_distinct (dict_del i ls)" "keys_distinct pd" using coreD(1,2) [OF c] by (simp_all add: dict_simps)
  show "d - of_bool (cl_dirty l) = dict_sum (\<lambda>l. of_bool (cl_dirty l)) (dict_del i ls)"
    using coreD(3) [OF c] by (simp add: dict_sum_del [OF kd l(1)])
  show "int (length (dict_del i ls)) \<le> cap" using coreD(4) [OF c] by (auto simp: length_dict_del [OF kd])
  show "pol = ''write_back''" if "0 < d - of_bool (cl_dirty l)"
    using that coreD(5) [OF c] by (cases "cl_dirty l") auto
  show "cl_identity k = j \<and> cl_profile_generation k = g" if "dict_get (dict_del i ls) j = Some k" for j k
    using that coreD(6,7) [OF c] by (auto simp: dict_simps split: if_splits)
  show "cl_dirty k \<and> dict_get pd r = Some j"
    if "dict_get (dict_del i ls) j = Some k" "cl_pending_clean k = Some r" for j k r
    using that coreD(8) [OF c] by (auto simp: dict_simps split: if_splits)
  show "ck_seq r \<le> n \<and> (\<exists>k. dict_get (dict_del i ls) j = Some k \<and> cl_pending_clean k = Some r)"
    if "dict_get pd r = Some j" for r j
    using coreD(9,10) [OF c that] l by (auto simp: dict_simps)
qed

lemma core_start:
  assumes c: "core ls pd d cap g n pol" and l: "dict_get ls i = Some l" "cl_pending_clean l = None" "cl_dirty l"
    and r: "ck_seq r = n + 1"
    and l': "cl_identity l' = i" "cl_profile_generation l' = g" "cl_pending_clean l' = Some r" "cl_dirty l'"
  shows "core (dict_set i l' ls) (dict_set r i pd) d cap g (n + 1) pol"
proof (rule coreI)
  have fresh: "dict_get pd r = None" using coreD(9) [OF c, of r] r by (cases "dict_get pd r") auto
  show "keys_distinct (dict_set i l' ls)" "keys_distinct (dict_set r i pd)" using coreD(1,2) [OF c] by (simp_all add: dict_simps)
  show "d = dict_sum (\<lambda>l. of_bool (cl_dirty l)) (dict_set i l' ls)"
    using coreD(3) [OF c] l(3) l'(4) by (simp add: dict_sum_update [OF l(1)])
  show "int (length (dict_set i l' ls)) \<le> cap" using coreD(4) [OF c] l by (simp add: length_dict_set)
  show "pol = ''write_back''" if "0 < d" using that by (rule coreD(5) [OF c])
  show "cl_identity k = j \<and> cl_profile_generation k = g" if "dict_get (dict_set i l' ls) j = Some k" for j k
    using that l' coreD(6,7) [OF c] by (auto simp: dict_simps split: if_splits)
  show "cl_dirty k \<and> dict_get (dict_set r i pd) q = Some j"
    if "dict_get (dict_set i l' ls) j = Some k" "cl_pending_clean k = Some q" for j k q
    using that l' coreD(8) [OF c] fresh by (fastforce simp: dict_simps split: if_splits)
  show "ck_seq q \<le> n + 1 \<and> (\<exists>k. dict_get (dict_set i l' ls) j = Some k \<and> cl_pending_clean k = Some q)"
    if "dict_get (dict_set r i pd) q = Some j" for q j
    using that coreD(9,10) [OF c, of q j] l l'(3) r by (auto simp: dict_simps split: if_splits)
qed

lemma core_done:
  assumes c: "core ls pd d cap g n pol" and r: "dict_get pd r = Some i" and l: "dict_get ls i = Some l"
    and l': "cl_identity l' = i" "cl_profile_generation l' = g" "cl_pending_clean l' = None"
      "cl_dirty l' \<Longrightarrow> cl_dirty l"
  shows "core (dict_set i l' ls) (dict_del r pd) (d - of_bool (cl_dirty l) + of_bool (cl_dirty l')) cap g n pol"
proof (rule coreI)
  have lr: "cl_pending_clean l = Some r" using coreD(10) [OF c r] l by auto
  have d: "d = dict_sum (\<lambda>l. of_bool (cl_dirty l)) ls" using coreD(3) [OF c] .
  show "keys_distinct (dict_set i l' ls)" "keys_distinct (dict_del r pd)" using coreD(1,2) [OF c] by (simp_all add: dict_simps)
  show "d - of_bool (cl_dirty l) + of_bool (cl_dirty l') = dict_sum (\<lambda>l. of_bool (cl_dirty l)) (dict_set i l' ls)"
    using d by (simp add: dict_sum_update [OF l])
  show "int (length (dict_set i l' ls)) \<le> cap" using coreD(4) [OF c] l by (simp add: length_dict_set)
  show "pol = ''write_back''" if "0 < d - of_bool (cl_dirty l) + of_bool (cl_dirty l')"
    using that l'(4) coreD(5) [OF c] by (cases "cl_dirty l"; cases "cl_dirty l'") auto
  show "cl_identity k = j \<and> cl_profile_generation k = g" if "dict_get (dict_set i l' ls) j = Some k" for j k
    using that l' coreD(6,7) [OF c] by (auto simp: dict_simps split: if_splits)
  show "cl_dirty k \<and> dict_get (dict_del r pd) q = Some j"
    if "dict_get (dict_set i l' ls) j = Some k" "cl_pending_clean k = Some q" for j k q
  proof -
    have j: "j \<noteq> i" "dict_get ls j = Some k" using that l'(3) by (auto simp: dict_simps split: if_splits)
    have "cl_dirty k \<and> dict_get pd q = Some j" using coreD(8) [OF c j(2) that(2)] .
    with j(1) r show ?thesis by (auto simp: dict_simps)
  qed
  show "ck_seq q \<le> n \<and> (\<exists>k. dict_get (dict_set i l' ls) j = Some k \<and> cl_pending_clean k = Some q)"
    if "dict_get (dict_del r pd) q = Some j" for q j
  proof -
    have q: "q \<noteq> r" "dict_get pd q = Some j" using that by (auto simp: dict_simps split: if_splits)
    have "j \<noteq> i" using coreD(10) [OF c q(2)] q(1) l lr by auto
    with coreD(9,10) [OF c q(2)] show ?thesis by (auto simp: dict_simps)
  qed
qed

section \<open>Operations keep the cache\<close>

text \<open>
  Between two states a dirty line stays resident and dirty; while its clean is pending its
  bytes, provenance and request do not change either.
\<close>

definition line_kept :: "cache_line \<Rightarrow> cache_line \<Rightarrow> bool" where
  "line_kept l l' \<longleftrightarrow> (cl_dirty l \<longrightarrow> cl_dirty l' \<and> (cl_pending_clean l \<noteq> None \<longrightarrow>
     cl_pending_clean l' = cl_pending_clean l \<and> cl_data l' = cl_data l \<and> cl_provenance l' = cl_provenance l))"

definition lc_rel :: "lru_cache \<Rightarrow> lru_cache \<Rightarrow> bool" where
  "lc_rel c c' \<longleftrightarrow> (\<forall>i l. dict_get (lc_lines c) i = Some l \<and> cl_dirty l \<longrightarrow>
     (\<exists>l'. dict_get (lc_lines c') i = Some l' \<and> line_kept l l'))"

lemma line_kept_refl [simp]: "line_kept l l"
  by (simp add: line_kept_def)

lemma lc_rel_refl: "lc_rel c c"
  by (auto simp: lc_rel_def)

lemma lc_rel_trans:
  assumes "lc_rel c c'" "lc_rel c' c''"
  shows "lc_rel c c''"
  unfolding lc_rel_def
proof (intro allI impI)
  fix i l assume l: "dict_get (lc_lines c) i = Some l \<and> cl_dirty l"
  then obtain l' where l': "dict_get (lc_lines c') i = Some l'" "line_kept l l'" using assms(1) by (auto simp: lc_rel_def)
  with l have "cl_dirty l'" by (simp add: line_kept_def)
  with l'(1) assms(2) obtain l'' where "dict_get (lc_lines c'') i = Some l''" "line_kept l' l''" by (auto simp: lc_rel_def)
  with l' l show "\<exists>l''. dict_get (lc_lines c'') i = Some l'' \<and> line_kept l l''" by (auto simp: line_kept_def)
qed

interpretation lc_logic: outcome_logic lc_inv lc_rel
  by unfold_locales (rule lc_rel_refl, rule lc_rel_trans)

abbreviation lc_keeps :: "lru_cache \<Rightarrow> 'a lc_result \<Rightarrow> bool" where
  "lc_keeps \<equiv> lc_logic.keeps"

named_theorems lc_intros

declare lc_logic.keeps_same [lc_intros] lc_logic.keeps_if [lc_intros] lc_logic.keeps_opt [lc_intros]
  lc_logic.keeps_sum [lc_intros]

text \<open>The token index is not part of the line invariant.\<close>

lemma token_frame [simp]:
  "lc_lines (index_token t i c) = lc_lines c" "lc_lines (unindex_token t i c) = lc_lines c"
  "lc_inv (index_token t i c) = lc_inv c" "lc_inv (unindex_token t i c) = lc_inv c"
  "lc_dirty_lines (index_token t i c) = lc_dirty_lines c" "lc_dirty_lines (unindex_token t i c) = lc_dirty_lines c"
  "lc_capacity_lines (index_token t i c) = lc_capacity_lines c" "lc_capacity_lines (unindex_token t i c) = lc_capacity_lines c"
  "lc_profile_generation (unindex_token t i c) = lc_profile_generation c"
  "lc_write_policy (unindex_token t i c) = lc_write_policy c" "lc_line_bytes (unindex_token t i c) = lc_line_bytes c"
  "lc_pending_cleans (unindex_token t i c) = lc_pending_cleans c" "lc_next_clean_id (unindex_token t i c) = lc_next_clean_id c"
  by (simp_all add: index_token_def unindex_token_def Let_def lc_inv_def split: option.splits)

lemma token_rel [simp]:
  "lc_rel c (index_token t i c') = lc_rel c c'" "lc_rel c (unindex_token t i c') = lc_rel c c'"
  by (simp_all add: lc_rel_def)

lemma lc_inv_counters [simp]:
  "lc_inv (c\<lparr>lc_hits := k\<rparr>) = lc_inv c" "lc_inv (c\<lparr>lc_misses := k\<rparr>) = lc_inv c" "lc_inv (c\<lparr>lc_refills := k\<rparr>) = lc_inv c"
  "lc_inv (c\<lparr>lc_evictions := k\<rparr>) = lc_inv c" "lc_inv (c\<lparr>lc_next_version := k\<rparr>) = lc_inv c"
  "lc_rel c0 (c\<lparr>lc_hits := k\<rparr>) = lc_rel c0 c" "lc_rel c0 (c\<lparr>lc_misses := k\<rparr>) = lc_rel c0 c"
  "lc_rel c0 (c\<lparr>lc_refills := k\<rparr>) = lc_rel c0 c" "lc_rel c0 (c\<lparr>lc_evictions := k\<rparr>) = lc_rel c0 c"
  by (simp_all add: lc_inv_def lc_rel_def)

lemma lc_inv_core: "lc_inv c \<Longrightarrow> core (lc_lines c) (lc_pending_cleans c) (lc_dirty_lines c) (lc_capacity_lines c)
     (lc_profile_generation c) (lc_next_clean_id c) (lc_write_policy c)"
  by (simp add: lc_inv_def)

lemma touch_inv: "lc_inv c \<Longrightarrow> lc_inv (touch i c)"
  by (simp add: lc_inv_def touch_def core_move)

lemma touch_rel: "lc_rel c0 (touch i c) = lc_rel c0 c"
  by (simp add: lc_rel_def touch_def)

text \<open>Replacing a line and adjusting the dirty counter.\<close>

lemma set_line_keeps:
  assumes l: "dict_get (lc_lines c) i = Some l" and inv: "lc_inv c"
    and l': "cl_identity l' = cl_identity l" "cl_profile_generation l' = cl_profile_generation l"
      "cl_pending_clean l' = cl_pending_clean l" "line_kept l l'" "cl_dirty l' \<Longrightarrow> cl_dirty l \<or> lc_write_policy c = ''write_back''"
    and c': "lc_lines c' = dict_set i l' (lc_lines c)" "lc_pending_cleans c' = lc_pending_cleans c"
      "lc_dirty_lines c' = lc_dirty_lines c - of_bool (cl_dirty l) + of_bool (cl_dirty l')"
      "lc_capacity_lines c' = lc_capacity_lines c" "lc_profile_generation c' = lc_profile_generation c"
      "lc_next_clean_id c' = lc_next_clean_id c" "lc_write_policy c' = lc_write_policy c" "lc_line_bytes c' = lc_line_bytes c"
  shows "lc_inv c' \<and> lc_rel c c'"
proof -
  note core = lc_inv_core [OF inv]
  have "cl_dirty l'" if "cl_pending_clean l \<noteq> None"
    using that coreD(8) [OF core l] l'(4) by (auto simp: line_kept_def)
  then have "lc_inv c'"
    unfolding lc_inv_def c' using inv l' coreD(6,7) [OF core l]
    by (intro conjI core_set [OF core l]) (simp_all add: lc_inv_def)
  moreover have "lc_rel c c'" using l l'(4) by (auto simp: lc_rel_def c' dict_simps)
  ultimately show ?thesis ..
qed

lemma evict_one_keeps [lc_intros]: "lc_keeps c (evict_one c)"
proof (cases "lc_lines c")
  case (Cons p rest)
  obtain i l where p: "p = (i, l)" by (cases p)
  let ?c = "c\<lparr>lc_lines := rest\<rparr>"
  have get: "dict_get (lc_lines c) i = Some l" by (simp add: Cons p)
  have "lc_inv ?c \<and> lc_rel c ?c" if inv: "lc_inv c" and clean: "\<not> (cl_dirty l \<or> cl_pending_clean l \<noteq> None)"
  proof -
    note core = lc_inv_core [OF inv]
    have del: "dict_del i (lc_lines c) = rest" using coreD(1) [OF core] by (simp add: Cons p)
    have "lc_inv ?c" using core_del [OF core get] clean inv by (simp add: lc_inv_def del)
    moreover have "dict_get rest j = dict_get (lc_lines c) j" if "j \<noteq> i" for j using that by (simp add: Cons p)
    then have "lc_rel c ?c" using clean get by (auto simp: lc_rel_def) (metis line_kept_refl option.inject)
    ultimately show ?thesis ..
  qed
  then show ?thesis
    by (simp add: evict_one_def Cons p Let_def lc_logic.keeps_def lc_rel_refl)
qed (simp add: evict_one_def lc_logic.keeps_same)

lemma evict_loop_keeps [lc_intros]: "lc_keeps c (evict_loop n c)"
  by (induction n arbitrary: c) (auto intro!: lc_intros lc_logic.keeps_and_then)

lemma make_room_keeps [lc_intros]: "lc_keeps c (make_room c)"
  unfolding make_room_def by (rule evict_loop_keeps)

lemma evict_one_frame:
  assumes "evict_one c = (Inr u, c')"
  shows "lc_lines c' = tl (lc_lines c) \<and> lc_capacity_lines c' = lc_capacity_lines c
    \<and> lc_profile_generation c' = lc_profile_generation c \<and> lc_write_policy c' = lc_write_policy c
    \<and> lc_line_bytes c' = lc_line_bytes c"
  using assms by (auto simp: evict_one_def Let_def split: list.splits if_splits)

lemma evict_loop_frame:
  assumes "evict_loop n c = (Inr u, c')"
  shows "(\<exists>k. lc_lines c' = drop k (lc_lines c)) \<and> lc_capacity_lines c' = lc_capacity_lines c
    \<and> lc_profile_generation c' = lc_profile_generation c \<and> lc_write_policy c' = lc_write_policy c
    \<and> lc_line_bytes c' = lc_line_bytes c
    \<and> (length (lc_lines c) \<le> n \<and> 0 < lc_capacity_lines c \<longrightarrow> int (length (lc_lines c')) < lc_capacity_lines c)"
  using assms
proof (induction n arbitrary: c)
  case 0
  then show ?case by (auto intro: exI [of _ 0])
next
  case (Suc n)
  show ?case
  proof (cases "int (length (lc_lines c)) \<ge> lc_capacity_lines c")
    case True
    obtain c1 where 1: "evict_one c = (Inr (), c1)" and 2: "evict_loop n c1 = (Inr u, c')"
      using Suc.prems True by (cases "evict_one c"; cases "fst (evict_one c)") auto
    note f = evict_one_frame [OF 1]
    from Suc.IH [OF 2] obtain k where "lc_lines c' = drop k (lc_lines c1)" by blast
    then have "lc_lines c' = drop (Suc k) (lc_lines c)" using f by (simp add: drop_Suc)
    with Suc.IH [OF 2] f show ?thesis by auto
  next
    case False
    with Suc.prems show ?thesis by (auto intro: exI [of _ 0])
  qed
qed

lemma drop_get_None: "dict_get d i = None \<Longrightarrow> dict_get (drop k d) i = None"
  by (auto simp: dict_get_None_iff dest: in_set_dropD)

lemma make_room_ok:
  assumes "make_room c = (Inr u, c')" "lc_enabled c" "dict_get (lc_lines c) i = None"
  shows "dict_get (lc_lines c') i = None" "int (length (lc_lines c')) < lc_capacity_lines c'"
    "lc_profile_generation c' = lc_profile_generation c" "lc_write_policy c' = lc_write_policy c"
  using evict_loop_frame [of "length (lc_lines c)" c u c'] assms
  by (auto simp: make_room_def lc_enabled_def drop_get_None)

lemma new_line_keeps:
  assumes "lc_inv c" "dict_get (lc_lines c) i = None" "int (length (lc_lines c)) < lc_capacity_lines c"
    "cl_identity l = i" "cl_profile_generation l = lc_profile_generation c" "cl_pending_clean l = None"
    "cl_dirty l \<Longrightarrow> lc_write_policy c = ''write_back''"
    and c': "lc_lines c' = dict_set i l (lc_lines c)" "lc_pending_cleans c' = lc_pending_cleans c"
      "lc_dirty_lines c' = lc_dirty_lines c + of_bool (cl_dirty l)"
      "lc_capacity_lines c' = lc_capacity_lines c" "lc_profile_generation c' = lc_profile_generation c"
      "lc_next_clean_id c' = lc_next_clean_id c" "lc_write_policy c' = lc_write_policy c" "lc_line_bytes c' = lc_line_bytes c"
  shows "lc_inv c' \<and> lc_rel c c'"
proof -
  have "lc_inv c'"
    unfolding lc_inv_def c' using assms(1-7)
    by (intro conjI core_new [OF lc_inv_core [OF assms(1)]]) (simp_all add: lc_inv_def)
  moreover have "lc_rel c c'" using assms(2) by (auto simp: lc_rel_def c' dict_simps)
  ultimately show ?thesis ..
qed

lemma touch_keeps [lc_intros]: "lc_keeps c (v, touch i c)"
  by (simp add: lc_logic.keeps_def touch_inv touch_rel lc_rel_refl)

lemma record_hit_keeps [lc_intros]: "lc_keeps c (record_hit k b c)"
proof -
  let ?c = "c\<lparr>lc_hits := lc_hits c + 1\<rparr>"
  have "lc_keeps c (v, ?c)" "lc_keeps c (v, touch i ?c)" for v :: "py_error + unit" and i
    by (simp_all add: lc_logic.keeps_def touch_inv touch_rel lc_rel_refl)
  then show ?thesis
    unfolding record_hit_def Let_def by (auto intro!: lc_intros split: prod.splits option.splits)
qed

lemma read_line_keeps [lc_intros]: "lc_keeps c (read_line k b c)"
  unfolding read_line_def by (auto intro!: lc_intros split: prod.splits option.splits)

lemma resident_get: "resident k c = Some (i, l) \<Longrightarrow> dict_get (lc_lines c) i = Some l"
  by (auto simp: resident_def split: option.splits)

lemma retoken_frame:
  assumes "retoken t i l c = (l', c')"
  shows "cl_identity l' = cl_identity l" "cl_profile_generation l' = cl_profile_generation l"
    "cl_pending_clean l' = cl_pending_clean l" "cl_dirty l' = cl_dirty l" "cl_data l' = cl_data l"
    "cl_provenance l' = cl_provenance l"
    "lc_lines c' = lc_lines c" "lc_pending_cleans c' = lc_pending_cleans c" "lc_dirty_lines c' = lc_dirty_lines c"
    "lc_capacity_lines c' = lc_capacity_lines c" "lc_profile_generation c' = lc_profile_generation c"
    "lc_next_clean_id c' = lc_next_clean_id c" "lc_write_policy c' = lc_write_policy c" "lc_line_bytes c' = lc_line_bytes c"
  using assms by (auto simp: retoken_def split: if_splits)

lemma install_metadata_keeps [lc_intros]: "lc_keeps c (install_metadata t i p c)"
proof (cases "dict_get (lc_lines c) i")
  case (Some l)
  obtain l1 c1 where rt: "retoken t i l c = (l1, c1)" by fastforce
  note f = retoken_frame [OF rt]
  let ?v = "lc_next_version c1 + 1"
  let ?c2 = "set_line i (l1\<lparr>cl_provenance := p, cl_version := ?v\<rparr>) (c1\<lparr>lc_next_version := ?v\<rparr>)"
  have "lc_inv ?c2 \<and> lc_rel c ?c2" if "lc_inv c" "cl_pending_clean l = None"
    by (rule set_line_keeps [OF Some that(1), where l' = "l1\<lparr>cl_provenance := p, cl_version := ?v\<rparr>"])
       (use that f in \<open>simp_all add: line_kept_def set_line_def\<close>)
  then have "lc_keeps c (ret () (touch i (index_token tk i ?c2)))" if "cl_pending_clean l = None" for tk
    using that by (simp add: lc_logic.keeps_def touch_inv touch_rel)
  then show ?thesis
    unfolding install_metadata_def Some Let_def by (cases "cl_pending_clean l") (auto simp: rt intro!: lc_intros)
next
  case None
  have "lc_keeps c1 (ret () (index_token t i (set_line i l (c1\<lparr>lc_next_version := v\<rparr>))))"
    if mr: "make_room c = (Inr u, c1)" and "lc_enabled c" "lc_inv c1"
      and l: "cl_identity l = i" "cl_profile_generation l = lc_profile_generation c1" "cl_pending_clean l = None" "\<not> cl_dirty l"
    for u c1 l v
  proof -
    note m = make_room_ok [OF mr that(2) None]
    have "lc_inv (set_line i l (c1\<lparr>lc_next_version := v\<rparr>)) \<and> lc_rel c1 (set_line i l (c1\<lparr>lc_next_version := v\<rparr>))"
      by (rule new_line_keeps [OF that(3) m(1,2)]) (use l in \<open>simp_all add: set_line_def\<close>)
    then show ?thesis by (simp add: lc_logic.keeps_def)
  qed
  then show ?thesis
    unfolding install_metadata_def None Let_def
    by (auto intro!: lc_intros lc_logic.keeps_and_then split: option.splits)
qed

lemma refill_existing_keeps:
  assumes get: "dict_get (lc_lines c) i = Some l" and "cl_pending_clean l = None"
    and "g = lc_profile_generation c" and "dirty \<Longrightarrow> lc_write_policy c = ''write_back''"
  shows "lc_keeps c (ret () (refill_existing t i l p data val g dirty c))"
proof -
  let ?c0 = "c\<lparr>lc_dirty_lines := lc_dirty_lines c + of_bool (dirty \<and> \<not> cl_dirty l)\<rparr>"
  let ?l0 = "l\<lparr>cl_provenance := p, cl_data := (if data \<noteq> None then data else cl_data l), cl_profile_generation := g,
      cl_dirty := (cl_dirty l \<or> dirty), cl_validity := (if val \<noteq> None then val else cl_validity l)\<rparr>"
  obtain l1 c1 where rt: "retoken t i ?l0 ?c0 = (l1, c1)" by fastforce
  note f = retoken_frame [OF rt]
  have "lc_inv (set_line i l1 c1) \<and> lc_rel c (set_line i l1 c1)" if "lc_inv c"
  proof (rule set_line_keeps [OF get that, where l' = l1])
    show "cl_profile_generation l1 = cl_profile_generation l"
      using f(2) assms(3) coreD(7) [OF lc_inv_core [OF that] get] by simp
    show "cl_dirty l1 \<Longrightarrow> cl_dirty l \<or> lc_write_policy c = ''write_back''" using f(4) assms(4) by auto
    show "lc_dirty_lines (set_line i l1 c1) = lc_dirty_lines c - of_bool (cl_dirty l) + of_bool (cl_dirty l1)"
      using f by (auto simp: set_line_def)
  qed (use f assms(2) in \<open>auto simp: set_line_def line_kept_def\<close>)
  moreover have "refill_existing t i l p data val g dirty c = touch i (index_token (cl_token l1) i (set_line i l1 c1))"
    by (simp only: refill_existing_def Let_def rt prod.case)
  ultimately show ?thesis by (simp add: lc_logic.keeps_def touch_inv touch_rel)
qed

lemma refill_new_keeps:
  assumes "dict_get (lc_lines c) i = None" "int (length (lc_lines c)) < lc_capacity_lines c"
    "g = lc_profile_generation c" "dirty \<Longrightarrow> lc_write_policy c = ''write_back''"
  shows "lc_keeps c (ret () (refill_new t i p data val g dirty c))"
proof -
  let ?v = "lc_next_version c + 1"
  let ?l = "\<lparr>cl_identity = i, cl_token = t, cl_provenance = p, cl_data = data, cl_profile_generation = g,
      cl_version = ?v, cl_dirty = dirty, cl_validity = val, cl_pending_clean = None, cl_invalidate_after_clean = False\<rparr>"
  let ?c1 = "set_line i ?l (c\<lparr>lc_next_version := ?v\<rparr>)"
  let ?c2 = "?c1\<lparr>lc_dirty_lines := lc_dirty_lines ?c1 + of_bool dirty\<rparr>"
  have "lc_inv ?c2 \<and> lc_rel c ?c2" if "lc_inv c"
    by (rule new_line_keeps [OF that assms(1,2), where l = ?l]) (use assms in \<open>simp_all add: set_line_def\<close>)
  then show ?thesis by (simp add: lc_logic.keeps_def refill_new_def Let_def)
qed

text \<open>Everything \<open>refill\<close> does once its arguments have been accepted.\<close>

definition refill_body ::
  "string option \<Rightarrow> line_identity \<Rightarrow> provenance \<Rightarrow> bytes option \<Rightarrow> bytes option \<Rightarrow> int \<Rightarrow> bool \<Rightarrow> lru_cache \<Rightarrow> unit lc_result" where
  "refill_body tok i p data val g dirty c =
     (let c = c\<lparr>lc_refills := lc_refills c + 1\<rparr>
      in case dict_get (lc_lines c) i of
           Some l \<Rightarrow>
             if cl_pending_clean l \<noteq> None then mem_error ''cannot refill a line while its clean is pending'' c
             else ret () (refill_existing tok i l p data val g dirty c)
         | None \<Rightarrow> and_then (make_room c) (\<lambda>_ c. ret () (refill_new tok i p data val g dirty c)))"

lemma refill_body_keeps:
  assumes "g = lc_profile_generation c" "dirty \<Longrightarrow> lc_write_policy c = ''write_back''" "lc_enabled c"
  shows "lc_keeps c (refill_body t i p data val g dirty c)"
proof -
  let ?c = "c\<lparr>lc_refills := lc_refills c + 1\<rparr>"
  have up: "lc_keeps c r" if "lc_keeps ?c r" for r :: "unit lc_result"
    using that by (simp add: lc_logic.keeps_def lc_rel_def)
  show ?thesis
  proof (cases "dict_get (lc_lines ?c) i")
    case (Some l)
    then show ?thesis
      unfolding refill_body_def Let_def using assms(1,2)
      by (intro up) (auto intro!: lc_intros refill_existing_keeps)
  next
    case None
    have "lc_keeps c1 (ret () (refill_new t i p data val g dirty c1))" if "make_room ?c = (Inr u, c1)" for u c1
      using make_room_ok [OF that _ None] assms by (intro refill_new_keeps) (auto simp: lc_enabled_def)
    with None show ?thesis
      unfolding refill_body_def Let_def by (intro up) (auto intro!: lc_intros lc_logic.keeps_and_then)
  qed
qed

lemma refill_cases:
  "\<exists>e. refill t ident prov data val g dirty c = (Inl e, c) \<or>
   (\<exists>i p. refill t ident prov data val g dirty c = refill_body t i p data val (lc_profile_generation c) dirty c
      \<and> (dirty \<longrightarrow> lc_write_policy c = ''write_back'') \<and> lc_enabled c \<and> provenance_error i p c = None
      \<and> (ident \<noteq> None \<longrightarrow> ident = Some i))"
proof (cases "refill_identity t ident prov c")
  case (Inl e)
  then show ?thesis by (simp add: refill_def Let_def)
next
  case (Inr ip)
  obtain i pr where ip: "ip = (i, pr)" by (cases ip)
  have id: "ident \<noteq> None \<longrightarrow> ident = Some i"
    using Inr ip by (auto simp: refill_identity_def)
  let ?p = "case pr of None \<Rightarrow> default_provenance i c | Some p \<Rightarrow> p"
  show ?thesis
  proof (cases "provenance_error i ?p c")
    case (Some e)
    with Inr ip show ?thesis by (simp add: refill_def Let_def)
  next
    case None
    show ?thesis
    proof (cases "(case g of None \<Rightarrow> lc_profile_generation c | Some k \<Rightarrow> k) = lc_profile_generation c
        \<and> (dirty \<longrightarrow> lc_write_policy c = ''write_back'') \<and> lc_enabled c
        \<and> \<not> (data \<noteq> None \<and> int (length (the data)) \<noteq> lc_line_bytes c)
        \<and> \<not> (val \<noteq> None \<and> int (length (the val)) \<noteq> lc_line_bytes c)")
      case True
      then have "refill t ident prov data val g dirty c = refill_body t i ?p data val (lc_profile_generation c) dirty c"
        using None Inr ip by (auto simp: refill_def refill_body_def Let_def)
      with True None id show ?thesis by blast
    next
      case False
      then have "\<exists>e. refill t ident prov data val g dirty c = (Inl e, c)"
        unfolding refill_def Let_def by (auto simp del: not_None_eq)
      then show ?thesis by blast
    qed
  qed
qed

lemma refill_keeps [lc_intros]: "lc_keeps c (refill t ident prov data val g dirty c)"
  using refill_cases [of t ident prov data val g dirty c]
proof (elim exE disjE conjE)
  fix e assume "refill t ident prov data val g dirty c = (Inl e, c)"
  then show ?thesis by (simp add: lc_logic.keeps_same)
next
  fix i p assume "refill t ident prov data val g dirty c = refill_body t i p data val (lc_profile_generation c) dirty c"
    "dirty \<longrightarrow> lc_write_policy c = ''write_back''" "lc_enabled c"
  then show ?thesis by (simp add: refill_body_keeps)
qed

lemma seed_line_keeps [lc_intros]: "lc_keeps c (seed_line aid ag off b data dirty c)"
  unfolding seed_line_def by (auto intro!: lc_intros lc_logic.keeps_and_then split: sum.splits)

lemma mark_dirty_keeps [lc_intros]: "lc_keeps c (mark_dirty k data c)"
proof -
  have "lc_keeps c (ret () (touch i (set_line i (l1\<lparr>cl_version := v, cl_dirty := True\<rparr>)
      (c\<lparr>lc_next_version := v, lc_dirty_lines := lc_dirty_lines c + of_bool (\<not> cl_dirty l1)\<rparr>))))"
    if r: "resident k c = Some (i, l)" and pend: "cl_pending_clean l = None" and pol: "lc_write_policy c = ''write_back''"
      and l1: "l1 = l \<or> l1 = l\<lparr>cl_data := data\<rparr>" for i l l1 v
  proof -
    let ?c2 = "set_line i (l1\<lparr>cl_version := v, cl_dirty := True\<rparr>)
      (c\<lparr>lc_next_version := v, lc_dirty_lines := lc_dirty_lines c + of_bool (\<not> cl_dirty l1)\<rparr>)"
    have "lc_inv ?c2 \<and> lc_rel c ?c2" if "lc_inv c"
      by (rule set_line_keeps [OF resident_get [OF r] that, where l' = "l1\<lparr>cl_version := v, cl_dirty := True\<rparr>"])
         (use l1 pend pol in \<open>auto simp: set_line_def line_kept_def\<close>)
    then show ?thesis by (simp add: lc_logic.keeps_def touch_inv touch_rel)
  qed
  then show ?thesis
    unfolding mark_dirty_def Let_def by (auto intro!: lc_intros split: prod.splits option.splits)
qed

section \<open>Maintenance keeps the cache\<close>

lemma remove_line_clean:
  assumes inv: "lc_inv c" and get: "dict_get (lc_lines c) i = Some l" and l: "cl_pending_clean l = None" "\<not> cl_dirty l"
  shows "\<exists>c'. remove_line i c = (Inr (), c') \<and> lc_inv c' \<and> lc_rel c c' \<and> lc_lines c' = dict_del i (lc_lines c)"
proof -
  let ?c = "c\<lparr>lc_lines := dict_del i (lc_lines c), lc_dirty_lines := lc_dirty_lines c - of_bool (cl_dirty l)\<rparr>"
  have "lc_inv ?c" using core_del [OF lc_inv_core [OF inv] get l(1)] inv by (simp add: lc_inv_def)
  moreover have "lc_rel c ?c" using get l(2) by (auto simp: lc_rel_def dict_simps)
  ultimately show ?thesis using get l by (simp add: remove_line_def)
qed

lemma start_clean_keeps:
  assumes inv: "lc_inv c" and get: "dict_get (lc_lines c) i = Some l" and l: "cl_pending_clean l = None" "cl_dirty l"
    and sc: "start_clean i l data b c = (rq, c')"
  shows "lc_inv c' \<and> lc_rel c c' \<and> (\<forall>j. j \<noteq> i \<longrightarrow> dict_get (lc_lines c') j = dict_get (lc_lines c) j)"
proof -
  note core = lc_inv_core [OF inv]
  let ?r = "CleanId (lc_level c) (lc_pool_id c) (lc_profile_generation c) (lc_next_clean_id c + 1)"
  let ?l = "l\<lparr>cl_pending_clean := Some ?r, cl_invalidate_after_clean := b\<rparr>"
  have c': "lc_lines c' = dict_set i ?l (lc_lines c)" "lc_pending_cleans c' = dict_set ?r i (lc_pending_cleans c)"
    "lc_dirty_lines c' = lc_dirty_lines c" "lc_capacity_lines c' = lc_capacity_lines c"
    "lc_profile_generation c' = lc_profile_generation c" "lc_next_clean_id c' = lc_next_clean_id c + 1"
    "lc_write_policy c' = lc_write_policy c" "lc_line_bytes c' = lc_line_bytes c"
    using sc by (auto simp: start_clean_def Let_def set_line_def)
  have "lc_inv c'"
    unfolding lc_inv_def c' using inv l coreD(6,7) [OF core get]
    by (intro conjI core_start [OF core get]) (simp_all add: lc_inv_def)
  then show ?thesis using get l by (auto simp: lc_rel_def c' dict_simps line_kept_def)
qed

lemma maintain_keeps:
  assumes "keys_distinct ls" "\<forall>(i, l) \<in> set ls. dict_get (lc_lines c) i = Some l"
  shows "lc_keeps c (maintain idx clean inval ls c)"
  using assms
proof (induction ls arbitrary: c)
  case (Cons p ls)
  obtain i l where p: "p = (i, l)" by (cases p)
  have get: "dict_get (lc_lines c) i = Some l" using Cons.prems by (simp add: p)
  have others: "\<forall>(j, k) \<in> set ls. dict_get (lc_lines c') j = Some k"
    if "\<forall>j. j \<noteq> i \<longrightarrow> dict_get (lc_lines c') j = dict_get (lc_lines c) j" for c'
    using that Cons.prems by (force simp: p)
  have kd: "keys_distinct ls" using Cons.prems by (simp add: p)
  have same: "lc_keeps c (maintain idx clean inval ls c)" using Cons.prems by (intro Cons.IH) (auto simp: p)
  have del: "lc_keeps c (and_then (remove_line i c) (\<lambda>_ c. maintain idx clean inval ls c))"
    if l: "cl_pending_clean l = None" "\<not> cl_dirty l"
  proof (rule lc_logic.keeps_and_then)
    show "lc_keeps c (remove_line i c)"
      using remove_line_clean [OF _ get l] unfolding lc_logic.keeps_def by fastforce
    fix x c1 assume r: "remove_line i c = (Inr x, c1)"
    have "lc_lines c1 = dict_del i (lc_lines c)"
      using r get l by (auto simp: remove_line_def Let_def)
    then show "lc_keeps c1 (maintain idx clean inval ls c1)"
      by (intro Cons.IH kd others) (simp add: dict_simps)
  qed
  have start: "lc_keeps c (and_then (maintain idx clean inval ls c1) (\<lambda>rqs c. ret (rq # rqs) c))"
    if l: "cl_pending_clean l = None" "cl_dirty l" and sc: "start_clean i l data inval c = (rq, c1)" for data rq c1
  proof -
    have "lc_keeps c (and_then (ret () c1) (\<lambda>_ c. and_then (maintain idx clean inval ls c) (\<lambda>rqs c. ret (rq # rqs) c)))"
    proof (rule lc_logic.keeps_and_then)
      show "lc_keeps c (ret () c1)"
        using start_clean_keeps [OF _ get l sc] by (simp add: lc_logic.keeps_def)
      fix x c2 assume "ret () c1 = (Inr x, c2)"
      then have "c2 = c1" by simp
      moreover have "\<forall>j. j \<noteq> i \<longrightarrow> dict_get (lc_lines c1) j = dict_get (lc_lines c) j"
        using sc by (auto simp: start_clean_def Let_def set_line_def dict_simps)
      ultimately have "lc_keeps c2 (maintain idx clean inval ls c2)" by (intro Cons.IH kd others) simp
      then show "lc_keeps c2 (and_then (maintain idx clean inval ls c2) (\<lambda>rqs c. ret (rq # rqs) c))"
        by (intro lc_logic.keeps_and_then lc_intros)
    qed
    then show ?thesis by simp
  qed
  show ?case
    using same del start
    by (cases "cl_pending_clean l") (auto simp: p intro!: lc_intros split: prod.splits option.splits)
qed (simp add: lc_logic.keeps_same)

lemma begin_maintenance_keeps [lc_intros]: "lc_keeps c (begin_maintenance rs clean inval c)"
proof -
  have "lc_keeps c (maintain idx clean inval (lc_lines c) c)" if "lc_inv c" for idx
    using coreD(1) [OF lc_inv_core [OF that]] by (intro maintain_keeps) (auto simp: dict_get_iff)
  then show ?thesis unfolding begin_maintenance_def lc_logic.keeps_def by blast
qed

text \<open>Completing a clean concerns only the line that waits for it.\<close>

lemma complete_clean_ok:
  assumes inv: "lc_inv c" and r: "dict_get (lc_pending_cleans c) r = Some i"
  shows "\<exists>l c'. dict_get (lc_lines c) i = Some l \<and> cl_pending_clean l = Some r \<and> cl_dirty l
     \<and> complete_clean r ok c = (Inr (), c') \<and> lc_inv c'
     \<and> lc_pending_cleans c' = dict_del r (lc_pending_cleans c)
     \<and> (\<forall>j. j \<noteq> i \<longrightarrow> dict_get (lc_lines c') j = dict_get (lc_lines c) j)
     \<and> dict_get (lc_lines c') i =
         (if \<not> ok then Some (l\<lparr>cl_pending_clean := None, cl_invalidate_after_clean := False\<rparr>)
          else if cl_invalidate_after_clean l then None else Some (l\<lparr>cl_dirty := False, cl_pending_clean := None\<rparr>))"
proof -
  note core = lc_inv_core [OF inv]
  obtain l where l: "dict_get (lc_lines c) i = Some l" "cl_pending_clean l = Some r"
    using coreD(10) [OF core r] by blast
  have d: "cl_dirty l" using coreD(8) [OF core l] by simp
  let ?c0 = "c\<lparr>lc_pending_cleans := dict_del r (lc_pending_cleans c)\<rparr>"
  let ?fail = "set_line i (l\<lparr>cl_pending_clean := None, cl_invalidate_after_clean := False\<rparr>) ?c0"
  let ?l1 = "l\<lparr>cl_dirty := False, cl_pending_clean := None\<rparr>"
  let ?done = "set_line i ?l1 (?c0\<lparr>lc_dirty_lines := lc_dirty_lines c - 1\<rparr>)"
  have 1: "lc_inv ?fail"
    using core_done [OF core r l(1), of "l\<lparr>cl_pending_clean := None, cl_invalidate_after_clean := False\<rparr>"]
      coreD(6,7) [OF core l(1)] inv d by (simp add: lc_inv_def set_line_def)
  have 2: "lc_inv ?done"
    using core_done [OF core r l(1), of ?l1] coreD(6,7) [OF core l(1)] inv d by (simp add: lc_inv_def set_line_def)
  have get: "dict_get (lc_lines ?done) i = Some ?l1" by (simp add: set_line_def dict_simps)
  from remove_line_clean [OF 2 get] obtain c3 where c3: "remove_line i ?done = (Inr (), c3)" "lc_inv c3"
    "lc_lines c3 = dict_del i (lc_lines ?done)" by auto
  have pd: "lc_pending_cleans c3 = dict_del r (lc_pending_cleans c)"
    using c3(1) get by (auto simp: remove_line_def Let_def set_line_def dict_simps unindex_token_def split: option.splits if_splits)
  show ?thesis
  proof (cases "ok \<and> cl_invalidate_after_clean l")
    case True
    then have "complete_clean r ok c = (Inr (), c3)" using r l d c3(1) by (simp add: complete_clean_def Let_def)
    with True l d c3(2,3) pd show ?thesis by (auto simp: set_line_def dict_simps)
  next
    case False
    then have "complete_clean r ok c = (Inr (), if ok then ?done else ?fail)"
      using r l d by (auto simp: complete_clean_def Let_def)
    with False l d 1 2 show ?thesis by (auto simp: set_line_def dict_simps)
  qed
qed

lemma complete_clean_inv: "lc_inv c \<Longrightarrow> lc_inv (snd (complete_clean r ok c))"
proof (cases "dict_get (lc_pending_cleans c) r")
  case (Some i)
  assume "lc_inv c"
  from complete_clean_ok [OF this Some, of ok] show ?thesis by auto
qed (simp add: complete_clean_def)

lemma core_empty: "0 \<le> cap \<Longrightarrow> core [] [] 0 cap g n pol"
  by (simp add: core_def)

lemma reset_isolation_inv: "lc_inv c \<Longrightarrow> lc_inv (snd (reset_after_isolation q c))"
  using coreD(4) [OF lc_inv_core, of c]
  by (auto simp: reset_after_isolation_def lc_inv_def intro!: core_empty)

lemma no_dirty: "lc_inv c \<Longrightarrow> lc_dirty_lines c = 0 \<Longrightarrow> dict_get (lc_lines c) i = Some l \<Longrightarrow> \<not> cl_dirty l"
  using coreD(3) [OF lc_inv_core, of c] dirty_member [of "lc_lines c" i l] by auto

lemma reconfigure_keeps [lc_intros]: "lc_keeps c (reconfigure cap g pol c)"
proof -
  have "lc_inv (snd (reconfigure cap g pol c)) \<and> lc_rel c (snd (reconfigure cap g pol c))" if inv: "lc_inv c"
    using no_dirty [OF inv] inv
    by (auto simp: reconfigure_def lc_inv_def lc_rel_def intro!: core_empty pos_imp_zdiv_nonneg_iff [THEN iffD2])
  then show ?thesis by (simp add: lc_logic.keeps_def)
qed

lemma lc_reset_keeps [lc_intros]: "lc_keeps c (lc_reset c)"
proof -
  have "lc_inv (snd (lc_reset c)) \<and> lc_rel c (snd (lc_reset c))" if inv: "lc_inv c"
    using no_dirty [OF inv] inv coreD(4) [OF lc_inv_core [OF inv]]
    by (auto simp: lc_reset_def lc_inv_def lc_rel_def intro!: core_empty)
  then show ?thesis by (simp add: lc_logic.keeps_def)
qed

lemma clear_validity_keeps: "lc_inv c \<Longrightarrow> lc_inv (clear_validity_range a g off n c) \<and> lc_rel c (clear_validity_range a g off n c)"
proof -
  assume inv: "lc_inv c"
  let ?f = "\<lambda>i l. clear_line_validity a g off n i l"
  have f: "cl_identity (?f i l) = cl_identity l" "cl_profile_generation (?f i l) = cl_profile_generation l"
    "cl_pending_clean (?f i l) = cl_pending_clean l" "cl_dirty (?f i l) = cl_dirty l" "cl_data (?f i l) = cl_data l"
    "cl_provenance (?f i l) = cl_provenance l" for i l
    by (simp_all add: clear_line_validity_def Let_def split: option.splits)
  have get: "dict_get (map (\<lambda>(i, l). (i, ?f i l)) ls) i = map_option (?f i) (dict_get ls i)" for ls :: "(line_identity, cache_line) dict" and i
    by (induction ls) auto
  have sum: "dict_sum (\<lambda>l. of_bool (cl_dirty l)) (map (\<lambda>(i, l). (i, ?f i l)) ls) = (dict_sum (\<lambda>l. of_bool (cl_dirty l)) ls :: int)" for ls
    by (induction ls) (auto simp: f)
  have keys: "map fst (map (\<lambda>(i, l). (i, ?f i l)) ls) = map fst ls" for ls :: "(line_identity, cache_line) dict" by (induction ls) auto
  note core = lc_inv_core [OF inv]
  let ?ls = "map (\<lambda>(i, l). (i, ?f i l)) (lc_lines c)"
  have "core ?ls (lc_pending_cleans c) (lc_dirty_lines c) (lc_capacity_lines c)
     (lc_profile_generation c) (lc_next_clean_id c) (lc_write_policy c)"
  proof (rule coreI)
    show "keys_distinct ?ls" unfolding keys by (rule coreD(1) [OF core])
    show "lc_dirty_lines c = dict_sum (\<lambda>l. of_bool (cl_dirty l)) ?ls" unfolding sum by (rule coreD(3) [OF core])
    show "ck_seq r \<le> lc_next_clean_id c \<and> (\<exists>l. dict_get ?ls i = Some l \<and> cl_pending_clean l = Some r)"
      if "dict_get (lc_pending_cleans c) r = Some i" for r i
      using coreD(9,10) [OF core that] f(3) by (auto simp: get)
  qed (use coreD [OF core] f in \<open>auto simp: get\<close>)
  then have "lc_inv (clear_validity_range a g off n c)"
    using inv by (simp add: lc_inv_def clear_validity_range_def)
  then show ?thesis by (auto simp: lc_rel_def clear_validity_range_def get f line_kept_def)
qed

section \<open>The cache as a machine\<close>

datatype lc_op =
    LcHit cache_key bool
  | LcMiss
  | LcRead cache_key bool
  | LcClearValidity string int int int
  | LcInstall "string option" line_identity provenance
  | LcRefill "string option" "line_identity option" "provenance option" "bytes option" "bytes option" "int option" bool
  | LcSeed string int int string bytes bool
  | LcMarkDirty cache_key "bytes option"
  | LcMaintain "cache_range list option" bool bool
  | LcComplete clean_id bool
  | LcIsolate bool
  | LcReconfigure int int "string option"
  | LcReset

fun lc_exec :: "lc_op \<Rightarrow> lru_cache \<Rightarrow> lru_cache" where
  "lc_exec (LcHit k b) c = snd (record_hit k b c)"
| "lc_exec LcMiss c = record_miss c"
| "lc_exec (LcRead k b) c = snd (read_line k b c)"
| "lc_exec (LcClearValidity a g off n) c = clear_validity_range a g off n c"
| "lc_exec (LcInstall t i p) c = snd (install_metadata t i p c)"
| "lc_exec (LcRefill t i p data val g dirty) c = snd (refill t i p data val g dirty c)"
| "lc_exec (LcSeed a g off b data dirty) c = snd (seed_line a g off b data dirty c)"
| "lc_exec (LcMarkDirty k data) c = snd (mark_dirty k data c)"
| "lc_exec (LcMaintain rs clean inval) c = snd (begin_maintenance rs clean inval c)"
| "lc_exec (LcComplete r ok) c = snd (complete_clean r ok c)"
| "lc_exec (LcIsolate q) c = snd (reset_after_isolation q c)"
| "lc_exec (LcReconfigure cap g pol) c = snd (reconfigure cap g pol c)"
| "lc_exec LcReset c = snd (lc_reset c)"

lemmas lc_ops_keep = record_hit_keeps read_line_keeps install_metadata_keeps refill_keeps seed_line_keeps
  mark_dirty_keeps begin_maintenance_keeps reconfigure_keeps lc_reset_keeps

lemma record_miss_keeps: "lc_inv c \<Longrightarrow> lc_inv (record_miss c) \<and> lc_rel c (record_miss c)"
  by (simp add: record_miss_def lc_rel_refl)

lemma lc_step_rel:
  assumes "lc_inv c" "\<forall>r ok. x \<noteq> LcComplete r ok" "\<forall>q. x \<noteq> LcIsolate q"
  shows "lc_inv (lc_exec x c) \<and> lc_rel c (lc_exec x c)"
proof (cases x)
  case (LcComplete r ok)
  with assms(2) show ?thesis by blast
next
  case (LcIsolate q)
  with assms(3) show ?thesis by blast
qed (use assms(1) lc_ops_keep [unfolded lc_logic.keeps_def] clear_validity_keeps record_miss_keeps in simp_all)

lemma lc_step_inv: "lc_inv c \<Longrightarrow> lc_inv (lc_exec x c)"
  using lc_step_rel [of c x] complete_clean_inv reset_isolation_inv by (cases x) auto

interpretation lc: total_machine lc_exec lc_inv
  by unfold_locales (rule lc_step_inv)

lemma lc_new_inv: "lc_new cap line pol g level pool = Inr c \<Longrightarrow> lc_inv c"
  by (auto simp: lc_new_def lc_inv_def pos_imp_zdiv_nonneg_iff intro!: core_empty split: if_splits)

definition demo_cache :: lru_cache where
  "demo_cache = projr (lc_new 8 4 ''write_back'' 0 ''l2'' 0)"

definition demo_line :: "int \<Rightarrow> line_identity" where
  "demo_line off = \<lparr>li_allocation_id = ''buf'', li_allocation_generation = 1, li_line_offset = off,
     li_span_bytes = 0, li_opaque_token = '''', li_precise = True\<rparr>"

definition demo_cache_ops :: "lc_op list" where
  "demo_cache_ops = [LcSeed ''buf'' 1 0 ''w'' [1, 2, 3, 4] False, LcSeed ''buf'' 1 4 ''w'' [5, 6, 7, 8] True,
     LcMaintain None True True]"

lemma demo_cache_new: "lc_new 8 4 ''write_back'' 0 ''l2'' 0 = Inr demo_cache"
  by code_simp

text \<open>C29. Cache bookkeeping is exact under every sequence of operations: no more lines than the
  configured capacity, the dirty counter equals the number of dirty lines, dirty lines exist
  only under the write-back policy, every line belongs to the active profile generation, and
  pending clean requests and the lines that wait for them name each other.
\<close>

theorem cache_bookkeeping_exact:
  assumes "lc_new cap line pol g level pool = Inr c0" and "c = run_ops lc_exec ops c0"
  shows "int (length (lc_lines c)) \<le> lc_capacity_lines c
     \<and> lc_dirty_lines c = int (length (filter (\<lambda>(i, l). cl_dirty l) (lc_lines c)))
     \<and> (0 < lc_dirty_lines c \<longrightarrow> lc_write_policy c = ''write_back'')
     \<and> (\<forall>i l. dict_get (lc_lines c) i = Some l \<longrightarrow> cl_profile_generation l = lc_profile_generation c)
     \<and> (\<forall>i r. dict_get (lc_pending_cleans c) r = Some i \<longleftrightarrow>
          (\<exists>l. dict_get (lc_lines c) i = Some l \<and> cl_pending_clean l = Some r))"
proof -
  have "lc_inv c" unfolding assms(2) by (rule lc.any_run_inv [OF lc_new_inv [OF assms(1)]])
  note core = lc_inv_core [OF this]
  have "dict_sum (\<lambda>l. of_bool (cl_dirty l)) ls = int (length (filter (\<lambda>(i, l). cl_dirty l) ls))" for ls :: "(line_identity, cache_line) dict"
    by (induction ls) auto
  then show ?thesis
    using coreD(3,4,5,7) [OF core] coreD(8,10) [OF core] by (auto dest: coreD(8) [OF core])
qed

theorem cache_bookkeeping_exact_witness:
  "lc_dirty_lines (run_ops lc_exec demo_cache_ops demo_cache) = 1
   \<and> int (length (lc_lines (run_ops lc_exec demo_cache_ops demo_cache))) \<le> 2"
proof -
  have "lc_dirty_lines (run_ops lc_exec demo_cache_ops demo_cache) = 1"
    "lc_capacity_lines (run_ops lc_exec demo_cache_ops demo_cache) = 2" by code_simp+
  with cache_bookkeeping_exact [OF demo_cache_new refl, of demo_cache_ops] show ?thesis by simp
qed

lemma complete_other:
  assumes "lc_inv c" "dict_get (lc_lines c) i = Some l" "cl_pending_clean l \<noteq> Some r"
  shows "dict_get (lc_lines (snd (complete_clean r ok c))) i = Some l"
proof (cases "dict_get (lc_pending_cleans c) r")
  case (Some j)
  have "j \<noteq> i" using coreD(10) [OF lc_inv_core [OF assms(1)] Some] assms(2,3) by auto
  with complete_clean_ok [OF assms(1) Some, of ok] assms(2) show ?thesis by auto
qed (simp add: complete_clean_def assms(2))

text \<open>C6. Dirty bytes are never dropped silently: one operation other than the destructive
  recovery reset leaves a dirty line resident and dirty, unless it is the successful
  completion of that line's own clean request.
\<close>

theorem dirty_line_survives:
  assumes "lc_new cap line pol g level pool = Inr c0" and "c = run_ops lc_exec ops c0"
    and "dict_get (lc_lines c) i = Some l" and "cl_dirty l"
    and "\<forall>q. x \<noteq> LcIsolate q" and "\<forall>r. cl_pending_clean l = Some r \<longrightarrow> x \<noteq> LcComplete r True"
  shows "\<exists>l'. dict_get (lc_lines (lc_exec x c)) i = Some l' \<and> cl_dirty l'"
proof -
  have inv: "lc_inv c" unfolding assms(2) by (rule lc.any_run_inv [OF lc_new_inv [OF assms(1)]])
  show ?thesis
  proof (cases "\<exists>r ok. x = LcComplete r ok")
    case True
    then obtain r ok where x: "x = LcComplete r ok" by blast
    show ?thesis
    proof (cases "cl_pending_clean l = Some r")
      case True
      then have "\<not> ok" "dict_get (lc_pending_cleans c) r = Some i"
        using assms(6) x coreD(8) [OF lc_inv_core [OF inv] assms(3)] by auto
      with complete_clean_ok [OF inv, of r i ok] assms(3,4) x show ?thesis by auto
    next
      case False
      with complete_other [OF inv assms(3)] assms(4) x show ?thesis by auto
    qed
  next
    case False
    then have "lc_rel c (lc_exec x c)" using lc_step_rel [OF inv] assms(5) by blast
    with assms(3,4) show ?thesis unfolding lc_rel_def line_kept_def by blast
  qed
qed

theorem dirty_line_survives_witness:
  "\<exists>l'. dict_get (lc_lines (lc_exec LcReset (run_ops lc_exec demo_cache_ops demo_cache))) (demo_line 4) = Some l' \<and> cl_dirty l'"
proof -
  let ?c = "run_ops lc_exec demo_cache_ops demo_cache"
  have f: "dict_get (lc_lines ?c) (demo_line 4) = Some (the (dict_get (lc_lines ?c) (demo_line 4)))"
    "cl_dirty (the (dict_get (lc_lines ?c) (demo_line 4)))" by code_simp+
  show ?thesis by (rule dirty_line_survives [OF demo_cache_new refl f]) simp_all
qed

lemma isolate_pending: "dict_get (lc_pending_cleans c) r = Some i \<Longrightarrow> snd (reset_after_isolation q c) = c"
  by (auto simp: reset_after_isolation_def)

lemma pending_step:
  assumes inv: "lc_inv c" and l: "dict_get (lc_lines c) i = Some l" "cl_pending_clean l = Some r"
    and x: "\<forall>ok. x \<noteq> LcComplete r ok"
  shows "\<exists>l'. dict_get (lc_lines (lc_exec x c)) i = Some l' \<and> cl_pending_clean l' = Some r
     \<and> cl_data l' = cl_data l \<and> cl_provenance l' = cl_provenance l \<and> cl_dirty l'"
proof -
  have d: "cl_dirty l" "dict_get (lc_pending_cleans c) r = Some i"
    using coreD(8) [OF lc_inv_core [OF inv] l] by simp_all
  consider (complete) r' ok where "x = LcComplete r' ok" "r' \<noteq> r" | (isolate) q where "x = LcIsolate q"
    | (other) "\<forall>r ok. x \<noteq> LcComplete r ok" "\<forall>q. x \<noteq> LcIsolate q" using x by blast
  then show ?thesis
  proof cases
    case complete
    with complete_other [OF inv l(1), of r' ok] l d show ?thesis by auto
  next
    case isolate
    with isolate_pending [OF d(2)] l d show ?thesis by simp
  next
    case other
    then have "lc_rel c (lc_exec x c)" using lc_step_rel [OF inv] by blast
    then obtain l' where "dict_get (lc_lines (lc_exec x c)) i = Some l'" "line_kept l l'"
      using l(1) d(1) unfolding lc_rel_def by blast
    with l(2) d(1) show ?thesis by (simp add: line_kept_def)
  qed
qed

text \<open>C30. The bytes handed to the write-back are the line's bytes until the write-back is
  acknowledged: whatever happens in between, refills, writes, maintenance, reconfiguration
  and recovery attempts included, a line with a pending clean request stays resident and
  dirty with the same bytes and provenance until that very request is completed.
\<close>

theorem pending_clean_frozen:
  assumes "lc_new cap line pol g level pool = Inr c0" and "c = run_ops lc_exec ops c0"
    and "dict_get (lc_lines c) i = Some l" and "cl_pending_clean l = Some r"
    and "\<forall>ok. LcComplete r ok \<notin> set later"
  shows "\<exists>l'. dict_get (lc_lines (run_ops lc_exec later c)) i = Some l' \<and> cl_pending_clean l' = Some r
     \<and> cl_data l' = cl_data l \<and> cl_provenance l' = cl_provenance l \<and> cl_dirty l'"
proof -
  have inv: "lc_inv c" unfolding assms(2) by (rule lc.any_run_inv [OF lc_new_inv [OF assms(1)]])
  then show ?thesis
    using assms(3-5)
  proof (induction later arbitrary: c l)
    case Nil
    then show ?case using coreD(8) [OF lc_inv_core [OF Nil(1)]] by auto
  next
    case (Cons x later)
    obtain l1 where l1: "dict_get (lc_lines (lc_exec x c)) i = Some l1" "cl_pending_clean l1 = Some r"
      "cl_data l1 = cl_data l" "cl_provenance l1 = cl_provenance l"
      using pending_step [OF Cons.prems(1-3), of x] Cons.prems(4) by auto
    from Cons.IH [OF lc_step_inv [OF Cons.prems(1)] l1(1,2)] Cons.prems(4) l1(3,4) show ?case by auto
  qed
qed

theorem pending_clean_frozen_witness:
  "\<exists>l'. dict_get (lc_lines (run_ops lc_exec [LcMarkDirty (KeyIdentity (demo_line 4)) (Some [0, 0, 0, 0]), LcIsolate True]
      (run_ops lc_exec demo_cache_ops demo_cache))) (demo_line 4) = Some l' \<and> cl_data l' = Some [5, 6, 7, 8]"
proof -
  let ?c = "run_ops lc_exec demo_cache_ops demo_cache"
  let ?l = "the (dict_get (lc_lines ?c) (demo_line 4))"
  have f: "dict_get (lc_lines ?c) (demo_line 4) = Some ?l" "cl_pending_clean ?l = Some (CleanId ''l2'' 0 0 1)"
    "cl_data ?l = Some [5, 6, 7, 8]" by code_simp+
  have "\<exists>l'. dict_get (lc_lines (run_ops lc_exec [LcMarkDirty (KeyIdentity (demo_line 4)) (Some [0, 0, 0, 0]), LcIsolate True] ?c)) (demo_line 4) = Some l'
      \<and> cl_pending_clean l' = Some (CleanId ''l2'' 0 0 1) \<and> cl_data l' = cl_data ?l \<and> cl_provenance l' = cl_provenance ?l \<and> cl_dirty l'"
    by (rule pending_clean_frozen [OF demo_cache_new refl f(1,2)]) simp
  with f(3) show ?thesis by auto
qed


section \<open>The interval index of range maintenance\<close>

definition range_key :: "cache_range \<Rightarrow> string \<times> int" where
  "range_key r = (cr_allocation_id r, cr_allocation_generation r)"

definition key_ranges :: "string \<times> int \<Rightarrow> cache_range list \<Rightarrow> (int \<times> int) list" where
  "key_ranges k rs = map (\<lambda>r. (cr_offset r, cr_end r)) (filter (\<lambda>r. range_key r = k) rs)"

lemma group_ranges_get:
  "dict_get (group_ranges rs d) k =
     (if dict_get d k = None \<and> key_ranges k rs = [] then None
      else Some ((case dict_get d k of None \<Rightarrow> [] | Some xs \<Rightarrow> xs) @ key_ranges k rs))"
proof (induction rs arbitrary: d)
  case Nil
  show ?case by (cases "dict_get d k") (simp_all add: key_ranges_def)
next
  case (Cons r rs)
  then show ?case
    by (cases "range_key r = k"; cases "dict_get d k") (simp_all add: key_ranges_def dict_simps Let_def flip: range_key_def)
qed

lemma interval_index_get:
  "dict_get (interval_index rs) k =
     (let xs = sort (key_ranges k rs) in if xs = [] then None else Some (map fst xs, running_max None xs))"
proof -
  have "dict_get (map (\<lambda>(k, xs). (k, f xs)) d) k = map_option f (dict_get d k)"
    for f :: "(int \<times> int) list \<Rightarrow> int list \<times> int list" and d by (induction d) auto
  moreover have "sort xs = [] \<longleftrightarrow> xs = []" for xs :: "(int \<times> int) list"
    by (metis set_empty set_sort)
  ultimately show ?thesis by (simp add: interval_index_def group_ranges_get Let_def)
qed

lemma running_max_less:
  "k < length xs \<Longrightarrow> x < running_max m xs ! k \<longleftrightarrow>
     (\<exists>v. m = Some v \<and> x < v) \<or> (\<exists>p\<in>set (take (Suc k) xs). x < snd p)"
proof (induction xs arbitrary: m k)
  case (Cons p xs)
  show ?case
  proof (cases k)
    case 0
    then show ?thesis by (cases p; cases m) (auto simp: Let_def)
  next
    case (Suc j)
    with Cons show ?thesis by (cases p; cases m) (auto simp: Let_def)
  qed
qed simp

lemma sorted_prefix:
  "sorted xs \<Longrightarrow> set (takeWhile (\<lambda>p. fst p < x) xs) = {p \<in> set xs. fst p < x}" for xs :: "(int \<times> int) list"
proof (induction xs)
  case (Cons p xs)
  have "\<not> fst q < x" if "\<not> fst p < x" "q \<in> set xs" for q
    using Cons.prems that by (cases p; cases q) auto
  with Cons show ?case by auto
qed simp

lemma selected_iff:
  "selected (Some (interval_index rs)) l \<longleftrightarrow>
     (\<exists>r\<in>set rs. cr_allocation_id r = pv_allocation_id (cl_provenance l)
        \<and> cr_allocation_generation r = pv_allocation_generation (cl_provenance l)
        \<and> cr_offset r < pv_end_offset (cl_provenance l) \<and> pv_source_offset (cl_provenance l) < cr_end r)"
proof -
  define p where "p = cl_provenance l"
  define k where "k = (pv_allocation_id p, pv_allocation_generation p)"
  define xs where "xs = sort (key_ranges k rs)"
  define ys where "ys = takeWhile (\<lambda>q. fst q < pv_end_offset p) xs"
  have ys: "set ys = {q \<in> set (key_ranges k rs). fst q < pv_end_offset p}"
    unfolding ys_def xs_def by (subst sorted_prefix) simp_all
  have len: "length (takeWhile (\<lambda>s. s < pv_end_offset p) (map fst xs)) = length ys"
    by (simp add: takeWhile_map ys_def comp_def)
  have max: "pv_source_offset p < running_max None xs ! (length ys - 1) \<longleftrightarrow> (\<exists>q\<in>set ys. pv_source_offset p < snd q)"
    if "ys \<noteq> []"
  proof -
    have "length ys \<le> length xs" "0 < length ys" "take (length ys) xs = ys"
      using that by (simp_all add: ys_def length_takeWhile_le flip: takeWhile_eq_take)
    then have "length ys - 1 < length xs" "take (Suc (length ys - 1)) xs = ys" by (linarith, simp)
    then show ?thesis by (simp add: running_max_less)
  qed
  have "selected (Some (interval_index rs)) l \<longleftrightarrow> (\<exists>q\<in>set ys. pv_source_offset p < snd q)"
  proof (cases "ys = []")
    case True
    then show ?thesis using len
      by (auto simp: selected_def interval_index_get Let_def bisect_left_def p_def k_def xs_def split: if_splits)
  next
    case False
    then have "xs \<noteq> []" by (auto simp: ys_def)
    moreover have "takeWhile (\<lambda>s. s < pv_end_offset p) (map fst xs) \<noteq> []" using len False by (metis length_0_conv)
    moreover have "nat (int (length ys) - 1) = length ys - 1" by (simp add: nat_diff_distrib')
    ultimately show ?thesis using len max [OF False]
      by (simp add: selected_def interval_index_get Let_def bisect_left_def xs_def k_def not_le flip: p_def)
  qed
  also have "\<dots> \<longleftrightarrow> (\<exists>r\<in>set rs. range_key r = k \<and> cr_offset r < pv_end_offset p \<and> pv_source_offset p < cr_end r)"
    unfolding ys by (auto simp: key_ranges_def)
  finally show ?thesis by (simp add: range_key_def k_def p_def)
qed

text \<open>C31. The interval index of range maintenance is exact: the binary search over sorted starts
  and running maxima of the ends selects a line precisely when one of the requested ranges,
  nested and overlapping ones included, names the line's allocation and generation and
  overlaps the bytes the line covers.
\<close>

theorem interval_index_exact:
  "selected (Some (interval_index rs)) l \<longleftrightarrow>
     (\<exists>r\<in>set rs. cr_allocation_id r = pv_allocation_id (cl_provenance l)
        \<and> cr_allocation_generation r = pv_allocation_generation (cl_provenance l)
        \<and> cr_offset r < pv_end_offset (cl_provenance l) \<and> pv_source_offset (cl_provenance l) < cr_end r)"
  by (rule selected_iff)

end
