(* ===== verification/Byte_Store.thy ===== *)
theory Byte_Store
  imports Allocator Lru_Cache
begin

declare map_of_eq_Some_iff [simp del] Some_eq_map_of_iff [simp del]

text \<open>
  The sparse byte oracle of \<open>src/pipeline_validator/memory/byte_store.py\<close>: pages with a validity
  map per byte, host seeding, HBM bindings with permissions, reads and writes through
  resolved views, cache seeding and invalidation. Caches are shared objects: the store maps
  a pool to an address in a heap of cache objects, so that one cache registered under two
  pools stays one object. The report snapshot is left out.
\<close>

section \<open>Data\<close>

type_synonym mem_handle = "string handle"

record resolved_view =
  vw_handle :: mem_handle
  vw_offset_bytes :: int
  vw_size_bytes :: int
  vw_address :: int
  vw_segments :: "bank_segment list"
  vw_permissions :: string

record binding =
  bd_name :: string
  bd_allocation_id :: string
  bd_generation :: int
  bd_base :: int
  bd_size :: int
  bd_permissions :: string
  bd_handle :: mem_handle

definition bd_end :: "binding \<Rightarrow> int" where
  "bd_end b = bd_base b + bd_size b"

record seed_spec =
  ss_level :: string
  ss_pool_id :: int
  ss_binding_name :: string
  ss_source_offset :: int
  ss_data :: bytes
  ss_dirty :: bool

definition ss_key :: "seed_spec \<Rightarrow> string \<times> int \<times> string \<times> int" where
  "ss_key s = (ss_level s, ss_pool_id s, ss_binding_name s, ss_source_offset s)"

datatype page_key = PageKey (pk_domain: string) (pk_index: nat)

record byte_store =
  bs_page_bytes :: nat
  bs_pages :: "(page_key, bytes) dict"
  bs_valid :: "(page_key, bytes) dict"
  bs_bindings :: "(string, binding) dict"
  bs_seed_ranges :: "(int \<times> int) list"
  bs_caches :: "(string \<times> int, nat) dict"
  bs_heap :: "nat \<Rightarrow> lru_cache"
  bs_pending_cache_seeds :: "seed_spec list"
  bs_seeded_cache_keys :: "(string \<times> int \<times> string \<times> int) set"

type_synonym 'a bs_result = "(byte_store, 'a) outcome"

abbreviation bs_error :: "string \<Rightarrow> byte_store \<Rightarrow> 'a bs_result" where
  "bs_error msg s \<equiv> raise (MemoryInvariantError msg) s"

definition bs_new :: "int \<Rightarrow> (nat \<Rightarrow> lru_cache) \<Rightarrow> py_error + byte_store" where
  "bs_new page_bytes heap =
     (if page_bytes \<le> 0 \<or> (page_bytes AND (page_bytes - 1)) \<noteq> 0
      then Inl (ValueError ''byte-store page size must be a positive power of two'')
      else Inr \<lparr>bs_page_bytes = nat page_bytes, bs_pages = [], bs_valid = [], bs_bindings = [],
                bs_seed_ranges = [], bs_caches = [], bs_heap = heap, bs_pending_cache_seeds = [],
                bs_seeded_cache_keys = {}\<rparr>)"

section \<open>Sparse storage\<close>

definition domain_for_view :: "resolved_view \<Rightarrow> string" where
  "domain_for_view v =
     (let h = vw_handle v
      in if hd_memory_space h = ''hbm'' then ''hbm''
         else if hd_memory_space h = ''l2''
         then ''l2:'' @ hd_backing_id h @ '':'' @ show_int (hd_generation h) @ '':'' @ show_int (hd_profile_generation h)
         else hd_memory_space h @ '':'' @ hd_allocation_id h @ '':'' @ show_int (hd_generation h) @ '':''
              @ show_int (hd_profile_generation h))"

text \<open>
  The page loops. \<open>count\<close> is positive because a page offset is below the page size, so the
  cursor advances; a page size of zero would raise in \<open>divmod\<close>.
\<close>

definition slice_set :: "nat \<Rightarrow> nat \<Rightarrow> 'a list \<Rightarrow> 'a list \<Rightarrow> 'a list" where
  "slice_set off n xs page = take off page @ xs @ drop (off + n) page"

definition get_default :: "'v \<Rightarrow> ('k, 'v) dict \<Rightarrow> 'k \<Rightarrow> 'v" where
  "get_default d m k = (case dict_get m k of None \<Rightarrow> d | Some v \<Rightarrow> v)"

lemma page_progress: "off < p \<Longrightarrow> c < n \<Longrightarrow> n - (c + min (n - c) (p - off)) < n - c" for off c n p :: nat
  by arith

function write_loop :: "string \<Rightarrow> nat \<Rightarrow> bytes \<Rightarrow> nat \<Rightarrow> byte_store \<Rightarrow> unit bs_result" where
  "write_loop domain address data cursor s =
     (if length data \<le> cursor then ret () s
      else if bs_page_bytes s = 0 then raise ZeroDivisionError s
      else
        let absolute = address + cursor;
            page_index = absolute div bs_page_bytes s;
            page_offset = absolute mod bs_page_bytes s;
            count = min (length data - cursor) (bs_page_bytes s - page_offset);
            key = PageKey domain page_index;
            page = get_default (replicate (bs_page_bytes s) 0) (bs_pages s) key;
            valid = get_default (replicate (bs_page_bytes s) 0) (bs_valid s) key
        in write_loop domain address data (cursor + count)
             (s\<lparr>bs_pages := dict_set key (slice_set page_offset count (take count (drop cursor data)) page) (bs_pages s),
                bs_valid := dict_set key (slice_set page_offset count (replicate count 1) valid) (bs_valid s)\<rparr>))"
  by pat_completeness auto
termination by (relation "measure (\<lambda>(domain, address, data, cursor, s). length data - cursor)")
  (auto simp: not_le intro!: page_progress)

declare write_loop.simps [simp del]

definition bs_write :: "string \<Rightarrow> int \<Rightarrow> bytes \<Rightarrow> byte_store \<Rightarrow> unit bs_result" where
  "bs_write domain address data s =
     (if address < 0 then bs_error ''byte-store address must be non-negative'' s
      else write_loop domain (nat address) data 0 s)"

definition page_chunk :: "page_key \<Rightarrow> nat \<Rightarrow> nat \<Rightarrow> byte_store \<Rightarrow> bytes \<times> bytes" where
  "page_chunk key off n s =
     (case (dict_get (bs_pages s) key, dict_get (bs_valid s) key) of
        (Some page, Some valid) \<Rightarrow> (take n (drop off page), take n (drop off valid))
      | _ \<Rightarrow> (replicate n 0, replicate n 0))"

function relaxed_loop :: "string \<Rightarrow> nat \<Rightarrow> nat \<Rightarrow> nat \<Rightarrow> byte_store \<Rightarrow> bytes \<Rightarrow> bytes \<Rightarrow> py_error + bytes \<times> bytes" where
  "relaxed_loop domain address n cursor s data valids =
     (if n \<le> cursor then Inr (data, valids)
      else if bs_page_bytes s = 0 then Inl ZeroDivisionError
      else
        let absolute = address + cursor;
            page_index = absolute div bs_page_bytes s;
            page_offset = absolute mod bs_page_bytes s;
            count = min (n - cursor) (bs_page_bytes s - page_offset);
            chunk = page_chunk (PageKey domain page_index) page_offset count s
        in relaxed_loop domain address n (cursor + count) s (data @ fst chunk) (valids @ snd chunk))"
  by pat_completeness auto
termination by (relation "measure (\<lambda>(domain, address, n, cursor, s, data, valids). n - cursor)")
  (auto simp: not_le intro!: page_progress)

declare relaxed_loop.simps [simp del]

definition read_relaxed :: "string \<Rightarrow> int \<Rightarrow> int \<Rightarrow> byte_store \<Rightarrow> py_error + bytes \<times> bytes" where
  "read_relaxed domain address n s =
     (if address < 0 \<or> n < 0 then Inl (MemoryInvariantError ''invalid byte-store read range'')
      else relaxed_loop domain (nat address) (nat n) 0 s [] [])"

definition bs_read :: "string \<Rightarrow> int \<Rightarrow> int \<Rightarrow> byte_store \<Rightarrow> py_error + bytes" where
  "bs_read domain address n s =
     (if address < 0 \<or> n < 0 then Inl (MemoryInvariantError ''invalid byte-store read range'')
      else case read_relaxed domain address n s of
             Inl e \<Rightarrow> Inl e
           | Inr (data, valids) \<Rightarrow>
               if 0 \<in> set valids then Inl (MemoryInvariantError ''byte oracle read includes uninitialised bytes'')
               else Inr data)"


section \<open>HBM host and device interface\<close>

definition seed_hbm :: "int \<Rightarrow> bytes \<Rightarrow> int option \<Rightarrow> byte_store \<Rightarrow> unit bs_result" where
  "seed_hbm address data cycle s =
     (if cycle \<noteq> None \<and> cycle \<noteq> Some 0 then
        bs_error ''seed_hbm is a cycle-0 facility; runtime writes must be billed through transfers'' s
      else if address < 0 then raise (ValueError ''seed_hbm address must be non-negative'') s
      else if data = [] then ret () s
      else and_then (bs_write ''hbm'' address data s) (\<lambda>_ s.
             ret () (s\<lparr>bs_seed_ranges := bs_seed_ranges s @ [(address, address + int (length data))]\<rparr>)))"

definition read_hbm :: "int \<Rightarrow> int \<Rightarrow> byte_store \<Rightarrow> py_error + bytes" where
  "read_hbm address n s = bs_read ''hbm'' address n s"

definition valid_permissions :: "string \<Rightarrow> bool" where
  "valid_permissions p \<longleftrightarrow> p \<in> {''r'', ''w'', ''rw''}"

definition register_hbm_binding :: "mem_handle \<Rightarrow> string \<Rightarrow> byte_store \<Rightarrow> unit bs_result" where
  "register_hbm_binding h permissions s =
     (case hd_owner h of
        ExternalOwner name \<Rightarrow>
          if \<not> valid_permissions permissions then raise (ValueError ''invalid HBM binding permissions'') s
          else
            let b = \<lparr>bd_name = name, bd_allocation_id = hd_allocation_id h, bd_generation = hd_generation h,
                     bd_base = hd_base_address h, bd_size = hd_size_bytes h, bd_permissions = permissions, bd_handle = h\<rparr>
            in if dict_get (bs_bindings s) name \<noteq> None \<and> dict_get (bs_bindings s) name \<noteq> Some b
               then bs_error ''HBM binding generation replaced without unbind'' s
               else ret () (s\<lparr>bs_bindings := dict_set name b (bs_bindings s)\<rparr>)
      | _ \<Rightarrow> bs_error ''byte-store HBM binding has a non-external owner'' s)"

definition unregister_hbm_binding :: "string \<Rightarrow> string \<Rightarrow> int \<Rightarrow> byte_store \<Rightarrow> unit bs_result" where
  "unregister_hbm_binding name aid gen s =
     (case dict_get (bs_bindings s) name of
        None \<Rightarrow> ret () s
      | Some b \<Rightarrow>
          if bd_allocation_id b \<noteq> aid \<or> bd_generation b \<noteq> gen
          then bs_error ''stale HBM binding unregistration'' s
          else ret () (s\<lparr>bs_bindings := dict_del name (bs_bindings s)\<rparr>))"

text \<open>
  The coverage walk: the first binding that holds the cursor moves it to its own end, which
  lies beyond the cursor, so the loop ends.
\<close>

definition binding_at :: "int \<Rightarrow> (string, binding) dict \<Rightarrow> binding option" where
  "binding_at a bs = find (\<lambda>b. bd_base b \<le> a \<and> a < bd_end b) (dict_values bs)"

lemma binding_at_Some: "binding_at a bs = Some b \<Longrightarrow> bd_base b \<le> a \<and> a < bd_end b"
  by (auto simp: binding_at_def find_Some_iff)

function cover_loop :: "int \<Rightarrow> int \<Rightarrow> (string, binding) dict \<Rightarrow> bool" where
  "cover_loop cursor stop bs =
     (if stop \<le> cursor then True
      else case binding_at cursor bs of
             None \<Rightarrow> False
           | Some b \<Rightarrow> cover_loop (min stop (bd_end b)) stop bs)"
  by pat_completeness auto
termination by (relation "measure (\<lambda>(cursor, stop, bs). nat (stop - cursor))") (auto dest: binding_at_Some)

declare cover_loop.simps [simp del]

section \<open>Cache seeds\<close>

definition on_cache :: "nat \<Rightarrow> (lru_cache \<Rightarrow> 'a lc_result) \<Rightarrow> byte_store \<Rightarrow> 'a bs_result" where
  "on_cache a f s = (case f (bs_heap s a) of (r, c) \<Rightarrow> (r, s\<lparr>bs_heap := (bs_heap s)(a := c)\<rparr>))"

definition validate_cache_seed_local :: "lru_cache \<Rightarrow> seed_spec \<Rightarrow> py_error option" where
  "validate_cache_seed_local c spec =
     (if \<not> lc_enabled c then Some (MemoryInvariantError ''cache seed targets a zero-capacity reset profile'')
      else if lc_level c \<noteq> '''' \<and> lc_level c \<noteq> ss_level spec
      then Some (MemoryInvariantError ''cache seed level does not match registered cache'')
      else if lc_pool_id c \<noteq> ss_pool_id spec
      then Some (MemoryInvariantError ''cache seed pool does not match registered cache'')
      else if ss_source_offset spec mod lc_line_bytes c \<noteq> 0
      then Some (MemoryInvariantError ''cache seed source offset must be line-aligned'')
      else if int (length (ss_data spec)) \<noteq> lc_line_bytes c
      then Some (MemoryInvariantError ''cache seed must provide exactly one cache line'')
      else if ss_dirty spec \<and> lc_write_policy c \<noteq> ''write_back''
      then Some (MemoryInvariantError ''dirty cache seed requires write_back policy'')
      else None)"

definition prepare_cache_seed :: "byte_store \<Rightarrow> seed_spec \<Rightarrow> py_error + nat \<times> binding \<times> line_identity" where
  "prepare_cache_seed s spec =
     (case dict_get (bs_caches s) (ss_level spec, ss_pool_id spec) of
        None \<Rightarrow> Inl (MemoryInvariantError ''cache seed pool is not registered before execution'')
      | Some a \<Rightarrow>
         (case validate_cache_seed_local (bs_heap s a) spec of
            Some e \<Rightarrow> Inl e
          | None \<Rightarrow>
           (case dict_get (bs_bindings s) (ss_binding_name spec) of
              None \<Rightarrow> Inl (MemoryInvariantError ''cache seed references an unbound actual HBM input'')
            | Some b \<Rightarrow>
                if CHR ''r'' \<notin> set (bd_permissions b)
                then Inl (MemoryInvariantError ''cache seed source binding lacks read permission'')
                else if ss_source_offset spec + int (length (ss_data spec)) > bd_size b
                then Inl (MemoryInvariantError ''cache seed exceeds its actual HBM binding'')
                else case identity_for (bd_allocation_id b) (bd_generation b) (ss_source_offset spec) 0 of
                       Inl e \<Rightarrow> Inl e
                     | Inr i \<Rightarrow>
                         if ss_dirty spec \<and> CHR ''w'' \<notin> set (bd_permissions b)
                         then Inl (MemoryInvariantError ''dirty cache seed source binding lacks write permission'')
                         else Inr (a, b, i))))"

fun prepare_all :: "byte_store \<Rightarrow> seed_spec list \<Rightarrow> py_error + (seed_spec \<times> nat \<times> binding \<times> line_identity) list" where
  "prepare_all s [] = Inr []"
| "prepare_all s (spec # specs) =
     (case prepare_cache_seed s spec of
        Inl e \<Rightarrow> Inl e
      | Inr p \<Rightarrow> (case prepare_all s specs of Inl e \<Rightarrow> Inl e | Inr ps \<Rightarrow> Inr ((spec, p) # ps)))"

fun new_by_cache ::
  "byte_store \<Rightarrow> (seed_spec \<times> nat \<times> binding \<times> line_identity) list \<Rightarrow> (nat, line_identity list) dict
   \<Rightarrow> (nat, line_identity list) dict" where
  "new_by_cache s [] d = d"
| "new_by_cache s ((spec, a, b, i) # ps) d =
     (let ids = get_default [] d a;
          ids' = (if contains (KeyIdentity i) (bs_heap s a) then ids else List.insert i ids)
      in new_by_cache s ps (dict_set a ids' d))"

definition seeds_fit :: "byte_store \<Rightarrow> (nat, line_identity list) dict \<Rightarrow> bool" where
  "seeds_fit s d \<longleftrightarrow>
     list_all (\<lambda>(a, ids). let c = bs_heap s a in
       int (length (lc_lines c)) + int (length ids) \<le> lc_capacity_bytes c div lc_line_bytes c) d"

definition seed_one :: "seed_spec \<Rightarrow> nat \<Rightarrow> binding \<Rightarrow> byte_store \<Rightarrow> unit bs_result" where
  "seed_one spec a b s =
     and_then (on_cache a (seed_line (bd_allocation_id b) (bd_generation b) (ss_source_offset spec)
       (ss_binding_name spec) (ss_data spec) (ss_dirty spec)) s) (\<lambda>_ s.
     ret () (s\<lparr>bs_seeded_cache_keys := insert (ss_key spec) (bs_seeded_cache_keys s)\<rparr>))"

fun seed_all :: "(seed_spec \<times> nat \<times> binding \<times> line_identity) list \<Rightarrow> byte_store \<Rightarrow> unit bs_result" where
  "seed_all [] s = ret () s"
| "seed_all ((spec, a, b, i) # ps) s = and_then (seed_one spec a b s) (\<lambda>_ s. seed_all ps s)"

definition flush_pending_cache_seeds :: "byte_store \<Rightarrow> unit bs_result" where
  "flush_pending_cache_seeds s =
     (if bs_pending_cache_seeds s = [] then ret () s
      else case prepare_all s (bs_pending_cache_seeds s) of
             Inl e \<Rightarrow> raise e s
           | Inr ps \<Rightarrow>
               if \<not> seeds_fit s (new_by_cache s ps [])
               then bs_error ''cache seeds exceed active reset-profile capacity'' s
               else and_then (seed_all ps s) (\<lambda>_ s. ret () (s\<lparr>bs_pending_cache_seeds := []\<rparr>)))"

definition validate_seed_coverage :: "byte_store \<Rightarrow> unit bs_result" where
  "validate_seed_coverage s =
     (if \<not> list_all (\<lambda>(start, stop). cover_loop start stop (bs_bindings s)) (bs_seed_ranges s)
      then bs_error ''seeded HBM byte is outside actual launch bindings'' s
      else and_then (flush_pending_cache_seeds s) (\<lambda>_ s. ret () (s\<lparr>bs_seed_ranges := []\<rparr>)))"

definition register_cache :: "string \<Rightarrow> int \<Rightarrow> nat \<Rightarrow> byte_store \<Rightarrow> unit bs_result" where
  "register_cache level pool a s =
     (if level \<noteq> ''l1'' \<and> level \<noteq> ''l2'' \<or> pool < 0 then raise (ValueError ''invalid cache pool identity'') s
      else if dict_get (bs_caches s) (level, pool) \<noteq> None \<and> dict_get (bs_caches s) (level, pool) \<noteq> Some a
      then bs_error ''cache pool registered twice'' s
      else ret () (s\<lparr>bs_caches := dict_set (level, pool) a (bs_caches s)\<rparr>))"

definition binding_has_cached_state :: "string \<Rightarrow> byte_store \<Rightarrow> bool" where
  "binding_has_cached_state name s \<longleftrightarrow>
     list_ex (\<lambda>(k, a). lc_enabled (bs_heap s a)
       \<and> list_ex (\<lambda>(i, l). pv_binding_name (cl_provenance l) = name) (lc_lines (bs_heap s a))) (bs_caches s)"

definition seed_cache_line :: "seed_spec \<Rightarrow> byte_store \<Rightarrow> unit bs_result" where
  "seed_cache_line spec s =
     (if ss_level spec \<noteq> ''l1'' \<and> ss_level spec \<noteq> ''l2'' \<or> ss_pool_id spec < 0 \<or> ss_binding_name spec = ''''
      then raise (ValueError ''invalid cache seed pool or binding identity'') s
      else if ss_source_offset spec < 0
      then raise (ValueError ''cache seed source offset must be non-negative'') s
      else if ss_data spec = [] then raise (ValueError ''cache seed data must be non-empty bytes'') s
      else if ss_key spec \<in> bs_seeded_cache_keys s \<or> list_ex (\<lambda>x. ss_key x = ss_key spec) (bs_pending_cache_seeds s)
      then bs_error ''duplicate cache seed specification'' s
      else
        let cache = dict_get (bs_caches s) (ss_level spec, ss_pool_id spec)
        in case (case cache of None \<Rightarrow> None | Some a \<Rightarrow> validate_cache_seed_local (bs_heap s a) spec) of
             Some e \<Rightarrow> raise e s
           | None \<Rightarrow>
               if cache = None \<or> dict_get (bs_bindings s) (ss_binding_name spec) = None
               then ret () (s\<lparr>bs_pending_cache_seeds := bs_pending_cache_seeds s @ [spec]\<rparr>)
               else case prepare_cache_seed s spec of
                      Inl e \<Rightarrow> raise e s
                    | Inr (a, b, i) \<Rightarrow>
                        let c = bs_heap s a
                        in if \<not> contains (KeyIdentity i) c \<and> int (length (lc_lines c)) \<ge> lc_capacity_bytes c div lc_line_bytes c
                           then bs_error ''cache seeds exceed active reset-profile capacity'' s
                           else seed_one spec a b s)"

section \<open>Views\<close>

definition binding_for_view :: "resolved_view \<Rightarrow> char \<Rightarrow> byte_store \<Rightarrow> py_error + binding" where
  "binding_for_view v permission s =
     (let h = vw_handle v
      in case (hd_memory_space h = ''hbm'', hd_owner h) of
           (True, ExternalOwner name) \<Rightarrow>
             (case dict_get (bs_bindings s) name of
                None \<Rightarrow> Inl (MemoryInvariantError ''stale or out-of-bounds HBM byte-store view'')
              | Some b \<Rightarrow>
                  if bd_allocation_id b \<noteq> hd_allocation_id h \<or> bd_generation b \<noteq> hd_generation h
                     \<or> vw_address v < bd_base b \<or> vw_address v + vw_size_bytes v > bd_end b
                  then Inl (MemoryInvariantError ''stale or out-of-bounds HBM byte-store view'')
                  else if permission \<notin> set (bd_permissions b)
                  then Inl (MemoryInvariantError ''HBM binding lacks device permission'')
                  else Inr b)
         | _ \<Rightarrow> Inl (MemoryInvariantError ''byte-store view is not an HBM binding''))"

definition view_error :: "resolved_view \<Rightarrow> char \<Rightarrow> byte_store \<Rightarrow> py_error option" where
  "view_error v permission s =
     (if hd_memory_space (vw_handle v) = ''hbm''
      then case binding_for_view v permission s of Inl e \<Rightarrow> Some e | Inr b \<Rightarrow> None
      else None)"

fun read_segments :: "string \<Rightarrow> bank_segment list \<Rightarrow> byte_store \<Rightarrow> py_error + bytes" where
  "read_segments domain [] s = Inr []"
| "read_segments domain (g # gs) s =
     (case bs_read domain (seg_address g) (seg_size_bytes g) s of
        Inl e \<Rightarrow> Inl e
      | Inr xs \<Rightarrow> (case read_segments domain gs s of Inl e \<Rightarrow> Inl e | Inr ys \<Rightarrow> Inr (xs @ ys)))"

definition read_view :: "resolved_view \<Rightarrow> byte_store \<Rightarrow> py_error + bytes" where
  "read_view v s =
     (case view_error v CHR ''r'' s of
        Some e \<Rightarrow> Inl e
      | None \<Rightarrow>
         (case read_segments (domain_for_view v) (vw_segments v) s of
            Inl e \<Rightarrow> Inl e
          | Inr xs \<Rightarrow>
              if int (length xs) \<noteq> vw_size_bytes v
              then Inl (MemoryInvariantError ''resolved source segments do not cover logical bytes'')
              else Inr xs))"

fun relaxed_segments :: "string \<Rightarrow> bank_segment list \<Rightarrow> byte_store \<Rightarrow> py_error + bytes \<times> bytes" where
  "relaxed_segments domain [] s = Inr ([], [])"
| "relaxed_segments domain (g # gs) s =
     (case read_relaxed domain (seg_address g) (seg_size_bytes g) s of
        Inl e \<Rightarrow> Inl e
      | Inr (xs, vs) \<Rightarrow>
         (case relaxed_segments domain gs s of Inl e \<Rightarrow> Inl e | Inr (ys, ws) \<Rightarrow> Inr (xs @ ys, vs @ ws)))"

definition read_view_relaxed :: "resolved_view \<Rightarrow> byte_store \<Rightarrow> py_error + bytes \<times> bytes" where
  "read_view_relaxed v s =
     (case view_error v CHR ''r'' s of
        Some e \<Rightarrow> Inl e
      | None \<Rightarrow>
         (case relaxed_segments (domain_for_view v) (vw_segments v) s of
            Inl e \<Rightarrow> Inl e
          | Inr (xs, vs) \<Rightarrow>
              if int (length xs) \<noteq> vw_size_bytes v
              then Inl (MemoryInvariantError ''resolved source segments do not cover logical bytes'')
              else Inr (xs, vs)))"

fun write_segments :: "string \<Rightarrow> bank_segment list \<Rightarrow> int \<Rightarrow> bytes \<Rightarrow> byte_store \<Rightarrow> int bs_result" where
  "write_segments domain [] cursor data s = ret cursor s"
| "write_segments domain (g # gs) cursor data s =
     and_then (bs_write domain (seg_address g) (py_slice cursor (cursor + seg_size_bytes g) data) s) (\<lambda>_ s.
     write_segments domain gs (cursor + seg_size_bytes g) data s)"

definition write_view :: "resolved_view \<Rightarrow> bytes \<Rightarrow> byte_store \<Rightarrow> unit bs_result" where
  "write_view v data s =
     (if int (length data) \<noteq> vw_size_bytes v
      then bs_error ''destination byte count does not match resolved view'' s
      else case view_error v CHR ''w'' s of
             Some e \<Rightarrow> raise e s
           | None \<Rightarrow>
               and_then (write_segments (domain_for_view v) (vw_segments v) 0 data s) (\<lambda>cursor s.
               if cursor \<noteq> int (length data)
               then bs_error ''resolved destination segments do not cover logical bytes'' s
               else ret () s))"

definition write_view_checked :: "resolved_view \<Rightarrow> bytes \<Rightarrow> bytes option \<Rightarrow> byte_store \<Rightarrow> unit bs_result" where
  "write_view_checked v data validity s =
     (if int (length data) \<noteq> vw_size_bytes v
      then bs_error ''destination byte count does not match resolved view'' s
      else case validity of
             None \<Rightarrow> write_view v data s
           | Some vs \<Rightarrow>
               if length vs \<noteq> length data then bs_error ''validity mask length does not match payload'' s
               else if 0 \<in> set vs then bs_error ''gather destination segment includes uninitialised bytes'' s
               else write_view v data s)"

section \<open>Invalidation\<close>

function clear_loop :: "int \<Rightarrow> nat \<Rightarrow> nat \<Rightarrow> byte_store \<Rightarrow> unit bs_result" where
  "clear_loop address n cursor s =
     (if n \<le> cursor then ret () s
      else if bs_page_bytes s = 0 then raise ZeroDivisionError s
      else
        let absolute = address + int cursor;
            page_index = absolute div int (bs_page_bytes s);
            page_offset = nat (absolute mod int (bs_page_bytes s));
            count = min (n - cursor) (bs_page_bytes s - page_offset);
            key = PageKey ''hbm'' (nat page_index)
        in clear_loop address n (cursor + count)
             (case (if page_index < 0 then None else dict_get (bs_valid s) key) of
                None \<Rightarrow> s
              | Some valid \<Rightarrow> s\<lparr>bs_valid := dict_set key (slice_set page_offset count (replicate count 0) valid) (bs_valid s)\<rparr>))"
  by pat_completeness auto
termination
proof (relation "measure (\<lambda>(address, n, cursor, s). n - cursor)", goal_cases)
  case (2 address n cursor s absolute page_index page_offset count key)
  have "page_offset < bs_page_bytes s"
    using 2 pos_mod_bound [of "int (bs_page_bytes s)" absolute] pos_mod_sign [of "int (bs_page_bytes s)" absolute] by (simp add: nat_less_iff)
  with page_progress [OF this, of cursor n] 2 show ?case by simp
qed simp

declare clear_loop.simps [simp del]

fun clear_ranges :: "(int \<times> int) list \<Rightarrow> byte_store \<Rightarrow> unit bs_result" where
  "clear_ranges [] s = ret () s"
| "clear_ranges ((address, n) # rs) s = and_then (clear_loop address (nat n) 0 s) (\<lambda>_ s. clear_ranges rs s)"

definition clear_hbm_validity :: "mem_handle \<Rightarrow> int \<Rightarrow> int \<Rightarrow> bank_segment list \<Rightarrow> byte_store \<Rightarrow> unit bs_result" where
  "clear_hbm_validity h off n segments s =
     (if off < 0 \<or> off + n > hd_size_bytes h then bs_error ''invalidate range exceeds its HBM binding'' s
      else clear_ranges (if segments \<noteq> [] then map (\<lambda>g. (seg_address g, seg_size_bytes g)) segments
                         else [(hd_base_address h + off, n)]) s)"

fun maintain_caches :: "cache_range \<Rightarrow> nat list \<Rightarrow> byte_store \<Rightarrow> unit bs_result" where
  "maintain_caches r [] s = ret () s"
| "maintain_caches r (a # as) s =
     (if lc_enabled (bs_heap s a)
      then and_then (on_cache a (begin_maintenance (Some [r]) False True) s) (\<lambda>_ s. maintain_caches r as s)
      else maintain_caches r as s)"

definition clear_cache_validity :: "string \<Rightarrow> int \<Rightarrow> int \<Rightarrow> int \<Rightarrow> byte_store \<Rightarrow> unit bs_result" where
  "clear_cache_validity aid agen off n s =
     (if n \<le> 0 then ret () s
      else maintain_caches \<lparr>cr_allocation_id = aid, cr_allocation_generation = agen, cr_offset = off, cr_bytes = n\<rparr>
             (dict_values (bs_caches s)) s)"

definition invalidate_view :: "resolved_view \<Rightarrow> byte_store \<Rightarrow> unit bs_result" where
  "invalidate_view v s =
     (let h = vw_handle v
      in if hd_memory_space h \<noteq> ''hbm'' then bs_error ''invalidate_view targets HBM page ranges only'' s
         else case binding_for_view v CHR ''w'' s of
                Inl e \<Rightarrow> raise e s
              | Inr b \<Rightarrow>
                  and_then (clear_hbm_validity h (vw_offset_bytes v) (vw_size_bytes v) (vw_segments v) s) (\<lambda>_ s.
                  clear_cache_validity (hd_allocation_id h) (hd_generation h) (vw_offset_bytes v) (vw_size_bytes v) s))"

definition invalidate_binding_range :: "mem_handle \<Rightarrow> int \<Rightarrow> int \<Rightarrow> byte_store \<Rightarrow> unit bs_result" where
  "invalidate_binding_range h off n s =
     (if hd_memory_space h \<noteq> ''hbm'' then bs_error ''invalidate_binding_range targets HBM ranges only'' s
      else if off < 0 \<or> n \<le> 0 \<or> off + n > hd_size_bytes h
      then bs_error ''invalidate range exceeds its HBM binding'' s
      else and_then (clear_hbm_validity h off n [] s) (\<lambda>_ s.
           clear_cache_validity (hd_allocation_id h) (hd_generation h) off n s))"

end
