(* ===== verification/Byte_Safety.thy ===== *)
theory Byte_Safety
  imports Byte_Store Lru_Safety
begin

declare map_of_eq_Some_iff [simp del] Some_eq_map_of_iff [simp del]

text \<open>
  The paged byte store implements a flat partial byte memory. The interface is a locale
  (\<open>flat_memory\<close>); the page loops discharge its laws and the gather/scatter round trip over
  disjoint segments is proved once against the interface. Invalidation removes exactly the
  bytes of its range and every unpinned cache copy of them.
\<close>

section \<open>A flat byte memory\<close>

fun segments_apart :: "(nat \<times> nat) list \<Rightarrow> bool" where
  "segments_apart [] \<longleftrightarrow> True"
| "segments_apart ((a, n) # gs) \<longleftrightarrow> (\<forall>(b, m) \<in> set gs. a + n \<le> b \<or> b + m \<le> a) \<and> segments_apart gs"

locale flat_memory =
  fixes ok :: "'s \<Rightarrow> bool"
    and peek :: "'s \<Rightarrow> string \<Rightarrow> nat \<Rightarrow> int option"
    and poke :: "string \<Rightarrow> nat \<Rightarrow> int list \<Rightarrow> 's \<Rightarrow> 's"
    and load :: "string \<Rightarrow> nat \<Rightarrow> nat \<Rightarrow> 's \<Rightarrow> int list option"
  assumes ok_poke: "ok s \<Longrightarrow> ok (poke d a xs s)"
    and peek_poke: "ok s \<Longrightarrow> peek (poke d a xs s) e b =
          (if e = d \<and> a \<le> b \<and> b < a + length xs then Some (xs ! (b - a)) else peek s e b)"
    and load_iff: "ok s \<Longrightarrow> load d a n s = Some xs \<longleftrightarrow> length xs = n \<and> (\<forall>i<n. peek s d (a + i) = Some (xs ! i))"
begin

lemma load_poke_same: "ok s \<Longrightarrow> load d a (length xs) (poke d a xs s) = Some xs"
  by (simp add: load_iff ok_poke peek_poke)

lemma load_poke_apart:
  assumes "ok s" "e \<noteq> d \<or> a + length xs \<le> b \<or> b + n \<le> a"
  shows "load e b n (poke d a xs s) = load e b n s"
proof -
  have "peek (poke d a xs s) e (b + i) = peek s e (b + i)" if "i < n" for i
    using assms that by (auto simp: peek_poke)
  then have "load e b n (poke d a xs s) = Some ys \<longleftrightarrow> load e b n s = Some ys" for ys
    using assms(1) by (auto simp: load_iff ok_poke)
  then show ?thesis by (metis not_None_eq)
qed

fun scatter :: "string \<Rightarrow> (nat \<times> nat) list \<Rightarrow> int list \<Rightarrow> 's \<Rightarrow> 's" where
  "scatter d [] xs s = s"
| "scatter d ((a, n) # gs) xs s = scatter d gs (drop n xs) (poke d a (take n xs) s)"

fun gather :: "string \<Rightarrow> (nat \<times> nat) list \<Rightarrow> 's \<Rightarrow> int list option" where
  "gather d [] s = Some []"
| "gather d ((a, n) # gs) s =
     (case load d a n s of None \<Rightarrow> None | Some xs \<Rightarrow> map_option (append xs) (gather d gs s))"

lemma ok_scatter: "ok s \<Longrightarrow> ok (scatter d gs xs s)"
  by (induction d gs xs s rule: scatter.induct) (auto simp: ok_poke)

lemma load_scatter_apart:
  "ok s \<Longrightarrow> \<forall>(b, m) \<in> set gs. a + n \<le> b \<or> b + m \<le> a \<Longrightarrow> load d a n (scatter d gs xs s) = load d a n s"
proof (induction d gs xs s rule: scatter.induct)
  case (2 d b m gs xs s)
  have "load d a n (poke d b (take m xs) s) = load d a n s"
    by (rule load_poke_apart [OF 2(2)]) (use 2(3) in auto)
  with 2 show ?case by (simp add: ok_poke)
qed simp

lemma gather_scatter:
  "ok s \<Longrightarrow> segments_apart gs \<Longrightarrow> sum_list (map snd gs) = length xs \<Longrightarrow> gather d gs (scatter d gs xs s) = Some xs"
proof (induction gs arbitrary: xs s)
  case (Cons g gs)
  obtain a n where g: "g = (a, n)" by (cases g)
  let ?s = "poke d a (take n xs) s"
  have n: "length (take n xs) = n" using Cons.prems(3) g by simp
  have "load d a n (scatter d gs (drop n xs) ?s) = load d a n ?s"
    using Cons.prems(1,2) g by (intro load_scatter_apart) (auto simp: ok_poke)
  also have "\<dots> = Some (take n xs)" using load_poke_same [OF Cons.prems(1), of d a "take n xs"] n by simp
  finally show ?case
    using Cons.IH [of ?s "drop n xs"] Cons.prems g by (simp add: ok_poke)
qed simp

lemma gather_None: "(b, m) \<in> set gs \<Longrightarrow> i < m \<Longrightarrow> ok s \<Longrightarrow> peek s d (b + i) = None \<Longrightarrow> gather d gs s = None"
proof (induction gs)
  case (Cons g gs)
  then show ?case
    by (cases g) (auto simp: load_iff split: option.splits)
qed simp

end

section \<open>The page loops\<close>

definition byte_at :: "byte_store \<Rightarrow> string \<Rightarrow> nat \<Rightarrow> int option" where
  "byte_at s d a =
     (let key = PageKey d (a div bs_page_bytes s); off = a mod bs_page_bytes s
      in case (dict_get (bs_pages s) key, dict_get (bs_valid s) key) of
           (Some page, Some valid) \<Rightarrow> if valid ! off \<noteq> 0 then Some (page ! off) else None
         | _ \<Rightarrow> None)"

definition store_wf :: "byte_store \<Rightarrow> bool" where
  "store_wf s \<longleftrightarrow> 0 < bs_page_bytes s
     \<and> (\<forall>k p. dict_get (bs_pages s) k = Some p \<longrightarrow> length p = bs_page_bytes s)
     \<and> (\<forall>k p. dict_get (bs_valid s) k = Some p \<longrightarrow> length p = bs_page_bytes s)
     \<and> (\<forall>k. dict_get (bs_pages s) k = None \<longleftrightarrow> dict_get (bs_valid s) k = None)"

definition same_rest :: "byte_store \<Rightarrow> byte_store \<Rightarrow> bool" where
  "same_rest s t \<longleftrightarrow> t = s\<lparr>bs_pages := bs_pages t, bs_valid := bs_valid t\<rparr>"

lemma same_rest_fields:
  assumes "same_rest s t"
  shows "bs_page_bytes t = bs_page_bytes s" "bs_bindings t = bs_bindings s" "bs_seed_ranges t = bs_seed_ranges s"
    "bs_caches t = bs_caches s" "bs_heap t = bs_heap s" "bs_pending_cache_seeds t = bs_pending_cache_seeds s"
    "bs_seeded_cache_keys t = bs_seeded_cache_keys s"
  using assms by (cases s; cases t; simp add: same_rest_def)+

lemma same_rest_refl: "same_rest s s" by (simp add: same_rest_def)

lemma same_rest_trans: "same_rest s t \<Longrightarrow> same_rest t u \<Longrightarrow> same_rest s u"
  by (cases s; cases t; cases u) (simp add: same_rest_def)

lemma page_window:
  fixes a b n p :: nat
  assumes "0 < p" "b mod p + n \<le> p"
  shows "(a div p = b div p \<and> b mod p \<le> a mod p \<and> a mod p < b mod p + n) \<longleftrightarrow> b \<le> a \<and> a < b + n"
    and "b \<le> a \<Longrightarrow> a < b + n \<Longrightarrow> a mod p - b mod p = a - b"
proof -
  have split: "b = p * (b div p) + b mod p" by simp
  have win: "a div p = b div p \<and> a mod p = b mod p + (a - b)" if "b \<le> a" "a < b + n"
  proof -
    have a: "a = p * (b div p) + (b mod p + (a - b))" using that split by linarith
    have "b mod p + (a - b) < p" using that assms(2) by linarith
    moreover have "(p * q + r) div p = q \<and> (p * q + r) mod p = r" if "r < p" for q r using that by simp
    ultimately show ?thesis using a by metis
  qed
  have "b \<le> a \<and> a < b + n" if "a div p = b div p" "b mod p \<le> a mod p" "a mod p < b mod p + n"
  proof -
    have "a = p * (b div p) + a mod p" using that(1) by (metis mult_div_mod_eq)
    then show ?thesis using split that by linarith
  qed
  with win show "(a div p = b div p \<and> b mod p \<le> a mod p \<and> a mod p < b mod p + n) \<longleftrightarrow> b \<le> a \<and> a < b + n"
    by auto
  show "b \<le> a \<Longrightarrow> a < b + n \<Longrightarrow> a mod p - b mod p = a - b" using win by simp
qed

lemma slice_set_nth:
  "off + n \<le> length page \<Longrightarrow> length xs = n \<Longrightarrow> j < length page \<Longrightarrow>
   slice_set off n xs page ! j = (if off \<le> j \<and> j < off + n then xs ! (j - off) else page ! j)"
  by (auto simp: slice_set_def nth_append min_def)

lemma slice_set_length: "off + n \<le> length page \<Longrightarrow> length xs = n \<Longrightarrow> length (slice_set off n xs page) = length page"
  by (simp add: slice_set_def)


lemma store_wfD:
  assumes "store_wf s"
  shows "0 < bs_page_bytes s" "dict_get (bs_pages s) k = Some p \<Longrightarrow> length p = bs_page_bytes s"
    "dict_get (bs_valid s) k = Some v \<Longrightarrow> length v = bs_page_bytes s"
    "dict_get (bs_pages s) k = None \<longleftrightarrow> dict_get (bs_valid s) k = None"
  using assms by (auto simp: store_wf_def)

lemma byte_at_default:
  assumes "store_wf s"
  defines "pb \<equiv> bs_page_bytes s"
  shows "byte_at s d a =
    (let key = PageKey d (a div pb); page = get_default (replicate pb 0) (bs_pages s) key;
         valid = get_default (replicate pb 0) (bs_valid s) key
     in if valid ! (a mod pb) \<noteq> 0 then Some (page ! (a mod pb)) else None)"
proof -
  let ?k = "PageKey d (a div pb)"
  have "a mod pb < pb" using store_wfD(1) [OF assms(1)] by (simp add: pb_def)
  then show ?thesis
    using store_wfD(4) [OF assms(1), of ?k]
    by (cases "dict_get (bs_pages s) ?k"; cases "dict_get (bs_valid s) ?k")
       (simp_all add: byte_at_def get_default_def pb_def [symmetric])
qed

lemma write_chunk:
  fixes s :: byte_store and domain :: string and absolute n :: nat and xs :: bytes
  defines "pb \<equiv> bs_page_bytes s"
  defines "key \<equiv> PageKey domain (absolute div pb)" and "off \<equiv> absolute mod pb"
  defines "page \<equiv> get_default (replicate pb 0) (bs_pages s) key"
    and "valid \<equiv> get_default (replicate pb 0) (bs_valid s) key"
  defines "s' \<equiv> s\<lparr>bs_pages := dict_set key (slice_set off n xs page) (bs_pages s),
                    bs_valid := dict_set key (slice_set off n (replicate n 1) valid) (bs_valid s)\<rparr>"
  assumes wf: "store_wf s" and n: "off + n \<le> pb" "length xs = n"
  shows "store_wf s'" "same_rest s s'"
    "byte_at s' d a = (if d = domain \<and> absolute \<le> a \<and> a < absolute + n then Some (xs ! (a - absolute)) else byte_at s d a)"
proof -
  note D = store_wfD [OF wf, folded pb_def]
  have len: "length page = pb" "length valid = pb"
    using D(2,3) by (simp_all add: page_def valid_def get_default_def split: option.splits)
  have pb: "bs_page_bytes s' = pb" by (simp add: s'_def pb_def)
  show wf': "store_wf s'"
    using D n len by (auto simp: store_wf_def s'_def dict_simps slice_set_length pb_def [symmetric])
  show "same_rest s s'" by (simp add: same_rest_def s'_def)
  have m: "a mod pb < pb" using D(1) by simp
  have win: "PageKey d (a div pb) = key \<and> off \<le> a mod pb \<and> a mod pb < off + n
      \<longleftrightarrow> d = domain \<and> absolute \<le> a \<and> a < absolute + n"
    using page_window(1) [OF D(1) n(1) [unfolded off_def], of a] by (auto simp: key_def off_def)
  have sub: "absolute \<le> a \<Longrightarrow> a < absolute + n \<Longrightarrow> a mod pb - off = a - absolute"
    using page_window(2) [OF D(1) n(1) [unfolded off_def], of a] by (simp add: off_def)
  show "byte_at s' d a = (if d = domain \<and> absolute \<le> a \<and> a < absolute + n then Some (xs ! (a - absolute)) else byte_at s d a)"
  proof (cases "PageKey d (a div pb) = key")
    case True
    have "byte_at s' d a = (if off \<le> a mod pb \<and> a mod pb < off + n then Some (xs ! (a mod pb - off))
        else if valid ! (a mod pb) \<noteq> 0 then Some (page ! (a mod pb)) else None)"
      using n m len True unfolding byte_at_def pb by (auto simp: s'_def dict_simps slice_set_nth Let_def)
    moreover have "byte_at s d a = (if valid ! (a mod pb) \<noteq> 0 then Some (page ! (a mod pb)) else None)"
      using True byte_at_default [OF wf, folded pb_def, of d a] by (simp add: page_def valid_def)
    ultimately show ?thesis using win sub True by auto
  next
    case False
    then have "byte_at s' d a = byte_at s d a"
      unfolding byte_at_def pb pb_def [symmetric] by (simp add: s'_def dict_simps Let_def)
    with False win show ?thesis by auto
  qed
qed

lemma write_loop_ok:
  "store_wf s \<Longrightarrow> cursor \<le> length data \<Longrightarrow>
   \<exists>s'. write_loop domain address data cursor s = ret () s' \<and> store_wf s' \<and> same_rest s s'
     \<and> (\<forall>d a. byte_at s' d a = (if d = domain \<and> address + cursor \<le> a \<and> a < address + length data
                                  then Some (data ! (a - address)) else byte_at s d a))"
proof (induction "length data - cursor" arbitrary: cursor s rule: less_induct)
  case less
  show ?case
  proof (cases "length data \<le> cursor")
    case True
    with less(2,3) show ?thesis by (subst write_loop.simps) (auto simp: same_rest_refl)
  next
    case False
    let ?pb = "bs_page_bytes s"
    define off where "off = (address + cursor) mod ?pb"
    define n where "n = min (length data - cursor) (?pb - off)"
    define xs where "xs = take n (drop cursor data)"
    define key where "key = PageKey domain ((address + cursor) div ?pb)"
    define s1 where "s1 = s\<lparr>bs_pages := dict_set key (slice_set off n xs (get_default (replicate ?pb 0) (bs_pages s) key)) (bs_pages s),
      bs_valid := dict_set key (slice_set off n (replicate n 1) (get_default (replicate ?pb 0) (bs_valid s) key)) (bs_valid s)\<rparr>"
    have pb: "0 < ?pb" by (rule store_wfD(1) [OF less(2)])
    then have "off < ?pb" by (simp add: off_def)
    then have n: "off + n \<le> ?pb" "length xs = n" "cursor + n \<le> length data" "length data - (cursor + n) < length data - cursor"
      using False by (auto simp: n_def xs_def)
    note chunk = write_chunk [of s "address + cursor" n xs domain, folded off_def key_def, folded s1_def, OF less(2) n(1,2)]
    have step: "write_loop domain address data cursor s = write_loop domain address data (cursor + n) s1"
      using False pb by (subst write_loop.simps) (simp add: Let_def off_def n_def xs_def key_def s1_def)
    from less(1) [OF n(4) chunk(1) n(3)]
    obtain s' where s': "write_loop domain address data (cursor + n) s1 = ret () s'" "store_wf s'" "same_rest s1 s'"
      "\<And>d a. byte_at s' d a = (if d = domain \<and> address + (cursor + n) \<le> a \<and> a < address + length data
                                    then Some (data ! (a - address)) else byte_at s1 d a)" by blast
    have "xs ! (a - (address + cursor)) = data ! (a - address)" if "address + cursor \<le> a" "a < address + cursor + n" for a
      using that n(3) by (simp add: xs_def)
    then have "byte_at s' d a = (if d = domain \<and> address + cursor \<le> a \<and> a < address + length data
                                    then Some (data ! (a - address)) else byte_at s d a)" for d a
      using n(3) by (auto simp: s'(4) chunk(3))
    with s'(1-3) step chunk(2) show ?thesis by (auto intro: same_rest_trans)
  qed
qed

lemma page_chunk_bytes:
  fixes domain :: string
  assumes wf: "store_wf s" and n: "absolute mod bs_page_bytes s + n \<le> bs_page_bytes s"
  defines "c \<equiv> page_chunk (PageKey domain (absolute div bs_page_bytes s)) (absolute mod bs_page_bytes s) n s"
  shows "length (fst c) = n" "length (snd c) = n"
    "i < n \<Longrightarrow> byte_at s domain (absolute + i) = (if snd c ! i \<noteq> 0 then Some (fst c ! i) else None)"
proof -
  let ?pb = "bs_page_bytes s" and ?off = "absolute mod bs_page_bytes s"
  note D = store_wfD [OF wf]
  show "length (fst c) = n" "length (snd c) = n"
    using n D(2,3) by (auto simp: c_def page_chunk_def min_def split: option.splits)
  assume i: "i < n"
  have "(absolute + i) div ?pb = absolute div ?pb" "(absolute + i) mod ?pb = ?off + i"
    using page_window [OF D(1) n, of "absolute + i"] i by auto
  with i n D(2,3) show "byte_at s domain (absolute + i) = (if snd c ! i \<noteq> 0 then Some (fst c ! i) else None)"
    by (auto simp: byte_at_def c_def page_chunk_def Let_def split: option.splits)
qed

lemma relaxed_loop_ok:
  "store_wf s \<Longrightarrow> cursor \<le> n \<Longrightarrow>
   \<exists>xs vs. relaxed_loop domain address n cursor s data valids = Inr (data @ xs, valids @ vs)
     \<and> length xs = n - cursor \<and> length vs = n - cursor
     \<and> (\<forall>i < n - cursor. byte_at s domain (address + cursor + i) = (if vs ! i \<noteq> 0 then Some (xs ! i) else None))"
proof (induction "n - cursor" arbitrary: cursor data valids rule: less_induct)
  case less
  show ?case
  proof (cases "n \<le> cursor")
    case True
    then show ?thesis by (subst relaxed_loop.simps) simp
  next
    case False
    let ?pb = "bs_page_bytes s"
    define off where "off = (address + cursor) mod ?pb"
    define m where "m = min (n - cursor) (?pb - off)"
    define c where "c = page_chunk (PageKey domain ((address + cursor) div ?pb)) off m s"
    have pb: "0 < ?pb" by (rule store_wfD(1) [OF less(2)])
    then have "off < ?pb" by (simp add: off_def)
    then have m: "off + m \<le> ?pb" "cursor + m \<le> n" "n - (cursor + m) < n - cursor" using False by (auto simp: m_def)
    note ch = page_chunk_bytes [where s = s and absolute = "address + cursor" and n = m and domain = domain, OF less(2), folded off_def, OF m(1), folded c_def]
    have step: "relaxed_loop domain address n cursor s data valids
       = relaxed_loop domain address n (cursor + m) s (data @ fst c) (valids @ snd c)"
      using False pb by (subst relaxed_loop.simps) (simp add: Let_def off_def m_def c_def)
    from less(1) [OF m(3) less(2) m(2), of "data @ fst c" "valids @ snd c"]
    obtain xs vs where r: "relaxed_loop domain address n cursor s data valids = Inr (data @ fst c @ xs, valids @ snd c @ vs)"
      "length xs = n - (cursor + m)" "length vs = n - (cursor + m)"
      "\<And>i. i < n - (cursor + m) \<Longrightarrow> byte_at s domain (address + (cursor + m) + i) = (if vs ! i \<noteq> 0 then Some (xs ! i) else None)"
      unfolding step by auto
    have "byte_at s domain (address + cursor + i) = (if (snd c @ vs) ! i \<noteq> 0 then Some ((fst c @ xs) ! i) else None)"
      if i: "i < n - cursor" for i
    proof (cases "i < m")
      case True
      with ch show ?thesis by (simp add: nth_append)
    next
      case False
      with r(4) [of "i - m"] i ch(1,2) show ?thesis by (simp add: nth_append add.assoc)
    qed
    with r(1-3) ch(1,2) m(2) show ?thesis by (intro exI [of _ "fst c @ xs"] exI [of _ "snd c @ vs"]) simp
  qed
qed


lemma clear_chunk:
  fixes s :: byte_store and absolute :: int and n :: nat
  defines "pb \<equiv> bs_page_bytes s"
  defines "idx \<equiv> absolute div int pb" and "off \<equiv> nat (absolute mod int pb)"
  defines "key \<equiv> PageKey ''hbm'' (nat idx)"
  defines "s' \<equiv> (case (if idx < 0 then None else dict_get (bs_valid s) key) of None \<Rightarrow> s
      | Some valid \<Rightarrow> s\<lparr>bs_valid := dict_set key (slice_set off n (replicate n 0) valid) (bs_valid s)\<rparr>)"
  assumes wf: "store_wf s" and n: "off + n \<le> pb"
  shows "store_wf s'" "same_rest s s'" "bs_pages s' = bs_pages s"
    "byte_at s' d a = (if d = ''hbm'' \<and> absolute \<le> int a \<and> int a < absolute + int n then None else byte_at s d a)"
proof -
  note D = store_wfD [OF wf, folded pb_def]
  show "store_wf s'" "same_rest s s'" "bs_pages s' = bs_pages s"
    using D n by (auto simp: s'_def store_wf_def same_rest_def dict_simps slice_set_length pb_def [symmetric] split: option.splits)
  have pb': "bs_page_bytes s' = pb" by (simp add: s'_def pb_def split: option.splits)
  show "byte_at s' d a = (if d = ''hbm'' \<and> absolute \<le> int a \<and> int a < absolute + int n then None else byte_at s d a)"
  proof (cases "absolute < 0")
    case True
    then have neg: "idx < 0" using D(1) by (simp add: idx_def div_neg_pos_less0)
    have "absolute = int pb * idx + absolute mod int pb" by (simp add: idx_def)
    moreover have "int pb * idx \<le> int pb * (- 1)" using neg D(1) by (intro mult_left_mono) auto
    moreover have "absolute mod int pb + int n \<le> int pb" using n D(1) by (simp add: off_def nat_add_distrib)
    ultimately have "absolute + int n \<le> 0" by linarith
    moreover have "s' = s" using neg by (simp add: s'_def)
    ultimately show ?thesis by auto
  next
    case False
    define b where "b = nat absolute"
    have b: "absolute = int b" "idx = int (b div pb)" "off = b mod pb" "nat idx = b div pb"
      using False by (simp_all add: b_def idx_def off_def zdiv_int nat_mod_distrib nat_div_distrib)
    have win: "a div pb = b div pb \<and> off \<le> a mod pb \<and> a mod pb < off + n \<longleftrightarrow> b \<le> a \<and> a < b + n"
      using page_window(1) [OF D(1) n [unfolded b(3)], of a] by (simp add: b(3))
    show ?thesis
    proof (cases "PageKey d (a div pb) = key")
      case True
      then have k: "d = ''hbm''" "a div pb = b div pb" by (simp_all add: key_def b(4))
      have m: "a mod pb < pb" using D(1) by simp
      show ?thesis
      proof (cases "dict_get (bs_valid s) key")
        case None
        then have "s' = s" "byte_at s d a = None" using True
          by (simp_all add: s'_def byte_at_def pb_def Let_def split: option.splits)
        then show ?thesis by simp
      next
        case (Some valid)
        then obtain page where page: "dict_get (bs_pages s) key = Some page" using D(4) [of key] by fastforce
        have "s' = s\<lparr>bs_valid := dict_set key (slice_set off n (replicate n 0) valid) (bs_valid s)\<rparr>"
          using Some by (simp add: s'_def b(2))
        then have "byte_at s' d a = (if (off \<le> a mod pb \<and> a mod pb < off + n) \<or> valid ! (a mod pb) = 0 then None else Some (page ! (a mod pb)))"
          using True page D(3) [OF Some] n m unfolding byte_at_def pb'
          by (auto simp: Let_def dict_simps slice_set_nth)
        moreover have "byte_at s d a = (if valid ! (a mod pb) = 0 then None else Some (page ! (a mod pb)))"
          using True page Some unfolding byte_at_def pb_def [symmetric] by (auto simp: Let_def)
        ultimately show ?thesis using win k b(1) by auto
      qed
    next
      case False
      then have "byte_at s' d a = byte_at s d a"
        unfolding byte_at_def pb' pb_def [symmetric] by (auto simp: s'_def dict_simps Let_def split: option.splits)
      with False win b(1,4) show ?thesis by (auto simp: key_def)
    qed
  qed
qed

lemma clear_loop_ok:
  "store_wf s \<Longrightarrow> cursor \<le> n \<Longrightarrow>
   \<exists>s'. clear_loop address n cursor s = ret () s' \<and> store_wf s' \<and> same_rest s s'
     \<and> (\<forall>d a. byte_at s' d a = (if d = ''hbm'' \<and> address + int cursor \<le> int a \<and> int a < address + int n
                                  then None else byte_at s d a))"
proof (induction "n - cursor" arbitrary: cursor s rule: less_induct)
  case less
  show ?case
  proof (cases "n \<le> cursor")
    case True
    with less(2,3) show ?thesis by (subst clear_loop.simps) (auto simp: same_rest_refl)
  next
    case False
    let ?pb = "bs_page_bytes s" and ?abs = "address + int cursor"
    define off where "off = nat (?abs mod int ?pb)"
    define m where "m = min (n - cursor) (?pb - off)"
    define s1 where "s1 = (case (if ?abs div int ?pb < 0 then None else dict_get (bs_valid s) (PageKey ''hbm'' (nat (?abs div int ?pb)))) of
        None \<Rightarrow> s
      | Some valid \<Rightarrow> s\<lparr>bs_valid := dict_set (PageKey ''hbm'' (nat (?abs div int ?pb))) (slice_set off m (replicate m 0) valid) (bs_valid s)\<rparr>)"
    have pb: "0 < ?pb" by (rule store_wfD(1) [OF less(2)])
    then have "off < ?pb" by (simp add: off_def nat_less_iff)
    then have m: "off + m \<le> ?pb" "cursor + m \<le> n" "n - (cursor + m) < n - cursor" using False by (auto simp: m_def)
    note ch = clear_chunk [of s ?abs m, folded off_def, OF less(2) m(1), folded s1_def]
    have step: "clear_loop address n cursor s = clear_loop address n (cursor + m) s1"
      using False pb by (subst clear_loop.simps) (simp only: Let_def off_def m_def s1_def if_False gr_implies_not0)
    from less(1) [OF m(3) ch(1) m(2)]
    obtain s' where s': "clear_loop address n (cursor + m) s1 = ret () s'" "store_wf s'" "same_rest s1 s'"
      "\<And>d a. byte_at s' d a = (if d = ''hbm'' \<and> address + int (cursor + m) \<le> int a \<and> int a < address + int n
                                  then None else byte_at s1 d a)" by blast
    have "byte_at s' d a = (if d = ''hbm'' \<and> ?abs \<le> int a \<and> int a < address + int n then None else byte_at s d a)" for d a
      using m(2) by (auto simp: s'(4) ch(4))
    with s'(1-3) step ch(2) show ?thesis by (auto intro: same_rest_trans)
  qed
qed


section \<open>The page store is a flat memory\<close>

definition poke_bytes :: "string \<Rightarrow> nat \<Rightarrow> bytes \<Rightarrow> byte_store \<Rightarrow> byte_store" where
  "poke_bytes d a xs s = snd (write_loop d a xs 0 s)"

definition load_bytes :: "string \<Rightarrow> nat \<Rightarrow> nat \<Rightarrow> byte_store \<Rightarrow> bytes option" where
  "load_bytes d a n s = (case bs_read d (int a) (int n) s of Inl e \<Rightarrow> None | Inr xs \<Rightarrow> Some xs)"

lemma poke_bytes_ok:
  assumes "store_wf s"
  shows "write_loop d a xs 0 s = ret () (poke_bytes d a xs s)" "store_wf (poke_bytes d a xs s)" "same_rest s (poke_bytes d a xs s)"
    "byte_at (poke_bytes d a xs s) e b = (if e = d \<and> a \<le> b \<and> b < a + length xs then Some (xs ! (b - a)) else byte_at s e b)"
  using write_loop_ok [OF assms, of 0 xs d a] by (auto simp: poke_bytes_def)

lemma bs_write_poke: "store_wf s \<Longrightarrow> bs_write d a xs s =
    (if a < 0 then raise (MemoryInvariantError ''byte-store address must be non-negative'') s else ret () (poke_bytes d (nat a) xs s))"
  by (simp add: bs_write_def poke_bytes_ok(1))

lemma load_bytes_iff:
  assumes "store_wf s"
  shows "load_bytes d a n s = Some xs \<longleftrightarrow> length xs = n \<and> (\<forall>i<n. byte_at s d (a + i) = Some (xs ! i))"
proof -
  obtain ys vs where r: "relaxed_loop d a n 0 s [] [] = Inr (ys, vs)" "length ys = n" "length vs = n"
    "\<And>i. i < n \<Longrightarrow> byte_at s d (a + i) = (if vs ! i \<noteq> 0 then Some (ys ! i) else None)"
    using relaxed_loop_ok [OF assms, of 0 n d a "[]" "[]"] by auto
  have zero: "0 \<in> set vs \<longleftrightarrow> (\<exists>i<n. vs ! i = 0)" using r(3) by (metis in_set_conv_nth)
  have load: "load_bytes d a n s = (if \<exists>i<n. vs ! i = 0 then None else Some ys)"
    using r(1) zero by (simp add: load_bytes_def bs_read_def read_relaxed_def)
  show ?thesis
  proof (cases "\<exists>i<n. vs ! i = 0")
    case True
    with load r(4) show ?thesis by auto
  next
    case False
    then have "\<forall>i<n. byte_at s d (a + i) = Some (ys ! i)" using r(4) by simp
    with False load r(2) show ?thesis by (auto intro: nth_equalityI)
  qed
qed

interpretation mem: flat_memory store_wf byte_at poke_bytes load_bytes
  by unfold_locales (rule poke_bytes_ok(2) poke_bytes_ok(4) load_bytes_iff; assumption)+

lemma bs_read_load:
  assumes "store_wf s" "0 \<le> a" "0 \<le> n"
  shows "bs_read d a n s = (case load_bytes d (nat a) (nat n) s of
     None \<Rightarrow> Inl (MemoryInvariantError ''byte oracle read includes uninitialised bytes'') | Some xs \<Rightarrow> Inr xs)"
proof -
  obtain ys vs where "relaxed_loop d (nat a) (nat n) 0 s [] [] = Inr (ys, vs)"
    using relaxed_loop_ok [OF assms(1), of 0 "nat n" d "nat a" "[]" "[]"] by auto
  with assms(2,3) show ?thesis by (auto simp: load_bytes_def bs_read_def read_relaxed_def)
qed

section \<open>Views\<close>

abbreviation seg_pairs :: "bank_segment list \<Rightarrow> (nat \<times> nat) list" where
  "seg_pairs gs \<equiv> map (\<lambda>g. (nat (seg_address g), nat (seg_size_bytes g))) gs"

lemma scatter_same_rest: "store_wf s \<Longrightarrow> same_rest s (mem.scatter d gs xs s)"
proof (induction d gs xs s rule: mem.scatter.induct)
  case (2 d a n gs xs s)
  have "same_rest (poke_bytes d a (take n xs) s) (mem.scatter d ((a, n) # gs) xs s)"
    using 2(1) poke_bytes_ok(2) [OF 2(2)] by simp
  with poke_bytes_ok(3) [OF 2(2)] show ?case by (rule same_rest_trans)
qed (simp add: same_rest_refl)

lemma write_segments_scatter:
  "store_wf s \<Longrightarrow> list_all (\<lambda>g. 0 \<le> seg_size_bytes g) gs \<Longrightarrow> 0 \<le> cursor \<Longrightarrow>
   cursor + sum_list (map seg_size_bytes gs) \<le> int (length data) \<Longrightarrow>
   write_segments d gs cursor data s = ret stop s' \<Longrightarrow>
   stop = cursor + sum_list (map seg_size_bytes gs) \<and> list_all (\<lambda>g. 0 \<le> seg_address g) gs
     \<and> s' = mem.scatter d (seg_pairs gs) (drop (nat cursor) data) s"
proof (induction gs arbitrary: cursor s)
  case (Cons g gs)
  let ?n = "seg_size_bytes g" and ?xs = "py_slice cursor (cursor + seg_size_bytes g) data"
  have pos: "0 \<le> ?n" "0 \<le> sum_list (map seg_size_bytes gs)"
    using Cons.prems(2) by (auto simp: list_all_iff intro!: sum_list_nonneg)
  have xs: "?xs = take (nat ?n) (drop (nat cursor) data)"
    using Cons.prems(3,4) pos by (simp add: py_slice_inside nat_add_distrib)
  have a: "0 \<le> seg_address g" using Cons.prems(1,5) by (auto simp: bs_write_poke split: if_splits)
  let ?s = "poke_bytes d (nat (seg_address g)) ?xs s"
  have r: "write_segments d gs (cursor + ?n) data ?s = ret stop s'"
    using Cons.prems(1,5) a by (simp add: bs_write_poke)
  have "drop (nat ?n) (drop (nat cursor) data) = drop (nat (cursor + ?n)) data"
    using Cons.prems(3) pos(1) by (simp add: nat_add_distrib add.commute)
  with Cons.IH [OF poke_bytes_ok(2) [OF Cons.prems(1)] _ _ _ r] Cons.prems(2-4) pos a xs
  show ?case by (simp add: algebra_simps)
qed simp

lemma read_segments_gather:
  "store_wf s \<Longrightarrow> list_all (\<lambda>g. 0 \<le> seg_size_bytes g \<and> 0 \<le> seg_address g) gs \<Longrightarrow>
   mem.gather d (seg_pairs gs) s = Some xs \<Longrightarrow> read_segments d gs s = Inr xs"
proof (induction gs arbitrary: xs)
  case (Cons g gs)
  then show ?case by (auto simp: bs_read_load split: option.splits)
qed simp

lemma view_error_bindings: "bs_bindings t = bs_bindings s \<Longrightarrow> view_error v p t = view_error v p s"
  unfolding view_error_def binding_for_view_def by presburger

lemma write_view_read_view:
  assumes wf: "store_wf s" and w: "write_view v data s = ret () s'"
    and segs: "list_all (\<lambda>g. 0 \<le> seg_size_bytes g) (vw_segments v)" "segments_apart (seg_pairs (vw_segments v))"
      "sum_list (map seg_size_bytes (vw_segments v)) = vw_size_bytes v"
    and r: "view_error v CHR ''r'' s = None"
  shows "read_view v s' = Inr data"
proof -
  let ?d = "domain_for_view v" and ?gs = "vw_segments v"
  have len: "int (length data) = vw_size_bytes v" "view_error v CHR ''w'' s = None"
    using w by (auto simp: write_view_def split: if_splits option.splits)
  then obtain stop where ws: "write_segments ?d ?gs 0 data s = ret stop s'"
    using w by (auto simp: write_view_def and_then_def split: prod.splits sum.splits if_splits)
  from write_segments_scatter [OF wf segs(1) _ _ ws] segs(3) len(1)
  have sc: "list_all (\<lambda>g. 0 \<le> seg_address g) ?gs" "s' = mem.scatter ?d (seg_pairs ?gs) data s" by simp_all
  have "int (sum_list (map snd (seg_pairs gs))) = sum_list (map seg_size_bytes gs)"
    if "list_all (\<lambda>g. 0 \<le> seg_size_bytes g) gs" for gs using that by (induction gs) auto
  from this [OF segs(1)] segs(3) len(1) have "sum_list (map snd (seg_pairs ?gs)) = length data" by linarith
  from mem.gather_scatter [OF wf segs(2) this] sc(2) have g: "mem.gather ?d (seg_pairs ?gs) s' = Some data" by simp
  have s': "store_wf s'" "bs_bindings s' = bs_bindings s"
    using mem.ok_scatter [OF wf] same_rest_fields(2) [OF scatter_same_rest [OF wf]] sc(2) by simp_all
  have "read_segments ?d ?gs s' = Inr data"
    using read_segments_gather [OF s'(1) _ g] segs(1) sc(1) by (simp add: list_all_iff)
  then show ?thesis using r len(1) by (simp add: read_view_def view_error_bindings [OF s'(2)])
qed


section \<open>Every operation keeps the pages well formed\<close>

text \<open>
  The operations that never touch pages (bindings, seeds, caches) and those that do are
  treated alike by the outcome logic: all but the two registration operations also leave
  the table of bindings alone.
\<close>

interpretation bs_logic: outcome_logic store_wf "\<lambda>s t. bs_bindings t = bs_bindings s"
  by unfold_locales simp_all

abbreviation bs_keeps :: "byte_store \<Rightarrow> 'a bs_result \<Rightarrow> bool" where
  "bs_keeps \<equiv> bs_logic.keeps"

named_theorems bs_intros

lemma store_wf_frame [simp]:
  "store_wf (s\<lparr>bs_bindings := b\<rparr>) = store_wf s" "store_wf (s\<lparr>bs_seed_ranges := r\<rparr>) = store_wf s"
  "store_wf (s\<lparr>bs_caches := c\<rparr>) = store_wf s" "store_wf (s\<lparr>bs_heap := h\<rparr>) = store_wf s"
  "store_wf (s\<lparr>bs_pending_cache_seeds := p\<rparr>) = store_wf s" "store_wf (s\<lparr>bs_seeded_cache_keys := k\<rparr>) = store_wf s"
  by (simp_all add: store_wf_def)

lemma bs_keeps_ret: "(store_wf s \<Longrightarrow> store_wf t \<and> bs_bindings t = bs_bindings s) \<Longrightarrow> bs_keeps s (v, t)"
  by (simp add: bs_logic.keeps_def)

lemmas bs_rules = bs_logic.keeps_same bs_logic.keeps_and_then bs_logic.keeps_if bs_logic.keeps_opt bs_logic.keeps_sum

lemma bs_write_keeps [bs_intros]: "bs_keeps s (bs_write d a xs s)"
  by (simp add: bs_logic.keeps_def bs_write_poke poke_bytes_ok(2) same_rest_fields(2) [OF poke_bytes_ok(3)])

lemma clear_loop_keeps [bs_intros]: "bs_keeps s (clear_loop a n 0 s)"
  using clear_loop_ok [of s 0 n a] by (auto simp: bs_logic.keeps_def same_rest_fields(2) [of s])

lemma on_cache_keeps [bs_intros]: "bs_keeps s (on_cache a f s)"
  by (auto simp: bs_logic.keeps_def on_cache_def split: prod.splits)

lemma seed_hbm_keeps [bs_intros]: "bs_keeps s (seed_hbm a xs c s)"
  unfolding seed_hbm_def by (intro bs_rules bs_intros bs_keeps_ret) simp

lemma register_cache_keeps [bs_intros]: "bs_keeps s (register_cache l k a s)"
  by (simp add: bs_logic.keeps_def register_cache_def)

lemma register_wf: "store_wf s \<Longrightarrow> store_wf (snd (register_hbm_binding h p s))"
  "store_wf s \<Longrightarrow> store_wf (snd (unregister_hbm_binding n i g s))"
  by (auto simp: register_hbm_binding_def unregister_hbm_binding_def Let_def split: memory_owner.splits option.splits)

lemma seed_one_keeps [bs_intros]: "bs_keeps s (seed_one spec a b s)"
  unfolding seed_one_def by (intro bs_rules bs_intros bs_keeps_ret) simp

lemma seed_all_keeps [bs_intros]: "bs_keeps s (seed_all ps s)"
  by (induction ps arbitrary: s) (auto intro!: bs_rules bs_intros)

lemma flush_keeps [bs_intros]: "bs_keeps s (flush_pending_cache_seeds s)"
  unfolding flush_pending_cache_seeds_def by (intro bs_rules bs_intros bs_keeps_ret) simp

lemma validate_keeps [bs_intros]: "bs_keeps s (validate_seed_coverage s)"
  unfolding validate_seed_coverage_def by (intro bs_rules bs_intros bs_keeps_ret) simp

lemma seed_cache_line_keeps [bs_intros]: "bs_keeps s (seed_cache_line spec s)"
  unfolding seed_cache_line_def Let_def
  by (intro bs_rules bs_intros bs_keeps_ret; (simp split: prod.splits)?) (auto intro!: bs_rules bs_intros)

lemma write_segments_keeps [bs_intros]: "bs_keeps s (write_segments d gs c xs s)"
  by (induction gs arbitrary: c s) (auto intro!: bs_rules bs_intros)

lemma write_view_keeps [bs_intros]: "bs_keeps s (write_view v xs s)"
  unfolding write_view_def by (intro bs_rules bs_intros)

lemma write_view_checked_keeps [bs_intros]: "bs_keeps s (write_view_checked v xs m s)"
  unfolding write_view_checked_def by (intro bs_rules bs_intros)

lemma clear_ranges_keeps [bs_intros]: "bs_keeps s (clear_ranges rs s)"
  by (induction rs s rule: clear_ranges.induct) (auto intro!: bs_rules bs_intros)

lemma clear_hbm_keeps [bs_intros]: "bs_keeps s (clear_hbm_validity h off n gs s)"
  unfolding clear_hbm_validity_def by (intro bs_rules bs_intros)

lemma maintain_caches_keeps [bs_intros]: "bs_keeps s (maintain_caches r as s)"
  by (induction as arbitrary: s) (auto intro!: bs_rules bs_intros)

lemma clear_cache_keeps [bs_intros]: "bs_keeps s (clear_cache_validity i g off n s)"
  unfolding clear_cache_validity_def by (intro bs_rules bs_intros)

lemma invalidate_keeps [bs_intros]: "bs_keeps s (invalidate_view v s)" "bs_keeps s (invalidate_binding_range h off n s)"
  unfolding invalidate_view_def invalidate_binding_range_def Let_def by (intro bs_rules bs_intros)+

datatype bs_op =
    BsSeed int bytes "int option"
  | BsBind mem_handle string
  | BsUnbind string string int
  | BsValidate
  | BsRegisterCache string int nat
  | BsSeedCache seed_spec
  | BsWrite resolved_view bytes
  | BsWriteChecked resolved_view bytes "bytes option"
  | BsInvalidateView resolved_view
  | BsInvalidateRange mem_handle int int

fun bs_exec :: "bs_op \<Rightarrow> byte_store \<Rightarrow> byte_store" where
  "bs_exec (BsSeed a xs c) s = snd (seed_hbm a xs c s)"
| "bs_exec (BsBind h p) s = snd (register_hbm_binding h p s)"
| "bs_exec (BsUnbind n i g) s = snd (unregister_hbm_binding n i g s)"
| "bs_exec BsValidate s = snd (validate_seed_coverage s)"
| "bs_exec (BsRegisterCache l k a) s = snd (register_cache l k a s)"
| "bs_exec (BsSeedCache spec) s = snd (seed_cache_line spec s)"
| "bs_exec (BsWrite v xs) s = snd (write_view v xs s)"
| "bs_exec (BsWriteChecked v xs m) s = snd (write_view_checked v xs m s)"
| "bs_exec (BsInvalidateView v) s = snd (invalidate_view v s)"
| "bs_exec (BsInvalidateRange h off n) s = snd (invalidate_binding_range h off n s)"

interpretation bs: total_machine bs_exec store_wf
proof unfold_locales
  show "store_wf (bs_exec x s)" if "store_wf s" for s x
    using that bs_intros [unfolded bs_logic.keeps_def] register_wf by (cases x) simp_all
qed

lemma bs_exec_bindings:
  assumes "store_wf s" "\<forall>h p. x \<noteq> BsBind h p" "\<forall>n i g. x \<noteq> BsUnbind n i g"
  shows "bs_bindings (bs_exec x s) = bs_bindings s"
proof (cases x)
  case (BsBind h p)
  with assms(2) show ?thesis by blast
next
  case (BsUnbind n i g)
  with assms(3) show ?thesis by blast
qed (use assms(1) bs_intros [unfolded bs_logic.keeps_def] in simp_all)

lemma bs_new_wf: "bs_new n h = Inr s \<Longrightarrow> store_wf s"
  by (auto simp: bs_new_def store_wf_def split: if_splits)

section \<open>Coverage of host seeds\<close>

lemma find_mem: "find P xs = Some x \<Longrightarrow> x \<in> set xs"
  by (induction xs) (auto split: if_splits)

lemma cover_loop_iff:
  "cover_loop cursor stop bs \<longleftrightarrow> (\<forall>a. cursor \<le> a \<and> a < stop \<longrightarrow> (\<exists>b \<in> snd ` set bs. bd_base b \<le> a \<and> a < bd_end b))"
proof (induction cursor stop bs rule: cover_loop.induct)
  case (1 cursor stop bs)
  have none: "binding_at a bs = None \<longleftrightarrow> \<not> (\<exists>b \<in> snd ` set bs. bd_base b \<le> a \<and> a < bd_end b)" for a
    by (auto simp: binding_at_def find_None_iff)
  show ?case
  proof (cases "stop \<le> cursor")
    case True
    then show ?thesis by (subst cover_loop.simps) auto
  next
    case False
    show ?thesis
    proof (cases "binding_at cursor bs")
      case None
      have "\<not> cover_loop cursor stop bs" using None False by (subst cover_loop.simps) simp
      moreover have "cursor \<le> cursor \<and> cursor < stop" using False by simp
      ultimately show ?thesis using none [of cursor] None by blast
    next
      case (Some b)
      then have b: "b \<in> snd ` set bs" "bd_base b \<le> cursor" "cursor < bd_end b"
        using binding_at_Some [OF Some] find_mem [OF Some [unfolded binding_at_def]] by simp_all
      have "(\<exists>b \<in> snd ` set bs. bd_base b \<le> a \<and> a < bd_end b)" if "cursor \<le> a" "a < bd_end b" for a
        using b that by force
      then have "(\<exists>b \<in> snd ` set bs. bd_base b \<le> a \<and> a < bd_end b)" if "cursor \<le> a" "a < min stop (bd_end b)" for a
        using that by simp
      moreover have "cover_loop cursor stop bs = cover_loop (min stop (bd_end b)) stop bs"
        using False Some by (subst cover_loop.simps) simp
      moreover have "cursor \<le> min stop (bd_end b)" using False b(3) by simp
      ultimately show ?thesis using 1 [OF False Some] by (meson le_less_linear order_trans)
    qed
  qed
qed


section \<open>Invalidation reaches the caches\<close>

definition range_hits :: "cache_range \<Rightarrow> cache_line \<Rightarrow> bool" where
  "range_hits r l \<longleftrightarrow> cr_allocation_id r = pv_allocation_id (cl_provenance l)
     \<and> cr_allocation_generation r = pv_allocation_generation (cl_provenance l)
     \<and> cr_offset r < pv_end_offset (cl_provenance l) \<and> pv_source_offset (cl_provenance l) < cr_end r"

lemma remove_line_lines:
  "lc_lines (snd (remove_line i c)) = dict_del i (lc_lines c)" "lc_capacity_lines (snd (remove_line i c)) = lc_capacity_lines c"
  by (auto simp: remove_line_def Let_def unindex_token_def dict_get_None_iff split: option.splits)

definition shrinks :: "lru_cache \<Rightarrow> lru_cache \<Rightarrow> bool" where
  "shrinks c d \<longleftrightarrow> lc_capacity_lines d = lc_capacity_lines c
     \<and> (\<forall>i l. dict_get (lc_lines d) i = Some l \<longrightarrow> dict_get (lc_lines c) i = Some l)"

lemma shrinks_refl: "shrinks c c" by (simp add: shrinks_def)

lemma shrinks_trans: "shrinks c d \<Longrightarrow> shrinks d e \<Longrightarrow> shrinks c e" by (simp add: shrinks_def)

lemma remove_line_shrinks: "remove_line i c = (r, d) \<Longrightarrow> shrinks c d \<and> dict_get (lc_lines d) i = None"
  using remove_line_lines [of i c] by (auto simp: shrinks_def dict_simps split: if_splits)

lemma maintain_drops:
  "shrinks c (snd (maintain idx False True ls c)) \<and>
   (is_ok (maintain idx False True ls c) \<longrightarrow> (i, l) \<in> set ls \<longrightarrow> selected idx l \<longrightarrow> cl_pending_clean l = None \<longrightarrow>
      dict_get (lc_lines (snd (maintain idx False True ls c))) i = None)"
proof (induction ls arbitrary: c)
  case (Cons p ls)
  obtain j k where p: "p = (j, k)" by (cases p)
  obtain r d where d: "remove_line j c = (r, d)" by (cases "remove_line j c")
  note rem = remove_line_shrinks [OF d]
  have after: "dict_get (lc_lines (snd (maintain idx False True ls d))) j = None"
    using Cons.IH [of d] rem by (metis not_Some_eq shrinks_def)
  consider (skip) "\<not> selected idx k \<or> cl_pending_clean k \<noteq> None" | (dirty) "selected idx k" "cl_pending_clean k = None" "cl_dirty k"
    | (drop) "selected idx k" "cl_pending_clean k = None" "\<not> cl_dirty k" by blast
  then show ?case
  proof cases
    case skip
    then have "maintain idx False True (p # ls) c = maintain idx False True ls c" by (auto simp: p)
    with skip Cons.IH [of c] show ?thesis by (auto simp: p)
  next
    case dirty
    then show ?thesis by (simp add: p shrinks_refl)
  next
    case drop
    then have eq: "maintain idx False True (p # ls) c = and_then (r, d) (\<lambda>_ c. maintain idx False True ls c)"
      by (simp add: p d)
    show ?thesis
    proof (cases r)
      case (Inl e)
      then show ?thesis using eq rem by simp
    next
      case (Inr u)
      then show ?thesis using eq rem Cons.IH [of d] after p by (auto intro: shrinks_trans)
    qed
  qed
qed (simp add: shrinks_refl)

lemma begin_maintenance_drops:
  assumes "begin_maintenance (Some [r]) False True c = (v, d)"
  shows "shrinks c d" and "v = Inr x \<Longrightarrow> dict_get (lc_lines d) i = Some l \<Longrightarrow> range_hits r l \<Longrightarrow> cl_pending_clean l \<noteq> None"
proof -
  let ?m = "maintain (Some (interval_index [r])) False True (lc_lines c) c"
  have m: "?m = (v, d)" using assms by (simp add: begin_maintenance_def)
  note drops = maintain_drops [of c "Some (interval_index [r])" "lc_lines c", unfolded m]
  show sh: "shrinks c d" using drops by simp
  assume v: "v = Inr x" and l: "dict_get (lc_lines d) i = Some l" and hit: "range_hits r l"
  have "(i, l) \<in> set (lc_lines c)" using sh l by (auto simp: shrinks_def intro: dict_get_in_set)
  moreover have "selected (Some (interval_index [r])) l" using hit by (simp add: selected_iff range_hits_def)
  ultimately show "cl_pending_clean l \<noteq> None" using drops [of i l] v l by auto
qed

definition only_heap :: "byte_store \<Rightarrow> byte_store \<Rightarrow> bool" where
  "only_heap s t \<longleftrightarrow> t = s\<lparr>bs_heap := bs_heap t\<rparr>"

lemma only_heap_refl: "only_heap s s" by (simp add: only_heap_def)

lemma only_heap_step: "only_heap (s\<lparr>bs_heap := h\<rparr>) t \<Longrightarrow> only_heap s t" by (simp add: only_heap_def)

lemma only_heap_fields:
  assumes "only_heap s t"
  shows "bs_caches t = bs_caches s" "bs_bindings t = bs_bindings s" "store_wf t = store_wf s" "byte_at t = byte_at s"
  using assms by (cases s; cases t; simp add: only_heap_def store_wf_def byte_at_def fun_eq_iff)+

lemma maintain_caches_drops:
  assumes "maintain_caches r as s = ret () s'"
  shows "(\<forall>a. shrinks (bs_heap s a) (bs_heap s' a)) \<and> only_heap s s'
     \<and> (\<forall>a \<in> set as. lc_enabled (bs_heap s' a) \<longrightarrow>
          (\<forall>i l. dict_get (lc_lines (bs_heap s' a)) i = Some l \<and> range_hits r l \<longrightarrow> cl_pending_clean l \<noteq> None))"
  using assms
proof (induction as arbitrary: s)
  case (Cons a as)
  show ?case
  proof (cases "lc_enabled (bs_heap s a)")
    case False
    then have r: "maintain_caches r as s = ret () s'" using Cons.prems by simp
    have "shrinks (bs_heap s a) (bs_heap s' a)" using Cons.IH [OF r] by blast
    with False have "\<not> lc_enabled (bs_heap s' a)" by (simp add: shrinks_def lc_enabled_def)
    with Cons.IH [OF r] show ?thesis by auto
  next
    case True
    obtain v d where d: "begin_maintenance (Some [r]) False True (bs_heap s a) = (v, d)" by fastforce
    let ?s = "s\<lparr>bs_heap := (bs_heap s)(a := d)\<rparr>"
    obtain x where v: "v = Inr x" and r: "maintain_caches r as ?s = ret () s'"
      using Cons.prems True d by (cases v) (auto simp: on_cache_def)
    note drops = begin_maintenance_drops [OF d]
    note IH = Cons.IH [OF r]
    have sh: "shrinks d (bs_heap s' a)" using spec [OF conjunct1 [OF IH], of a] by simp
    have "shrinks (bs_heap s b) (bs_heap s' b)" for b
      using IH drops(1) by (cases "b = a") (auto intro: shrinks_trans dest!: spec [of _ b])
    moreover have "cl_pending_clean l \<noteq> None" if "dict_get (lc_lines (bs_heap s' a)) i = Some l" "range_hits r l" for i l
      using drops(2) [OF v _ that(2), of i] sh that(1) unfolding shrinks_def by blast
    ultimately show ?thesis using IH only_heap_step by auto
  qed
qed (simp add: shrinks_refl only_heap_refl)

lemma invalidate_range_effect:
  assumes wf: "store_wf s" and inv: "invalidate_binding_range h off n s = ret () s'"
  shows "store_wf s'"
    "byte_at s' d a = (if d = ''hbm'' \<and> hd_base_address h + off \<le> int a \<and> int a < hd_base_address h + off + n
                       then None else byte_at s d a)"
    "(k, c) \<in> set (bs_caches s') \<Longrightarrow> lc_enabled (bs_heap s' c) \<Longrightarrow> dict_get (lc_lines (bs_heap s' c)) i = Some l \<Longrightarrow>
     range_hits \<lparr>cr_allocation_id = hd_allocation_id h, cr_allocation_generation = hd_generation h, cr_offset = off, cr_bytes = n\<rparr> l
     \<Longrightarrow> cl_pending_clean l \<noteq> None"
proof -
  let ?a = "hd_base_address h + off"
  let ?r = "\<lparr>cr_allocation_id = hd_allocation_id h, cr_allocation_generation = hd_generation h, cr_offset = off, cr_bytes = n\<rparr>"
  obtain s1 where s1: "clear_loop ?a (nat n) 0 s = ret () s1" "store_wf s1"
    "\<And>d a. byte_at s1 d a = (if d = ''hbm'' \<and> ?a \<le> int a \<and> int a < ?a + int (nat n) then None else byte_at s d a)"
    using clear_loop_ok [OF wf, of 0 "nat n" ?a] by auto
  have n: "0 < n" "maintain_caches ?r (dict_values (bs_caches s1)) s1 = ret () s'"
    using inv s1(1) by (auto simp: invalidate_binding_range_def clear_hbm_validity_def clear_cache_validity_def split: if_splits)
  note m = maintain_caches_drops [OF n(2)]
  note f = only_heap_fields [OF conjunct1 [OF conjunct2 [OF m]]]
  show "store_wf s'" using s1(2) f(3) by simp
  show "byte_at s' d a = (if d = ''hbm'' \<and> ?a \<le> int a \<and> int a < ?a + n then None else byte_at s d a)"
    using s1(3) [of d a] f(4) n(1) by simp
  assume "(k, c) \<in> set (bs_caches s')" "lc_enabled (bs_heap s' c)" "dict_get (lc_lines (bs_heap s' c)) i = Some l" "range_hits ?r l"
  moreover from this(1) have "c \<in> set (dict_values (bs_caches s1))" using f(1) by force
  ultimately show "cl_pending_clean l \<noteq> None" using m by blast
qed


section \<open>Properties\<close>

definition demo_handle :: mem_handle where
  "demo_handle = \<lparr>hd_allocation_id = ''global:in:1'', hd_memory_space = ''hbm'', hd_owner = ExternalOwner ''in'',
     hd_base_address = 6, hd_size_bytes = 10, hd_alignment = 1,
     hd_bank_segments = [\<lparr>seg_bank_id = 0, seg_address = 6, seg_size_bytes = 10\<rparr>],
     hd_generation = 1, hd_allocate_cycle = 0, hd_arena_id = '''', hd_profile_generation = 0, hd_backing_id = ''''\<rparr>"

definition demo_view :: resolved_view where
  "demo_view = \<lparr>vw_handle = demo_handle, vw_offset_bytes = 0, vw_size_bytes = 6, vw_address = 6,
     vw_segments = [\<lparr>seg_bank_id = 0, seg_address = 9, seg_size_bytes = 3\<rparr>, \<lparr>seg_bank_id = 0, seg_address = 6, seg_size_bytes = 3\<rparr>],
     vw_permissions = ''rw''\<rparr>"

definition demo_store :: byte_store where
  "demo_store = projr (bs_new 4 (\<lambda>_. demo_cache))"

definition demo_store_ops :: "bs_op list" where
  "demo_store_ops = [BsSeed 6 [10, 11, 12, 13, 14, 15, 16, 17, 18, 19] None, BsBind demo_handle ''rw'']"

lemma demo_store_new: "bs_new 4 (\<lambda>_. demo_cache) = Inr demo_store"
  by (simp add: demo_store_def bs_new_def)

text \<open>C4. The sparse page store refines a flat partial byte memory: after any sequence of
  operations a write of any length at any non-negative address succeeds and changes exactly
  its bytes, however it crosses page borders, and a read returns exactly the stored bytes
  when all of them are initialised and fails otherwise.
\<close>

theorem page_store_refines_memory:
  assumes "bs_new page heap = Inr s0" and "s = run_ops bs_exec ops s0" and "0 \<le> a"
  shows "(\<exists>s'. bs_write d a xs s = ret () s' \<and>
       (\<forall>e b. byte_at s' e b = (if e = d \<and> nat a \<le> b \<and> b < nat a + length xs then Some (xs ! (b - nat a)) else byte_at s e b)))
     \<and> bs_read d a (int n) s =
         (if \<forall>i<n. byte_at s d (nat a + i) \<noteq> None then Inr (map (\<lambda>i. the (byte_at s d (nat a + i))) [0..<n])
          else Inl (MemoryInvariantError ''byte oracle read includes uninitialised bytes''))"
proof -
  have wf: "store_wf s" unfolding assms(2) by (rule bs.any_run_inv [OF bs_new_wf [OF assms(1)]])
  have "load_bytes d (nat a) n s =
     (if \<forall>i<n. byte_at s d (nat a + i) \<noteq> None then Some (map (\<lambda>i. the (byte_at s d (nat a + i))) [0..<n]) else None)"
  proof (cases "\<forall>i<n. byte_at s d (nat a + i) \<noteq> None")
    case True
    then show ?thesis by (auto simp: load_bytes_iff [OF wf])
  next
    case False
    then have "load_bytes d (nat a) n s \<noteq> Some xs" for xs unfolding load_bytes_iff [OF wf] by auto
    with False show ?thesis by (metis not_None_eq)
  qed
  then show ?thesis
    using bs_write_poke [OF wf, of d a xs] poke_bytes_ok(4) [OF wf] assms(3) bs_read_load [OF wf assms(3), of "int n" d] by auto
qed

theorem page_store_refines_memory_witness:
  "bs_read ''hbm'' 6 (int 10) (run_ops bs_exec demo_store_ops demo_store) = Inr [10, 11, 12, 13, 14, 15, 16, 17, 18, 19]"
proof -
  have "list_all (\<lambda>i. byte_at (run_ops bs_exec demo_store_ops demo_store) ''hbm'' (6 + i) = Some (10 + int i)) [0..<10]"
    by code_simp
  then have b: "byte_at (run_ops bs_exec demo_store_ops demo_store) ''hbm'' (6 + i) = Some (10 + int i)" if "i < 10" for i
    using that by (simp add: list_all_iff)
  have "map (\<lambda>i. the (byte_at (run_ops bs_exec demo_store_ops demo_store) ''hbm'' (6 + i))) [0..<10] = map (\<lambda>i. 10 + int i) [0..<10]"
    using b by simp
  also have "\<dots> = [10, 11, 12, 13, 14, 15, 16, 17, 18, 19]" by code_simp
  finally show ?thesis
    using conjunct2 [OF page_store_refines_memory [OF demo_store_new refl, of 6 "''hbm''" "[]" demo_store_ops 10]] b by simp
qed

text \<open>C32. A device write through a resolved view is read back byte for byte through the same
  view: for any placement over disjoint segments that cover the view, once the write has
  succeeded the read (where the binding grants it) returns the written bytes.
\<close>

theorem view_round_trip:
  assumes "bs_new page heap = Inr s0" and "s = run_ops bs_exec ops s0"
    and "write_view v data s = ret () s'" and "view_error v CHR ''r'' s = None"
    and "list_all (\<lambda>g. 0 \<le> seg_size_bytes g) (vw_segments v)" and "segments_apart (seg_pairs (vw_segments v))"
    and "sum_list (map seg_size_bytes (vw_segments v)) = vw_size_bytes v"
  shows "read_view v s' = Inr data"
proof -
  have "store_wf s" unfolding assms(2) by (rule bs.any_run_inv [OF bs_new_wf [OF assms(1)]])
  from write_view_read_view [OF this assms(3) assms(5-7,4)] show ?thesis .
qed

theorem view_round_trip_witness:
  "read_view demo_view (bs_exec (BsWrite demo_view [1, 2, 3, 4, 5, 6]) (run_ops bs_exec demo_store_ops demo_store)) = Inr [1, 2, 3, 4, 5, 6]"
proof -
  let ?s = "run_ops bs_exec demo_store_ops demo_store"
  have "fst (write_view demo_view [1, 2, 3, 4, 5, 6] ?s) = Inr ()" by code_simp
  then have "write_view demo_view [1, 2, 3, 4, 5, 6] ?s = ret () (bs_exec (BsWrite demo_view [1, 2, 3, 4, 5, 6]) ?s)"
    by (cases "write_view demo_view [1, 2, 3, 4, 5, 6] ?s") simp
  then show ?thesis
    by (rule view_round_trip [OF demo_store_new refl]) code_simp+
qed

text \<open>An invalidated range is gone for every reader: after a successful invalidation no read
  that touches a byte of the range succeeds, every other byte keeps its value, and no
  enabled registered cache still holds a line of the same allocation generation that
  overlaps the range, unless that line waits for its write-back.
\<close>

theorem invalidated_bytes_gone:
  assumes "bs_new page heap = Inr s0" and "s = run_ops bs_exec ops s0"
    and "invalidate_binding_range h off n s = ret () s'"
  shows "(\<forall>a m. 0 \<le> a \<longrightarrow> 0 < m \<longrightarrow> a < hd_base_address h + off + n \<longrightarrow> hd_base_address h + off < a + m \<longrightarrow> (\<exists>e. read_hbm a m s' = Inl e))
     \<and> (\<forall>d a. d \<noteq> ''hbm'' \<or> int a < hd_base_address h + off \<or> hd_base_address h + off + n \<le> int a
            \<longrightarrow> byte_at s' d a = byte_at s d a)
     \<and> (\<forall>k c i l. (k, c) \<in> set (bs_caches s') \<and> lc_enabled (bs_heap s' c) \<and> dict_get (lc_lines (bs_heap s' c)) i = Some l
            \<and> range_hits \<lparr>cr_allocation_id = hd_allocation_id h, cr_allocation_generation = hd_generation h, cr_offset = off, cr_bytes = n\<rparr> l
            \<longrightarrow> cl_pending_clean l \<noteq> None)"
proof -
  have wf: "store_wf s" unfolding assms(2) by (rule bs.any_run_inv [OF bs_new_wf [OF assms(1)]])
  note eff = invalidate_range_effect [OF wf assms(3)]
  let ?b = "hd_base_address h + off"
  have "\<exists>e. read_hbm a m s' = Inl e" if "0 \<le> a" "0 < m" "a < ?b + n" "?b < a + m" for a m
  proof -
    let ?i = "nat (max a ?b - a)"
    have "0 < n" using assms(3) by (auto simp: invalidate_binding_range_def split: if_splits)
    then have i: "?i < nat m" "?b \<le> int (nat a + ?i)" "int (nat a + ?i) < ?b + n" using that by (auto simp: max_def)
    with eff(2) [of "''hbm''" "nat a + ?i"] have "byte_at s' ''hbm'' (nat a + ?i) = None" by simp
    with i(1) have "load_bytes ''hbm'' (nat a) (nat m) s' \<noteq> Some xs" for xs
      using load_bytes_iff [OF eff(1), of "''hbm''" "nat a" "nat m" xs] by auto
    then have "load_bytes ''hbm'' (nat a) (nat m) s' = None" by (meson not_Some_eq)
    with that(1,2) show ?thesis by (simp add: read_hbm_def bs_read_load [OF eff(1)])
  qed
  moreover have "byte_at s' d a = byte_at s d a" if "d \<noteq> ''hbm'' \<or> int a < ?b \<or> ?b + n \<le> int a" for d a
    using eff(2) [of d a] that by auto
  ultimately show ?thesis using eff(3) by blast
qed

theorem invalidated_bytes_gone_witness:
  "\<exists>e. read_hbm 6 4 (bs_exec (BsInvalidateRange demo_handle 2 4) (run_ops bs_exec demo_store_ops demo_store)) = Inl e"
proof -
  let ?s = "run_ops bs_exec demo_store_ops demo_store"
  have "fst (invalidate_binding_range demo_handle 2 4 ?s) = Inr ()" by code_simp
  then have "invalidate_binding_range demo_handle 2 4 ?s = ret () (bs_exec (BsInvalidateRange demo_handle 2 4) ?s)"
    by (cases "invalidate_binding_range demo_handle 2 4 ?s") simp
  from conjunct1 [OF invalidated_bytes_gone [OF demo_store_new refl this]]
  show ?thesis by (simp add: demo_handle_def)
qed

text \<open>C33. The seed coverage walk decides coverage: it ends on every input and accepts exactly
  when every host-seeded HBM byte lies inside some launch binding.
\<close>

theorem seed_coverage_exact:
  "list_all (\<lambda>(start, stop). cover_loop start stop (bs_bindings s)) (bs_seed_ranges s) \<longleftrightarrow>
     \<not> (\<exists>start stop a. (start, stop) \<in> set (bs_seed_ranges s) \<and> start \<le> a \<and> a < stop
         \<and> \<not> (\<exists>name b. (name, b) \<in> set (bs_bindings s) \<and> bd_base b \<le> a \<and> a < bd_end b))"
  by (auto simp: list_all_iff cover_loop_iff split: prod.splits) (force, force)

end
