(* ===== verification/Hbm_Region.thy ===== *)
theory Hbm_Region
  imports Byte_Safety
begin

declare map_of_eq_Some_iff [simp del] Some_eq_map_of_iff [simp del]

text \<open>
  The HBM region of \<open>src/pipeline_validator/memory/hbm_region.py\<close>: external bindings with
  generations, their permission checks, outstanding credits, and the registration of every
  binding with the byte store. The bandwidth figure is a float and, like tracing and the
  report snapshot, is left out.
\<close>

section \<open>Model\<close>

record hbm_region =
  hr_base_iova :: int
  hr_size_bytes :: int
  hr_outstanding_limit :: int
  hr_byte_store :: "byte_store option"
  hr_bindings :: "(string, mem_handle) dict"
  hr_permissions :: "(string, string) dict"
  hr_by_allocation_id :: "(string, mem_handle) dict"
  hr_next_generation :: int
  hr_outstanding :: int

type_synonym 'a hr_result = "(hbm_region, 'a) outcome"

abbreviation hr_error :: "string \<Rightarrow> hbm_region \<Rightarrow> 'a hr_result" where
  "hr_error msg r \<equiv> raise (MemoryInvariantError msg) r"

definition hr_new :: "int \<Rightarrow> int \<Rightarrow> int \<Rightarrow> byte_store option \<Rightarrow> hbm_region" where
  "hr_new base n limit store =
     \<lparr>hr_base_iova = base, hr_size_bytes = n, hr_outstanding_limit = limit, hr_byte_store = store,
      hr_bindings = [], hr_permissions = [], hr_by_allocation_id = [], hr_next_generation = 0, hr_outstanding = 0\<rparr>"

definition with_store :: "(byte_store \<Rightarrow> unit bs_result) \<Rightarrow> hbm_region \<Rightarrow> unit hr_result" where
  "with_store f r =
     (case hr_byte_store r of
        None \<Rightarrow> ret () r
      | Some s \<Rightarrow> (case f s of (v, t) \<Rightarrow> (v, r\<lparr>hr_byte_store := Some t\<rparr>)))"

definition external_handle :: "string \<Rightarrow> int \<Rightarrow> int \<Rightarrow> int \<Rightarrow> int \<Rightarrow> mem_handle" where
  "external_handle name base n gen cycle =
     \<lparr>hd_allocation_id = ''global:'' @ name @ '':'' @ show_int gen, hd_memory_space = ''hbm'',
      hd_owner = ExternalOwner name, hd_base_address = base, hd_size_bytes = n, hd_alignment = 1,
      hd_bank_segments = [\<lparr>seg_bank_id = 0, seg_address = base, seg_size_bytes = n\<rparr>],
      hd_generation = gen, hd_allocate_cycle = cycle, hd_arena_id = '''', hd_profile_generation = 0,
      hd_backing_id = ''''\<rparr>"

definition bind_external :: "string \<Rightarrow> int \<Rightarrow> int \<Rightarrow> string \<Rightarrow> int \<Rightarrow> hbm_region \<Rightarrow> mem_handle hr_result" where
  "bind_external name base n permissions cycle r =
     (if name = '''' then raise (ValueError ''input binding name must be non-empty'') r
      else if dict_get (hr_bindings r) name \<noteq> None then raise (ValueError ''input binding is already bound'') r
      else if \<not> valid_permissions permissions then raise (ValueError ''input binding has invalid permissions'') r
      else if n \<le> 0 then raise (ValueError ''input binding size must be > 0'') r
      else if base < hr_base_iova r then raise (ValueError ''input binding base is below HBM region'') r
      else if base + n > hr_base_iova r + hr_size_bytes r then raise (ValueError ''input binding exceeds HBM capacity'') r
      else if list_ex (\<lambda>(k, h). base < end_address h \<and> hd_base_address h < base + n) (hr_bindings r)
      then raise (ValueError ''input binding overlaps existing binding'') r
      else if hr_next_generation r \<ge> 2 ^ 64 - 1 then
        (if hr_bindings r \<noteq> [] \<or> hr_outstanding r \<noteq> 0
         then hr_error ''HBM binding generation exhausted before quiescence'' r
         else hr_error ''HBM binding generation exhausted; explicit recovery required'' r)
      else
        let gen = hr_next_generation r + 1;
            h = external_handle name base n gen cycle;
            r = r\<lparr>hr_next_generation := gen, hr_bindings := dict_set name h (hr_bindings r),
                  hr_permissions := dict_set name permissions (hr_permissions r),
                  hr_by_allocation_id := dict_set (hd_allocation_id h) h (hr_by_allocation_id r)\<rparr>
        in and_then (with_store (register_hbm_binding h permissions) r) (\<lambda>_ r. ret h r))"

definition get_handle :: "string \<Rightarrow> hbm_region \<Rightarrow> mem_handle option" where
  "get_handle name r = dict_get (hr_bindings r) name"

definition get_handle_by_allocation_id :: "string \<Rightarrow> hbm_region \<Rightarrow> mem_handle option" where
  "get_handle_by_allocation_id i r = dict_get (hr_by_allocation_id r) i"

definition hr_permission :: "string \<Rightarrow> hbm_region \<Rightarrow> py_error + string" where
  "hr_permission name r =
     (case dict_get (hr_permissions r) name of
        None \<Rightarrow> Inl (MemoryInvariantError ''unknown HBM binding'') | Some p \<Rightarrow> Inr p)"

text \<open>\<open>required\<close> is the empty string, one of the two permission letters, or an invalid request.\<close>

definition hr_resolve :: "mem_handle \<Rightarrow> int \<Rightarrow> int \<Rightarrow> string \<Rightarrow> hbm_region \<Rightarrow> py_error + bank_segment list" where
  "hr_resolve h off n required r =
     (case hd_owner h of
        ExternalOwner name \<Rightarrow>
          if dict_get (hr_bindings r) name \<noteq> Some h then Inl (MemoryInvariantError ''stale allocation generation'')
          else if off < 0 \<or> n < 0 \<or> off + n > hd_size_bytes h then Inl (MemoryInvariantError ''memory view out of bounds'')
          else if required \<noteq> '''' \<and> required \<noteq> ''r'' \<and> required \<noteq> ''w''
          then Inl (MemoryInvariantError ''invalid HBM permission request'')
          else case dict_get (hr_permissions r) name of
                 None \<Rightarrow> if required \<noteq> '''' then Inl KeyError
                         else Inr [\<lparr>seg_bank_id = 0, seg_address = hd_base_address h + off, seg_size_bytes = n\<rparr>]
               | Some p \<Rightarrow>
                   if required \<noteq> '''' \<and> hd required \<notin> set p then Inl (MemoryInvariantError ''HBM binding lacks permission'')
                   else Inr [\<lparr>seg_bank_id = 0, seg_address = hd_base_address h + off, seg_size_bytes = n\<rparr>]
      | _ \<Rightarrow> Inl (MemoryInvariantError ''wrong-owner release''))"

definition hr_assert_live :: "mem_handle \<Rightarrow> memory_owner option \<Rightarrow> hbm_region \<Rightarrow> py_error option" where
  "hr_assert_live h owner r =
     (let name = (case hd_owner h of ExternalOwner n \<Rightarrow> n | _ \<Rightarrow> '''')
      in case dict_get (hr_bindings r) name of
           None \<Rightarrow> Some (MemoryInvariantError ''stale allocation generation'')
         | Some live \<Rightarrow>
             if live \<noteq> h then Some (MemoryInvariantError ''stale allocation generation'')
             else if owner \<noteq> None \<and> Some (hd_owner live) \<noteq> owner then Some (MemoryInvariantError ''wrong-owner release'')
             else None)"

definition unbind_external :: "string \<Rightarrow> hbm_region \<Rightarrow> unit hr_result" where
  "unbind_external name r =
     (case dict_get (hr_bindings r) name of
        None \<Rightarrow> hr_error ''unknown HBM binding'' r
      | Some h \<Rightarrow>
          with_store (unregister_hbm_binding name (hd_allocation_id h) (hd_generation h))
            (r\<lparr>hr_bindings := dict_del name (hr_bindings r), hr_permissions := dict_del name (hr_permissions r),
               hr_by_allocation_id := dict_del (hd_allocation_id h) (hr_by_allocation_id r)\<rparr>))"

definition hr_used_bytes :: "hbm_region \<Rightarrow> int" where
  "hr_used_bytes r = dict_sum hd_size_bytes (hr_bindings r)"

definition can_issue :: "hbm_region \<Rightarrow> bool" where
  "can_issue r \<longleftrightarrow> hr_outstanding r < hr_outstanding_limit r"

definition issue_outstanding :: "hbm_region \<Rightarrow> unit hr_result" where
  "issue_outstanding r =
     (if \<not> can_issue r then hr_error ''HBM outstanding credit exhausted'' r
      else ret () (r\<lparr>hr_outstanding := hr_outstanding r + 1\<rparr>))"

definition complete_outstanding :: "hbm_region \<Rightarrow> unit hr_result" where
  "complete_outstanding r =
     (if hr_outstanding r \<le> 0 then hr_error ''HBM outstanding credit underflow'' r
      else ret () (r\<lparr>hr_outstanding := hr_outstanding r - 1\<rparr>))"

fun unbind_all :: "string list \<Rightarrow> hbm_region \<Rightarrow> unit hr_result" where
  "unbind_all [] r = ret () r"
| "unbind_all (name # names) r = and_then (unbind_external name r) (\<lambda>_ r. unbind_all names r)"

definition hr_reset :: "hbm_region \<Rightarrow> unit hr_result" where
  "hr_reset r =
     (if hr_outstanding r \<noteq> 0 then hr_error ''HBM reset requires confirmed transaction drain'' r
      else unbind_all (dict_keys (hr_bindings r)) r)"

definition reset_outstanding :: "hbm_region \<Rightarrow> unit hr_result" where
  "reset_outstanding r =
     (if hr_outstanding r \<noteq> 0 then hr_error ''cannot discard live HBM outstanding credits'' r else ret () r)"


section \<open>Invariant\<close>

definition binding_of :: "string \<Rightarrow> string \<Rightarrow> mem_handle \<Rightarrow> binding" where
  "binding_of name p h = \<lparr>bd_name = name, bd_allocation_id = hd_allocation_id h, bd_generation = hd_generation h,
     bd_base = hd_base_address h, bd_size = hd_size_bytes h, bd_permissions = p, bd_handle = h\<rparr>"

definition handle_ok :: "hbm_region \<Rightarrow> string \<Rightarrow> mem_handle \<Rightarrow> bool" where
  "handle_ok r name h \<longleftrightarrow> hd_owner h = ExternalOwner name \<and> 0 < hd_size_bytes h \<and> hr_base_iova r \<le> hd_base_address h
     \<and> end_address h \<le> hr_base_iova r + hr_size_bytes r \<and> hd_generation h \<le> hr_next_generation r"

definition store_synced :: "hbm_region \<Rightarrow> bool" where
  "store_synced r \<longleftrightarrow> (case hr_byte_store r of None \<Rightarrow> True | Some s \<Rightarrow> store_wf s \<and>
     (\<forall>name. dict_get (bs_bindings s) name =
        map_option (binding_of name (the (dict_get (hr_permissions r) name))) (dict_get (hr_bindings r) name)))"

definition hr_inv :: "hbm_region \<Rightarrow> bool" where
  "hr_inv r \<longleftrightarrow> keys_distinct (hr_bindings r)
     \<and> (\<forall>name h. dict_get (hr_bindings r) name = Some h \<longrightarrow> handle_ok r name h \<and> dict_get (hr_permissions r) name \<noteq> None)
     \<and> (\<forall>m n g h. m \<noteq> n \<and> dict_get (hr_bindings r) m = Some g \<and> dict_get (hr_bindings r) n = Some h \<longrightarrow>
          end_address g \<le> hd_base_address h \<or> end_address h \<le> hd_base_address g)
     \<and> 0 \<le> hr_outstanding r \<and> hr_outstanding r \<le> max 0 (hr_outstanding_limit r)
     \<and> store_synced r"

lemma hr_invD:
  assumes "hr_inv r"
  shows "keys_distinct (hr_bindings r)"
    "dict_get (hr_bindings r) n = Some h \<Longrightarrow> handle_ok r n h \<and> dict_get (hr_permissions r) n \<noteq> None"
    "m \<noteq> n \<Longrightarrow> dict_get (hr_bindings r) m = Some g \<Longrightarrow> dict_get (hr_bindings r) n = Some h \<Longrightarrow>
       end_address g \<le> hd_base_address h \<or> end_address h \<le> hd_base_address g"
    "0 \<le> hr_outstanding r" "hr_outstanding r \<le> max 0 (hr_outstanding_limit r)" "store_synced r"
  using assms unfolding hr_inv_def by blast+

text \<open>Handles only enter with generations beyond every earlier one.\<close>

definition hr_rel :: "hbm_region \<Rightarrow> hbm_region \<Rightarrow> bool" where
  "hr_rel r t \<longleftrightarrow> hr_next_generation r \<le> hr_next_generation t
     \<and> (\<forall>name h. dict_get (hr_bindings t) name = Some h \<longrightarrow>
          dict_get (hr_bindings r) name = Some h \<or> hr_next_generation r < hd_generation h)"

interpretation hr_logic: outcome_logic hr_inv hr_rel
proof unfold_locales
  show "hr_rel s s" for s by (simp add: hr_rel_def)
  show "hr_rel s u" if st: "hr_rel s t" and tu: "hr_rel t u" for s t u
  proof -
    have "dict_get (hr_bindings s) name = Some h \<or> hr_next_generation s < hd_generation h"
      if "dict_get (hr_bindings u) name = Some h" for name h
      using st tu that unfolding hr_rel_def by (meson order_le_less_trans)
    then show ?thesis using st tu unfolding hr_rel_def by auto
  qed
qed

lemma bind_external_keeps: "hr_logic.keeps r (bind_external name base n p cycle r)"
proof -
  let ?g = "hr_next_generation r + 1"
  let ?h = "external_handle name base n ?g cycle"
  let ?r = "r\<lparr>hr_next_generation := ?g, hr_bindings := dict_set name ?h (hr_bindings r),
     hr_permissions := dict_set name p (hr_permissions r),
     hr_by_allocation_id := dict_set (hd_allocation_id ?h) ?h (hr_by_allocation_id r)\<rparr>"
  have "hr_inv (snd (with_store (register_hbm_binding ?h p) ?r)) \<and> hr_rel r (snd (with_store (register_hbm_binding ?h p) ?r))"
    if inv: "hr_inv r" and guard: "dict_get (hr_bindings r) name = None" "valid_permissions p" "0 < n" "hr_base_iova r \<le> base"
      "base + n \<le> hr_base_iova r + hr_size_bytes r"
      "\<not> list_ex (\<lambda>(k, h). base < end_address h \<and> hd_base_address h < base + n) (hr_bindings r)"
  proof -
    note D = hr_invD [OF inv]
    have h: "end_address ?h = base + n" "hd_base_address ?h = base" "hd_owner ?h = ExternalOwner name"
      "hd_generation ?h = ?g" "hd_size_bytes ?h = n"
      by (simp_all add: external_handle_def end_address_def)
    have apart: "end_address k \<le> base \<or> base + n \<le> hd_base_address k" if "dict_get (hr_bindings r) m = Some k" for m k
      using guard(6) dict_get_in_set [OF that] by (auto simp: list_ex_iff)
    have core: "hr_inv (?r\<lparr>hr_byte_store := b\<rparr>)" if "store_synced (?r\<lparr>hr_byte_store := b\<rparr>)" for b
      unfolding hr_inv_def
    proof (intro conjI allI impI)
      show "keys_distinct (hr_bindings (?r\<lparr>hr_byte_store := b\<rparr>))" using D(1) by (simp add: dict_simps)
      show "handle_ok (?r\<lparr>hr_byte_store := b\<rparr>) m k" "dict_get (hr_permissions (?r\<lparr>hr_byte_store := b\<rparr>)) m \<noteq> None"
        if "dict_get (hr_bindings (?r\<lparr>hr_byte_store := b\<rparr>)) m = Some k" for m k
        using that D(2) [of m k] guard h by (auto simp: dict_simps handle_ok_def split: if_splits)
      show "end_address g \<le> hd_base_address k \<or> end_address k \<le> hd_base_address g"
        if "m \<noteq> n' \<and> dict_get (hr_bindings (?r\<lparr>hr_byte_store := b\<rparr>)) m = Some g
            \<and> dict_get (hr_bindings (?r\<lparr>hr_byte_store := b\<rparr>)) n' = Some k" for m n' g k
        using that D(3) [of m n' g k] apart h by (auto simp: dict_simps split: if_splits)
    qed (use D(4,5) that in simp_all)
    have rel: "hr_rel r (?r\<lparr>hr_byte_store := b\<rparr>)" for b
      using h(4) by (auto simp: hr_rel_def dict_simps)
    show ?thesis
    proof (cases "hr_byte_store r")
      case None
      then have eq: "snd (with_store (register_hbm_binding ?h p) ?r) = ?r\<lparr>hr_byte_store := None\<rparr>"
        by (cases r) (simp add: with_store_def)
      show ?thesis unfolding eq using core [of None] rel [of None] by (simp add: store_synced_def)
    next
      case (Some s)
      have sync: "store_wf s" "\<And>m. dict_get (bs_bindings s) m =
          map_option (binding_of m (the (dict_get (hr_permissions r) m))) (dict_get (hr_bindings r) m)"
        using D(6) Some by (auto simp: store_synced_def)
      let ?s = "s\<lparr>bs_bindings := dict_set name (binding_of name p ?h) (bs_bindings s)\<rparr>"
      have "register_hbm_binding ?h p s = ret () ?s"
        using sync(2) [of name] guard(1,2) h(3) by (simp add: register_hbm_binding_def Let_def binding_of_def)
      then have "with_store (register_hbm_binding ?h p) ?r = ret () (?r\<lparr>hr_byte_store := Some ?s\<rparr>)"
        using Some by (simp add: with_store_def)
      moreover have "store_synced (?r\<lparr>hr_byte_store := Some ?s\<rparr>)"
        using sync by (auto simp: store_synced_def dict_simps)
      ultimately show ?thesis using core rel by simp
    qed
  qed
  then show ?thesis
    unfolding hr_logic.keeps_def bind_external_def Let_def by (auto simp: hr_logic.rel_refl)
qed

lemma unbind_external_keeps: "hr_logic.keeps r (unbind_external name r)"
proof -
  have "hr_inv (snd (unbind_external name r)) \<and> hr_rel r (snd (unbind_external name r))"
    if inv: "hr_inv r" and h: "dict_get (hr_bindings r) name = Some h" for h
  proof -
    note D = hr_invD [OF inv]
    let ?r = "r\<lparr>hr_bindings := dict_del name (hr_bindings r), hr_permissions := dict_del name (hr_permissions r),
      hr_by_allocation_id := dict_del (hd_allocation_id h) (hr_by_allocation_id r)\<rparr>"
    have core: "hr_inv (?r\<lparr>hr_byte_store := b\<rparr>)" if "store_synced (?r\<lparr>hr_byte_store := b\<rparr>)" for b
      unfolding hr_inv_def
    proof (intro conjI allI impI)
      show "keys_distinct (hr_bindings (?r\<lparr>hr_byte_store := b\<rparr>))" using D(1) by (simp add: dict_simps)
      show "handle_ok (?r\<lparr>hr_byte_store := b\<rparr>) m k" "dict_get (hr_permissions (?r\<lparr>hr_byte_store := b\<rparr>)) m \<noteq> None"
        if "dict_get (hr_bindings (?r\<lparr>hr_byte_store := b\<rparr>)) m = Some k" for m k
        using that D(2) [of m k] by (auto simp: dict_simps handle_ok_def split: if_splits)
      show "end_address g \<le> hd_base_address k \<or> end_address k \<le> hd_base_address g"
        if "m \<noteq> n \<and> dict_get (hr_bindings (?r\<lparr>hr_byte_store := b\<rparr>)) m = Some g
            \<and> dict_get (hr_bindings (?r\<lparr>hr_byte_store := b\<rparr>)) n = Some k" for m n g k
        using that D(3) [of m n g k] by (auto simp: dict_simps split: if_splits)
    qed (use D(4,5) that in simp_all)
    have rel: "hr_rel r (?r\<lparr>hr_byte_store := b\<rparr>)" for b
      by (auto simp: hr_rel_def dict_simps split: if_splits)
    show ?thesis
    proof (cases "hr_byte_store r")
      case None
      then have eq: "snd (unbind_external name r) = ?r\<lparr>hr_byte_store := None\<rparr>"
        using h by (cases r) (simp add: unbind_external_def with_store_def)
      show ?thesis unfolding eq using core [of None] rel [of None] by (simp add: store_synced_def)
    next
      case (Some s)
      have sync: "store_wf s" "\<And>m. dict_get (bs_bindings s) m =
          map_option (binding_of m (the (dict_get (hr_permissions r) m))) (dict_get (hr_bindings r) m)"
        using D(6) Some by (auto simp: store_synced_def)
      let ?s = "s\<lparr>bs_bindings := dict_del name (bs_bindings s)\<rparr>"
      have eq: "snd (unbind_external name r) = ?r\<lparr>hr_byte_store := Some ?s\<rparr>"
        using sync(2) [of name] h Some
        by (simp add: unbind_external_def with_store_def unregister_hbm_binding_def binding_of_def)
      have "store_synced (?r\<lparr>hr_byte_store := Some ?s\<rparr>)"
        using sync by (auto simp: store_synced_def dict_simps)
      with core rel show ?thesis unfolding eq by blast
    qed
  qed
  moreover have "snd (unbind_external name r) = r" if "dict_get (hr_bindings r) name = None"
    using that by (simp add: unbind_external_def)
  ultimately show ?thesis
    unfolding hr_logic.keeps_def by (cases "dict_get (hr_bindings r) name") (auto simp: hr_logic.rel_refl)
qed

lemma unbind_all_keeps: "hr_logic.keeps r (unbind_all names r)"
  by (induction names arbitrary: r)
     (auto intro!: hr_logic.keeps_same hr_logic.keeps_and_then unbind_external_keeps)

lemma hr_reset_keeps: "hr_logic.keeps r (hr_reset r)"
  unfolding hr_reset_def by (intro hr_logic.keeps_if hr_logic.keeps_same unbind_all_keeps)

lemma store_synced_outstanding [simp]: "store_synced (r\<lparr>hr_outstanding := n\<rparr>) = store_synced r"
  by (simp add: store_synced_def split: option.splits)

lemma handle_ok_outstanding [simp]: "handle_ok (r\<lparr>hr_outstanding := n\<rparr>) = handle_ok r"
  by (simp add: handle_ok_def fun_eq_iff)

lemma outstanding_keeps:
  "hr_logic.keeps r (issue_outstanding r)" "hr_logic.keeps r (complete_outstanding r)" "hr_logic.keeps r (reset_outstanding r)"
proof -
  have "hr_inv (r\<lparr>hr_outstanding := n\<rparr>)" if "hr_inv r" "0 \<le> n" "n \<le> max 0 (hr_outstanding_limit r)" for n
    using that unfolding hr_inv_def by simp
  moreover have "hr_rel r (r\<lparr>hr_outstanding := n\<rparr>)" for n by (simp add: hr_rel_def)
  ultimately show "hr_logic.keeps r (issue_outstanding r)" "hr_logic.keeps r (complete_outstanding r)" "hr_logic.keeps r (reset_outstanding r)"
    using hr_invD(4,5) [of r]
    by (auto simp: hr_logic.keeps_def issue_outstanding_def complete_outstanding_def reset_outstanding_def can_issue_def hr_logic.rel_refl)
qed

section \<open>The region and its byte store as one machine\<close>

text \<open>
  Host and device traffic reach the byte store through the region's clients; only the region
  registers and unregisters bindings, so those two operations are not store steps of their own.
\<close>

datatype hr_op =
    HrBind string int int string int
  | HrUnbind string
  | HrIssue
  | HrComplete
  | HrReset
  | HrResetOutstanding
  | HrStore bs_op

fun hr_exec :: "hr_op \<Rightarrow> hbm_region \<Rightarrow> hbm_region" where
  "hr_exec (HrBind name base n p cycle) r = snd (bind_external name base n p cycle r)"
| "hr_exec (HrUnbind name) r = snd (unbind_external name r)"
| "hr_exec HrIssue r = snd (issue_outstanding r)"
| "hr_exec HrComplete r = snd (complete_outstanding r)"
| "hr_exec HrReset r = snd (hr_reset r)"
| "hr_exec HrResetOutstanding r = snd (reset_outstanding r)"
| "hr_exec (HrStore x) r =
     (case x of BsBind h p \<Rightarrow> r | BsUnbind n i g \<Rightarrow> r
      | _ \<Rightarrow> r\<lparr>hr_byte_store := map_option (bs_exec x) (hr_byte_store r)\<rparr>)"

lemma store_step_keeps:
  assumes inv: "hr_inv r"
  shows "hr_inv (hr_exec (HrStore x) r) \<and> hr_rel r (hr_exec (HrStore x) r)"
proof (cases "(\<exists>h p. x = BsBind h p) \<or> (\<exists>n i g. x = BsUnbind n i g)")
  case True
  with inv show ?thesis by (auto simp: hr_logic.rel_refl)
next
  case False
  let ?r = "r\<lparr>hr_byte_store := map_option (bs_exec x) (hr_byte_store r)\<rparr>"
  have eq: "hr_exec (HrStore x) r = ?r" using False by (cases x) auto
  have "store_synced ?r"
  proof (cases "hr_byte_store r")
    case (Some s)
    with hr_invD(6) [OF inv] have "store_wf s" by (simp add: store_synced_def)
    with Some hr_invD(6) [OF inv] bs_exec_bindings [of s x] bs.step_inv [of s x] False show ?thesis
      by (auto simp: store_synced_def)
  qed (simp add: store_synced_def)
  then have "hr_inv ?r" using inv unfolding hr_inv_def by (simp add: handle_ok_def)
  then show ?thesis unfolding eq by (simp add: hr_rel_def)
qed

lemma hr_step: "hr_inv r \<Longrightarrow> hr_inv (hr_exec x r) \<and> hr_rel r (hr_exec x r)"
proof (cases x)
  case (HrStore y)
  then show "hr_inv r \<Longrightarrow> ?thesis" using store_step_keeps by simp
qed (use bind_external_keeps unbind_external_keeps hr_reset_keeps outstanding_keeps in \<open>auto simp: hr_logic.keeps_def\<close>)

interpretation hr: total_machine hr_exec hr_inv
  by unfold_locales (use hr_step in blast)

interpretation hr_gen: monotone_machine hr_exec hr_inv hr_next_generation
  by unfold_locales (use hr_step in \<open>auto simp: hr_rel_def\<close>)

lemma hr_run_rel: "hr_inv r \<Longrightarrow> hr_rel r (run_ops hr_exec ops r)"
proof (induction ops arbitrary: r)
  case (Cons x ops)
  with hr_step [OF Cons.prems, of x] show ?case by (auto intro: hr_logic.rel_trans)
qed (simp add: hr_logic.rel_refl)

lemma hr_new_inv: "case store of None \<Rightarrow> True | Some s \<Rightarrow> store_wf s \<and> bs_bindings s = [] \<Longrightarrow> hr_inv (hr_new base n limit store)"
  by (auto simp: hr_inv_def hr_new_def store_synced_def split: option.splits)

section \<open>Properties\<close>

definition demo_hbm :: hbm_region where
  "demo_hbm = run_ops hr_exec [HrBind ''in'' 4 8 ''r'' 0, HrBind ''out'' 12 4 ''rw'' 0, HrIssue] (hr_new 0 64 2 (Some demo_store))"

definition demo_out :: mem_handle where
  "demo_out = the (get_handle ''out'' demo_hbm)"

lemma demo_store_fresh: "case Some demo_store of None \<Rightarrow> True | Some s \<Rightarrow> store_wf s \<and> bs_bindings s = []"
  using bs_new_wf [OF demo_store_new] by (auto simp: demo_store_def bs_new_def)

text \<open>C34. Live HBM bindings are exclusive: after any sequence of binds, unbinds, resets, credit
  moves and byte-store traffic, two different bindings never share a byte, each lies inside
  the region, carries its own name and a generation already handed out, and the number of
  outstanding credits stays between zero and the limit.
\<close>

theorem hbm_bindings_exclusive:
  assumes "case store of None \<Rightarrow> True | Some s \<Rightarrow> store_wf s \<and> bs_bindings s = []"
    and "r = run_ops hr_exec ops (hr_new base n limit store)"
  shows "(\<forall>m k g h a. m \<noteq> k \<and> get_handle m r = Some g \<and> get_handle k r = Some h \<longrightarrow>
            \<not> (hd_base_address g \<le> a \<and> a < end_address g \<and> hd_base_address h \<le> a \<and> a < end_address h))
     \<and> (\<forall>k h. get_handle k r = Some h \<longrightarrow> handle_ok r k h)
     \<and> 0 \<le> hr_outstanding r \<and> hr_outstanding r \<le> max 0 (hr_outstanding_limit r)"
proof -
  have "hr_inv r" unfolding assms(2) by (rule hr.any_run_inv [OF hr_new_inv [OF assms(1)]])
  note D = hr_invD [OF this]
  have "\<not> (hd_base_address g \<le> a \<and> a < end_address g \<and> hd_base_address h \<le> a \<and> a < end_address h)"
    if "m \<noteq> k" "get_handle m r = Some g" "get_handle k r = Some h" for m k g h a
    using D(3) [OF that(1)] that(2,3) unfolding get_handle_def by fastforce
  then show ?thesis using D(2,4,5) unfolding get_handle_def by blast
qed

theorem hbm_bindings_exclusive_witness:
  "handle_ok demo_hbm ''out'' demo_out \<and> hr_outstanding demo_hbm = 1"
proof -
  have "get_handle ''out'' demo_hbm = Some demo_out" "hr_outstanding demo_hbm = 1" by code_simp+
  with hbm_bindings_exclusive [OF demo_store_fresh demo_hbm_def] show ?thesis by blast
qed

text \<open>A handle of an unbound binding is dead for ever: once its binding has been removed, no
  later operation, not even binding the same name at the same address again, makes the
  region resolve or accept the old handle.
\<close>

theorem hbm_stale_handle_rejected:
  assumes "case store of None \<Rightarrow> True | Some s \<Rightarrow> store_wf s \<and> bs_bindings s = []"
    and "r = run_ops hr_exec ops (hr_new base n limit store)"
    and "get_handle name r = Some h"
  shows "hr_resolve h off m p (run_ops hr_exec later (hr_exec (HrUnbind name) r))
           = Inl (MemoryInvariantError ''stale allocation generation'')
     \<and> hr_assert_live h owner (run_ops hr_exec later (hr_exec (HrUnbind name) r))
           = Some (MemoryInvariantError ''stale allocation generation'')"
proof -
  let ?r1 = "hr_exec (HrUnbind name) r"
  let ?r2 = "run_ops hr_exec later ?r1"
  have inv: "hr_inv r" unfolding assms(2) by (rule hr.any_run_inv [OF hr_new_inv [OF assms(1)]])
  have h: "hd_owner h = ExternalOwner name" "hd_generation h \<le> hr_next_generation r"
    using hr_invD(2) [OF inv] assms(3) by (auto simp: get_handle_def handle_ok_def)
  have r1: "hr_inv ?r1" "hr_rel r ?r1" using hr_step [OF inv] by blast+
  have gone: "dict_get (hr_bindings ?r1) name = None"
    using assms(3) by (auto simp: unbind_external_def get_handle_def with_store_def dict_simps split: option.splits prod.splits)
  have "dict_get (hr_bindings ?r2) name \<noteq> Some h"
  proof
    assume "dict_get (hr_bindings ?r2) name = Some h"
    with hr_run_rel [OF r1(1), of later] gone have "hr_next_generation ?r1 < hd_generation h"
      unfolding hr_rel_def by (metis option.distinct(1))
    with h(2) r1(2) show False by (simp add: hr_rel_def)
  qed
  with h(1) show ?thesis by (auto simp: hr_resolve_def hr_assert_live_def split: option.splits)
qed

theorem hbm_stale_handle_rejected_witness:
  "hr_resolve demo_out 0 1 ''r'' (run_ops hr_exec [HrBind ''out'' 12 4 ''rw'' 0] (hr_exec (HrUnbind ''out'') demo_hbm))
     = Inl (MemoryInvariantError ''stale allocation generation'')"
proof -
  have "get_handle ''out'' demo_hbm = Some demo_out" by code_simp
  from hbm_stale_handle_rejected [OF demo_store_fresh demo_hbm_def this] show ?thesis by blast
qed

text \<open>Admission and commit agree: whenever the region resolves a range of a binding for a
  permission, the byte store registered with it accepts the view of that range for the same
  permission, so an access that was admitted is never refused by the oracle when its bytes
  arrive, and the binding it finds is the region's own.
\<close>

theorem hbm_admission_matches_store:
  assumes "case store of None \<Rightarrow> True | Some s \<Rightarrow> store_wf s \<and> bs_bindings s = []"
    and "r = run_ops hr_exec ops (hr_new base n limit store)"
    and "hr_byte_store r = Some s" and "hd_memory_space (vw_handle v) = ''hbm''"
    and "hr_resolve (vw_handle v) (vw_offset_bytes v) (vw_size_bytes v) [p] r = Inr segs"
    and "vw_address v = hd_base_address (vw_handle v) + vw_offset_bytes v"
  shows "\<exists>b. binding_for_view v p s = Inr b \<and> bd_handle b = vw_handle v"
proof -
  let ?h = "vw_handle v"
  have inv: "hr_inv r" unfolding assms(2) by (rule hr.any_run_inv [OF hr_new_inv [OF assms(1)]])
  obtain name where name: "hd_owner ?h = ExternalOwner name" "dict_get (hr_bindings r) name = Some ?h"
    using assms(5) by (auto simp: hr_resolve_def split: memory_owner.splits if_splits)
  obtain q where q: "dict_get (hr_permissions r) name = Some q" using hr_invD(2) [OF inv name(2)] by blast
  have res: "0 \<le> vw_offset_bytes v" "vw_offset_bytes v + vw_size_bytes v \<le> hd_size_bytes ?h" "p \<in> set q"
    using assms(5) name q by (auto simp: hr_resolve_def split: if_splits)
  have "dict_get (bs_bindings s) name = Some (binding_of name q ?h)"
    using hr_invD(6) [OF inv] assms(3) name(2) q by (simp add: store_synced_def)
  with res name(1) assms(4,6) show ?thesis
    by (simp add: binding_for_view_def Let_def binding_of_def bd_end_def)
qed

theorem hbm_admission_matches_store_witness:
  "\<exists>b. binding_for_view \<lparr>vw_handle = demo_out, vw_offset_bytes = 1, vw_size_bytes = 2, vw_address = 13, vw_segments = [],
      vw_permissions = ''rw''\<rparr> CHR ''w'' (the (hr_byte_store demo_hbm)) = Inr b \<and> bd_handle b = demo_out"
proof -
  let ?v = "\<lparr>vw_handle = demo_out, vw_offset_bytes = 1, vw_size_bytes = 2, vw_address = 13, vw_segments = [], vw_permissions = ''rw''\<rparr>"
  have "hr_byte_store demo_hbm \<noteq> None" by code_simp
  then have s: "hr_byte_store demo_hbm = Some (the (hr_byte_store demo_hbm))" by simp
  have "\<exists>b. binding_for_view ?v CHR ''w'' (the (hr_byte_store demo_hbm)) = Inr b \<and> bd_handle b = vw_handle ?v"
    by (rule hbm_admission_matches_store [OF demo_store_fresh demo_hbm_def s]) code_simp+
  then show ?thesis by simp
qed

end
