(* ===== verification/Page_Pool.thy ===== *)
theory Page_Pool
  imports Hbm_Region
begin

declare map_of_eq_Some_iff [simp del] Some_eq_map_of_iff [simp del]

text \<open>
  The page pool registry of \<open>src/pipeline_validator/memory/page_pool.py\<close>: pool declarations,
  scopes that own whole pages, epochs, access leases, root pins, allocation, release and the
  closing checks. The byte store the registry invalidates is part of its state. A
  \<open>PoolPageError\<close> keeps the error code in front of the message. The report snapshot is left
  out.
\<close>

section \<open>Pool declarations\<close>

record pool_spec =
  sp_name :: string
  sp_binding :: string
  sp_page_bytes :: int
  sp_page_count :: int
  sp_initial_owners :: "(string, int list) dict"

text \<open>\<open>not s.strip()\<close>: nothing but white space.\<close>

definition blank :: "string \<Rightarrow> bool" where
  "blank s \<longleftrightarrow> list_all (\<lambda>c. (of_char c :: nat) \<in> {9, 10, 11, 12, 13, 28, 29, 30, 31, 32, 133, 160}) s"

definition owner_error :: "int \<Rightarrow> string \<times> int list \<Rightarrow> py_error option" where
  "owner_error page_count p =
     (case p of (scope, pages) \<Rightarrow>
        if blank scope then Some (ValueError ''host page pool initial owner scope must be a non-empty string'')
        else if pages = [] then Some (ValueError ''host page pool initial owner must list at least one page'')
        else if \<not> list_all (\<lambda>page. 0 \<le> page \<and> page < page_count) pages
        then Some (ValueError ''host page pool initial owner page id is out of range'')
        else if \<not> distinct pages then Some (ValueError ''host page pool initial owner scope repeats a page'')
        else None)"

definition pool_spec_new :: "string \<Rightarrow> string \<Rightarrow> int \<Rightarrow> int \<Rightarrow> (string, int list) dict \<Rightarrow> py_error + pool_spec" where
  "pool_spec_new name binding page_bytes page_count owners =
     (if blank name then Inl (ValueError ''host page pool name must be a non-empty string'')
      else if blank binding then Inl (ValueError ''host page pool binding must be a non-empty string'')
      else if page_bytes \<le> 0 then Inl (ValueError ''host page pool page_bytes must be positive'')
      else if page_bytes mod 64 \<noteq> 0 then Inl (ValueError ''host page pool page_bytes must be 64-byte aligned'')
      else if page_count \<le> 0 then Inl (ValueError ''host page pool page_count must be positive'')
      else case List.map_filter (owner_error page_count) owners of
             e # es \<Rightarrow> Inl e
           | [] \<Rightarrow>
               if \<not> distinct (concat (dict_values owners))
               then Inl (ValueError ''host page pool initial owners overlap on one page'')
               else Inr \<lparr>sp_name = name, sp_binding = binding, sp_page_bytes = page_bytes, sp_page_count = page_count,
                         sp_initial_owners = owners\<rparr>)"

section \<open>Registry state\<close>

record page_allocation =
  pa_scope :: string
  pa_pool :: string
  pa_pages :: "int list"
  pa_epochs :: "int list"

record access_lease =
  ls_scope :: string
  ls_epochs :: "(int \<times> int) list"
  ls_acquired :: "string set"

record scope_state =
  st_pages :: "(int, int) dict"
  st_pinned_roots :: "int set"
  st_leases :: int

record registry =
  pp_specs :: "(string, pool_spec) dict"
  pp_scope_pool :: "(string, string) dict"
  pp_pool_handles :: "(string, mem_handle) dict"
  pp_scope_states :: "(string, scope_state) dict"
  pp_page_epochs :: "(int, int) dict"
  pp_root_pins :: "(int, string set) dict"
  pp_initial_counts :: "(string, int) dict"
  pp_allocated_counts :: "(string, int) dict"
  pp_freed_counts :: "(string, int) dict"
  pp_peaks :: "(string, int) dict"
  pp_byte_store :: "byte_store option"
  pp_run_generation :: int
  pp_closed :: bool

type_synonym 'a pp_result = "(registry, 'a) outcome"

definition registry_new :: registry where
  "registry_new = \<lparr>pp_specs = [], pp_scope_pool = [], pp_pool_handles = [], pp_scope_states = [], pp_page_epochs = [],
     pp_root_pins = [], pp_initial_counts = [], pp_allocated_counts = [], pp_freed_counts = [], pp_peaks = [],
     pp_byte_store = None, pp_run_generation = -1, pp_closed = False\<rparr>"

definition empty_scope :: scope_state where
  "empty_scope = \<lparr>st_pages = [], st_pinned_roots = {}, st_leases = 0\<rparr>"

section \<open>Ownership helpers\<close>

text \<open>
  Dictionary reads that raise \<open>KeyError\<close> in Python are only made for keys an earlier line has
  tested or written; \<open>the\<close> reads them here.
\<close>

definition require_scope :: "string \<Rightarrow> string option \<Rightarrow> registry \<Rightarrow> py_error + scope_state" where
  "require_scope scope pool g =
     (case dict_get (pp_scope_states g) scope of
        None \<Rightarrow> Inl (PoolPageError ''host_scope_inactive'')
      | Some st \<Rightarrow>
          if pool \<noteq> None \<and> dict_get (pp_scope_pool g) scope \<noteq> pool
          then Inl (PoolPageError ''host_pool_unknown_scope'') else Inr st)"

definition grant_page :: "string \<Rightarrow> int \<Rightarrow> registry \<Rightarrow> registry" where
  "grant_page scope page g =
     (let e = get_default 0 (pp_page_epochs g) page;
          st = the (dict_get (pp_scope_states g) scope)
      in g\<lparr>pp_page_epochs := dict_set page e (pp_page_epochs g),
           pp_scope_states := dict_set scope (st\<lparr>st_pages := dict_set page e (st_pages st)\<rparr>) (pp_scope_states g)\<rparr>)"

definition page_epoch :: "int \<Rightarrow> registry \<Rightarrow> int" where
  "page_epoch page g = get_default (-1) (pp_page_epochs g) page"

definition page_owner :: "int \<Rightarrow> registry \<Rightarrow> string option" where
  "page_owner page g = map_option fst (find (\<lambda>(scope, st). dict_get (st_pages st) page \<noteq> None) (pp_scope_states g))"

definition pool_scopes :: "string \<Rightarrow> registry \<Rightarrow> string list" where
  "pool_scopes pool g = map fst (filter (\<lambda>(scope, name). name = pool) (pp_scope_pool g))"

definition scope_pages :: "registry \<Rightarrow> string \<Rightarrow> int list" where
  "scope_pages g scope = (case dict_get (pp_scope_states g) scope of None \<Rightarrow> [] | Some st \<Rightarrow> dict_keys (st_pages st))"

definition pool_live :: "string \<Rightarrow> registry \<Rightarrow> int" where
  "pool_live pool g = sum_list (map (\<lambda>scope. int (length (scope_pages g scope))) (pool_scopes pool g))"

definition release_lease :: "string \<Rightarrow> registry \<Rightarrow> unit pp_result" where
  "release_lease scope g =
     (case dict_get (pp_scope_states g) scope of
        None \<Rightarrow> raise (PoolPageError ''host_scope_inactive'') g
      | Some st \<Rightarrow>
          if st_leases st \<le> 0 then raise (PoolPageError ''host_scope_inactive'') g
          else ret () (g\<lparr>pp_scope_states := dict_set scope (st\<lparr>st_leases := st_leases st - 1\<rparr>) (pp_scope_states g)\<rparr>))"

fun invalidate_pages :: "pool_spec \<Rightarrow> mem_handle \<Rightarrow> int list \<Rightarrow> byte_store \<Rightarrow> unit bs_result" where
  "invalidate_pages spec h [] s = ret () s"
| "invalidate_pages spec h (page # pages) s =
     and_then (invalidate_binding_range h (page * sp_page_bytes spec) (sp_page_bytes spec) s) (\<lambda>_ s.
     invalidate_pages spec h pages s)"

definition pp_invalidate :: "string \<Rightarrow> int list \<Rightarrow> registry \<Rightarrow> unit pp_result" where
  "pp_invalidate pool pages g =
     (case pp_byte_store g of
        None \<Rightarrow> ret () g
      | Some s \<Rightarrow>
         (case invalidate_pages (the (dict_get (pp_specs g) pool)) (the (dict_get (pp_pool_handles g) pool)) pages s of
            (v, t) \<Rightarrow> (v, g\<lparr>pp_byte_store := Some t\<rparr>)))"

section \<open>Leases\<close>

definition lease_is_valid :: "access_lease \<Rightarrow> registry \<Rightarrow> bool" where
  "lease_is_valid l g \<longleftrightarrow>
     list_all (\<lambda>(page, epoch). page_epoch page g = epoch \<and> page_owner page g = Some (ls_scope l)) (ls_epochs l)"

definition lease_acquire :: "string \<Rightarrow> access_lease \<Rightarrow> registry \<Rightarrow> py_error + access_lease" where
  "lease_acquire txn l g =
     (if \<not> lease_is_valid l g then Inl (PoolPageError ''host_scope_inactive'')
      else Inr (l\<lparr>ls_acquired := insert txn (ls_acquired l)\<rparr>))"

definition lease_release :: "string \<Rightarrow> access_lease \<Rightarrow> registry \<Rightarrow> access_lease \<times> unit pp_result" where
  "lease_release txn l g = (l\<lparr>ls_acquired := ls_acquired l - {txn}\<rparr>, release_lease (ls_scope l) g)"

section \<open>Registration\<close>

definition spec_error :: "pool_spec list \<Rightarrow> string list \<Rightarrow> registry \<Rightarrow> pool_spec \<Rightarrow> py_error option" where
  "spec_error specs bindings g spec =
     (if dict_get (pp_specs g) (sp_name spec) \<noteq> None then Some (PoolPageError ''host_pool_registered'')
      else if length (filter (\<lambda>other. sp_binding other = sp_binding spec) specs) \<noteq> 1
      then Some (PoolPageError ''host_pool_registered'')
      else if sp_binding spec \<notin> set bindings then Some (ValueError ''page pool names no actual launch binding'')
      else None)"

fun declare_scopes :: "string \<Rightarrow> string list \<Rightarrow> (string, string) dict \<Rightarrow> py_error + (string, string) dict" where
  "declare_scopes pool [] owners = Inr owners"
| "declare_scopes pool (scope # scopes) owners =
     (if dict_get owners scope \<noteq> None then Inl (PoolPageError ''host_pool_registered'')
      else declare_scopes pool scopes (dict_set scope pool owners))"

fun scope_owners :: "pool_spec list \<Rightarrow> (string, string) dict \<Rightarrow> py_error + (string, string) dict" where
  "scope_owners [] owners = Inr owners"
| "scope_owners (spec # specs) owners =
     (case declare_scopes (sp_name spec) (dict_keys (sp_initial_owners spec)) owners of
        Inl e \<Rightarrow> Inl e
      | Inr owners \<Rightarrow> scope_owners specs owners)"

fun dict_update :: "('k \<times> 'v) list \<Rightarrow> ('k, 'v) dict \<Rightarrow> ('k, 'v) dict" where
  "dict_update [] d = d"
| "dict_update ((k, v) # kvs) d = dict_update kvs (dict_set k v d)"

fun register_specs :: "pool_spec list \<Rightarrow> hbm_region \<Rightarrow> registry \<Rightarrow> unit pp_result" where
  "register_specs [] hbm g = ret () g"
| "register_specs (spec # specs) hbm g =
     (case get_handle (sp_binding spec) hbm of
        None \<Rightarrow> raise (ValueError ''page pool references a binding that the Group has not bound'') g
      | Some h \<Rightarrow>
          if hd_size_bytes h < sp_page_count spec * sp_page_bytes spec
          then raise (PoolPageError ''host_pool_capacity'') g
          else
            let name = sp_name spec; scopes = dict_keys (sp_initial_owners spec)
            in register_specs specs hbm
                 (g\<lparr>pp_specs := dict_set name spec (pp_specs g),
                    pp_pool_handles := dict_set name h (pp_pool_handles g),
                    pp_initial_counts := dict_set name 0 (pp_initial_counts g),
                    pp_allocated_counts := dict_set name 0 (pp_allocated_counts g),
                    pp_freed_counts := dict_set name 0 (pp_freed_counts g),
                    pp_peaks := dict_set name 0 (pp_peaks g),
                    pp_scope_pool := dict_update (map (\<lambda>s. (s, name)) scopes) (pp_scope_pool g),
                    pp_scope_states := dict_update (map (\<lambda>s. (s, empty_scope)) scopes) (pp_scope_states g)\<rparr>))"

definition grant_initial :: "string \<Rightarrow> string \<Rightarrow> int \<Rightarrow> registry \<Rightarrow> registry" where
  "grant_initial pool scope page g =
     (let g = grant_page scope page g
      in g\<lparr>pp_initial_counts := dd_add pool 1 (pp_initial_counts g)\<rparr>)"

fun grant_all_initial :: "(string \<times> string) list \<Rightarrow> registry \<Rightarrow> unit pp_result" where
  "grant_all_initial [] g = ret () g"
| "grant_all_initial ((scope, pool) # owners) g =
     (case dict_get (sp_initial_owners (the (dict_get (pp_specs g) pool))) scope of
        None \<Rightarrow> raise KeyError g
      | Some pages \<Rightarrow> grant_all_initial owners (fold (grant_initial pool scope) pages g))"

definition pp_initialize ::
  "pool_spec list \<Rightarrow> string list \<Rightarrow> hbm_region \<Rightarrow> byte_store option \<Rightarrow> int \<Rightarrow> (string \<Rightarrow> bool) option
   \<Rightarrow> registry \<Rightarrow> unit pp_result" where
  "pp_initialize specs bindings hbm store run_generation is_binding_cached g =
     (if pp_specs g \<noteq> [] then raise (PoolPageError ''host_pool_registered'') g
      else if run_generation < 0 then raise (ValueError ''run_generation must be a non-negative integer'') g
      else case List.map_filter (spec_error specs bindings g) specs of
        e # es \<Rightarrow> raise e g
      | [] \<Rightarrow>
         (case scope_owners specs [] of
            Inl e \<Rightarrow> raise e g
          | Inr owners \<Rightarrow>
              and_then (register_specs specs hbm g) (\<lambda>_ g.
              and_then (grant_all_initial owners g) (\<lambda>_ g.
              let g = g\<lparr>pp_peaks := map (\<lambda>(pool, spec). (pool, pool_live pool g)) (pp_specs g),
                        pp_byte_store := store, pp_run_generation := run_generation\<rparr>
              in if store \<noteq> None \<and> is_binding_cached \<noteq> None
                    \<and> list_ex (\<lambda>spec. the is_binding_cached (sp_binding spec)) specs
                 then raise (PoolPageError ''managed_pool_has_cached_state'') g
                 else ret () g))))"


section \<open>Operations\<close>

definition pool_of :: "string \<Rightarrow> registry \<Rightarrow> string" where
  "pool_of scope g = the (dict_get (pp_scope_pool g) scope)"

definition spec_of :: "string \<Rightarrow> registry \<Rightarrow> pool_spec" where
  "spec_of scope g = the (dict_get (pp_specs g) (pool_of scope g))"

definition binding_for_scope :: "string \<Rightarrow> registry \<Rightarrow> py_error + string" where
  "binding_for_scope scope g =
     (case require_scope scope None g of Inl e \<Rightarrow> Inl e | Inr st \<Rightarrow> Inr (sp_binding (spec_of scope g)))"

definition pool_for_scope :: "string \<Rightarrow> registry \<Rightarrow> py_error + string" where
  "pool_for_scope scope g =
     (case require_scope scope None g of Inl e \<Rightarrow> Inl e | Inr st \<Rightarrow> Inr (pool_of scope g))"

definition is_pool_binding :: "string \<Rightarrow> registry \<Rightarrow> bool" where
  "is_pool_binding binding g \<longleftrightarrow> list_ex (\<lambda>(pool, spec). sp_binding spec = binding) (pp_specs g)"

definition pool_for_binding :: "string \<Rightarrow> registry \<Rightarrow> py_error + string" where
  "pool_for_binding binding g =
     (case find (\<lambda>(pool, spec). sp_binding spec = binding) (pp_specs g) of
        None \<Rightarrow> Inl (PoolPageError ''host_pool_unknown'') | Some (pool, spec) \<Rightarrow> Inr pool)"

definition page_range :: "pool_spec \<Rightarrow> int \<Rightarrow> int \<Rightarrow> int list" where
  "page_range spec off n = [off div sp_page_bytes spec .. (off + n - 1) div sp_page_bytes spec]"

definition scope_owns_range :: "string \<Rightarrow> string \<Rightarrow> int \<Rightarrow> int \<Rightarrow> registry \<Rightarrow> py_error + bool" where
  "scope_owns_range scope binding off n g =
     (if n \<le> 0 then Inr False
      else case binding_for_scope scope g of
             Inl e \<Rightarrow> Inl e
           | Inr own \<Rightarrow>
               if binding \<noteq> own then Inr False
               else let spec = spec_of scope g
                    in if off < 0 \<or> off + n > sp_page_count spec * sp_page_bytes spec then Inr False
                       else Inr (list_all (\<lambda>page. page \<in> set (scope_pages g scope)) (page_range spec off n)))"

definition pp_lease :: "string \<Rightarrow> string \<Rightarrow> int \<Rightarrow> int \<Rightarrow> registry \<Rightarrow> access_lease pp_result" where
  "pp_lease scope binding off n g =
     (case scope_owns_range scope binding off n g of
        Inl e \<Rightarrow> raise e g
      | Inr False \<Rightarrow> raise (PoolPageError ''memory_scope_violation'') g
      | Inr True \<Rightarrow>
         (case require_scope scope None g of
            Inl e \<Rightarrow> raise e g
          | Inr st \<Rightarrow>
              let epochs = map (\<lambda>page. (page, the (dict_get (st_pages st) page))) (page_range (spec_of scope g) off n)
              in ret \<lparr>ls_scope = scope, ls_epochs = epochs, ls_acquired = {}\<rparr>
                     (g\<lparr>pp_scope_states := dict_set scope (st\<lparr>st_leases := st_leases st + 1\<rparr>) (pp_scope_states g)\<rparr>)))"

definition bump_and_grant :: "string \<Rightarrow> int \<Rightarrow> registry \<Rightarrow> registry" where
  "bump_and_grant scope page g =
     grant_page scope page (g\<lparr>pp_page_epochs := dd_add page 1 (pp_page_epochs g)\<rparr>)"

definition free_pages :: "string \<Rightarrow> registry \<Rightarrow> int list" where
  "free_pages pool g =
     (let owned = concat (map (scope_pages g) (pool_scopes pool g))
      in filter (\<lambda>page. page \<notin> set owned) [0 .. sp_page_count (the (dict_get (pp_specs g) pool)) - 1])"

definition finish_allocation :: "string \<Rightarrow> string \<Rightarrow> int \<Rightarrow> int list \<Rightarrow> registry \<Rightarrow> page_allocation pp_result" where
  "finish_allocation pool scope n pages g =
     (let g = g\<lparr>pp_allocated_counts := dd_add pool n (pp_allocated_counts g)\<rparr>;
          g = g\<lparr>pp_peaks := dict_set pool (max (get_default 0 (pp_peaks g) pool) (pool_live pool g)) (pp_peaks g)\<rparr>
      in ret \<lparr>pa_scope = scope, pa_pool = pool, pa_pages = pages,
              pa_epochs = map (\<lambda>page. the (dict_get (pp_page_epochs g) page)) pages\<rparr> g)"

definition pp_allocate :: "string \<Rightarrow> string \<Rightarrow> int \<Rightarrow> registry \<Rightarrow> page_allocation pp_result" where
  "pp_allocate pool scope n g =
     (if pp_closed g then raise (PoolPageError ''host_pool_closed'') g
      else if dict_get (pp_specs g) pool = None then raise (PoolPageError ''host_pool_unknown'') g
      else case require_scope scope (Some pool) g of
        Inl e \<Rightarrow> raise e g
      | Inr st \<Rightarrow>
          if n \<le> 0 then raise (ValueError ''page allocation count must be a positive integer'') g
          else if st_leases st \<noteq> 0 \<or> st_pinned_roots st \<noteq> {} then raise (PoolPageError ''host_pool_busy'') g
          else if int (length (free_pages pool g)) < n then raise (PoolPageError ''host_pool_out_of_pages'') g
          else
            let pages = take (nat n) (sort (free_pages pool g));
                g = fold (bump_and_grant scope) pages g
            in and_then (pp_invalidate pool pages g) (\<lambda>_ g. finish_allocation pool scope n pages g))"

definition pp_free :: "string \<Rightarrow> string \<Rightarrow> registry \<Rightarrow> unit pp_result" where
  "pp_free pool scope g =
     (if pp_closed g then raise (PoolPageError ''host_pool_closed'') g
      else if dict_get (pp_specs g) pool = None then raise (PoolPageError ''host_pool_unknown'') g
      else case require_scope scope (Some pool) g of
        Inl e \<Rightarrow> raise e g
      | Inr st \<Rightarrow>
          if st_pages st = [] then raise (PoolPageError ''host_scope_inactive'') g
          else if st_leases st \<noteq> 0 \<or> st_pinned_roots st \<noteq> {} then raise (PoolPageError ''host_pool_busy'') g
          else
            let released = dict_keys (st_pages st)
            in ret () (g\<lparr>pp_scope_states := dict_set scope (st\<lparr>st_pages := []\<rparr>) (pp_scope_states g),
                         pp_page_epochs := fold (\<lambda>page. dd_add page 1) released (pp_page_epochs g),
                         pp_freed_counts := dd_add pool (int (length released)) (pp_freed_counts g)\<rparr>))"

fun pin_scopes :: "(string \<times> string) list \<Rightarrow> registry \<Rightarrow> py_error + string list" where
  "pin_scopes [] g = Inr []"
| "pin_scopes ((binding, scope) # sbs) g =
     (case require_scope scope None g of
        Inl e \<Rightarrow> Inl e
      | Inr st \<Rightarrow>
          if sp_binding (spec_of scope g) \<noteq> binding then Inl (PoolPageError ''scope_binding_mismatch'')
          else case pin_scopes sbs g of Inl e \<Rightarrow> Inl e | Inr scopes \<Rightarrow> Inr (scope # scopes))"

definition set_pin :: "(int set \<Rightarrow> int set) \<Rightarrow> string \<Rightarrow> registry \<Rightarrow> registry" where
  "set_pin f scope g =
     (let st = the (dict_get (pp_scope_states g) scope)
      in g\<lparr>pp_scope_states := dict_set scope (st\<lparr>st_pinned_roots := f (st_pinned_roots st)\<rparr>) (pp_scope_states g)\<rparr>)"

definition pin_root :: "int \<Rightarrow> (string, string) dict \<Rightarrow> registry \<Rightarrow> unit pp_result" where
  "pin_root rid scope_bindings g =
     (if pp_closed g then raise (PoolPageError ''host_pool_closed'') g
      else if dict_get (pp_root_pins g) rid \<noteq> None then raise (ValueError ''root request is already pinned'') g
      else case pin_scopes scope_bindings g of
             Inl e \<Rightarrow> raise e g
           | Inr scopes \<Rightarrow>
               let g = fold (set_pin (insert rid)) scopes g
               in ret () (g\<lparr>pp_root_pins := dict_set rid (set scopes) (pp_root_pins g)\<rparr>))"

text \<open>The scopes of a pin record form a set; discarding from each is independent of the order.\<close>

definition unpin_root :: "int \<Rightarrow> registry \<Rightarrow> unit pp_result" where
  "unpin_root rid g =
     (case dict_get (pp_root_pins g) rid of
        None \<Rightarrow> raise (ValueError ''root request has no pin to release'') g
      | Some scopes \<Rightarrow>
          ret () (g\<lparr>pp_root_pins := dict_del rid (pp_root_pins g),
                    pp_scope_states := map (\<lambda>(scope, st). (scope, if scope \<in> scopes then st\<lparr>st_pinned_roots := st_pinned_roots st - {rid}\<rparr> else st))
                      (pp_scope_states g)\<rparr>))"

definition live_page_count :: "registry \<Rightarrow> int" where
  "live_page_count g = dict_sum (\<lambda>st. int (length (st_pages st))) (pp_scope_states g)"

definition abort_after_drain :: "registry \<Rightarrow> unit pp_result" where
  "abort_after_drain g =
     (if pp_closed g then raise (PoolPageError ''host_pool_closed'') g
      else ret () (g\<lparr>pp_scope_states := map (\<lambda>(scope, st). (scope, empty_scope)) (pp_scope_states g),
                     pp_root_pins := [], pp_closed := True\<rparr>))"

definition assert_closed :: "registry \<Rightarrow> py_error option" where
  "assert_closed g =
     (if pp_closed g then None
      else if list_ex (\<lambda>(scope, st). st_pages st \<noteq> [] \<or> st_leases st \<noteq> 0 \<or> st_pinned_roots st \<noteq> {}) (pp_scope_states g)
              \<or> pp_root_pins g \<noteq> []
      then Some (PoolPageError ''host_pool_busy'')
      else if list_ex (\<lambda>(pool, spec). dd_get (pp_initial_counts g) pool + dd_get (pp_allocated_counts g) pool
                         \<noteq> dd_get (pp_freed_counts g) pool) (pp_specs g)
      then Some (PoolPageError ''host_pool_busy'') else None)"

end
