(* ===== verification/Page_Safety.thy ===== *)
theory Page_Safety
  imports Page_Pool
begin

declare map_of_eq_Some_iff [simp del] Some_eq_map_of_iff [simp del]

text \<open>
  Safety of the page pool registry: scopes of one pool never own the same page, pages are
  conserved, epochs only grow so that a lease that lost its pages never becomes valid again,
  and freshly allocated pages carry no readable byte. Two concrete runs record where the
  code departs from its documentation.
\<close>

section \<open>How page counts move\<close>

lemma sum_list_upd:
  fixes f :: "'a \<Rightarrow> int"
  shows "distinct xs \<Longrightarrow> sum_list (map (f(x := v)) xs) = sum_list (map f xs) + (if x \<in> set xs then v - f x else 0)"
proof (induction xs)
  case (Cons y xs)
  have "map (f(x := v)) xs = map f xs" if "x \<notin> set xs" using that by auto
  with Cons show ?case by auto
qed simp

lemma pool_scopes_mem: "keys_distinct (pp_scope_pool g) \<Longrightarrow> scope \<in> set (pool_scopes pool g) \<longleftrightarrow> dict_get (pp_scope_pool g) scope = Some pool"
  by (force simp: pool_scopes_def dict_get_iff)

lemma pool_scopes_distinct: "keys_distinct (pp_scope_pool g) \<Longrightarrow> distinct (pool_scopes pool g)"
  unfolding pool_scopes_def by (simp add: distinct_map_filter)

lemma pool_scopes_states [simp]:
  "pool_scopes pool (g\<lparr>pp_scope_states := x\<rparr>) = pool_scopes pool g" "pool_scopes pool (g\<lparr>pp_page_epochs := y\<rparr>) = pool_scopes pool g"
  "pool_scopes pool (g\<lparr>pp_initial_counts := y'\<rparr>) = pool_scopes pool g"
  by (simp_all add: pool_scopes_def)

lemma scope_pages_set:
  "scope_pages (g\<lparr>pp_scope_states := dict_set scope st (pp_scope_states g)\<rparr>) = (scope_pages g)(scope := dict_keys (st_pages st))"
  by (auto simp: scope_pages_def dict_simps fun_eq_iff)

lemma scope_pages_frame [simp]: "scope_pages (g\<lparr>pp_page_epochs := y\<rparr>) = scope_pages g"
  "scope_pages (g\<lparr>pp_initial_counts := y'\<rparr>) = scope_pages g"
  by (auto simp: scope_pages_def fun_eq_iff)

lemma pool_live_set:
  assumes "keys_distinct (pp_scope_pool g)"
  shows "pool_live pool (g\<lparr>pp_scope_states := dict_set scope st (pp_scope_states g)\<rparr>) = pool_live pool g +
     (if dict_get (pp_scope_pool g) scope = Some pool then int (length (st_pages st)) - int (length (scope_pages g scope)) else 0)"
proof -
  have "(\<lambda>s. int (length (scope_pages (g\<lparr>pp_scope_states := dict_set scope st (pp_scope_states g)\<rparr>) s)))
     = (\<lambda>s. int (length (scope_pages g s)))(scope := int (length (st_pages st)))"
    by (auto simp: scope_pages_set)
  then show ?thesis
    by (simp only: pool_live_def pool_scopes_states sum_list_upd [OF pool_scopes_distinct [OF assms]] pool_scopes_mem [OF assms])
qed

section \<open>Invariant\<close>

definition pool_inv :: "registry \<Rightarrow> bool" where
  "pool_inv g \<longleftrightarrow> keys_distinct (pp_scope_states g) \<and> keys_distinct (pp_scope_pool g)
     \<and> (\<forall>scope. dict_get (pp_scope_states g) scope = None \<longleftrightarrow> dict_get (pp_scope_pool g) scope = None)
     \<and> (\<forall>scope st. dict_get (pp_scope_states g) scope = Some st \<longrightarrow> keys_distinct (st_pages st) \<and> 0 \<le> st_leases st)
     \<and> (\<forall>scope pool page. dict_get (pp_scope_pool g) scope = Some pool \<and> page \<in> set (scope_pages g scope) \<longrightarrow>
          0 \<le> page \<and> page < sp_page_count (the (dict_get (pp_specs g) pool)))
     \<and> (\<forall>a b pool page. a \<noteq> b \<and> dict_get (pp_scope_pool g) a = Some pool \<and> dict_get (pp_scope_pool g) b = Some pool
          \<and> page \<in> set (scope_pages g a) \<longrightarrow> page \<notin> set (scope_pages g b))
     \<and> (\<forall>scope st page e. dict_get (pp_scope_states g) scope = Some st \<and> dict_get (st_pages st) page = Some e \<longrightarrow> e \<le> page_epoch page g)"

lemma pool_invD:
  assumes "pool_inv g"
  shows "keys_distinct (pp_scope_states g)" "keys_distinct (pp_scope_pool g)"
    "dict_get (pp_scope_states g) scope = None \<longleftrightarrow> dict_get (pp_scope_pool g) scope = None"
    "dict_get (pp_scope_states g) scope = Some st \<Longrightarrow> keys_distinct (st_pages st)"
    "dict_get (pp_scope_states g) scope = Some st \<Longrightarrow> 0 \<le> st_leases st"
    "dict_get (pp_scope_pool g) scope = Some pool \<Longrightarrow> page \<in> set (scope_pages g scope) \<Longrightarrow>
       0 \<le> page \<and> page < sp_page_count (the (dict_get (pp_specs g) pool))"
    "a \<noteq> b \<Longrightarrow> dict_get (pp_scope_pool g) a = Some pool \<Longrightarrow> dict_get (pp_scope_pool g) b = Some pool \<Longrightarrow>
       page \<in> set (scope_pages g a) \<Longrightarrow> page \<notin> set (scope_pages g b)"
    "dict_get (pp_scope_states g) scope = Some st \<Longrightarrow> dict_get (st_pages st) page = Some e \<Longrightarrow> e \<le> page_epoch page g"
  using assms unfolding pool_inv_def by blast+

text \<open>
  Every operation moves the registry along \<open>pool_rel\<close>: declarations are fixed, epochs never
  fall, closing is final, and a page held at an epoch is still held at that epoch unless the
  epoch has moved on or the registry has been closed.
\<close>

definition pool_rel :: "registry \<Rightarrow> registry \<Rightarrow> bool" where
  "pool_rel g t \<longleftrightarrow> pp_specs t = pp_specs g \<and> pp_scope_pool t = pp_scope_pool g \<and> pp_pool_handles t = pp_pool_handles g
     \<and> (\<forall>page. page_epoch page g \<le> page_epoch page t) \<and> (pp_closed g \<longrightarrow> pp_closed t)
     \<and> (\<forall>scope st page e. dict_get (pp_scope_states g) scope = Some st \<and> dict_get (st_pages st) page = Some e \<longrightarrow>
          (\<exists>st'. dict_get (pp_scope_states t) scope = Some st' \<and> dict_get (st_pages st') page = Some e)
          \<or> e < page_epoch page t \<or> pp_closed t)"

interpretation pp_logic: outcome_logic pool_inv pool_rel
proof unfold_locales
  show "pool_rel s s" for s by (simp add: pool_rel_def)
  show "pool_rel s u" if st: "pool_rel s t" and tu: "pool_rel t u" for s t u
    unfolding pool_rel_def
  proof (intro conjI allI impI)
    show "page_epoch page s \<le> page_epoch page u" for page
      using st tu unfolding pool_rel_def by (meson order_trans)
    show "(\<exists>w'. dict_get (pp_scope_states u) scope = Some w' \<and> dict_get (st_pages w') page = Some e) \<or> e < page_epoch page u \<or> pp_closed u"
      if "dict_get (pp_scope_states s) scope = Some w \<and> dict_get (st_pages w) page = Some e" for scope w page e
      using st tu that unfolding pool_rel_def by (meson order_less_le_trans)
  qed (use st tu in \<open>simp_all add: pool_rel_def\<close>)
qed

lemma page_epoch_frame [simp]: "page_epoch page (g\<lparr>pp_scope_states := x\<rparr>) = page_epoch page g"
  by (simp add: page_epoch_def)

text \<open>Replacing a scope's record by one with the same pages.\<close>

lemma set_scope_same_pages:
  assumes inv: "pool_inv g" and st: "dict_get (pp_scope_states g) scope = Some st" "st_pages st' = st_pages st" "0 \<le> st_leases st'"
  defines "t \<equiv> g\<lparr>pp_scope_states := dict_set scope st' (pp_scope_states g)\<rparr>"
  shows "pool_inv t" "pool_rel g t" "scope_pages t = scope_pages g" "pool_live pool t = pool_live pool g"
proof -
  note D = pool_invD [OF inv]
  have own: "scope_pages g scope = dict_keys (st_pages st)" using st(1) by (simp add: scope_pages_def)
  show pages: "scope_pages t = scope_pages g"
    using own st(2) unfolding t_def scope_pages_set by (simp add: fun_upd_idem)
  show "pool_live pool t = pool_live pool g"
    unfolding t_def pool_live_set [OF D(2)] using own st(2) by simp
  show "pool_inv t"
    unfolding pool_inv_def pages
  proof (intro conjI allI impI)
    show "keys_distinct (pp_scope_states t)" "keys_distinct (pp_scope_pool t)" using D(1,2) by (simp_all add: t_def dict_simps)
    show "dict_get (pp_scope_states t) a = None \<longleftrightarrow> dict_get (pp_scope_pool t) a = None" for a
      using D(3) [of a] st(1) by (auto simp: t_def dict_simps)
    show "keys_distinct (st_pages w)" "0 \<le> st_leases w" if "dict_get (pp_scope_states t) a = Some w" for a w
      using that D(4,5) st by (auto simp: t_def dict_simps split: if_splits)
    show "e \<le> page_epoch page t" if "dict_get (pp_scope_states t) a = Some w \<and> dict_get (st_pages w) page = Some e" for a w page e
      using that D(8) st by (auto simp: t_def dict_simps split: if_splits)
  qed (use D(6,7) in \<open>auto simp: t_def\<close>)
  show "pool_rel g t"
    unfolding pool_rel_def t_def using st by (auto simp: dict_simps split: if_splits)
qed


section \<open>Granting pages\<close>

definition grant_at :: "string \<Rightarrow> int \<Rightarrow> int \<Rightarrow> registry \<Rightarrow> registry" where
  "grant_at scope page e g =
     (let st = the (dict_get (pp_scope_states g) scope)
      in g\<lparr>pp_page_epochs := dict_set page e (pp_page_epochs g),
           pp_scope_states := dict_set scope (st\<lparr>st_pages := dict_set page e (st_pages st)\<rparr>) (pp_scope_states g)\<rparr>)"

definition next_epoch :: "int \<Rightarrow> registry \<Rightarrow> int" where
  "next_epoch page g = get_default 0 (pp_page_epochs g) page"

lemma grant_page_at: "grant_page scope page g = grant_at scope page (next_epoch page g) g"
  by (simp add: grant_page_def grant_at_def next_epoch_def Let_def)

lemma bump_and_grant_at: "bump_and_grant scope page g = grant_at scope page (next_epoch page g + 1) g"
  by (simp add: bump_and_grant_def grant_page_def grant_at_def next_epoch_def Let_def dd_add_def dd_get_def get_default_def dict_simps)

lemma next_epoch_ge: "page_epoch page g \<le> next_epoch page g"
  by (simp add: page_epoch_def next_epoch_def get_default_def split: option.splits)

definition only_pages :: "registry \<Rightarrow> registry \<Rightarrow> bool" where
  "only_pages g t \<longleftrightarrow> t = g\<lparr>pp_page_epochs := pp_page_epochs t, pp_scope_states := pp_scope_states t\<rparr>"

lemma only_pages_refl: "only_pages g g" by (simp add: only_pages_def)

lemma only_pages_trans: "only_pages g t \<Longrightarrow> only_pages t u \<Longrightarrow> only_pages g u"
  by (cases g; cases t; cases u) (simp add: only_pages_def)

lemma only_pages_fields:
  assumes "only_pages g t"
  shows "pp_specs t = pp_specs g" "pp_scope_pool t = pp_scope_pool g" "pp_pool_handles t = pp_pool_handles g"
    "pp_root_pins t = pp_root_pins g" "pp_initial_counts t = pp_initial_counts g" "pp_allocated_counts t = pp_allocated_counts g"
    "pp_freed_counts t = pp_freed_counts g" "pp_byte_store t = pp_byte_store g" "pp_closed t = pp_closed g" "pp_peaks t = pp_peaks g"
  using assms by (cases g; cases t; simp add: only_pages_def)+

lemma grant_at_ok:
  assumes inv: "pool_inv g" and pool: "dict_get (pp_scope_pool g) scope = Some pool"
    and free: "\<And>a. dict_get (pp_scope_pool g) a = Some pool \<Longrightarrow> page \<notin> set (scope_pages g a)"
    and rng: "0 \<le> page" "page < sp_page_count (the (dict_get (pp_specs g) pool))" and e: "page_epoch page g \<le> e"
  defines "t \<equiv> grant_at scope page e g"
  shows "pool_inv t" "pool_rel g t" "only_pages g t"
    "scope_pages t = (scope_pages g)(scope := scope_pages g scope @ [page])"
    "pool_live q t = pool_live q g + (if q = pool then 1 else 0)"
proof -
  note D = pool_invD [OF inv]
  obtain st where st: "dict_get (pp_scope_states g) scope = Some st" using D(3) [of scope] pool by auto
  have own: "scope_pages g scope = dict_keys (st_pages st)" using st by (simp add: scope_pages_def)
  have new: "dict_get (st_pages st) page = None" using free [OF pool] own by (simp add: dict_get_None_iff)
  let ?st = "st\<lparr>st_pages := dict_set page e (st_pages st)\<rparr>"
  have t: "t = g\<lparr>pp_page_epochs := dict_set page e (pp_page_epochs g), pp_scope_states := dict_set scope ?st (pp_scope_states g)\<rparr>"
    by (simp add: t_def grant_at_def st)
  have t': "t = (g\<lparr>pp_page_epochs := dict_set page e (pp_page_epochs g)\<rparr>)\<lparr>pp_scope_states :=
      dict_set scope ?st (pp_scope_states (g\<lparr>pp_page_epochs := dict_set page e (pp_page_epochs g)\<rparr>))\<rparr>" by (simp add: t)
  have keys: "dict_keys (st_pages ?st) = scope_pages g scope @ [page]" using own new by (simp add: dict_set_fresh)
  show pages: "scope_pages t = (scope_pages g)(scope := scope_pages g scope @ [page])"
    unfolding t' scope_pages_set by (simp only: keys scope_pages_frame)
  have live: "pool_live q (g\<lparr>pp_page_epochs := y\<rparr>) = pool_live q g" for q y by (simp add: pool_live_def)
  show "pool_live q t = pool_live q g + (if q = pool then 1 else 0)"
    unfolding t' using pool_live_set [of "g\<lparr>pp_page_epochs := dict_set page e (pp_page_epochs g)\<rparr>" q scope ?st] D(2) pool own new
    by (auto simp: live length_dict_set)
  show "only_pages g t" by (simp add: only_pages_def t)
  have ep: "page_epoch p t = (if p = page then e else page_epoch p g)" for p
    by (simp add: page_epoch_def get_default_def t dict_simps)
  have states: "dict_get (pp_scope_states t) a = (if a = scope then Some ?st else dict_get (pp_scope_states g) a)" for a
    by (simp add: t dict_simps)
  have same: "pp_scope_pool t = pp_scope_pool g" "pp_specs t = pp_specs g" "pp_pool_handles t = pp_pool_handles g"
    "pp_closed t = pp_closed g" by (simp_all add: t)
  show "pool_inv t"
    unfolding pool_inv_def same
  proof (intro conjI allI impI)
    show "keys_distinct (pp_scope_states t)" using D(1) by (simp add: t dict_simps)
    show "dict_get (pp_scope_states t) a = None \<longleftrightarrow> dict_get (pp_scope_pool g) a = None" for a
      using D(3) [of a] pool by (auto simp: states)
    show "keys_distinct (st_pages w)" "0 \<le> st_leases w" if "dict_get (pp_scope_states t) a = Some w" for a w
      using that D(4,5) st by (auto simp: states dict_simps split: if_splits)
    show "0 \<le> p" "p < sp_page_count (the (dict_get (pp_specs g) q))"
      if "dict_get (pp_scope_pool g) a = Some q \<and> p \<in> set (scope_pages t a)" for a q p
      using that D(6) [of a q p] pool rng by (auto simp: pages split: if_splits)
    show "p \<notin> set (scope_pages t b)" if "a \<noteq> b \<and> dict_get (pp_scope_pool g) a = Some q \<and> dict_get (pp_scope_pool g) b = Some q
        \<and> p \<in> set (scope_pages t a)" for a b q p
      using that D(7) [of a b q p] pool free by (auto simp: pages split: if_splits)
    show "x \<le> page_epoch p t" if "dict_get (pp_scope_states t) a = Some w \<and> dict_get (st_pages w) p = Some x" for a w p x
    proof -
      have "x \<le> page_epoch p g \<or> (p = page \<and> x = e)"
        using that D(8) [of a] st by (auto simp: states dict_simps split: if_splits)
      with e show ?thesis by (auto simp: ep)
    qed
  qed (rule D(2))
  show "pool_rel g t"
    unfolding pool_rel_def using e st new by (auto simp: ep states same dict_simps)
qed

lemma grant_fold_ok:
  assumes "pool_inv g" "dict_get (pp_scope_pool g) scope = Some pool" "distinct pages"
    "\<And>a page. page \<in> set pages \<Longrightarrow> dict_get (pp_scope_pool g) a = Some pool \<Longrightarrow> page \<notin> set (scope_pages g a)"
    "\<And>page. page \<in> set pages \<Longrightarrow> 0 \<le> page \<and> page < sp_page_count (the (dict_get (pp_specs g) pool))"
  defines "t \<equiv> fold (bump_and_grant scope) pages g"
  shows "pool_inv t \<and> pool_rel g t \<and> only_pages g t \<and> scope_pages t = (scope_pages g)(scope := scope_pages g scope @ pages)
     \<and> pool_live q t = pool_live q g + (if q = pool then int (length pages) else 0)"
  using assms(1-5) unfolding t_def
proof (induction pages arbitrary: g)
  case Nil
  then show ?case by (simp add: pp_logic.rel_refl only_pages_refl)
next
  case (Cons page pages)
  let ?g = "bump_and_grant scope page g"
  have e: "page_epoch page g \<le> next_epoch page g + 1" using next_epoch_ge [of page g] by simp
  have ok: "pool_inv ?g" "pool_rel g ?g" "only_pages g ?g" "scope_pages ?g = (scope_pages g)(scope := scope_pages g scope @ [page])"
    "\<And>q. pool_live q ?g = pool_live q g + (if q = pool then 1 else 0)"
    unfolding bump_and_grant_at using Cons.prems(4) [of page] Cons.prems(5) [of page] grant_at_ok [OF Cons.prems(1,2) _ _ _ e] by auto
  note f = only_pages_fields [OF ok(3)]
  have IH: "pool_inv (fold (bump_and_grant scope) pages ?g) \<and> pool_rel ?g (fold (bump_and_grant scope) pages ?g)
     \<and> only_pages ?g (fold (bump_and_grant scope) pages ?g)
     \<and> scope_pages (fold (bump_and_grant scope) pages ?g) = (scope_pages ?g)(scope := scope_pages ?g scope @ pages)
     \<and> pool_live q (fold (bump_and_grant scope) pages ?g) = pool_live q ?g + (if q = pool then int (length pages) else 0)"
    using Cons.prems by (intro Cons.IH) (auto simp: f ok(1,4))
  then show ?case
    using ok(2-5) by (auto intro: pp_logic.rel_trans only_pages_trans)
qed

section \<open>The operations\<close>

lemma pp_invalidate_store: "\<exists>b. snd (pp_invalidate pool pages g) = g\<lparr>pp_byte_store := b\<rparr>"
proof (cases "pp_byte_store g")
  case None
  then have "snd (pp_invalidate pool pages g) = g\<lparr>pp_byte_store := pp_byte_store g\<rparr>" by (simp add: pp_invalidate_def)
  then show ?thesis by blast
next
  case (Some s)
  then show ?thesis by (auto simp: pp_invalidate_def split: prod.splits)
qed

lemma bookkeeping_frame:
  "pool_inv (g\<lparr>pp_byte_store := b\<rparr>) = pool_inv g" "pool_rel g (t\<lparr>pp_byte_store := b\<rparr>) = pool_rel g t"
  "pool_inv (g\<lparr>pp_allocated_counts := c\<rparr>) = pool_inv g" "pool_rel g (t\<lparr>pp_allocated_counts := c\<rparr>) = pool_rel g t"
  "pool_inv (g\<lparr>pp_peaks := p\<rparr>) = pool_inv g" "pool_rel g (t\<lparr>pp_peaks := p\<rparr>) = pool_rel g t"
  "pool_inv (g\<lparr>pp_freed_counts := c\<rparr>) = pool_inv g" "pool_rel g (t\<lparr>pp_freed_counts := c\<rparr>) = pool_rel g t"
  "pool_inv (g\<lparr>pp_root_pins := r\<rparr>) = pool_inv g" "pool_rel g (t\<lparr>pp_root_pins := r\<rparr>) = pool_rel g t"
  "pool_live q (g\<lparr>pp_byte_store := b\<rparr>) = pool_live q g" "pool_live q (g\<lparr>pp_allocated_counts := c\<rparr>) = pool_live q g"
  "pool_live q (g\<lparr>pp_peaks := p\<rparr>) = pool_live q g" "pool_live q (g\<lparr>pp_root_pins := r\<rparr>) = pool_live q g"
  by (simp_all add: pool_inv_def pool_rel_def page_epoch_def scope_pages_def pool_live_def pool_scopes_def cong: option.case_cong)

definition conserved :: "registry \<Rightarrow> bool" where
  "conserved g \<longleftrightarrow> pp_closed g \<or> (\<forall>pool. dict_get (pp_specs g) pool \<noteq> None \<longrightarrow>
     dd_get (pp_initial_counts g) pool + dd_get (pp_allocated_counts g) pool - dd_get (pp_freed_counts g) pool = pool_live pool g)"

lemma free_pages_ok:
  assumes "keys_distinct (pp_scope_pool g)" "page \<in> set (free_pages pool g)"
  shows "0 \<le> page" "page < sp_page_count (the (dict_get (pp_specs g) pool))"
    "dict_get (pp_scope_pool g) a = Some pool \<Longrightarrow> page \<notin> set (scope_pages g a)"
  using assms pool_scopes_mem [OF assms(1), of a pool] by (auto simp: free_pages_def Let_def)

lemma allocate_cases:
  fixes pool scope :: string and n :: int
  assumes inv: "pool_inv g"
  defines "pages \<equiv> take (nat n) (sort (free_pages pool g))"
  defines "t \<equiv> fold (bump_and_grant scope) pages g"
  shows "(\<exists>e. pp_allocate pool scope n g = raise e g \<and> (\<forall>m. e \<noteq> MemoryInvariantError m))
     \<or> (0 < n \<and> \<not> pp_closed g \<and> dict_get (pp_specs g) pool \<noteq> None \<and> int (length pages) = n
         \<and> pool_inv t \<and> pool_rel g t \<and> only_pages g t \<and> scope_pages t = (scope_pages g)(scope := scope_pages g scope @ pages)
         \<and> (\<forall>q. pool_live q t = pool_live q g + (if q = pool then n else 0))
         \<and> (\<forall>page \<in> set pages. 0 \<le> page \<and> page < sp_page_count (the (dict_get (pp_specs g) pool)))
         \<and> pp_allocate pool scope n g = and_then (pp_invalidate pool pages t) (\<lambda>_ g. finish_allocation pool scope n pages g))"
proof (cases "pp_closed g \<or> dict_get (pp_specs g) pool = None \<or> n \<le> 0")
  case True
  then show ?thesis by (auto simp: pp_allocate_def require_scope_def split: option.splits)
next
  case False
  note D = pool_invD [OF inv]
  show ?thesis
  proof (cases "require_scope scope (Some pool) g")
    case (Inl e)
    then show ?thesis using False by (auto simp: pp_allocate_def require_scope_def split: option.splits if_splits)
  next
    case (Inr st)
    then have pool: "dict_get (pp_scope_pool g) scope = Some pool" "dict_get (pp_scope_states g) scope = Some st"
      by (auto simp: require_scope_def split: option.splits if_splits)
    show ?thesis
    proof (cases "st_leases st \<noteq> 0 \<or> st_pinned_roots st \<noteq> {} \<or> int (length (free_pages pool g)) < n")
      case True
      then show ?thesis using False Inr by (auto simp: pp_allocate_def)
    next
      case fits: False
      have sub: "set pages \<subseteq> set (free_pages pool g)" using set_take_subset [of "nat n" "sort (free_pages pool g)"] by (simp add: pages_def)
      have "distinct (free_pages pool g)" by (simp add: free_pages_def Let_def)
      then have dist: "distinct pages" by (simp add: pages_def)
      have len: "int (length pages) = n" using fits False by (auto simp: pages_def min_def)
      have rng: "0 \<le> page \<and> page < sp_page_count (the (dict_get (pp_specs g) pool))" if "page \<in> set pages" for page
        using free_pages_ok(1,2) [OF D(2)] sub that by blast
      have fold: "pool_inv t \<and> pool_rel g t \<and> only_pages g t \<and> scope_pages t = (scope_pages g)(scope := scope_pages g scope @ pages)
          \<and> pool_live q t = pool_live q g + (if q = pool then int (length pages) else 0)" for q
        unfolding t_def by (rule grant_fold_ok [OF inv pool(1) dist]) (use rng free_pages_ok(3) [OF D(2)] sub in blast)+
      have "pp_allocate pool scope n g = and_then (pp_invalidate pool pages t) (\<lambda>_ g. finish_allocation pool scope n pages g)"
        using False Inr fits by (auto simp: pp_allocate_def pages_def t_def Let_def)
      with fold len False rng show ?thesis by auto
    qed
  qed
qed

lemma allocate_effect:
  fixes pool scope :: string and n :: int
  assumes inv: "pool_inv g"
  defines "A \<equiv> pp_allocate pool scope n g"
  shows "pool_inv (snd A)" "pool_rel g (snd A)" "conserved g \<Longrightarrow> is_ok A \<or> snd A = g \<Longrightarrow> conserved (snd A)"
proof -
  define pages where "pages = take (nat n) (sort (free_pages pool g))"
  define t where "t = fold (bump_and_grant scope) pages g"
  have "(pool_inv (snd A) \<and> pool_rel g (snd A)) \<and> (conserved g \<longrightarrow> is_ok A \<or> snd A = g \<longrightarrow> conserved (snd A))"
  proof (cases "\<exists>e. A = raise e g")
    case True
    with inv show ?thesis by (auto simp: pp_logic.rel_refl)
  next
    case False
    with allocate_cases [OF inv, of pool scope n, folded pages_def, folded t_def A_def]
    have ok: "dict_get (pp_specs g) pool \<noteq> None" "\<not> pp_closed g" "pool_inv t" "pool_rel g t" "only_pages g t"
      "\<And>q. pool_live q t = pool_live q g + (if q = pool then n else 0)"
      "A = and_then (pp_invalidate pool pages t) (\<lambda>_ g. finish_allocation pool scope n pages g)" by auto
    obtain v b where v: "pp_invalidate pool pages t = (v, t\<lparr>pp_byte_store := b\<rparr>)"
      using pp_invalidate_store [of pool pages t] by (cases "pp_invalidate pool pages t") auto
    note f = only_pages_fields [OF ok(5)]
    show ?thesis
    proof (cases v)
      case (Inl e)
      then show ?thesis using ok(3,4,7) v by (auto simp: bookkeeping_frame)
    next
      case (Inr u)
      then have A: "\<exists>p. snd A = t\<lparr>pp_byte_store := b, pp_allocated_counts := dd_add pool n (pp_allocated_counts g), pp_peaks := p\<rparr>"
        using ok(7) v f(6) by (auto simp: finish_allocation_def Let_def)
      have "conserved (snd A)" if c: "conserved g"
      proof -
        have "dd_get (pp_initial_counts g) q + dd_get (dd_add pool n (pp_allocated_counts g)) q - dd_get (pp_freed_counts g) q = pool_live q t"
          if "dict_get (pp_specs g) q \<noteq> None" for q
          using c that ok(2) ok(6) [of q] unfolding conserved_def dd_get_add by fastforce
        with A show ?thesis by (auto simp: conserved_def bookkeeping_frame f)
      qed
      with A ok(3,4) show ?thesis by (auto simp: bookkeeping_frame)
    qed
  qed
  then show "pool_inv (snd A)" "pool_rel g (snd A)" "conserved g \<Longrightarrow> is_ok A \<or> snd A = g \<Longrightarrow> conserved (snd A)" by blast+
qed

lemma dd_fold_get: "distinct xs \<Longrightarrow> dd_get (fold (\<lambda>x. dd_add x 1) xs d) k = dd_get d k + (if k \<in> set xs then 1 else 0)"
  by (induction xs arbitrary: d) (auto simp: dd_get_add)

lemma dd_fold_keys: "dict_get (fold (\<lambda>x. dd_add x 1) xs d) k = None \<longleftrightarrow> dict_get d k = None \<and> k \<notin> set xs"
  by (induction xs arbitrary: d) (auto simp: dd_add_def dict_simps)

lemma free_effect:
  fixes pool scope :: string
  assumes inv: "pool_inv g"
  defines "A \<equiv> pp_free pool scope g"
  shows "pool_inv (snd A)" "pool_rel g (snd A)" "conserved g \<Longrightarrow> conserved (snd A)"
    "A = ret () t \<Longrightarrow> dict_get (pp_scope_states g) scope = Some st \<Longrightarrow> page \<in> set (dict_keys (st_pages st)) \<Longrightarrow>
       page_epoch page g < page_epoch page t"
proof -
  note D = pool_invD [OF inv]
  have "pool_inv (snd A) \<and> pool_rel g (snd A) \<and> (conserved g \<longrightarrow> conserved (snd A)) \<and>
     (\<forall>t st page. A = ret () t \<longrightarrow> dict_get (pp_scope_states g) scope = Some st \<longrightarrow> page \<in> set (dict_keys (st_pages st)) \<longrightarrow>
       page_epoch page g < page_epoch page t)"
  proof (cases "\<exists>e. A = raise e g")
    case True
    with inv show ?thesis by (auto simp: pp_logic.rel_refl)
  next
    case False
    then obtain w where w: "dict_get (pp_scope_states g) scope = Some w" "dict_get (pp_scope_pool g) scope = Some pool" "\<not> pp_closed g"
      and A: "A = ret () (g\<lparr>pp_scope_states := dict_set scope (w\<lparr>st_pages := []\<rparr>) (pp_scope_states g),
         pp_page_epochs := fold (\<lambda>page. dd_add page 1) (dict_keys (st_pages w)) (pp_page_epochs g),
         pp_freed_counts := dd_add pool (int (length (dict_keys (st_pages w)))) (pp_freed_counts g)\<rparr>)"
      by (auto simp: A_def pp_free_def require_scope_def Let_def split: if_splits option.splits)
    define t where "t = snd A"
    have own: "scope_pages g scope = dict_keys (st_pages w)" using w(1) by (simp add: scope_pages_def)
    have ep: "page_epoch p g \<le> page_epoch p t" "p \<in> set (dict_keys (st_pages w)) \<Longrightarrow> page_epoch p g < page_epoch p t" for p
      using dd_fold_get [OF D(4) [OF w(1)], of "pp_page_epochs g" p] dd_fold_keys [of "dict_keys (st_pages w)" "pp_page_epochs g" p]
      by (auto simp: t_def A page_epoch_def get_default_def dd_get_def split: option.splits if_splits)
    have fields: "pp_scope_pool t = pp_scope_pool g" "pp_specs t = pp_specs g" "pp_pool_handles t = pp_pool_handles g" "pp_closed t = pp_closed g"
      "pp_initial_counts t = pp_initial_counts g" "pp_allocated_counts t = pp_allocated_counts g"
      "pp_freed_counts t = dd_add pool (int (length (dict_keys (st_pages w)))) (pp_freed_counts g)" by (simp_all add: t_def A)
    have states: "dict_get (pp_scope_states t) a = (if a = scope then Some (w\<lparr>st_pages := []\<rparr>) else dict_get (pp_scope_states g) a)" for a
      by (simp add: t_def A dict_simps)
    have pages: "scope_pages t a = (if a = scope then [] else scope_pages g a)" for a by (simp add: scope_pages_def states)
    have live: "pool_live q t = pool_live q g - (if q = pool then int (length (dict_keys (st_pages w))) else 0)" for q
    proof -
      have "pool_live q t = pool_live q (g\<lparr>pp_scope_states := dict_set scope (w\<lparr>st_pages := []\<rparr>) (pp_scope_states g)\<rparr>)"
        by (simp add: t_def A pool_live_def pool_scopes_def scope_pages_def)
      then show ?thesis using pool_live_set [OF D(2), of q scope "w\<lparr>st_pages := []\<rparr>"] w(2) own by auto
    qed
    have "pool_inv t"
      unfolding pool_inv_def fields
    proof (intro conjI allI impI)
      show "keys_distinct (pp_scope_states t)" using D(1) by (simp add: t_def A dict_simps)
      show "dict_get (pp_scope_states t) a = None \<longleftrightarrow> dict_get (pp_scope_pool g) a = None" for a
        using D(3) [of a] w(2) by (auto simp: states)
      show "keys_distinct (st_pages x)" "0 \<le> st_leases x" if "dict_get (pp_scope_states t) a = Some x" for a x
        using that D(4,5) w(1) by (auto simp: states split: if_splits)
      show "0 \<le> p" "p < sp_page_count (the (dict_get (pp_specs g) q))"
        if "dict_get (pp_scope_pool g) a = Some q \<and> p \<in> set (scope_pages t a)" for a q p
        using that D(6) [of a q p] by (auto simp: pages split: if_splits)
      show "p \<notin> set (scope_pages t b)" if "a \<noteq> b \<and> dict_get (pp_scope_pool g) a = Some q \<and> dict_get (pp_scope_pool g) b = Some q
          \<and> p \<in> set (scope_pages t a)" for a b q p
        using that D(7) [of a b q p] by (auto simp: pages split: if_splits)
      show "e \<le> page_epoch p t" if "dict_get (pp_scope_states t) a = Some x \<and> dict_get (st_pages x) p = Some e" for a x p e
        using that D(8) [of a x p e] ep(1) [of p] by (auto simp: states split: if_splits)
    qed (rule D(2))
    moreover have "pool_rel g t"
      unfolding pool_rel_def
    proof (intro conjI allI impI)
      show "(\<exists>y. dict_get (pp_scope_states t) a = Some y \<and> dict_get (st_pages y) p = Some e) \<or> e < page_epoch p t \<or> pp_closed t"
        if x: "dict_get (pp_scope_states g) a = Some x \<and> dict_get (st_pages x) p = Some e" for a x p e
      proof (cases "a = scope")
        case True
        then have "p \<in> set (dict_keys (st_pages w))" using x w(1) by (force dest: dict_get_in_set)
        with ep(2) [of p] D(8) [of a x p e] x show ?thesis by auto
      next
        case False
        with x show ?thesis by (simp add: states)
      qed
    qed (use ep(1) fields in auto)
    moreover have "conserved t" if "conserved g"
      using that w(3) by (auto simp: conserved_def fields dd_get_add live)
    ultimately show ?thesis using ep(2) w(1) A by (auto simp: t_def)
  qed
  then show "pool_inv (snd A)" "pool_rel g (snd A)" "conserved g \<Longrightarrow> conserved (snd A)"
    "A = ret () t \<Longrightarrow> dict_get (pp_scope_states g) scope = Some st \<Longrightarrow> page \<in> set (dict_keys (st_pages st)) \<Longrightarrow>
       page_epoch page g < page_epoch page t" by blast+
qed


lemma pool_live_cong: "scope_pages t = scope_pages g \<Longrightarrow> pp_scope_pool t = pp_scope_pool g \<Longrightarrow> pool_live q t = pool_live q g"
  by (simp add: pool_live_def pool_scopes_def)

lemma dict_get_map_kv: "dict_get (map (\<lambda>(k, v). (k, f k v)) d) k = map_option (f k) (dict_get d k)"
  by (induction d) auto

lemma map_fst_kv: "map fst (map (\<lambda>(k, v). (k, f k v)) d) = map fst d"
  by (induction d) auto

text \<open>
  Operations that leave every scope's pages alone: leases, pins and their releases. Each
  shows the same four facts, collected in \<open>calm\<close>.
\<close>

definition calm :: "registry \<Rightarrow> registry \<Rightarrow> bool" where
  "calm g t \<longleftrightarrow> pool_inv t \<and> pool_rel g t \<and> scope_pages t = scope_pages g \<and> pp_initial_counts t = pp_initial_counts g
     \<and> pp_allocated_counts t = pp_allocated_counts g \<and> pp_freed_counts t = pp_freed_counts g \<and> pp_closed t = pp_closed g"

lemma calm_refl: "pool_inv g \<Longrightarrow> calm g g" by (simp add: calm_def pp_logic.rel_refl)

lemma calm_trans: "calm g t \<Longrightarrow> calm t u \<Longrightarrow> calm g u" by (auto simp: calm_def intro: pp_logic.rel_trans)

lemma calm_conserved: "calm g t \<Longrightarrow> conserved g \<Longrightarrow> conserved t"
  by (auto simp: calm_def conserved_def pool_rel_def pool_live_cong [of t g])

lemma calm_set_scope:
  assumes "pool_inv g" "dict_get (pp_scope_states g) scope = Some st" "st_pages st' = st_pages st" "0 \<le> st_leases st'"
  shows "calm g (g\<lparr>pp_scope_states := dict_set scope st' (pp_scope_states g)\<rparr>)"
  using set_scope_same_pages [OF assms] by (simp add: calm_def)

lemma calm_pins: "calm g t \<Longrightarrow> calm g (t\<lparr>pp_root_pins := r\<rparr>)"
  by (simp add: calm_def bookkeeping_frame scope_pages_def fun_eq_iff)

lemma lease_calm: "pool_inv g \<Longrightarrow> calm g (snd (pp_lease scope binding off n g))"
  using pool_invD(5) [of g scope]
  by (auto simp: pp_lease_def require_scope_def Let_def calm_refl intro!: calm_set_scope split: sum.splits bool.splits option.splits if_splits)

lemma release_calm: "pool_inv g \<Longrightarrow> calm g (snd (release_lease scope g))"
  by (auto simp: release_lease_def calm_refl intro!: calm_set_scope split: option.splits)

lemma pin_scopes_states:
  "pin_scopes sbs g = Inr scopes \<Longrightarrow> scope \<in> set scopes \<Longrightarrow> dict_get (pp_scope_states g) scope \<noteq> None"
proof (induction sbs arbitrary: scopes)
  case (Cons p sbs)
  then show ?case by (cases p) (auto simp: require_scope_def split: option.splits sum.splits if_splits)
qed simp

lemma set_pin_calm: "pool_inv g \<Longrightarrow> dict_get (pp_scope_states g) scope \<noteq> None \<Longrightarrow> calm g (set_pin f scope g)"
  using pool_invD(5) [of g scope] by (auto simp: set_pin_def Let_def intro!: calm_set_scope)

lemma set_pins_calm:
  "pool_inv g \<Longrightarrow> (\<And>scope. scope \<in> set scopes \<Longrightarrow> dict_get (pp_scope_states g) scope \<noteq> None) \<Longrightarrow> calm g (fold (set_pin f) scopes g)"
proof (induction scopes arbitrary: g)
  case (Cons scope scopes)
  have c: "calm g (set_pin f scope g)" using Cons.prems by (intro set_pin_calm) auto
  have "calm (set_pin f scope g) (fold (set_pin f) scopes (set_pin f scope g))"
    using Cons.prems c by (intro Cons.IH) (auto simp: calm_def set_pin_def Let_def dict_simps)
  with c show ?case by (auto intro: calm_trans)
qed (simp add: calm_refl)

lemma pin_root_calm: "pool_inv g \<Longrightarrow> calm g (snd (pin_root rid sbs g))"
  using pin_scopes_states [of sbs g]
  by (auto simp: pin_root_def Let_def calm_refl intro!: calm_pins set_pins_calm split: sum.splits)

lemma unpin_root_calm:
  assumes inv: "pool_inv g"
  shows "calm g (snd (unpin_root rid g))"
proof (cases "dict_get (pp_root_pins g) rid")
  case None
  with inv show ?thesis by (simp add: unpin_root_def calm_refl)
next
  case (Some scopes)
  let ?f = "\<lambda>scope st. if scope \<in> scopes then st\<lparr>st_pinned_roots := st_pinned_roots st - {rid}\<rparr> else st"
  let ?t = "g\<lparr>pp_scope_states := map (\<lambda>(scope, st). (scope, ?f scope st)) (pp_scope_states g)\<rparr>"
  note D = pool_invD [OF inv]
  have pages: "scope_pages ?t = scope_pages g"
  proof
    show "scope_pages ?t a = scope_pages g a" for a
      by (cases "dict_get (pp_scope_states g) a") (simp_all add: scope_pages_def dict_get_map_kv)
  qed
  have "pool_inv ?t"
    unfolding pool_inv_def pages
  proof (intro conjI allI impI)
    show "keys_distinct (pp_scope_states ?t)" using D(1) by (simp add: map_fst_kv del: map_map)
    show "e \<le> page_epoch p ?t" if "dict_get (pp_scope_states ?t) a = Some x \<and> dict_get (st_pages x) p = Some e" for a x p e
      using that D(8) [of a] by (auto simp: dict_get_map_kv split: if_splits)
  qed (use D(2-7) in \<open>auto simp: dict_get_map_kv split: if_splits\<close>)
  moreover have "pool_rel g ?t" unfolding pool_rel_def by (auto simp: dict_get_map_kv)
  ultimately have "calm g ?t" using pages by (simp add: calm_def)
  moreover have "snd (unpin_root rid g) = ?t\<lparr>pp_root_pins := dict_del rid (pp_root_pins g)\<rparr>" using Some by (simp add: unpin_root_def)
  ultimately show ?thesis by (simp add: calm_pins)
qed

lemma abort_effect:
  assumes inv: "pool_inv g"
  shows "pool_inv (snd (abort_after_drain g))" "pool_rel g (snd (abort_after_drain g))" "conserved g \<Longrightarrow> conserved (snd (abort_after_drain g))"
proof -
  note D = pool_invD [OF inv]
  let ?t = "g\<lparr>pp_scope_states := map (\<lambda>(scope, st). (scope, empty_scope)) (pp_scope_states g), pp_root_pins := [], pp_closed := True\<rparr>"
  have empty: "st_pages empty_scope = []" "st_leases empty_scope = 0" by (simp_all add: empty_scope_def)
  have pages: "scope_pages ?t a = []" for a
    by (cases "dict_get (pp_scope_states g) a") (simp_all add: scope_pages_def map_of_map_snd empty)
  have "pool_inv ?t"
    unfolding pool_inv_def
  proof (intro conjI allI impI)
    show "keys_distinct (pp_scope_states ?t)" using D(1) map_fst_kv [of "\<lambda>_ _. empty_scope"] by simp
  qed (use D(2,3) in \<open>auto simp: pages map_of_map_snd empty\<close>)
  moreover have "pool_rel g ?t" by (simp add: pool_rel_def page_epoch_def)
  moreover have "conserved ?t" by (simp add: conserved_def)
  ultimately show "pool_inv (snd (abort_after_drain g))" "pool_rel g (snd (abort_after_drain g))"
    "conserved g \<Longrightarrow> conserved (snd (abort_after_drain g))"
    using inv by (auto simp: abort_after_drain_def pp_logic.rel_refl)
qed

section \<open>The registry as a machine\<close>

text \<open>
  A failed allocation is part of the machine like a successful one. \<open>atomic\<close> holds of an
  operation that leaves the registry alone when it raises; only an allocation whose page
  invalidation fails is not atomic.
\<close>

datatype pp_op =
    PpAllocate string string int
  | PpFree string string
  | PpLease string string int int
  | PpRelease string
  | PpPin int "(string, string) dict"
  | PpUnpin int
  | PpAbort

fun pp_exec :: "pp_op \<Rightarrow> registry \<Rightarrow> registry" where
  "pp_exec (PpAllocate pool scope n) g = snd (pp_allocate pool scope n g)"
| "pp_exec (PpFree pool scope) g = snd (pp_free pool scope g)"
| "pp_exec (PpLease scope binding off n) g = snd (pp_lease scope binding off n g)"
| "pp_exec (PpRelease scope) g = snd (release_lease scope g)"
| "pp_exec (PpPin rid sbs) g = snd (pin_root rid sbs g)"
| "pp_exec (PpUnpin rid) g = snd (unpin_root rid g)"
| "pp_exec PpAbort g = snd (abort_after_drain g)"

fun atomic :: "pp_op \<Rightarrow> registry \<Rightarrow> bool" where
  "atomic (PpAllocate pool scope n) g \<longleftrightarrow> is_ok (pp_allocate pool scope n g) \<or> snd (pp_allocate pool scope n g) = g"
| "atomic _ g \<longleftrightarrow> True"

lemma calm_step: "calm g t \<Longrightarrow> pool_inv t \<and> pool_rel g t \<and> (conserved g \<longrightarrow> conserved t)"
  using calm_conserved [of g t] by (auto simp: calm_def)

lemma pp_step:
  assumes "pool_inv g"
  shows "pool_inv (pp_exec x g) \<and> pool_rel g (pp_exec x g) \<and> (conserved g \<longrightarrow> atomic x g \<longrightarrow> conserved (pp_exec x g))"
  using allocate_effect [OF assms] free_effect [OF assms] abort_effect [OF assms]
    lease_calm [OF assms, THEN calm_step] release_calm [OF assms, THEN calm_step] pin_root_calm [OF assms, THEN calm_step]
    unpin_root_calm [OF assms, THEN calm_step]
  by (cases x) simp_all

interpretation pp: total_machine pp_exec pool_inv
  by unfold_locales (use pp_step in blast)

interpretation pp_strict: guarded_machine atomic pp_exec "\<lambda>g. pool_inv g \<and> conserved g"
  by unfold_locales (use pp_step in blast)

lemma pp_run_rel: "pool_inv g \<Longrightarrow> pool_rel g (run_ops pp_exec ops g)"
proof (induction ops arbitrary: g)
  case (Cons x ops)
  with pp_step [OF Cons.prems, of x] show ?case by (auto intro: pp_logic.rel_trans)
qed (simp add: pp_logic.rel_refl)


section \<open>Initialisation\<close>

definition spec_ok :: "pool_spec \<Rightarrow> bool" where
  "spec_ok spec \<longleftrightarrow> 0 < sp_page_bytes spec \<and> keys_distinct (sp_initial_owners spec) \<and> distinct (concat (dict_values (sp_initial_owners spec)))
     \<and> (\<forall>scope pages. dict_get (sp_initial_owners spec) scope = Some pages \<longrightarrow>
          (\<forall>page \<in> set pages. 0 \<le> page \<and> page < sp_page_count spec))"

lemma map_filter_Nil: "List.map_filter f xs = [] \<longleftrightarrow> (\<forall>x \<in> set xs. f x = None)"
  by (auto simp: List.map_filter_def filter_empty_conv)

lemma pool_spec_new_ok: "pool_spec_new name binding pb pc owners = Inr spec \<Longrightarrow> keys_distinct owners \<Longrightarrow> spec_ok spec"
proof -
  assume new: "pool_spec_new name binding pb pc owners = Inr spec" and keys: "keys_distinct owners"
  then have s: "0 < sp_page_bytes spec" "sp_initial_owners spec = owners" "sp_page_count spec = pc" "distinct (concat (dict_values owners))"
    and none: "\<And>x. x \<in> set owners \<Longrightarrow> owner_error pc x = None"
    by (auto simp: pool_spec_new_def map_filter_Nil split: if_splits list.splits)
  have "0 \<le> page \<and> page < pc" if "dict_get owners scope = Some pages" "page \<in> set pages" for scope pages page
    using none [OF dict_get_in_set [OF that(1)]] that(2) by (auto simp: owner_error_def list_all_iff split: if_splits)
  with s keys show ?thesis by (auto simp: spec_ok_def)
qed

lemma owners_disjoint:
  assumes "spec_ok spec" "dict_get (sp_initial_owners spec) a = Some ps" "dict_get (sp_initial_owners spec) b = Some qs" "a \<noteq> b"
  shows "set ps \<inter> set qs = {}"
proof -
  have "distinct (concat (dict_values d)) \<Longrightarrow> (a, ps) \<in> set d \<Longrightarrow> (b, qs) \<in> set d \<Longrightarrow> a \<noteq> b \<Longrightarrow> set ps \<inter> set qs = {}" for d
    by (induction d) (auto, fastforce+)
  then show ?thesis using assms by (auto simp: spec_ok_def dest!: dict_get_in_set)
qed

lemma owners_pages_distinct: "spec_ok spec \<Longrightarrow> dict_get (sp_initial_owners spec) a = Some ps \<Longrightarrow> distinct ps"
  by (force simp: spec_ok_def distinct_concat_iff dest!: dict_get_in_set)

lemma dict_update_const: "dict_get (dict_update (map (\<lambda>s. (s, c)) xs) d) k = (if k \<in> set xs then Some c else dict_get d k)"
  by (induction xs arbitrary: d) (auto simp: dict_simps)

lemma dict_update_distinct: "keys_distinct d \<Longrightarrow> keys_distinct (dict_update kvs d)"
  by (induction kvs d rule: dict_update.induct) (auto simp: dict_simps)

lemma declare_scopes_update: "declare_scopes pool scopes o1 = Inr o2 \<Longrightarrow> o2 = dict_update (map (\<lambda>s. (s, pool)) scopes) o1"
  by (induction pool scopes o1 rule: declare_scopes.induct) (auto split: if_splits)

definition registering :: "registry \<Rightarrow> bool" where
  "registering g \<longleftrightarrow> keys_distinct (pp_scope_states g) \<and> keys_distinct (pp_scope_pool g)
     \<and> (\<forall>scope. dict_get (pp_scope_states g) scope = None \<longleftrightarrow> dict_get (pp_scope_pool g) scope = None)
     \<and> (\<forall>scope st. dict_get (pp_scope_states g) scope = Some st \<longrightarrow> st = empty_scope)
     \<and> (\<forall>scope pool. dict_get (pp_scope_pool g) scope = Some pool \<longrightarrow> dict_get (pp_specs g) pool \<noteq> None)
     \<and> (\<forall>pool spec. dict_get (pp_specs g) pool = Some spec \<longrightarrow> spec_ok spec)
     \<and> (\<forall>pool. dd_get (pp_initial_counts g) pool = 0 \<and> dd_get (pp_allocated_counts g) pool = 0 \<and> dd_get (pp_freed_counts g) pool = 0)
     \<and> pp_page_epochs g = [] \<and> \<not> pp_closed g"

lemma dd_get_set_zero: "dd_get (dict_set k 0 d) j = (if j = k then 0 else dd_get d j)"
  by (simp add: dd_get_def dict_simps)

lemma register_specs_ok:
  "registering g \<Longrightarrow> list_all spec_ok specs \<Longrightarrow> scope_owners specs (pp_scope_pool g) = Inr owners \<Longrightarrow>
   register_specs specs hbm g = ret () t \<Longrightarrow> registering t \<and> pp_scope_pool t = owners"
proof (induction specs arbitrary: g)
  case (Cons spec specs)
  define scopes where "scopes = dict_keys (sp_initial_owners spec)"
  obtain h where h: "get_handle (sp_binding spec) hbm = Some h" "\<not> hd_size_bytes h < sp_page_count spec * sp_page_bytes spec"
    using Cons.prems(4) by (auto split: option.splits if_splits)
  define g1 where "g1 = g\<lparr>pp_specs := dict_set (sp_name spec) spec (pp_specs g), pp_pool_handles := dict_set (sp_name spec) h (pp_pool_handles g),
     pp_initial_counts := dict_set (sp_name spec) 0 (pp_initial_counts g), pp_allocated_counts := dict_set (sp_name spec) 0 (pp_allocated_counts g),
     pp_freed_counts := dict_set (sp_name spec) 0 (pp_freed_counts g), pp_peaks := dict_set (sp_name spec) 0 (pp_peaks g),
     pp_scope_pool := dict_update (map (\<lambda>s. (s, sp_name spec)) scopes) (pp_scope_pool g),
     pp_scope_states := dict_update (map (\<lambda>s. (s, empty_scope)) scopes) (pp_scope_states g)\<rparr>"
  have run: "register_specs specs hbm g1 = ret () t" using Cons.prems(4) h by (simp add: Let_def g1_def scopes_def)
  obtain o1 where o1: "declare_scopes (sp_name spec) scopes (pp_scope_pool g) = Inr o1" "scope_owners specs o1 = Inr owners"
    using Cons.prems(3) by (auto simp: scopes_def split: sum.splits)
  have "scope_owners specs (pp_scope_pool g1) = Inr owners" using o1 declare_scopes_update [OF o1(1)] by (simp add: g1_def)
  moreover have "registering g1"
    using Cons.prems(1,2) unfolding registering_def g1_def
    by (auto simp: dict_update_const dict_update_distinct dict_simps dd_get_set_zero split: if_splits)
  ultimately show ?case using Cons.IH [OF _ _ _ run] Cons.prems(2) by simp
qed simp

lemma registering_inv: "registering g \<Longrightarrow> pool_inv g \<and> conserved g"
proof -
  assume r: "registering g"
  have emp: "st = empty_scope" if "dict_get (pp_scope_states g) a = Some st" for a st
    using r that unfolding registering_def by blast
  have pages: "scope_pages g a = []" for a
    using emp [of a] by (auto simp: scope_pages_def empty_scope_def split: option.splits)
  have "pool_inv g"
    unfolding pool_inv_def
  proof (intro conjI allI impI)
    show "keys_distinct (st_pages st)" "0 \<le> st_leases st" if "dict_get (pp_scope_states g) a = Some st" for a st
      using emp [OF that] by (simp_all add: empty_scope_def)
    show "e \<le> page_epoch p g" if "dict_get (pp_scope_states g) a = Some st \<and> dict_get (st_pages st) p = Some e" for a st p e
      using emp [of a st] that by (simp add: empty_scope_def)
  qed (use r in \<open>auto simp: pages registering_def\<close>)
  moreover have "conserved g" using r by (auto simp: conserved_def registering_def pool_live_def pages)
  ultimately show ?thesis by blast
qed

lemma pool_inv_initial: "pool_inv (g\<lparr>pp_initial_counts := c\<rparr>) = pool_inv g"
  by (simp add: pool_inv_def page_epoch_def)

lemma grant_initial_ok:
  assumes inv: "pool_inv g" "conserved g" and pool: "dict_get (pp_scope_pool g) scope = Some pool"
    and free: "\<And>a. dict_get (pp_scope_pool g) a = Some pool \<Longrightarrow> page \<notin> set (scope_pages g a)"
    and rng: "0 \<le> page" "page < sp_page_count (the (dict_get (pp_specs g) pool))"
  defines "t \<equiv> grant_initial pool scope page g"
  shows "pool_inv t \<and> conserved t \<and> scope_pages t = (scope_pages g)(scope := scope_pages g scope @ [page])
     \<and> pp_scope_pool t = pp_scope_pool g \<and> pp_specs t = pp_specs g"
proof -
  let ?u = "grant_page scope page g"
  note ok = grant_at_ok [OF inv(1) pool free rng next_epoch_ge, folded grant_page_at]
  note f = only_pages_fields [OF ok(3)]
  have t: "t = ?u\<lparr>pp_initial_counts := dd_add pool 1 (pp_initial_counts ?u)\<rparr>" by (simp add: t_def grant_initial_def Let_def)
  have live: "pool_live q t = pool_live q ?u" for q by (simp add: t pool_live_def)
  have "pool_inv t" using ok(1) by (simp add: t pool_inv_initial)
  moreover have "conserved t"
  proof -
    have "dd_get (dd_add pool 1 (pp_initial_counts g)) q + dd_get (pp_allocated_counts g) q - dd_get (pp_freed_counts g) q = pool_live q t"
      if "\<not> pp_closed g" "dict_get (pp_specs g) q \<noteq> None" for q
      using inv(2) that ok(5) [of q] live [of q] unfolding conserved_def dd_get_add by fastforce
    moreover have "pp_closed t = pp_closed g" "pp_specs t = pp_specs g" "pp_initial_counts t = dd_add pool 1 (pp_initial_counts g)"
      "pp_allocated_counts t = pp_allocated_counts g" "pp_freed_counts t = pp_freed_counts g" by (simp_all add: t f)
    ultimately show ?thesis unfolding conserved_def by (cases "pp_closed g") auto
  qed
  ultimately show ?thesis using ok(4) f by (simp add: t)
qed

lemma grant_initial_fold:
  assumes "pool_inv g" "conserved g" "dict_get (pp_scope_pool g) scope = Some pool" "distinct pages"
    "\<And>a page. page \<in> set pages \<Longrightarrow> dict_get (pp_scope_pool g) a = Some pool \<Longrightarrow> page \<notin> set (scope_pages g a)"
    "\<And>page. page \<in> set pages \<Longrightarrow> 0 \<le> page \<and> page < sp_page_count (the (dict_get (pp_specs g) pool))"
  defines "t \<equiv> fold (grant_initial pool scope) pages g"
  shows "pool_inv t \<and> conserved t \<and> scope_pages t = (scope_pages g)(scope := scope_pages g scope @ pages)
     \<and> pp_scope_pool t = pp_scope_pool g \<and> pp_specs t = pp_specs g"
  using assms(1-6) unfolding t_def
proof (induction pages arbitrary: g)
  case (Cons page pages)
  let ?g = "grant_initial pool scope page g"
  have ok: "pool_inv ?g" "conserved ?g" "scope_pages ?g = (scope_pages g)(scope := scope_pages g scope @ [page])"
    "pp_scope_pool ?g = pp_scope_pool g" "pp_specs ?g = pp_specs g"
    using grant_initial_ok [OF Cons.prems(1-3), of page] Cons.prems(5) [of page] Cons.prems(6) [of page] by auto
  have "pool_inv (fold (grant_initial pool scope) pages ?g) \<and> conserved (fold (grant_initial pool scope) pages ?g)
     \<and> scope_pages (fold (grant_initial pool scope) pages ?g) = (scope_pages ?g)(scope := scope_pages ?g scope @ pages)
     \<and> pp_scope_pool (fold (grant_initial pool scope) pages ?g) = pp_scope_pool ?g
     \<and> pp_specs (fold (grant_initial pool scope) pages ?g) = pp_specs ?g"
    using Cons.prems by (intro Cons.IH) (auto simp: ok)
  then show ?case by (simp add: ok)
qed simp

definition declared :: "registry \<Rightarrow> string \<Rightarrow> string \<Rightarrow> int list" where
  "declared g pool scope = get_default [] (sp_initial_owners (the (dict_get (pp_specs g) pool))) scope"

lemma grant_all_initial_ok:
  assumes "pool_inv g" "conserved g" "keys_distinct owners"
    "\<And>scope pool. (scope, pool) \<in> set owners \<Longrightarrow> dict_get (pp_scope_pool g) scope = Some pool \<and> scope_pages g scope = []"
    "\<And>scope pool. dict_get (pp_scope_pool g) scope = Some pool \<Longrightarrow> set (scope_pages g scope) \<subseteq> set (declared g pool scope)"
    "\<And>scope pool. dict_get (pp_scope_pool g) scope = Some pool \<Longrightarrow> spec_ok (the (dict_get (pp_specs g) pool))"
    "grant_all_initial owners g = ret () t"
  shows "pool_inv t \<and> conserved t"
  using assms
proof (induction owners arbitrary: g)
  case (Cons p owners)
  obtain scope pool where p: "p = (scope, pool)" by (cases p)
  have sp: "dict_get (pp_scope_pool g) scope = Some pool" "scope_pages g scope = []" using Cons.prems(4) p by auto
  let ?spec = "the (dict_get (pp_specs g) pool)"
  obtain pages where pages: "dict_get (sp_initial_owners ?spec) scope = Some pages"
    and run: "grant_all_initial owners (fold (grant_initial pool scope) pages g) = ret () t"
    using Cons.prems(7) p by (auto split: option.splits)
  define u where "u = fold (grant_initial pool scope) pages g"
  have ok: "spec_ok ?spec" by (rule Cons.prems(6) [OF sp(1)])
  have free: "page \<notin> set (scope_pages g a)" if "page \<in> set pages" "dict_get (pp_scope_pool g) a = Some pool" for a page
  proof (cases "a = scope")
    case True
    with sp(2) show ?thesis by simp
  next
    case False
    have "set (scope_pages g a) \<subseteq> set (declared g pool a)" by (rule Cons.prems(5) [OF that(2)])
    moreover have "page \<notin> set (declared g pool a)"
    proof (cases "dict_get (sp_initial_owners ?spec) a")
      case (Some qs)
      with owners_disjoint [OF ok pages Some] False that(1) show ?thesis by (auto simp: declared_def get_default_def)
    qed (simp add: declared_def get_default_def)
    ultimately show ?thesis by blast
  qed
  have rng: "0 \<le> page \<and> page < sp_page_count ?spec" if "page \<in> set pages" for page
    using ok pages that unfolding spec_ok_def by blast
  have u: "pool_inv u \<and> conserved u \<and> scope_pages u = (scope_pages g)(scope := scope_pages g scope @ pages)
     \<and> pp_scope_pool u = pp_scope_pool g \<and> pp_specs u = pp_specs g"
    unfolding u_def by (rule grant_initial_fold [OF Cons.prems(1,2) sp(1) owners_pages_distinct [OF ok pages]]) (use free rng in blast)+
  have decl: "declared u = declared g" using u by (auto simp: declared_def fun_eq_iff)
  show ?case
  proof (rule Cons.IH [of u])
    show "dict_get (pp_scope_pool u) a = Some q \<and> scope_pages u a = []" if "(a, q) \<in> set owners" for a q
      using Cons.prems(3) Cons.prems(4) [of a q] that u p by (force simp: image_iff)
    show "set (scope_pages u a) \<subseteq> set (declared u q a)" if "dict_get (pp_scope_pool u) a = Some q" for a q
      using Cons.prems(5) [of a q] that u sp pages by (auto simp: decl declared_def get_default_def)
  qed (use Cons.prems(3,6) u run p in \<open>auto simp: u_def\<close>)
qed simp

definition specs_ok :: "registry \<Rightarrow> bool" where
  "specs_ok g \<longleftrightarrow> (\<forall>scope pool. dict_get (pp_scope_pool g) scope = Some pool \<longrightarrow> spec_ok (the (dict_get (pp_specs g) pool)))"

lemma specs_ok_rel: "specs_ok g \<Longrightarrow> pool_rel g t \<Longrightarrow> specs_ok t"
  by (simp add: specs_ok_def pool_rel_def)

lemma grant_all_initial_specs:
  "grant_all_initial owners g = ret () t \<Longrightarrow> pp_specs t = pp_specs g \<and> pp_scope_pool t = pp_scope_pool g"
proof (induction owners arbitrary: g)
  case (Cons p owners)
  have fold: "pp_specs (fold (grant_initial pool scope) pages g) = pp_specs g
      \<and> pp_scope_pool (fold (grant_initial pool scope) pages g) = pp_scope_pool g" for pool scope pages and g :: registry
    by (induction pages arbitrary: g) (simp_all add: grant_initial_def grant_page_def Let_def)
  obtain scope pool where p: "p = (scope, pool)" by (cases p)
  with Cons.prems obtain pages where "grant_all_initial owners (fold (grant_initial pool scope) pages g) = ret () t"
    by (auto split: option.splits)
  from Cons.IH [OF this] show ?case using fold [of pool scope pages g] by simp
qed simp

lemma initialize_ok:
  assumes "list_all spec_ok specs" "pp_initialize specs bindings hbm store rg cached registry_new = ret () g"
  shows "pool_inv g \<and> conserved g \<and> specs_ok g"
proof -
  obtain owners g1 g2 where o: "scope_owners specs [] = Inr owners" "register_specs specs hbm registry_new = ret () g1"
    "grant_all_initial owners g1 = ret () g2"
    and g: "\<exists>p. g = g2\<lparr>pp_peaks := p, pp_byte_store := store, pp_run_generation := rg\<rparr>"
    using assms(2)
    by (fastforce simp: pp_initialize_def and_then_def Let_def split: if_splits list.splits sum.splits prod.splits)
  have "registering registry_new" by (simp add: registering_def registry_new_def)
  from register_specs_ok [OF this assms(1) _ o(2)] o(1) have reg: "registering g1" "pp_scope_pool g1 = owners"
    by (simp_all add: registry_new_def)
  have emp: "scope_pages g1 a = []" for a
  proof (cases "dict_get (pp_scope_states g1) a")
    case (Some st)
    then have "st = empty_scope" using reg(1) unfolding registering_def by blast
    with Some show ?thesis by (simp add: scope_pages_def empty_scope_def)
  qed (simp add: scope_pages_def)
  have ok: "specs_ok g1"
    unfolding specs_ok_def
  proof (intro allI impI)
    fix scope pool assume "dict_get (pp_scope_pool g1) scope = Some pool"
    then have "dict_get (pp_specs g1) pool \<noteq> None" using reg(1) unfolding registering_def by blast
    then obtain spec where "dict_get (pp_specs g1) pool = Some spec" by blast
    then show "spec_ok (the (dict_get (pp_specs g1) pool))" using reg(1) unfolding registering_def by auto
  qed
  have "pool_inv g2 \<and> conserved g2"
  proof (rule grant_all_initial_ok [OF _ _ _ _ _ _ o(3)])
    show "pool_inv g1" "conserved g1" using registering_inv [OF reg(1)] by blast+
    show k: "keys_distinct owners" using reg unfolding registering_def by blast
    show "dict_get (pp_scope_pool g1) scope = Some pool \<and> scope_pages g1 scope = []" if "(scope, pool) \<in> set owners" for scope pool
      using that k emp by (simp add: reg(2) dict_get_iff)
    show "spec_ok (the (dict_get (pp_specs g1) pool))" if "dict_get (pp_scope_pool g1) scope = Some pool" for scope pool
      using ok that unfolding specs_ok_def by blast
  qed (simp add: emp)
  moreover have "pool_inv (g2\<lparr>pp_run_generation := rg\<rparr>) = pool_inv g2" "conserved (g2\<lparr>pp_run_generation := rg\<rparr>) = conserved g2" for g2
    by (simp_all add: pool_inv_def conserved_def page_epoch_def scope_pages_def pool_live_def pool_scopes_def cong: option.case_cong)
  moreover have "conserved (g2\<lparr>pp_peaks := p\<rparr>) = conserved g2" "conserved (g2\<lparr>pp_byte_store := b\<rparr>) = conserved g2" for g2 p b
    by (simp_all add: conserved_def bookkeeping_frame)
  moreover have "specs_ok g" using g ok grant_all_initial_specs [OF o(3)] by (auto simp: specs_ok_def)
  ultimately show ?thesis using g by (auto simp: bookkeeping_frame)
qed


section \<open>Scrubbing of allocated pages\<close>

lemma invalidate_pages_effect:
  "store_wf s \<Longrightarrow> invalidate_pages spec h pages s = ret () s' \<Longrightarrow> store_wf s' \<and>
   (\<forall>a. (byte_at s ''hbm'' a = None \<longrightarrow> byte_at s' ''hbm'' a = None) \<and>
     (\<forall>page \<in> set pages. hd_base_address h + page * sp_page_bytes spec \<le> int a \<and>
        int a < hd_base_address h + page * sp_page_bytes spec + sp_page_bytes spec \<longrightarrow> byte_at s' ''hbm'' a = None))"
proof (induction pages arbitrary: s)
  case (Cons page pages)
  obtain s1 where s1: "invalidate_binding_range h (page * sp_page_bytes spec) (sp_page_bytes spec) s = ret () s1"
    "invalidate_pages spec h pages s1 = ret () s'"
    using Cons.prems(2) by (auto simp: and_then_def split: prod.splits sum.splits)
  note eff = invalidate_range_effect [OF Cons.prems(1) s1(1)]
  note IH = Cons.IH [OF eff(1) s1(2)]
  show ?case
  proof (intro conjI allI impI ballI)
    show "store_wf s'" using IH by blast
    show "byte_at s' ''hbm'' a = None" if "byte_at s ''hbm'' a = None" for a
      using IH eff(2) [of "''hbm''" a] that by (metis (full_types))
    show "byte_at s' ''hbm'' a = None"
      if "p \<in> set (page # pages)" "hd_base_address h + p * sp_page_bytes spec \<le> int a \<and>
        int a < hd_base_address h + p * sp_page_bytes spec + sp_page_bytes spec" for a p
    proof (cases "p = page")
      case True
      then have "byte_at s1 ''hbm'' a = None" using eff(2) [of "''hbm''" a] that(2) by simp
      then show ?thesis using IH by blast
    next
      case False
      then show ?thesis using IH that by auto
    qed
  qed
qed simp

lemma unreadable: "store_wf s \<Longrightarrow> 0 \<le> a \<Longrightarrow> i < nat m \<Longrightarrow> byte_at s ''hbm'' (nat a + i) = None \<Longrightarrow> \<exists>e. read_hbm a m s = Inl e"
proof -
  assume wf: "store_wf s" and a: "0 \<le> a" and i: "i < nat m" and b: "byte_at s ''hbm'' (nat a + i) = None"
  have "load_bytes ''hbm'' (nat a) (nat m) s \<noteq> Some xs" for xs
    using load_bytes_iff [OF wf, of "''hbm''" "nat a" "nat m" xs] i b by auto
  then have "load_bytes ''hbm'' (nat a) (nat m) s = None" by (meson not_Some_eq)
  with i a show ?thesis by (simp add: read_hbm_def bs_read_load [OF wf])
qed

lemma initialize_store: "pp_initialize specs bindings hbm store rg cached g = ret () t \<Longrightarrow> pp_byte_store t = store"
  by (auto simp: pp_initialize_def and_then_def Let_def split: if_splits list.splits sum.splits prod.splits)

section \<open>Properties\<close>

definition demo_spec :: "string \<Rightarrow> string \<Rightarrow> (string, int list) dict \<Rightarrow> pool_spec" where
  "demo_spec name binding owners = projr (pool_spec_new name binding 64 3 owners)"

definition demo_pool_hbm :: hbm_region where
  "demo_pool_hbm = run_ops hr_exec [HrBind ''kv'' 0 192 ''rw'' 0, HrBind ''tmp'' 256 192 ''rw'' 0] (hr_new 0 1024 2 (Some demo_store))"

definition demo_pool_store :: byte_store where
  "demo_pool_store = the (hr_byte_store demo_pool_hbm)"

definition demo_specs :: "pool_spec list" where
  "demo_specs = [demo_spec ''kv_pool'' ''kv'' [(''a'', [0]), (''b'', [1])]]"

definition demo_registry :: registry where
  "demo_registry = snd (pp_initialize demo_specs [''kv'', ''tmp''] demo_pool_hbm (Some demo_pool_store) 0 None registry_new)"

lemma demo_registry_init: "pp_initialize demo_specs [''kv'', ''tmp''] demo_pool_hbm (Some demo_pool_store) 0 None registry_new = ret () demo_registry"
proof -
  have "fst (pp_initialize demo_specs [''kv'', ''tmp''] demo_pool_hbm (Some demo_pool_store) 0 None registry_new) = Inr ()" by code_simp
  then show ?thesis unfolding demo_registry_def by (metis prod.collapse)
qed

lemma demo_specs_ok: "list_all spec_ok demo_specs"
proof -
  have "pool_spec_new ''kv_pool'' ''kv'' 64 3 [(''a'', [0]), (''b'', [1])] = Inr (demo_spec ''kv_pool'' ''kv'' [(''a'', [0]), (''b'', [1])])"
    by code_simp
  from pool_spec_new_ok [OF this] show ?thesis by (simp add: demo_specs_def)
qed

text \<open>C27. Page ownership is exclusive and conserved: from a successful initialisation, whatever
  sequence of allocations, releases, leases, pins and aborts follows, two scopes of one pool
  never own the same page and every owned page exists in its pool; and as long as no failed
  allocation has left pages behind, the pages granted minus the pages freed are exactly the
  live pages of every pool until the registry is closed.
\<close>

theorem pool_pages_exclusive:
  assumes "list_all spec_ok specs" and "pp_initialize specs bindings hbm store rg cached registry_new = ret () g0"
    and "g = run_ops pp_exec ops g0"
  shows "(\<forall>a b pool page. a \<noteq> b \<and> dict_get (pp_scope_pool g) a = Some pool \<and> dict_get (pp_scope_pool g) b = Some pool
            \<and> page \<in> set (scope_pages g a) \<longrightarrow> page \<notin> set (scope_pages g b))
     \<and> (\<forall>a pool page. dict_get (pp_scope_pool g) a = Some pool \<and> page \<in> set (scope_pages g a) \<longrightarrow>
            0 \<le> page \<and> page < sp_page_count (the (dict_get (pp_specs g) pool)))
     \<and> (legal_run atomic pp_exec ops g0 \<longrightarrow> \<not> pp_closed g \<longrightarrow> (\<forall>pool. dict_get (pp_specs g) pool \<noteq> None \<longrightarrow>
            dd_get (pp_initial_counts g) pool + dd_get (pp_allocated_counts g) pool - dd_get (pp_freed_counts g) pool = pool_live pool g))"
proof -
  note init = initialize_ok [OF assms(1,2)]
  have inv: "pool_inv g" unfolding assms(3) using pp.any_run_inv init by blast
  have "conserved g" if "legal_run atomic pp_exec ops g0"
    unfolding assms(3) using pp_strict.run_inv [of g0 ops] init that by blast
  then show ?thesis using pool_invD(6,7) [OF inv] unfolding conserved_def by blast
qed

theorem pool_pages_exclusive_witness:
  "pool_live ''kv_pool'' (run_ops pp_exec [PpAllocate ''kv_pool'' ''b'' 1, PpFree ''kv_pool'' ''a''] demo_registry) = 2"
proof -
  let ?ops = "[PpAllocate ''kv_pool'' ''b'' 1, PpFree ''kv_pool'' ''a'']"
  let ?g = "run_ops pp_exec ?ops demo_registry"
  have e: "fst (pp_allocate ''kv_pool'' ''b'' 1 demo_registry) = Inr \<lparr>pa_scope = ''b'', pa_pool = ''kv_pool'', pa_pages = [2], pa_epochs = [1]\<rparr>"
    "\<not> pp_closed ?g" "dict_get (pp_specs ?g) ''kv_pool'' \<noteq> None" "dd_get (pp_initial_counts ?g) ''kv_pool'' = 2"
    "dd_get (pp_allocated_counts ?g) ''kv_pool'' = 1" "dd_get (pp_freed_counts ?g) ''kv_pool'' = 1" by code_simp+
  have "legal_run atomic pp_exec ?ops demo_registry" using e(1) by (simp add: is_ok_def)
  with conjunct2 [OF conjunct2 [OF pool_pages_exclusive [OF demo_specs_ok demo_registry_init refl, of ?ops]]] e
  show ?thesis by (auto dest: spec [of _ "''kv_pool''"])
qed

text \<open>C28. A lease that lost its pages is dead for ever: once a scope has freed its pages, a lease
  it obtained before is invalid and stays invalid through every later operation, allocations
  of the same pages to the same scope included, so a late return can never pass for the new
  owner's access.
\<close>

theorem stale_lease_never_valid:
  assumes "list_all spec_ok specs" and "pp_initialize specs bindings hbm store rg cached registry_new = ret () g0"
    and "g = run_ops pp_exec ops g0" and "pp_lease scope binding off n g = ret l g1"
    and "g2 = run_ops pp_exec between g1" and "pp_free pool scope g2 = ret () g3"
  shows "\<not> lease_is_valid l (run_ops pp_exec later g3)"
proof -
  note init = initialize_ok [OF assms(1,2)]
  have inv: "pool_inv g" unfolding assms(3) using pp.any_run_inv init by blast
  have "specs_ok g" unfolding assms(3) using init pp_run_rel [of g0 ops] specs_ok_rel by blast
  note D = pool_invD [OF inv]
  have own: "scope_owns_range scope binding off n g = Inr True"
    using assms(4) by (auto simp: pp_lease_def split: sum.splits bool.splits)
  obtain st where st: "dict_get (pp_scope_states g) scope = Some st" "0 < n"
    and l: "l = \<lparr>ls_scope = scope, ls_epochs = map (\<lambda>page. (page, the (dict_get (st_pages st) page))) (page_range (spec_of scope g) off n), ls_acquired = {}\<rparr>"
    and g1: "g1 = snd (pp_lease scope binding off n g)"
    using assms(4) own by (auto simp: pp_lease_def scope_owns_range_def require_scope_def Let_def split: option.splits if_splits)
  obtain q where q: "dict_get (pp_scope_pool g) scope = Some q" using D(3) [of scope] st(1) by fastforce
  then have pb: "0 < sp_page_bytes (spec_of scope g)"
    using \<open>specs_ok g\<close> by (simp add: specs_ok_def spec_of_def pool_of_def spec_ok_def)
  define p where "p = off div sp_page_bytes (spec_of scope g)"
  have pr: "p \<in> set (page_range (spec_of scope g) off n)"
    using st(2) pb by (auto simp: page_range_def p_def intro: zdiv_mono1)
  have "p \<in> set (scope_pages g scope)"
    using own pr by (auto simp: scope_owns_range_def list_all_iff Let_def split: if_splits sum.splits)
  then have "dict_get (st_pages st) p \<noteq> None" using st(1) by (simp add: scope_pages_def dict_get_None_iff)
  then obtain e where e: "dict_get (st_pages st) p = Some e" by blast
  have le: "(p, e) \<in> set (ls_epochs l)" using pr e l by (auto simp: image_iff intro!: bexI [of _ p])
  have r02: "pool_inv g1" "pool_rel g g1" using lease_calm [OF inv] g1 by (auto simp: calm_def)
  have inv2: "pool_inv g2" unfolding assms(5) by (rule pp.any_run_inv [OF r02(1)])
  have rel2: "pool_rel g g2" unfolding assms(5) using r02 pp_run_rel pp_logic.rel_trans by blast
  have "\<not> pp_closed g2" using assms(6) by (auto simp: pp_free_def split: if_splits)
  then consider (held) st2 where "dict_get (pp_scope_states g2) scope = Some st2" "dict_get (st_pages st2) p = Some e"
    | (gone) "e < page_epoch p g2"
    using rel2 st(1) e unfolding pool_rel_def by blast
  then have "e < page_epoch p g3"
  proof cases
    case held
    have "p \<in> set (dict_keys (st_pages st2))" using held(2) by (force dest: dict_get_in_set)
    from free_effect(4) [OF inv2 assms(6) held(1) this] pool_invD(8) [OF inv2 held] show ?thesis by linarith
  next
    case gone
    have "pool_rel g2 g3" using free_effect(2) [OF inv2, of pool scope] assms(6) by simp
    then have "page_epoch p g2 \<le> page_epoch p g3" by (simp add: pool_rel_def)
    with gone show ?thesis by linarith
  qed
  moreover have "pool_inv g3" using free_effect(1) [OF inv2, of pool scope] assms(6) by simp
  then have "page_epoch p g3 \<le> page_epoch p (run_ops pp_exec later g3)" using pp_run_rel [of g3 later] by (simp add: pool_rel_def)
  ultimately show ?thesis using le by (auto simp: lease_is_valid_def list_all_iff intro!: bexI [of _ "(p, e)"])
qed

definition demo_lease :: access_lease where
  "demo_lease = \<lparr>ls_scope = ''a'', ls_epochs = [(0, 0)], ls_acquired = {}\<rparr>"

theorem stale_lease_never_valid_witness:
  "\<not> lease_is_valid demo_lease (run_ops pp_exec [PpAllocate ''kv_pool'' ''a'' 2]
      (snd (pp_free ''kv_pool'' ''a'' (run_ops pp_exec [PpRelease ''a''] (snd (pp_lease ''a'' ''kv'' 8 16 demo_registry))))))"
proof -
  let ?g1 = "snd (pp_lease ''a'' ''kv'' 8 16 demo_registry)"
  let ?g2 = "run_ops pp_exec [PpRelease ''a''] ?g1"
  have "fst (pp_lease ''a'' ''kv'' 8 16 demo_registry) = Inr demo_lease" by code_simp
  then have l: "pp_lease ''a'' ''kv'' 8 16 (run_ops pp_exec [] demo_registry) = ret demo_lease ?g1" by (simp add: prod_eq_iff)
  have "fst (pp_free ''kv_pool'' ''a'' ?g2) = Inr ()" by code_simp
  then have f: "pp_free ''kv_pool'' ''a'' ?g2 = ret () (snd (pp_free ''kv_pool'' ''a'' ?g2))" by (simp add: prod_eq_iff)
  show ?thesis by (rule stale_lease_never_valid [OF demo_specs_ok demo_registry_init refl l refl f])
qed

text \<open>A new owner never sees an old owner's bytes: when an allocation succeeds, every read of
  the backing memory that touches a byte of one of the granted pages fails until something
  is written there.
\<close>

theorem allocated_pages_scrubbed:
  assumes "list_all spec_ok specs" and "pp_initialize specs bindings hbm store rg cached registry_new = ret () g0"
    and "g = run_ops pp_exec ops g0" and "pp_byte_store g = Some s" and "store_wf s"
    and "pp_allocate pool scope n g = ret alloc g'" and "page \<in> set (pa_pages alloc)"
    and "first = hd_base_address (the (dict_get (pp_pool_handles g) pool)) + page * sp_page_bytes (the (dict_get (pp_specs g) pool))"
    and "0 \<le> a" and "a < first + sp_page_bytes (the (dict_get (pp_specs g) pool))" and "first < a + m" and "0 < m"
  shows "\<exists>s' e. pp_byte_store g' = Some s' \<and> read_hbm a m s' = Inl e"
proof -
  let ?spec = "the (dict_get (pp_specs g) pool)" and ?h = "the (dict_get (pp_pool_handles g) pool)"
  have inv: "pool_inv g" unfolding assms(3) using pp.any_run_inv initialize_ok [OF assms(1,2)] by blast
  define pages where "pages = take (nat n) (sort (free_pages pool g))"
  define t where "t = fold (bump_and_grant scope) pages g"
  from allocate_cases [OF inv, of pool scope n, folded pages_def, folded t_def] assms(6)
  have ok: "only_pages g t" "pp_allocate pool scope n g = and_then (pp_invalidate pool pages t) (\<lambda>_ g. finish_allocation pool scope n pages g)"
    by auto
  note f = only_pages_fields [OF ok(1)]
  obtain s' where inval: "invalidate_pages ?spec ?h pages s = ret () s'" and g': "pp_byte_store g' = Some s'" and pa: "pa_pages alloc = pages"
    using assms(4,6) ok(2)
    by (auto simp: pp_invalidate_def f finish_allocation_def Let_def and_then_def split: prod.splits sum.splits)
  have "0 < sp_page_bytes ?spec"
    using inval assms(7) pa by (cases pages) (auto simp: invalidate_binding_range_def and_then_def split: if_splits)
  let ?i = "nat (max a first - a)"
  have i: "?i < nat m" "first \<le> int (nat a + ?i)" "int (nat a + ?i) < first + sp_page_bytes ?spec"
    using assms(9-12) \<open>0 < sp_page_bytes ?spec\<close> by (auto simp: max_def)
  note eff = invalidate_pages_effect [OF assms(5) inval]
  have "byte_at s' ''hbm'' (nat a + ?i) = None"
    using conjunct2 [OF spec [OF conjunct2 [OF eff], of "nat a + ?i"]] assms(7) pa i(2,3) unfolding assms(8) by blast
  with unreadable [OF conjunct1 [OF eff] assms(9) i(1)] g' show ?thesis by blast
qed

theorem allocated_pages_scrubbed_witness:
  "\<exists>s' e. pp_byte_store (snd (pp_allocate ''kv_pool'' ''b'' 1 demo_registry)) = Some s' \<and> read_hbm 130 1 s' = Inl e"
proof -
  have "fst (pp_allocate ''kv_pool'' ''b'' 1 demo_registry) = Inr \<lparr>pa_scope = ''b'', pa_pool = ''kv_pool'', pa_pages = [2], pa_epochs = [1]\<rparr>"
    by code_simp
  then have a: "pp_allocate ''kv_pool'' ''b'' 1 (run_ops pp_exec [] demo_registry)
      = ret \<lparr>pa_scope = ''b'', pa_pool = ''kv_pool'', pa_pages = [2], pa_epochs = [1]\<rparr> (snd (pp_allocate ''kv_pool'' ''b'' 1 demo_registry))"
    by (simp add: prod_eq_iff)
  have "hr_byte_store demo_pool_hbm \<noteq> None" by code_simp
  moreover have "hr_inv demo_pool_hbm" unfolding demo_pool_hbm_def by (rule hr.any_run_inv [OF hr_new_inv [OF demo_store_fresh]])
  ultimately have wf: "store_wf demo_pool_store"
    using hr_invD(6) [of demo_pool_hbm] by (auto simp: store_synced_def demo_pool_store_def)
  have v: "hd_base_address (the (dict_get (pp_pool_handles demo_registry) ''kv_pool'')) = 0"
    "sp_page_bytes (the (dict_get (pp_specs demo_registry) ''kv_pool'')) = 64" by code_simp+
  have st: "pp_byte_store (run_ops pp_exec [] demo_registry) = Some demo_pool_store"
    using initialize_store [OF demo_registry_init] by simp
  show ?thesis
    by (rule allocated_pages_scrubbed [OF demo_specs_ok demo_registry_init refl st wf a, of 2 "128"]) (simp_all add: v)
qed

section \<open>Where the code departs from its documentation\<close>

text \<open>
  Page ids are per pool, but epochs and \<open>_page_owner\<close> are keyed by the bare page id. With two
  pools that both use page 0, a lease the registry has just granted to the second pool's
  scope is already invalid, because the owner search finds the first pool's scope.
\<close>

definition two_pools :: registry where
  "two_pools = snd (pp_initialize [demo_spec ''kv_pool'' ''kv'' [(''a'', [0])], demo_spec ''tmp_pool'' ''tmp'' [(''c'', [0])]]
     [''kv'', ''tmp''] demo_pool_hbm None 0 None registry_new)"

theorem fresh_lease_invalid_across_pools:
  "\<exists>l. fst (pp_lease ''c'' ''tmp'' 0 16 two_pools) = Inr l \<and> \<not> lease_is_valid l (snd (pp_lease ''c'' ''tmp'' 0 16 two_pools))"
proof -
  have "fst (pp_lease ''c'' ''tmp'' 0 16 two_pools) = Inr \<lparr>ls_scope = ''c'', ls_epochs = [(0, 0)], ls_acquired = {}\<rparr>" by code_simp
  moreover have "\<not> lease_is_valid \<lparr>ls_scope = ''c'', ls_epochs = [(0, 0)], ls_acquired = {}\<rparr> (snd (pp_lease ''c'' ''tmp'' 0 16 two_pools))"
    by code_simp
  ultimately show ?thesis by blast
qed

text \<open>
  \<open>allocate\<close> promises to be atomic on failure, but it grants the pages before it invalidates
  their bytes. When the byte store refuses the invalidation, here because a dirty cache line
  covers the page, the allocation raises and the scope owns the page all the same, outside
  the counters.
\<close>

definition dirty_store :: byte_store where
  "dirty_store = run_ops bs_exec [BsRegisterCache ''l2'' 0 0,
     BsSeedCache \<lparr>ss_level = ''l2'', ss_pool_id = 0, ss_binding_name = ''kv'', ss_source_offset = 128, ss_data = [9, 9, 9, 9], ss_dirty = True\<rparr>]
     demo_pool_store"

definition dirty_registry :: registry where
  "dirty_registry = snd (pp_initialize demo_specs [''kv'', ''tmp''] demo_pool_hbm (Some dirty_store) 0 None registry_new)"

theorem failed_allocation_keeps_page:
  "fst (pp_allocate ''kv_pool'' ''b'' 1 dirty_registry) = Inl (MemoryInvariantError ''dirty cache line cannot be invalidated without clean'')
   \<and> scope_pages (snd (pp_allocate ''kv_pool'' ''b'' 1 dirty_registry)) ''b'' = [1, 2]
   \<and> pp_allocated_counts (snd (pp_allocate ''kv_pool'' ''b'' 1 dirty_registry)) = pp_allocated_counts dirty_registry"
proof (intro conjI)
  show "fst (pp_allocate ''kv_pool'' ''b'' 1 dirty_registry) = Inl (MemoryInvariantError ''dirty cache line cannot be invalidated without clean'')"
    by code_simp
  show "scope_pages (snd (pp_allocate ''kv_pool'' ''b'' 1 dirty_registry)) ''b'' = [1, 2]" by code_simp
  show "pp_allocated_counts (snd (pp_allocate ''kv_pool'' ''b'' 1 dirty_registry)) = pp_allocated_counts dirty_registry" by code_simp
qed

text \<open>
  The check for a pool name registered twice compares with the pools registered before the
  call, so two declarations of one call may share a name; the later one replaces the earlier.
\<close>

theorem duplicate_pool_name_accepted:
  "let r = pp_initialize [demo_spec ''p'' ''kv'' [], demo_spec ''p'' ''tmp'' []] [''kv'', ''tmp''] demo_pool_hbm None 0 None registry_new
   in fst r = Inr () \<and> map (sp_binding \<circ> snd) (pp_specs (snd r)) = [''tmp'']"
  by code_simp

end
