(* ===== verification/Reset_Domain.thy ===== *)
theory Reset_Domain
  imports Event_Table Program_Table Stream_Queue Noc_Router Fault_Ring "HOL-Library.Sublist"
begin

text \<open>
  The reset and drain machine of \<open>src/pipeline_validator/runtime/reset_domain.py\<close>. It works on a tile
  group: the event table, the program table, the stream queues and the router are the models
  of this library; tiles, transfer manager, profile controller and the release of context
  memory are the ports below, functions on the group whose remaining state has type \<open>'e\<close>. The
  code probes its ports with \<open>getattr\<close> and \<open>hasattr\<close>; a probe that may fail is an option.
\<close>

section \<open>The machine and its ports\<close>

datatype reset_state =
    RS_IDLE | RS_FAULT_DETECTED | RS_STOP_QUEUE | RS_FREEZE_DISPATCH | RS_DRAIN_SAFE
  | RS_MARK_EVENTS | RS_RESET_DOMAIN | RS_CLEAR_CREDIT_CACHE | RS_RESUME | RS_DONE

record reset_request =
  rq_domain :: fault_domain
  rq_tile_id :: int
  rq_queue_id :: int
  rq_fault_record :: "fault_record option"

record reset_domain =
  rd_max_drain_cycles :: "int option"
  rd_state :: reset_state
  rd_request :: "reset_request option"
  rd_start_cycle :: int
  rd_drain_cycles :: int

definition rd_new :: "int option \<Rightarrow> reset_domain" where
  "rd_new bound = \<lparr>rd_max_drain_cycles = bound, rd_state = RS_IDLE, rd_request = None,
     rd_start_cycle = 0, rd_drain_cycles = 0\<rparr>"

record 'e reset_group =
  rg_event_table :: event_table
  rg_program_table :: program_table
  rg_queues :: "(int, stream_queue) dict"
  rg_noc :: "noc_router option"
  rg_rest :: 'e

type_synonym ('e, 'a) rg_result = "('e reset_group, 'a) outcome"

record 'e transfer_port =
  tp_cancellation_pending :: "'e reset_group \<Rightarrow> bool"
  tp_cancel_all :: "int \<Rightarrow> 'e reset_group \<Rightarrow> ('e, unit) rg_result"
  tp_quiescent :: "'e reset_group \<Rightarrow> bool"
  tp_inflight :: "'e reset_group \<Rightarrow> int"
  tp_cancel_requested :: "'e reset_group \<Rightarrow> int"
  tp_hbm_outstanding :: "'e reset_group \<Rightarrow> int"
  tp_stages :: "'e reset_group \<Rightarrow> (string, int \<times> int) dict"

record 'e controller_port =
  cp_request_cancel_all :: "(int \<Rightarrow> 'e reset_group \<Rightarrow> ('e, unit) rg_result) option"
  cp_initialized :: "('e reset_group \<Rightarrow> bool) option"
  cp_cancellation_pending :: "('e reset_group \<Rightarrow> bool) option"

record 'e tile_port =
  tl_uce :: bool
  tl_clear_engine_queues :: "('e reset_group \<Rightarrow> ('e, unit) rg_result) option"
  tl_begin_reset_drain :: "(int \<Rightarrow> 'e reset_group \<Rightarrow> ('e, unit) rg_result) option"
  tl_request_cancel_active :: "(int \<Rightarrow> 'e reset_group \<Rightarrow> ('e, unit) rg_result) option"
  tl_retire_isolated :: "(int \<Rightarrow> 'e reset_group \<Rightarrow> ('e, unit) rg_result) option"
  tl_accepted_count :: "string \<Rightarrow> ('e reset_group \<Rightarrow> int) option"
  tl_l1_mshr_active :: "('e reset_group \<Rightarrow> int) option"

record 'e reset_ports =
  rp_tiles :: "'e tile_port list option"
  rp_transfer_manager :: "'e transfer_port option"
  rp_profile_controller :: "'e controller_port option"
  rp_l2_mshr_active :: "('e reset_group \<Rightarrow> int) option"
  rp_collective_jobs :: "'e reset_group \<Rightarrow> nat"
  rp_release_context_memory :: "(int \<Rightarrow> 'e reset_group \<Rightarrow> ('e, bool) rg_result) option"

section \<open>Operations\<close>

definition rd_begin :: "reset_request \<Rightarrow> int \<Rightarrow> reset_domain \<Rightarrow> reset_domain" where
  "rd_begin req cycle d =
     d\<lparr>rd_request := Some req, rd_state := RS_FAULT_DETECTED, rd_start_cycle := cycle\<rparr>"

definition rd_is_active :: "reset_domain \<Rightarrow> bool" where
  "rd_is_active d \<longleftrightarrow> rd_state d \<noteq> RS_IDLE \<and> rd_state d \<noteq> RS_DONE"

definition rd_is_done :: "reset_domain \<Rightarrow> bool" where
  "rd_is_done d \<longleftrightarrow> rd_state d = RS_DONE"

definition rd_reset :: "reset_domain \<Rightarrow> reset_domain" where
  "rd_reset d = d\<lparr>rd_state := RS_IDLE, rd_request := None, rd_start_cycle := 0, rd_drain_cycles := 0\<rparr>"

text \<open>A probed method: absent is the error of the integration check.\<close>

definition call_port ::
  "string \<Rightarrow> ('e reset_group \<Rightarrow> ('e, 'a) rg_result) option \<Rightarrow> 'e reset_group \<Rightarrow> ('e, 'a) rg_result" where
  "call_port missing f g =
     (case f of None \<Rightarrow> raise (MemoryInvariantError missing) g | Some h \<Rightarrow> h g)"

fun cancel_unissued_tiles :: "int \<Rightarrow> 'e tile_port list \<Rightarrow> 'e reset_group \<Rightarrow> ('e, unit) rg_result" where
  "cancel_unissued_tiles cycle [] g = ret () g"
| "cancel_unissued_tiles cycle (tile # tiles) g =
     (if \<not> tl_uce tile then raise (MemoryInvariantError ''reset integration is missing Tile UCE'') g
      else and_then (call_port ''Tile UCE lacks unissued engine-request cancellation''
                       (tl_clear_engine_queues tile) g) (\<lambda>_ g.
        and_then (call_port ''Tile MFE lacks reset-drain cancellation''
                    (map_option (\<lambda>f. f cycle) (tl_begin_reset_drain tile)) g) (\<lambda>_ g.
          cancel_unissued_tiles cycle tiles g)))"

definition cancel_unissued_engine_requests ::
  "'e reset_ports \<Rightarrow> int \<Rightarrow> 'e reset_group \<Rightarrow> ('e, unit) rg_result" where
  "cancel_unissued_engine_requests ports cycle g =
     (case rp_tiles ports of
        None \<Rightarrow> raise (MemoryInvariantError ''reset integration is missing Tile list'') g
      | Some tiles \<Rightarrow>
          and_then (cancel_unissued_tiles cycle tiles g) (\<lambda>_ g.
            case rp_profile_controller ports of
              None \<Rightarrow> raise (MemoryInvariantError ''reset integration is missing ProfileController'') g
            | Some pc \<Rightarrow>
                call_port ''ProfileController lacks live-command cancellation''
                  (map_option (\<lambda>f. f cycle) (cp_request_cancel_all pc)) g))"

fun engines_idle :: "string list \<Rightarrow> 'e tile_port \<Rightarrow> 'e reset_group \<Rightarrow> ('e, bool) rg_result" where
  "engines_idle [] tile g = ret True g"
| "engines_idle (name # names) tile g =
     (case tl_accepted_count tile name of
        None \<Rightarrow> raise (MemoryInvariantError ''reset integration is missing accepted-job accounting'') g
      | Some count_of \<Rightarrow> if count_of g \<noteq> 0 then ret False g else engines_idle names tile g)"

definition tile_engines :: "string list" where
  "tile_engines = [''boa'', ''evu'', ''mfe'', ''use'']"

fun tiles_idle :: "int \<Rightarrow> 'e tile_port list \<Rightarrow> 'e reset_group \<Rightarrow> ('e, bool) rg_result" where
  "tiles_idle cycle [] g = ret True g"
| "tiles_idle cycle (tile # tiles) g =
     and_then (call_port ''reset integration lacks MFE isolation retirement''
                 (map_option (\<lambda>f. f cycle) (tl_retire_isolated tile)) g) (\<lambda>_ g.
       and_then (engines_idle tile_engines tile g) (\<lambda>idle g.
         if \<not> idle then ret False g
         else case tl_l1_mshr_active tile of
                None \<Rightarrow> raise (MemoryInvariantError ''reset integration is missing L1 MSHR'') g
              | Some active \<Rightarrow> if active g \<noteq> 0 then ret False g else tiles_idle cycle tiles g))"

definition transfers_idle :: "'e transfer_port \<Rightarrow> 'e reset_group \<Rightarrow> bool" where
  "transfers_idle tm g \<longleftrightarrow>
     \<not> (\<not> tp_quiescent tm g \<or> tp_cancellation_pending tm g) \<and>
     \<not> tp_hbm_outstanding tm g \<noteq> 0 \<and>
     \<not> list_ex (\<lambda>(name, busy, outstanding). busy \<noteq> 0 \<or> outstanding \<noteq> 0) (tp_stages tm g)"

definition outstanding_zero :: "'e reset_ports \<Rightarrow> int \<Rightarrow> 'e reset_group \<Rightarrow> ('e, bool) rg_result" where
  "outstanding_zero ports cycle g =
     (case rp_transfer_manager ports of
        None \<Rightarrow> raise (MemoryInvariantError ''reset integration is missing TransferManager'') g
      | Some tm \<Rightarrow>
          if \<not> transfers_idle tm g then ret False g
          else if (case rg_noc g of None \<Rightarrow> False | Some noc \<Rightarrow> \<not> noc_is_quiescent noc) then ret False g
          else if rp_collective_jobs ports g \<noteq> 0 then ret False g
          else case rp_profile_controller ports of
            None \<Rightarrow> raise (MemoryInvariantError ''reset integration is missing ProfileController'') g
          | Some pc \<Rightarrow>
              (case (cp_initialized pc, cp_cancellation_pending pc) of
                 (Some initialized, Some pending) \<Rightarrow>
                   if \<not> initialized g \<or> pending g then ret False g
                   else (case rp_tiles ports of
                     None \<Rightarrow> raise (MemoryInvariantError ''reset integration is missing Tile list'') g
                   | Some tiles \<Rightarrow>
                       and_then (tiles_idle cycle tiles g) (\<lambda>idle g.
                         if \<not> idle then ret False g
                         else case rp_l2_mshr_active ports of
                                None \<Rightarrow> raise (MemoryInvariantError ''reset integration is missing L2 MSHR'') g
                              | Some active \<Rightarrow> ret (active g = 0) g))
               | _ \<Rightarrow> raise (MemoryInvariantError ''ProfileController lacks typed cancellation accounting'') g))"

fun request_mfe_cancels :: "int \<Rightarrow> 'e tile_port list \<Rightarrow> 'e reset_group \<Rightarrow> ('e, unit) rg_result" where
  "request_mfe_cancels cycle [] g = ret () g"
| "request_mfe_cancels cycle (tile # tiles) g =
     and_then (call_port ''reset integration lacks accepted MFE cancellation''
                 (map_option (\<lambda>f. f cycle) (tl_request_cancel_active tile)) g) (\<lambda>_ g.
       request_mfe_cancels cycle tiles g)"

definition drain_timeout :: "'e reset_ports \<Rightarrow> int \<Rightarrow> 'e reset_group \<Rightarrow> ('e, unit) rg_result" where
  "drain_timeout ports cycle g =
     and_then (case rp_transfer_manager ports of None \<Rightarrow> ret () g | Some tm \<Rightarrow> tp_cancel_all tm cycle g) (\<lambda>_ g.
       request_mfe_cancels cycle (case rp_tiles ports of None \<Rightarrow> [] | Some tiles \<Rightarrow> tiles) g)"

text \<open>One step of the machine; the group argument of the code may be absent.\<close>

type_synonym 'e reset_sys = "reset_domain \<times> 'e reset_group option"

definition on_group ::
  "('e, 'a) rg_result \<Rightarrow> reset_domain \<Rightarrow> ('a \<Rightarrow> 'e reset_group \<Rightarrow> ('e reset_sys, 'b) outcome) \<Rightarrow> ('e reset_sys, 'b) outcome" where
  "on_group r d k = (case r of (Inl e, g) \<Rightarrow> raise e (d, Some g) | (Inr x, g) \<Rightarrow> k x g)"

abbreviation rd_goto :: "reset_state \<Rightarrow> reset_domain \<Rightarrow> reset_domain" where
  "rd_goto st d \<equiv> d\<lparr>rd_state := st\<rparr>"

definition step_freeze_dispatch :: "'e reset_ports \<Rightarrow> int \<Rightarrow> 'e reset_sys \<Rightarrow> ('e reset_sys, unit) outcome" where
  "step_freeze_dispatch ports cycle s =
     (case s of
        (d, None) \<Rightarrow> ret () (rd_goto RS_DRAIN_SAFE d, None)
      | (d, Some g) \<Rightarrow>
          on_group (cancel_unissued_engine_requests ports cycle g) d (\<lambda>_ g.
            ret () (rd_goto RS_DRAIN_SAFE d, Some g)))"

definition step_drain_safe :: "'e reset_ports \<Rightarrow> int \<Rightarrow> 'e reset_sys \<Rightarrow> ('e reset_sys, unit) outcome" where
  "step_drain_safe ports cycle s =
     (case s of
        (d, None) \<Rightarrow> ret () (rd_goto RS_MARK_EVENTS d, None)
      | (d, Some g) \<Rightarrow>
          on_group (outstanding_zero ports cycle g) d (\<lambda>zero g.
            if zero then
              (case rp_transfer_manager ports of
                 Some tm \<Rightarrow> if tp_cancellation_pending tm g then ret () (rd_goto RS_DRAIN_SAFE d, Some g)
                           else ret () (rd_goto RS_MARK_EVENTS d, Some g)
               | None \<Rightarrow> ret () (rd_goto RS_MARK_EVENTS d, Some g))
            else
              let d = d\<lparr>rd_drain_cycles := rd_drain_cycles d + 1\<rparr>
              in if rd_drain_cycles d > (case rd_max_drain_cycles d of None \<Rightarrow> 100 | Some n \<Rightarrow> n)
                 then on_group (drain_timeout ports cycle g) d (\<lambda>_ g. ret () (d, Some g))
                 else ret () (d, Some g)))"

definition step_mark_events :: "'e reset_sys \<Rightarrow> ('e reset_sys, unit) outcome" where
  "step_mark_events s =
     (case s of (d, og) \<Rightarrow>
        ret () (rd_goto RS_RESET_DOMAIN d,
                map_option (\<lambda>g. g\<lparr>rg_event_table := et_reset (rg_event_table g)\<rparr>) og))"

definition invalidate_domain :: "reset_request \<Rightarrow> 'e reset_group \<Rightarrow> 'e reset_group" where
  "invalidate_domain req g =
     (if rq_domain req = DOMAIN_TILE
      then g\<lparr>rg_program_table := pt_invalidate_tile (rq_tile_id req) (rg_program_table g)\<rparr>
      else if rq_domain req = DOMAIN_GROUP
      then g\<lparr>rg_program_table := pt_invalidate_group (rg_program_table g)\<rparr>
      else g)"

definition step_reset_domain ::
  "'e reset_ports \<Rightarrow> reset_request \<Rightarrow> int \<Rightarrow> 'e reset_sys \<Rightarrow> ('e reset_sys, unit) outcome" where
  "step_reset_domain ports req cycle s =
     (case s of
        (d, None) \<Rightarrow> ret () (rd_goto RS_CLEAR_CREDIT_CACHE d, None)
      | (d, Some g) \<Rightarrow>
          if (case rp_transfer_manager ports of
                None \<Rightarrow> False
              | Some tm \<Rightarrow> tp_inflight tm g \<noteq> 0 \<or> tp_cancel_requested tm g \<noteq> 0)
          then raise (MemoryInvariantError ''reset proceeded before transfer cancellation was confirmed'') (d, Some g)
          else on_group (case rp_release_context_memory ports of
                           None \<Rightarrow> ret True g
                         | Some release \<Rightarrow> release cycle g) d (\<lambda>released g.
                 if \<not> released then ret () (d, Some g)
                 else ret () (rd_goto RS_CLEAR_CREDIT_CACHE d, Some (invalidate_domain req g))))"

definition step_clear_credit_cache :: "'e reset_sys \<Rightarrow> ('e reset_sys, unit) outcome" where
  "step_clear_credit_cache s =
     (case s of (d, og) \<Rightarrow>
        ret () (rd_goto RS_RESUME d,
                map_option (\<lambda>g. g\<lparr>rg_queues := map (\<lambda>(i, q). (i, sq_reset q)) (rg_queues g)\<rparr>) og))"

definition rd_step :: "'e reset_ports \<Rightarrow> int \<Rightarrow> 'e reset_sys \<Rightarrow> ('e reset_sys, reset_state) outcome" where
  "rd_step ports cycle s =
     (let d = fst s in
      case rd_request d of
        None \<Rightarrow> ret (rd_state d) s
      | Some req \<Rightarrow>
          and_then
            (case rd_state d of
               RS_IDLE \<Rightarrow> ret () s
             | RS_FAULT_DETECTED \<Rightarrow> ret () (rd_goto RS_STOP_QUEUE d, snd s)
             | RS_STOP_QUEUE \<Rightarrow> ret () (rd_goto RS_FREEZE_DISPATCH d, snd s)
             | RS_FREEZE_DISPATCH \<Rightarrow> step_freeze_dispatch ports cycle s
             | RS_DRAIN_SAFE \<Rightarrow> step_drain_safe ports cycle s
             | RS_MARK_EVENTS \<Rightarrow> step_mark_events s
             | RS_RESET_DOMAIN \<Rightarrow> step_reset_domain ports req cycle s
             | RS_CLEAR_CREDIT_CACHE \<Rightarrow> step_clear_credit_cache s
             | RS_RESUME \<Rightarrow> ret () (rd_goto RS_DONE d, snd s)
             | RS_DONE \<Rightarrow> ret () s)
            (\<lambda>_ s. ret (rd_state (fst s)) s))"

section \<open>The documented chain\<close>

text \<open>The order the module documents, as a step relation.\<close>

inductive drain_edge :: "reset_state \<Rightarrow> reset_state \<Rightarrow> bool" where
  stop: "drain_edge RS_FAULT_DETECTED RS_STOP_QUEUE"
| freeze: "drain_edge RS_STOP_QUEUE RS_FREEZE_DISPATCH"
| drain: "drain_edge RS_FREEZE_DISPATCH RS_DRAIN_SAFE"
| mark: "drain_edge RS_DRAIN_SAFE RS_MARK_EVENTS"
| domain: "drain_edge RS_MARK_EVENTS RS_RESET_DOMAIN"
| clear: "drain_edge RS_RESET_DOMAIN RS_CLEAR_CREDIT_CACHE"
| resume: "drain_edge RS_CLEAR_CREDIT_CACHE RS_RESUME"
| finish: "drain_edge RS_RESUME RS_DONE"

inductive_cases drain_edge_from: "drain_edge a b"
inductive_simps drain_edge_idle [simp]: "drain_edge RS_IDLE b"
inductive_simps drain_edge_done [simp]: "drain_edge RS_DONE b"

definition drain_chain :: "reset_state list" where
  "drain_chain = [RS_FAULT_DETECTED, RS_STOP_QUEUE, RS_FREEZE_DISPATCH, RS_DRAIN_SAFE, RS_MARK_EVENTS,
     RS_RESET_DOMAIN, RS_CLEAR_CREDIT_CACHE, RS_RESUME, RS_DONE]"

lemmas rd_step_defs = step_freeze_dispatch_def step_drain_safe_def step_mark_events_def
  step_reset_domain_def step_clear_credit_cache_def on_group_def

lemma rd_step_edge:
  assumes "rd_state (fst (snd (rd_step ports cycle s))) \<noteq> rd_state (fst s)"
  shows "drain_edge (rd_state (fst s)) (rd_state (fst (snd (rd_step ports cycle s))))"
  using assms
  by (cases "rd_state (fst s)")
     (auto simp: rd_step_def rd_step_defs Let_def and_then_def intro: drain_edge.intros
       split: option.splits prod.splits sum.splits if_splits)

lemma rd_step_request [simp]: "rd_request (fst (snd (rd_step ports cycle s))) = rd_request (fst s)"
  by (cases "rd_state (fst s)")
     (auto simp: rd_step_def rd_step_defs Let_def and_then_def
       split: option.splits prod.splits sum.splits if_splits)

text \<open>
  The states a reset passes through, one entry per cycle. The group is handed in anew each
  cycle: whatever the rest of the simulator does to it in between is covered.
\<close>

fun rd_trace :: "'e reset_ports \<Rightarrow> (int \<times> 'e reset_group option) list \<Rightarrow> reset_domain \<Rightarrow> reset_state list" where
  "rd_trace ports [] d = [rd_state d]"
| "rd_trace ports ((cycle, og) # xs) d =
     rd_state d # rd_trace ports xs (fst (snd (rd_step ports cycle (d, og))))"

definition chain_from :: "reset_state \<Rightarrow> reset_state list" where
  "chain_from st = dropWhile (\<lambda>x. x \<noteq> st) drain_chain"

lemma chain_from_edge: "drain_edge a b \<Longrightarrow> chain_from a = a # chain_from b"
  by (erule drain_edge_from) (simp_all add: chain_from_def drain_chain_def)

lemma chain_from_self: "st \<noteq> RS_IDLE \<Longrightarrow> \<exists>rest. chain_from st = st # rest"
  by (cases st) (simp_all add: chain_from_def drain_chain_def)

lemma drain_edge_not_idle: "drain_edge a b \<Longrightarrow> b \<noteq> RS_IDLE"
  by (erule drain_edge_from) simp_all

lemma rd_trace_head: "\<exists>rest. rd_trace ports xs d = rd_state d # rest"
  by (cases xs) auto

lemma rd_trace_prefix:
  "rd_state d \<noteq> RS_IDLE \<Longrightarrow> prefix (remdups_adj (rd_trace ports xs d)) (chain_from (rd_state d))"
proof (induction xs arbitrary: d)
  case Nil
  then show ?case using chain_from_self [OF Nil] by auto
next
  case (Cons x xs)
  obtain cycle og where x: "x = (cycle, og)" by (cases x)
  define d' where "d' = fst (snd (rd_step ports cycle (d, og)))"
  obtain rest where rest: "rd_trace ports xs d' = rd_state d' # rest" using rd_trace_head by blast
  show ?case
  proof (cases "rd_state d' = rd_state d")
    case True
    with Cons.IH [of d'] Cons.prems rest show ?thesis by (simp add: x d'_def [symmetric])
  next
    case False
    with rd_step_edge [of ports cycle "(d, og)"] have edge: "drain_edge (rd_state d) (rd_state d')"
      by (simp add: d'_def)
    from Cons.IH [of d'] drain_edge_not_idle [OF edge] rest False show ?thesis
      by (simp add: x d'_def [symmetric] chain_from_edge [OF edge])
  qed
qed

text \<open>C24. A reset follows the documented chain: whatever group it is handed in each cycle and
  whatever its ports do, including raising, the states it passes through are, up to waiting,
  an initial part of fault detection, queue stop, freeze, drain, event marking, domain reset,
  credit clearing, resume, done. No state is skipped or revisited.
\<close>

theorem reset_trace_in_order:
  "prefix (remdups_adj (rd_trace ports xs (rd_begin req cycle d))) drain_chain"
  using rd_trace_prefix [of "rd_begin req cycle d" ports xs]
  by (simp add: rd_begin_def chain_from_def drain_chain_def)

section \<open>Leaving the drain\<close>

text \<open>
  The observers the drain waits for, and the contract of MFE isolation retirement: retiring
  jobs only lowers them.
\<close>

definition tile_quiet :: "'e tile_port \<Rightarrow> 'e reset_group \<Rightarrow> bool" where
  "tile_quiet tile g \<longleftrightarrow>
     (\<forall>name \<in> set tile_engines. \<exists>f. tl_accepted_count tile name = Some f \<and> f g = 0) \<and>
     (\<exists>f. tl_l1_mshr_active tile = Some f \<and> f g = 0)"

definition retirement_only_retires :: "'e reset_ports \<Rightarrow> bool" where
  "retirement_only_retires ports \<longleftrightarrow>
     (\<forall>tiles tile u f cycle g. rp_tiles ports = Some tiles \<longrightarrow> tile \<in> set tiles \<longrightarrow> u \<in> set tiles
        \<longrightarrow> tl_retire_isolated tile = Some f \<longrightarrow> tile_quiet u g \<longrightarrow> tile_quiet u (snd (f cycle g)))"

lemma engines_idle_True:
  "engines_idle names tile g = (Inr True, g') \<Longrightarrow>
     g' = g \<and> (\<forall>name \<in> set names. \<exists>f. tl_accepted_count tile name = Some f \<and> f g = 0)"
  by (induction names tile g rule: engines_idle.induct) (auto split: option.splits if_splits)

lemma tiles_idle_True:
  assumes "tiles_idle cycle ts g = (Inr True, g')"
    and "\<forall>tile \<in> set ts. \<forall>f u g. tl_retire_isolated tile = Some f \<longrightarrow> u \<in> U \<longrightarrow> tile_quiet u g \<longrightarrow> tile_quiet u (snd (f cycle g))"
    and "set ts \<subseteq> U"
  shows "(\<forall>u \<in> U. tile_quiet u g \<longrightarrow> tile_quiet u g') \<and> (\<forall>u \<in> set ts. tile_quiet u g')"
  using assms
proof (induction ts arbitrary: g)
  case (Cons tile ts)
  from Cons.prems(1) obtain f g1 where f: "tl_retire_isolated tile = Some f" "f cycle g = (Inr (), g1)"
    by (auto simp: call_port_def and_then_def split: option.splits prod.splits sum.splits)
  with Cons.prems(1) obtain b g2 where b: "engines_idle tile_engines tile g1 = (Inr b, g2)"
    by (auto simp: call_port_def and_then_def split: prod.splits sum.splits)
  with f Cons.prems(1) have "b" by (auto simp: call_port_def split: if_splits)
  with b have e: "g2 = g1" "\<forall>name \<in> set tile_engines. \<exists>f. tl_accepted_count tile name = Some f \<and> f g1 = 0"
    using engines_idle_True [of tile_engines tile g1 g2] by auto
  from f b \<open>b\<close> e Cons.prems(1) obtain h where h: "tl_l1_mshr_active tile = Some h" "h g1 = 0"
    and rest: "tiles_idle cycle ts g1 = (Inr True, g')"
    by (auto simp: call_port_def split: option.splits if_splits)
  have "tile_quiet tile g1" using e(2) h unfolding tile_quiet_def by blast
  moreover have "\<forall>u \<in> U. tile_quiet u g \<longrightarrow> tile_quiet u g1"
    using Cons.prems(2) f by (metis list.set_intros(1) snd_conv)
  moreover have "(\<forall>u \<in> U. tile_quiet u g1 \<longrightarrow> tile_quiet u g') \<and> (\<forall>u \<in> set ts. tile_quiet u g')"
    using Cons.IH [OF rest] Cons.prems(2,3) by simp
  ultimately show ?case using Cons.prems(3) by auto
qed auto

definition drained :: "'e reset_ports \<Rightarrow> 'e reset_group \<Rightarrow> 'e reset_group \<Rightarrow> bool" where
  "drained ports g g' \<longleftrightarrow>
     (\<exists>tm. rp_transfer_manager ports = Some tm \<and> transfers_idle tm g \<and> \<not> tp_cancellation_pending tm g') \<and>
     (\<forall>noc. rg_noc g = Some noc \<longrightarrow> noc_is_quiescent noc) \<and>
     rp_collective_jobs ports g = 0 \<and>
     (\<exists>tiles. rp_tiles ports = Some tiles \<and> (\<forall>tile \<in> set tiles. tile_quiet tile g')) \<and>
     (\<exists>f. rp_l2_mshr_active ports = Some f \<and> f g' = 0)"

lemma outstanding_zero_True:
  assumes "outstanding_zero ports cycle g = (Inr True, g')" "retirement_only_retires ports"
  shows "(\<exists>tm. rp_transfer_manager ports = Some tm \<and> transfers_idle tm g) \<and>
     (\<forall>noc. rg_noc g = Some noc \<longrightarrow> noc_is_quiescent noc) \<and> rp_collective_jobs ports g = 0 \<and>
     (\<exists>tiles. rp_tiles ports = Some tiles \<and> (\<forall>tile \<in> set tiles. tile_quiet tile g')) \<and>
     (\<exists>f. rp_l2_mshr_active ports = Some f \<and> f g' = 0)"
proof -
  from assms(1) obtain tm where tm: "rp_transfer_manager ports = Some tm" "transfers_idle tm g"
    and noc: "\<forall>noc. rg_noc g = Some noc \<longrightarrow> noc_is_quiescent noc" and jobs: "rp_collective_jobs ports g = 0"
    by (auto simp: outstanding_zero_def split: option.splits if_splits)
  from assms(1) obtain tiles where tiles: "rp_tiles ports = Some tiles"
    by (auto simp: outstanding_zero_def split: option.splits if_splits)
  with assms(1) obtain f where idle: "tiles_idle cycle tiles g = (Inr True, g')"
    and f: "rp_l2_mshr_active ports = Some f" "f g' = 0"
    by (auto simp: outstanding_zero_def and_then_def split: option.splits if_splits prod.splits sum.splits)
  have "\<forall>u \<in> set tiles. tile_quiet u g'"
    using tiles_idle_True [OF idle, of "set tiles"] assms(2) tiles
    unfolding retirement_only_retires_def by blast
  with tm noc jobs tiles f show ?thesis by auto
qed

text \<open>C25. Timeout is never success: the machine leaves the drain state only in a cycle in which
  the transfer manager was quiescent with idle stages and no cancellation pending, the router
  was quiescent, no collective was running, and after retiring isolated jobs every engine of
  every tile and every MSHR table is empty. Retiring is assumed not to add work to a tile.
\<close>

theorem drain_exit_isolated:
  assumes "retirement_only_retires ports"
    and "rd_state d = RS_DRAIN_SAFE"
    and "rd_step ports cycle (d, Some g) = (r, (d', Some g'))"
    and "rd_state d' \<noteq> RS_DRAIN_SAFE"
  shows "rd_state d' = RS_MARK_EVENTS \<and> drained ports g g'"
proof -
  from assms(2-4) have zero: "outstanding_zero ports cycle g = (Inr True, g')"
    and pend: "\<forall>tm. rp_transfer_manager ports = Some tm \<longrightarrow> \<not> tp_cancellation_pending tm g'"
    and st: "rd_state d' = RS_MARK_EVENTS"
    by (auto simp: rd_step_def step_drain_safe_def on_group_def Let_def and_then_def
        split: option.splits prod.splits sum.splits if_splits)
  from outstanding_zero_True [OF zero assms(1)] pend st show ?thesis
    unfolding drained_def by blast
qed

definition idle_tile :: "unit tile_port" where
  "idle_tile = \<lparr>tl_uce = True, tl_clear_engine_queues = Some (\<lambda>g. ret () g),
     tl_begin_reset_drain = Some (\<lambda>_ g. ret () g), tl_request_cancel_active = Some (\<lambda>_ g. ret () g),
     tl_retire_isolated = Some (\<lambda>_ g. ret () g), tl_accepted_count = (\<lambda>_. Some (\<lambda>_. 0)),
     tl_l1_mshr_active = Some (\<lambda>_. 0)\<rparr>"

definition idle_ports :: "unit reset_ports" where
  "idle_ports = \<lparr>rp_tiles = Some [idle_tile, idle_tile],
     rp_transfer_manager = Some \<lparr>tp_cancellation_pending = \<lambda>_. False, tp_cancel_all = \<lambda>_ g. ret () g,
       tp_quiescent = \<lambda>_. True, tp_inflight = \<lambda>_. 0, tp_cancel_requested = \<lambda>_. 0,
       tp_hbm_outstanding = \<lambda>_. 0, tp_stages = \<lambda>_. [(''hbm_read'', 0, 0)]\<rparr>,
     rp_profile_controller = Some \<lparr>cp_request_cancel_all = Some (\<lambda>_ g. ret () g),
       cp_initialized = Some (\<lambda>_. True), cp_cancellation_pending = Some (\<lambda>_. False)\<rparr>,
     rp_l2_mshr_active = Some (\<lambda>_. 0), rp_collective_jobs = \<lambda>_. 0,
     rp_release_context_memory = Some (\<lambda>_ g. ret True g)\<rparr>"

definition demo_group :: "unit reset_group" where
  "demo_group = \<lparr>rg_event_table = snd (register ''ev'' '''' 0 (projr (et_new 4))), rg_program_table = pt_new (\<lambda>_. 7),
     rg_queues = [(3, sq_init (sq_new 3 2 [0] [1] SPSC ALL_PRODUCERS))], rg_noc = Some (noc_new 2 1), rg_rest = ()\<rparr>"

definition demo_request :: reset_request where
  "demo_request = \<lparr>rq_domain = DOMAIN_GROUP, rq_tile_id = -1, rq_queue_id = -1, rq_fault_record = None\<rparr>"

definition demo_domain :: "reset_state \<Rightarrow> reset_domain" where
  "demo_domain st = rd_goto st (rd_begin demo_request 5 (rd_new None))"

lemma demo_noc_quiet: "noc_is_quiescent (noc_new 2 1)"
  by code_simp

theorem drain_exit_isolated_witness:
  "rd_state (demo_domain RS_MARK_EVENTS) = RS_MARK_EVENTS \<and> drained idle_ports demo_group demo_group"
proof -
  have ret: "retirement_only_retires idle_ports"
    by (auto simp: retirement_only_retires_def idle_ports_def idle_tile_def)
  have step: "rd_step idle_ports 9 (demo_domain RS_DRAIN_SAFE, Some demo_group)
      = (Inr RS_MARK_EVENTS, (demo_domain RS_MARK_EVENTS, Some demo_group))"
    using demo_noc_quiet
    by (simp add: rd_step_def step_drain_safe_def on_group_def outstanding_zero_def transfers_idle_def
        tile_engines_def call_port_def idle_ports_def idle_tile_def demo_group_def demo_domain_def rd_begin_def)
  show ?thesis using drain_exit_isolated [OF ret _ step] by (simp add: demo_domain_def)
qed

section \<open>Cleanup\<close>

lemma et_reset_status:
  "dict_get (et_entries (et_reset t)) n = Some e \<Longrightarrow> ev_status e \<noteq> EV_PENDING"
proof -
  assume "dict_get (et_entries (et_reset t)) n = Some e"
  then obtain e0 where "e = (if ev_status e0 = EV_PENDING then e0\<lparr>ev_status := EV_RESET\<rparr> else e0)"
    by (auto simp: et_reset_def map_of_map_snd)
  then show ?thesis by (cases "ev_status e0 = EV_PENDING") auto
qed

lemma invalidate_domain_cold:
  assumes "dict_get (pt_entries (rg_program_table (invalidate_domain req g))) pid = Some e"
    and "rq_domain req = DOMAIN_GROUP \<or> rq_domain req = DOMAIN_TILE \<and> rq_tile_id req = tile"
  shows "\<not> pt_warm e tile"
  using assms
  by (auto simp: invalidate_domain_def pt_invalidate_group_def pt_invalidate_tile_def pt_warm_def
      map_of_map_snd AList.delete_conv')

definition queues_fresh :: "'e reset_group \<Rightarrow> bool" where
  "queues_fresh g \<longleftrightarrow> (\<forall>(i, q) \<in> set (rg_queues g).
     sq_fifo q = [] \<and> sq_credit_available q = sq_depth q \<and> sq_credit_leased q = 0 \<and> sq_popped_unreleased q = 0)"

text \<open>Each cleanup stage does its work before the machine moves on: leaving event marking no
  event is pending; leaving the domain reset no program of the reset domain is resident on the
  tile (or on any tile, for a group reset); leaving credit clearing every stream queue is empty
  with all its credits returned.
\<close>

theorem reset_cleanup_exact:
  assumes "rd_request d = Some req"
    and "rd_step ports cycle (d, Some g) = (r, (d', Some g'))"
    and "rd_state d' \<noteq> rd_state d"
  shows "(rd_state d = RS_MARK_EVENTS \<longrightarrow>
            (\<forall>n e. dict_get (et_entries (rg_event_table g')) n = Some e \<longrightarrow> ev_status e \<noteq> EV_PENDING)) \<and>
         (rd_state d = RS_RESET_DOMAIN \<longrightarrow>
            (\<forall>pid e tile. dict_get (pt_entries (rg_program_table g')) pid = Some e
               \<longrightarrow> rq_domain req = DOMAIN_GROUP \<or> rq_domain req = DOMAIN_TILE \<and> rq_tile_id req = tile
               \<longrightarrow> \<not> pt_warm e tile)) \<and>
         (rd_state d = RS_CLEAR_CREDIT_CACHE \<longrightarrow> queues_fresh g')"
proof (intro conjI impI)
  assume "rd_state d = RS_MARK_EVENTS"
  with assms have "rg_event_table g' = et_reset (rg_event_table g)"
    by (auto simp: rd_step_def step_mark_events_def)
  then show "\<forall>n e. dict_get (et_entries (rg_event_table g')) n = Some e \<longrightarrow> ev_status e \<noteq> EV_PENDING"
    using et_reset_status by metis
next
  assume "rd_state d = RS_RESET_DOMAIN"
  with assms obtain h where "g' = invalidate_domain req h"
    by (auto simp: rd_step_def step_reset_domain_def on_group_def and_then_def
        split: option.splits prod.splits sum.splits if_splits)
  then show "\<forall>pid e tile. dict_get (pt_entries (rg_program_table g')) pid = Some e
      \<longrightarrow> rq_domain req = DOMAIN_GROUP \<or> rq_domain req = DOMAIN_TILE \<and> rq_tile_id req = tile \<longrightarrow> \<not> pt_warm e tile"
    using invalidate_domain_cold by blast
next
  assume "rd_state d = RS_CLEAR_CREDIT_CACHE"
  with assms have "g' = g\<lparr>rg_queues := map (\<lambda>(i, q). (i, sq_reset q)) (rg_queues g)\<rparr>"
    by (auto simp: rd_step_def step_clear_credit_cache_def)
  then show "queues_fresh g'" by (auto simp: queues_fresh_def sq_reset_def)
qed

theorem reset_cleanup_exact_witness:
  "\<forall>n e. dict_get (et_entries (et_reset (rg_event_table demo_group))) n = Some e \<longrightarrow> ev_status e \<noteq> EV_PENDING"
proof -
  have step: "rd_step idle_ports 9 (demo_domain RS_MARK_EVENTS, Some demo_group)
      = (Inr RS_RESET_DOMAIN, (demo_domain RS_RESET_DOMAIN,
           Some (demo_group\<lparr>rg_event_table := et_reset (rg_event_table demo_group)\<rparr>)))"
    by (simp add: rd_step_def step_mark_events_def demo_domain_def rd_begin_def)
  have "rd_request (demo_domain RS_MARK_EVENTS) = Some demo_request"
    by (simp add: demo_domain_def rd_begin_def)
  from reset_cleanup_exact [OF this step] show ?thesis by (simp add: demo_domain_def)
qed

end
