(* ===== verification/Group_Scheduler.thy ===== *)
theory Group_Scheduler
  imports Event_Table Pmu Reset_Domain
begin

unbundle bit_operations_syntax

text \<open>
  The ready-action scheduler of a tile group: \<open>src/pipeline_validator/group_scheduler.py\<close> and the
  per-context state of \<open>src/pipeline_validator/tile_group_sequencer.py\<close>, with the action data of
  \<open>src/pipeline_validator/execution_ir.py\<close> and the fault entry of \<open>src/pipeline_validator/tile_group.py\<close>.
  Sequencers and registered actions are shared objects that the code compares by identity:
  both live in heaps and are named by references. What the scheduler calls in the rest of the
  group (profile controller, transfers, role dispatch, L2 views) are the ports, functions on
  the remaining state \<open>'e\<close>. Opaque compiled payloads have type \<open>'x\<close>. Tracing is left out.
\<close>

section \<open>Actions and tasks\<close>

datatype group_action_op =
    INIT_STREAM | DMA_PREFETCH | DMA_STORE | DISPATCH_ROLE | WAIT_EVENT | BARRIER_GROUP
  | COLLECTIVE_RUN | SIGNAL_EVENT | RELEASE_L2 | BIND_L2_VIEW | PUBLISH_L2 | BIND_L2_IMPORT
  | PROFILE_RECONFIG | MEMORY_MAINTENANCE

datatype context_admission_status = PREPARED | WAIT_CAPACITY | ACTIVE | CANCELLED

record grid_instance_id =
  gi_context_name :: string
  gi_device_slot :: int
  gi_launch_generation :: int
  gi_dispatch_ordinal :: int

record exec_signal_policy =
  sp_input_released :: "string option"
  sp_output_ready :: "string option"

record exec_dispatch_request =
  dq_role_id :: int
  dq_dispatch_ordinal :: int
  dq_signal_policy :: exec_signal_policy
  dq_input_released_event :: string
  dq_output_ready_event :: string
  dq_requested_l1_mode :: int
  dq_resolved_l1_mode :: int
  dq_binding_id :: string

record exec_release_request =
  lq_buffer_slot :: string
  lq_buffer_role :: string
  lq_reader_dispatch_ordinals :: "int list"
  lq_writer_dispatch_ordinals :: "int list"
  lq_dependency_events :: "string list"

record exec_publish_request =
  pq_buffer_slot :: string
  pq_reader_dispatch_ordinals :: "int list"
  pq_writer_dispatch_ordinals :: "int list"
  pq_dependency_events :: "string list"

text \<open>
  The elements of the heterogeneous argument tuple. A control command carries its id, its
  declared dependencies where its class has them, and its descriptor.
\<close>

datatype 'x group_arg =
    ArgStr string
  | ArgInt int
  | ArgDispatch exec_dispatch_request
  | ArgRelease exec_release_request
  | ArgPublish exec_publish_request
  | ArgCommand string "string list option" 'x
  | ArgTransfer 'x

record 'x exec_group_action =
  ac_op :: group_action_op
  ac_args :: "'x group_arg list"
  ac_dst :: "string option"
  ac_comment :: string
  ac_dependencies :: "string list"
  ac_reads :: "string list"
  ac_writes :: "string list"
  ac_instruction_id :: string

record 'x exec_tile_role_binding =
  rb_role_id :: int
  rb_program_id :: int
  rb_program_version :: int
  rb_program_hash :: int
  rb_body :: 'x

record 'x exec_tile_group_task =
  tk_name :: string
  tk_actions :: "'x exec_group_action list"
  tk_role_bindings :: "(int, 'x exec_tile_role_binding) dict"
  tk_completion_event :: string
  tk_binding_id :: string
  tk_event_uses :: "(string, int) dict"

text \<open>
  Python truth of an optional string: neither \<open>None\<close> nor empty. \<open>compiled_program.py\<close> checks the
  argument types of a loaded program, so the type errors below stay unreached there.
\<close>

definition opt_str :: "string option \<Rightarrow> string" where
  "opt_str o' = (case o' of None \<Rightarrow> '''' | Some n \<Rightarrow> n)"

definition output_events :: "'x exec_group_action \<Rightarrow> py_error + string list" where
  "output_events a =
     (let events = (if opt_str (ac_dst a) \<noteq> '''' then [opt_str (ac_dst a)] else [])
      in case ac_op a of
           DISPATCH_ROLE \<Rightarrow>
             (case ac_args a of
                [] \<Rightarrow> Inl IndexError
              | ArgDispatch req # _ \<Rightarrow>
                  Inr (events @ filter (\<lambda>e. e \<noteq> '''') [dq_input_released_event req, dq_output_ready_event req])
              | _ \<Rightarrow> Inl AttributeError)
         | SIGNAL_EVENT \<Rightarrow>
             (case ac_args a of
                [] \<Rightarrow> Inl IndexError
              | ArgStr e # _ \<Rightarrow> Inr (events @ [e])
              | _ \<Rightarrow> Inl (TypeError ''event name is not a string''))
         | _ \<Rightarrow> Inr events)"

section \<open>Sequencers\<close>

type_synonym seq_ref = nat
type_synonym rec_ref = nat

record 'x registered_action =
  ra_sequencer :: seq_ref
  ra_ordinal :: int
  ra_action :: "'x exec_group_action"
  ra_registered_cycle :: int
  ra_issue_cycle :: int

record 'x sequencer =
  ts_pmu :: pmu_counter
  ts_submission_pc :: int
  ts_task :: "'x exec_tile_group_task option"
  ts_events_done :: "string set"
  ts_event_errors :: "(string, event_status) dict"
  ts_role_events :: "(int, string) dict"
  ts_issued_role_events :: "string set"
  ts_issued_phase_events :: "string set"
  ts_queued_actions :: "(int, rec_ref) dict"
  ts_inflight_actions :: "(int, rec_ref) dict"
  ts_registration_fence :: "int option"
  ts_submission_closed :: bool
  ts_done :: bool
  ts_faulted :: bool
  ts_fault_reason :: string
  ts_owned_queue_ids :: "int set"
  ts_outstanding_jobs :: int
  ts_launch_generation :: int
  ts_context_name :: string
  ts_device_slot :: int
  ts_admission_status :: context_admission_status
  ts_admission_wait_start :: "int option"
  ts_admission_retry_count :: int
  ts_formal_bindings :: "(string, string) dict"
  ts_first_action_emitted :: bool
  ts_dependency_receipts :: "string set"

definition ts_new :: "'x sequencer" where
  "ts_new = \<lparr>ts_pmu = pmu_new, ts_submission_pc = 0, ts_task = None, ts_events_done = {}, ts_event_errors = [],
     ts_role_events = [], ts_issued_role_events = {}, ts_issued_phase_events = {}, ts_queued_actions = [],
     ts_inflight_actions = [], ts_registration_fence = None, ts_submission_closed = False, ts_done = False,
     ts_faulted = False, ts_fault_reason = '''', ts_owned_queue_ids = {}, ts_outstanding_jobs = 0,
     ts_launch_generation = 0, ts_context_name = '''', ts_device_slot = 0, ts_admission_status = PREPARED,
     ts_admission_wait_start = None, ts_admission_retry_count = 0, ts_formal_bindings = [],
     ts_first_action_emitted = False, ts_dependency_receipts = {}\<rparr>"

definition queued_count :: "'x sequencer \<Rightarrow> int" where
  "queued_count q = int (length (ts_queued_actions q))"

definition inflight_count :: "'x sequencer \<Rightarrow> int" where
  "inflight_count q = int (length (ts_inflight_actions q))"

definition note_job_started :: "'x sequencer \<Rightarrow> 'x sequencer" where
  "note_job_started q = q\<lparr>ts_outstanding_jobs := ts_outstanding_jobs q + 1\<rparr>"

definition note_job_done :: "'x sequencer \<Rightarrow> ('x sequencer, unit) outcome" where
  "note_job_done q =
     (if ts_outstanding_jobs q \<le> 0 then raise (RuntimeError ''sequencer outstanding job underflow'') q
      else ret () (q\<lparr>ts_outstanding_jobs := ts_outstanding_jobs q - 1\<rparr>))"

definition grid_id :: "int \<Rightarrow> 'x sequencer \<Rightarrow> grid_instance_id" where
  "grid_id ordinal q = \<lparr>gi_context_name = ts_context_name q, gi_device_slot = ts_device_slot q,
     gi_launch_generation = ts_launch_generation q, gi_dispatch_ordinal = ordinal\<rparr>"

definition clear_launch_state :: "'x sequencer \<Rightarrow> 'x sequencer" where
  "clear_launch_state q = q\<lparr>ts_submission_pc := 0, ts_events_done := {}, ts_event_errors := [],
     ts_role_events := [], ts_issued_role_events := {}, ts_issued_phase_events := {}, ts_queued_actions := [],
     ts_inflight_actions := [], ts_registration_fence := None, ts_outstanding_jobs := 0,
     ts_submission_closed := False, ts_done := False, ts_faulted := False, ts_fault_reason := '''',
     ts_owned_queue_ids := {}, ts_admission_status := PREPARED, ts_admission_wait_start := None,
     ts_admission_retry_count := 0, ts_first_action_emitted := False, ts_dependency_receipts := {}\<rparr>"

definition load :: "'x exec_tile_group_task \<Rightarrow> 'x sequencer \<Rightarrow> 'x sequencer" where
  "load task q = (clear_launch_state (q\<lparr>ts_task := Some task\<rparr>))\<lparr>ts_submission_closed := tk_actions task = []\<rparr>"

definition can_register_action :: "'x sequencer \<Rightarrow> bool" where
  "can_register_action q \<longleftrightarrow> \<not> ts_done q \<and> \<not> ts_faulted q \<and> ts_task q \<noteq> None
     \<and> ts_admission_status q = ACTIVE \<and> \<not> ts_submission_closed q \<and> ts_registration_fence q = None"

definition peek_registration :: "'x sequencer \<Rightarrow> py_error + int \<times> 'x exec_group_action" where
  "peek_registration q =
     (case ts_task q of
        None \<Rightarrow> Inl (RuntimeError ''sequencer has no registerable action'')
      | Some task \<Rightarrow>
          if \<not> can_register_action q then Inl (RuntimeError ''sequencer has no registerable action'')
          else if ts_submission_pc q < 0 \<or> int (length (tk_actions task)) \<le> ts_submission_pc q then Inl IndexError
          else Inr (ts_submission_pc q, tk_actions task ! nat (ts_submission_pc q)))"

definition fences :: "group_action_op \<Rightarrow> bool" where
  "fences op \<longleftrightarrow> op \<in> {WAIT_EVENT, BARRIER_GROUP, PROFILE_RECONFIG, MEMORY_MAINTENANCE}"

definition note_registered ::
  "rec_ref \<Rightarrow> 'x registered_action \<Rightarrow> 'x sequencer \<Rightarrow> ('x sequencer, unit) outcome" where
  "note_registered r rec q =
     (if ra_ordinal rec \<noteq> ts_submission_pc q
      then raise (RuntimeError ''non-sequential Group action registration'') q
      else let q = q\<lparr>ts_queued_actions := dict_set (ra_ordinal rec) r (ts_queued_actions q)\<rparr>;
               q = (if fences (ac_op (ra_action rec)) then q\<lparr>ts_registration_fence := Some (ra_ordinal rec)\<rparr> else q);
               q = q\<lparr>ts_submission_pc := ts_submission_pc q + 1\<rparr>
           in ret () (case ts_task q of
                None \<Rightarrow> q
              | Some task \<Rightarrow>
                  if ts_submission_pc q \<ge> int (length (tk_actions task)) then q\<lparr>ts_submission_closed := True\<rparr> else q))"

definition note_issued ::
  "rec_ref \<Rightarrow> 'x registered_action \<Rightarrow> bool \<Rightarrow> 'x sequencer \<Rightarrow> ('x sequencer, unit) outcome" where
  "note_issued r rec asynchronous q =
     (let popped = dict_get (ts_queued_actions q) (ra_ordinal rec);
          q = q\<lparr>ts_queued_actions := dict_del (ra_ordinal rec) (ts_queued_actions q)\<rparr>
      in if popped \<noteq> Some r then raise (RuntimeError ''issued action is not queued by its owner'') q
         else let q = (if asynchronous
                       then q\<lparr>ts_inflight_actions := dict_set (ra_ordinal rec) r (ts_inflight_actions q)\<rparr> else q)
              in ret () (q\<lparr>ts_first_action_emitted := True\<rparr>))"

definition clear_fence :: "int \<Rightarrow> 'x sequencer \<Rightarrow> 'x sequencer" where
  "clear_fence ordinal q =
     (if ts_registration_fence q = Some ordinal then q\<lparr>ts_registration_fence := None\<rparr> else q)"

definition note_action_completed :: "'x registered_action \<Rightarrow> 'x sequencer \<Rightarrow> 'x sequencer" where
  "note_action_completed rec q =
     clear_fence (ra_ordinal rec) (q\<lparr>ts_inflight_actions := dict_del (ra_ordinal rec) (ts_inflight_actions q)\<rparr>)"

definition note_action_cancelled :: "'x registered_action \<Rightarrow> 'x sequencer \<Rightarrow> 'x sequencer" where
  "note_action_cancelled rec q =
     clear_fence (ra_ordinal rec) (q\<lparr>ts_queued_actions := dict_del (ra_ordinal rec) (ts_queued_actions q)\<rparr>)"

definition barrier_ready :: "int \<Rightarrow> 'x sequencer \<Rightarrow> bool" where
  "barrier_ready ordinal q \<longleftrightarrow>
     \<not> list_ex (\<lambda>i. i \<noteq> ordinal \<and> i < ordinal) (dict_keys (ts_queued_actions q))
     \<and> \<not> list_ex (\<lambda>i. i < ordinal) (dict_keys (ts_inflight_actions q))"

definition dispatch_program_key :: "'x exec_group_action \<Rightarrow> 'x sequencer \<Rightarrow> py_error + int \<times> int \<times> int" where
  "dispatch_program_key a q =
     (case ac_args a of
        [] \<Rightarrow> Inl IndexError
      | arg # _ \<Rightarrow>
          (case (arg, ts_task q) of
             (ArgDispatch req, Some task) \<Rightarrow>
               (case dict_get (tk_role_bindings task) (dq_role_id req) of
                  None \<Rightarrow> Inl (RuntimeError ''unknown role_id'')
                | Some b \<Rightarrow>
                    if rb_program_id b \<le> 0 \<or> rb_program_hash b \<le> 0 \<or> rb_program_version b \<le> 0
                    then Inl (ValueError ''dispatch requires a compiler-assigned program identity'')
                    else Inr (rb_program_id b, rb_program_version b, rb_program_hash b))
           | _ \<Rightarrow> Inl (RuntimeError ''dispatch action has invalid request'')))"

definition mark_fault :: "string \<Rightarrow> 'x sequencer \<Rightarrow> 'x sequencer" where
  "mark_fault reason q =
     (if ts_faulted q then q else q\<lparr>ts_fault_reason := reason\<rparr>)\<lparr>ts_faulted := True, ts_submission_closed := True\<rparr>"

definition abort_actions :: "'x sequencer \<Rightarrow> 'x sequencer" where
  "abort_actions q = q\<lparr>ts_queued_actions := [], ts_inflight_actions := [], ts_registration_fence := None,
     ts_outstanding_jobs := 0, ts_submission_closed := True\<rparr>"

definition ts_reset :: "'x sequencer \<Rightarrow> 'x sequencer" where
  "ts_reset q = (clear_launch_state (q\<lparr>ts_task := None\<rparr>))\<lparr>ts_formal_bindings := [], ts_pmu := pmu_reset (ts_pmu q)\<rparr>"

section \<open>Scheduler state and ports\<close>

datatype issue_status = ACCEPTED | BACKPRESSURE | FAULT

record issue_result =
  ir_status :: issue_status
  ir_asynchronous :: bool
  ir_completion_event :: string
  ir_adapter :: string
  ir_reason :: string

definition issue_accepted :: issue_result where
  "issue_accepted = \<lparr>ir_status = ACCEPTED, ir_asynchronous = False, ir_completion_event = '''',
     ir_adapter = '''', ir_reason = ''''\<rparr>"

definition issue_async :: "string \<Rightarrow> string \<Rightarrow> issue_result" where
  "issue_async event adapter =
     issue_accepted\<lparr>ir_asynchronous := True, ir_completion_event := event, ir_adapter := adapter\<rparr>"

definition issue_fault :: "string \<Rightarrow> issue_result" where
  "issue_fault reason = issue_accepted\<lparr>ir_status := FAULT, ir_reason := reason\<rparr>"

definition issue_backpressure :: "string \<Rightarrow> issue_result" where
  "issue_backpressure reason = issue_accepted\<lparr>ir_status := BACKPRESSURE, ir_reason := reason\<rparr>"

record group_scheduler_config =
  cf_policy :: string
  cf_active_context_capacity :: int
  cf_context_pending_capacity :: int
  cf_action_capacity :: int
  cf_context_action_quota :: int
  cf_scan_width :: int
  cf_event_capacity :: int
  cf_inflight_capacity :: int
  cf_prefetch_capacity :: int
  cf_store_capacity :: int
  cf_dispatch_capacity :: int
  cf_epoch_policy :: string

definition config_ok :: "group_scheduler_config \<Rightarrow> py_error + unit" where
  "config_ok c =
     (if cf_policy c \<notin> {''s0'', ''s1'', ''s2''} then Inl (ValueError ''group.policy must be s0, s1 or s2'')
      else if cf_epoch_policy c \<notin> {''mixed'', ''same_program''}
      then Inl (ValueError ''group.epoch_policy must be mixed or same_program'')
      else if list_ex (\<lambda>n. n < 1) [cf_active_context_capacity c, cf_context_pending_capacity c,
                cf_action_capacity c, cf_context_action_quota c, cf_scan_width c, cf_event_capacity c,
                cf_inflight_capacity c, cf_prefetch_capacity c, cf_store_capacity c, cf_dispatch_capacity c]
      then Inl (ValueError ''group field must be a positive integer'')
      else if cf_context_action_quota c > cf_action_capacity c
      then Inl (ValueError ''group.context_action_quota must not exceed action_capacity'')
      else if cf_scan_width c > cf_action_capacity c
      then Inl (ValueError ''group.scan_width must not exceed action_capacity'')
      else Inr ())"

record ('x, 'e) group_scheduler =
  gs_config :: group_scheduler_config
  gs_event_table :: event_table
  gs_seqs :: "seq_ref \<Rightarrow> 'x sequencer"
  gs_recs :: "rec_ref \<Rightarrow> 'x registered_action"
  gs_next_rec :: rec_ref
  gs_queued :: "rec_ref list"
  gs_inflight_by_event :: "(string, rec_ref \<times> string) dict"
  gs_control_inflight :: "(string, rec_ref) dict"
  gs_register_cursor :: nat
  gs_scan_cursor :: nat
  gs_epoch_key :: "(int \<times> int \<times> int) option"
  gs_epoch_inflight :: int
  gs_adapter_used :: "(string, int) dict"
  gs_pmu :: pmu_counter
  gs_queued_peak :: int
  gs_inflight_peak :: int
  gs_active_context_peak :: int
  gs_registered_total :: int
  gs_issued_total :: int
  gs_completed_total :: int
  gs_backpressure_total :: int
  gs_dependency_wait_checks :: int
  gs_dependency_error_total :: int
  gs_protocol_fault_total :: int
  gs_event_frontiers :: "(string, int) dict option"
  gs_group_pmu :: pmu_counter
  gs_fault_ring :: fault_ring
  gs_reset_domain :: reset_domain
  gs_env :: 'e

type_synonym ('x, 'e, 'a) gs_result = "(('x, 'e) group_scheduler, 'a) outcome"

record ('x, 'e) group_ports =
  gp_crc32 :: "string \<Rightarrow> int"
  gp_note_dependencies :: "string \<Rightarrow> string list \<Rightarrow> int \<Rightarrow> 'e \<Rightarrow> ('e, unit) outcome"
  gp_submit_control :: "'x group_arg \<Rightarrow> string \<Rightarrow> int \<Rightarrow> 'e \<Rightarrow> ('e, bool) outcome"
  gp_issue_gate_closed :: "string \<Rightarrow> 'e \<Rightarrow> bool"
  gp_control_status :: "string \<Rightarrow> 'e \<Rightarrow> py_error + string"
  gp_request_cancel :: "string \<Rightarrow> int \<Rightarrow> 'e \<Rightarrow> ('e, unit) outcome"
  gp_note_await :: "string \<Rightarrow> string \<Rightarrow> 'x group_arg list \<Rightarrow> int \<Rightarrow> 'e \<Rightarrow> ('e, unit) outcome"
  gp_bind_l2_view :: "'x group_arg \<Rightarrow> 'x group_arg \<Rightarrow> 'x sequencer \<Rightarrow> int \<Rightarrow> 'e \<Rightarrow> ('e, unit) outcome"
  gp_bind_l2_import :: "'x group_arg \<Rightarrow> 'x group_arg \<Rightarrow> 'x sequencer \<Rightarrow> 'e \<Rightarrow> ('e, unit) outcome"
  gp_init_stream :: "'x group_arg \<Rightarrow> 'x group_arg \<Rightarrow> 'x group_arg \<Rightarrow> 'x group_arg \<Rightarrow> 'e \<Rightarrow> ('e, unit) outcome"
  gp_submit_transfer ::
    "string \<Rightarrow> string \<Rightarrow> int \<Rightarrow> 'x group_arg \<Rightarrow> 'x group_arg \<Rightarrow> 'x sequencer \<Rightarrow> 'e \<Rightarrow> ('e, bool) outcome"
  gp_dispatch_role ::
    "'x exec_tile_role_binding \<Rightarrow> int \<Rightarrow> exec_dispatch_request \<Rightarrow> string \<Rightarrow> 'x sequencer \<Rightarrow> 'e
     \<Rightarrow> ('e, issue_result) outcome"
  gp_schedule_collective ::
    "'x group_arg \<Rightarrow> string \<Rightarrow> 'x group_arg \<Rightarrow> 'x group_arg \<Rightarrow> 'x group_arg \<Rightarrow> int \<Rightarrow> 'e \<Rightarrow> 'e"
  gp_retire_context_arena :: "'x sequencer \<Rightarrow> int \<Rightarrow> 'e \<Rightarrow> ('e, bool) outcome"
  gp_publish_l2 :: "exec_publish_request \<Rightarrow> 'x sequencer \<Rightarrow> int \<Rightarrow> 'e \<Rightarrow> ('e, bool) outcome"
  gp_release_l2 :: "exec_release_request \<Rightarrow> 'x sequencer \<Rightarrow> int \<Rightarrow> 'e \<Rightarrow> ('e, bool) outcome"
  gp_note_l2_protocol_event :: "'x sequencer \<Rightarrow> string \<Rightarrow> int \<Rightarrow> 'e \<Rightarrow> ('e, unit) outcome"
  gp_context_cleanup_ready :: "'x sequencer \<Rightarrow> 'e \<Rightarrow> bool"

definition adapters_zero :: "(string, int) dict" where
  "adapters_zero = [(''prefetch'', 0), (''store'', 0), (''dispatch'', 0)]"

definition gs_new ::
  "group_scheduler_config \<Rightarrow> event_table \<Rightarrow> (seq_ref \<Rightarrow> 'x sequencer) \<Rightarrow> 'x registered_action
   \<Rightarrow> (string, int) dict option \<Rightarrow> fault_ring \<Rightarrow> reset_domain \<Rightarrow> 'e \<Rightarrow> ('x, 'e) group_scheduler" where
  "gs_new cf et sqs blank frontiers ring rd env =
     \<lparr>gs_config = cf, gs_event_table = et, gs_seqs = sqs, gs_recs = (\<lambda>_. blank), gs_next_rec = 0, gs_queued = [],
      gs_inflight_by_event = [], gs_control_inflight = [], gs_register_cursor = 0, gs_scan_cursor = 0,
      gs_epoch_key = None, gs_epoch_inflight = 0, gs_adapter_used = adapters_zero, gs_pmu = pmu_new,
      gs_queued_peak = 0, gs_inflight_peak = 0, gs_active_context_peak = 0, gs_registered_total = 0,
      gs_issued_total = 0, gs_completed_total = 0, gs_backpressure_total = 0, gs_dependency_wait_checks = 0,
      gs_dependency_error_total = 0, gs_protocol_fault_total = 0, gs_event_frontiers = frontiers,
      gs_group_pmu = pmu_new, gs_fault_ring = ring, gs_reset_domain = rd, gs_env = env\<rparr>"

text \<open>Access to the heaps and to the parts the scheduler calls.\<close>

definition upd_seq :: "seq_ref \<Rightarrow> ('x sequencer \<Rightarrow> 'x sequencer) \<Rightarrow> ('x, 'e) group_scheduler \<Rightarrow> ('x, 'e) group_scheduler" where
  "upd_seq q f s = s\<lparr>gs_seqs := (gs_seqs s)(q := f (gs_seqs s q))\<rparr>"

definition on_seq ::
  "seq_ref \<Rightarrow> ('x sequencer \<Rightarrow> ('x sequencer, 'a) outcome) \<Rightarrow> ('x, 'e) group_scheduler \<Rightarrow> ('x, 'e, 'a) gs_result" where
  "on_seq q f s = (case f (gs_seqs s q) of (r, sq) \<Rightarrow> (r, s\<lparr>gs_seqs := (gs_seqs s)(q := sq)\<rparr>))"

definition on_events :: "(event_table \<Rightarrow> 'a ev_result) \<Rightarrow> ('x, 'e) group_scheduler \<Rightarrow> ('x, 'e, 'a) gs_result" where
  "on_events f s = (case f (gs_event_table s) of (r, t) \<Rightarrow> (r, s\<lparr>gs_event_table := t\<rparr>))"

definition on_env :: "('e \<Rightarrow> ('e, 'a) outcome) \<Rightarrow> ('x, 'e) group_scheduler \<Rightarrow> ('x, 'e, 'a) gs_result" where
  "on_env f s = (case f (gs_env s) of (r, e) \<Rightarrow> (r, s\<lparr>gs_env := e\<rparr>))"

definition gs_cycle :: "string \<Rightarrow> int \<Rightarrow> ('x, 'e) group_scheduler \<Rightarrow> ('x, 'e) group_scheduler" where
  "gs_cycle name n s = s\<lparr>gs_pmu := pmu_add_cycle name n (gs_pmu s)\<rparr>"

definition gs_event :: "string \<Rightarrow> ('x, 'e) group_scheduler \<Rightarrow> ('x, 'e) group_scheduler" where
  "gs_event name s = s\<lparr>gs_pmu := pmu_add_event name 1 (gs_pmu s)\<rparr>"

definition seq_event :: "seq_ref \<Rightarrow> string \<Rightarrow> ('x, 'e) group_scheduler \<Rightarrow> ('x, 'e) group_scheduler" where
  "seq_event q name = upd_seq q (\<lambda>sq. sq\<lparr>ts_pmu := pmu_add_event name 1 (ts_pmu sq)\<rparr>)"

section \<open>Faults\<close>

text \<open>The text of an exception, of a status and of a quoted name in a message.\<close>

fun error_text :: "py_error \<Rightarrow> string" where
  "error_text (MemoryInvariantError m) = m"
| "error_text (ValueError m) = m"
| "error_text (TypeError m) = m"
| "error_text (RuntimeError m) = m"
| "error_text (EventProtocolError m) = m"
| "error_text (PoolPageError m) = m"
| "error_text _ = ''''"

fun status_name :: "event_status \<Rightarrow> string" where
  "status_name EV_PENDING = ''PENDING''"
| "status_name EV_DONE = ''DONE''"
| "status_name EV_ERROR = ''ERROR''"
| "status_name EV_TIMEOUT = ''TIMEOUT''"
| "status_name EV_RESET = ''RESET''"

definition quoted :: "string \<Rightarrow> string" where
  "quoted n = [CHR 0x27] @ n @ [CHR 0x27]"

definition contains :: "string \<Rightarrow> string \<Rightarrow> bool" where
  "contains p text = list_ex (\<lambda>i. take (length p) (drop i text) = p) [0..<Suc (length text)]"

definition lower_char :: "char \<Rightarrow> char" where
  "lower_char c = (let n = of_char c :: nat in if 65 \<le> n \<and> n \<le> 90 then char_of (n + 32) else c)"

definition fault_code_for_reason :: "string \<Rightarrow> fault_code" where
  "fault_code_for_reason reason =
     (let lowered = map lower_char reason in
      if contains ''l1'' lowered \<or> contains ''slot'' lowered \<or> contains ''frame'' lowered
      then SLOT_PERMISSION_FAULT
      else if contains ''address'' lowered \<or> contains ''owner'' lowered \<or> contains ''generation'' lowered
           \<or> contains ''release'' lowered
      then ADDRESS_FAULT
      else if contains ''l2 capacity'' lowered then L2_CAPACITY_FAULT
      else if contains ''timeout'' lowered \<or> contains ''credit'' lowered then DMA_TIMEOUT
      else if contains ''descriptor'' lowered \<or> contains ''transaction id'' lowered then INVALID_DESCRIPTOR
      else ENGINE_INTERNAL_FAULT)"

definition trigger_fault ::
  "('x, 'e) group_ports \<Rightarrow> fault_code \<Rightarrow> int \<Rightarrow> int \<Rightarrow> string \<Rightarrow> ('x, 'e) group_scheduler \<Rightarrow> ('x, 'e, nat) gs_result" where
  "trigger_fault ports code tile cycle desc s =
     (let rec = default_fault\<lparr>fr_code := code, fr_tile_id := tile, fr_desc_id := gp_crc32 ports desc AND 0xFFFFFFFF\<rparr>
      in case ring_write rec (gs_fault_ring s) of
           (Inl e, ring) \<Rightarrow> raise e (s\<lparr>gs_fault_ring := ring\<rparr>)
         | (Inr idx, ring) \<Rightarrow>
             (let req = \<lparr>rq_domain = (if tile \<ge> 0 then DOMAIN_TILE else DOMAIN_GROUP), rq_tile_id = tile,
                         rq_queue_id = -1, rq_fault_record = Some (rec\<lparr>fr_index := int idx\<rparr>)\<rparr>
              in ret idx (s\<lparr>gs_fault_ring := ring, gs_reset_domain := rd_begin req cycle (gs_reset_domain s),
                            gs_group_pmu := pmu_add_event ''fault_record'' 1 (gs_group_pmu s)\<rparr>)))"

definition on_scheduler_fault ::
  "('x, 'e) group_ports \<Rightarrow> seq_ref \<Rightarrow> string \<Rightarrow> int \<Rightarrow> ('x, 'e) group_scheduler \<Rightarrow> ('x, 'e, unit) gs_result" where
  "on_scheduler_fault ports q reason cycle s =
     (let s = upd_seq q (mark_fault reason) s;
          s = s\<lparr>gs_group_pmu := pmu_add_event ''group_scheduler_fault'' 1 (gs_group_pmu s)\<rparr>
      in if rd_is_active (gs_reset_domain s) \<or> rd_is_done (gs_reset_domain s) then ret () s
         else and_then (trigger_fault ports (fault_code_for_reason reason) (-1) cycle reason s) (\<lambda>_ s. ret () s))"

definition event_owner :: "'x sequencer \<Rightarrow> string" where
  "event_owner sq = ts_context_name sq @ ''@'' @ show_int (ts_device_slot sq)"

fun request_cancels :: "('x, 'e) group_ports \<Rightarrow> int \<Rightarrow> string list \<Rightarrow> 'e \<Rightarrow> ('e, unit) outcome" where
  "request_cancels ports cycle [] e = ret () e"
| "request_cancels ports cycle (c # cs) e =
     and_then (gp_request_cancel ports c cycle e) (\<lambda>_ e. request_cancels ports cycle cs e)"

fun cancel_all_outputs :: "'x registered_action list \<Rightarrow> string \<Rightarrow> int \<Rightarrow> int \<Rightarrow> event_table \<Rightarrow> unit ev_result" where
  "cancel_all_outputs [] owner gen cycle t = ret () t"
| "cancel_all_outputs (rec # recs) owner gen cycle t =
     (case output_events (ra_action rec) of
        Inl e \<Rightarrow> raise e t
      | Inr outs \<Rightarrow>
          and_then (cancel_outputs outs owner gen (ra_ordinal rec) cycle t) (\<lambda>_ t.
            cancel_all_outputs recs owner gen cycle t))"

fun cancel_all_dependencies :: "'x registered_action list \<Rightarrow> string \<Rightarrow> int \<Rightarrow> int \<Rightarrow> event_table \<Rightarrow> unit ev_result" where
  "cancel_all_dependencies [] owner gen cycle t = ret () t"
| "cancel_all_dependencies (rec # recs) owner gen cycle t =
     and_then (cancel_dependencies (ac_dependencies (ra_action rec)) owner gen cycle t) (\<lambda>_ t.
       cancel_all_dependencies recs owner gen cycle t)"

definition cancel_context_events_of :: "'x registered_action list \<Rightarrow> string \<Rightarrow> int \<Rightarrow> int \<Rightarrow> event_table \<Rightarrow> unit ev_result" where
  "cancel_context_events_of recs owner gen cycle t =
     and_then (cancel_all_outputs recs owner gen cycle t) (\<lambda>_ t.
       and_then (cancel_all_dependencies recs owner gen cycle t) (\<lambda>_ t.
         abandon_future_uses owner gen cycle t))"

definition is_protocol_error :: "py_error \<Rightarrow> bool" where
  "is_protocol_error e = (case e of EventProtocolError _ \<Rightarrow> True | _ \<Rightarrow> False)"

definition count_protocol_fault :: "('x, 'e) group_scheduler \<Rightarrow> ('x, 'e) group_scheduler" where
  "count_protocol_fault s = s\<lparr>gs_protocol_fault_total := gs_protocol_fault_total s + 1\<rparr>"

definition of_seq :: "seq_ref \<Rightarrow> ('x, 'e) group_scheduler \<Rightarrow> rec_ref \<Rightarrow> bool" where
  "of_seq q s r \<longleftrightarrow> ra_sequencer (gs_recs s r) = q"

definition cancel_context ::
  "('x, 'e) group_ports \<Rightarrow> seq_ref \<Rightarrow> int \<Rightarrow> ('x, 'e) group_scheduler \<Rightarrow> ('x, 'e, unit) gs_result" where
  "cancel_context ports q cycle s =
     and_then (on_env (request_cancels ports cycle
                 (map fst (filter (\<lambda>(c, r). of_seq q s r) (gs_control_inflight s)))) s) (\<lambda>_ s.
       let cancelled = filter (of_seq q s) (gs_queued s);
           recs = map (gs_recs s) cancelled;
           owner = event_owner (gs_seqs s q);
           gen = ts_launch_generation (gs_seqs s q)
       in case on_events (cancel_context_events_of recs owner gen cycle) s of
            (Inl e, s) \<Rightarrow> raise e (if is_protocol_error e then count_protocol_fault s else s)
          | (Inr _, s) \<Rightarrow>
              ret () (upd_seq q (fold note_action_cancelled recs)
                (s\<lparr>gs_queued := filter (\<lambda>r. \<not> of_seq q s r) (gs_queued s)\<rparr>)))"

definition fault_context ::
  "('x, 'e) group_ports \<Rightarrow> seq_ref \<Rightarrow> string \<Rightarrow> int \<Rightarrow> ('x, 'e) group_scheduler \<Rightarrow> ('x, 'e, unit) gs_result" where
  "fault_context ports q reason cycle s =
     and_then (on_scheduler_fault ports q reason cycle s) (\<lambda>_ s. cancel_context ports q cycle s)"

section \<open>Credits, epochs and completions\<close>

definition adapter_for :: "'x exec_group_action \<Rightarrow> string" where
  "adapter_for a =
     (case ac_op a of DMA_PREFETCH \<Rightarrow> ''prefetch'' | DMA_STORE \<Rightarrow> ''store'' | DISPATCH_ROLE \<Rightarrow> ''dispatch'' | _ \<Rightarrow> '''')"

definition is_async :: "'x exec_group_action \<Rightarrow> bool" where
  "is_async a \<longleftrightarrow> ac_op a \<in> {DMA_PREFETCH, DMA_STORE, DISPATCH_ROLE, COLLECTIVE_RUN}"

definition gs_inflight :: "('x, 'e) group_scheduler \<Rightarrow> int" where
  "gs_inflight s = int (length (gs_inflight_by_event s))"

definition adapter_capacity :: "group_scheduler_config \<Rightarrow> string \<Rightarrow> int" where
  "adapter_capacity c adapter =
     (if adapter = ''prefetch'' then cf_prefetch_capacity c
      else if adapter = ''store'' then cf_store_capacity c
      else if adapter = ''dispatch'' then cf_dispatch_capacity c else 0)"

definition has_credit :: "'x exec_group_action \<Rightarrow> string \<Rightarrow> ('x, 'e) group_scheduler \<Rightarrow> bool" where
  "has_credit a adapter s =
     (if is_async a \<and> gs_inflight s \<ge> cf_inflight_capacity (gs_config s) then False
      else if adapter = '''' then True
      else dd_get (gs_adapter_used s) adapter < adapter_capacity (gs_config s) adapter)"

definition same_program :: "('x, 'e) group_scheduler \<Rightarrow> bool" where
  "same_program s \<longleftrightarrow> cf_epoch_policy (gs_config s) = ''same_program''"

definition epoch_allows :: "'x registered_action \<Rightarrow> ('x, 'e) group_scheduler \<Rightarrow> py_error + bool" where
  "epoch_allows rec s =
     (if \<not> same_program s \<or> ac_op (ra_action rec) \<noteq> DISPATCH_ROLE then Inr True
      else case dispatch_program_key (ra_action rec) (gs_seqs s (ra_sequencer rec)) of
             Inl e \<Rightarrow> Inl e
           | Inr key \<Rightarrow> Inr (gs_epoch_key s = None \<or> gs_epoch_key s = Some key))"

definition acquire_epoch :: "'x registered_action \<Rightarrow> ('x, 'e) group_scheduler \<Rightarrow> ('x, 'e, unit) gs_result" where
  "acquire_epoch rec s =
     (if \<not> same_program s then ret () s
      else case dispatch_program_key (ra_action rec) (gs_seqs s (ra_sequencer rec)) of
             Inl e \<Rightarrow> raise e s
           | Inr key \<Rightarrow>
               if gs_epoch_key s = None
               then ret () (s\<lparr>gs_epoch_key := Some key, gs_epoch_inflight := gs_epoch_inflight s + 1\<rparr>)
               else if gs_epoch_key s \<noteq> Some key
               then raise (RuntimeError ''dispatch epoch changed after eligibility'') s
               else ret () (s\<lparr>gs_epoch_inflight := gs_epoch_inflight s + 1\<rparr>))"

definition release_epoch :: "('x, 'e) group_scheduler \<Rightarrow> ('x, 'e, unit) gs_result" where
  "release_epoch s =
     (if \<not> same_program s then ret () s
      else if gs_epoch_inflight s \<le> 0 then raise (RuntimeError ''dispatch epoch reference underflow'') s
      else let s = s\<lparr>gs_epoch_inflight := gs_epoch_inflight s - 1\<rparr>
           in ret () (if gs_epoch_inflight s = 0 then s\<lparr>gs_epoch_key := None\<rparr> else s))"

definition count_completed :: "('x, 'e) group_scheduler \<Rightarrow> ('x, 'e) group_scheduler" where
  "count_completed s = s\<lparr>gs_completed_total := gs_completed_total s + 1\<rparr>"

definition note_completion ::
  "('x, 'e) group_ports \<Rightarrow> seq_ref \<Rightarrow> string \<Rightarrow> int \<Rightarrow> event_status \<Rightarrow> ('x, 'e) group_scheduler \<Rightarrow> ('x, 'e, unit) gs_result" where
  "note_completion ports q event cycle status s =
     (case dict_get (gs_inflight_by_event s) event of
        None \<Rightarrow> ret () s
      | Some (r, adapter) \<Rightarrow>
          let rec = gs_recs s r; dispatch = (ac_op (ra_action rec) = DISPATCH_ROLE) in
          if ra_sequencer rec \<noteq> q
          then fault_context ports q (''foreign completion for '' @ quoted event) cycle s
          else if adapter \<noteq> '''' \<and> dd_get (gs_adapter_used s) adapter \<le> 0
          then fault_context ports q (adapter @ '' adapter credit underflow'') cycle s
          else if dispatch \<and> same_program s \<and> gs_epoch_inflight s \<le> 0
          then fault_context ports q ''dispatch epoch reference underflow'' cycle s
          else
            let s = s\<lparr>gs_inflight_by_event := dict_del event (gs_inflight_by_event s)\<rparr>;
                s = (if adapter \<noteq> '''' then s\<lparr>gs_adapter_used := dd_add adapter (-1) (gs_adapter_used s)\<rparr> else s)
            in and_then (if dispatch then release_epoch s else ret () s) (\<lambda>_ s.
                 let s = gs_event ''group_action_completed'' (count_completed (upd_seq q (note_action_completed rec) s))
                 in if status \<noteq> EV_DONE
                    then fault_context ports q
                           (''action '' @ show_int (ra_ordinal rec) @ '' completion '' @ quoted event
                            @ '' status='' @ status_name status) cycle s
                    else ret () s))"

definition refuse_event ::
  "('x, 'e) group_ports \<Rightarrow> seq_ref \<Rightarrow> string \<Rightarrow> int \<Rightarrow> ('x, 'e) group_scheduler \<Rightarrow> ('x, 'e, bool) gs_result" where
  "refuse_event ports q reason cycle s =
     and_then (on_scheduler_fault ports q reason cycle s) (\<lambda>_ s.
       and_then (cancel_context ports q cycle s) (\<lambda>_ s. ret False s))"

definition record_event :: "string \<Rightarrow> event_status \<Rightarrow> 'x sequencer \<Rightarrow> 'x sequencer" where
  "record_event event status sq =
     (if status = EV_DONE then sq\<lparr>ts_events_done := insert event (ts_events_done sq)\<rparr>
      else sq\<lparr>ts_event_errors := dict_set event status (ts_event_errors sq)\<rparr>)"

definition notify_event ::
  "('x, 'e) group_ports \<Rightarrow> seq_ref \<Rightarrow> string \<Rightarrow> int \<Rightarrow> event_status \<Rightarrow> int \<Rightarrow> ('x, 'e) group_scheduler \<Rightarrow> ('x, 'e, bool) gs_result" where
  "notify_event ports q event cycle status code s =
     (case dict_get (et_entries (gs_event_table s)) event of
        None \<Rightarrow> refuse_event ports q (''completion for unreserved event '' @ quoted event) cycle s
      | Some entry \<Rightarrow>
          and_then (on_events (signal event status (ev_producer_id entry) cycle code
                      (Some (event_owner (gs_seqs s q))) (Some (ts_launch_generation (gs_seqs s q)))
                      (Some (ev_sequence entry))) s) (\<lambda>accepted s.
            if \<not> accepted
            then refuse_event ports q (''duplicate, stale, or foreign completion '' @ quoted event) cycle s
            else
              let s = upd_seq q (record_event event status) s
              in and_then (if status = EV_DONE
                           then on_env (gp_note_l2_protocol_event ports (gs_seqs s q) event cycle) s
                           else ret () s) (\<lambda>_ s.
                   and_then (note_completion ports q event cycle status s) (\<lambda>_ s.
                     if status \<noteq> EV_DONE
                     then and_then (cancel_context ports q cycle
                            (upd_seq q (mark_fault (''event '' @ quoted event @ '' status='' @ status_name status)) s))
                            (\<lambda>_ s. ret True s)
                     else ret True s))))"

section \<open>Issuing one action\<close>

definition launch_owner :: "'x exec_tile_group_task \<Rightarrow> 'x sequencer \<Rightarrow> string" where
  "launch_owner task sq = tk_binding_id task @ ''@'' @ show_int (ts_launch_generation sq)"

definition note_receipt ::
  "('x, 'e) group_ports \<Rightarrow> seq_ref \<Rightarrow> 'x exec_group_action \<Rightarrow> string \<Rightarrow> 'x group_arg \<Rightarrow> int
   \<Rightarrow> ('x, 'e) group_scheduler \<Rightarrow> ('x, 'e, unit) gs_result" where
  "note_receipt ports q a owner command cycle s =
     (if ac_op a = MEMORY_MAINTENANCE \<and> ac_instruction_id a \<notin> ts_dependency_receipts (gs_seqs s q) then
        (case command of
           ArgCommand _ (Some deps) _ \<Rightarrow>
             and_then (on_env (gp_note_dependencies ports owner deps cycle) s) (\<lambda>_ s.
               ret () (upd_seq q (\<lambda>sq. sq\<lparr>ts_dependency_receipts :=
                         insert (ac_instruction_id a) (ts_dependency_receipts sq)\<rparr>) s))
         | _ \<Rightarrow> raise AttributeError s)
      else ret () s)"

definition issue_control ::
  "('x, 'e) group_ports \<Rightarrow> seq_ref \<Rightarrow> 'x exec_group_action \<Rightarrow> int \<Rightarrow> ('x, 'e) group_scheduler \<Rightarrow> ('x, 'e, issue_result) gs_result" where
  "issue_control ports q a cycle s =
     (case ac_args a of
        [] \<Rightarrow> raise IndexError s
      | command # _ \<Rightarrow>
          (case ts_task (gs_seqs s q) of
             None \<Rightarrow> ret (issue_fault ''control operation has no Context'') s
           | Some task \<Rightarrow>
               let owner = launch_owner task (gs_seqs s q) in
               and_then (note_receipt ports q a owner command cycle s) (\<lambda>_ s.
                 and_then (on_env (gp_submit_control ports command owner cycle) s) (\<lambda>accepted s.
                   if \<not> accepted then ret (issue_backpressure ''configuration controller busy'') s
                   else case command of
                          ArgCommand command_id _ _ \<Rightarrow> ret (issue_async command_id ''control'') s
                        | _ \<Rightarrow> raise AttributeError s))))"

definition signal_completion ::
  "('x, 'e) group_ports \<Rightarrow> seq_ref \<Rightarrow> string option \<Rightarrow> string \<Rightarrow> int \<Rightarrow> ('x, 'e) group_scheduler \<Rightarrow> ('x, 'e, issue_result) gs_result" where
  "signal_completion ports q dst reason cycle s =
     (case dst of
        None \<Rightarrow> ret (issue_fault reason) s
      | Some event \<Rightarrow>
          and_then (notify_event ports q event cycle EV_DONE 0 s) (\<lambda>ok s.
            ret (if ok then issue_accepted else issue_fault reason) s))"

definition issue_bind_l2_view ::
  "('x, 'e) group_ports \<Rightarrow> seq_ref \<Rightarrow> 'x exec_group_action \<Rightarrow> int \<Rightarrow> ('x, 'e) group_scheduler \<Rightarrow> ('x, 'e, issue_result) gs_result" where
  "issue_bind_l2_view ports q a cycle s =
     (case ac_args a of
        x # y # _ \<Rightarrow>
          and_then (on_env (gp_bind_l2_view ports x y (gs_seqs s q) cycle) s) (\<lambda>_ s.
            signal_completion ports q (ac_dst a) ''L2 bind has no valid completion event'' cycle s)
      | _ \<Rightarrow> raise IndexError s)"

definition issue_bind_l2_import ::
  "('x, 'e) group_ports \<Rightarrow> seq_ref \<Rightarrow> 'x exec_group_action \<Rightarrow> int \<Rightarrow> ('x, 'e) group_scheduler \<Rightarrow> ('x, 'e, issue_result) gs_result" where
  "issue_bind_l2_import ports q a cycle s =
     (case ac_args a of
        x # y # _ \<Rightarrow>
          and_then (on_env (gp_bind_l2_import ports x y (gs_seqs s q)) s) (\<lambda>_ s.
            signal_completion ports q (ac_dst a) ''L2 import bind has no valid completion event'' cycle s)
      | _ \<Rightarrow> raise IndexError s)"

definition issue_init_stream ::
  "('x, 'e) group_ports \<Rightarrow> seq_ref \<Rightarrow> 'x exec_group_action \<Rightarrow> ('x, 'e) group_scheduler \<Rightarrow> ('x, 'e, issue_result) gs_result" where
  "issue_init_stream ports q a s =
     (case ac_args a of
        [qid, depth, producer_mask, consumer_mask] \<Rightarrow>
          and_then (on_env (gp_init_stream ports qid depth producer_mask consumer_mask) s) (\<lambda>_ s.
            ret issue_accepted (seq_event q ''tgs_init_stream'' s))
      | _ \<Rightarrow> raise (ValueError ''wrong number of values to unpack'') s)"

text \<open>
  When they accept, \<open>submit_group_transfer\<close> and \<open>schedule_collective\<close> of \<open>tile_group.py\<close> start a job on
  the issuing sequencer; that part of their effect is on modelled state and is written out.
\<close>

definition arg_text :: "'x group_arg \<Rightarrow> string" where
  "arg_text x = (case x of ArgStr n \<Rightarrow> n | _ \<Rightarrow> '''')"

definition issue_dma ::
  "('x, 'e) group_ports \<Rightarrow> seq_ref \<Rightarrow> 'x exec_group_action \<Rightarrow> int \<Rightarrow> ('x, 'e) group_scheduler \<Rightarrow> ('x, 'e, issue_result) gs_result" where
  "issue_dma ports q a cycle s =
     (let prefetch = (ac_op a = DMA_PREFETCH) in
      case ac_dst a of
        None \<Rightarrow> ret (issue_fault ((if prefetch then ''DMA_PREFETCH'' else ''DMA_STORE'') @ '' requires a completion event'')) s
      | Some event \<Rightarrow>
          (case ac_args a of
             desc # transfer # _ \<Rightarrow>
               let op = (if prefetch then ''dma.prefetch'' else ''dma.store'') in
               and_then (on_env (gp_submit_transfer ports op event cycle desc transfer (gs_seqs s q)) s) (\<lambda>accepted s.
                 if \<not> accepted then ret (issue_fault (''invalid or stale memory view for '' @ op @ '' '' @ arg_text desc)) s
                 else ret (issue_async event (if prefetch then ''prefetch'' else ''store''))
                        (seq_event q (if prefetch then ''tgs_dma_prefetch'' else ''tgs_dma_store'')
                          (upd_seq q note_job_started s)))
           | _ \<Rightarrow> raise IndexError s))"

definition note_dispatch :: "exec_dispatch_request \<Rightarrow> string \<Rightarrow> 'x sequencer \<Rightarrow> 'x sequencer" where
  "note_dispatch req event sq =
     (let phases = {e \<in> {dq_input_released_event req, dq_output_ready_event req}. e \<noteq> ''''}
      in sq\<lparr>ts_role_events := dict_set (dq_role_id req) event (ts_role_events sq),
            ts_issued_role_events := insert event (ts_issued_role_events sq),
            ts_issued_phase_events := ts_issued_phase_events sq \<union> phases\<rparr>)"

definition issue_dispatch ::
  "('x, 'e) group_ports \<Rightarrow> seq_ref \<Rightarrow> 'x exec_group_action \<Rightarrow> int \<Rightarrow> ('x, 'e) group_scheduler \<Rightarrow> ('x, 'e, issue_result) gs_result" where
  "issue_dispatch ports q a cycle s =
     (case ac_args a of
        [] \<Rightarrow> raise IndexError s
      | arg # _ \<Rightarrow>
          (case (arg, ts_task (gs_seqs s q)) of
             (ArgDispatch req, Some task) \<Rightarrow>
               (case dict_get (tk_role_bindings task) (dq_role_id req) of
                  None \<Rightarrow> ret (issue_fault (''unknown role_id '' @ show_int (dq_role_id req))) s
                | Some binding \<Rightarrow>
                    let event = (if opt_str (ac_dst a) \<noteq> '''' then opt_str (ac_dst a) else ''ev_role'' @ show_int (dq_role_id req)) in
                    and_then (on_env (gp_dispatch_role ports binding cycle req event (gs_seqs s q)) s) (\<lambda>result s.
                      if ir_status result \<noteq> ACCEPTED then ret result s
                      else ret (issue_async event ''dispatch'')
                             (seq_event q ''tgs_dispatch_role'' (upd_seq q (note_dispatch req event) s))))
           | _ \<Rightarrow> ret (issue_fault ''invalid dispatch request'') s))"

definition issue_wait ::
  "('x, 'e) group_ports \<Rightarrow> seq_ref \<Rightarrow> 'x exec_group_action \<Rightarrow> int \<Rightarrow> ('x, 'e) group_scheduler \<Rightarrow> ('x, 'e, issue_result) gs_result" where
  "issue_wait ports q a cycle s =
     (let s = seq_event q ''tgs_wait_event'' s in
      case ts_task (gs_seqs s q) of
        None \<Rightarrow> ret (issue_fault ''await has no Context'') s
      | Some task \<Rightarrow>
          and_then (on_env (gp_note_await ports (launch_owner task (gs_seqs s q)) (ac_instruction_id a) (ac_args a) cycle) s)
            (\<lambda>_ s. ret issue_accepted s))"

definition issue_collective ::
  "('x, 'e) group_ports \<Rightarrow> seq_ref \<Rightarrow> 'x exec_group_action \<Rightarrow> int \<Rightarrow> ('x, 'e) group_scheduler \<Rightarrow> ('x, 'e, issue_result) gs_result" where
  "issue_collective ports q a cycle s =
     (case ac_dst a of
        None \<Rightarrow> ret (issue_fault ''COLLECTIVE_RUN requires a completion event'') s
      | Some event \<Rightarrow>
          (case ac_args a of
             [desc, op_name, bytes_total, participant_mask] \<Rightarrow>
               let s = s\<lparr>gs_env := gp_schedule_collective ports desc event op_name bytes_total participant_mask cycle (gs_env s)\<rparr>
               in ret (issue_async event '''') (seq_event q ''tgs_collective_run'' (upd_seq q note_job_started s))
           | _ \<Rightarrow> raise (ValueError ''wrong number of values to unpack'') s))"

definition issue_signal ::
  "('x, 'e) group_ports \<Rightarrow> seq_ref \<Rightarrow> 'x exec_group_action \<Rightarrow> int \<Rightarrow> ('x, 'e) group_scheduler \<Rightarrow> ('x, 'e, issue_result) gs_result" where
  "issue_signal ports q a cycle s =
     (case ac_args a of
        [] \<Rightarrow> raise IndexError s
      | ArgStr event # _ \<Rightarrow>
          and_then (case ts_task (gs_seqs s q) of
                      None \<Rightarrow> ret True s
                    | Some task \<Rightarrow>
                        if event = tk_completion_event task
                        then on_env (gp_retire_context_arena ports (gs_seqs s q) cycle) s
                        else ret True s) (\<lambda>retired s.
            if \<not> retired then ret (issue_backpressure ''root retirement pending'') s
            else and_then (notify_event ports q event cycle EV_DONE 0 s) (\<lambda>ok s.
                   if \<not> ok then ret (issue_fault (''event '' @ quoted event @ '' rejected signal'')) s
                   else ret issue_accepted (seq_event q ''tgs_signal_event'' s)))
      | _ \<Rightarrow> ret (issue_fault ''invalid signal event'') s)"

definition issue_publish ::
  "('x, 'e) group_ports \<Rightarrow> seq_ref \<Rightarrow> 'x exec_group_action \<Rightarrow> int \<Rightarrow> ('x, 'e) group_scheduler \<Rightarrow> ('x, 'e, issue_result) gs_result" where
  "issue_publish ports q a cycle s =
     (case ac_args a of
        [] \<Rightarrow> raise IndexError s
      | ArgPublish req # _ \<Rightarrow>
          and_then (on_env (gp_publish_l2 ports req (gs_seqs s q) cycle) s) (\<lambda>_ s.
            and_then (signal_completion ports q (ac_dst a) ''L2 publish completion rejected'' cycle s) (\<lambda>result s.
              ret result (if ir_status result = ACCEPTED then seq_event q ''tgs_publish_l2'' s else s)))
      | _ \<Rightarrow> ret (issue_fault ''invalid L2 publish request'') s)"

definition issue_release ::
  "('x, 'e) group_ports \<Rightarrow> seq_ref \<Rightarrow> 'x exec_group_action \<Rightarrow> int \<Rightarrow> ('x, 'e) group_scheduler \<Rightarrow> ('x, 'e, issue_result) gs_result" where
  "issue_release ports q a cycle s =
     (case ac_args a of
        [] \<Rightarrow> raise IndexError s
      | ArgRelease req # _ \<Rightarrow>
          and_then (on_env (gp_release_l2 ports req (gs_seqs s q) cycle) s) (\<lambda>_ s.
            and_then (case ac_dst a of
                        None \<Rightarrow> ret issue_accepted s
                      | Some _ \<Rightarrow> signal_completion ports q (ac_dst a) ''L2 release completion rejected'' cycle s)
              (\<lambda>result s. ret result (if ir_status result = ACCEPTED then seq_event q ''tgs_release_l2'' s else s)))
      | _ \<Rightarrow> ret (issue_fault ''invalid L2 release request'') s)"

definition gated_by_l2 :: "group_action_op \<Rightarrow> bool" where
  "gated_by_l2 op \<longleftrightarrow> op \<in> {DMA_PREFETCH, DMA_STORE, BIND_L2_VIEW, BIND_L2_IMPORT, PUBLISH_L2}"

definition issue_body ::
  "('x, 'e) group_ports \<Rightarrow> seq_ref \<Rightarrow> 'x exec_group_action \<Rightarrow> int \<Rightarrow> ('x, 'e) group_scheduler \<Rightarrow> ('x, 'e, issue_result) gs_result" where
  "issue_body ports q a cycle s =
     (if gated_by_l2 (ac_op a) \<and> gp_issue_gate_closed ports ''l2'' (gs_env s)
      then ret (issue_backpressure ''profile L2 issue gate'') s
      else case ac_op a of
          PROFILE_RECONFIG \<Rightarrow> issue_control ports q a cycle s
        | MEMORY_MAINTENANCE \<Rightarrow> issue_control ports q a cycle s
        | BIND_L2_VIEW \<Rightarrow> issue_bind_l2_view ports q a cycle s
        | BIND_L2_IMPORT \<Rightarrow> issue_bind_l2_import ports q a cycle s
        | INIT_STREAM \<Rightarrow> issue_init_stream ports q a s
        | DMA_PREFETCH \<Rightarrow> issue_dma ports q a cycle s
        | DMA_STORE \<Rightarrow> issue_dma ports q a cycle s
        | DISPATCH_ROLE \<Rightarrow> issue_dispatch ports q a cycle s
        | WAIT_EVENT \<Rightarrow> issue_wait ports q a cycle s
        | BARRIER_GROUP \<Rightarrow> ret issue_accepted (seq_event q ''tgs_barrier'' s)
        | COLLECTIVE_RUN \<Rightarrow> issue_collective ports q a cycle s
        | SIGNAL_EVENT \<Rightarrow> issue_signal ports q a cycle s
        | PUBLISH_L2 \<Rightarrow> issue_publish ports q a cycle s
        | RELEASE_L2 \<Rightarrow> issue_release ports q a cycle s)"

text \<open>The exceptions the issue guard turns into a fault result.\<close>

definition issue_catches :: "py_error \<Rightarrow> bool" where
  "issue_catches e =
     (case e of MemoryInvariantError _ \<Rightarrow> True | PoolPageError _ \<Rightarrow> True | ValueError _ \<Rightarrow> True
      | RuntimeError _ \<Rightarrow> True | EventProtocolError _ \<Rightarrow> True | _ \<Rightarrow> False)"

definition issue_registered ::
  "('x, 'e) group_ports \<Rightarrow> rec_ref \<Rightarrow> int \<Rightarrow> ('x, 'e) group_scheduler \<Rightarrow> ('x, 'e, issue_result) gs_result" where
  "issue_registered ports r cycle s =
     (let q = ra_sequencer (gs_recs s r) in
      case issue_body ports q (ra_action (gs_recs s r)) cycle s of
        (Inl e, s) \<Rightarrow>
          if issue_catches e
          then ret (issue_fault (error_text e)) (seq_event q ''group_action_invariant_fault'' s)
          else raise e s
      | (Inr result, s) \<Rightarrow> ret result s)"

section \<open>The issue stage\<close>

fun dependency_status_of :: "string list \<Rightarrow> event_table \<Rightarrow> event_status" where
  "dependency_status_of [] t = EV_DONE"
| "dependency_status_of (event # events) t =
     (case dict_get (et_entries t) event of
        None \<Rightarrow> EV_ERROR
      | Some e \<Rightarrow>
          if \<not> ev_producer_bound e then EV_ERROR
          else if ev_status e = EV_PENDING then EV_PENDING
          else if ev_status e \<noteq> EV_DONE then ev_status e
          else dependency_status_of events t)"

definition dependency_status :: "rec_ref \<Rightarrow> ('x, 'e) group_scheduler \<Rightarrow> event_status" where
  "dependency_status r s = dependency_status_of (ac_dependencies (ra_action (gs_recs s r))) (gs_event_table s)"

definition barrier_blocked :: "rec_ref \<Rightarrow> ('x, 'e) group_scheduler \<Rightarrow> bool" where
  "barrier_blocked r s \<longleftrightarrow> (let rec = gs_recs s r in
     ac_op (ra_action rec) = BARRIER_GROUP \<and> \<not> barrier_ready (ra_ordinal rec) (gs_seqs s (ra_sequencer rec)))"

definition resource_eligible :: "('x, 'e) group_scheduler \<Rightarrow> rec_ref \<Rightarrow> py_error + bool" where
  "resource_eligible s r =
     (let rec = gs_recs s r in
      if dependency_status r s \<noteq> EV_DONE then Inr False
      else if barrier_blocked r s then Inr False
      else if \<not> has_credit (ra_action rec) (adapter_for (ra_action rec)) s then Inr False
      else epoch_allows rec s)"

fun any_eligible :: "('a \<Rightarrow> py_error + bool) \<Rightarrow> 'a list \<Rightarrow> py_error + bool" where
  "any_eligible f [] = Inr False"
| "any_eligible f (x # xs) = (case f x of Inl e \<Rightarrow> Inl e | Inr b \<Rightarrow> if b then Inr True else any_eligible f xs)"

definition count_backpressure :: "string \<Rightarrow> ('x, 'e) group_scheduler \<Rightarrow> ('x, 'e) group_scheduler" where
  "count_backpressure name s = gs_cycle name 1 (s\<lparr>gs_backpressure_total := gs_backpressure_total s + 1\<rparr>)"

text \<open>What the scan does after a candidate: look at the next one, or return.\<close>

datatype scan_step = Next | Stop bool

definition fault_and_stop ::
  "('x, 'e) group_ports \<Rightarrow> seq_ref \<Rightarrow> string \<Rightarrow> int \<Rightarrow> ('x, 'e) group_scheduler \<Rightarrow> ('x, 'e, scan_step) gs_result" where
  "fault_and_stop ports q reason cycle s =
     and_then (fault_context ports q reason cycle s) (\<lambda>_ s. ret (Stop False) s)"

fun remove_equal :: "(rec_ref \<Rightarrow> 'r) \<Rightarrow> rec_ref \<Rightarrow> rec_ref list \<Rightarrow> rec_ref list option" where
  "remove_equal deref r [] = None"
| "remove_equal deref r (x # xs) =
     (if deref x = deref r then Some xs else map_option ((#) x) (remove_equal deref r xs))"

definition consume_for ::
  "rec_ref \<Rightarrow> int \<Rightarrow> ('x, 'e) group_scheduler \<Rightarrow> ('x, 'e, string) gs_result" where
  "consume_for r cycle s =
     (let rec = gs_recs s r; sq = gs_seqs s (ra_sequencer rec) in
      case on_events (consume_dependencies (ac_dependencies (ra_action rec)) (event_owner sq)
                        (ts_launch_generation sq) cycle) s of
        (Inl e, s) \<Rightarrow> if is_protocol_error e then ret (error_text e) (count_protocol_fault s) else raise e s
      | (Inr _, s) \<Rightarrow> ret '''' s)"

definition track_async ::
  "('x, 'e) group_ports \<Rightarrow> rec_ref \<Rightarrow> string \<Rightarrow> string \<Rightarrow> ('x, 'e) group_scheduler \<Rightarrow> ('x, 'e, unit) gs_result" where
  "track_async ports r adapter event s =
     (let rec = gs_recs s r;
          s = (if adapter \<noteq> '''' then s\<lparr>gs_adapter_used := dd_add adapter 1 (gs_adapter_used s)\<rparr> else s);
          s = s\<lparr>gs_inflight_by_event := dict_set event (r, adapter) (gs_inflight_by_event s)\<rparr>;
          s = s\<lparr>gs_inflight_peak := max (gs_inflight_peak s) (gs_inflight s)\<rparr>
      in and_then (if ac_op (ra_action rec) = DISPATCH_ROLE then acquire_epoch rec s else ret () s) (\<lambda>_ s.
           on_seq (ra_sequencer rec) (note_issued r rec True) s))"

definition finish_sync :: "rec_ref \<Rightarrow> ('x, 'e) group_scheduler \<Rightarrow> ('x, 'e, unit) gs_result" where
  "finish_sync r s =
     (let rec = gs_recs s r in
      and_then (on_seq (ra_sequencer rec) (note_issued r rec False) s) (\<lambda>_ s.
        ret () (gs_event ''group_action_completed''
                  (count_completed (upd_seq (ra_sequencer rec) (note_action_completed rec) s)))))"

definition commit_issue ::
  "('x, 'e) group_ports \<Rightarrow> rec_ref \<Rightarrow> string \<Rightarrow> issue_result \<Rightarrow> int \<Rightarrow> ('x, 'e) group_scheduler \<Rightarrow> ('x, 'e, scan_step) gs_result" where
  "commit_issue ports r adapter result cycle s =
     and_then (consume_for r cycle s) (\<lambda>dependency_fault s.
       case remove_equal (gs_recs s) r (gs_queued s) of
         None \<Rightarrow> raise (ValueError ''list.remove(x): x not in list'') s
       | Some rest \<Rightarrow>
           let q = ra_sequencer (gs_recs s r);
               s = s\<lparr>gs_queued := rest, gs_recs := (gs_recs s)(r := (gs_recs s r)\<lparr>ra_issue_cycle := cycle\<rparr>),
                     gs_issued_total := gs_issued_total s + 1\<rparr>;
               s = gs_event ''group_action_issued'' s;
               event = ir_completion_event result;
               settle = (\<lambda>s. if dependency_fault \<noteq> '''' then fault_and_stop ports q dependency_fault cycle s
                             else ret (Stop True) s)
           in if ir_adapter result = ''control'' then
                and_then (on_seq q (note_issued r (gs_recs s r) True)
                            (s\<lparr>gs_control_inflight := dict_set event r (gs_control_inflight s)\<rparr>)) (\<lambda>_. settle)
              else if ir_asynchronous result then
                (if event = '''' then fault_and_stop ports q ''async action has no completion event'' cycle s
                 else if dict_get (gs_inflight_by_event s) event \<noteq> None
                 then fault_and_stop ports q (''duplicate inflight completion event '' @ quoted event) cycle s
                 else and_then (track_async ports r adapter event s) (\<lambda>_. settle))
              else and_then (finish_sync r s) (\<lambda>_. settle))"

definition async_problem :: "rec_ref \<Rightarrow> ('x, 'e) group_scheduler \<Rightarrow> string" where
  "async_problem r s =
     (let rec = gs_recs s r; expected = opt_str (ac_dst (ra_action rec)) in
      if \<not> is_async (ra_action rec) then ''''
      else if expected = '''' then ''async action '' @ show_int (ra_ordinal rec) @ '' has no reserved primary event''
      else if dict_get (gs_inflight_by_event s) expected \<noteq> None
      then ''duplicate inflight completion event '' @ quoted expected
      else '''')"

definition try_issue ::
  "('x, 'e) group_ports \<Rightarrow> rec_ref \<Rightarrow> int \<Rightarrow> ('x, 'e) group_scheduler \<Rightarrow> ('x, 'e, scan_step) gs_result" where
  "try_issue ports r cycle s =
     (let rec = gs_recs s r; q = ra_sequencer rec; adapter = adapter_for (ra_action rec);
          status = dependency_status r s in
      if status = EV_PENDING
      then ret Next (gs_event ''group_dependency_wait_candidate_checks''
                       (s\<lparr>gs_dependency_wait_checks := gs_dependency_wait_checks s + 1\<rparr>))
      else if status \<noteq> EV_DONE
      then fault_and_stop ports q (''dependency of action '' @ show_int (ra_ordinal rec) @ '' completed with '' @ status_name status)
             cycle (s\<lparr>gs_dependency_error_total := gs_dependency_error_total s + 1\<rparr>)
      else if barrier_blocked r s then ret Next (gs_cycle ''group_barrier_wait'' 1 s)
      else if \<not> has_credit (ra_action rec) adapter s
      then ret Next (count_backpressure (''group_'' @ (if adapter = '''' then ''inflight'' else adapter) @ ''_credit_wait'') s)
      else case epoch_allows rec s of
          Inl e \<Rightarrow> raise e s
        | Inr allowed \<Rightarrow>
            if \<not> allowed then ret Next (count_backpressure ''group_epoch_wait'' s)
            else if async_problem r s \<noteq> '''' then fault_and_stop ports q (async_problem r s) cycle s
            else and_then (issue_registered ports r cycle s) (\<lambda>result s.
                   case ir_status result of
                     BACKPRESSURE \<Rightarrow> ret Next (count_backpressure ''group_action_backpressure'' s)
                   | FAULT \<Rightarrow> fault_and_stop ports q (ir_reason result) cycle s
                   | ACCEPTED \<Rightarrow> commit_issue ports r adapter result cycle s))"

fun scan_queue ::
  "('x, 'e) group_ports \<Rightarrow> int \<Rightarrow> rec_ref list \<Rightarrow> ('x, 'e) group_scheduler \<Rightarrow> ('x, 'e, bool) gs_result" where
  "scan_queue ports cycle [] s = ret False s"
| "scan_queue ports cycle (r # rs) s =
     and_then (try_issue ports r cycle s) (\<lambda>step s.
       case step of Next \<Rightarrow> scan_queue ports cycle rs s | Stop b \<Rightarrow> ret b s)"

definition is_head :: "('x, 'e) group_scheduler \<Rightarrow> rec_ref \<Rightarrow> bool" where
  "is_head s r \<longleftrightarrow> list_all (\<lambda>r'. of_seq (ra_sequencer (gs_recs s r)) s r' \<longrightarrow>
     ra_ordinal (gs_recs s r) \<le> ra_ordinal (gs_recs s r')) (gs_queued s)"

definition scan_window :: "('x, 'e) group_scheduler \<Rightarrow> rec_ref list" where
  "scan_window s =
     (let n = length (gs_queued s); scan_count = min (nat (cf_scan_width (gs_config s))) n;
          start = gs_scan_cursor s mod n
      in map (\<lambda>offset. gs_queued s ! ((start + offset) mod n)) [0..<scan_count])"

definition advance_scan :: "('x, 'e) group_scheduler \<Rightarrow> ('x, 'e) group_scheduler" where
  "advance_scan s =
     s\<lparr>gs_scan_cursor := gs_scan_cursor s mod length (gs_queued s)
        + min (nat (cf_scan_width (gs_config s))) (length (gs_queued s))\<rparr>"

definition ordering_stall :: "rec_ref list \<Rightarrow> rec_ref list \<Rightarrow> ('x, 'e) group_scheduler \<Rightarrow> py_error + bool" where
  "ordering_stall excluded scanned s =
     (case any_eligible (resource_eligible s) excluded of
        Inl e \<Rightarrow> Inl e
      | Inr False \<Rightarrow> Inr False
      | Inr True \<Rightarrow> (case any_eligible (resource_eligible s) scanned of Inl e \<Rightarrow> Inl e | Inr b \<Rightarrow> Inr (\<not> b)))"

definition issue_one ::
  "('x, 'e) group_ports \<Rightarrow> int \<Rightarrow> ('x, 'e) group_scheduler \<Rightarrow> ('x, 'e, bool) gs_result" where
  "issue_one ports cycle s =
     (if gs_queued s = [] then ret False s
      else let window = scan_window s; s = advance_scan s in
           if cf_policy (gs_config s) = ''s0'' then
             (let excluded = filter (\<lambda>r. \<not> is_head s r) window; scanned = filter (is_head s) window in
              case ordering_stall excluded scanned s of
                Inl e \<Rightarrow> raise e s
              | Inr stall \<Rightarrow>
                  scan_queue ports cycle scanned (if stall then gs_cycle ''group_ordering_stall'' 1 s else s))
           else scan_queue ports cycle window s)"

section \<open>The register stage\<close>

fun bind_producers :: "string list \<Rightarrow> string \<Rightarrow> int \<Rightarrow> int \<Rightarrow> event_table \<Rightarrow> unit ev_result" where
  "bind_producers [] owner gen producer t = ret () t"
| "bind_producers (event # events) owner gen producer t =
     and_then (bind_producer event owner gen producer t) (\<lambda>_ t. bind_producers events owner gen producer t)"

fun add_consumers :: "string list \<Rightarrow> string \<Rightarrow> int \<Rightarrow> event_table \<Rightarrow> unit ev_result" where
  "add_consumers [] owner gen t = ret () t"
| "add_consumers (event # events) owner gen t =
     and_then (add_consumer event owner gen t) (\<lambda>_ t. add_consumers events owner gen t)"

definition register_events ::
  "string list \<Rightarrow> string list \<Rightarrow> string \<Rightarrow> int \<Rightarrow> int \<Rightarrow> event_table \<Rightarrow> unit ev_result" where
  "register_events outs deps owner gen ordinal t =
     and_then (preflight_action outs deps owner gen t) (\<lambda>_ t.
       and_then (reserve_outputs outs owner gen t) (\<lambda>_ t.
         and_then (bind_producers outs owner gen ordinal t) (\<lambda>_ t.
           add_consumers deps owner gen t)))"

definition enqueue_record ::
  "seq_ref \<Rightarrow> int \<Rightarrow> 'x exec_group_action \<Rightarrow> int \<Rightarrow> nat \<Rightarrow> ('x, 'e) group_scheduler \<Rightarrow> ('x, 'e, scan_step) gs_result" where
  "enqueue_record q ordinal a cycle index s =
     (let r = gs_next_rec s;
          rec = \<lparr>ra_sequencer = q, ra_ordinal = ordinal, ra_action = a, ra_registered_cycle = cycle, ra_issue_cycle = -1\<rparr>;
          s = s\<lparr>gs_next_rec := Suc r, gs_recs := (gs_recs s)(r := rec), gs_queued := gs_queued s @ [r]\<rparr>
      in and_then (on_seq q (note_registered r rec) s) (\<lambda>_ s.
           ret (Stop True) (gs_event ''group_action_registered''
             (s\<lparr>gs_register_cursor := index + 1,
                gs_queued_peak := max (gs_queued_peak s) (int (length (gs_queued s))),
                gs_registered_total := gs_registered_total s + 1\<rparr>))))"

definition try_register ::
  "('x, 'e) group_ports \<Rightarrow> seq_ref list \<Rightarrow> nat \<Rightarrow> int \<Rightarrow> ('x, 'e) group_scheduler \<Rightarrow> ('x, 'e, scan_step) gs_result" where
  "try_register ports live index cycle s =
     (let q = live ! index; sq = gs_seqs s q in
      if queued_count sq \<ge> cf_context_action_quota (gs_config s)
      then ret Next (gs_cycle ''group_context_quota_full'' 1 s)
      else case peek_registration sq of
          Inl e \<Rightarrow> raise e s
        | Inr (ordinal, a) \<Rightarrow>
            (case output_events a of
               Inl e \<Rightarrow> raise e s
             | Inr outs \<Rightarrow>
                 (case on_events (register_events outs (ac_dependencies a) (event_owner sq)
                                    (ts_launch_generation sq) ordinal) s of
                    (Inl e, s) \<Rightarrow>
                      if is_protocol_error e
                      then and_then (fault_context ports q (error_text e) cycle s) (\<lambda>_ s.
                             ret (Stop False) ((count_protocol_fault s)\<lparr>gs_register_cursor := index + 1\<rparr>))
                      else raise e s
                  | (Inr _, s) \<Rightarrow> enqueue_record q ordinal a cycle index s)))"

fun scan_contexts ::
  "('x, 'e) group_ports \<Rightarrow> seq_ref list \<Rightarrow> int \<Rightarrow> nat list \<Rightarrow> nat \<Rightarrow> ('x, 'e) group_scheduler \<Rightarrow> ('x, 'e, bool) gs_result" where
  "scan_contexts ports live cycle [] start s = ret False (s\<lparr>gs_register_cursor := start + 1\<rparr>)"
| "scan_contexts ports live cycle (i # is) start s =
     and_then (try_register ports live i cycle s) (\<lambda>step s.
       case step of Next \<Rightarrow> scan_contexts ports live cycle is start s | Stop b \<Rightarrow> ret b s)"

definition register_one ::
  "('x, 'e) group_ports \<Rightarrow> seq_ref list \<Rightarrow> int \<Rightarrow> ('x, 'e) group_scheduler \<Rightarrow> ('x, 'e, bool) gs_result" where
  "register_one ports contexts cycle s =
     (if int (length (gs_queued s)) \<ge> cf_action_capacity (gs_config s)
      then ret False (gs_cycle ''group_action_table_full'' 1 s)
      else let live = filter (\<lambda>q. can_register_action (gs_seqs s q)) contexts in
           if live = [] then ret False s
           else let n = length live; start = gs_register_cursor s mod n
                in scan_contexts ports live cycle (map (\<lambda>offset. (start + offset) mod n) [0..<n]) start s)"

section \<open>The scheduler cycle\<close>

fun poll_commands ::
  "('x, 'e) group_ports \<Rightarrow> int \<Rightarrow> (string \<times> rec_ref) list \<Rightarrow> ('x, 'e) group_scheduler \<Rightarrow> ('x, 'e, unit) gs_result" where
  "poll_commands ports cycle [] s = ret () s"
| "poll_commands ports cycle ((c, r) # rest) s =
     (case gp_control_status ports c (gs_env s) of
        Inl e \<Rightarrow> raise e s
      | Inr status \<Rightarrow>
          if status = ''pending'' \<or> status = ''running'' then poll_commands ports cycle rest s
          else
            let rec = gs_recs s r; q = ra_sequencer rec;
                s = count_completed (upd_seq q (note_action_completed rec)
                      (s\<lparr>gs_control_inflight := dict_del c (gs_control_inflight s)\<rparr>))
            in and_then (if status \<noteq> ''completed''
                         then fault_context ports q (''control '' @ c @ '' '' @ status) cycle s
                         else ret () s) (\<lambda>_ s. poll_commands ports cycle rest s))"

definition poll_controls ::
  "('x, 'e) group_ports \<Rightarrow> int \<Rightarrow> ('x, 'e) group_scheduler \<Rightarrow> ('x, 'e, unit) gs_result" where
  "poll_controls ports cycle s = poll_commands ports cycle (gs_control_inflight s) s"

definition count_cycle :: "seq_ref list \<Rightarrow> ('x, 'e) group_scheduler \<Rightarrow> ('x, 'e) group_scheduler" where
  "count_cycle contexts s =
     (let s = gs_cycle ''group_scheduler_cycles'' 1 s;
          s = gs_cycle ''group_scheduler_queued'' (int (length (gs_queued s))) s;
          s = gs_cycle ''group_scheduler_inflight'' (gs_inflight s) s
      in s\<lparr>gs_active_context_peak := max (gs_active_context_peak s)
             (int (length (filter (\<lambda>q. \<not> ts_done (gs_seqs s q)) contexts)))\<rparr>)"

definition gs_step ::
  "('x, 'e) group_ports \<Rightarrow> seq_ref list \<Rightarrow> int \<Rightarrow> ('x, 'e) group_scheduler \<Rightarrow> ('x, 'e, unit) gs_result" where
  "gs_step ports contexts cycle s =
     and_then (poll_controls ports cycle s) (\<lambda>_ s.
       and_then (issue_one ports cycle (count_cycle contexts s)) (\<lambda>issued s.
         let s = (if issued then s else gs_cycle ''group_issue_idle'' 1 s) in
         and_then (register_one ports contexts cycle s) (\<lambda>registered s.
           ret () (if registered then s else gs_cycle ''group_register_idle'' 1 s))))"

section \<open>Admission, retirement and reset\<close>

definition reserve_context_events ::
  "seq_ref \<Rightarrow> 'x exec_tile_group_task \<Rightarrow> ('x, 'e) group_scheduler \<Rightarrow> ('x, 'e, issue_result) gs_result" where
  "reserve_context_events q task s =
     (case gs_event_frontiers s of
        None \<Rightarrow> ret (issue_fault ''event admission requires a loaded program'') s
      | Some budgets \<Rightarrow>
          (case dict_get budgets (tk_binding_id task) of
             None \<Rightarrow> ret (issue_fault (''Context binding '' @ quoted (tk_binding_id task) @ '' has no compiled resource budget'')) s
           | Some frontier \<Rightarrow>
               if frontier > cf_event_capacity (gs_config s)
               then ret (issue_fault (''compiled event frontier '' @ show_int frontier @ '' exceeds Group capacity ''
                           @ show_int (cf_event_capacity (gs_config s)))) s
               else case on_events (reserve_quota frontier (tk_event_uses task) (event_owner (gs_seqs s q))
                                      (ts_launch_generation (gs_seqs s q))) s of
                      (Inl e, s) \<Rightarrow> if is_protocol_error e then ret (issue_fault (error_text e)) s else raise e s
                    | (Inr accepted, s) \<Rightarrow>
                        ret (if accepted then issue_accepted else issue_backpressure ''event quota unavailable'') s))"

definition cancel_context_events :: "seq_ref \<Rightarrow> ('x, 'e) group_scheduler \<Rightarrow> ('x, 'e, unit) gs_result" where
  "cancel_context_events q s =
     (case on_events (cancel_reservation (event_owner (gs_seqs s q)) (ts_launch_generation (gs_seqs s q))) s of
        (Inl e, s) \<Rightarrow> raise e (if is_protocol_error e then count_protocol_fault s else s)
      | (Inr x, s) \<Rightarrow> ret x s)"

definition retire_context_events :: "seq_ref \<Rightarrow> int \<Rightarrow> ('x, 'e) group_scheduler \<Rightarrow> ('x, 'e, unit) gs_result" where
  "retire_context_events q cycle s =
     and_then (on_events (release_owner (event_owner (gs_seqs s q)) (ts_launch_generation (gs_seqs s q)) cycle) s)
       (\<lambda>_ s. ret () s)"

definition abort_inflight :: "('x, 'e) group_scheduler \<Rightarrow> ('x, 'e) group_scheduler" where
  "abort_inflight s = s\<lparr>gs_inflight_by_event := [], gs_adapter_used := adapters_zero,
     gs_epoch_key := None, gs_epoch_inflight := 0\<rparr>"

definition gs_reset :: "('x, 'e) group_scheduler \<Rightarrow> ('x, 'e, unit) gs_result" where
  "gs_reset s =
     (let s = s\<lparr>gs_queued := [], gs_inflight_by_event := []\<rparr> in
      if gs_control_inflight s \<noteq> []
      then raise (RuntimeError ''scheduler reset before configuration control retirement'') s
      else ret () (s\<lparr>gs_register_cursor := 0, gs_scan_cursor := 0, gs_epoch_key := None, gs_epoch_inflight := 0,
             gs_adapter_used := adapters_zero, gs_queued_peak := 0, gs_inflight_peak := 0,
             gs_active_context_peak := 0, gs_registered_total := 0, gs_issued_total := 0, gs_completed_total := 0,
             gs_backpressure_total := 0, gs_dependency_wait_checks := 0, gs_dependency_error_total := 0,
             gs_protocol_fault_total := 0, gs_pmu := pmu_reset (gs_pmu s)\<rparr>))"

definition maybe_finish :: "('x, 'e) group_ports \<Rightarrow> seq_ref \<Rightarrow> ('x, 'e) group_scheduler \<Rightarrow> ('x, 'e) group_scheduler" where
  "maybe_finish ports q s =
     (let sq = gs_seqs s q in
      if ts_done sq \<or> ts_task sq = None then s
      else if \<not> ts_submission_closed sq \<or> queued_count sq \<noteq> 0 \<or> inflight_count sq \<noteq> 0 then s
      else if ts_outstanding_jobs sq \<noteq> 0 then s
      else if \<not> ts_faulted sq \<and> (\<not> ts_issued_role_events sq \<subseteq> ts_events_done sq
                                 \<or> \<not> ts_issued_phase_events sq \<subseteq> ts_events_done sq) then s
      else if \<not> gp_context_cleanup_ready ports sq (gs_env s) then s
      else upd_seq q (\<lambda>sq. sq\<lparr>ts_done := True\<rparr>) s)"

definition ts_step :: "('x, 'e) group_ports \<Rightarrow> seq_ref \<Rightarrow> ('x, 'e) group_scheduler \<Rightarrow> ('x, 'e) group_scheduler" where
  "ts_step ports q s =
     maybe_finish ports q (upd_seq q (\<lambda>sq. sq\<lparr>ts_pmu := pmu_add_cycle ''total'' 1 (ts_pmu sq)\<rparr>) s)"

end
