(* ===== verification/Scheduler_Safety.thy ===== *)
theory Scheduler_Safety
  imports Group_Scheduler
begin

text \<open>
  Safety of the group scheduler. Every operation keeps two invariants: the credits taken are
  exactly those of the actions in flight and never exceed the configured capacities, and the
  shared action table agrees with what each context believes is queued, in program order.
  Calm steps touch neither; the rest of the proof is about the four places that move actions:
  register, issue, completion and cancellation.
\<close>

section \<open>Invariants\<close>

definition adapter_count :: "string \<Rightarrow> ('x, 'e) group_scheduler \<Rightarrow> int" where
  "adapter_count a s = dict_sum (\<lambda>(r, ad). of_bool (ad = a)) (gs_inflight_by_event s)"

definition adapter_names :: "string list" where
  "adapter_names = [''prefetch'', ''store'', ''dispatch'']"

definition inflight_ok :: "('x, 'e) group_scheduler \<Rightarrow> bool" where
  "inflight_ok s \<longleftrightarrow> keys_distinct (gs_inflight_by_event s) \<and>
     (\<forall>ev r ad. (ev, r, ad) \<in> set (gs_inflight_by_event s) \<longrightarrow>
        r < gs_next_rec s \<and> ad = adapter_for (ra_action (gs_recs s r)))"

definition credit_ok :: "('x, 'e) group_scheduler \<Rightarrow> bool" where
  "credit_ok s \<longleftrightarrow> inflight_ok s \<and>
     (\<forall>a \<in> set adapter_names. dd_get (gs_adapter_used s) a = adapter_count a s
        \<and> adapter_count a s \<le> adapter_capacity (gs_config s) a) \<and>
     gs_inflight s \<le> cf_inflight_capacity (gs_config s) \<and>
     (same_program s \<longrightarrow> gs_epoch_inflight s = adapter_count ''dispatch'' s
        \<and> (gs_epoch_key s = None \<longleftrightarrow> gs_epoch_inflight s = 0)) \<and>
     (\<not> same_program s \<longrightarrow> gs_epoch_inflight s = 0)"

definition queued_of :: "seq_ref \<Rightarrow> ('x, 'e) group_scheduler \<Rightarrow> rec_ref list" where
  "queued_of q s = filter (of_seq q s) (gs_queued s)"

definition ordinal_of :: "('x, 'e) group_scheduler \<Rightarrow> rec_ref \<Rightarrow> int" where
  "ordinal_of s r = ra_ordinal (gs_recs s r)"

definition view_ok :: "('x, 'e) group_scheduler \<Rightarrow> seq_ref \<Rightarrow> bool" where
  "view_ok s q \<longleftrightarrow>
     ts_queued_actions (gs_seqs s q) = map (\<lambda>r. (ordinal_of s r, r)) (queued_of q s) \<and>
     sorted_wrt (<) (map (ordinal_of s) (queued_of q s)) \<and>
     (\<forall>r \<in> set (queued_of q s). ordinal_of s r < ts_submission_pc (gs_seqs s q)) \<and>
     int (length (queued_of q s)) \<le> cf_context_action_quota (gs_config s)"

definition views_ok :: "('x, 'e) group_scheduler \<Rightarrow> bool" where
  "views_ok s \<longleftrightarrow> (\<forall>r \<in> set (gs_queued s). r < gs_next_rec s) \<and>
     int (length (gs_queued s)) \<le> cf_action_capacity (gs_config s) \<and> (\<forall>q. view_ok s q)"

definition sched_inv :: "('x, 'e) group_scheduler \<Rightarrow> bool" where
  "sched_inv s \<longleftrightarrow> credit_ok s \<and> views_ok s"

lemmas sched_inv_defs = sched_inv_def credit_ok_def inflight_ok_def views_ok_def view_ok_def queued_of_def
  ordinal_of_def of_seq_def adapter_count_def gs_inflight_def same_program_def

section \<open>Calm steps\<close>

text \<open>A calm step leaves the action table, the credits and the events alone.\<close>

definition seq_core :: "'x sequencer \<Rightarrow> (int, rec_ref) dict \<times> int \<times> 'x exec_tile_group_task option" where
  "seq_core sq = (ts_queued_actions sq, ts_submission_pc sq, ts_task sq)"

definition sched_core where
  "sched_core s = (gs_config s, gs_inflight_by_event s, gs_adapter_used s, gs_epoch_key s, gs_epoch_inflight s,
     gs_recs s, gs_next_rec s, gs_queued s)"

definition frame :: "('x, 'e) group_scheduler \<Rightarrow> ('x, 'e) group_scheduler \<Rightarrow> bool" where
  "frame s t \<longleftrightarrow> sched_core t = sched_core s \<and> (\<forall>q. seq_core (gs_seqs t q) = seq_core (gs_seqs s q))"

definition calm :: "('x, 'e) group_scheduler \<Rightarrow> ('x, 'e) group_scheduler \<Rightarrow> bool" where
  "calm s t \<longleftrightarrow> frame s t \<and> gs_event_table t = gs_event_table s"

lemma calm_frame: "calm s t \<Longrightarrow> frame s t"
  by (simp add: calm_def)

lemma frame_fields:
  assumes "frame s t"
  shows "gs_config t = gs_config s" "gs_inflight_by_event t = gs_inflight_by_event s"
    "gs_adapter_used t = gs_adapter_used s" "gs_epoch_key t = gs_epoch_key s"
    "gs_epoch_inflight t = gs_epoch_inflight s" "gs_recs t = gs_recs s" "gs_next_rec t = gs_next_rec s"
    "gs_queued t = gs_queued s" "ts_queued_actions (gs_seqs t q) = ts_queued_actions (gs_seqs s q)"
    "ts_submission_pc (gs_seqs t q) = ts_submission_pc (gs_seqs s q)" "ts_task (gs_seqs t q) = ts_task (gs_seqs s q)"
  using assms by (auto simp: frame_def sched_core_def seq_core_def)

lemma frame_inv:
  assumes "frame s t" "sched_inv s"
  shows "sched_inv t"
  using assms(2) by (simp add: sched_inv_defs [abs_def] frame_fields [OF assms(1)])

lemma frame_trans: "frame s t \<Longrightarrow> frame t u \<Longrightarrow> frame s u"
  by (simp add: frame_def)

interpretation calmly: outcome_logic "\<lambda>_. True" "calm :: ('x, 'e) group_scheduler \<Rightarrow> _"
  by unfold_locales (auto simp: calm_def frame_def)

named_theorems calm_intros

lemma calmly_def: "calmly.keeps s r \<longleftrightarrow> calm s (snd r)"
  by (simp add: calmly.keeps_def)

lemmas [calm_intros] = calmly.keeps_same calmly.keeps_if calmly.keeps_opt calmly.keeps_sum

lemma calm_updates [simp]:
  "calm s (s\<lparr>gs_env := e\<rparr>)" "calm s (gs_cycle name n s)" "calm s (gs_event name s)"
  "calm s (s\<lparr>gs_group_pmu := p\<rparr>)" "calm s (count_completed s)" "calm s (count_protocol_fault s)"
  "calm s (s\<lparr>gs_dependency_wait_checks := n\<rparr>)" "calm s (s\<lparr>gs_dependency_error_total := n\<rparr>)"
  "calm s (count_backpressure name s)" "calm s (s\<lparr>gs_scan_cursor := c\<rparr>)" "calm s (s\<lparr>gs_register_cursor := c\<rparr>)"
  "calm s (s\<lparr>gs_inflight_peak := n\<rparr>)" "calm s (s\<lparr>gs_active_context_peak := n\<rparr>)"
  "calm s (s\<lparr>gs_control_inflight := d\<rparr>)"
  by (simp_all add: calm_def frame_def sched_core_def gs_cycle_def gs_event_def count_completed_def
      count_protocol_fault_def count_backpressure_def)

lemma calm_transitive: "calm s t \<Longrightarrow> calm t u \<Longrightarrow> calm s u"
  by (simp add: calm_def frame_def)

lemma calm_upd_seq: "(\<And>sq. seq_core (f sq) = seq_core sq) \<Longrightarrow> calm s (upd_seq q f s)"
  by (simp add: calm_def frame_def sched_core_def upd_seq_def)

lemma seq_core_updates [simp]:
  "seq_core (mark_fault reason sq) = seq_core sq" "seq_core (record_event ev st sq) = seq_core sq"
  "seq_core (note_job_started sq) = seq_core sq" "seq_core (note_dispatch req ev sq) = seq_core sq"
  "seq_core (note_action_completed rec sq) = seq_core sq" "seq_core (sq\<lparr>ts_pmu := p\<rparr>) = seq_core sq"
  "seq_core (sq\<lparr>ts_dependency_receipts := d\<rparr>) = seq_core sq" "seq_core (sq\<lparr>ts_done := b\<rparr>) = seq_core sq"
  by (simp_all add: seq_core_def mark_fault_def record_event_def note_job_started_def note_dispatch_def
      note_action_completed_def clear_fence_def Let_def)

lemma calm_completed:
  "calm s (count_completed (upd_seq q (note_action_completed rec) s))"
  "calm s (gs_event n (count_completed (upd_seq q (note_action_completed rec) s)))"
proof -
  have u: "calm s (upd_seq q (note_action_completed rec) s)" by (rule calm_upd_seq) simp
  then show "calm s (count_completed (upd_seq q (note_action_completed rec) s))" by (rule calm_transitive) simp
  then show "calm s (gs_event n (count_completed (upd_seq q (note_action_completed rec) s)))" by (rule calm_transitive) simp
qed

lemma calm_seq_event [simp]: "calm s (seq_event q name s)"
  unfolding seq_event_def by (rule calm_upd_seq) simp

lemma calmly_on_env [calm_intros]: "calmly.keeps s (on_env f s)"
  by (simp add: calmly_def on_env_def split: prod.splits)

lemma calm_trigger_fault: "calmly.keeps s (trigger_fault ports code tile cycle desc s)"
  by (simp add: calmly_def trigger_fault_def Let_def calm_def frame_def sched_core_def split: prod.splits sum.splits)

lemma calm_on_scheduler_fault [calm_intros]: "calmly.keeps s (on_scheduler_fault ports q reason cycle s)"
proof -
  define s1 where "s1 = upd_seq q (mark_fault reason) s"
  define s2 where "s2 = s1\<lparr>gs_group_pmu := pmu_add_event ''group_scheduler_fault'' 1 (gs_group_pmu s1)\<rparr>"
  have 0: "calm s s2" unfolding s2_def s1_def
    by (rule calm_transitive [OF calm_upd_seq [of "mark_fault reason" s q]]) simp_all
  have 1: "calm s2 (snd (trigger_fault ports (fault_code_for_reason reason) (-1) cycle reason s2))"
    using calm_trigger_fault by (simp add: calmly_def)
  have "snd (on_scheduler_fault ports q reason cycle s)
      \<in> {s2, snd (trigger_fault ports (fault_code_for_reason reason) (-1) cycle reason s2)}"
    by (simp add: on_scheduler_fault_def Let_def s1_def s2_def)
  with 0 1 show ?thesis by (auto simp: calmly_def intro: calm_transitive)
qed

section \<open>Operations that keep the invariant\<close>

definition shrink :: "('x, 'e) group_scheduler \<Rightarrow> ('x, 'e) group_scheduler \<Rightarrow> bool" where
  "shrink s t \<longleftrightarrow> gs_config t = gs_config s \<and> gs_recs t = gs_recs s \<and> gs_next_rec t = gs_next_rec s
     \<and> set (gs_queued t) \<subseteq> set (gs_queued s) \<and> (\<forall>q. ts_task (gs_seqs t q) = ts_task (gs_seqs s q))"

interpretation gs_logic: outcome_logic "sched_inv :: ('x, 'e) group_scheduler \<Rightarrow> bool" shrink
  by unfold_locales (auto simp: shrink_def)

named_theorems gs_intros

lemmas [gs_intros] = gs_logic.keeps_same gs_logic.keeps_if gs_logic.keeps_opt gs_logic.keeps_sum

lemma frame_shrink: "frame s t \<Longrightarrow> shrink s t"
  by (simp add: shrink_def frame_fields)

lemma frame_keeps: "frame s (snd r) \<Longrightarrow> gs_logic.keeps s r"
  by (simp add: gs_logic.keeps_def frame_inv frame_shrink)

lemma calm_keeps: "calmly.keeps s r \<Longrightarrow> gs_logic.keeps s r"
  by (rule frame_keeps) (simp add: calmly_def calm_def)

lemma keeps_from:
  assumes "frame s t" "gs_logic.keeps t r"
  shows "gs_logic.keeps s r"
  using assms frame_shrink [OF assms(1)] frame_inv [OF assms(1)] gs_logic.rel_trans
  unfolding gs_logic.keeps_def by blast

lemma keeps_ret: "frame s t \<Longrightarrow> gs_logic.keeps s (v, t)"
  by (rule frame_keeps) simp

lemma frame_on_events: "frame s (snd (on_events f s))"
  by (simp add: on_events_def frame_def sched_core_def split: prod.splits)

lemma fold_cancelled_queued:
  "ts_queued_actions (fold note_action_cancelled recs sq)
     = filter (\<lambda>(k, r). k \<notin> set (map ra_ordinal recs)) (ts_queued_actions sq)"
proof (induction recs arbitrary: sq)
  case (Cons rec recs)
  have "ts_queued_actions (note_action_cancelled rec sq)
      = filter (\<lambda>(k, r). k \<noteq> ra_ordinal rec) (ts_queued_actions sq)"
    by (auto simp: note_action_cancelled_def clear_fence_def AList.delete_eq intro!: filter_cong)
  then show ?case by (auto simp: Cons.IH intro!: filter_cong)
qed simp

lemma fold_cancelled_core:
  "ts_submission_pc (fold note_action_cancelled recs sq) = ts_submission_pc sq"
  "ts_task (fold note_action_cancelled recs sq) = ts_task sq"
  by (induction recs arbitrary: sq) (auto simp: note_action_cancelled_def clear_fence_def)

definition drop_context :: "seq_ref \<Rightarrow> ('x, 'e) group_scheduler \<Rightarrow> ('x, 'e) group_scheduler" where
  "drop_context q s =
     upd_seq q (fold note_action_cancelled (map (gs_recs s) (queued_of q s)))
       (s\<lparr>gs_queued := filter (\<lambda>r. \<not> of_seq q s r) (gs_queued s)\<rparr>)"

lemma drop_context_queued_of:
  "queued_of q' (drop_context q s) = (if q' = q then [] else queued_of q' s)"
  by (auto simp: drop_context_def queued_of_def upd_seq_def of_seq_def filter_empty_conv intro!: filter_cong)

lemma drop_context_fields [simp]:
  "gs_config (drop_context q s) = gs_config s" "gs_recs (drop_context q s) = gs_recs s"
  "gs_next_rec (drop_context q s) = gs_next_rec s" "gs_inflight_by_event (drop_context q s) = gs_inflight_by_event s"
  "gs_adapter_used (drop_context q s) = gs_adapter_used s" "gs_epoch_key (drop_context q s) = gs_epoch_key s"
  "gs_epoch_inflight (drop_context q s) = gs_epoch_inflight s"
  "gs_queued (drop_context q s) = filter (\<lambda>r. \<not> of_seq q s r) (gs_queued s)"
  by (simp_all add: drop_context_def upd_seq_def)

lemma drop_context_seqs:
  "gs_seqs (drop_context q s) q' =
     (if q' = q then fold note_action_cancelled (map (gs_recs s) (queued_of q s)) (gs_seqs s q) else gs_seqs s q')"
  by (simp add: drop_context_def upd_seq_def)

lemma drop_context_view:
  assumes "view_ok s q'" "view_ok s q" "0 \<le> cf_context_action_quota (gs_config s)"
  shows "view_ok (drop_context q s) q'"
proof (cases "q' = q")
  case True
  have "ts_queued_actions (gs_seqs (drop_context q s) q) = []"
    using assms(2) by (auto simp: drop_context_seqs fold_cancelled_queued view_ok_def ordinal_of_def filter_empty_conv)
  with True assms(3) show ?thesis by (simp add: view_ok_def drop_context_queued_of)
next
  case False
  have "ordinal_of (drop_context q s) = ordinal_of s" by (rule ext) (simp add: ordinal_of_def)
  with False assms(1) show ?thesis by (simp add: view_ok_def drop_context_queued_of drop_context_seqs)
qed

lemma credit_ok_cong:
  assumes "gs_config t = gs_config s" "gs_inflight_by_event t = gs_inflight_by_event s"
    "gs_adapter_used t = gs_adapter_used s" "gs_epoch_key t = gs_epoch_key s"
    "gs_epoch_inflight t = gs_epoch_inflight s" "gs_next_rec s \<le> gs_next_rec t"
    "\<And>r. r < gs_next_rec s \<Longrightarrow> ra_action (gs_recs t r) = ra_action (gs_recs s r)"
    "credit_ok s"
  shows "credit_ok t"
proof -
  from assms(8) have "inflight_ok s" by (simp add: credit_ok_def)
  then have "inflight_ok t"
    using assms(6,7) unfolding inflight_ok_def assms(2) by (metis order_less_le_trans)
  with assms(8) show ?thesis
    by (simp add: credit_ok_def assms(1-5) adapter_count_def gs_inflight_def same_program_def)
qed

lemma view_quota_nonneg: "view_ok s q \<Longrightarrow> 0 \<le> cf_context_action_quota (gs_config s)"
  by (auto simp: view_ok_def)

lemma drop_context_keeps: "gs_logic.keeps s (v, drop_context q s)"
  unfolding gs_logic.keeps_def snd_conv
proof
  assume inv: "sched_inv s"
  then have views: "views_ok s" and credit: "credit_ok s" by (simp_all add: sched_inv_def)
  have "credit_ok (drop_context q s)" by (rule credit_ok_cong [OF _ _ _ _ _ _ _ credit]) simp_all
  moreover have "views_ok (drop_context q s)"
    unfolding views_ok_def
  proof (intro conjI allI)
    fix q'
    show "view_ok (drop_context q s) q'"
      by (rule drop_context_view; use views view_quota_nonneg in \<open>unfold views_ok_def, blast\<close>)
  next
    have "length (filter (\<lambda>r. \<not> of_seq q s r) (gs_queued s)) \<le> length (gs_queued s)" by simp
    moreover have "int (length (gs_queued s)) \<le> cf_action_capacity (gs_config s)" using views by (simp add: views_ok_def)
    ultimately show "int (length (gs_queued (drop_context q s))) \<le> cf_action_capacity (gs_config (drop_context q s))"
      unfolding drop_context_fields by linarith
  qed (use views in \<open>simp add: views_ok_def\<close>)
  moreover have "shrink s (drop_context q s)"
    by (auto simp: shrink_def drop_context_seqs fold_cancelled_core)
  ultimately show "sched_inv (drop_context q s) \<and> shrink s (drop_context q s)" by (simp add: sched_inv_def)
qed

lemma cancel_context_drop:
  "cancel_context ports q cycle s =
     and_then (on_env (request_cancels ports cycle
                 (map fst (filter (\<lambda>(c, r). of_seq q s r) (gs_control_inflight s)))) s) (\<lambda>_ s.
       case on_events (cancel_context_events_of (map (gs_recs s) (queued_of q s)) (event_owner (gs_seqs s q))
                         (ts_launch_generation (gs_seqs s q)) cycle) s of
         (Inl e, s) \<Rightarrow> raise e (if is_protocol_error e then count_protocol_fault s else s)
       | (Inr _, s) \<Rightarrow> ret () (drop_context q s))"
proof -
  have "queued_of q t = filter (of_seq q t) (gs_queued t)" for t :: "('a, 'b) group_scheduler" and q
    by (simp add: queued_of_def)
  moreover have "of_seq q (t\<lparr>gs_event_table := et\<rparr>) = of_seq q t" for t :: "('a, 'b) group_scheduler" and q et
    by (rule ext) (simp add: of_seq_def)
  ultimately show ?thesis
    unfolding cancel_context_def Let_def drop_context_def
    by (intro arg_cong2 [where f = and_then] refl ext)
       (auto simp: on_events_def split: prod.splits sum.splits)
qed

lemma cancel_context_keeps [gs_intros]: "gs_logic.keeps s (cancel_context ports q cycle s)"
  unfolding cancel_context_drop
proof (rule gs_logic.keeps_and_then)
  fix t :: "('a, 'b) group_scheduler"
  let ?f = "cancel_context_events_of (map (gs_recs t) (queued_of q t)) (event_owner (gs_seqs t q))
      (ts_launch_generation (gs_seqs t q)) cycle"
  obtain v u where r: "on_events ?f t = (v, u)" by fastforce
  have fr: "frame t u" using frame_on_events [of t ?f] r by simp
  have "frame u (count_protocol_fault u)" by (rule calm_frame) simp
  with fr have "frame t (count_protocol_fault u)" by (rule frame_trans)
  with r fr show "gs_logic.keeps t (case on_events ?f t of
         (Inl e, s) \<Rightarrow> raise e (if is_protocol_error e then count_protocol_fault s else s)
       | (Inr _, s) \<Rightarrow> ret () (drop_context q s))"
    by (auto simp: keeps_ret intro: keeps_from drop_context_keeps split: sum.splits)
qed (rule calm_keeps [OF calmly_on_env])

lemma fault_context_keeps [gs_intros]: "gs_logic.keeps s (fault_context ports q reason cycle s)"
  unfolding fault_context_def
  by (rule gs_logic.keeps_and_then [OF calm_keeps [OF calm_on_scheduler_fault]]) (rule cancel_context_keeps)

lemma fault_and_stop_keeps [gs_intros]: "gs_logic.keeps s (fault_and_stop ports q reason cycle s)"
  unfolding fault_and_stop_def
  by (rule gs_logic.keeps_and_then [OF fault_context_keeps]) (rule gs_logic.keeps_same)

lemma refuse_event_keeps [gs_intros]: "gs_logic.keeps s (refuse_event ports q reason cycle s)"
  unfolding refuse_event_def
  by (rule gs_logic.keeps_and_then [OF calm_keeps [OF calm_on_scheduler_fault]],
      rule gs_logic.keeps_and_then [OF cancel_context_keeps]) (rule gs_logic.keeps_same)

section \<open>Completions return credits\<close>

definition return_credit :: "string \<Rightarrow> string \<Rightarrow> ('x, 'e) group_scheduler \<Rightarrow> ('x, 'e) group_scheduler" where
  "return_credit event adapter s =
     (let s = s\<lparr>gs_inflight_by_event := dict_del event (gs_inflight_by_event s)\<rparr>
      in if adapter \<noteq> '''' then s\<lparr>gs_adapter_used := dd_add adapter (-1) (gs_adapter_used s)\<rparr> else s)"

lemma adapter_count_nonneg: "0 \<le> adapter_count a s"
  unfolding adapter_count_def by (rule dict_sum_nonneg) (auto split: prod.splits)

lemma adapter_for_cases: "adapter_for a = '''' \<or> adapter_for a \<in> set adapter_names"
  by (auto simp: adapter_for_def adapter_names_def split: group_action_op.splits)

lemma adapter_for_dispatch: "adapter_for a = ''dispatch'' \<longleftrightarrow> ac_op a = DISPATCH_ROLE"
  by (auto simp: adapter_for_def split: group_action_op.splits)

text \<open>
  What a completion does to the credit fields, once the guards have passed: the entry leaves
  the table, its adapter credit returns, and a dispatch gives its epoch reference back.
\<close>

definition settle_completion :: "string \<Rightarrow> string \<Rightarrow> ('x, 'e) group_scheduler \<Rightarrow> ('x, 'e) group_scheduler" where
  "settle_completion event adapter s =
     (if adapter = ''dispatch'' \<and> same_program s then
        (return_credit event adapter s)\<lparr>gs_epoch_inflight := gs_epoch_inflight s - 1,
           gs_epoch_key := (if gs_epoch_inflight s = 1 then None else gs_epoch_key s)\<rparr>
      else return_credit event adapter s)"

lemma settle_completion_fields [simp]:
  "gs_config (settle_completion ev ad s) = gs_config s" "gs_recs (settle_completion ev ad s) = gs_recs s"
  "gs_next_rec (settle_completion ev ad s) = gs_next_rec s" "gs_queued (settle_completion ev ad s) = gs_queued s"
  "gs_seqs (settle_completion ev ad s) = gs_seqs s"
  "gs_inflight_by_event (settle_completion ev ad s) = dict_del ev (gs_inflight_by_event s)"
  "gs_adapter_used (settle_completion ev ad s)
     = (if ad = '''' then gs_adapter_used s else dd_add ad (-1) (gs_adapter_used s))"
  "gs_epoch_inflight (settle_completion ev ad s)
     = (if ad = ''dispatch'' \<and> same_program s then gs_epoch_inflight s - 1 else gs_epoch_inflight s)"
  "gs_epoch_key (settle_completion ev ad s)
     = (if ad = ''dispatch'' \<and> same_program s \<and> gs_epoch_inflight s = 1 then None else gs_epoch_key s)"
  by (simp_all add: settle_completion_def return_credit_def Let_def)

lemma settle_completion_credit:
  assumes "credit_ok s" "dict_get (gs_inflight_by_event s) ev = Some (r, ad)"
  shows "credit_ok (settle_completion ev ad s)"
proof -
  let ?t = "settle_completion ev ad s"
  have keys: "keys_distinct (gs_inflight_by_event s)" using assms(1) by (simp add: credit_ok_def inflight_ok_def)
  have cnt: "adapter_count a ?t = adapter_count a s - of_bool (ad = a)" for a
    using dict_sum_del [OF keys assms(2), of "\<lambda>(r, ad). of_bool (ad = a)"] by (simp add: adapter_count_def)
  have len: "gs_inflight ?t \<le> gs_inflight s"
    by (simp add: gs_inflight_def length_dict_del [OF keys])
  have "inflight_ok ?t"
    using assms(1) by (auto simp: credit_ok_def inflight_ok_def set_dict_del AList.distinct_delete)
  moreover have "\<forall>a \<in> set adapter_names. dd_get (gs_adapter_used ?t) a = adapter_count a ?t
      \<and> adapter_count a ?t \<le> adapter_capacity (gs_config ?t) a"
  proof
    fix a assume a: "a \<in> set adapter_names"
    then have "dd_get (gs_adapter_used s) a = adapter_count a s" "a \<noteq> ''''"
      "adapter_count a s \<le> adapter_capacity (gs_config s) a"
      using assms(1) by (auto simp: credit_ok_def adapter_names_def)
    with cnt [of a] show "dd_get (gs_adapter_used ?t) a = adapter_count a ?t
        \<and> adapter_count a ?t \<le> adapter_capacity (gs_config ?t) a"
      by (cases "ad = a") (simp_all add: dd_get_add)
  qed
  moreover have "same_program ?t = same_program s" by (simp add: same_program_def)
  moreover have "same_program s \<Longrightarrow> gs_epoch_inflight ?t = adapter_count ''dispatch'' ?t
      \<and> (gs_epoch_key ?t = None \<longleftrightarrow> gs_epoch_inflight ?t = 0)"
    using assms(1) adapter_count_nonneg [of "''dispatch''" ?t] cnt [of "''dispatch''"]
    by (cases "ad = ''dispatch''") (auto simp: credit_ok_def)
  moreover have "\<not> same_program s \<Longrightarrow> gs_epoch_inflight ?t = 0" using assms(1) by (simp add: credit_ok_def)
  ultimately show ?thesis using assms(1) len unfolding credit_ok_def settle_completion_fields(1) by linarith
qed

lemma views_ok_cong:
  assumes "gs_config t = gs_config s" "gs_queued t = gs_queued s" "gs_recs t = gs_recs s"
    "gs_next_rec t = gs_next_rec s" "gs_seqs t = gs_seqs s" "views_ok s"
  shows "views_ok t"
  using assms(6) by (simp add: views_ok_def view_ok_def queued_of_def ordinal_of_def [abs_def] of_seq_def [abs_def] assms(1-5))

lemma settle_completion_keeps:
  assumes "dict_get (gs_inflight_by_event s) ev = Some (r, ad)"
  shows "gs_logic.keeps s (v, settle_completion ev ad s)"
  unfolding gs_logic.keeps_def snd_conv
proof
  assume "sched_inv s"
  then have "credit_ok (settle_completion ev ad s)" "views_ok (settle_completion ev ad s)"
    using settle_completion_credit [OF _ assms] views_ok_cong [of "settle_completion ev ad s" s]
    by (simp_all add: sched_inv_def)
  then show "sched_inv (settle_completion ev ad s) \<and> shrink s (settle_completion ev ad s)"
    by (simp add: sched_inv_def shrink_def)
qed

lemma release_epoch_settles:
  assumes "ad = ''dispatch'' \<Longrightarrow> same_program s \<Longrightarrow> 0 < gs_epoch_inflight s"
  shows "(if ad = ''dispatch'' then release_epoch (return_credit ev ad s) else ret () (return_credit ev ad s))
     = ret () (settle_completion ev ad s)"
  using assms
  by (auto simp: release_epoch_def settle_completion_def return_credit_def same_program_def Let_def)

lemma note_completion_keeps [gs_intros]: "gs_logic.keeps s (note_completion ports q event cycle status s)"
proof (cases "sched_inv s \<and> dict_get (gs_inflight_by_event s) event \<noteq> None")
  case False
  then show ?thesis by (auto simp: note_completion_def gs_logic.keeps_def gs_logic.rel_refl split: option.splits)
next
  case True
  then obtain r ad where e: "dict_get (gs_inflight_by_event s) event = Some (r, ad)" by auto
  from True have "(event, r, ad) \<in> set (gs_inflight_by_event s)" using dict_get_in_set [OF e] by simp
  with True have "ad = adapter_for (ra_action (gs_recs s r))"
    unfolding sched_inv_def credit_ok_def inflight_ok_def by blast
  then have disp: "ac_op (ra_action (gs_recs s r)) = DISPATCH_ROLE \<longleftrightarrow> ad = ''dispatch''"
    by (simp add: adapter_for_dispatch)
  define t where "t = settle_completion event ad s"
  define u where "u = gs_event ''group_action_completed''
      (count_completed (upd_seq q (note_action_completed (gs_recs s r)) t))"
  have "calm t u" unfolding u_def by (rule calm_completed)
  then have tu: "gs_logic.keeps t (v, u)" for v :: "py_error + unit" by (simp add: keeps_ret calm_frame)
  have st: "gs_logic.keeps s (v, t)" for v :: "py_error + unit"
    unfolding t_def by (rule settle_completion_keeps [OF e])
  have tail: "gs_logic.keeps s (if status \<noteq> EV_DONE then fault_context ports q reason cycle u else ret () u)" for reason
    using gs_logic.keeps_and_then [OF st [of "Inr ()"], of "\<lambda>_ _. if status \<noteq> EV_DONE
        then fault_context ports q reason cycle u else ret () u"]
      keeps_from [OF calm_frame [OF \<open>calm t u\<close>] fault_context_keeps] tu by simp
  have rel: "\<not> (ad = ''dispatch'' \<and> same_program s \<and> gs_epoch_inflight s \<le> 0) \<Longrightarrow>
      (if ad = ''dispatch'' then release_epoch (return_credit event ad s) else ret () (return_credit event ad s)) = ret () t"
    unfolding t_def by (rule release_epoch_settles) auto
  show ?thesis
    unfolding note_completion_def e Let_def option.case prod.case disp
    using rel tail unfolding return_credit_def Let_def u_def
    by (auto intro: fault_context_keeps)
qed

section \<open>Issuing keeps the invariant\<close>

lemma keeps_on_events [gs_intros]: "gs_logic.keeps s (on_events f s)"
  by (rule frame_keeps [OF frame_on_events])

lemma keeps_on_env [gs_intros]: "gs_logic.keeps s (on_env f s)"
  by (rule calm_keeps [OF calmly_on_env])

lemma keeps_calm_ret: "calm s t \<Longrightarrow> gs_logic.keeps s (v, t)"
  by (rule keeps_ret [OF calm_frame])

lemma notify_event_keeps [gs_intros]: "gs_logic.keeps s (notify_event ports q event cycle status code s)"
proof (cases "dict_get (et_entries (gs_event_table s)) event")
  case None
  then show ?thesis by (simp add: notify_event_def refuse_event_keeps)
next
  case (Some entry)
  have mark: "gs_logic.keeps s (and_then (cancel_context ports q cycle (upd_seq q (mark_fault reason) s)) (\<lambda>_ s. ret True s))"
    for s :: "('a, 'b) group_scheduler" and reason
    by (rule keeps_from [OF calm_frame [OF calm_upd_seq [of "mark_fault reason" s q]]], simp,
        rule gs_logic.keeps_and_then [OF cancel_context_keeps]) (rule gs_logic.keeps_same)
  have core: "gs_logic.keeps t (let s = upd_seq q (record_event event status) t
        in and_then (if status = EV_DONE then on_env (gp_note_l2_protocol_event ports (gs_seqs s q) event cycle) s
                     else ret () s) (\<lambda>_ s.
             and_then (note_completion ports q event cycle status s) (\<lambda>_ s.
               if status \<noteq> EV_DONE
               then and_then (cancel_context ports q cycle
                      (upd_seq q (mark_fault (''event '' @ quoted event @ '' status='' @ status_name status)) s))
                      (\<lambda>_ s. ret True s)
               else ret True s)))" for t :: "('a, 'b) group_scheduler"
    unfolding Let_def
    by (rule keeps_from [OF calm_frame [OF calm_upd_seq [of "record_event event status" t q]]], simp,
        rule gs_logic.keeps_and_then, (simp add: keeps_on_env gs_logic.keeps_same),
        rule gs_logic.keeps_and_then [OF note_completion_keeps]) (simp add: mark gs_logic.keeps_same)
  show ?thesis
    unfolding notify_event_def Some option.case
    by (rule gs_logic.keeps_and_then [OF keeps_on_events]) (use core refuse_event_keeps in \<open>auto simp: Let_def\<close>)
qed

lemma signal_completion_keeps [gs_intros]: "gs_logic.keeps s (signal_completion ports q dst reason cycle s)"
  unfolding signal_completion_def
  by (rule gs_logic.keeps_opt [OF gs_logic.keeps_same], rule gs_logic.keeps_and_then [OF notify_event_keeps])
     (rule gs_logic.keeps_same)

lemma calm_then:
  assumes "\<And>x t. r = (Inr x, t) \<Longrightarrow> calm t (snd (k x t))" "calm s (snd r)"
  shows "calm s (snd (and_then r k))"
  using assms calm_transitive by (cases r; cases "fst r") (fastforce simp: and_then_def)+

lemma calm_same: "calm s s"
  by (simp add: calm_def frame_def)

lemma calm_on_env: "calm s (snd (on_env f s))"
  using calmly_on_env by (simp add: calmly_def)

lemma calm_seq_steps:
  "calm s (seq_event q name (upd_seq q note_job_started s))"
  "calm s (seq_event q name (upd_seq q (note_dispatch req ev) s))"
  "calm s (upd_seq q (\<lambda>sq. sq\<lparr>ts_dependency_receipts := insert i (ts_dependency_receipts sq)\<rparr>) s)"
  by (rule calm_transitive [OF calm_upd_seq calm_seq_event], simp)+ (rule calm_upd_seq, simp)

lemmas calm_rules = calm_then calm_on_env calm_same calm_seq_steps calm_seq_event

lemma calm_note_receipt: "calm s (snd (note_receipt ports q a owner command cycle s))"
  unfolding note_receipt_def
  by (auto intro!: calm_rules split: group_arg.splits option.splits)

lemma calm_issue_control: "calm s (snd (issue_control ports q a cycle s))"
  unfolding issue_control_def Let_def
  by (auto intro!: calm_rules calm_note_receipt split: list.splits option.splits group_arg.splits)

lemma calm_issue_init_stream: "calm s (snd (issue_init_stream ports q a s))"
  unfolding issue_init_stream_def
  by (auto intro!: calm_rules split: list.splits)

lemma calm_issue_dma: "calm s (snd (issue_dma ports q a cycle s))"
  unfolding issue_dma_def Let_def
  by (auto intro!: calm_rules split: list.splits option.splits)

lemma calm_issue_dispatch: "calm s (snd (issue_dispatch ports q a cycle s))"
  unfolding issue_dispatch_def Let_def
  by (auto intro!: calm_rules split: list.splits option.splits group_arg.splits)

lemma calm_issue_wait: "calm s (snd (issue_wait ports q a cycle s))"
  unfolding issue_wait_def Let_def
  by (rule calm_transitive [OF calm_seq_event]) (auto intro!: calm_rules split: option.splits)

lemma calm_issue_collective: "calm s (snd (issue_collective ports q a cycle s))"
proof -
  have "calm s (seq_event q n (upd_seq q note_job_started (s\<lparr>gs_env := e\<rparr>)))" for n e
    by (rule calm_transitive [OF _ calm_seq_steps(1)]) simp
  then show ?thesis
    unfolding issue_collective_def Let_def by (auto intro!: calm_same split: list.splits option.splits)
qed

lemma issue_bind_l2_view_keeps: "gs_logic.keeps s (issue_bind_l2_view ports q a cycle s)"
  unfolding issue_bind_l2_view_def
  by (auto intro!: gs_logic.keeps_same gs_logic.keeps_and_then [OF keeps_on_env] signal_completion_keeps
      split: list.splits)

lemma issue_bind_l2_import_keeps: "gs_logic.keeps s (issue_bind_l2_import ports q a cycle s)"
  unfolding issue_bind_l2_import_def
  by (auto intro!: gs_logic.keeps_same gs_logic.keeps_and_then [OF keeps_on_env] signal_completion_keeps
      split: list.splits)

lemma issue_signal_keeps: "gs_logic.keeps s (issue_signal ports q a cycle s)"
proof -
  have tail: "gs_logic.keeps t (if \<not> retired then ret (issue_backpressure ''root retirement pending'') t
      else and_then (notify_event ports q event cycle EV_DONE 0 t) (\<lambda>ok s.
        if \<not> ok then ret (issue_fault (''event '' @ quoted event @ '' rejected signal'')) s
        else ret issue_accepted (seq_event q ''tgs_signal_event'' s)))" for t :: "('a, 'b) group_scheduler" and retired event
    by (auto intro!: gs_logic.keeps_same gs_logic.keeps_and_then [OF notify_event_keeps] keeps_calm_ret)
  show ?thesis
    unfolding issue_signal_def
    using tail [of _ True]
    by (auto intro!: gs_logic.keeps_same gs_logic.keeps_and_then [OF _ tail] keeps_on_env
        split: list.splits group_arg.splits option.splits)
qed

lemma note_published_keeps:
  "gs_logic.keeps s r \<Longrightarrow>
   gs_logic.keeps s (and_then r (\<lambda>result s. ret result (if ir_status result = ACCEPTED then seq_event q n s else s)))"
  by (erule gs_logic.keeps_and_then) (auto intro: gs_logic.keeps_same keeps_calm_ret)

lemma issue_publish_keeps: "gs_logic.keeps s (issue_publish ports q a cycle s)"
  unfolding issue_publish_def
  by (auto intro!: gs_logic.keeps_same gs_logic.keeps_and_then [OF keeps_on_env] note_published_keeps
      signal_completion_keeps split: list.splits group_arg.splits)

lemma issue_release_keeps: "gs_logic.keeps s (issue_release ports q a cycle s)"
  unfolding issue_release_def
  by (auto intro!: gs_logic.keeps_same gs_logic.keeps_and_then [OF keeps_on_env] note_published_keeps
      signal_completion_keeps split: list.splits group_arg.splits option.splits)

lemmas calm_issues = calm_issue_control calm_issue_init_stream calm_issue_dma calm_issue_dispatch
  calm_issue_wait calm_issue_collective

lemma calm_keeps_snd: "calm s (snd r) \<Longrightarrow> gs_logic.keeps s r"
  by (rule frame_keeps [OF calm_frame])

lemma issue_body_keeps [gs_intros]: "gs_logic.keeps s (issue_body ports q a cycle s)"
  unfolding issue_body_def
  by (cases "ac_op a")
     (simp_all add: gs_logic.keeps_same keeps_calm_ret calm_keeps_snd calm_issues issue_bind_l2_view_keeps
       issue_bind_l2_import_keeps issue_signal_keeps issue_publish_keeps issue_release_keeps)

text \<open>Only the operations that complete at once touch events; they never ask to be retried.\<close>

definition settles_at_once :: "group_action_op \<Rightarrow> bool" where
  "settles_at_once op \<longleftrightarrow> op \<in> {BIND_L2_VIEW, BIND_L2_IMPORT, SIGNAL_EVENT, PUBLISH_L2, RELEASE_L2}"

lemma issue_body_calm: "\<not> settles_at_once (ac_op a) \<Longrightarrow> calm s (snd (issue_body ports q a cycle s))"
  unfolding issue_body_def settles_at_once_def
  by (cases "ac_op a") (simp_all add: calm_same calm_issues)

lemma issue_result_simps [simp]:
  "ir_status issue_accepted = ACCEPTED" "ir_status (issue_fault m) = FAULT" "ir_status (issue_async ev ad) = ACCEPTED"
  "ir_status (issue_backpressure m) = BACKPRESSURE" "ir_asynchronous issue_accepted = False"
  "ir_asynchronous (issue_async ev ad) = True" "ir_adapter (issue_async ev ad) = ad" "ir_adapter issue_accepted = ''''"
  "ir_completion_event (issue_async ev ad) = ev"
  "ir_asynchronous (issue_fault m) = False" "ir_asynchronous (issue_backpressure m) = False"
  "ir_adapter (issue_fault m) = ''''"
  by (simp_all add: issue_accepted_def issue_fault_def issue_async_def issue_backpressure_def)

lemma and_then_InrD: "and_then r k = (Inr y, t) \<Longrightarrow> \<exists>x s. r = (Inr x, s) \<and> k x s = (Inr y, t)"
  by (cases r; cases "fst r") (auto simp: and_then_def)

lemma signal_completion_result:
  "signal_completion ports q dst reason cycle s = (Inr res, t) \<Longrightarrow>
   ir_status res \<noteq> BACKPRESSURE \<and> \<not> ir_asynchronous res \<and> ir_adapter res = ''''"
  by (auto simp: signal_completion_def split: option.splits if_splits dest!: and_then_InrD)

lemma issue_signal_result:
  assumes "issue_signal ports q a cycle s = (Inr res, t)"
  shows "\<not> ir_asynchronous res \<and> (ir_status res = ACCEPTED \<longrightarrow> ir_adapter res = '''')
     \<and> (ir_status res = BACKPRESSURE \<longrightarrow> calm s t)"
proof -
  have env: "calm s (snd (on_env (gp_retire_context_arena ports (gs_seqs s q) cycle) s))"
    by (rule calm_on_env)
  show ?thesis
    using assms env unfolding issue_signal_def
    by (auto split: list.splits group_arg.splits option.splits if_splits dest!: and_then_InrD intro: calm_same)
qed

lemma settled_result:
  assumes "issue_body ports q a cycle s = (Inr res, t)" "settles_at_once (ac_op a)"
  shows "\<not> ir_asynchronous res \<and> (ir_status res = ACCEPTED \<longrightarrow> ir_adapter res = '''')
     \<and> (ir_status res = BACKPRESSURE \<longrightarrow> calm s t)"
proof (cases "gated_by_l2 (ac_op a) \<and> gp_issue_gate_closed ports ''l2'' (gs_env s)")
  case True
  with assms show ?thesis by (auto simp: issue_body_def calm_same)
next
  case False
  with assms show ?thesis
    by (cases "ac_op a")
       (auto simp: issue_body_def settles_at_once_def issue_bind_l2_view_def issue_bind_l2_import_def issue_publish_def
         issue_release_def split: list.splits group_arg.splits option.splits
         dest!: and_then_InrD signal_completion_result dest: issue_signal_result)
qed

lemma issue_registered_keeps: "gs_logic.keeps s (issue_registered ports r cycle s)"
proof -
  obtain v t where b: "issue_body ports (ra_sequencer (gs_recs s r)) (ra_action (gs_recs s r)) cycle s = (v, t)"
    by fastforce
  have keep: "gs_logic.keeps s (w, t)" for w :: "py_error + issue_result"
    using issue_body_keeps [of s ports "ra_sequencer (gs_recs s r)" "ra_action (gs_recs s r)" cycle]
    by (simp add: b gs_logic.keeps_def)
  have "gs_logic.keeps s (w, seq_event q n t)" for w :: "py_error + issue_result" and q n
    using keep frame_inv [OF calm_frame [OF calm_seq_event]] frame_shrink [OF calm_frame [OF calm_seq_event]]
      gs_logic.rel_trans unfolding gs_logic.keeps_def snd_conv by blast
  with keep show ?thesis
    by (simp add: issue_registered_def Let_def b split: sum.splits)
qed

lemma issue_async_only:
  assumes "issue_body ports q a cycle s = (Inr res, t)" "ir_asynchronous res" "ir_adapter res \<noteq> ''control''"
    and "ir_status res = ACCEPTED"
  shows "is_async a"
proof (rule ccontr)
  assume no: "\<not> is_async a"
  have "\<not> settles_at_once (ac_op a)" using settled_result [OF assms(1)] assms(2) by blast
  with no assms show False
    by (cases "ac_op a")
       (auto simp: issue_body_def settles_at_once_def is_async_def issue_control_def issue_init_stream_def
         issue_wait_def gated_by_l2_def Let_def split: list.splits option.splits group_arg.splits if_splits
         dest!: and_then_InrD)
qed

lemma issue_registered_calm:
  assumes "issue_registered ports r cycle s = (Inr res, t)"
    and "ir_status res = BACKPRESSURE \<or> ir_status res = ACCEPTED \<and> ir_asynchronous res \<and> ir_adapter res \<noteq> ''control''"
  shows "calm s t \<and> (ir_status res = ACCEPTED \<longrightarrow> is_async (ra_action (gs_recs s r)))"
proof -
  let ?q = "ra_sequencer (gs_recs s r)" and ?a = "ra_action (gs_recs s r)"
  from assms have b: "issue_body ports ?q ?a cycle s = (Inr res, t)"
    by (auto simp: issue_registered_def Let_def split: prod.splits sum.splits if_splits)
  have "calm s t"
    using settled_result [OF b] issue_body_calm [of ?a s ports ?q cycle] b assms(2)
    by (cases "settles_at_once (ac_op ?a)") auto
  moreover have "ir_status res = ACCEPTED \<longrightarrow> is_async ?a"
    using issue_async_only [OF b] assms(2) by auto
  ultimately show ?thesis by simp
qed

section \<open>Taking an action out of the table\<close>

lemma distinct_from_classes: "(\<And>q. distinct (filter (\<lambda>x. f x = q) xs)) \<Longrightarrow> distinct xs"
proof (induction xs)
  case (Cons x xs)
  have "distinct (filter (\<lambda>y. f y = q) xs)" for q using Cons.prems [of q] by (simp split: if_splits)
  moreover have "x \<notin> set xs" using Cons.prems [of "f x"] by auto
  ultimately show ?case using Cons.IH by simp
qed simp

lemma view_ordinals_distinct: "view_ok s q \<Longrightarrow> distinct (map (ordinal_of s) (queued_of q s))"
  by (simp add: view_ok_def strict_sorted_iff)

lemma queued_distinct: "views_ok s \<Longrightarrow> distinct (gs_queued s)"
  by (rule distinct_from_classes [where f = "\<lambda>r. ra_sequencer (gs_recs s r)"])
     (use view_ordinals_distinct in \<open>auto simp: views_ok_def queued_of_def of_seq_def [abs_def] distinct_map\<close>)

lemma queued_unique:
  assumes "views_ok s" "x \<in> set (gs_queued s)" "y \<in> set (gs_queued s)"
    and "ra_sequencer (gs_recs s x) = ra_sequencer (gs_recs s y)" "ordinal_of s x = ordinal_of s y"
  shows "x = y"
proof -
  let ?q = "ra_sequencer (gs_recs s y)"
  have "inj_on (ordinal_of s) (set (queued_of ?q s))"
    using view_ordinals_distinct [of s ?q] assms(1) by (simp add: views_ok_def distinct_map)
  then show ?thesis
    by (rule inj_onD) (use assms in \<open>auto simp: queued_of_def of_seq_def\<close>)
qed

lemma remove_equal_filter:
  assumes "remove_equal deref r xs = Some rest" "distinct xs" "\<And>x. x \<in> set xs \<Longrightarrow> deref x = deref r \<Longrightarrow> x = r"
  shows "r \<in> set xs \<and> rest = filter (\<lambda>x. x \<noteq> r) xs"
  using assms
proof (induction xs arbitrary: rest)
  case (Cons x xs)
  show ?case
  proof (cases "deref x = deref r")
    case True
    then have "x = r" using Cons.prems(3) [of x] by simp
    moreover have "filter (\<lambda>y. y \<noteq> r) xs = xs" using Cons.prems(2) \<open>x = r\<close> by (auto simp: filter_id_conv)
    ultimately show ?thesis using Cons.prems(1) by simp
  next
    case False
    with Cons.prems(1) obtain rest' where "remove_equal deref r xs = Some rest'" "rest = x # rest'" by auto
    with Cons.IH [of rest'] Cons.prems(2,3) False show ?thesis by auto
  qed
qed simp

definition taken_out :: "rec_ref \<Rightarrow> int \<Rightarrow> ('x, 'e) group_scheduler \<Rightarrow> ('x, 'e) group_scheduler \<Rightarrow> bool" where
  "taken_out r c s t \<longleftrightarrow> gs_config t = gs_config s \<and> gs_next_rec t = gs_next_rec s
     \<and> gs_queued t = filter (\<lambda>x. x \<noteq> r) (gs_queued s)
     \<and> gs_recs t = (gs_recs s)(r := (gs_recs s r)\<lparr>ra_issue_cycle := c\<rparr>)
     \<and> (\<forall>q. ts_submission_pc (gs_seqs t q) = ts_submission_pc (gs_seqs s q) \<and>
          ts_queued_actions (gs_seqs t q) =
            (if q = ra_sequencer (gs_recs s r) then dict_del (ordinal_of s r) (ts_queued_actions (gs_seqs s q))
             else ts_queued_actions (gs_seqs s q)))"

lemma taken_out_views:
  assumes views: "views_ok s" and r: "r \<in> set (gs_queued s)" and t: "taken_out r c s t"
  shows "views_ok t"
proof -
  have seq: "of_seq q t = of_seq q s" for q using t by (auto simp: taken_out_def of_seq_def fun_eq_iff)
  have ord: "ordinal_of t = ordinal_of s" using t by (auto simp: taken_out_def ordinal_of_def fun_eq_iff)
  have qo: "queued_of q t = filter (\<lambda>x. x \<noteq> r) (queued_of q s)" for q
    using t by (simp add: queued_of_def taken_out_def seq conj_commute)
  have v: "view_ok s q" for q using views by (simp add: views_ok_def)
  have "view_ok t q" for q
  proof -
    have acts: "ts_queued_actions (gs_seqs t q) = map (\<lambda>r. (ordinal_of t r, r)) (queued_of q t)"
    proof (cases "q = ra_sequencer (gs_recs s r)")
      case True
      have "filter (\<lambda>x. ordinal_of s r \<noteq> ordinal_of s x) (queued_of q s) = filter (\<lambda>x. x \<noteq> r) (queued_of q s)"
        by (rule filter_cong) (use queued_unique [OF views _ r] True in \<open>auto simp: queued_of_def of_seq_def\<close>)
      with True t v [of q] show ?thesis
        by (simp add: taken_out_def view_ok_def AList.delete_eq filter_map o_def qo ord case_prod_unfold)
    next
      case False
      then have "filter (\<lambda>x. x \<noteq> r) (queued_of q s) = queued_of q s"
        unfolding filter_id_conv by (auto simp: queued_of_def of_seq_def)
      with False t v [of q] show ?thesis by (simp add: taken_out_def view_ok_def qo ord)
    qed
    have "int (length (filter (\<lambda>x. x \<noteq> r) (queued_of q s))) \<le> int (length (queued_of q s))" by simp
    also have "\<dots> \<le> cf_context_action_quota (gs_config s)" using v [of q] by (simp add: view_ok_def)
    finally have "int (length (queued_of q t)) \<le> cf_context_action_quota (gs_config t)"
      using t by (simp add: qo taken_out_def)
    with acts v [of q] t show ?thesis
      unfolding view_ok_def by (auto simp: qo ord taken_out_def sorted_wrt_map sorted_wrt_filter)
  qed
  moreover have "int (length (filter (\<lambda>x. x \<noteq> r) (gs_queued s))) \<le> int (length (gs_queued s))" by simp
  then have "int (length (gs_queued t)) \<le> cf_action_capacity (gs_config t)"
    using views t unfolding views_ok_def taken_out_def by (metis order_trans)
  ultimately show ?thesis using views t by (auto simp: views_ok_def taken_out_def)
qed

lemma view_lookup:
  assumes "views_ok s" "r \<in> set (gs_queued s)"
  shows "dict_get (ts_queued_actions (gs_seqs s (ra_sequencer (gs_recs s r)))) (ordinal_of s r) = Some r"
proof -
  let ?q = "ra_sequencer (gs_recs s r)"
  have v: "view_ok s ?q" using assms(1) by (simp add: views_ok_def)
  then have acts: "ts_queued_actions (gs_seqs s ?q) = map (\<lambda>r. (ordinal_of s r, r)) (queued_of ?q s)"
    by (simp add: view_ok_def)
  have "keys_distinct (map (\<lambda>r. (ordinal_of s r, r)) (queued_of ?q s))"
    using view_ordinals_distinct [OF v] by (simp add: o_def)
  then show ?thesis
    unfolding acts by (rule dict_get_iff [THEN iffD2]) (use assms(2) in \<open>auto simp: queued_of_def of_seq_def\<close>)
qed

lemma note_issued_ok:
  assumes "dict_get (ts_queued_actions sq) (ra_ordinal rec) = Some r"
  shows "\<exists>sq'. note_issued r rec b sq = ret () sq' \<and> ts_submission_pc sq' = ts_submission_pc sq
     \<and> ts_queued_actions sq' = dict_del (ra_ordinal rec) (ts_queued_actions sq)"
  using assms by (cases b) (auto simp: note_issued_def Let_def)

text \<open>The state after the table entry is gone and before the owner is told.\<close>

definition dequeue :: "rec_ref \<Rightarrow> int \<Rightarrow> ('x, 'e) group_scheduler \<Rightarrow> ('x, 'e) group_scheduler" where
  "dequeue r c s = gs_event ''group_action_issued''
     (s\<lparr>gs_queued := filter (\<lambda>x. x \<noteq> r) (gs_queued s), gs_recs := (gs_recs s)(r := (gs_recs s r)\<lparr>ra_issue_cycle := c\<rparr>),
        gs_issued_total := gs_issued_total s + 1\<rparr>)"

lemma dequeue_fields [simp]:
  "gs_config (dequeue r c s) = gs_config s" "gs_next_rec (dequeue r c s) = gs_next_rec s"
  "gs_queued (dequeue r c s) = filter (\<lambda>x. x \<noteq> r) (gs_queued s)"
  "gs_recs (dequeue r c s) = (gs_recs s)(r := (gs_recs s r)\<lparr>ra_issue_cycle := c\<rparr>)"
  "gs_seqs (dequeue r c s) = gs_seqs s" "gs_inflight_by_event (dequeue r c s) = gs_inflight_by_event s"
  "gs_adapter_used (dequeue r c s) = gs_adapter_used s" "gs_epoch_key (dequeue r c s) = gs_epoch_key s"
  "gs_epoch_inflight (dequeue r c s) = gs_epoch_inflight s" "gs_control_inflight (dequeue r c s) = gs_control_inflight s"
  "gs_inflight_peak (dequeue r c s) = gs_inflight_peak s"
  by (simp_all add: dequeue_def gs_event_def)

lemma told_owner:
  assumes views: "views_ok s" and r: "r \<in> set (gs_queued s)"
    and u: "gs_seqs u = gs_seqs s" "gs_recs u = gs_recs (dequeue r c s)" "gs_queued u = gs_queued (dequeue r c s)"
      "gs_config u = gs_config s" "gs_next_rec u = gs_next_rec s"
  shows "\<exists>t. on_seq (ra_sequencer (gs_recs s r)) (note_issued r (gs_recs u r) b) u = ret () t
     \<and> taken_out r c s t \<and> t = u\<lparr>gs_seqs := gs_seqs t\<rparr>"
proof -
  let ?q = "ra_sequencer (gs_recs s r)"
  obtain sq where sq: "note_issued r (gs_recs u r) b (gs_seqs s ?q) = ret () sq"
    "ts_submission_pc sq = ts_submission_pc (gs_seqs s ?q)"
    "ts_queued_actions sq = dict_del (ordinal_of s r) (ts_queued_actions (gs_seqs s ?q))"
    using note_issued_ok [of "gs_seqs s ?q" "gs_recs u r" r b] view_lookup [OF views r] u(2)
    by (auto simp: ordinal_of_def)
  define t where "t = u\<lparr>gs_seqs := (gs_seqs u)(?q := sq)\<rparr>"
  have "on_seq ?q (note_issued r (gs_recs u r) b) u = ret () t" using sq(1) u(1) by (simp add: on_seq_def t_def)
  moreover have "taken_out r c s t" using sq(2,3) u by (simp add: taken_out_def t_def)
  moreover have "t = u\<lparr>gs_seqs := gs_seqs t\<rparr>" by (simp add: t_def)
  ultimately show ?thesis by blast
qed

lemma taken_out_inv:
  assumes "sched_inv s" "r \<in> set (gs_queued s)" "taken_out r c s t"
    and "gs_inflight_by_event t = gs_inflight_by_event s" "gs_adapter_used t = gs_adapter_used s"
    "gs_epoch_key t = gs_epoch_key s" "gs_epoch_inflight t = gs_epoch_inflight s"
  shows "sched_inv t"
proof -
  have "credit_ok t"
    by (rule credit_ok_cong [of t s]) (use assms in \<open>auto simp: taken_out_def sched_inv_def\<close>)
  moreover have "views_ok t" using taken_out_views assms(1-3) by (auto simp: sched_inv_def)
  ultimately show ?thesis by (simp add: sched_inv_def)
qed

section \<open>Taking a credit\<close>

definition take_credit :: "rec_ref \<Rightarrow> string \<Rightarrow> string \<Rightarrow> ('x, 'e) group_scheduler \<Rightarrow> ('x, 'e) group_scheduler" where
  "take_credit r adapter event s =
     (let s = (if adapter \<noteq> '''' then s\<lparr>gs_adapter_used := dd_add adapter 1 (gs_adapter_used s)\<rparr> else s);
          s = s\<lparr>gs_inflight_by_event := dict_set event (r, adapter) (gs_inflight_by_event s)\<rparr>
      in s\<lparr>gs_inflight_peak := max (gs_inflight_peak s) (gs_inflight s)\<rparr>)"

definition take_epoch :: "rec_ref \<Rightarrow> ('x, 'e) group_scheduler \<Rightarrow> ('x, 'e, unit) gs_result" where
  "take_epoch r s =
     (if ac_op (ra_action (gs_recs s r)) = DISPATCH_ROLE then acquire_epoch (gs_recs s r) s else ret () s)"

lemma take_credit_fields [simp]:
  "gs_config (take_credit r ad ev s) = gs_config s" "gs_next_rec (take_credit r ad ev s) = gs_next_rec s"
  "gs_queued (take_credit r ad ev s) = gs_queued s" "gs_recs (take_credit r ad ev s) = gs_recs s"
  "gs_seqs (take_credit r ad ev s) = gs_seqs s"
  "gs_inflight_by_event (take_credit r ad ev s) = dict_set ev (r, ad) (gs_inflight_by_event s)"
  "gs_adapter_used (take_credit r ad ev s)
     = (if ad = '''' then gs_adapter_used s else dd_add ad 1 (gs_adapter_used s))"
  "gs_epoch_key (take_credit r ad ev s) = gs_epoch_key s" "gs_epoch_inflight (take_credit r ad ev s) = gs_epoch_inflight s"
  by (simp_all add: take_credit_def Let_def)

lemma track_async_take:
  "track_async ports r adapter event s =
     and_then (take_epoch r (take_credit r adapter event s)) (\<lambda>_ s'.
       on_seq (ra_sequencer (gs_recs s r)) (note_issued r (gs_recs s r) True) s')"
  by (simp add: track_async_def take_credit_def take_epoch_def Let_def)

definition epoch_taken :: "bool \<Rightarrow> ('x, 'e) group_scheduler \<Rightarrow> ('x, 'e) group_scheduler \<Rightarrow> bool" where
  "epoch_taken b s t \<longleftrightarrow> gs_config t = gs_config s \<and> gs_next_rec t = gs_next_rec s \<and> gs_queued t = gs_queued s
     \<and> gs_recs t = gs_recs s \<and> gs_seqs t = gs_seqs s \<and> gs_inflight_by_event t = gs_inflight_by_event s
     \<and> gs_adapter_used t = gs_adapter_used s
     \<and> (if b then gs_epoch_inflight t = gs_epoch_inflight s + 1 \<and> gs_epoch_key t \<noteq> None
        else gs_epoch_inflight t = gs_epoch_inflight s \<and> gs_epoch_key t = gs_epoch_key s)"

lemma take_epoch_ok:
  assumes "epoch_allows (gs_recs s r) s = Inr True"
  shows "\<exists>t. take_epoch r s = ret () t \<and>
     epoch_taken (ac_op (ra_action (gs_recs s r)) = DISPATCH_ROLE \<and> same_program s) s t"
  using assms
  by (auto simp: take_epoch_def acquire_epoch_def epoch_allows_def epoch_taken_def split: sum.splits if_splits)

lemma take_credit_ok:
  assumes ok: "credit_ok s" and r: "r < gs_next_rec s" and ad: "ad = adapter_for (ra_action (gs_recs s r))"
    and fresh: "dict_get (gs_inflight_by_event s) ev = None"
    and room: "gs_inflight s < cf_inflight_capacity (gs_config s)"
      "ad \<noteq> '''' \<Longrightarrow> dd_get (gs_adapter_used s) ad < adapter_capacity (gs_config s) ad"
    and t: "epoch_taken (ad = ''dispatch'' \<and> same_program s) (take_credit r ad ev s) t"
  shows "credit_ok t"
proof -
  have fields: "gs_inflight_by_event t = dict_set ev (r, ad) (gs_inflight_by_event s)" "gs_config t = gs_config s"
    "gs_adapter_used t = (if ad = '''' then gs_adapter_used s else dd_add ad 1 (gs_adapter_used s))"
    "gs_recs t = gs_recs s" "gs_next_rec t = gs_next_rec s"
    using t by (auto simp: epoch_taken_def)
  have cnt: "adapter_count a t = adapter_count a s + of_bool (ad = a)" for a
    using dict_sum_fresh [OF fresh, of "\<lambda>(r, ad). of_bool (ad = a) :: int"] by (simp add: adapter_count_def fields)
  have io: "inflight_ok s" using ok by (simp add: credit_ok_def)
  have "inflight_ok t"
    unfolding inflight_ok_def fields
  proof (intro conjI allI impI)
    show "keys_distinct (dict_set ev (r, ad) (gs_inflight_by_event s))"
      using io by (simp add: inflight_ok_def AList.distinct_update)
  next
    fix ev' r' ad' assume "(ev', r', ad') \<in> set (dict_set ev (r, ad) (gs_inflight_by_event s))"
    then have "(ev', r', ad') = (ev, r, ad) \<or> (ev', r', ad') \<in> set (gs_inflight_by_event s)"
      using io by (auto simp: inflight_ok_def set_dict_set)
    then show "r' < gs_next_rec s" "ad' = adapter_for (ra_action (gs_recs s r'))"
      using io r ad unfolding inflight_ok_def by blast+
  qed
  moreover have "\<forall>a \<in> set adapter_names. dd_get (gs_adapter_used t) a = adapter_count a t
      \<and> adapter_count a t \<le> adapter_capacity (gs_config t) a"
  proof
    fix a assume a: "a \<in> set adapter_names"
    then have "dd_get (gs_adapter_used s) a = adapter_count a s" "a \<noteq> ''''"
      "adapter_count a s \<le> adapter_capacity (gs_config s) a"
      using ok by (auto simp: credit_ok_def adapter_names_def)
    with cnt [of a] room(2) show "dd_get (gs_adapter_used t) a = adapter_count a t
        \<and> adapter_count a t \<le> adapter_capacity (gs_config t) a"
      by (cases "ad = a") (simp_all add: dd_get_add fields)
  qed
  moreover have "gs_inflight t \<le> cf_inflight_capacity (gs_config t)"
    using room(1) fresh by (simp add: gs_inflight_def fields length_dict_set)
  moreover have "same_program t \<Longrightarrow> gs_epoch_inflight t = adapter_count ''dispatch'' t
      \<and> (gs_epoch_key t = None \<longleftrightarrow> gs_epoch_inflight t = 0)"
    using ok t adapter_count_nonneg [of "''dispatch''" s] cnt [of "''dispatch''"]
    by (cases "ad = ''dispatch''") (auto simp: credit_ok_def epoch_taken_def same_program_def)
  moreover have "\<not> same_program t \<Longrightarrow> gs_epoch_inflight t = 0"
    using ok t by (auto simp: credit_ok_def epoch_taken_def same_program_def split: if_splits)
  ultimately show ?thesis by (simp add: credit_ok_def)
qed

text \<open>
  The state at the moment an accepted action is committed: its adapter is the one its
  operation needs, and an asynchronous one has room, a fresh event and an open epoch.
\<close>

definition may_commit :: "rec_ref \<Rightarrow> string \<Rightarrow> issue_result \<Rightarrow> ('x, 'e) group_scheduler \<Rightarrow> bool" where
  "may_commit r adapter result s \<longleftrightarrow> r < gs_next_rec s \<and> adapter = adapter_for (ra_action (gs_recs s r)) \<and>
     (\<forall>x \<in> set (gs_queued s). gs_recs s x = gs_recs s r \<longrightarrow> x = r) \<and>
     (ir_asynchronous result \<and> ir_adapter result \<noteq> ''control'' \<longrightarrow>
        gs_inflight s < cf_inflight_capacity (gs_config s) \<and>
        (adapter \<noteq> '''' \<longrightarrow> dd_get (gs_adapter_used s) adapter < adapter_capacity (gs_config s) adapter) \<and>
        epoch_allows (gs_recs s r) s = Inr True \<and> ir_completion_event result \<noteq> '''' \<and>
        dict_get (gs_inflight_by_event s) (ir_completion_event result) = None)"

lemma epoch_allows_frame:
  assumes "frame s t"
  shows "epoch_allows rec t = epoch_allows rec s"
proof -
  have "dispatch_program_key a (gs_seqs t q) = dispatch_program_key a (gs_seqs s q)" for a q
    unfolding dispatch_program_key_def frame_fields(11) [OF assms] by (rule refl)
  then show ?thesis unfolding epoch_allows_def same_program_def frame_fields(1,4) [OF assms] by simp
qed

lemma may_commit_frame: "frame s t \<Longrightarrow> may_commit r ad res s \<Longrightarrow> may_commit r ad res t"
proof -
  assume f: "frame s t" and "may_commit r ad res s"
  then show "may_commit r ad res t"
    unfolding may_commit_def gs_inflight_def epoch_allows_frame [OF f] frame_fields [OF f] by blast
qed

lemma commit_told_inv:
  assumes inv: "sched_inv s" and r: "r \<in> set (gs_queued s)"
    and u: "u = (dequeue r c s)\<lparr>gs_control_inflight := d\<rparr> \<or> u = dequeue r c s"
  shows "\<exists>t. on_seq (ra_sequencer (gs_recs s r)) (note_issued r (gs_recs u r) b) u = ret () t \<and> sched_inv t"
proof -
  have views: "views_ok s" using inv by (simp add: sched_inv_def)
  have "gs_seqs u = gs_seqs s" "gs_recs u = gs_recs (dequeue r c s)" "gs_queued u = gs_queued (dequeue r c s)"
      "gs_config u = gs_config s" "gs_next_rec u = gs_next_rec s" using u by auto
  from told_owner [OF views r this, of b] obtain t where
    t: "on_seq (ra_sequencer (gs_recs s r)) (note_issued r (gs_recs u r) b) u = ret () t"
    "taken_out r c s t" "t = u\<lparr>gs_seqs := gs_seqs t\<rparr>" by auto
  have "gs_inflight_by_event u = gs_inflight_by_event s" "gs_adapter_used u = gs_adapter_used s"
    "gs_epoch_key u = gs_epoch_key s" "gs_epoch_inflight u = gs_epoch_inflight s" using u by auto
  then have "gs_inflight_by_event t = gs_inflight_by_event s" "gs_adapter_used t = gs_adapter_used s"
    "gs_epoch_key t = gs_epoch_key s" "gs_epoch_inflight t = gs_epoch_inflight s"
    by (subst t(3), simp)+
  with taken_out_inv [OF inv r t(2)] t(1) show ?thesis by auto
qed

lemma commit_sync_inv:
  assumes inv: "sched_inv s" and r: "r \<in> set (gs_queued s)"
  shows "\<exists>t. finish_sync r (dequeue r c s) = ret () t \<and> sched_inv t"
proof -
  let ?u = "dequeue r c s"
  from commit_told_inv [where b = False and u = ?u and c = c, OF inv r] obtain t where
    t: "on_seq (ra_sequencer (gs_recs s r)) (note_issued r (gs_recs ?u r) False) ?u = ret () t" "sched_inv t" by blast
  let ?f = "note_action_completed (gs_recs ?u r)" and ?q = "ra_sequencer (gs_recs s r)"
  have "calm t (gs_event ''group_action_completed'' (count_completed (upd_seq ?q ?f t)))"
    by (rule calm_completed)
  with t show ?thesis by (auto simp: finish_sync_def Let_def intro: frame_inv [OF calm_frame])
qed

lemma commit_async_inv:
  assumes inv: "sched_inv s" and r: "r \<in> set (gs_queued s)" and may: "may_commit r ad res s"
    and async: "ir_asynchronous res" "ir_adapter res \<noteq> ''control''"
  shows "\<exists>t. track_async ports r ad (ir_completion_event res) (dequeue r c s) = ret () t \<and> sched_inv t"
proof -
  let ?u = "dequeue r c s" and ?ev = "ir_completion_event res"
  let ?v = "take_credit r ad ?ev ?u" and ?q = "ra_sequencer (gs_recs s r)"
  have ad: "ad = adapter_for (ra_action (gs_recs s r))" using may by (simp add: may_commit_def)
  have "epoch_allows (gs_recs ?v r) ?v = epoch_allows (gs_recs s r) s"
    by (auto simp: epoch_allows_def same_program_def split: sum.splits)
  then have "epoch_allows (gs_recs ?v r) ?v = Inr True" using may async by (simp add: may_commit_def)
  from take_epoch_ok [OF this] obtain w where w: "take_epoch r ?v = ret () w"
    "epoch_taken (ad = ''dispatch'' \<and> same_program ?u) ?v w"
    by (auto simp: ad adapter_for_dispatch same_program_def)
  have cu: "credit_ok ?u" by (rule credit_ok_cong [of ?u s]) (use inv in \<open>auto simp: sched_inv_def\<close>)
  have cw: "credit_ok w"
    by (rule take_credit_ok [OF cu _ _ _ _ _ w(2)])
       (use may async in \<open>auto simp: may_commit_def gs_inflight_def\<close>)
  have "views_ok s" using inv by (simp add: sched_inv_def)
  from told_owner [OF this r, of w c True] w(2) obtain t where
    t: "on_seq ?q (note_issued r (gs_recs w r) True) w = ret () t" "taken_out r c s t" "t = w\<lparr>gs_seqs := gs_seqs t\<rparr>"
    by (auto simp: epoch_taken_def)
  have "credit_ok t"
    by (rule credit_ok_cong [OF _ _ _ _ _ _ _ cw]) (subst t(3), simp)+
  with taken_out_views [OF \<open>views_ok s\<close> r t(2)] have "sched_inv t" by (simp add: sched_inv_def)
  moreover have "gs_recs w r = gs_recs ?u r" using w(2) by (simp add: epoch_taken_def)
  ultimately show ?thesis using w(1) t(1) by (auto simp: track_async_take)
qed

section \<open>The issue stage keeps the invariant\<close>

lemma consume_for_frame: "frame s (snd (consume_for r cycle s))"
proof -
  let ?rec = "gs_recs s r"
  let ?sq = "gs_seqs s (ra_sequencer ?rec)"
  let ?f = "consume_dependencies (ac_dependencies (ra_action ?rec)) (event_owner ?sq) (ts_launch_generation ?sq) cycle"
  obtain v t where e: "on_events ?f s = (v, t)" by fastforce
  then have "frame s t" using frame_on_events [of s ?f] by simp
  moreover have "frame t (count_protocol_fault t)" by (rule calm_frame) simp
  ultimately show ?thesis
    by (auto simp: consume_for_def Let_def e intro: frame_trans split: sum.splits)
qed

lemma inv_keeps: "sched_inv s \<Longrightarrow> gs_logic.keeps s r \<Longrightarrow> sched_inv (snd r)"
  by (simp add: gs_logic.keeps_def)

lemma commit_issue_inv:
  assumes inv: "sched_inv s" and may: "may_commit r ad res s"
  shows "sched_inv (snd (commit_issue ports r ad res cycle s))"
proof -
  obtain v u where c: "consume_for r cycle s = (v, u)" by fastforce
  have fr: "frame s u" using consume_for_frame [of s r cycle] c by simp
  have iu: "sched_inv u" and mu: "may_commit r ad res u" using frame_inv [OF fr inv] may_commit_frame [OF fr may] .
  show ?thesis
  proof (cases "\<exists>m rest. v = Inr m \<and> remove_equal (gs_recs u) r (gs_queued u) = Some rest")
    case False
    with c iu show ?thesis by (cases v) (auto simp: commit_issue_def split: option.splits)
  next
    case True
    then obtain m rest where v: "v = Inr m" and rm: "remove_equal (gs_recs u) r (gs_queued u) = Some rest" by blast
    have "distinct (gs_queued u)" using iu queued_distinct [of u] by (simp add: sched_inv_def)
    then have r: "r \<in> set (gs_queued u)" and rest: "rest = filter (\<lambda>x. x \<noteq> r) (gs_queued u)"
      using remove_equal_filter [OF rm] mu by (auto simp: may_commit_def)
    let ?q = "ra_sequencer (gs_recs u r)" and ?d = "dequeue r cycle u" and ?ev = "ir_completion_event res"
    let ?settle = "\<lambda>t. if m \<noteq> '''' then fault_and_stop ports ?q m cycle t else ret (Stop True) t"
    have settle: "sched_inv t \<Longrightarrow> sched_inv (snd (?settle t))" for t
      by (auto intro: inv_keeps [OF _ fault_and_stop_keeps])
    have com: "commit_issue ports r ad res cycle s =
      (if ir_adapter res = ''control'' then
         and_then (on_seq ?q (note_issued r (gs_recs ?d r) True)
                     (?d\<lparr>gs_control_inflight := dict_set ?ev r (gs_control_inflight ?d)\<rparr>)) (\<lambda>_. ?settle)
       else if ir_asynchronous res then
         (if ?ev = '''' then fault_and_stop ports ?q ''async action has no completion event'' cycle ?d
          else if dict_get (gs_inflight_by_event ?d) ?ev \<noteq> None
          then fault_and_stop ports ?q (''duplicate inflight completion event '' @ quoted ?ev) cycle ?d
          else and_then (track_async ports r ad ?ev ?d) (\<lambda>_. ?settle))
       else and_then (finish_sync r ?d) (\<lambda>_. ?settle))"
      by (simp add: commit_issue_def c v rm rest Let_def dequeue_def)
    consider (control) "ir_adapter res = ''control''" | (async) "ir_adapter res \<noteq> ''control''" "ir_asynchronous res"
      | (sync) "ir_adapter res \<noteq> ''control''" "\<not> ir_asynchronous res" by blast
    then show ?thesis
    proof cases
      case control
      let ?u = "?d\<lparr>gs_control_inflight := dict_set ?ev r (gs_control_inflight ?d)\<rparr>"
      obtain t where "on_seq ?q (note_issued r (gs_recs ?u r) True) ?u = ret () t" "sched_inv t"
        using commit_told_inv [where b = True and u = ?u, OF iu r] by blast
      with control settle [of t] show ?thesis by (simp add: com)
    next
      case async
      obtain t where "track_async ports r ad ?ev ?d = ret () t" "sched_inv t"
        using commit_async_inv [OF iu r mu async(2,1)] by blast
      moreover have "?ev \<noteq> ''''" "dict_get (gs_inflight_by_event ?d) ?ev = None"
        using mu async by (simp_all add: may_commit_def)
      ultimately show ?thesis using async settle [of t] by (simp add: com)
    next
      case sync
      obtain t where "finish_sync r ?d = ret () t" "sched_inv t" using commit_sync_inv [OF iu r] by blast
      with sync settle [of t] show ?thesis by (simp add: com)
    qed
  qed
qed

lemma issue_async_event:
  assumes "issue_body ports q a cycle s = (Inr res, t)" "is_async a" "ir_status res = ACCEPTED" "opt_str (ac_dst a) \<noteq> ''''"
  shows "ir_completion_event res = opt_str (ac_dst a)"
  using assms
  by (cases "ac_op a")
     (auto simp: issue_body_def is_async_def issue_dma_def issue_dispatch_def issue_collective_def opt_str_def Let_def
       split: list.splits option.splits group_arg.splits if_splits dest!: and_then_InrD)

lemma has_credit_room:
  assumes "has_credit a ad s" "is_async a"
  shows "gs_inflight s < cf_inflight_capacity (gs_config s)
     \<and> (ad \<noteq> '''' \<longrightarrow> dd_get (gs_adapter_used s) ad < adapter_capacity (gs_config s) ad)"
  using assms by (auto simp: has_credit_def split: if_splits)

text \<open>The checks of the scan are what committing an accepted action needs.\<close>

lemma checks_allow_commit:
  assumes inv: "sched_inv s" and r: "r \<in> set (gs_queued s)"
    and credit: "has_credit (ra_action (gs_recs s r)) (adapter_for (ra_action (gs_recs s r))) s"
    and epoch: "epoch_allows (gs_recs s r) s = Inr True" and async: "async_problem r s = ''''"
    and issue: "issue_registered ports r cycle s = (Inr res, t)" and acc: "ir_status res = ACCEPTED"
  shows "sched_inv t \<and> may_commit r (adapter_for (ra_action (gs_recs s r))) res t"
proof -
  let ?a = "ra_action (gs_recs s r)"
  have it: "sched_inv t" and sh: "shrink s t"
    using issue_registered_keeps [of s ports r cycle] inv by (simp_all add: issue gs_logic.keeps_def)
  have views: "views_ok s" using inv by (simp add: sched_inv_def)
  have next_rec: "r < gs_next_rec s" using views r by (simp add: views_ok_def)
  have uniq: "\<forall>x \<in> set (gs_queued t). gs_recs t x = gs_recs t r \<longrightarrow> x = r"
    using queued_unique [OF views _ r] sh by (auto simp: shrink_def ordinal_of_def)
  have "ir_asynchronous res \<and> ir_adapter res \<noteq> ''control'' \<longrightarrow>
      gs_inflight t < cf_inflight_capacity (gs_config t) \<and>
      (adapter_for ?a \<noteq> '''' \<longrightarrow> dd_get (gs_adapter_used t) (adapter_for ?a) < adapter_capacity (gs_config t) (adapter_for ?a)) \<and>
      epoch_allows (gs_recs t r) t = Inr True \<and> ir_completion_event res \<noteq> '''' \<and>
      dict_get (gs_inflight_by_event t) (ir_completion_event res) = None"
  proof
    assume asy: "ir_asynchronous res \<and> ir_adapter res \<noteq> ''control''"
    then have calm: "calm s t" and ia: "is_async ?a" using issue_registered_calm [OF issue] acc by auto
    have fr: "frame s t" by (rule calm_frame [OF calm])
    have dst: "opt_str (ac_dst ?a) \<noteq> ''''" "dict_get (gs_inflight_by_event s) (opt_str (ac_dst ?a)) = None"
      using async ia
      by (cases "dict_get (gs_inflight_by_event s) (opt_str (ac_dst ?a))";
          auto simp: async_problem_def Let_def split: if_splits)+
    have "issue_body ports (ra_sequencer (gs_recs s r)) ?a cycle s = (Inr res, t)"
      using issue acc by (auto simp: issue_registered_def Let_def split: prod.splits sum.splits if_splits)
    then have "ir_completion_event res = opt_str (ac_dst ?a)" using issue_async_event ia acc dst(1) by blast
    with has_credit_room [OF credit ia] dst epoch show "gs_inflight t < cf_inflight_capacity (gs_config t) \<and>
      (adapter_for ?a \<noteq> '''' \<longrightarrow> dd_get (gs_adapter_used t) (adapter_for ?a) < adapter_capacity (gs_config t) (adapter_for ?a)) \<and>
      epoch_allows (gs_recs t r) t = Inr True \<and> ir_completion_event res \<noteq> '''' \<and>
      dict_get (gs_inflight_by_event t) (ir_completion_event res) = None"
      unfolding gs_inflight_def epoch_allows_frame [OF fr] frame_fields [OF fr] by simp
  qed
  with it next_rec uniq sh show ?thesis by (simp add: may_commit_def shrink_def)
qed

lemma fault_and_stop_result: "fault_and_stop ports q reason cycle s = (Inr st, t) \<Longrightarrow> st = Stop False"
  by (auto simp: fault_and_stop_def dest!: and_then_InrD)

lemma fault_and_stop_stops [simp]:
  "fault_and_stop ports q reason cycle s = (Inr Next, t) \<longleftrightarrow> False"
  "fault_and_stop ports q reason cycle s = (Inr (Stop True), t) \<longleftrightarrow> False"
  using fault_and_stop_result by blast+

lemma commit_issue_stops [simp]: "commit_issue ports r ad res cycle s = (Inr Next, t) \<longleftrightarrow> False"
  by (auto simp: commit_issue_def Let_def split: option.splits if_splits dest!: and_then_InrD)

lemma try_issue_next: "try_issue ports r cycle s = (Inr Next, t) \<Longrightarrow> calm s t"
proof -
  assume a: "try_issue ports r cycle s = (Inr Next, t)"
  have w: "calm s (gs_event n (s\<lparr>gs_dependency_wait_checks := k\<rparr>))" for n k
    by (rule calm_transitive [of _ "s\<lparr>gs_dependency_wait_checks := k\<rparr>"]) simp_all
  have bp: "issue_registered ports r cycle s = (Inr res, u) \<Longrightarrow> ir_status res = BACKPRESSURE \<Longrightarrow>
      calm s (count_backpressure n u)" for res u n
    using issue_registered_calm [of ports r cycle s res u] by (auto intro: calm_transitive)
  from a show ?thesis
    by (auto simp: try_issue_def Let_def w split: if_splits sum.splits issue_status.splits
        dest!: and_then_InrD intro: bp)
qed

lemma try_issue_issued:
  "try_issue ports r cycle s = (Inr (Stop True), t) \<Longrightarrow>
     dependency_status r s = EV_DONE \<and> \<not> barrier_blocked r s
     \<and> has_credit (ra_action (gs_recs s r)) (adapter_for (ra_action (gs_recs s r))) s
     \<and> epoch_allows (gs_recs s r) s = Inr True"
  by (auto simp: try_issue_def Let_def split: if_splits sum.splits)

lemma try_issue_inv:
  assumes inv: "sched_inv s" and r: "r \<in> set (gs_queued s)"
  shows "sched_inv (snd (try_issue ports r cycle s))"
proof -
  let ?rec = "gs_recs s r"
  let ?a = "ra_action ?rec"
  have calm: "calm s t \<Longrightarrow> sched_inv t" for t using frame_inv [OF calm_frame inv] by blast
  have fault: "sched_inv t \<Longrightarrow> sched_inv (snd (fault_and_stop ports q m cycle t))" for q m t
    by (rule inv_keeps [OF _ fault_and_stop_keeps])
  have err: "sched_inv (s\<lparr>gs_dependency_error_total := n\<rparr>)" for n by (rule calm) simp
  have w: "sched_inv (gs_event m (s\<lparr>gs_dependency_wait_checks := k\<rparr>))" for m k
    by (rule calm, rule calm_transitive [of _ "s\<lparr>gs_dependency_wait_checks := k\<rparr>"]) simp_all
  have quiet: "sched_inv (gs_cycle m k s)" "sched_inv (count_backpressure m s)" for m k by (rule calm, simp)+
  have commit: "sched_inv (snd (and_then (issue_registered ports r cycle s) (\<lambda>result s.
      case ir_status result of
        BACKPRESSURE \<Rightarrow> ret Next (count_backpressure m s)
      | FAULT \<Rightarrow> fault_and_stop ports q (ir_reason result) cycle s
      | ACCEPTED \<Rightarrow> commit_issue ports r (adapter_for ?a) result cycle s)))"
    if "has_credit ?a (adapter_for ?a) s" "epoch_allows ?rec s = Inr True" "async_problem r s = ''''" for m q
  proof -
    obtain v t where i: "issue_registered ports r cycle s = (v, t)" by fastforce
    have it: "sched_inv t" using inv_keeps [OF inv issue_registered_keeps [of s ports r cycle]] by (simp add: i)
    moreover have "sched_inv (count_backpressure m t)" by (rule frame_inv [OF calm_frame it]) simp
    moreover have "v = Inr res \<Longrightarrow> ir_status res = ACCEPTED \<Longrightarrow>
        sched_inv (snd (commit_issue ports r (adapter_for ?a) res cycle t))" for res
      using checks_allow_commit [OF inv r that, of ports cycle res t] i commit_issue_inv by blast
    ultimately show ?thesis using fault by (cases v) (auto simp: i split: issue_status.splits)
  qed
  show ?thesis
    unfolding try_issue_def Let_def
    using inv by (auto simp: w quiet err fault commit split: sum.splits)
qed

lemma scan_queue_inv:
  "sched_inv s \<Longrightarrow> set rs \<subseteq> set (gs_queued s) \<Longrightarrow> sched_inv (snd (scan_queue ports cycle rs s))"
proof (induction rs arbitrary: s)
  case (Cons r rs)
  obtain v t where t: "try_issue ports r cycle s = (v, t)" by fastforce
  have it: "sched_inv t" using try_issue_inv [of s r ports cycle] Cons.prems by (simp add: t)
  moreover have "v = Inr Next \<Longrightarrow> set rs \<subseteq> set (gs_queued t)"
    using try_issue_next [of ports r cycle s t] t Cons.prems(2) frame_fields(8) [OF calm_frame, of s t] by auto
  ultimately show ?case using Cons.IH [of t] by (cases v) (auto simp: t split: scan_step.splits)
qed simp

lemma scan_window_subset: "gs_queued s \<noteq> [] \<Longrightarrow> set (scan_window s) \<subseteq> set (gs_queued s)"
  by (auto simp: scan_window_def Let_def)

lemma advance_scan_calm: "calm s (advance_scan s)"
  by (simp add: advance_scan_def)

lemma issue_one_inv:
  assumes "sched_inv s"
  shows "sched_inv (snd (issue_one ports cycle s))"
proof (cases "gs_queued s = []")
  case False
  let ?s = "advance_scan s"
  have i: "sched_inv ?s" by (rule frame_inv [OF calm_frame [OF advance_scan_calm] assms])
  have sub: "set (scan_window s) \<subseteq> set (gs_queued ?s)"
    using scan_window_subset [OF False] by (simp add: advance_scan_def)
  have "sched_inv (gs_cycle n k ?s)" for n k by (rule frame_inv [OF calm_frame i]) simp
  moreover have "gs_queued (gs_cycle n k ?s) = gs_queued ?s" for n k by (simp add: gs_cycle_def)
  ultimately show ?thesis
    using False i sub by (auto simp: issue_one_def Let_def intro!: scan_queue_inv split: sum.splits)
qed (use assms in \<open>simp add: issue_one_def\<close>)

section \<open>The register stage keeps the invariant\<close>

lemma note_registered_ok:
  assumes "ra_ordinal rec = ts_submission_pc sq"
  shows "\<exists>sq'. note_registered r rec sq = ret () sq' \<and> ts_submission_pc sq' = ts_submission_pc sq + 1
     \<and> ts_queued_actions sq' = dict_set (ra_ordinal rec) r (ts_queued_actions sq)"
  using assms by (auto simp: note_registered_def Let_def split: option.splits)

definition enrolled ::
  "seq_ref \<Rightarrow> 'x registered_action \<Rightarrow> ('x, 'e) group_scheduler \<Rightarrow> ('x, 'e) group_scheduler \<Rightarrow> bool" where
  "enrolled q rec s t \<longleftrightarrow> gs_config t = gs_config s \<and> gs_next_rec t = Suc (gs_next_rec s)
     \<and> gs_queued t = gs_queued s @ [gs_next_rec s] \<and> gs_recs t = (gs_recs s)(gs_next_rec s := rec)
     \<and> gs_inflight_by_event t = gs_inflight_by_event s \<and> gs_adapter_used t = gs_adapter_used s
     \<and> gs_epoch_key t = gs_epoch_key s \<and> gs_epoch_inflight t = gs_epoch_inflight s
     \<and> (\<forall>q'. q' \<noteq> q \<longrightarrow> gs_seqs t q' = gs_seqs s q')
     \<and> ts_submission_pc (gs_seqs t q) = ts_submission_pc (gs_seqs s q) + 1
     \<and> ts_queued_actions (gs_seqs t q) = dict_set (ra_ordinal rec) (gs_next_rec s) (ts_queued_actions (gs_seqs s q))"

lemma enrolled_queued_of:
  assumes "views_ok s" "enrolled q rec s t" "ra_sequencer rec = q"
  shows "queued_of q' t = queued_of q' s @ (if q' = q then [gs_next_rec s] else [])"
    and "x \<in> set (gs_queued s) \<Longrightarrow> ordinal_of t x = ordinal_of s x"
    and "ordinal_of t (gs_next_rec s) = ra_ordinal rec"
proof -
  have fresh: "x \<in> set (gs_queued s) \<Longrightarrow> x \<noteq> gs_next_rec s" for x using assms(1) by (auto simp: views_ok_def)
  then have "filter (of_seq q' t) (gs_queued s) = filter (of_seq q' s) (gs_queued s)"
    using assms(2) by (intro filter_cong) (auto simp: enrolled_def of_seq_def)
  then show "queued_of q' t = queued_of q' s @ (if q' = q then [gs_next_rec s] else [])"
    using assms(2,3) by (simp add: queued_of_def enrolled_def of_seq_def)
  show "x \<in> set (gs_queued s) \<Longrightarrow> ordinal_of t x = ordinal_of s x"
    using fresh [of x] assms(2) by (simp add: ordinal_of_def enrolled_def)
  show "ordinal_of t (gs_next_rec s) = ra_ordinal rec" using assms(2) by (simp add: ordinal_of_def enrolled_def)
qed

lemma enrolled_view:
  assumes views: "views_ok s" and t: "enrolled q rec s t" "ra_sequencer rec = q"
    and ord: "ra_ordinal rec = ts_submission_pc (gs_seqs s q)"
    and quota: "queued_count (gs_seqs s q) < cf_context_action_quota (gs_config s)"
  shows "view_ok t q'"
proof -
  note qo = enrolled_queued_of [OF views t]
  have v: "view_ok s q'" using views by (simp add: views_ok_def)
  have sub: "x \<in> set (queued_of q' s) \<Longrightarrow> ordinal_of t x = ordinal_of s x" for x
    by (rule qo(2)) (simp add: queued_of_def)
  have maps: "map (ordinal_of t) (queued_of q' s) = map (ordinal_of s) (queued_of q' s)"
    "map (\<lambda>r. (ordinal_of t r, r)) (queued_of q' s) = map (\<lambda>r. (ordinal_of s r, r)) (queued_of q' s)"
    using sub by auto
  show ?thesis
  proof (cases "q' = q")
    case False
    then have same: "queued_of q' t = queued_of q' s" using qo(1) [of q'] by simp
    show ?thesis
      unfolding view_ok_def same maps using v t(1) False sub by (simp add: view_ok_def enrolled_def)
  next
    case True
    have below: "\<forall>x \<in> set (queued_of q s). ordinal_of s x < ra_ordinal rec"
      using v True ord by (simp add: view_ok_def)
    have "dict_get (ts_queued_actions (gs_seqs s q)) (ra_ordinal rec) = None"
      using v True below by (auto simp: view_ok_def dict_get_None_iff o_def)
    then have acts: "ts_queued_actions (gs_seqs t q) = map (\<lambda>r. (ordinal_of t r, r)) (queued_of q t)"
      using v True t(1) maps qo(1) [of q] qo(3) by (simp add: enrolled_def dict_set_fresh view_ok_def)
    have "map (ordinal_of t) (queued_of q t) = map (ordinal_of s) (queued_of q s) @ [ra_ordinal rec]"
      using maps(1) True qo(1) [of q] qo(3) by simp
    then have "sorted_wrt (<) (map (ordinal_of t) (queued_of q t))"
      using v True below by (auto simp: sorted_wrt_append view_ok_def)
    moreover have "int (length (queued_of q t)) \<le> cf_context_action_quota (gs_config t)"
      using quota v True qo(1) [of q] t(1) by (simp add: queued_count_def view_ok_def enrolled_def)
    moreover have "\<forall>x \<in> set (queued_of q t). ordinal_of t x < ts_submission_pc (gs_seqs t q)"
      using below sub True qo(1) [of q] qo(3) ord t(1) by (fastforce simp: enrolled_def)
    ultimately show ?thesis using acts True by (simp add: view_ok_def)
  qed
qed

lemma enrolled_inv:
  assumes inv: "sched_inv s" and t: "enrolled q rec s t" "ra_sequencer rec = q"
    and ord: "ra_ordinal rec = ts_submission_pc (gs_seqs s q)"
    and quota: "queued_count (gs_seqs s q) < cf_context_action_quota (gs_config s)"
    and room: "int (length (gs_queued s)) < cf_action_capacity (gs_config s)"
  shows "sched_inv t"
proof -
  have views: "views_ok s" and credit: "credit_ok s" using inv by (simp_all add: sched_inv_def)
  have "credit_ok t" by (rule credit_ok_cong [OF _ _ _ _ _ _ _ credit]) (use t(1) in \<open>auto simp: enrolled_def\<close>)
  moreover have "views_ok t"
    using views room t(1) enrolled_view [OF views t ord quota]
    by (auto simp: views_ok_def enrolled_def)
  ultimately show ?thesis by (simp add: sched_inv_def)
qed

lemma enqueue_record_inv:
  assumes "sched_inv s" "ordinal = ts_submission_pc (gs_seqs s q)"
    and "queued_count (gs_seqs s q) < cf_context_action_quota (gs_config s)"
    and "int (length (gs_queued s)) < cf_action_capacity (gs_config s)"
  shows "sched_inv (snd (enqueue_record q ordinal a cycle index s))"
proof -
  define rec where "rec = \<lparr>ra_sequencer = q, ra_ordinal = ordinal, ra_action = a, ra_registered_cycle = cycle, ra_issue_cycle = -1\<rparr>"
  obtain sq where sq: "note_registered (gs_next_rec s) rec (gs_seqs s q) = ret () sq"
    "ts_submission_pc sq = ts_submission_pc (gs_seqs s q) + 1"
    "ts_queued_actions sq = dict_set ordinal (gs_next_rec s) (ts_queued_actions (gs_seqs s q))"
    using note_registered_ok [of rec "gs_seqs s q"] assms(2) by (auto simp: rec_def)
  let ?t = "snd (enqueue_record q ordinal a cycle index s)"
  have "enrolled q rec s ?t"
    using sq by (simp add: enqueue_record_def Let_def rec_def [symmetric] on_seq_def gs_event_def enrolled_def)
       (simp add: rec_def)
  with assms show ?thesis by (rule_tac enrolled_inv [where rec = rec]) (simp_all add: rec_def)
qed

lemma try_register_next: "try_register ports live i cycle s = (Inr Next, t) \<Longrightarrow> calm s t"
  by (auto simp: try_register_def enqueue_record_def Let_def split: if_splits sum.splits prod.splits
      dest!: and_then_InrD)

lemma peek_ordinal: "peek_registration sq = Inr (ordinal, a) \<Longrightarrow> ordinal = ts_submission_pc sq"
  by (auto simp: peek_registration_def split: option.splits if_splits)

lemma try_register_inv:
  assumes inv: "sched_inv s" and room: "int (length (gs_queued s)) < cf_action_capacity (gs_config s)"
  shows "sched_inv (snd (try_register ports live i cycle s))"
proof -
  let ?q = "live ! i"
  let ?sq = "gs_seqs s ?q"
  have full: "sched_inv (gs_cycle m k s)" for m k by (rule frame_inv [OF calm_frame inv]) simp
  have events: "sched_inv (snd (case on_events f s of
      (Inl e, s) \<Rightarrow>
        if is_protocol_error e
        then and_then (fault_context ports ?q (error_text e) cycle s) (\<lambda>_ s.
               ret (Stop False) ((count_protocol_fault s)\<lparr>gs_register_cursor := i + 1\<rparr>))
        else raise e s
    | (Inr _, s) \<Rightarrow> enqueue_record ?q ordinal a cycle i s))"
    if quota: "queued_count ?sq < cf_context_action_quota (gs_config s)" and pc: "ordinal = ts_submission_pc ?sq"
    for f :: "event_table \<Rightarrow> unit ev_result" and ordinal a
  proof -
    obtain v u where e: "on_events f s = (v, u)" by fastforce
    have fr: "frame s u" using frame_on_events [of s f] e by simp
    have iu: "sched_inv u" by (rule frame_inv [OF fr inv])
    have "sched_inv (snd (enqueue_record ?q ordinal a cycle i u))"
      by (rule enqueue_record_inv [OF iu]) (use quota pc room in \<open>simp_all add: queued_count_def frame_fields [OF fr]\<close>)
    moreover have "sched_inv (snd (and_then (fault_context ports ?q m cycle u) (\<lambda>_ s.
        ret (Stop False) ((count_protocol_fault s)\<lparr>gs_register_cursor := i + 1\<rparr>))))" for m
    proof (rule inv_keeps [OF iu], rule gs_logic.keeps_and_then [OF fault_context_keeps])
      fix t :: "('a, 'b) group_scheduler"
      show "gs_logic.keeps t (ret (Stop False) ((count_protocol_fault t)\<lparr>gs_register_cursor := i + 1\<rparr>))"
        by (rule keeps_calm_ret, rule calm_transitive [of _ "count_protocol_fault t"]) simp_all
    qed
    ultimately show ?thesis using iu by (auto simp: e split: sum.splits)
  qed
  show ?thesis
    unfolding try_register_def Let_def
    using inv full events peek_ordinal [of ?sq]
    by (auto simp: not_le split: sum.splits prod.splits)
qed

lemma scan_contexts_inv:
  "sched_inv s \<Longrightarrow> int (length (gs_queued s)) < cf_action_capacity (gs_config s) \<Longrightarrow>
   sched_inv (snd (scan_contexts ports live cycle is start s))"
proof (induction "is" arbitrary: s)
  case Nil
  show ?case by (simp, rule frame_inv [OF calm_frame Nil(1)]) simp
next
  case (Cons i "is")
  obtain v t where t: "try_register ports live i cycle s = (v, t)" by fastforce
  have it: "sched_inv t" using try_register_inv [OF Cons.prems, of ports live i cycle] by (simp add: t)
  moreover have "v = Inr Next \<Longrightarrow> int (length (gs_queued t)) < cf_action_capacity (gs_config t)"
    using try_register_next [of ports live i cycle s t] t Cons.prems(2) frame_fields(1,8) [OF calm_frame, of s t] by simp
  ultimately show ?case using Cons.IH [of t] by (cases v) (auto simp: t split: scan_step.splits)
qed

lemma register_one_inv:
  assumes "sched_inv s"
  shows "sched_inv (snd (register_one ports contexts cycle s))"
proof -
  have "sched_inv (gs_cycle m k s)" for m k by (rule frame_inv [OF calm_frame assms]) simp
  with assms show ?thesis
    by (auto simp: register_one_def Let_def not_le intro!: scan_contexts_inv)
qed

section \<open>The scheduler cycle keeps the invariant\<close>

lemma poll_commands_keeps: "gs_logic.keeps s (poll_commands ports cycle cs s)"
proof (induction cs arbitrary: s)
  case (Cons p cs)
  obtain c r where p: "p = (c, r)" by (cases p)
  define u where "u = count_completed (upd_seq (ra_sequencer (gs_recs s r)) (note_action_completed (gs_recs s r))
      (s\<lparr>gs_control_inflight := dict_del c (gs_control_inflight s)\<rparr>))"
  have "calm s u"
    unfolding u_def
    by (rule calm_transitive [OF _ calm_completed(1)]) simp
  then have frame: "frame s u" by (rule calm_frame)
  have step: "gs_logic.keeps s (and_then (if b then fault_context ports q m cycle u else ret () u)
      (\<lambda>_ s. poll_commands ports cycle cs s))" for b q m
    by (rule keeps_from [OF frame], rule gs_logic.keeps_and_then [OF _ Cons.IH],
        rule gs_logic.keeps_if [OF fault_context_keeps gs_logic.keeps_same])
  show ?case
    unfolding p poll_commands.simps Let_def u_def [symmetric]
    by (intro gs_logic.keeps_sum gs_logic.keeps_if gs_logic.keeps_same Cons.IH step)
qed (simp add: gs_logic.keeps_same)

lemma count_cycle_calm: "calm s (count_cycle contexts s)"
proof -
  let ?a = "gs_cycle ''group_scheduler_cycles'' 1 s"
  let ?b = "gs_cycle ''group_scheduler_queued'' (int (length (gs_queued ?a))) ?a"
  let ?c = "gs_cycle ''group_scheduler_inflight'' (gs_inflight ?b) ?b"
  have "calm s ?a" "calm ?a ?b" "calm ?b ?c" "calm ?c (count_cycle contexts s)"
    by (simp_all add: count_cycle_def Let_def)
  then show ?thesis using calm_transitive by blast
qed

lemma gs_step_inv:
  assumes "sched_inv s"
  shows "sched_inv (snd (gs_step ports contexts cycle s))"
proof -
  have idle: "sched_inv t \<Longrightarrow> sched_inv (gs_cycle m k t)" for t :: "('a, 'b) group_scheduler" and m k
    by (rule frame_inv [OF calm_frame]) simp_all
  have thread: "sched_inv (snd r) \<Longrightarrow> (\<And>x t. sched_inv t \<Longrightarrow> sched_inv (snd (k x t))) \<Longrightarrow> sched_inv (snd (and_then r k))"
    for r :: "('a, 'b, 'c) gs_result" and k :: "'c \<Rightarrow> _ \<Rightarrow> ('a, 'b, 'd) gs_result"
    by (cases r; cases "fst r") auto
  show ?thesis
    unfolding gs_step_def poll_controls_def Let_def
    using inv_keeps [OF assms poll_commands_keeps] frame_inv [OF calm_frame [OF count_cycle_calm]]
    by (auto intro!: thread issue_one_inv register_one_inv idle)
qed

end
