(* ===== verification/Scheduler_Props.thy ===== *)
theory Scheduler_Props
  imports Scheduler_Safety
begin

text \<open>
  The group scheduler as a machine and what it promises: exact credits, context views that
  agree with the shared action table, issue only after the dependencies, and faults that stay
  inside their context. The machine includes the operations the tile group performs on its
  sequencers and, as an arbitrary function, whatever it does to the rest of its state.
\<close>

section \<open>The machine\<close>

datatype ('x, 'e) gs_op =
    SchedStep "seq_ref list" int
  | SchedPoll int
  | NotifyEvent seq_ref string int event_status int
  | CancelContext seq_ref int
  | SchedulerFault seq_ref string int
  | ReserveEvents seq_ref "'x exec_tile_group_task"
  | CancelEvents seq_ref
  | RetireEvents seq_ref int
  | AbortInflight
  | SchedReset
  | Launch seq_ref string int int "'x exec_tile_group_task"
  | Admit seq_ref context_admission_status
  | JobDone seq_ref
  | MarkFault seq_ref string
  | AbortActions seq_ref
  | SeqReset seq_ref
  | SeqStep seq_ref
  | GroupActs "'e \<Rightarrow> 'e"

definition launch_seq :: "string \<Rightarrow> int \<Rightarrow> int \<Rightarrow> 'x exec_tile_group_task \<Rightarrow> 'x sequencer \<Rightarrow> 'x sequencer" where
  "launch_seq name slot gen task sq =
     load task (sq\<lparr>ts_launch_generation := gen, ts_context_name := name, ts_device_slot := slot\<rparr>)"

fun gs_exec :: "('x, 'e) group_ports \<Rightarrow> ('x, 'e) gs_op \<Rightarrow> ('x, 'e) group_scheduler \<Rightarrow> ('x, 'e) group_scheduler" where
  "gs_exec ports (SchedStep contexts cycle) s = snd (gs_step ports contexts cycle s)"
| "gs_exec ports (SchedPoll cycle) s = snd (poll_controls ports cycle s)"
| "gs_exec ports (NotifyEvent q event cycle status code) s = snd (notify_event ports q event cycle status code s)"
| "gs_exec ports (CancelContext q cycle) s = snd (cancel_context ports q cycle s)"
| "gs_exec ports (SchedulerFault q reason cycle) s = snd (on_scheduler_fault ports q reason cycle s)"
| "gs_exec ports (ReserveEvents q task) s = snd (reserve_context_events q task s)"
| "gs_exec ports (CancelEvents q) s = snd (cancel_context_events q s)"
| "gs_exec ports (RetireEvents q cycle) s = snd (retire_context_events q cycle s)"
| "gs_exec ports AbortInflight s = abort_inflight s"
| "gs_exec ports SchedReset s = snd (gs_reset s)"
| "gs_exec ports (Launch q name slot gen task) s = upd_seq q (launch_seq name slot gen task) s"
| "gs_exec ports (Admit q status) s = upd_seq q (\<lambda>sq. sq\<lparr>ts_admission_status := status\<rparr>) s"
| "gs_exec ports (JobDone q) s = snd (on_seq q note_job_done s)"
| "gs_exec ports (MarkFault q reason) s = upd_seq q (mark_fault reason) s"
| "gs_exec ports (AbortActions q) s = upd_seq q abort_actions s"
| "gs_exec ports (SeqReset q) s = upd_seq q ts_reset s"
| "gs_exec ports (SeqStep q) s = ts_step ports q s"
| "gs_exec ports (GroupActs f) s = s\<lparr>gs_env := f (gs_env s)\<rparr>"

text \<open>
  The discipline of \<open>tile_group.py\<close>: a sequencer is loaded, aborted or reset only while none of
  its actions is queued (it is new, cancelled or done), and the scheduler is reset only between
  launches, with an empty action table and no control command pending.
\<close>

fun gs_enabled :: "('x, 'e) gs_op \<Rightarrow> ('x, 'e) group_scheduler \<Rightarrow> bool" where
  "gs_enabled (Launch q name slot gen task) s \<longleftrightarrow> queued_of q s = []"
| "gs_enabled (AbortActions q) s \<longleftrightarrow> queued_of q s = []"
| "gs_enabled (SeqReset q) s \<longleftrightarrow> queued_of q s = []"
| "gs_enabled SchedReset s \<longleftrightarrow> gs_queued s = [] \<and> gs_control_inflight s = []"
| "gs_enabled _ s \<longleftrightarrow> True"

lemma idle_seq_inv:
  assumes inv: "sched_inv s" and idle: "queued_of q s = []" and f: "ts_queued_actions (f (gs_seqs s q)) = []"
  shows "sched_inv (upd_seq q f s)"
proof -
  let ?t = "upd_seq q f s"
  have same: "queued_of q' ?t = queued_of q' s" "ordinal_of ?t = ordinal_of s" for q'
    by (auto simp: queued_of_def ordinal_of_def of_seq_def upd_seq_def fun_eq_iff intro!: filter_cong)
  have fields: "gs_seqs ?t q' = (if q' = q then f (gs_seqs s q) else gs_seqs s q')" "gs_config ?t = gs_config s" for q'
    by (simp_all add: upd_seq_def)
  have "view_ok ?t q'" for q'
    unfolding view_ok_def same fields
    using inv idle f by (cases "q' = q") (auto simp: sched_inv_def views_ok_def view_ok_def)
  moreover have "credit_ok ?t" by (rule credit_ok_cong [of _ s]) (use inv in \<open>auto simp: upd_seq_def sched_inv_def\<close>)
  ultimately show ?thesis using inv by (auto simp: sched_inv_def views_ok_def upd_seq_def)
qed

lemma empty_credit:
  assumes "0 \<le> cf_inflight_capacity (gs_config s)" "\<forall>a \<in> set adapter_names. 0 \<le> adapter_capacity (gs_config s) a"
    and "gs_inflight_by_event s = []" "gs_adapter_used s = adapters_zero" "gs_epoch_key s = None" "gs_epoch_inflight s = 0"
  shows "credit_ok s"
  using assms by (auto simp: credit_ok_def inflight_ok_def adapter_count_def gs_inflight_def adapters_zero_def
      adapter_names_def dd_get_def)

lemma credit_capacities:
  "credit_ok s \<Longrightarrow> 0 \<le> cf_inflight_capacity (gs_config s)
     \<and> (\<forall>a \<in> set adapter_names. 0 \<le> adapter_capacity (gs_config s) a)"
  using adapter_count_nonneg [of _ s] by (auto simp: credit_ok_def gs_inflight_def intro: order_trans)

lemma abort_inflight_inv: "sched_inv s \<Longrightarrow> sched_inv (abort_inflight s)"
proof -
  assume inv: "sched_inv s"
  have "credit_ok (abort_inflight s)"
    by (rule empty_credit) (use credit_capacities [of s] inv in \<open>auto simp: abort_inflight_def sched_inv_def\<close>)
  moreover have "views_ok (abort_inflight s)"
    by (rule views_ok_cong [of _ s]) (use inv in \<open>auto simp: abort_inflight_def sched_inv_def\<close>)
  ultimately show ?thesis by (simp add: sched_inv_def)
qed

lemma gs_reset_inv:
  assumes inv: "sched_inv s" and idle: "gs_queued s = []" "gs_control_inflight s = []"
  shows "sched_inv (snd (gs_reset s))"
proof -
  let ?t = "snd (gs_reset s)"
  have "credit_ok ?t"
    by (rule empty_credit) (use credit_capacities [of s] inv idle in \<open>auto simp: gs_reset_def Let_def sched_inv_def\<close>)
  moreover have "views_ok ?t"
    by (rule views_ok_cong [of _ s]) (use inv idle in \<open>auto simp: gs_reset_def Let_def sched_inv_def\<close>)
  ultimately show ?thesis by (simp add: sched_inv_def)
qed

lemma event_ops_frame:
  "frame s (snd (reserve_context_events q task s))" "frame s (snd (cancel_context_events q s))"
  "frame s (snd (retire_context_events q cycle s))"
proof -
  have count: "frame s u \<Longrightarrow> frame s (count_protocol_fault u)" for u
    by (erule frame_trans) (rule calm_frame, simp)
  have same: "frame s s" by (simp add: frame_def)
  have ev: "on_events (reserve_quota n uses owner gen) s = (v, u) \<Longrightarrow> frame s u" for n uses owner gen v u
    using frame_on_events [of s "reserve_quota n uses owner gen"] by simp
  show "frame s (snd (reserve_context_events q task s))"
    using same ev
    by (auto simp: reserve_context_events_def split: option.splits prod.splits sum.splits)
  show "frame s (snd (cancel_context_events q s))"
    using frame_on_events [of s "cancel_reservation (event_owner (gs_seqs s q)) (ts_launch_generation (gs_seqs s q))"]
    by (auto simp: cancel_context_events_def count split: prod.splits sum.splits)
  show "frame s (snd (retire_context_events q cycle s))"
    using frame_on_events [of s "release_owner (event_owner (gs_seqs s q)) (ts_launch_generation (gs_seqs s q)) cycle"]
    by (auto simp: retire_context_events_def and_then_def split: prod.splits sum.splits)
qed

lemma job_done_frame: "frame s (snd (on_seq q note_job_done s))"
  by (auto simp: on_seq_def note_job_done_def frame_def sched_core_def seq_core_def split: prod.splits if_splits)

lemma ts_step_calm: "calm s (ts_step ports q s)"
proof -
  let ?u = "upd_seq q (\<lambda>sq. sq\<lparr>ts_pmu := pmu_add_cycle ''total'' 1 (ts_pmu sq)\<rparr>) s"
  have "calm s ?u" by (rule calm_upd_seq) simp
  moreover have "calm ?u (maybe_finish ports q ?u)"
    by (auto simp: maybe_finish_def Let_def intro: calm_same calm_upd_seq)
  ultimately show ?thesis unfolding ts_step_def by (rule calm_transitive)
qed

lemma gs_exec_inv:
  assumes "sched_inv s" "gs_enabled x s"
  shows "sched_inv (gs_exec ports x s)"
proof (cases x)
  case (Admit q st)
  have "calm s (upd_seq q (\<lambda>sq. sq\<lparr>ts_admission_status := st\<rparr>) s)" by (rule calm_upd_seq) (simp add: seq_core_def)
  with Admit assms(1) show ?thesis by (simp add: frame_inv [OF calm_frame])
next
  case (MarkFault q reason)
  have "calm s (upd_seq q (mark_fault reason) s)" by (rule calm_upd_seq) simp
  with MarkFault assms(1) show ?thesis by (simp add: frame_inv [OF calm_frame])
next
  case (SchedulerFault q reason cycle)
  with assms(1) show ?thesis using inv_keeps [OF _ calm_keeps [OF calm_on_scheduler_fault]] by simp
next
  case (GroupActs f)
  have "calm s (s\<lparr>gs_env := f (gs_env s)\<rparr>)" by simp
  from frame_inv [OF calm_frame [OF this] assms(1)] show ?thesis by (simp add: GroupActs)
next
  case (SeqStep q)
  with assms(1) show ?thesis using frame_inv [OF calm_frame [OF ts_step_calm]] by simp
qed (use assms inv_keeps [OF _ notify_event_keeps] inv_keeps [OF _ cancel_context_keeps] inv_keeps [OF _ poll_commands_keeps]
      frame_inv [OF event_ops_frame(1)] frame_inv [OF event_ops_frame(2)] frame_inv [OF event_ops_frame(3)]
      frame_inv [OF job_done_frame] in
    \<open>auto simp: poll_controls_def gs_step_inv abort_inflight_inv gs_reset_inv
       intro!: idle_seq_inv simp: launch_seq_def load_def clear_launch_state_def abort_actions_def ts_reset_def\<close>)

interpretation gsm: guarded_machine gs_enabled "gs_exec ports" sched_inv for ports :: "('x, 'e) group_ports"
  by unfold_locales (rule gs_exec_inv)

lemma gs_new_inv:
  assumes "config_ok cf = Inr ()" "\<And>q. ts_queued_actions (sqs q) = []"
  shows "sched_inv (gs_new cf et sqs blank fr ring rd env)"
proof -
  let ?s = "gs_new cf et sqs blank fr ring rd env"
  have pos: "0 < cf_action_capacity cf" "0 < cf_context_action_quota cf" "0 < cf_inflight_capacity cf"
    "0 < cf_prefetch_capacity cf" "0 < cf_store_capacity cf" "0 < cf_dispatch_capacity cf"
    using assms(1) by (auto simp: config_ok_def split: if_splits)
  have "credit_ok ?s"
    by (rule empty_credit) (use pos in \<open>auto simp: gs_new_def adapter_names_def adapter_capacity_def\<close>)
  moreover have "views_ok ?s"
    using pos assms(2) by (simp add: views_ok_def view_ok_def queued_of_def gs_new_def)
  ultimately show ?thesis by (simp add: sched_inv_def)
qed

section \<open>Credits\<close>

lemma adapter_count_length:
  "adapter_count a s = int (length (filter (\<lambda>(ev, r, ad). ad = a) (gs_inflight_by_event s)))"
proof -
  have "dict_sum (\<lambda>(r, ad). of_bool (ad = a)) d = int (length (filter (\<lambda>(ev, r, ad). ad = a) d))"
    for d :: "(string, rec_ref \<times> string) dict" by (induction d) auto
  then show ?thesis by (simp add: adapter_count_def)
qed

lemma refused_reset_keeps_credits:
  "gs_control_inflight s \<noteq> [] \<Longrightarrow>
     \<exists>t. gs_reset s = (Inl (RuntimeError ''scheduler reset before configuration control retirement''), t)
       \<and> gs_inflight_by_event t = [] \<and> gs_queued t = []
       \<and> gs_adapter_used t = gs_adapter_used s \<and> gs_epoch_inflight t = gs_epoch_inflight s"
  by (simp add: gs_reset_def Let_def)

text \<open>C2. Credits are exact in every run that keeps the discipline of the tile group (a context is
  launched, aborted or reset only with none of its actions queued; the scheduler is reset only
  with an empty action table and no control command pending), whatever the rest of the group does:
  the used count of each adapter is the number of accepted actions in flight on it and never
  exceeds the adapter's capacity, the actions in flight stay within the inflight capacity, the
  action table within its own; the epoch reference count is the number of dispatches in flight
  under the same-program policy and stays 0 under the mixed policy. The one exception is a reset
  while control commands are pending, which the discipline excludes: it is refused, but only
  after it has emptied the action table and the in-flight table, and it returns none of the
  credits and epoch references that were taken.
\<close>

theorem sched_credits_exact:
  assumes "config_ok cf = Inr ()" "\<And>q. ts_queued_actions (sqs q) = []"
    and "legal_run gs_enabled (gs_exec ports) ops (gs_new cf et sqs blank fr ring rd env)"
  defines "s \<equiv> run_ops (gs_exec ports) ops (gs_new cf et sqs blank fr ring rd env)"
  shows "(\<forall>a \<in> {''prefetch'', ''store'', ''dispatch''}.
            dd_get (gs_adapter_used s) a = int (length (filter (\<lambda>(ev, r, ad). ad = a) (gs_inflight_by_event s)))
          \<and> dd_get (gs_adapter_used s) a \<le> adapter_capacity (gs_config s) a)
     \<and> int (length (gs_inflight_by_event s)) \<le> cf_inflight_capacity (gs_config s)
     \<and> int (length (gs_queued s)) \<le> cf_action_capacity (gs_config s)
     \<and> gs_epoch_inflight s = (if cf_epoch_policy (gs_config s) = ''same_program''
          then int (length (filter (\<lambda>(ev, r, ad). ac_op (ra_action (gs_recs s r)) = DISPATCH_ROLE) (gs_inflight_by_event s)))
          else 0)
     \<and> (gs_control_inflight s \<noteq> [] \<longrightarrow>
          (\<exists>t. gs_reset s = (Inl (RuntimeError ''scheduler reset before configuration control retirement''), t)
             \<and> gs_inflight_by_event t = [] \<and> gs_queued t = []
             \<and> gs_adapter_used t = gs_adapter_used s \<and> gs_epoch_inflight t = gs_epoch_inflight s))"
proof -
  have inv: "sched_inv s"
    unfolding s_def by (rule gsm.run_inv [OF gs_new_inv [OF assms(1,2)] assms(3)])
  then have "inflight_ok s" by (simp add: sched_inv_def credit_ok_def)
  then have "filter (\<lambda>(ev, r, ad). ad = ''dispatch'') (gs_inflight_by_event s)
      = filter (\<lambda>(ev, r, ad). ac_op (ra_action (gs_recs s r)) = DISPATCH_ROLE) (gs_inflight_by_event s)"
    by (intro filter_cong) (auto simp: inflight_ok_def adapter_for_dispatch [symmetric])
  with inv refused_reset_keeps_credits [of s] show ?thesis
    by (auto simp: sched_inv_def credit_ok_def views_ok_def adapter_count_length gs_inflight_def same_program_def
        adapter_names_def)
qed

section \<open>Context views\<close>

text \<open>C14. In every reachable state each context's own record of its queued actions is exactly its
  part of the shared action table, in table order and in program order: the ordinals ascend
  strictly and lie below the submission counter, and there are never more than the context
  quota. Taking an accepted action out of the table therefore never fails.
\<close>

theorem sched_context_views:
  assumes "config_ok cf = Inr ()" "\<And>q. ts_queued_actions (sqs q) = []"
    and "legal_run gs_enabled (gs_exec ports) ops (gs_new cf et sqs blank fr ring rd env)"
  defines "s \<equiv> run_ops (gs_exec ports) ops (gs_new cf et sqs blank fr ring rd env)"
  defines "own \<equiv> \<lambda>q. filter (\<lambda>r. ra_sequencer (gs_recs s r) = q) (gs_queued s)"
  shows "ts_queued_actions (gs_seqs s q) = map (\<lambda>r. (ra_ordinal (gs_recs s r), r)) (own q)
     \<and> sorted_wrt (<) (map (\<lambda>r. ra_ordinal (gs_recs s r)) (own q))
     \<and> (\<forall>r \<in> set (own q). ra_ordinal (gs_recs s r) < ts_submission_pc (gs_seqs s q))
     \<and> int (length (own q)) \<le> cf_context_action_quota (gs_config s)"
proof -
  have "sched_inv s"
    unfolding s_def by (rule gsm.run_inv [OF gs_new_inv [OF assms(1,2)] assms(3)])
  then have "view_ok s q" by (simp add: sched_inv_def views_ok_def)
  then show ?thesis by (simp add: view_ok_def queued_of_def of_seq_def [abs_def] ordinal_of_def [abs_def] own_def)
qed

section \<open>Issue order\<close>

lemma dependency_status_done:
  "dependency_status_of events t = EV_DONE \<Longrightarrow> event \<in> set events \<Longrightarrow>
   \<exists>e. dict_get (et_entries t) event = Some e \<and> ev_producer_bound e \<and> ev_status e = EV_DONE"
  by (induction events t rule: dependency_status_of.induct) (auto split: option.splits if_splits)

lemma on_seq_recs: "on_seq q f s = (v, t) \<Longrightarrow> gs_recs t = gs_recs s"
  by (auto simp: on_seq_def split: prod.splits)

lemma take_epoch_recs: "take_epoch r s = (v, t) \<Longrightarrow> gs_recs t = gs_recs s"
  by (auto simp: take_epoch_def acquire_epoch_def split: if_splits sum.splits)

lemma track_async_recs: "track_async ports r ad ev s = (Inr x, t) \<Longrightarrow> gs_recs t = gs_recs s"
  by (auto simp: track_async_take dest!: and_then_InrD on_seq_recs take_epoch_recs)

lemma finish_sync_recs: "finish_sync r s = (Inr x, t) \<Longrightarrow> gs_recs t = gs_recs s"
  by (auto simp: finish_sync_def Let_def gs_event_def count_completed_def upd_seq_def dest!: and_then_InrD on_seq_recs)

definition stamped :: "rec_ref \<Rightarrow> int \<Rightarrow> ('x, 'e) group_scheduler \<Rightarrow> rec_ref \<Rightarrow> 'x registered_action" where
  "stamped r cycle s = (gs_recs s)(r := (gs_recs s r)\<lparr>ra_issue_cycle := cycle\<rparr>)"

lemma commit_issue_recs:
  assumes "commit_issue ports r ad res cycle s = (Inr (Stop True), t)"
  shows "gs_recs t = stamped r cycle s"
proof -
  from assms obtain m u where c: "consume_for r cycle s = (Inr m, u)"
    by (auto simp: commit_issue_def dest!: and_then_InrD)
  have "gs_recs u = gs_recs s" using frame_fields(6) [OF consume_for_frame [of s r cycle]] c by simp
  with assms c show ?thesis
    by (auto simp: commit_issue_def Let_def gs_event_def stamped_def split: option.splits if_splits
        dest!: and_then_InrD on_seq_recs track_async_recs finish_sync_recs)
qed

lemma try_issue_recs:
  assumes "sched_inv s" "try_issue ports r cycle s = (Inr (Stop True), t)"
  shows "gs_recs t = stamped r cycle s"
proof -
  from assms(2) obtain res u where i: "issue_registered ports r cycle s = (Inr res, u)"
    and c: "commit_issue ports r (adapter_for (ra_action (gs_recs s r))) res cycle u = (Inr (Stop True), t)"
    by (auto simp: try_issue_def Let_def split: if_splits sum.splits issue_status.splits dest!: and_then_InrD)
  have "gs_recs u = gs_recs s"
    using issue_registered_keeps [of s ports r cycle] assms(1) by (simp add: i gs_logic.keeps_def shrink_def)
  with commit_issue_recs [OF c] show ?thesis by (simp add: stamped_def)
qed

text \<open>What the scan knows of the action it issues, read off the state before the scan.\<close>

definition issuable :: "('x, 'e) group_scheduler \<Rightarrow> rec_ref \<Rightarrow> bool" where
  "issuable s r \<longleftrightarrow> dependency_status r s = EV_DONE \<and> \<not> barrier_blocked r s
     \<and> has_credit (ra_action (gs_recs s r)) (adapter_for (ra_action (gs_recs s r))) s
     \<and> epoch_allows (gs_recs s r) s = Inr True"

lemma issuable_calm:
  assumes "calm s t" "\<And>q. ts_inflight_actions (gs_seqs t q) = ts_inflight_actions (gs_seqs s q)"
  shows "issuable t r = issuable s r"
proof -
  have fr: "frame s t" and ev: "gs_event_table t = gs_event_table s" using assms(1) by (simp_all add: calm_def)
  show ?thesis
    unfolding issuable_def dependency_status_def barrier_blocked_def barrier_ready_def has_credit_def gs_inflight_def
      Let_def epoch_allows_frame [OF fr] frame_fields [OF fr] ev assms(2) by (rule refl)
qed

lemma on_env_seqs: "on_env f s = (v, t) \<Longrightarrow> gs_seqs t = gs_seqs s"
  by (auto simp: on_env_def split: prod.splits)

definition same_flight :: "('x, 'e) group_scheduler \<Rightarrow> ('x, 'e) group_scheduler \<Rightarrow> bool" where
  "same_flight s t \<longleftrightarrow> (\<forall>q. ts_inflight_actions (gs_seqs t q) = ts_inflight_actions (gs_seqs s q))"

lemma same_flight_seqs: "gs_seqs t = gs_seqs s \<Longrightarrow> same_flight s t"
  by (simp add: same_flight_def)

lemma flight_counts:
  "same_flight s (count_backpressure n s)" "same_flight s (gs_cycle n k s)"
  "same_flight s (gs_event n (s\<lparr>gs_dependency_wait_checks := k\<rparr>))"
  by (simp_all add: same_flight_def count_backpressure_def gs_cycle_def gs_event_def)

lemma note_receipt_flight: "note_receipt ports q a owner c cycle s = (Inr x, t) \<Longrightarrow> same_flight s t"
  by (auto simp: note_receipt_def same_flight_def upd_seq_def split: if_splits group_arg.splits option.splits
      dest!: and_then_InrD on_env_seqs)

lemma issue_control_flight: "issue_control ports q a cycle s = (Inr res, t) \<Longrightarrow> same_flight s t"
  by (auto simp: issue_control_def Let_def split: list.splits option.splits group_arg.splits if_splits
      dest!: and_then_InrD on_env_seqs note_receipt_flight simp: same_flight_seqs)
    (auto simp: same_flight_def)

lemma backpressure_flight:
  assumes "issue_body ports q a cycle s = (Inr res, t)" "ir_status res = BACKPRESSURE"
  shows "same_flight s t"
proof (cases "gated_by_l2 (ac_op a) \<and> gp_issue_gate_closed ports ''l2'' (gs_env s)")
  case True
  with assms show ?thesis by (auto simp: issue_body_def simp: same_flight_seqs)
next
  case False
  have dispatch: "issue_dispatch ports q a cycle s = (Inr res, t) \<Longrightarrow> same_flight s t"
    using assms(2) by (auto simp: issue_dispatch_def Let_def split: list.splits group_arg.splits option.splits if_splits
        dest!: and_then_InrD on_env_seqs simp: same_flight_seqs)
  have signal: "issue_signal ports q a cycle s = (Inr res, t) \<Longrightarrow> same_flight s t"
    using assms(2) by (auto simp: issue_signal_def split: list.splits group_arg.splits option.splits if_splits
        dest!: and_then_InrD on_env_seqs simp: same_flight_seqs)
  have others: "issue_bind_l2_view ports q a cycle s \<noteq> (Inr res, t)" "issue_bind_l2_import ports q a cycle s \<noteq> (Inr res, t)"
    "issue_init_stream ports q a s \<noteq> (Inr res, t)" "issue_dma ports q a cycle s \<noteq> (Inr res, t)"
    "issue_wait ports q a cycle s \<noteq> (Inr res, t)" "issue_collective ports q a cycle s \<noteq> (Inr res, t)"
    "issue_publish ports q a cycle s \<noteq> (Inr res, t)" "issue_release ports q a cycle s \<noteq> (Inr res, t)"
    using assms(2)
    by (auto simp: issue_bind_l2_view_def issue_bind_l2_import_def issue_init_stream_def issue_dma_def issue_wait_def
        issue_collective_def issue_publish_def issue_release_def Let_def split: list.splits group_arg.splits
        option.splits if_splits dest!: and_then_InrD signal_completion_result)
  show ?thesis
    using assms False dispatch signal others issue_control_flight [of ports q a cycle s res t]
    by (cases "ac_op a") (auto simp: issue_body_def)
qed

lemma try_issue_next_flight: "try_issue ports r cycle s = (Inr Next, t) \<Longrightarrow> same_flight s t"
proof -
  assume a: "try_issue ports r cycle s = (Inr Next, t)"
  have bp: "same_flight s (count_backpressure n u)"
    if "issue_registered ports r cycle s = (Inr res, u)" "ir_status res = BACKPRESSURE" for res u n
  proof -
    have "issue_body ports (ra_sequencer (gs_recs s r)) (ra_action (gs_recs s r)) cycle s = (Inr res, u)"
      using that by (auto simp: issue_registered_def Let_def split: prod.splits sum.splits if_splits)
    from backpressure_flight [OF this that(2)] show ?thesis
      by (simp add: same_flight_def count_backpressure_def gs_cycle_def)
  qed
  from a show ?thesis
    by (auto simp: try_issue_def Let_def flight_counts split: if_splits sum.splits issue_status.splits
        dest!: and_then_InrD intro: bp)
qed

lemma scan_queue_issues:
  "scan_queue ports cycle rs s = (Inr True, t) \<Longrightarrow> sched_inv s \<Longrightarrow> set rs \<subseteq> set (gs_queued s) \<Longrightarrow>
   \<exists>r \<in> set rs. issuable s r \<and> gs_recs t = stamped r cycle s"
proof (induction rs arbitrary: s)
  case (Cons r rs)
  from Cons.prems(1) obtain st u where st: "try_issue ports r cycle s = (Inr st, u)"
    by (auto dest!: and_then_InrD)
  show ?case
  proof (cases st)
    case Next
    have calm: "calm s u" "same_flight s u" using st Next try_issue_next try_issue_next_flight by auto
    have fr: "frame s u" using calm(1) by (rule calm_frame)
    obtain x where x: "x \<in> set rs" "issuable u x" "gs_recs t = stamped x cycle u"
      using Cons.IH [of u] Cons.prems st Next frame_inv [OF fr] frame_fields(8) [OF fr] by auto
    have "issuable s x" using issuable_calm [OF calm(1)] calm(2) x(2) by (simp add: same_flight_def)
    moreover have "stamped x cycle u = stamped x cycle s" using frame_fields(6) [OF fr] by (simp add: stamped_def)
    ultimately show ?thesis using x by (intro bexI [of _ x]) simp_all
  next
    case (Stop b)
    with Cons.prems(1) st have "b" "u = t" by auto
    with Stop st have i: "try_issue ports r cycle s = (Inr (Stop True), t)" by simp
    from try_issue_issued [OF i] try_issue_recs [OF Cons.prems(2) i] show ?thesis by (auto simp: issuable_def)
  qed
qed simp

text \<open>C1. In every reachable state, an issue that succeeds issues exactly one queued action (the one
  it stamps with the issue cycle), and that action was ready: every event it depends on was
  bound to a producer and completed, a barrier had no earlier action of its context queued or
  in flight, under the in-order policy it was the oldest queued action of its context, and
  under the same-program policy a dispatch belongs to the open epoch's program.
\<close>

theorem issue_respects_dependencies:
  assumes "config_ok cf = Inr ()" "\<And>q. ts_queued_actions (sqs q) = []"
    and "legal_run gs_enabled (gs_exec ports) ops (gs_new cf et sqs blank fr ring rd env)"
  defines "s \<equiv> run_ops (gs_exec ports) ops (gs_new cf et sqs blank fr ring rd env)"
  assumes "issue_one ports cycle s = (Inr True, t)"
  shows "\<exists>r \<in> set (gs_queued s). gs_recs t = (gs_recs s)(r := (gs_recs s r)\<lparr>ra_issue_cycle := cycle\<rparr>) \<and>
     (\<forall>event \<in> set (ac_dependencies (ra_action (gs_recs s r))). \<exists>e.
        dict_get (et_entries (gs_event_table s)) event = Some e \<and> ev_producer_bound e \<and> ev_status e = EV_DONE) \<and>
     (ac_op (ra_action (gs_recs s r)) = BARRIER_GROUP \<longrightarrow>
        (\<forall>i \<in> set (dict_keys (ts_queued_actions (gs_seqs s (ra_sequencer (gs_recs s r))))
                @ dict_keys (ts_inflight_actions (gs_seqs s (ra_sequencer (gs_recs s r))))).
           ra_ordinal (gs_recs s r) \<le> i)) \<and>
     (cf_policy (gs_config s) = ''s0'' \<longrightarrow>
        (\<forall>r' \<in> set (gs_queued s). ra_sequencer (gs_recs s r') = ra_sequencer (gs_recs s r) \<longrightarrow>
           ra_ordinal (gs_recs s r) \<le> ra_ordinal (gs_recs s r'))) \<and>
     (cf_epoch_policy (gs_config s) = ''same_program'' \<and> ac_op (ra_action (gs_recs s r)) = DISPATCH_ROLE \<longrightarrow>
        (\<exists>key. dispatch_program_key (ra_action (gs_recs s r)) (gs_seqs s (ra_sequencer (gs_recs s r))) = Inr key
           \<and> (gs_epoch_key s = None \<or> gs_epoch_key s = Some key)))"
proof -
  let ?a = "advance_scan s"
  have inv: "sched_inv s"
    unfolding s_def by (rule gsm.run_inv [OF gs_new_inv [OF assms(1,2)] assms(3)])
  have ne: "gs_queued s \<noteq> []" using assms(5) by (auto simp: issue_one_def)
  have calm: "calm s ?a" by (rule advance_scan_calm)
  have seqs: "gs_seqs ?a = gs_seqs s" "gs_recs ?a = gs_recs s" "gs_queued ?a = gs_queued s" "gs_config ?a = gs_config s"
    by (simp_all add: advance_scan_def)
  define rs where "rs = (if cf_policy (gs_config s) = ''s0'' then filter (is_head s) (scan_window s) else scan_window s)"
  have head: "is_head ?a = is_head s" by (rule ext) (simp add: is_head_def of_seq_def seqs)
  obtain u where u: "scan_queue ports cycle rs u = (Inr True, t)" "calm ?a u" "same_flight ?a u"
  proof (cases "cf_policy (gs_config s) = ''s0''")
    case True
    from assms(5) ne True seqs obtain stall where
      "ordering_stall (filter (\<lambda>r. \<not> is_head ?a r) (scan_window s)) (filter (is_head ?a) (scan_window s)) ?a = Inr stall"
      by (cases "ordering_stall (filter (\<lambda>r. \<not> is_head ?a r) (scan_window s)) (filter (is_head ?a) (scan_window s)) ?a")
        (simp_all add: issue_one_def Let_def)
    with assms(5) ne True seqs head
    have "scan_queue ports cycle rs (if stall then gs_cycle ''group_ordering_stall'' 1 ?a else ?a) = (Inr True, t)"
      by (simp add: issue_one_def Let_def rs_def)
    then show thesis
      by (rule that) (simp_all add: calm_same calm_updates flight_counts same_flight_seqs)
  next
    case False
    with assms(5) ne seqs show thesis
      by (intro that [of ?a]) (simp_all add: issue_one_def Let_def rs_def calm_same same_flight_def)
  qed
  have su: "calm s u" "same_flight s u"
    using calm_transitive [OF calm u(2)] u(3) by (simp_all add: same_flight_def seqs)
  have fr: "frame s u" by (rule calm_frame [OF su(1)])
  have sub: "set rs \<subseteq> set (gs_queued u)"
    using scan_window_subset [OF ne] frame_fields(8) [OF fr] by (auto simp: rs_def)
  obtain r where r: "r \<in> set rs" "issuable u r" "gs_recs t = stamped r cycle u"
    using scan_queue_issues [OF u(1) frame_inv [OF fr inv] sub] by blast
  have iss: "issuable s r" using issuable_calm [OF su(1)] su(2) r(2) by (simp add: same_flight_def)
  have st: "gs_recs t = (gs_recs s)(r := (gs_recs s r)\<lparr>ra_issue_cycle := cycle\<rparr>)"
    using r(3) frame_fields(6) [OF fr] by (simp add: stamped_def)
  have rq: "r \<in> set (gs_queued s)" using r(1) sub frame_fields(8) [OF fr] by auto
  have deps: "\<forall>event \<in> set (ac_dependencies (ra_action (gs_recs s r))). \<exists>e.
      dict_get (et_entries (gs_event_table s)) event = Some e \<and> ev_producer_bound e \<and> ev_status e = EV_DONE"
    using iss dependency_status_done unfolding issuable_def dependency_status_def by blast
  have barrier: "ac_op (ra_action (gs_recs s r)) = BARRIER_GROUP \<longrightarrow>
      (\<forall>i \<in> set (dict_keys (ts_queued_actions (gs_seqs s (ra_sequencer (gs_recs s r))))
              @ dict_keys (ts_inflight_actions (gs_seqs s (ra_sequencer (gs_recs s r))))).
         ra_ordinal (gs_recs s r) \<le> i)"
    using iss by (fastforce simp: issuable_def barrier_blocked_def barrier_ready_def Let_def list_ex_iff not_less)
  have order: "cf_policy (gs_config s) = ''s0'' \<longrightarrow>
      (\<forall>r' \<in> set (gs_queued s). ra_sequencer (gs_recs s r') = ra_sequencer (gs_recs s r) \<longrightarrow>
         ra_ordinal (gs_recs s r) \<le> ra_ordinal (gs_recs s r'))"
    using r(1) by (auto simp: rs_def is_head_def of_seq_def list_all_iff)
  have epoch: "cf_epoch_policy (gs_config s) = ''same_program'' \<and> ac_op (ra_action (gs_recs s r)) = DISPATCH_ROLE \<longrightarrow>
      (\<exists>key. dispatch_program_key (ra_action (gs_recs s r)) (gs_seqs s (ra_sequencer (gs_recs s r))) = Inr key
         \<and> (gs_epoch_key s = None \<or> gs_epoch_key s = Some key))"
    using iss by (auto simp: issuable_def epoch_allows_def same_program_def split: sum.splits)
  show ?thesis using rq st deps barrier order epoch by blast
qed

section \<open>Fault isolation\<close>

lemma cancel_folds: "ts_faulted (fold note_action_cancelled recs sq) = ts_faulted sq"
  "ts_submission_closed (fold note_action_cancelled recs sq) = ts_submission_closed sq"
  by (induction recs arbitrary: sq) (simp_all add: note_action_cancelled_def clear_fence_def)

text \<open>Everything of the scheduler that one context's fault must leave alone.\<close>

definition outside :: "seq_ref \<Rightarrow> ('x, 'e) group_scheduler \<Rightarrow> ('x, 'e) group_scheduler \<Rightarrow> bool" where
  "outside q s t \<longleftrightarrow> (\<forall>q'. q' \<noteq> q \<longrightarrow> gs_seqs t q' = gs_seqs s q') \<and> gs_recs t = gs_recs s
     \<and> filter (\<lambda>r. \<not> of_seq q s r) (gs_queued t) = filter (\<lambda>r. \<not> of_seq q s r) (gs_queued s)
     \<and> gs_inflight_by_event t = gs_inflight_by_event s \<and> gs_control_inflight t = gs_control_inflight s
     \<and> gs_adapter_used t = gs_adapter_used s \<and> gs_epoch_key t = gs_epoch_key s
     \<and> gs_epoch_inflight t = gs_epoch_inflight s"

lemma outside_trans: "outside q s t \<Longrightarrow> outside q t u \<Longrightarrow> outside q s u"
  by (auto simp: outside_def of_seq_def)

lemma on_scheduler_fault_outside:
  "on_scheduler_fault ports q reason cycle s = (v, t) \<Longrightarrow>
   outside q s t \<and> ts_faulted (gs_seqs t q) \<and> ts_submission_closed (gs_seqs t q)"
  by (auto simp: on_scheduler_fault_def trigger_fault_def Let_def outside_def of_seq_def upd_seq_def mark_fault_def
      and_then_def split: if_splits prod.splits sum.splits)

lemma cancel_context_outside:
  "cancel_context ports q cycle s = (v, t) \<Longrightarrow>
   outside q s t \<and> ts_faulted (gs_seqs t q) = ts_faulted (gs_seqs s q)
     \<and> ts_submission_closed (gs_seqs t q) = ts_submission_closed (gs_seqs s q)
     \<and> (v = Inr () \<longrightarrow> filter (of_seq q s) (gs_queued t) = [])"
  by (auto simp: cancel_context_def Let_def outside_def of_seq_def upd_seq_def on_env_def on_events_def
      count_protocol_fault_def cancel_folds and_then_def filter_empty_conv split: if_splits prod.splits sum.splits)

text \<open>C15. The scheduler's handling of a fault touches only the faulting context, whether or not the
  handler itself raises: the other contexts keep their sequencers and their queued actions in
  order, no registered action changes, and nothing in flight, no adapter credit and no epoch
  reference is touched, so accepted work of every context drains with exact accounting while
  the group reset that the fault starts runs. The faulted context is marked and closed for
  submission, and when the handler returns none of its actions is left in the table.
\<close>

theorem fault_stays_in_context:
  assumes "fault_context ports q reason cycle s = (v, t)"
  shows "(\<forall>q'. q' \<noteq> q \<longrightarrow> gs_seqs t q' = gs_seqs s q')
     \<and> filter (\<lambda>r. ra_sequencer (gs_recs s r) \<noteq> q) (gs_queued t) = filter (\<lambda>r. ra_sequencer (gs_recs s r) \<noteq> q) (gs_queued s)
     \<and> gs_recs t = gs_recs s \<and> gs_inflight_by_event t = gs_inflight_by_event s
     \<and> gs_control_inflight t = gs_control_inflight s \<and> gs_adapter_used t = gs_adapter_used s
     \<and> gs_epoch_key t = gs_epoch_key s \<and> gs_epoch_inflight t = gs_epoch_inflight s
     \<and> ts_faulted (gs_seqs t q) \<and> ts_submission_closed (gs_seqs t q)
     \<and> (v = Inr () \<longrightarrow> (\<forall>r \<in> set (gs_queued t). ra_sequencer (gs_recs t r) \<noteq> q))"
proof (cases "on_scheduler_fault ports q reason cycle s")
  case (Pair w u)
  note first = on_scheduler_fault_outside [OF Pair]
  show ?thesis
  proof (cases w)
    case (Inl e)
    with assms Pair first show ?thesis by (auto simp: fault_context_def and_then_def outside_def of_seq_def)
  next
    case (Inr x)
    with assms Pair have c: "cancel_context ports q cycle u = (v, t)" by (simp add: fault_context_def and_then_def)
    note second = cancel_context_outside [OF c]
    have "outside q s t" using first second outside_trans by blast
    with first second show ?thesis by (auto simp: outside_def of_seq_def filter_empty_conv)
  qed
qed

section \<open>The reset that is refused\<close>

text \<open>
  \<open>reset()\<close> drops the actions in flight before it checks that no control command is pending. A
  refused reset therefore leaves the adapter credits and the epoch reference taken by actions
  nobody tracks any more: their completions are ignored, and the credits never come back.
\<close>

lemma reset_refusal_leaks_credit:
  assumes "gs_control_inflight s \<noteq> []" "dd_get (gs_adapter_used s) ''prefetch'' = cf_prefetch_capacity (gs_config s)"
  shows "\<exists>t. gs_reset s = (Inl (RuntimeError ''scheduler reset before configuration control retirement''), t)
     \<and> gs_inflight_by_event t = [] \<and> (\<forall>a. ac_op a = DMA_PREFETCH \<longrightarrow> \<not> has_credit a (adapter_for a) t)
     \<and> (\<forall>q event. note_completion ports q event cycle status t = (Inr (), t))"
  using assms by (auto simp: gs_reset_def Let_def has_credit_def adapter_for_def adapter_capacity_def note_completion_def)

section \<open>A concrete run\<close>

text \<open>
  One active context whose program dispatches a role on data that has already arrived. The
  ports accept everything and keep no state.
\<close>

definition demo_ports :: "(unit, unit) group_ports" where
  "demo_ports =
     \<lparr>gp_crc32 = (\<lambda>_. 0), gp_note_dependencies = (\<lambda>_ _ _. ret ()), gp_submit_control = (\<lambda>_ _ _. ret True),
      gp_issue_gate_closed = (\<lambda>_ _. False), gp_control_status = (\<lambda>_ _. Inr ''completed''),
      gp_request_cancel = (\<lambda>_ _. ret ()), gp_note_await = (\<lambda>_ _ _ _. ret ()), gp_bind_l2_view = (\<lambda>_ _ _ _. ret ()),
      gp_bind_l2_import = (\<lambda>_ _ _. ret ()), gp_init_stream = (\<lambda>_ _ _ _. ret ()),
      gp_submit_transfer = (\<lambda>_ _ _ _ _ _. ret True), gp_dispatch_role = (\<lambda>_ _ _ _ _. ret issue_accepted),
      gp_schedule_collective = (\<lambda>_ _ _ _ _ _ e. e), gp_retire_context_arena = (\<lambda>_ _. ret True),
      gp_publish_l2 = (\<lambda>_ _ _. ret True), gp_release_l2 = (\<lambda>_ _ _. ret True),
      gp_note_l2_protocol_event = (\<lambda>_ _ _. ret ()), gp_context_cleanup_ready = (\<lambda>_ _. True)\<rparr>"

definition demo_dispatch :: exec_dispatch_request where
  "demo_dispatch = \<lparr>dq_role_id = 7, dq_dispatch_ordinal = 0,
     dq_signal_policy = \<lparr>sp_input_released = None, sp_output_ready = None\<rparr>, dq_input_released_event = '''',
     dq_output_ready_event = '''', dq_requested_l1_mode = 0, dq_resolved_l1_mode = 0, dq_binding_id = ''b''\<rparr>"

definition demo_action :: "group_action_op \<Rightarrow> unit group_arg list \<Rightarrow> string \<Rightarrow> string list \<Rightarrow> unit exec_group_action" where
  "demo_action op args dst deps = \<lparr>ac_op = op, ac_args = args, ac_dst = Some dst, ac_comment = '''',
     ac_dependencies = deps, ac_reads = [], ac_writes = [], ac_instruction_id = ''i''\<rparr>"

definition demo_task :: "unit exec_tile_group_task" where
  "demo_task = \<lparr>tk_name = ''t'',
     tk_actions = [demo_action DISPATCH_ROLE [ArgDispatch demo_dispatch] ''e1'' [''e0'']],
     tk_role_bindings = [(7, \<lparr>rb_role_id = 7, rb_program_id = 1, rb_program_version = 1, rb_program_hash = 1, rb_body = ()\<rparr>)],
     tk_completion_event = ''e1'', tk_binding_id = ''b'', tk_event_uses = [(''e0'', 1), (''e1'', 0)]\<rparr>"

definition demo_config :: group_scheduler_config where
  "demo_config = \<lparr>cf_policy = ''s0'', cf_active_context_capacity = 2, cf_context_pending_capacity = 2,
     cf_action_capacity = 4, cf_context_action_quota = 2, cf_scan_width = 2, cf_event_capacity = 4,
     cf_inflight_capacity = 2, cf_prefetch_capacity = 1, cf_store_capacity = 1, cf_dispatch_capacity = 1,
     cf_epoch_policy = ''same_program''\<rparr>"

definition demo_events :: event_table where
  "demo_events =
     \<lparr>et_capacity = 4,
      et_entries = [(''e0'', \<lparr>ev_name = ''e0'', ev_id = 0, ev_sequence = 0, ev_status = EV_DONE, ev_producer_id = 0,
        ev_timestamp = 0, ev_error_code = 0, ev_expected_sequence = 0, ev_owner = ''c@0'', ev_generation = 1,
        ev_producer_bound = True, ev_consumer_refs = 0, ev_future_uses = 1, ev_managed = True\<rparr>)],
      et_quotas = [((''c@0'', 1), \<lparr>qt_owner = ''c@0'', qt_generation = 1, qt_limit = 2,
        qt_event_uses = [(''e0'', 1), (''e1'', 0)], qt_declared_references = 1, qt_produced = {''e0''}\<rparr>)],
      et_next_id = 1, et_retired = [], et_peak_reserved = 2, et_peak_active = 1, et_stale_sequence = 0,
      et_wrong_owner = 0, et_duplicate_signal = 0, et_capacity_reject = 0, et_protocol_error = 0, et_version = 0\<rparr>"

definition demo_context :: "unit sequencer" where
  "demo_context = (launch_seq ''c'' 0 1 demo_task ts_new)\<lparr>ts_admission_status := ACTIVE\<rparr>"

definition demo_record :: "unit registered_action" where
  "demo_record = \<lparr>ra_sequencer = 0, ra_ordinal = 0, ra_action = demo_action BARRIER_GROUP [] '''' [],
     ra_registered_cycle = 0, ra_issue_cycle = 0\<rparr>"

definition demo_start :: "(unit, unit) group_scheduler" where
  "demo_start = gs_new demo_config demo_events (\<lambda>_. demo_context) demo_record (Some [(''b'', 2)]) (ring_new 4) (rd_new None) ()"

lemma demo_config_ok: "config_ok demo_config = Inr ()"
  by code_simp

lemma demo_idle: "ts_queued_actions ((\<lambda>_. demo_context) q) = []"
  by (simp add: demo_context_def launch_seq_def load_def clear_launch_state_def)

lemma demo_sched_legal: "legal_run gs_enabled (gs_exec demo_ports) [SchedStep [0] 1, SchedStep [0] 2] demo_start"
  "legal_run gs_enabled (gs_exec demo_ports) [SchedStep [0] 1] demo_start"
  by simp_all

lemma demo_registered:
  "gs_queued (run_ops (gs_exec demo_ports) [SchedStep [0] 1] demo_start) = [0]"
  by code_simp

lemma demo_flight:
  "gs_inflight_by_event (run_ops (gs_exec demo_ports) [SchedStep [0] 1, SchedStep [0] 2] demo_start) = [(''e1'', 0, ''dispatch'')]"
  by code_simp

lemma demo_issues:
  "fst (issue_one demo_ports 2 (run_ops (gs_exec demo_ports) [SchedStep [0] 1] demo_start)) = Inr True"
  by code_simp

lemma demo_faults:
  "fst (fault_context demo_ports 0 ''l1'' 2 (run_ops (gs_exec demo_ports) [SchedStep [0] 1] demo_start)) = Inr ()"
  by code_simp

text \<open>The dispatch is in flight after two cycles: one adapter credit and one epoch reference.\<close>

theorem sched_credits_exact_witness:
  "let s = run_ops (gs_exec demo_ports) [SchedStep [0] 1, SchedStep [0] 2] demo_start in
     dd_get (gs_adapter_used s) ''dispatch'' = 1 \<and> dd_get (gs_adapter_used s) ''prefetch'' = 0"
proof -
  note exact = conjunct1 [OF sched_credits_exact [OF demo_config_ok demo_idle demo_sched_legal(1) [unfolded demo_start_def],
    folded demo_start_def]]
  from exact show ?thesis
    by (simp only: demo_flight) (simp add: Let_def del: run_ops.simps gs_exec.simps)
qed

theorem sched_context_views_witness:
  "let s = run_ops (gs_exec demo_ports) [SchedStep [0] 1] demo_start in
     ts_queued_actions (gs_seqs s 0) = map (\<lambda>r. (ra_ordinal (gs_recs s r), r)) (filter (\<lambda>r. ra_sequencer (gs_recs s r) = 0) [0])"
  using sched_context_views [OF demo_config_ok demo_idle demo_sched_legal(2) [unfolded demo_start_def], of 0]
  unfolding demo_start_def [symmetric] demo_registered Let_def by blast

theorem issue_respects_dependencies_witness:
  "let s = run_ops (gs_exec demo_ports) [SchedStep [0] 1] demo_start in
     \<forall>event \<in> set (ac_dependencies (ra_action (gs_recs s 0))). \<exists>e.
       dict_get (et_entries (gs_event_table s)) event = Some e \<and> ev_producer_bound e \<and> ev_status e = EV_DONE"
  using issue_respects_dependencies [OF demo_config_ok demo_idle demo_sched_legal(2) [unfolded demo_start_def], of 2
      "snd (issue_one demo_ports 2 (run_ops (gs_exec demo_ports) [SchedStep [0] 1] demo_start))"] demo_issues
  unfolding demo_start_def [symmetric] demo_registered Let_def by (auto simp: prod_eq_iff simp del: run_ops.simps gs_exec.simps)

theorem fault_stays_in_context_witness:
  "let s = run_ops (gs_exec demo_ports) [SchedStep [0] 1] demo_start; t = snd (fault_context demo_ports 0 ''l1'' 2 s) in
     gs_seqs t 1 = gs_seqs s 1 \<and> (\<forall>r \<in> set (gs_queued t). ra_sequencer (gs_recs t r) \<noteq> 0)"
proof -
  let ?s = "run_ops (gs_exec demo_ports) [SchedStep [0] 1] demo_start"
  have "fault_context demo_ports 0 ''l1'' 2 ?s = (Inr (), snd (fault_context demo_ports 0 ''l1'' 2 ?s))"
    using demo_faults by (simp only: prod_eq_iff fst_conv snd_conv)
  note iso = fault_stays_in_context [OF this]
  have "gs_seqs (snd (fault_context demo_ports 0 ''l1'' 2 ?s)) 1 = gs_seqs ?s 1"
    using conjunct1 [OF iso, THEN spec, of 1] by (simp only: one_neq_zero simp_thms)
  then show ?thesis using iso unfolding Let_def by blast
qed

end
