(* ===== verification/Py_Value.thy ===== *)
theory Py_Value
  imports Elenor_Prelude Complex_Main "HOL-Library.Char_ord" "HOL-Library.List_Lexorder"
begin

text \<open>
  Dynamically typed values, as the executable package of the compiler carries them, with the
  generic operations of \<open>src/pipeline_validator/immutable.py\<close> and the scalar checks of
  \<open>src/pipeline_validator/compiled_program.py\<close> and \<open>src/pipeline_validator/profiles.py\<close>.
  A data class instance is its class name with its fields in declaration order, an enum member
  its class and value. A finite float is its rational value, so the sign of zero is not kept.
  Sets do not occur in the package and are left out.
\<close>

section \<open>Values\<close>

datatype py_float = Finite rat | NonFinite

datatype pyval =
    PNone
  | PBool bool
  | PInt int
  | PFloat py_float
  | PStr string
  | PTuple "pyval list"
  | PList "pyval list"
  | PMap "(pyval \<times> pyval) list"
  | PDict "(pyval \<times> pyval) list"
  | PEnum string string
  | PObj string "(string \<times> pyval) list"

text \<open>Class of an instance, attribute access and the parts of a value.\<close>

definition class_of :: "pyval \<Rightarrow> string" where
  "class_of v = (case v of PObj c _ \<Rightarrow> c | _ \<Rightarrow> '''')"

definition attr :: "string \<Rightarrow> pyval \<Rightarrow> pyval" where
  "attr n v = (case v of
     PObj _ fs \<Rightarrow> (case dict_get fs n of Some x \<Rightarrow> x | None \<Rightarrow> PNone) | _ \<Rightarrow> PNone)"

definition items :: "pyval \<Rightarrow> pyval list" where
  "items v = (case v of PTuple xs \<Rightarrow> xs | PList xs \<Rightarrow> xs | _ \<Rightarrow> [])"

definition map_items :: "pyval \<Rightarrow> (pyval \<times> pyval) list" where
  "map_items v = (case v of PMap ps \<Rightarrow> ps | PDict ps \<Rightarrow> ps | _ \<Rightarrow> [])"

definition int_of :: "pyval \<Rightarrow> int" where
  "int_of v = (case v of PInt i \<Rightarrow> i | _ \<Rightarrow> 0)"

definition str_of :: "pyval \<Rightarrow> string" where
  "str_of v = (case v of PStr n \<Rightarrow> n | _ \<Rightarrow> '''')"

definition is_int :: "pyval \<Rightarrow> bool" where
  "is_int v = (case v of PInt _ \<Rightarrow> True | _ \<Rightarrow> False)"

definition is_str :: "pyval \<Rightarrow> bool" where
  "is_str v = (case v of PStr _ \<Rightarrow> True | _ \<Rightarrow> False)"

definition is_bool :: "pyval \<Rightarrow> bool" where
  "is_bool v = (case v of PBool _ \<Rightarrow> True | _ \<Rightarrow> False)"

definition is_seq :: "pyval \<Rightarrow> bool" where
  "is_seq v = (case v of PTuple _ \<Rightarrow> True | PList _ \<Rightarrow> True | _ \<Rightarrow> False)"

definition is_mapping :: "pyval \<Rightarrow> bool" where
  "is_mapping v = (case v of PMap _ \<Rightarrow> True | PDict _ \<Rightarrow> True | _ \<Rightarrow> False)"

definition is_frozen_map :: "pyval \<Rightarrow> bool" where
  "is_frozen_map v = (case v of PMap _ \<Rightarrow> True | _ \<Rightarrow> False)"

definition one_of :: "pyval \<Rightarrow> string list \<Rightarrow> bool" where
  "one_of v names \<longleftrightarrow> is_str v \<and> str_of v \<in> set names"

definition map_get :: "pyval \<Rightarrow> pyval \<Rightarrow> pyval option" where
  "map_get v k = dict_get (map_items v) k"

definition key_names :: "pyval \<Rightarrow> pyval set" where
  "key_names v = set (dict_keys (map_items v))"

lemmas value_simps = class_of_def attr_def items_def map_items_def int_of_def str_of_def is_int_def is_str_def
  is_bool_def is_seq_def is_mapping_def is_frozen_map_def one_of_def

text \<open>
  Hashing and equality. \<open>set(xs)\<close> raises for an unhashable element (a mapping, a list, or an
  instance that holds one) and identifies \<open>True\<close>, \<open>1\<close> and \<open>1.0\<close>.
\<close>

fun hashable :: "pyval \<Rightarrow> bool" where
  "hashable (PTuple xs) = (\<forall>x \<in> set xs. hashable x)"
| "hashable (PObj c fs) = (\<forall>(n, x) \<in> set fs. hashable x)"
| "hashable (PList xs) = False"
| "hashable (PMap ps) = False"
| "hashable (PDict ps) = False"
| "hashable _ = True"

fun py_key :: "pyval \<Rightarrow> pyval" where
  "py_key (PBool b) = PInt (if b then 1 else 0)"
| "py_key (PFloat (Finite q)) =
     (if snd (quotient_of q) = 1 then PInt (fst (quotient_of q)) else PFloat (Finite q))"
| "py_key (PTuple xs) = PTuple (map py_key xs)"
| "py_key (PObj c fs) = PObj c (map (\<lambda>(n, x). (n, py_key x)) fs)"
| "py_key v = v"

section \<open>Checks\<close>

text \<open>A check is the exception it raises, if any; a sequence of checks raises the first one.\<close>

type_synonym check = "py_error option"

fun checks :: "check list \<Rightarrow> check" where
  "checks [] = None"
| "checks (c # cs) = (case c of None \<Rightarrow> checks cs | Some e \<Rightarrow> Some e)"

definition require :: "bool \<Rightarrow> string \<Rightarrow> check" where
  "require b msg = (if b then None else Some (ValueError msg))"

definition for_each :: "('a \<Rightarrow> check) \<Rightarrow> 'a list \<Rightarrow> check" where
  "for_each f xs = checks (map f xs)"

lemma checks_None [simp]: "checks cs = None \<longleftrightarrow> (\<forall>c \<in> set cs. c = None)"
  by (induction cs) (auto split: option.splits)

declare checks.simps [simp del]

lemma require_None [simp]: "require b msg = None \<longleftrightarrow> b"
  by (simp add: require_def)

lemma for_each_None [simp]: "for_each f xs = None \<longleftrightarrow> (\<forall>x \<in> set xs. f x = None)"
  by (simp add: for_each_def)

lemma for_each_cong [fundef_cong]:
  "xs = ys \<Longrightarrow> (\<And>x. x \<in> set ys \<Longrightarrow> f x = g x) \<Longrightarrow> for_each f xs = for_each g ys"
  by (auto simp: for_each_def intro: arg_cong [of _ _ checks])

definition unique_check :: "pyval list \<Rightarrow> string \<Rightarrow> check" where
  "unique_check xs msg =
     (if \<forall>x \<in> set xs. hashable x then require (distinct (map py_key xs)) msg
      else Some (TypeError ''unhashable type''))"

definition uint64_max :: int where
  "uint64_max = 2 ^ 64 - 1"

definition is_space :: "char \<Rightarrow> bool" where
  "is_space c \<longleftrightarrow> (let n = of_char c :: nat in n = 32 \<or> (9 \<le> n \<and> n \<le> 13) \<or> (28 \<le> n \<and> n \<le> 31) \<or> n = 133 \<or> n = 160)"

definition is_blank :: "string \<Rightarrow> bool" where
  "is_blank n \<longleftrightarrow> list_all is_space n"

definition text_check :: "bool \<Rightarrow> pyval \<Rightarrow> check" where
  "text_check allow_empty v =
     require (is_str v \<and> (str_of v \<noteq> '''' \<or> allow_empty) \<and> (str_of v = '''' \<or> \<not> is_blank (str_of v)))
       (if allow_empty then ''must be a string'' else ''must be a nonempty string'')"

definition uint_check :: "bool \<Rightarrow> pyval \<Rightarrow> check" where
  "uint_check positive v =
     require (is_int v \<and> (if positive then 1 else 0) \<le> int_of v \<and> int_of v \<le> uint64_max)
       (if positive then ''must be a positive uint64'' else ''must be a uint64'')"

definition bounded_check :: "pyval \<Rightarrow> check" where
  "bounded_check v = require (is_int v \<and> - (2 ^ 63) \<le> int_of v \<and> int_of v \<le> uint64_max)
     ''must be an integer in the signed/uint64 codec range''"

definition signed_check :: "pyval \<Rightarrow> check" where
  "signed_check v = require (is_int v \<and> - (2 ^ 63) \<le> int_of v \<and> int_of v \<le> 2 ^ 63 - 1)
     ''must be a signed 64-bit integer''"

definition seq_check :: "pyval \<Rightarrow> check" where
  "seq_check v = require (is_seq v) ''must be a sequence''"

definition strings_check :: "bool \<Rightarrow> pyval \<Rightarrow> check" where
  "strings_check uniq v =
     checks [seq_check v,
             require (\<forall>x \<in> set (items v). is_str x \<and> \<not> is_blank (str_of x)) ''must contain strings'',
             (if uniq then unique_check (items v) ''must not contain duplicates'' else None)]"

definition optional_text :: "pyval \<Rightarrow> check" where
  "optional_text v = (if v = PNone then None else text_check False v)"

fun plain_check :: "pyval \<Rightarrow> check" where
  "plain_check PNone = None"
| "plain_check (PStr _) = None"
| "plain_check (PBool _) = None"
| "plain_check (PInt i) = bounded_check (PInt i)"
| "plain_check (PFloat f) = require (f \<noteq> NonFinite) ''must be finite''"
| "plain_check (PTuple xs) = for_each plain_check xs"
| "plain_check (PMap ps) =
     for_each (\<lambda>(k, x). checks [require (is_str k \<or> is_int k) ''has an invalid mapping key'',
                                (if is_int k then bounded_check k else None), plain_check x]) ps"
| "plain_check _ = Some (ValueError ''contains unsupported value'')"

fun literal_check :: "pyval \<Rightarrow> check" where
  "literal_check PNone = None"
| "literal_check (PStr _) = None"
| "literal_check (PBool _) = None"
| "literal_check (PInt i) = signed_check (PInt i)"
| "literal_check (PTuple xs) = for_each literal_check xs"
| "literal_check _ = Some (ValueError ''contains a non-literal'')"

definition is_hex64 :: "string \<Rightarrow> bool" where
  "is_hex64 n \<longleftrightarrow> length n = 64 \<and> list_all (\<lambda>c. c \<in> set ''0123456789abcdef'') n"

text \<open>The number a canonical digest denotes is zero exactly when all its digits are.\<close>

definition hex_zero :: "string \<Rightarrow> bool" where
  "hex_zero n \<longleftrightarrow> list_all (\<lambda>c. c = CHR ''0'') n"

definition digest_check :: "bool \<Rightarrow> pyval \<Rightarrow> check" where
  "digest_check allow_zero v =
     checks [require (is_str v \<and> is_hex64 (str_of v)) ''must be a canonical SHA-256 digest'',
             require (allow_zero \<or> \<not> hex_zero (str_of v)) ''must be nonzero'']"

definition hash_check :: "bool \<Rightarrow> pyval \<Rightarrow> check" where
  "hash_check allow_empty v =
     (if allow_empty \<and> v = PStr '''' then None
      else require (is_str v \<and> is_hex64 (str_of v) \<and> \<not> hex_zero (str_of v))
             ''must be a nonzero canonical SHA-256 digest'')"

definition shape_check :: "bool \<Rightarrow> pyval \<Rightarrow> check" where
  "shape_check may_be_empty v =
     checks [seq_check v,
             require ((may_be_empty \<or> items v \<noteq> []) \<and> (\<forall>x \<in> set (items v). is_int x \<and> 0 < int_of x \<and> int_of x \<le> uint64_max))
               ''must contain positive uint64 dimensions'']"

definition typed_tuple :: "string \<Rightarrow> bool \<Rightarrow> pyval \<Rightarrow> check" where
  "typed_tuple c nonempty v =
     checks [seq_check v,
             require ((\<not> nonempty \<or> items v \<noteq> []) \<and> (\<forall>x \<in> set (items v). class_of x = c)) ''must contain values of the class'']"

definition instance_check :: "string \<Rightarrow> pyval \<Rightarrow> string \<Rightarrow> check" where
  "instance_check c v msg = require (class_of v = c) msg"

section \<open>Canonical text and digests\<close>

text \<open>
  JSON trees and \<open>json.dumps(_, sort_keys=True, separators=(",", ":"))\<close>. The hash function, the
  shortest decimal text of a float and \<open>str\<close> of a key that is neither a string nor an integer
  are arguments.
\<close>

datatype json =
    JNull
  | JBool bool
  | JInt int
  | JFloat py_float
  | JStr string
  | JArr "json list"
  | JObj "(string \<times> json) list"

record py_env =
  pe_sha256 :: "string \<Rightarrow> string"
  pe_float_text :: "py_float \<Rightarrow> string"
  pe_str :: "pyval \<Rightarrow> string"

definition hex_digit :: "nat \<Rightarrow> char" where
  "hex_digit n = ''0123456789abcdef'' ! (n mod 16)"

definition json_char :: "char \<Rightarrow> string" where
  "json_char c =
     (let n = of_char c :: nat in
      if n = 34 then [CHR 0x5C, CHR 0x22] else if n = 92 then [CHR 0x5C, CHR 0x5C]
      else if n = 10 then [CHR 0x5C, CHR ''n''] else if n = 13 then [CHR 0x5C, CHR ''r'']
      else if n = 9 then [CHR 0x5C, CHR ''t''] else if n = 8 then [CHR 0x5C, CHR ''b'']
      else if n = 12 then [CHR 0x5C, CHR ''f'']
      else if 32 \<le> n \<and> n \<le> 126 then [c]
      else [CHR 0x5C, CHR ''u'', CHR ''0'', CHR ''0'', hex_digit (n div 16), hex_digit n])"

definition json_string :: "string \<Rightarrow> string" where
  "json_string n = [CHR 0x22] @ concat (map json_char n) @ [CHR 0x22]"

fun join :: "string \<Rightarrow> string list \<Rightarrow> string" where
  "join sep [] = ''''"
| "join sep [x] = x"
| "join sep (x # y # ys) = x @ sep @ join sep (y # ys)"

function dumps :: "(py_float \<Rightarrow> string) \<Rightarrow> json \<Rightarrow> string" where
  "dumps ft JNull = ''null''"
| "dumps ft (JBool b) = (if b then ''true'' else ''false'')"
| "dumps ft (JInt i) = show_int i"
| "dumps ft (JFloat f) = ft f"
| "dumps ft (JStr n) = json_string n"
| "dumps ft (JArr xs) = ''['' @ join '','' (map (dumps ft) xs) @ '']''"
| "dumps ft (JObj ps) =
     ''{'' @ join '','' (map (\<lambda>(k, x). json_string k @ '':'' @ dumps ft x) (sort_key fst ps)) @ ''}''"
  by pat_completeness auto

lemma json_pair_size: "(k, x) \<in> set ps \<Longrightarrow> size x < Suc (size_list (size_prod (\<lambda>_. 0) size) ps)"
  by (induction ps) auto

termination dumps
  by (relation "measure (\<lambda>(ft, j). size j)") (auto simp: json_pair_size less_Suc_eq_le size_list_estimation')

fun sequence :: "(py_error + 'a) list \<Rightarrow> py_error + 'a list" where
  "sequence [] = Inr []"
| "sequence (r # rs) =
     (case r of Inl e \<Rightarrow> Inl e
      | Inr x \<Rightarrow> (case sequence rs of Inl e \<Rightarrow> Inl e | Inr xs \<Rightarrow> Inr (x # xs)))"

definition traverse :: "('a \<Rightarrow> py_error + 'b) \<Rightarrow> 'a list \<Rightarrow> py_error + 'b list" where
  "traverse f xs = sequence (map f xs)"

lemma traverse_cong [fundef_cong]:
  "xs = ys \<Longrightarrow> (\<And>x. x \<in> set ys \<Longrightarrow> f x = g x) \<Longrightarrow> traverse f xs = traverse g ys"
  by (auto simp: traverse_def intro: arg_cong [of _ _ sequence])

lemma traverse_simps [simp]:
  "traverse f [] = Inr []"
  "traverse f (x # xs) =
     (case f x of Inl e \<Rightarrow> Inl e | Inr y \<Rightarrow> (case traverse f xs of Inl e \<Rightarrow> Inl e | Inr ys \<Rightarrow> Inr (y # ys)))"
  by (simp_all add: traverse_def split: sum.split)

lemma traverse_Inr: "traverse f xs = Inr ys \<longleftrightarrow> list_all2 (\<lambda>x y. f x = Inr y) xs ys"
proof (induction xs arbitrary: ys)
  case (Cons x xs)
  have "traverse f (x # xs) = Inr ys \<longleftrightarrow> (\<exists>y zs. ys = y # zs \<and> f x = Inr y \<and> traverse f xs = Inr zs)"
    by (auto split: sum.splits)
  then show ?case by (auto simp: Cons.IH list_all2_Cons1)
qed auto

definition key_text :: "py_env \<Rightarrow> pyval \<Rightarrow> string" where
  "key_text env k = (case k of PStr n \<Rightarrow> n | PInt i \<Rightarrow> show_int i | _ \<Rightarrow> pe_str env k)"

definition with_value :: "'k \<Rightarrow> py_error + 'v \<Rightarrow> py_error + 'k \<times> 'v" where
  "with_value k r = (case r of Inl e \<Rightarrow> Inl e | Inr x \<Rightarrow> Inr (k, x))"

definition on_result :: "('a \<Rightarrow> 'b) \<Rightarrow> py_error + 'a \<Rightarrow> py_error + 'b" where
  "on_result f r = (case r of Inl e \<Rightarrow> Inl e | Inr x \<Rightarrow> Inr (f x))"

definition dict_of :: "('k \<times> 'v) list \<Rightarrow> ('k, 'v) dict" where
  "dict_of ps = foldl (\<lambda>d (k, x). dict_set k x d) [] ps"

fun canonical_value :: "py_env \<Rightarrow> pyval \<Rightarrow> py_error + json" where
  "canonical_value env (PEnum c n) = Inr (JStr n)"
| "canonical_value env (PObj c fs) = on_result JObj (traverse (\<lambda>(n, x). with_value n (canonical_value env x)) fs)"
| "canonical_value env (PMap ps) =
     on_result (\<lambda>qs. JObj (dict_of qs)) (traverse (\<lambda>(k, x). with_value (key_text env k) (canonical_value env x)) ps)"
| "canonical_value env (PDict ps) =
     on_result (\<lambda>qs. JObj (dict_of qs)) (traverse (\<lambda>(k, x). with_value (key_text env k) (canonical_value env x)) ps)"
| "canonical_value env (PTuple xs) = on_result JArr (traverse (canonical_value env) xs)"
| "canonical_value env (PList xs) = on_result JArr (traverse (canonical_value env) xs)"
| "canonical_value env PNone = Inr JNull"
| "canonical_value env (PStr n) = Inr (JStr n)"
| "canonical_value env (PBool b) = Inr (JBool b)"
| "canonical_value env (PInt i) = Inr (JInt i)"
| "canonical_value env (PFloat f) =
     (if f = NonFinite then Inl (ValueError ''unsupported canonical value'') else Inr (JFloat f))"

definition canonical_json :: "py_env \<Rightarrow> pyval \<Rightarrow> py_error + string" where
  "canonical_json env v = on_result (dumps (pe_float_text env)) (canonical_value env v)"

definition digest :: "py_env \<Rightarrow> pyval \<Rightarrow> py_error + string" where
  "digest env v = on_result (pe_sha256 env) (canonical_json env v)"

text \<open>\<open>replace(obj, field=value)\<close> on the fields of an instance.\<close>

definition set_attr :: "string \<Rightarrow> pyval \<Rightarrow> pyval \<Rightarrow> pyval" where
  "set_attr n x v = (case v of PObj c fs \<Rightarrow> PObj c (dict_set n x fs) | _ \<Rightarrow> v)"

definition digest_matches :: "py_env \<Rightarrow> pyval \<Rightarrow> pyval \<Rightarrow> string \<Rightarrow> check" where
  "digest_matches env v expected msg =
     (case digest env v of Inl e \<Rightarrow> Some e | Inr d \<Rightarrow> require (expected = PStr d) msg)"

end
