(* ===== verification/Profiles.thy ===== *)
theory Profiles
  imports Py_Value
begin

text \<open>
  \<open>src/pipeline_validator/profiles.py\<close>: the layered SRAM profiles, the arena layouts, the control
  descriptors and the registry. The checks of a class are those of its \<open>__post_init__\<close>, on an
  instance whose fields are given; what a constructor normalises is in the table at the end.
  Messages keep their fixed fragment.
\<close>

section \<open>Memory targets and sources\<close>

definition caps_check :: "pyval \<Rightarrow> check" where
  "caps_check v = require (set (items v) \<subseteq> {PStr ''invalidate_range'', PStr ''clean_invalidate_all'', PStr ''bypass''})
     ''invalid maintenance capabilities''"

definition mapping_org_check :: "pyval \<Rightarrow> check" where
  "mapping_org_check v = require (attr ''spm_mapping_id'' v = PStr ''striped_arena_v0''
       \<and> attr ''cache_org_id'' v = PStr ''profiled_lru_v0'') ''unsupported SRAM mapping or cache organization''"

definition write_policy_check :: "pyval \<Rightarrow> check" where
  "write_policy_check v = require (one_of (attr ''cache_write_policy'' v) [''read_only'', ''write_back''])
     ''unsupported cache write policy''"

definition level_target_checks :: "pyval \<Rightarrow> check" where
  "level_target_checks v = checks
     [uint_check False (attr ''system_reserved_spm_per_bank'' v), uint_check False (attr ''reset_mode'' v),
      text_check False (attr ''spm_mapping_id'' v), text_check False (attr ''cache_org_id'' v),
      text_check False (attr ''cache_write_policy'' v), strings_check True (attr ''maintenance_caps'' v),
      mapping_org_check v, write_policy_check v, caps_check (attr ''maintenance_caps'' v)]"

definition target_config_checks :: "pyval \<Rightarrow> check" where
  "target_config_checks v = checks
     [require (class_of (attr ''l1'' v) = ''MemoryLevelTarget'' \<and> class_of (attr ''l2'' v) = ''MemoryLevelTarget'')
        ''memory target layers must be MemoryLevelTarget values'',
      uint_check True (attr ''profile_command_timeout_cycles'' v)]"

definition profile_bytes_checks :: "pyval \<Rightarrow> check" where
  "profile_bytes_checks v = checks
     [uint_check False (attr ''spm_bytes_per_bank'' v), uint_check False (attr ''cache_bytes_per_bank'' v)]"

definition level_source_checks :: "pyval \<Rightarrow> check" where
  "level_source_checks v = checks
     [require (is_mapping (attr ''modes'' v) \<and> map_items (attr ''modes'' v) \<noteq> []) ''profile modes cannot be empty'',
      for_each (\<lambda>(mode, x). checks [uint_check False mode,
          instance_check ''ProfileBytes'' x ''mode requires explicit SPM and Cache bytes'']) (map_items (attr ''modes'' v))]"

definition source_config_checks :: "pyval \<Rightarrow> check" where
  "source_config_checks v = checks
     [require (attr ''kind'' v = PStr ''simulator_experiment'') ''unsupported profile source kind'',
      uint_check True (attr ''partition_granule_bytes'' v),
      require (class_of (attr ''l1'' v) = ''ProfileLevelSource'' \<and> class_of (attr ''l2'' v) = ''ProfileLevelSource'')
        ''profile source layers must be ProfileLevelSource values'']"

section \<open>Profiles and the registry\<close>

definition iattr :: "string \<Rightarrow> pyval \<Rightarrow> int" where
  "iattr n v = int_of (attr n v)"

definition user_spm_per_bank :: "pyval \<Rightarrow> int" where
  "user_spm_per_bank v = iattr ''spm_bytes_per_bank'' v - iattr ''system_reserved_spm_per_bank'' v"

definition user_spm_bytes :: "pyval \<Rightarrow> int" where
  "user_spm_bytes v = iattr ''banks'' v * user_spm_per_bank v"

definition cache_bytes :: "pyval \<Rightarrow> int" where
  "cache_bytes v = iattr ''banks'' v * iattr ''cache_bytes_per_bank'' v"

definition member_ids :: "pyval \<Rightarrow> pyval" where
  "member_ids v = PTuple (concat (map (\<lambda>pool. map (\<lambda>bank. PTuple [attr ''level'' v, PInt pool, PInt bank])
     [0 .. iattr ''banks'' v - 1]) [0 .. iattr ''pools'' v - 1]))"

definition memory_profile_checks :: "pyval \<Rightarrow> check" where
  "memory_profile_checks v =
     (let spm = iattr ''spm_bytes_per_bank'' v; cache = iattr ''cache_bytes_per_bank'' v;
          reserved = iattr ''system_reserved_spm_per_bank'' v; banks = iattr ''banks'' v; pools = iattr ''pools'' v;
          bank_bytes = iattr ''bank_bytes'' v; alignment = iattr ''alignment'' v
      in checks
     [require (one_of (attr ''level'' v) [''l1'', ''l2'']) ''profile level must be l1 or l2'',
      uint_check False (attr ''mode'' v), uint_check True (attr ''bank_bytes'' v), uint_check True (attr ''banks'' v),
      uint_check True (attr ''pools'' v), uint_check False (attr ''spm_bytes_per_bank'' v),
      uint_check False (attr ''cache_bytes_per_bank'' v), uint_check False (attr ''system_reserved_spm_per_bank'' v),
      uint_check True (attr ''alignment'' v), text_check False (attr ''spm_mapping_id'' v),
      text_check False (attr ''cache_org_id'' v), text_check False (attr ''cache_write_policy'' v),
      strings_check True (attr ''maintenance_caps'' v),
      require (spm + cache = bank_bytes) ''profile SPM and Cache bytes do not conserve bank capacity'',
      require (reserved \<le> spm) ''profile system reservation exceeds SPM'',
      require (spm mod alignment = 0 \<and> cache mod alignment = 0 \<and> reserved mod alignment = 0)
        ''profile bytes are not aligned'',
      require (banks * pools \<le> uint64_max \<and> banks * bank_bytes \<le> uint64_max \<and> banks * pools * bank_bytes \<le> uint64_max
          \<and> banks * user_spm_per_bank v \<le> uint64_max \<and> banks * cache \<le> uint64_max)
        ''profile geometry or aggregate bytes overflow uint64'',
      mapping_org_check v, write_policy_check v, caps_check (attr ''maintenance_caps'' v)])"

definition agrees_with_target :: "pyval \<Rightarrow> pyval \<Rightarrow> bool" where
  "agrees_with_target profile target \<longleftrightarrow>
     (\<forall>n \<in> {''system_reserved_spm_per_bank'', ''spm_mapping_id'', ''cache_org_id'', ''cache_write_policy'', ''maintenance_caps''}.
        attr n profile = attr n target)"

definition geometry_of :: "pyval \<Rightarrow> int \<times> int \<times> int \<times> int" where
  "geometry_of p = (iattr ''bank_bytes'' p, iattr ''banks'' p, iattr ''pools'' p, iattr ''alignment'' p)"

definition split_of :: "pyval \<Rightarrow> int \<times> int" where
  "split_of p = (iattr ''spm_bytes_per_bank'' p, iattr ''cache_bytes_per_bank'' p)"

fun profile_table_checks ::
  "string \<Rightarrow> pyval \<Rightarrow> (pyval \<times> pyval) list \<Rightarrow> (int \<times> int \<times> int \<times> int) option \<Rightarrow> (int \<times> int) list \<Rightarrow> check" where
  "profile_table_checks level target [] geometry effective = None"
| "profile_table_checks level target ((mode, p) # rest) geometry effective =
     (case checks
        [uint_check False mode,
         require (class_of p = ''MemoryProfile'' \<and> attr ''level'' p = PStr level \<and> attr ''mode'' p = mode)
           ''Registry profile identity mismatch'',
         require (agrees_with_target p target) ''Registry profile disagrees with its target'',
         require (geometry = None \<or> geometry = Some (geometry_of p)) ''Registry modes disagree on geometry'',
         require (split_of p \<notin> set effective) ''Registry contains duplicate effective profiles''] of
        Some e \<Rightarrow> Some e
      | None \<Rightarrow> profile_table_checks level target rest (Some (geometry_of p)) (split_of p # effective))"

definition registry_level_checks :: "string \<Rightarrow> pyval \<Rightarrow> check" where
  "registry_level_checks level v =
     (let table = attr level v; target = attr level (attr ''target'' v) in checks
     [require (map_items table \<noteq> []) ''Registry profile table cannot be empty'',
      profile_table_checks level target (map_items table) None [],
      require (map_get table (attr ''reset_mode'' target) \<noteq> None) ''Registry reset mode is absent''])"

definition registry_checks :: "py_env \<Rightarrow> pyval \<Rightarrow> check" where
  "registry_checks env v = checks
     [require (is_mapping (attr ''l1'' v) \<and> is_mapping (attr ''l2'' v)) ''Registry profile tables must be mappings'',
      require (class_of (attr ''target'' v) = ''MemoryTargetConfig'' \<and> attr ''abi'' v = PStr ''v0'')
        ''invalid Registry target or ABI'',
      registry_level_checks ''l1'' v, registry_level_checks ''l2'' v,
      hash_check True (attr ''registry_hash'' v),
      (if attr ''registry_hash'' v = PStr '''' then None
       else digest_matches env (set_attr ''registry_hash'' (PStr '''') v) (attr ''registry_hash'' v)
              ''registry_hash does not match Registry contents'')]"

definition registry_profile :: "string \<Rightarrow> pyval \<Rightarrow> pyval \<Rightarrow> py_error + pyval" where
  "registry_profile level mode v =
     (if level \<notin> {''l1'', ''l2''} then Inl (ValueError ''unknown memory level'')
      else case map_get (attr level v) mode of
             None \<Rightarrow> Inl (ValueError ''unknown profile mode'') | Some p \<Rightarrow> Inr p)"

section \<open>Resources and layouts\<close>

definition cache_requirement_checks :: "pyval \<Rightarrow> check" where
  "cache_requirement_checks v = checks
     [require (is_bool (attr ''required'' v) \<and> one_of (attr ''access'' v) [''none'', ''read'', ''read_write''])
        ''invalid cache requirement'',
      require (one_of (attr ''bypass'' v) [''allowed'', ''forbidden'']) ''invalid bypass requirement'',
      uint_check False (attr ''target_bytes'' v),
      require (\<not> (attr ''required'' v = PBool True \<and> attr ''access'' v = PStr ''none''))
        ''required cache cannot declare access=none'']"

definition cache_or_none :: "pyval \<Rightarrow> check" where
  "cache_or_none v = require (v = PNone \<or> class_of v = ''CacheRequirement'') ''must be CacheRequirement or None''"

definition validate_allowed :: "pyval \<Rightarrow> pyval option \<Rightarrow> check" where
  "validate_allowed values baseline = checks
     [seq_check values,
      (if items values = [] then Some (ValueError ''allowed_profiles must be nonempty and unique'')
       else unique_check (items values) ''allowed_profiles must be nonempty and unique''),
      for_each (uint_check False) (items values),
      (case baseline of
         None \<Rightarrow> None
       | Some b \<Rightarrow> checks [uint_check False b,
                          require (b \<in> set (items values)) ''requested mode must belong to allowed_profiles''])]"

definition context_resources_checks :: "pyval \<Rightarrow> check" where
  "context_resources_checks v = checks
     [uint_check False (attr ''l2_mode'' v), validate_allowed (attr ''allowed_profiles'' v) (Some (attr ''l2_mode'' v)),
      uint_check False (attr ''logical_tasks'' v), uint_check False (attr ''l2_spm_bytes'' v),
      uint_check True (attr ''requested_contexts_per_tile'' v), cache_or_none (attr ''l2_cache'' v)]"

definition tile_resources_checks :: "pyval \<Rightarrow> check" where
  "tile_resources_checks v = checks
     [validate_allowed (attr ''allowed_profiles'' v) None, uint_check False (attr ''tile_l1_spm_bytes_per_context'' v),
      cache_or_none (attr ''l1_cache'' v), cache_or_none (attr ''l2_cache'' v)]"

definition buffer_layout_checks :: "pyval \<Rightarrow> check" where
  "buffer_layout_checks v = checks
     [text_check False (attr ''buffer_id'' v), uint_check True (attr ''logical_bytes'' v),
      uint_check False (attr ''slot_id'' v), uint_check False (attr ''arena_offset'' v),
      uint_check True (attr ''stripe_bytes'' v), uint_check True (attr ''banks'' v),
      require (one_of (attr ''role'' v) ['''', ''in'', ''out'', ''inout'']) ''invalid buffer role'',
      require (iattr ''stripe_bytes'' v * iattr ''banks'' v \<le> uint64_max
          \<and> iattr ''arena_offset'' v mod (iattr ''stripe_bytes'' v * iattr ''banks'' v) = 0)
        ''buffer arena offset is not a whole stripe round'']"

text \<open>
  The stripes of a buffer: bank, offset in the bank, size. The constructor makes the byte count
  and the stripe positive; otherwise the loop is not entered here.
\<close>

function segments_from :: "int \<Rightarrow> int \<Rightarrow> int \<Rightarrow> int \<Rightarrow> int \<Rightarrow> (int \<times> int \<times> int) list" where
  "segments_from remaining chunk arena_offset stripe banks =
     (if remaining \<le> 0 \<or> stripe \<le> 0 then []
      else (chunk mod banks, arena_offset div banks + (chunk div banks) * stripe, min remaining stripe)
             # segments_from (remaining - min remaining stripe) (chunk + 1) arena_offset stripe banks)"
  by pat_completeness auto

termination segments_from
  by (relation "measure (\<lambda>(remaining, _). nat remaining)") auto

definition buffer_segments :: "pyval \<Rightarrow> (int \<times> int \<times> int) list" where
  "buffer_segments v = segments_from (iattr ''logical_bytes'' v) 0 (iattr ''arena_offset'' v)
     (iattr ''stripe_bytes'' v) (iattr ''banks'' v)"

definition chunk_count :: "int \<Rightarrow> int \<Rightarrow> int" where
  "chunk_count logical stripe = (logical + stripe - 1) div stripe"

definition bank_end :: "int \<Rightarrow> int \<Rightarrow> int \<Rightarrow> int \<Rightarrow> int \<Rightarrow> int" where
  "bank_end logical offset stripe banks bank =
     (let chunks = chunk_count logical stripe; base = offset div banks;
          bank_chunks = (chunks - 1 - bank) div banks + 1;
          last_chunk = bank + (bank_chunks - 1) * banks;
          last_size = (if last_chunk = chunks - 1 then logical - (chunks - 1) * stripe else stripe)
      in base + (bank_chunks - 1) * stripe + last_size)"

definition buffer_fits :: "pyval \<Rightarrow> pyval list \<Rightarrow> bool" where
  "buffer_fits b per_bank \<longleftrightarrow>
     (\<forall>bank \<in> set [0 .. min (iattr ''banks'' b) (chunk_count (iattr ''logical_bytes'' b) (iattr ''stripe_bytes'' b)) - 1].
        bank_end (iattr ''logical_bytes'' b) (iattr ''arena_offset'' b) (iattr ''stripe_bytes'' b) (iattr ''banks'' b) bank
          \<le> int_of (per_bank ! nat bank))"

definition layout_item_checks :: "pyval \<Rightarrow> pyval \<Rightarrow> check" where
  "layout_item_checks v b =
     (let per_bank = items (attr ''per_bank_bytes'' v) in checks
     [require (attr ''banks'' b = PInt (int (length per_bank)) \<and> attr ''stripe_bytes'' b = attr ''stripe_bytes'' v)
        ''Arena buffer striping disagrees with its bank geometry'',
      require (iattr ''arena_offset'' b mod iattr ''alignment'' v = 0) ''Arena buffer offset is misaligned'',
      require (buffer_fits b per_bank) ''Arena buffer segment escapes its reservation''])"

definition arena_layout_checks :: "py_env \<Rightarrow> pyval \<Rightarrow> check" where
  "arena_layout_checks env v =
     (let per_bank = items (attr ''per_bank_bytes'' v); layouts = items (attr ''buffer_layouts'' v);
          stripe = iattr ''stripe_bytes'' v; reserved = iattr ''reserved_bytes'' v;
          total = sum_list (map int_of per_bank); round_bytes = stripe * int (length per_bank)
      in checks
     [uint_check True (attr ''alignment'' v), uint_check True (attr ''stripe_bytes'' v),
      uint_check False (attr ''reserved_bytes'' v), seq_check (attr ''per_bank_bytes'' v),
      seq_check (attr ''buffer_layouts'' v),
      require (per_bank \<noteq> []) ''Arena must describe at least one bank'',
      for_each (uint_check False) per_bank,
      require (\<forall>b \<in> set layouts. class_of b = ''BufferLayout'') ''Arena buffer_layouts must contain BufferLayout values'',
      require (distinct (map (attr ''buffer_id'') layouts)) ''Arena buffer_layouts contain duplicate buffer IDs'',
      require (stripe mod iattr ''alignment'' v = 0) ''Arena stripe_bytes must be aligned'',
      require (total = reserved \<and> total \<le> uint64_max) ''Arena per-bank bytes do not conserve reserved_bytes'',
      require (round_bytes \<le> uint64_max) ''Arena stripe round overflows uint64'',
      require (card (set (map int_of per_bank)) = 1 \<and> (\<forall>x \<in> set per_bank. int_of x mod stripe = 0))
        ''Arena banks must have equal whole-stripe reservations'',
      require (reserved mod round_bytes = 0) ''Arena reservation is not a whole stripe round'',
      for_each (layout_item_checks v) layouts,
      hash_check True (attr ''layout_hash'' v),
      (if attr ''layout_hash'' v = PStr '''' then None
       else digest_matches env (set_attr ''layout_hash'' (PStr '''') v) (attr ''layout_hash'' v)
              ''layout_hash does not match Arena layout'')])"

section \<open>Control descriptors\<close>

definition source_ref_checks :: "pyval \<Rightarrow> check" where
  "source_ref_checks v = checks
     [text_check False (attr ''source_name'' v), text_check False (attr ''symbol'' v),
      uint_check False (attr ''body_op_index'' v), text_check False (attr ''op_name'' v),
      text_check True (attr ''generated_by'' v), text_check True (attr ''reason'' v),
      require (attr ''generated_by'' v = PStr '''' \<or> attr ''reason'' v \<noteq> PStr '''') ''generated source_ref requires a reason'']"

definition profile_state_checks :: "pyval \<Rightarrow> check" where
  "profile_state_checks v = checks [uint_check False (attr ''l1_mode'' v), uint_check False (attr ''l2_mode'' v)]"

definition profile_steps :: "pyval list" where
  "profile_steps = map PStr [''ACQUIRE'', ''CHECK_FRONTIER'', ''CLOSE_ISSUE'', ''DRAIN_REFERENCES'', ''CLEAN_INVALIDATE'',
     ''DRAIN_DOWNSTREAM'', ''PREPARE'', ''WAIT_READY_ACK'', ''COMMIT'', ''WAIT_COMMIT_ACK'', ''OPEN_ISSUE'', ''RELEASE'']"

definition maintenance_steps :: "pyval list" where
  "maintenance_steps = map PStr [''ACQUIRE'', ''WAIT_DEPENDENCIES'', ''BLOCK_RANGE_ISSUE'', ''DRAIN_RANGE_REFERENCES'',
     ''CLEAN_INVALIDATE'', ''DRAIN_DOWNSTREAM'', ''ACK'', ''UNBLOCK_RANGE_ISSUE'', ''RELEASE'']"

definition member_check :: "pyval \<Rightarrow> pyval \<Rightarrow> check" where
  "member_check level m = checks
     [seq_check m, require (length (items m) = 3 \<and> items m ! 0 = level) ''invalid profile member_id'',
      uint_check False (items m ! 1), uint_check False (items m ! 2)]"

definition reconfig_checks :: "pyval \<Rightarrow> check" where
  "reconfig_checks v = checks
     [text_check False (attr ''command_id'' v),
      require (one_of (attr ''level'' v) [''l1'', ''l2'']) ''profile command level must be l1 or l2'',
      uint_check False (attr ''expected_mode'' v), uint_check False (attr ''target_mode'' v),
      hash_check False (attr ''registry_hash'' v), strings_check True (attr ''wait_instruction_ids'' v),
      strings_check True (attr ''frontier'' v), strings_check True (attr ''affected_domains'' v),
      seq_check (attr ''member_ids'' v), strings_check False (attr ''steps'' v),
      require (items (attr ''affected_domains'' v) = [attr ''level'' v] \<and> items (attr ''steps'' v) = profile_steps)
        ''profile command has invalid domains or steps'',
      for_each (member_check (attr ''level'' v)) (items (attr ''member_ids'' v)),
      require (items (attr ''member_ids'' v) \<noteq> [] \<and> distinct (map items (items (attr ''member_ids'' v))))
        ''profile member_ids must be nonempty and unique'',
      text_check True (attr ''exclusive_binding_id'' v),
      instance_check ''SourceRef'' (attr ''source_ref'' v) ''profile command requires SourceRef'']"

definition maintenance_range_checks :: "pyval \<Rightarrow> check" where
  "maintenance_range_checks v = checks
     [uint_check False (attr ''input_index'' v), uint_check False (attr ''offset'' v), uint_check True (attr ''bytes'' v),
      require (iattr ''offset'' v + iattr ''bytes'' v \<le> uint64_max) ''maintenance range overflows uint64'',
      strings_check True (attr ''levels'' v),
      require (items (attr ''levels'' v) \<noteq> [] \<and> set (items (attr ''levels'' v)) \<subseteq> {PStr ''l1'', PStr ''l2''})
        ''invalid maintenance range levels'']"

definition maintenance_checks :: "pyval \<Rightarrow> check" where
  "maintenance_checks v =
     (let levels = items (attr ''levels'' v); ranges = items (attr ''ranges'' v) in checks
     [text_check False (attr ''command_id'' v), strings_check True (attr ''levels'' v), seq_check (attr ''ranges'' v),
      strings_check True (attr ''dependencies'' v), strings_check False (attr ''steps'' v),
      require (levels \<noteq> [] \<and> set levels \<subseteq> {PStr ''l1'', PStr ''l2''}) ''invalid maintenance levels'',
      require (ranges \<noteq> [] \<and> (\<forall>r \<in> set ranges. class_of r = ''MaintenanceRange''))
        ''maintenance ranges must contain MaintenanceRange values'',
      require (\<forall>r \<in> set ranges. set (items (attr ''levels'' r)) \<subseteq> set levels) ''maintenance range levels exceed command levels'',
      require (items (attr ''steps'' v) = maintenance_steps) ''maintenance command has invalid steps'',
      instance_check ''SourceRef'' (attr ''source_ref'' v) ''maintenance command requires SourceRef''])"

definition call_binding_checks :: "pyval \<Rightarrow> check" where
  "call_binding_checks v = checks
     [text_check False (attr ''binding_id'' v), text_check False (attr ''context_name'' v),
      uint_check False (attr ''requested_l2_mode'' v), uint_check False (attr ''resolved_l2_mode'' v),
      uint_check False (attr ''entry_l1_mode'' v), uint_check False (attr ''exit_l1_mode'' v),
      require (is_bool (attr ''requires_l1_exclusive'' v)) ''call requires_l1_exclusive must be bool'',
      seq_check (attr ''actual_inputs'' v), seq_check (attr ''permitted_profiles'' v),
      for_each (uint_check False) (items (attr ''actual_inputs'' v)),
      require (items (attr ''permitted_profiles'' v) \<noteq> []
          \<and> (\<forall>p \<in> set (items (attr ''permitted_profiles'' v)). class_of p = ''ProfileState''))
        ''call permitted_profiles must contain ProfileState values'',
      unique_check (items (attr ''permitted_profiles'' v)) ''call permitted_profiles contain duplicates'']"

definition resource_budget_checks :: "pyval \<Rightarrow> check" where
  "resource_budget_checks v = checks
     [uint_check False (attr ''max_live_grids'' v), uint_check False (attr ''event_frontier'' v),
      uint_check False (attr ''frame_slots'' v),
      require (is_mapping (attr ''engine_requirements'' v)) ''engine_requirements must be a mapping'',
      for_each (\<lambda>(n, x). checks [text_check False n, uint_check False x]) (map_items (attr ''engine_requirements'' v))]"

section \<open>Construction\<close>

text \<open>
  \<open>freeze\<close> of \<open>immutable.py\<close>. Replacing the fields of an instance runs its constructor again, so
  the checks of the classes are an argument. Every class of the package is frozen.
\<close>

definition pair_result :: "py_error + 'a \<Rightarrow> py_error + 'b \<Rightarrow> py_error + 'a \<times> 'b" where
  "pair_result r q = (case r of Inl e \<Rightarrow> Inl e | Inr x \<Rightarrow> with_value x q)"

fun freeze :: "(pyval \<Rightarrow> check) \<Rightarrow> pyval \<Rightarrow> py_error + pyval" where
  "freeze init (PDict ps) =
     on_result (\<lambda>qs. PMap (dict_of qs)) (traverse (\<lambda>(k, x). pair_result (freeze init k) (freeze init x)) ps)"
| "freeze init (PTuple xs) = on_result PTuple (traverse (freeze init) xs)"
| "freeze init (PList xs) = on_result PTuple (traverse (freeze init) xs)"
| "freeze init (PObj c fs) =
     (case traverse (\<lambda>(n, x). with_value n (freeze init x)) fs of
        Inl e \<Rightarrow> Inl e
      | Inr fs' \<Rightarrow>
          if fs' = fs then Inr (PObj c fs)
          else (case init (PObj c fs') of Some e \<Rightarrow> Inl e | None \<Rightarrow> Inr (PObj c fs')))"
| "freeze init v = Inr v"

definition to_tuple :: "pyval \<Rightarrow> pyval" where
  "to_tuple v = (case v of PList xs \<Rightarrow> PTuple xs | _ \<Rightarrow> v)"

definition tuple_fields :: "(string \<times> string list) list" where
  "tuple_fields =
     [(''MemoryLevelTarget'', [''maintenance_caps'']), (''MemoryProfile'', [''maintenance_caps'']),
      (''ContextResources'', [''allowed_profiles'']), (''TileResources'', [''allowed_profiles'']),
      (''ArenaLayout'', [''per_bank_bytes'', ''buffer_layouts'']),
      (''ProfileReconfigDesc'', [''wait_instruction_ids'', ''frontier'', ''affected_domains'', ''member_ids'', ''steps'']),
      (''MaintenanceRange'', [''levels'']),
      (''MemoryMaintenanceDesc'', [''levels'', ''ranges'', ''dependencies'', ''steps'']),
      (''CallBinding'', [''actual_inputs'', ''permitted_profiles''])]"

definition map_fields :: "(string \<times> string list) list" where
  "map_fields = [(''ProfileLevelSource'', [''modes'']), (''ProfileRegistry'', [''l1'', ''l2'']),
     (''ResourceBudget'', [''engine_requirements'']), (''WorkloadInfo'', [''expected''])]"

definition fields_in :: "(string \<times> string list) list \<Rightarrow> string \<Rightarrow> string list" where
  "fields_in table c = (case dict_get table c of Some ns \<Rightarrow> ns | None \<Rightarrow> [])"

definition tuple_field :: "string \<Rightarrow> string \<Rightarrow> pyval \<Rightarrow> pyval" where
  "tuple_field c n x =
     (if c = ''ProfileReconfigDesc'' \<and> n = ''member_ids'' then PTuple (map to_tuple (items x)) else to_tuple x)"

definition normal_field :: "(pyval \<Rightarrow> check) \<Rightarrow> string \<Rightarrow> string \<times> pyval \<Rightarrow> py_error + string \<times> pyval" where
  "normal_field init c = (\<lambda>(n, x).
     if n \<in> set (fields_in tuple_fields c) then Inr (n, tuple_field c n x)
     else if n \<in> set (fields_in map_fields c) then with_value n (freeze init x) else Inr (n, x))"

definition profile_checks :: "py_env \<Rightarrow> pyval \<Rightarrow> check" where
  "profile_checks env v =
     (let c = class_of v in
      if c = ''MemoryLevelTarget'' then level_target_checks v
      else if c = ''MemoryTargetConfig'' then target_config_checks v
      else if c = ''ProfileBytes'' then profile_bytes_checks v
      else if c = ''ProfileLevelSource'' then level_source_checks v
      else if c = ''ProfileSourceConfig'' then source_config_checks v
      else if c = ''MemoryProfile'' then memory_profile_checks v
      else if c = ''ProfileRegistry'' then registry_checks env v
      else if c = ''CacheRequirement'' then cache_requirement_checks v
      else if c = ''ContextResources'' then context_resources_checks v
      else if c = ''TileResources'' then tile_resources_checks v
      else if c = ''BufferLayout'' then buffer_layout_checks v
      else if c = ''ArenaLayout'' then arena_layout_checks env v
      else if c = ''SourceRef'' then source_ref_checks v
      else if c = ''ProfileState'' then profile_state_checks v
      else if c = ''ProfileReconfigDesc'' then reconfig_checks v
      else if c = ''MaintenanceRange'' then maintenance_range_checks v
      else if c = ''MemoryMaintenanceDesc'' then maintenance_checks v
      else if c = ''CallBinding'' then call_binding_checks v
      else if c = ''ResourceBudget'' then resource_budget_checks v
      else None)"

definition make_profile :: "py_env \<Rightarrow> string \<Rightarrow> (string \<times> pyval) list \<Rightarrow> py_error + pyval" where
  "make_profile env c fs =
     (case profile_checks env (PObj c fs) of
        Some e \<Rightarrow> Inl e
      | None \<Rightarrow> on_result (PObj c) (traverse (normal_field (profile_checks env) c) fs))"

section \<open>Building the registry\<close>

record hardware_config =
  hw_memory_target :: pyval
  hw_profile_source :: pyval
  hw_cache_line_bytes :: int
  hw_tile_l1_bytes :: int
  hw_tile_l1_banks :: int
  hw_num_tiles :: int
  hw_group_sram_bytes :: int
  hw_group_sram_banks :: int

definition quantum_of :: "hardware_config \<Rightarrow> int" where
  "quantum_of hw = lcm (iattr ''partition_granule_bytes'' (hw_profile_source hw)) (hw_cache_line_bytes hw)"

definition level_geometry :: "hardware_config \<Rightarrow> string \<Rightarrow> int \<times> int \<times> int" where
  "level_geometry hw level =
     (if level = ''l1'' then (hw_tile_l1_bytes hw, hw_tile_l1_banks hw, hw_num_tiles hw)
      else (hw_group_sram_bytes hw, hw_group_sram_banks hw, 1))"

definition profile_fields :: "string \<Rightarrow> pyval \<Rightarrow> int \<Rightarrow> int \<Rightarrow> int \<Rightarrow> pyval \<Rightarrow> int \<Rightarrow> pyval \<Rightarrow> (string \<times> pyval) list" where
  "profile_fields level mode bank_bytes banks pools x quantum spec =
     [(''level'', PStr level), (''mode'', mode), (''bank_bytes'', PInt bank_bytes), (''banks'', PInt banks),
      (''pools'', PInt pools), (''spm_bytes_per_bank'', attr ''spm_bytes_per_bank'' x),
      (''cache_bytes_per_bank'', attr ''cache_bytes_per_bank'' x),
      (''system_reserved_spm_per_bank'', attr ''system_reserved_spm_per_bank'' spec), (''alignment'', PInt quantum),
      (''spm_mapping_id'', attr ''spm_mapping_id'' spec), (''cache_org_id'', attr ''cache_org_id'' spec),
      (''cache_write_policy'', attr ''cache_write_policy'' spec), (''maintenance_caps'', attr ''maintenance_caps'' spec)]"

definition build_mode ::
  "py_env \<Rightarrow> string \<Rightarrow> int \<Rightarrow> int \<Rightarrow> int \<Rightarrow> int \<Rightarrow> pyval \<Rightarrow> (int \<times> int) list \<Rightarrow> pyval \<Rightarrow> pyval \<Rightarrow> py_error + pyval" where
  "build_mode env level bank_bytes banks pools quantum spec seen mode x =
     (let n = iattr ''spm_bytes_per_bank'' x; k = iattr ''cache_bytes_per_bank'' x;
          r = iattr ''system_reserved_spm_per_bank'' spec in
      if n + k \<noteq> bank_bytes \<or> n mod quantum \<noteq> 0 \<or> k mod quantum \<noteq> 0 \<or> r mod quantum \<noteq> 0 \<or> r > n
      then Inl (ValueError ''invalid conservation, alignment, or system reservation'')
      else if (n, k) \<in> set seen then Inl (ValueError ''duplicate effective profile'')
      else make_profile env ''MemoryProfile'' (profile_fields level mode bank_bytes banks pools x quantum spec))"

fun build_modes ::
  "py_env \<Rightarrow> string \<Rightarrow> int \<Rightarrow> int \<Rightarrow> int \<Rightarrow> int \<Rightarrow> pyval \<Rightarrow> (pyval \<times> pyval) list \<Rightarrow> (int \<times> int) list
   \<Rightarrow> (pyval, pyval) dict \<Rightarrow> py_error + (pyval, pyval) dict" where
  "build_modes env level bank_bytes banks pools quantum spec [] seen table = Inr table"
| "build_modes env level bank_bytes banks pools quantum spec ((mode, x) # rest) seen table =
     (case build_mode env level bank_bytes banks pools quantum spec seen mode x of
        Inl e \<Rightarrow> Inl e
      | Inr p \<Rightarrow> build_modes env level bank_bytes banks pools quantum spec rest (split_of x # seen) (dict_set mode p table))"

definition build_level :: "py_env \<Rightarrow> hardware_config \<Rightarrow> string \<Rightarrow> py_error + (pyval, pyval) dict" where
  "build_level env hw level =
     (case level_geometry hw level of (capacity, banks, pools) \<Rightarrow>
        (case checks [uint_check True (PInt capacity), uint_check True (PInt banks), uint_check True (PInt pools),
                      require (capacity mod banks = 0) ''capacity must be divisible by banks''] of
           Some e \<Rightarrow> Inl e
         | None \<Rightarrow>
             let spec = attr level (hw_memory_target hw); modes = attr ''modes'' (attr level (hw_profile_source hw)) in
             (case build_modes env level (capacity div banks) banks pools (quantum_of hw) spec (map_items modes) [] [] of
                Inl e \<Rightarrow> Inl e
              | Inr table \<Rightarrow>
                  if dict_get table (attr ''reset_mode'' spec) = None
                  then Inl (ValueError ''reset mode not in Registry'') else Inr table)))"

definition registry_fields :: "(pyval, pyval) dict \<Rightarrow> (pyval, pyval) dict \<Rightarrow> pyval \<Rightarrow> string \<Rightarrow> (string \<times> pyval) list" where
  "registry_fields l1 l2 target hash =
     [(''l1'', PDict l1), (''l2'', PDict l2), (''target'', target), (''registry_hash'', PStr hash), (''abi'', PStr ''v0'')]"

definition build_registry :: "py_env \<Rightarrow> hardware_config \<Rightarrow> py_error + pyval" where
  "build_registry env hw =
     (case (build_level env hw ''l1'', build_level env hw ''l2'') of
        (Inl e, _) \<Rightarrow> Inl e
      | (_, Inl e) \<Rightarrow> Inl e
      | (Inr l1, Inr l2) \<Rightarrow>
          (case make_profile env ''ProfileRegistry'' (registry_fields l1 l2 (hw_memory_target hw) '''') of
             Inl e \<Rightarrow> Inl e
           | Inr (PObj c fs) \<Rightarrow>
               (case digest env (PObj c fs) of
                  Inl e \<Rightarrow> Inl e
                | Inr d \<Rightarrow> make_profile env c (dict_set ''registry_hash'' (PStr d) fs))
           | Inr v \<Rightarrow> Inr v))"

section \<open>Parsing the configuration\<close>

definition mapping_check :: "pyval \<Rightarrow> string list \<Rightarrow> check" where
  "mapping_check v allowed =
     require (is_mapping v \<and> set (dict_keys (map_items v)) \<subseteq> set (map PStr allowed)) ''invalid or unknown fields''"

definition level_fields :: "string list" where
  "level_fields = [''system_reserved_spm_per_bank'', ''reset_mode'', ''spm_mapping_id'', ''cache_org_id'',
     ''cache_write_policy'', ''maintenance_caps'']"

definition merged :: "pyval \<Rightarrow> pyval option \<Rightarrow> string \<Rightarrow> pyval option" where
  "merged raw base n =
     (case map_get raw (PStr n) of Some x \<Rightarrow> Some x | None \<Rightarrow> map_option (attr n) base)"

definition parse_target_level :: "py_env \<Rightarrow> pyval \<Rightarrow> pyval option \<Rightarrow> string \<Rightarrow> py_error + pyval" where
  "parse_target_level env data defaults level =
     (case map_get data (PStr level) of
        None \<Rightarrow> (case defaults of None \<Rightarrow> Inl (ValueError ''missing memory.target level'') | Some d \<Rightarrow> Inr (attr level d))
      | Some raw \<Rightarrow>
          let value = merged raw (map_option (attr level) defaults) in
          (case checks
             [mapping_check raw level_fields,
              require (map_get raw (PStr ''system_reserved_spm_per_bank'') \<noteq> None)
                ''explicit memory.target level requires system_reserved_spm_per_bank'',
              require (\<forall>n \<in> set level_fields. value n \<noteq> None) ''incomplete memory.target level'',
              require (is_seq (the (value ''maintenance_caps'')) \<and> (\<forall>x \<in> set (items (the (value ''maintenance_caps''))). is_str x))
                ''maintenance_caps must be a string list''] of
             Some e \<Rightarrow> Inl e
           | None \<Rightarrow> make_profile env ''MemoryLevelTarget'' (map (\<lambda>n. (n, the (value n))) level_fields)))"

definition or_none :: "pyval option \<Rightarrow> pyval" where
  "or_none o' = (case o' of None \<Rightarrow> PNone | Some x \<Rightarrow> x)"

definition parse_memory_target :: "py_env \<Rightarrow> pyval \<Rightarrow> pyval option \<Rightarrow> py_error + pyval" where
  "parse_memory_target env data defaults =
     (case mapping_check data [''l1'', ''l2'', ''profile_command_timeout_cycles''] of
        Some e \<Rightarrow> Inl e
      | None \<Rightarrow>
          (case pair_result (parse_target_level env data defaults ''l1'') (parse_target_level env data defaults ''l2'') of
             Inl e \<Rightarrow> Inl e
           | Inr (l1, l2) \<Rightarrow>
               let given = or_none (map_get data (PStr ''profile_command_timeout_cycles''));
                   timeout = (if given \<noteq> PNone then given
                              else or_none (map_option (attr ''profile_command_timeout_cycles'') defaults))
               in if timeout = PNone then Inl (ValueError ''missing profile_command_timeout_cycles'')
                  else make_profile env ''MemoryTargetConfig''
                         [(''l1'', l1), (''l2'', l2), (''profile_command_timeout_cycles'', timeout)]))"

definition parse_mode :: "py_env \<Rightarrow> pyval \<times> pyval \<Rightarrow> py_error + pyval \<times> pyval" where
  "parse_mode env = (\<lambda>(mode, values).
     case checks [uint_check False mode, mapping_check values [''spm_bytes_per_bank'', ''cache_bytes_per_bank''],
                  require (\<forall>n \<in> {''spm_bytes_per_bank'', ''cache_bytes_per_bank''}. map_get values (PStr n) \<noteq> None)
                    ''both SPM and Cache bytes must be explicit''] of
       Some e \<Rightarrow> Inl e
     | None \<Rightarrow> with_value mode (make_profile env ''ProfileBytes''
                 (map (\<lambda>n. (n, or_none (map_get values (PStr n)))) [''spm_bytes_per_bank'', ''cache_bytes_per_bank''])))"

definition parse_source_level :: "py_env \<Rightarrow> pyval \<Rightarrow> pyval option \<Rightarrow> string \<Rightarrow> py_error + pyval" where
  "parse_source_level env data defaults level =
     (case map_get data (PStr level) of
        None \<Rightarrow> (case defaults of None \<Rightarrow> Inl (ValueError ''missing memory.profile_source level'') | Some d \<Rightarrow> Inr (attr level d))
      | Some raw \<Rightarrow>
          let modes = or_none (map_get raw (PStr ''modes'')) in
          (case checks [mapping_check raw [''modes''],
                        require (is_mapping modes) ''an explicit modes mapping is required''] of
             Some e \<Rightarrow> Inl e
           | None \<Rightarrow>
               (case traverse (parse_mode env) (map_items modes) of
                  Inl e \<Rightarrow> Inl e
                | Inr table \<Rightarrow> make_profile env ''ProfileLevelSource'' [(''modes'', PDict (dict_of table))])))"

definition parse_profile_source :: "py_env \<Rightarrow> pyval \<Rightarrow> pyval option \<Rightarrow> py_error + pyval" where
  "parse_profile_source env data defaults =
     (case mapping_check data [''kind'', ''partition_granule_bytes'', ''l1'', ''l2''] of
        Some e \<Rightarrow> Inl e
      | None \<Rightarrow>
          (case pair_result (parse_source_level env data defaults ''l1'') (parse_source_level env data defaults ''l2'') of
             Inl e \<Rightarrow> Inl e
           | Inr (l1, l2) \<Rightarrow>
               let kind = or_none (merged data defaults ''kind'');
                   granule = or_none (merged data defaults ''partition_granule_bytes'')
               in if kind = PNone \<or> granule = PNone
                  then Inl (ValueError ''missing profile_source kind or partition_granule_bytes'')
                  else make_profile env ''ProfileSourceConfig''
                         [(''kind'', kind), (''partition_granule_bytes'', granule), (''l1'', l1), (''l2'', l2)]))"

end
