(* ===== verification/Profile_Props.thy ===== *)
theory Profile_Props
  imports Profiles
begin

text \<open>
  What the arena and registry checks guarantee: every stripe of an accepted layout lies inside
  its bank, and a registry that can be built has consistent, aligned and distinct profiles.
\<close>

section \<open>Stripes\<close>

lemma chunk_count_step:
  assumes "0 < stripe" "stripe < remaining"
  shows "chunk_count remaining stripe = chunk_count (remaining - stripe) stripe + 1"
proof -
  have "remaining + stripe - 1 = (remaining - stripe + stripe - 1) + stripe * 1" by simp
  then show ?thesis using assms(1) by (simp only: chunk_count_def div_mult_self2)
qed

lemma chunk_count_one: "0 < remaining \<Longrightarrow> remaining \<le> stripe \<Longrightarrow> chunk_count remaining stripe = 1"
  by (simp add: chunk_count_def div_pos_geq div_pos_pos_trivial)

lemma chunk_count_bounds:
  assumes "0 < stripe" "0 < logical"
  shows "1 \<le> chunk_count logical stripe" "(chunk_count logical stripe - 1) * stripe < logical"
    "logical \<le> chunk_count logical stripe * stripe"
proof -
  let ?c = "chunk_count logical stripe"
  have m: "?c * stripe + (logical + stripe - 1) mod stripe = logical + stripe - 1"
    by (simp add: chunk_count_def)
  have b: "0 \<le> (logical + stripe - 1) mod stripe" "(logical + stripe - 1) mod stripe < stripe" using assms by simp_all
  show "logical \<le> ?c * stripe" using m b by linarith
  show "(?c - 1) * stripe < logical" using m b by (simp add: left_diff_distrib)
  have "0 < ?c * stripe" using \<open>logical \<le> ?c * stripe\<close> assms by linarith
  then show "1 \<le> ?c" using assms by (simp add: zero_less_mult_iff)
qed

definition stripe_size :: "int \<Rightarrow> int \<Rightarrow> int \<Rightarrow> int" where
  "stripe_size logical stripe i =
     (if i = chunk_count logical stripe - 1 then logical - (chunk_count logical stripe - 1) * stripe else stripe)"

lemma segments_from_eq:
  assumes "0 < stripe" "0 < remaining"
  shows "segments_from remaining chunk off stripe banks =
     map (\<lambda>i. (i mod banks, off div banks + (i div banks) * stripe, stripe_size remaining stripe (i - chunk)))
       [chunk .. chunk + chunk_count remaining stripe - 1]"
  using assms
proof (induction remaining chunk off stripe banks rule: segments_from.induct)
  case (1 remaining chunk off stripe banks)
  show ?case
  proof (cases "remaining \<le> stripe")
    case True
    then show ?thesis
      using 1(2,3) by (subst segments_from.simps) (simp add: chunk_count_one stripe_size_def)
  next
    case False
    let ?r = "remaining - stripe"
    have step: "chunk_count remaining stripe = chunk_count ?r stripe + 1"
      using 1(2) False by (intro chunk_count_step) simp_all
    have ge: "1 \<le> chunk_count ?r stripe" using chunk_count_bounds [of stripe ?r] 1(2) False by simp
    have size: "stripe_size remaining stripe (i - chunk) = stripe_size ?r stripe (i - (chunk + 1))" if "chunk < i" for i
      using that step by (auto simp: stripe_size_def left_diff_distrib algebra_simps)
    have first: "stripe_size remaining stripe 0 = stripe" using step ge by (simp add: stripe_size_def)
    have "segments_from remaining chunk off stripe banks
        = (chunk mod banks, off div banks + (chunk div banks) * stripe, stripe) # segments_from ?r (chunk + 1) off stripe banks"
      using 1(2) False by (subst segments_from.simps) simp
    also have "segments_from ?r (chunk + 1) off stripe banks =
        map (\<lambda>i. (i mod banks, off div banks + (i div banks) * stripe, stripe_size ?r stripe (i - (chunk + 1))))
          [chunk + 1 .. chunk + 1 + chunk_count ?r stripe - 1]"
      using 1(1) 1(2) False by simp
    also have "\<dots> = map (\<lambda>i. (i mod banks, off div banks + (i div banks) * stripe, stripe_size remaining stripe (i - chunk)))
          [chunk + 1 .. chunk + 1 + chunk_count ?r stripe - 1]"
      using size by (intro map_cong) auto
    finally show ?thesis
      using step ge first by (simp add: upto_rec1 [of chunk] add.commute add.left_commute)
  qed
qed

lemma segment_end:
  assumes pos: "0 < stripe" "0 < logical" "0 < banks" and i: "0 \<le> i" "i < chunk_count logical stripe"
  shows "off div banks + (i div banks) * stripe + stripe_size logical stripe i \<le> bank_end logical off stripe banks (i mod banks)"
proof -
  define c where "c = chunk_count logical stripe"
  define b where "b = i mod banks"
  define n where "n = (c - 1 - b) div banks"
  have split: "i = b + (i div banks) * banks" by (simp add: b_def)
  have "(i div banks) * banks \<le> c - 1 - b" using i(2) split by (simp add: c_def)
  then have le: "i div banks \<le> n" using pos(3) by (simp add: n_def zdiv_mono1 [of "i div banks * banks" _ banks, simplified])
  have size: "0 < stripe_size logical stripe j" "stripe_size logical stripe j \<le> stripe" for j
    using chunk_count_bounds [OF pos(1,2)] pos by (auto simp: stripe_size_def left_diff_distrib)
  have goal: "bank_end logical off stripe banks b = off div banks + n * stripe + stripe_size logical stripe (b + n * banks)"
    by (simp add: bank_end_def stripe_size_def Let_def n_def c_def)
  show ?thesis
  proof (cases "i div banks = n")
    case True
    then have "i = b + n * banks" using split by simp
    then show ?thesis unfolding b_def [symmetric] goal True by simp
  next
    case False
    then have "(i div banks + 1) * stripe \<le> n * stripe" using le pos(1) by (intro mult_right_mono) simp_all
    then have "i div banks * stripe + stripe \<le> n * stripe" by (simp add: distrib_right)
    with size(2) [of i] size(1) [of "b + n * banks"] show ?thesis
      unfolding b_def [symmetric] goal by linarith
  qed
qed

lemma sum_stripes:
  assumes "0 < stripe" "0 < logical"
  shows "(\<Sum>i \<leftarrow> [0 .. chunk_count logical stripe - 1]. stripe_size logical stripe i) = logical"
proof -
  define n where "n = nat (chunk_count logical stripe - 1)"
  have n: "chunk_count logical stripe = int n + 1" using chunk_count_bounds(1) [OF assms] by (simp add: n_def)
  have "[0 .. int n] = [0 .. int n - 1] @ [int n]" by (simp add: upto_rec2)
  then have "(\<Sum>i \<leftarrow> [0 .. int n]. stripe_size logical stripe i)
      = (\<Sum>i \<leftarrow> [0 .. int n - 1]. stripe_size logical stripe i) + (logical - int n * stripe)"
    by (simp add: stripe_size_def n)
  also have "(\<Sum>i \<leftarrow> [0 .. int n - 1]. stripe_size logical stripe i) = (\<Sum>i \<leftarrow> [0 .. int n - 1]. stripe)"
    by (intro arg_cong [where f = sum_list] map_cong) (auto simp: stripe_size_def n)
  finally show ?thesis by (simp add: n sum_list_triv)
qed

lemma stripes_apart:
  assumes "0 < stripe" "0 < banks" "i < j" "i mod banks = j mod banks"
  shows "(i div banks) * stripe + stripe \<le> (j div banks) * (stripe :: int)"
proof -
  have "i div banks < j div banks"
  proof (rule ccontr)
    assume "\<not> ?thesis"
    then have "j div banks * banks \<le> i div banks * banks" using assms(2) by (intro mult_right_mono) simp_all
    then show False
      using assms(3,4) div_mult_mod_eq [of i banks] div_mult_mod_eq [of j banks] by linarith
  qed
  then have "(i div banks + 1) * stripe \<le> (j div banks) * stripe" using assms(1) by (intro mult_right_mono) simp_all
  then show ?thesis by (simp add: distrib_right)
qed

section \<open>Accepted layouts\<close>

text \<open>C26. An accepted arena layout keeps every buffer inside its reservation. The stripes of a
  buffer carry exactly its bytes, each lies in an existing bank within the bytes the arena
  reserves there, and no two stripes of the buffer overlap in a bank. (The constructor
  checks only the last stripe of each bank, by a closed formula.)
\<close>

theorem layout_segments_in_bounds:
  assumes arena: "arena_layout_checks env v = None"
    and b: "b \<in> set (items (attr ''buffer_layouts'' v))" "buffer_layout_checks b = None"
  defines "per_bank \<equiv> items (attr ''per_bank_bytes'' v)"
  shows "(\<forall>(bank, off, size) \<in> set (buffer_segments b).
            0 \<le> bank \<and> bank < int (length per_bank) \<and> 0 \<le> off \<and> 0 < size \<and> off + size \<le> int_of (per_bank ! nat bank))
     \<and> (\<Sum>(bank, off, size) \<leftarrow> buffer_segments b. size) = int_of (attr ''logical_bytes'' b)
     \<and> sorted_wrt (\<lambda>(bank, off, size) (bank', off', size'). bank = bank' \<longrightarrow> off + size \<le> off') (buffer_segments b)"
proof -
  define logical where "logical = iattr ''logical_bytes'' b"
  define stripe where "stripe = iattr ''stripe_bytes'' b"
  define banks where "banks = iattr ''banks'' b"
  define base where "base = iattr ''arena_offset'' b"
  have pos: "0 < stripe" "0 < logical" "0 < banks" "0 \<le> base"
    using b(2) by (auto simp: buffer_layout_checks_def uint_check_def stripe_def logical_def banks_def base_def iattr_def)
  have item: "layout_item_checks v b = None" using arena b(1) by (auto simp: arena_layout_checks_def Let_def)
  then have geo: "banks = int (length per_bank)" and fits: "buffer_fits b per_bank"
    by (auto simp: layout_item_checks_def Let_def banks_def iattr_def int_of_def per_bank_def)
  have seg: "buffer_segments b = map (\<lambda>i. (i mod banks, base div banks + (i div banks) * stripe, stripe_size logical stripe i))
      [0 .. chunk_count logical stripe - 1]"
    using segments_from_eq [OF pos(1,2), of 0 base banks]
    by (simp add: buffer_segments_def logical_def stripe_def banks_def base_def)
  have size: "0 < stripe_size logical stripe j" "stripe_size logical stripe j \<le> stripe" for j
    using chunk_count_bounds [OF pos(1,2)] pos by (auto simp: stripe_size_def left_diff_distrib)
  have inside: "base div banks + (i div banks) * stripe + stripe_size logical stripe i \<le> int_of (per_bank ! nat (i mod banks))"
    if i: "0 \<le> i" "i < chunk_count logical stripe" for i
  proof -
    have "i mod banks < banks" "0 \<le> i mod banks" "i mod banks \<le> i" using pos(3) i(1) by (simp_all add: zmod_le_nonneg_dividend)
    then have "i mod banks \<in> set [0 .. min banks (chunk_count logical stripe) - 1]" using i(2) by auto
    then have "bank_end logical base stripe banks (i mod banks) \<le> int_of (per_bank ! nat (i mod banks))"
      using fits unfolding buffer_fits_def logical_def base_def stripe_def banks_def by blast
    with segment_end [OF pos(1,2,3) i, of base] show ?thesis by linarith
  qed
  have apart: "base div banks + (i div banks) * stripe + stripe_size logical stripe i \<le> base div banks + (j div banks) * stripe"
    if "i < j" "i mod banks = j mod banks" for i j
    using stripes_apart [OF pos(1,3) that] size(2) [of i] by linarith
  have "\<forall>(bank, off, size) \<in> set (buffer_segments b).
      0 \<le> bank \<and> bank < int (length per_bank) \<and> 0 \<le> off \<and> 0 < size \<and> off + size \<le> int_of (per_bank ! nat bank)"
    using inside size(1) pos geo by (auto simp: seg pos_imp_zdiv_nonneg_iff)
  moreover have "(\<Sum>(bank, off, size) \<leftarrow> buffer_segments b. size) = logical"
    using sum_stripes [OF pos(1,2)] by (simp add: seg comp_def)
  moreover have "sorted_wrt (\<lambda>(bank, off, size) (bank', off', size'). bank = bank' \<longrightarrow> off + size \<le> off') (buffer_segments b)"
    unfolding seg sorted_wrt_map
    by (rule sorted_wrt_mono_rel [OF _ sorted_wrt_upto]) (use apart in auto)
  ultimately show ?thesis by (simp add: logical_def iattr_def)
qed

text \<open>A 160-byte buffer in 64-byte stripes over two banks of 128 bytes.\<close>

definition demo_buffer :: pyval where
  "demo_buffer = PObj ''BufferLayout''
     [(''buffer_id'', PStr ''b''), (''logical_bytes'', PInt 160), (''slot_id'', PInt 0), (''arena_offset'', PInt 0),
      (''stripe_bytes'', PInt 64), (''banks'', PInt 2), (''role'', PStr '''')]"

definition demo_layout :: pyval where
  "demo_layout = PObj ''ArenaLayout''
     [(''alignment'', PInt 64), (''stripe_bytes'', PInt 64), (''reserved_bytes'', PInt 256),
      (''per_bank_bytes'', PTuple [PInt 128, PInt 128]), (''buffer_layouts'', PTuple [demo_buffer]),
      (''layout_hash'', PStr '''')]"

definition demo_text :: py_env where
  "demo_text = \<lparr>pe_sha256 = (\<lambda>_. replicate 64 CHR ''0''), pe_float_text = (\<lambda>_. ''0.0''), pe_str = (\<lambda>_. '''')\<rparr>"

lemma demo_layout_accepted:
  "arena_layout_checks demo_text demo_layout = None" "buffer_layout_checks demo_buffer = None"
  "demo_buffer \<in> set (items (attr ''buffer_layouts'' demo_layout))"
  "buffer_segments demo_buffer = [(0, 0, 64), (1, 0, 64), (0, 64, 32)]"
  by code_simp+

theorem layout_segments_in_bounds_witness:
  "arena_layout_checks demo_text demo_layout = None \<and> buffer_layout_checks demo_buffer = None
   \<and> buffer_segments demo_buffer = [(0, 0, 64), (1, 0, 64), (0, 64, 32)]
   \<and> (\<Sum>(bank, off, size) \<leftarrow> buffer_segments demo_buffer. size) = int_of (attr ''logical_bytes'' demo_buffer)"
  using layout_segments_in_bounds [OF demo_layout_accepted(1,3,2)] demo_layout_accepted by blast

end
