(* ===== verification/Program_Validation.thy ===== *)
theory Program_Validation
  imports Profiles
begin

text \<open>
  The strict validators of \<open>src/pipeline_validator/compiled_program.py\<close> on executable values, with
  the constructor checks of \<open>src/pipeline_validator/execution_ir.py\<close> and of the package's own
  classes. A validator is the exception it raises, if any. The attribute \<open>address_map\<close> of gather
  and scatter descriptors is validated whatever its class is, so the validators are mutually
  recursive over the size of the value.
\<close>

section \<open>The classes of the package\<close>

definition package_classes :: "(string \<times> string list) list" where
  "package_classes =
     [(''WorkloadInfo'', [''name'', ''description'', ''expected'']),
      (''Relocation'', [''binding_id'', ''scope'', ''ordinal'', ''field'', ''kind'', ''argument_index'', ''role_id'']),
      (''BindingGuard'', [''name'', ''minimum_bytes'', ''permissions'']),
      (''CompiledProgram'', [''schema_version'', ''compiler_abi'', ''source_hash'', ''source_ir'', ''registry'',
         ''registry_hash'', ''target_hash'', ''artifact_hash'', ''entry_kind'', ''entry'', ''entry_prefix'',
         ''call_bindings'', ''relocations'', ''source_map'', ''dependency_proofs'', ''entry_profiles'', ''exit_profiles'',
         ''static_effects'', ''resource_budgets'', ''binding_guards'', ''workload_info''])]"

definition view_classes :: "(string \<times> string list) list" where
  "view_classes =
     [(''GlobalBinding'', [''name'', ''base_iova'', ''size_bytes'', ''permissions'']),
      (''ExecGlobalInput'', [''name'', ''dims'', ''dtype'', ''size_bytes'']),
      (''ExecMemoryView'', [''space'', ''base'', ''backing_dims'', ''dims'', ''offsets'', ''strides'', ''dtype'',
         ''element_bytes'', ''bytes'', ''task_dim'']),
      (''ExecTileGatherDesc'', [''source'', ''indices'', ''destination'', ''address_map'', ''window_entries'', ''scope'']),
      (''ExecTileScatterDesc'', [''source'', ''indices'', ''destination'', ''address_map'', ''window_entries'', ''scope'']),
      (''ExecIndexedMap'', [''index_scale'', ''offset'', ''task_stride'', ''repeat'', ''stride'', ''segment'']),
      (''ExecHostAccess'', [''input_index'', ''offset'', ''bytes'', ''mode'']),
      (''ExecHostCall'', [''name'', ''accesses'', ''scopes''])]"

definition buffer_classes :: "(string \<times> string list) list" where
  "buffer_classes =
     [(''ExecTransfer'', [''src'', ''dst'', ''bytes'']),
      (''ExecL2Buffer'', [''slot'', ''dims'', ''dtype'', ''role'', ''element_bytes'', ''alignment'', ''bytes'', ''sharing'']),
      (''ExecL1Buffer'', [''name'', ''dims'', ''dtype'', ''element_bytes'', ''alignment'', ''bytes'']),
      (''ExecTileFormal'', [''space'', ''dims'', ''dtype'']),
      (''ExecSharedInput'', [''slot'', ''dims'', ''dtype'', ''element_bytes'', ''bytes'', ''producer_binding_id'', ''producer_slot'']),
      (''ExecTaskDomain'', [''from_task'', ''to_task''])]"

definition request_classes :: "(string \<times> string list) list" where
  "request_classes =
     [(''ExecSignalPolicy'', [''input_released'', ''output_ready'']),
      (''ExecDispatchRequest'', [''role_id'', ''dispatch_ordinal'', ''signal_policy'', ''input_released_event'',
         ''output_ready_event'', ''requested_l1_mode'', ''resolved_l1_mode'', ''binding_id'']),
      (''ExecReleaseRequest'', [''buffer_slot'', ''buffer_role'', ''reader_dispatch_ordinals'',
         ''writer_dispatch_ordinals'', ''dependency_events'']),
      (''ExecPublishRequest'', [''buffer_slot'', ''reader_dispatch_ordinals'', ''writer_dispatch_ordinals'', ''dependency_events''])]"

definition program_classes :: "(string \<times> string list) list" where
  "program_classes =
     [(''ExecTileInst'', [''op'', ''dst'', ''args'', ''label'', ''comment'', ''source_ref'', ''instruction_id'']),
      (''ExecGroupAction'', [''op'', ''args'', ''dst'', ''comment'', ''dependencies'', ''reads'', ''writes'',
         ''source_ref'', ''instruction_id'']),
      (''ExecStreamDesc'', [''queue_id'', ''depth'', ''producer_mask'', ''consumer_mask'', ''payload_slot_id'',
         ''token_stride'', ''pmu_stream_id'']),
      (''ExecEngineDesc'', [''name'', ''kind'', ''op'', ''params'', ''transfer'']),
      (''ExecTileProgram'', [''name'', ''insts'', ''descriptors'', ''labels'', ''program_id'', ''version'', ''program_hash'',
         ''formals'', ''l1_buffers'', ''resource_contract'', ''layout'', ''text_bytes'']),
      (''ExecTileRoleBinding'', [''role_id'', ''tile_mask'', ''tile_program'', ''in_stream'', ''out_stream'', ''context_id'',
         ''task_domain'', ''actuals'', ''global_actuals'', ''read_actuals'', ''write_actuals'']),
      (''ExecTileGroupTask'', [''name'', ''actions'', ''streams'', ''role_bindings'', ''completion_event'', ''global_inputs'',
         ''l2_buffers'', ''resource_contract'', ''layout'', ''binding_id'', ''event_uses'', ''shared_inputs'']),
      (''ExecDeviceOp'', [''op'', ''ctx_name'', ''event_tag'', ''actual_inputs'', ''dependencies'', ''callsite_id'',
         ''binding_id'', ''command'', ''source_ref'', ''instruction_id'']),
      (''ExecModel'', [''name'', ''tasks'', ''context_pins'', ''body'', ''inputs''])]"

definition execution_classes :: "(string \<times> string list) list" where
  "execution_classes = view_classes @ buffer_classes @ request_classes @ program_classes"

definition profile_classes :: "(string \<times> string list) list" where
  "profile_classes =
     [(''MemoryLevelTarget'', level_fields),
      (''MemoryTargetConfig'', [''l1'', ''l2'', ''profile_command_timeout_cycles'']),
      (''ProfileBytes'', [''spm_bytes_per_bank'', ''cache_bytes_per_bank'']),
      (''ProfileLevelSource'', [''modes'']),
      (''ProfileSourceConfig'', [''kind'', ''partition_granule_bytes'', ''l1'', ''l2'']),
      (''MemoryProfile'', [''level'', ''mode'', ''bank_bytes'', ''banks'', ''pools'', ''spm_bytes_per_bank'',
         ''cache_bytes_per_bank'', ''system_reserved_spm_per_bank'', ''alignment'', ''spm_mapping_id'', ''cache_org_id'',
         ''cache_write_policy'', ''maintenance_caps'']),
      (''ProfileRegistry'', [''l1'', ''l2'', ''target'', ''registry_hash'', ''abi'']),
      (''CacheRequirement'', [''required'', ''access'', ''bypass'', ''target_bytes'']),
      (''ContextResources'', [''l2_mode'', ''allowed_profiles'', ''logical_tasks'', ''l2_spm_bytes'',
         ''requested_contexts_per_tile'', ''l2_cache'']),
      (''TileResources'', [''allowed_profiles'', ''tile_l1_spm_bytes_per_context'', ''l1_cache'', ''l2_cache'']),
      (''BufferLayout'', [''buffer_id'', ''logical_bytes'', ''slot_id'', ''arena_offset'', ''stripe_bytes'', ''banks'', ''role'']),
      (''ArenaLayout'', [''alignment'', ''stripe_bytes'', ''reserved_bytes'', ''per_bank_bytes'', ''buffer_layouts'', ''layout_hash'']),
      (''SourceRef'', [''source_name'', ''symbol'', ''body_op_index'', ''op_name'', ''generated_by'', ''reason'']),
      (''ProfileState'', [''l1_mode'', ''l2_mode'']),
      (''ProfileReconfigDesc'', [''command_id'', ''level'', ''expected_mode'', ''target_mode'', ''registry_hash'',
         ''wait_instruction_ids'', ''frontier'', ''affected_domains'', ''member_ids'', ''exclusive_binding_id'',
         ''source_ref'', ''steps'']),
      (''MaintenanceRange'', [''input_index'', ''offset'', ''bytes'', ''levels'', ''precise_writes'']),
      (''MemoryMaintenanceDesc'', [''command_id'', ''levels'', ''ranges'', ''dependencies'', ''source_ref'', ''steps'']),
      (''CallBinding'', [''binding_id'', ''context_name'', ''requested_l2_mode'', ''resolved_l2_mode'', ''entry_l1_mode'',
         ''exit_l1_mode'', ''requires_l1_exclusive'', ''actual_inputs'', ''permitted_profiles'']),
      (''ResourceBudget'', [''max_live_grids'', ''event_frontier'', ''frame_slots'', ''engine_requirements''])]"

definition types :: "(string \<times> string list) list" where
  "types = package_classes @ execution_classes @ profile_classes"

definition class_fields :: "string \<Rightarrow> string list option" where
  "class_fields c = dict_get types c"

definition tile_ops :: "string list" where
  "tile_ops = [''nop'', ''mov'', ''add'', ''cmp'', ''br'', ''brp'', ''br_eos'', ''ret'', ''launch.boa'', ''launch.evu'',
     ''launch.mfe'', ''launch.use'', ''launch.gather'', ''launch.scatter'', ''wait'', ''waitall'', ''fence'', ''stream.pop'',
     ''stream.push'', ''stream.acquire'', ''stream.release'', ''stream.eos'', ''patch.desc'', ''load.desc'', ''store.desc'',
     ''prof.begin'', ''prof.end'', ''trap'', ''signal.phase'', ''free.l1'', ''alloc.l1'']"

definition group_ops :: "string list" where
  "group_ops = [''init.stream'', ''dma.prefetch'', ''dma.store'', ''dispatch.role'', ''wait.event'', ''barrier.group'',
     ''collective.run'', ''signal.event'', ''release.l2'', ''bind.l2.view'', ''publish.l2'', ''bind.l2.import'',
     ''profile.reconfig'', ''memory.maintenance'']"

definition enums :: "(string \<times> string list) list" where
  "enums = [(''ExecTileOp'', tile_ops), (''ExecGroupActionOp'', group_ops)]"

section \<open>Leaf validators\<close>

definition dtype_bytes :: "(string \<times> int) list" where
  "dtype_bytes = [(''i8'', 1), (''bf16'', 2), (''f16'', 2), (''i32'', 4), (''f32'', 4)]"

text \<open>Membership in a dictionary hashes the value first.\<close>

definition dtype_check :: "pyval \<Rightarrow> string \<Rightarrow> check" where
  "dtype_check v msg =
     (if \<not> hashable v then Some (TypeError ''unhashable type'')
      else require (is_str v \<and> dict_get dtype_bytes (str_of v) \<noteq> None) msg)"

definition dtype_width :: "pyval \<Rightarrow> int" where
  "dtype_width v = (case dict_get dtype_bytes (str_of v) of Some n \<Rightarrow> n | None \<Rightarrow> 0)"

definition int_items :: "pyval \<Rightarrow> int list" where
  "int_items v = map int_of (items v)"

definition source_ref_check :: "pyval \<Rightarrow> check" where
  "source_ref_check v = instance_check ''SourceRef'' v ''requires SourceRef''"

definition validate_view :: "pyval \<Rightarrow> check" where
  "validate_view v =
     (let backing = int_items (attr ''backing_dims'' v); dims = int_items (attr ''dims'' v);
          offsets = attr ''offsets'' v; strides = attr ''strides'' v;
          expected = prod_list dims * iattr ''element_bytes'' v
      in checks
     [instance_check ''ExecMemoryView'' v ''must be ExecMemoryView'',
      require (one_of (attr ''space'' v) [''global'', ''l2'', ''l1'']) ''space is invalid'',
      text_check False (attr ''base'' v), shape_check False (attr ''backing_dims'' v), shape_check False (attr ''dims'' v),
      seq_check offsets, seq_check strides,
      require (length backing = length dims \<and> length backing = length (items offsets) \<and> length backing = length (items strides))
        ''has inconsistent rank'',
      for_each (uint_check False) (items offsets),
      require (\<forall>x \<in> set (items strides). x = PInt 1) ''strides must contain unit integers'',
      require (list_all (\<lambda>(offset, size, parent). offset + size \<le> parent) (zip (int_items offsets) (zip dims backing)))
        ''exceeds its backing shape'',
      dtype_check (attr ''dtype'' v) ''has an invalid dtype'',
      uint_check True (attr ''element_bytes'' v), uint_check True (attr ''bytes'' v),
      require (iattr ''element_bytes'' v = dtype_width (attr ''dtype'' v)) ''has an invalid dtype width'',
      require (expected \<le> uint64_max \<and> iattr ''bytes'' v = expected) ''bytes does not conserve its shape'',
      require (attr ''task_dim'' v = PNone \<or> (is_int (attr ''task_dim'' v) \<and> 0 \<le> iattr ''task_dim'' v
          \<and> iattr ''task_dim'' v < int (length dims) \<and> attr ''space'' v = PStr ''l2'')) ''task_dim is invalid''])"

definition validate_buffer :: "pyval \<Rightarrow> check" where
  "validate_buffer v =
     (let expected = prod_list (int_items (attr ''dims'' v)) * iattr ''element_bytes'' v in checks
     [(if class_of v = ''ExecL1Buffer'' then text_check False (attr ''name'' v)
       else if class_of v = ''ExecL2Buffer'' then checks
         [text_check False (attr ''slot'' v),
          require (one_of (attr ''role'' v) [''in'', ''out'', ''inout'']) ''role is invalid'',
          require (one_of (attr ''sharing'' v) [''private'', ''readonly'', ''context-local'']) ''sharing is invalid'']
       else Some (ValueError ''is not a buffer'')),
      shape_check False (attr ''dims'' v), dtype_check (attr ''dtype'' v) ''has an invalid dtype'',
      uint_check True (attr ''element_bytes'' v), uint_check True (attr ''alignment'' v), uint_check True (attr ''bytes'' v),
      require (iattr ''element_bytes'' v = dtype_width (attr ''dtype'' v)) ''has an invalid dtype width'',
      require (expected \<le> uint64_max \<and> iattr ''bytes'' v = expected) ''bytes does not conserve its shape''])"

definition op_in :: "string \<Rightarrow> string list \<Rightarrow> pyval \<Rightarrow> bool" where
  "op_in c names v = (case attr ''op'' v of PEnum d n \<Rightarrow> d = c \<and> n \<in> set names | _ \<Rightarrow> False)"

definition is_enum :: "string \<Rightarrow> pyval \<Rightarrow> bool" where
  "is_enum c v = (case v of PEnum d _ \<Rightarrow> d = c | _ \<Rightarrow> False)"

definition instruction_args_check :: "pyval \<Rightarrow> check" where
  "instruction_args_check v =
     (let args = items (attr ''args'' v); n = length args; is = (\<lambda>names. op_in ''ExecTileOp'' names v) in
      if is [''alloc.l1''] then
        (if n \<noteq> 2 then Some (ValueError ''has invalid alloc.l1 arguments'')
         else checks [text_check False (args ! 0), uint_check False (args ! 1)])
      else if is [''free.l1''] then
        (if n \<noteq> 1 then Some (ValueError ''has invalid free.l1 arguments'') else text_check False (args ! 0))
      else if is [''launch.boa'', ''launch.evu'', ''launch.mfe'', ''launch.gather''] then
        (if n \<noteq> 1 then Some (ValueError ''has invalid launch arguments'') else text_check False (args ! 0))
      else if is [''wait'', ''waitall''] then
        (if n = 0 \<or> (is [''wait''] \<and> n \<noteq> 1) then Some (ValueError ''has invalid wait arguments'')
         else strings_check True (attr ''args'' v))
      else if is [''signal.phase''] then
        (if n \<noteq> 2 \<or> \<not> one_of (args ! 0) [''input_released'', ''output_ready'']
         then Some (ValueError ''has invalid signal arguments'')
         else checks [uint_check False (args ! 1), require (args ! 1 = PInt 0) ''has invalid signal arguments''])
      else if is [''ret''] then require (n = 0) ''RET cannot have arguments''
      else for_each literal_check args)"

definition validate_instruction :: "pyval \<Rightarrow> check" where
  "validate_instruction v = checks
     [require (is_enum ''ExecTileOp'' (attr ''op'' v)) ''op is not allowlisted'', optional_text (attr ''dst'' v),
      seq_check (attr ''args'' v), optional_text (attr ''label'' v), text_check True (attr ''comment'' v),
      source_ref_check (attr ''source_ref'' v), text_check False (attr ''instruction_id'' v), instruction_args_check v]"

definition ordinals_check :: "pyval \<Rightarrow> check" where
  "ordinals_check v = checks [seq_check v, unique_check (items v) ''contains duplicates'', for_each (uint_check False) (items v)]"

definition validate_transfer :: "pyval \<Rightarrow> check" where
  "validate_transfer v = checks
     [validate_view (attr ''src'' v), validate_view (attr ''dst'' v), uint_check True (attr ''bytes'' v),
      require (attr ''bytes'' v = attr ''bytes'' (attr ''src'' v) \<and> attr ''bytes'' v = attr ''bytes'' (attr ''dst'' v))
        ''bytes does not conserve its views'']"

definition validate_signal_policy :: "pyval \<Rightarrow> check" where
  "validate_signal_policy v = checks [optional_text (attr ''input_released'' v), optional_text (attr ''output_ready'' v)]"

definition validate_dispatch_request :: "pyval \<Rightarrow> check" where
  "validate_dispatch_request v = checks
     [uint_check False (attr ''role_id'' v), uint_check False (attr ''dispatch_ordinal'' v),
      instance_check ''ExecSignalPolicy'' (attr ''signal_policy'' v) ''signal_policy is invalid'',
      validate_signal_policy (attr ''signal_policy'' v), text_check True (attr ''input_released_event'' v),
      text_check True (attr ''output_ready_event'' v), uint_check False (attr ''requested_l1_mode'' v),
      uint_check False (attr ''resolved_l1_mode'' v), text_check False (attr ''binding_id'' v)]"

definition validate_publish_request :: "pyval \<Rightarrow> check" where
  "validate_publish_request v = checks
     [text_check False (attr ''buffer_slot'' v), ordinals_check (attr ''reader_dispatch_ordinals'' v),
      ordinals_check (attr ''writer_dispatch_ordinals'' v), strings_check True (attr ''dependency_events'' v)]"

definition validate_release_request :: "pyval \<Rightarrow> check" where
  "validate_release_request v = checks
     [text_check False (attr ''buffer_slot'' v),
      require (one_of (attr ''buffer_role'' v) [''in'', ''out'', ''inout'']) ''buffer_role is invalid'',
      ordinals_check (attr ''reader_dispatch_ordinals'' v), ordinals_check (attr ''writer_dispatch_ordinals'' v),
      strings_check True (attr ''dependency_events'' v)]"

text \<open>
  The typed argument of an action and the checks of each kind. A control descriptor has been
  checked by its constructor.
\<close>

definition typed_argument :: "string \<Rightarrow> pyval list \<Rightarrow> (pyval \<Rightarrow> check) \<Rightarrow> check" where
  "typed_argument c candidates f =
     (case candidates of
        [x] \<Rightarrow> (if class_of x = c then f x else Some (ValueError ''has an invalid typed argument''))
      | _ \<Rightarrow> Some (ValueError ''has an invalid typed argument''))"

definition action_args_check :: "pyval \<Rightarrow> check" where
  "action_args_check v =
     (let args = items (attr ''args'' v); n = length args; is = (\<lambda>names. op_in ''ExecGroupActionOp'' names v) in
      if is [''dma.prefetch'', ''dma.store''] then
        (if n \<noteq> 2 then Some (ValueError ''has invalid DMA arguments'')
         else checks [text_check False (args ! 0), typed_argument ''ExecTransfer'' [args ! 1] validate_transfer])
      else if is [''dispatch.role''] then typed_argument ''ExecDispatchRequest'' args validate_dispatch_request
      else if is [''release.l2''] then typed_argument ''ExecReleaseRequest'' args validate_release_request
      else if is [''publish.l2''] then typed_argument ''ExecPublishRequest'' args validate_publish_request
      else if is [''profile.reconfig''] then typed_argument ''ProfileReconfigDesc'' args (\<lambda>_. None)
      else if is [''memory.maintenance''] then typed_argument ''MemoryMaintenanceDesc'' args (\<lambda>_. None)
      else if is [''bind.l2.view''] then
        (if n \<noteq> 2 then Some (ValueError ''has invalid bind arguments'')
         else checks [text_check False (args ! 0), uint_check False (args ! 1)])
      else if is [''bind.l2.import''] then
        (if n \<noteq> 2 \<or> \<not> is_int (args ! 1) \<or> int_of (args ! 1) < 0 then Some (ValueError ''has invalid import bind arguments'')
         else checks [text_check False (args ! 0), uint_check False (args ! 1)])
      else if is [''wait.event'', ''signal.event''] then
        (if n \<noteq> 1 then Some (ValueError ''has invalid event arguments'') else text_check False (args ! 0))
      else if is [''barrier.group''] then require (n = 0) ''barrier cannot have arguments''
      else if is [''init.stream''] then
        (if n \<noteq> 4 then Some (ValueError ''has invalid stream arguments'')
         else checks [uint_check False (args ! 0), uint_check True (args ! 1), uint_check True (args ! 2), uint_check True (args ! 3)])
      else for_each literal_check args)"

definition validate_group_action :: "pyval \<Rightarrow> check" where
  "validate_group_action v = checks
     [require (is_enum ''ExecGroupActionOp'' (attr ''op'' v)) ''op is not allowlisted'', seq_check (attr ''args'' v),
      optional_text (attr ''dst'' v), text_check True (attr ''comment'' v), strings_check True (attr ''dependencies'' v),
      strings_check True (attr ''reads'' v), strings_check True (attr ''writes'' v),
      source_ref_check (attr ''source_ref'' v), text_check False (attr ''instruction_id'' v), action_args_check v]"

definition validate_global_binding :: "pyval \<Rightarrow> check" where
  "validate_global_binding v = checks
     [text_check False (attr ''name'' v), uint_check False (attr ''base_iova'' v), uint_check True (attr ''size_bytes'' v),
      require (iattr ''base_iova'' v + iattr ''size_bytes'' v \<le> uint64_max) ''address range overflows uint64'',
      require (one_of (attr ''permissions'' v) [''r'', ''w'', ''rw'']) ''permissions is invalid'']"

definition validate_global_input :: "pyval \<Rightarrow> check" where
  "validate_global_input v =
     (let expected = prod_list (int_items (attr ''dims'' v)) * dtype_width (attr ''dtype'' v) in checks
     [text_check False (attr ''name'' v), shape_check False (attr ''dims'' v), dtype_check (attr ''dtype'' v) ''dtype is invalid'',
      uint_check True (attr ''size_bytes'' v),
      require (expected \<le> uint64_max \<and> iattr ''size_bytes'' v = expected) ''size_bytes does not conserve its shape''])"

definition validate_indexed_map :: "pyval \<Rightarrow> check" where
  "validate_indexed_map v = checks
     [for_each (\<lambda>n. require (is_int (attr n v) \<and> 0 \<le> iattr n v) ''must be a non-negative integer'')
        [''index_scale'', ''offset'', ''task_stride'', ''repeat'', ''stride'', ''segment''],
      require (0 < iattr ''index_scale'' v \<and> 0 < iattr ''repeat'' v \<and> 0 < iattr ''segment'' v)
        ''must have positive index_scale/repeat/segment'']"

definition validate_host_access :: "pyval \<Rightarrow> check" where
  "validate_host_access v = checks
     [uint_check False (attr ''input_index'' v), uint_check False (attr ''offset'' v), uint_check True (attr ''bytes'' v),
      require (one_of (attr ''mode'' v) [''read'', ''write'', ''readwrite'']) ''mode is invalid'']"

definition validate_host_call :: "pyval \<Rightarrow> check" where
  "validate_host_call v = checks
     [text_check False (attr ''name'' v), typed_tuple ''ExecHostAccess'' False (attr ''accesses'' v),
      for_each validate_host_access (items (attr ''accesses'' v)), strings_check True (attr ''scopes'' v)]"

definition validate_tile_formal :: "pyval \<Rightarrow> check" where
  "validate_tile_formal v = checks
     [require (one_of (attr ''space'' v) [''task'', ''global'', ''l2'']) ''space is invalid'',
      shape_check (attr ''space'' v = PStr ''task'') (attr ''dims'' v),
      (if attr ''space'' v = PStr ''task''
       then require (items (attr ''dims'' v) = [] \<and> attr ''dtype'' v = PStr '''') ''has an invalid task formal''
       else dtype_check (attr ''dtype'' v) ''dtype is invalid'')]"

definition validate_task_domain :: "pyval \<Rightarrow> check" where
  "validate_task_domain v = checks
     [uint_check False (attr ''from_task'' v), uint_check True (attr ''to_task'' v),
      require (iattr ''from_task'' v < iattr ''to_task'' v) ''is empty'']"

definition validate_shared_input :: "pyval \<Rightarrow> check" where
  "validate_shared_input v = checks
     [text_check False (attr ''slot'' v), shape_check False (attr ''dims'' v), dtype_check (attr ''dtype'' v) ''dtype is invalid'',
      uint_check True (attr ''element_bytes'' v), uint_check True (attr ''bytes'' v),
      require (iattr ''element_bytes'' v = dtype_width (attr ''dtype'' v)
          \<and> prod_list (int_items (attr ''dims'' v)) * iattr ''element_bytes'' v = iattr ''bytes'' v)
        ''does not conserve its shape and dtype'',
      text_check False (attr ''producer_binding_id'' v), text_check False (attr ''producer_slot'' v)]"

definition validate_stream_desc :: "pyval \<Rightarrow> check" where
  "validate_stream_desc v = checks
     [uint_check False (attr ''queue_id'' v), uint_check True (attr ''depth'' v), uint_check True (attr ''producer_mask'' v),
      uint_check True (attr ''consumer_mask'' v), uint_check False (attr ''payload_slot_id'' v),
      uint_check True (attr ''token_stride'' v), uint_check False (attr ''pmu_stream_id'' v)]"

definition command_class :: "pyval \<Rightarrow> string option" where
  "command_class v =
     (if attr ''op'' v = PStr ''profile_reconfig'' then Some ''ProfileReconfigDesc''
      else if attr ''op'' v = PStr ''memory_maintenance'' then Some ''MemoryMaintenanceDesc''
      else if attr ''op'' v = PStr ''host_call'' then Some ''ExecHostCall'' else None)"

definition command_check :: "pyval \<Rightarrow> check" where
  "command_check v =
     (let command = attr ''command'' v in
      if command \<noteq> PNone then
        (if command_class v \<noteq> Some (class_of command) then Some (ValueError ''command is invalid'')
         else if class_of command = ''ExecHostCall'' then validate_host_call command else None)
      else require (\<not> one_of (attr ''op'' v) [''profile_reconfig'', ''memory_maintenance'', ''host_call'']) ''command is missing'')"

definition validate_device_op :: "pyval \<Rightarrow> check" where
  "validate_device_op v = checks
     [require (one_of (attr ''op'' v) [''submit'', ''host_call'', ''await'', ''return'', ''profile_reconfig'', ''memory_maintenance''])
        ''op is not allowlisted'',
      for_each (\<lambda>n. text_check True (attr n v)) [''ctx_name'', ''event_tag'', ''callsite_id'', ''binding_id''],
      seq_check (attr ''actual_inputs'' v), for_each (uint_check False) (items (attr ''actual_inputs'' v)),
      strings_check True (attr ''dependencies'' v), command_check v, source_ref_check (attr ''source_ref'' v),
      text_check False (attr ''instruction_id'' v)]"

section \<open>Validators that recurse\<close>

text \<open>
  These take the validator of arbitrary executable values as an argument \<open>self\<close>, called wherever
  the code calls \<open>_validate_executable_value\<close> on a part that may hold a gather or scatter
  descriptor. Where the class of a part has just been checked, its own validator is named.
\<close>

definition validate_gather :: "(pyval \<Rightarrow> check) \<Rightarrow> pyval \<Rightarrow> check" where
  "validate_gather self v = checks
     [validate_view (attr ''source'' v), validate_view (attr ''indices'' v), validate_view (attr ''destination'' v),
      self (attr ''address_map'' v), uint_check True (attr ''window_entries'' v), optional_text (attr ''scope'' v)]"

definition param :: "string \<Rightarrow> pyval \<Rightarrow> pyval" where
  "param n v = or_none (map_get (attr ''params'' v) (PStr n))"

definition param_names :: "pyval \<Rightarrow> pyval set" where
  "param_names v = set (dict_keys (map_items (attr ''params'' v)))"

text \<open>The parameters of an EVU descriptor are checked in the order of a Python set; here by name.\<close>

definition evu_check :: "pyval \<Rightarrow> check" where
  "evu_check v =
     (let pow = (attr ''op'' v = PStr ''pow'') in checks
     [require (param_names v = {PStr ''ops''} \<union> (if pow then {PStr ''bytes'', PStr ''exponent''} else {})
         \<and> attr ''transfer'' v = PNone) ''has invalid EVU parameters'',
      (if pow then checks [uint_check True (param ''bytes'' v), signed_check (param ''exponent'' v)] else None),
      uint_check True (param ''ops'' v)])"

definition boa_check :: "pyval \<Rightarrow> check" where
  "boa_check v = checks
     [require (attr ''transfer'' v = PNone \<and> PStr ` {''m'', ''n'', ''k'', ''ops''} \<subseteq> param_names v
         \<and> param_names v \<subseteq> PStr ` {''m'', ''n'', ''k'', ''ops'', ''accumulate''}) ''has invalid BOA parameters'',
      for_each (\<lambda>n. uint_check True (param n v)) [''m'', ''n'', ''k'', ''ops''],
      require (PStr ''accumulate'' \<notin> param_names v \<or> is_bool (param ''accumulate'' v)) ''accumulate must be bool'']"

definition validate_engine :: "(pyval \<Rightarrow> check) \<Rightarrow> pyval \<Rightarrow> check" where
  "validate_engine self v =
     (let mfe = (attr ''kind'' v = PStr ''MFE''); key = str_of (attr ''op'' v) in checks
     [text_check False (attr ''name'' v), text_check False (attr ''kind'' v), text_check False (attr ''op'' v),
      require (is_frozen_map (attr ''params'' v)) ''params must be immutable'',
      (if mfe \<and> key \<in> {''load'', ''store''} then checks
         [require (map_items (attr ''params'' v) = [] \<and> class_of (attr ''transfer'' v) = ''ExecTransfer'')
            ''has invalid transfer descriptor fields'',
          validate_transfer (attr ''transfer'' v)]
       else if mfe \<and> key \<in> {''gather'', ''scatter''} then checks
         [require (param_names v = {PStr key}
             \<and> class_of (param key v) = (if key = ''gather'' then ''ExecTileGatherDesc'' else ''ExecTileScatterDesc''))
            ''has invalid descriptor fields'',
          self (param key v), require (attr ''transfer'' v = PNone) ''transfer must be absent'']
       else if attr ''kind'' v = PStr ''EVU'' then evu_check v
       else if attr ''kind'' v = PStr ''BOA'' then boa_check v
       else Some (ValueError ''has an unsupported engine opcode''))])"

definition validate_tile_program :: "(pyval \<Rightarrow> check) \<Rightarrow> pyval \<Rightarrow> check" where
  "validate_tile_program self v = checks
     [text_check False (attr ''name'' v), typed_tuple ''ExecTileInst'' True (attr ''insts'' v),
      for_each validate_instruction (items (attr ''insts'' v)),
      require (is_frozen_map (attr ''descriptors'' v)) ''descriptors must be immutable'',
      for_each (\<lambda>(k, x). checks
          [text_check False k,
           require (class_of x = ''ExecEngineDesc'' \<and> attr ''name'' x = k) ''descriptors is inconsistent'',
           validate_engine self x]) (map_items (attr ''descriptors'' v)),
      require (is_frozen_map (attr ''labels'' v)) ''labels must be immutable'',
      for_each (\<lambda>(k, x). checks [text_check False k, uint_check False x]) (map_items (attr ''labels'' v)),
      uint_check True (attr ''program_id'' v), uint_check True (attr ''version'' v),
      require (is_int (attr ''program_hash'' v) \<and> 0 < iattr ''program_hash'' v \<and> iattr ''program_hash'' v < 2 ^ 256)
        ''program_hash is invalid'',
      typed_tuple ''ExecTileFormal'' True (attr ''formals'' v), for_each validate_tile_formal (items (attr ''formals'' v)),
      typed_tuple ''ExecL1Buffer'' False (attr ''l1_buffers'' v), for_each validate_buffer (items (attr ''l1_buffers'' v)),
      instance_check ''TileResources'' (attr ''resource_contract'' v) ''resource_contract is invalid'',
      instance_check ''ArenaLayout'' (attr ''layout'' v) ''layout is invalid'',
      uint_check True (attr ''text_bytes'' v)]"

definition validate_role_binding :: "(pyval \<Rightarrow> check) \<Rightarrow> pyval \<Rightarrow> check" where
  "validate_role_binding self v = checks
     [uint_check False (attr ''role_id'' v), uint_check True (attr ''tile_mask'' v),
      instance_check ''ExecTileProgram'' (attr ''tile_program'' v) ''tile_program is invalid'',
      validate_tile_program self (attr ''tile_program'' v),
      for_each (\<lambda>n. if attr n v = PNone then None else uint_check False (attr n v)) [''in_stream'', ''out_stream'', ''context_id''],
      instance_check ''ExecTaskDomain'' (attr ''task_domain'' v) ''task_domain is invalid'',
      validate_task_domain (attr ''task_domain'' v), strings_check False (attr ''actuals'' v),
      typed_tuple ''ExecMemoryView'' False (attr ''global_actuals'' v),
      for_each validate_view (items (attr ''global_actuals'' v)),
      strings_check True (attr ''read_actuals'' v), strings_check True (attr ''write_actuals'' v)]"

definition validate_group_task :: "(pyval \<Rightarrow> check) \<Rightarrow> pyval \<Rightarrow> check" where
  "validate_group_task self v = checks
     [text_check False (attr ''name'' v), typed_tuple ''ExecGroupAction'' True (attr ''actions'' v),
      for_each validate_group_action (items (attr ''actions'' v)),
      typed_tuple ''ExecStreamDesc'' False (attr ''streams'' v), for_each validate_stream_desc (items (attr ''streams'' v)),
      require (is_frozen_map (attr ''role_bindings'' v)) ''role_bindings must be immutable'',
      for_each (\<lambda>(k, x). checks
          [uint_check False k,
           require (class_of x = ''ExecTileRoleBinding'' \<and> attr ''role_id'' x = k) ''role_bindings is inconsistent'',
           validate_role_binding self x]) (map_items (attr ''role_bindings'' v)),
      text_check False (attr ''completion_event'' v),
      typed_tuple ''ExecGlobalInput'' False (attr ''global_inputs'' v),
      for_each validate_global_input (items (attr ''global_inputs'' v)),
      typed_tuple ''ExecL2Buffer'' False (attr ''l2_buffers'' v), for_each validate_buffer (items (attr ''l2_buffers'' v)),
      instance_check ''ContextResources'' (attr ''resource_contract'' v) ''resource_contract is invalid'',
      instance_check ''ArenaLayout'' (attr ''layout'' v) ''layout is invalid'',
      text_check False (attr ''binding_id'' v),
      require (is_frozen_map (attr ''event_uses'' v)) ''event_uses must be immutable'',
      for_each (\<lambda>(k, x). checks [text_check False k, uint_check False x]) (map_items (attr ''event_uses'' v)),
      typed_tuple ''ExecSharedInput'' False (attr ''shared_inputs'' v),
      for_each validate_shared_input (items (attr ''shared_inputs'' v))]"

definition validate_model :: "(pyval \<Rightarrow> check) \<Rightarrow> pyval \<Rightarrow> check" where
  "validate_model self v = checks
     [text_check False (attr ''name'' v),
      require (is_frozen_map (attr ''tasks'' v) \<and> is_frozen_map (attr ''context_pins'' v)) ''task maps must be immutable'',
      for_each (\<lambda>(k, x). checks
          [text_check False k,
           require (class_of x = ''ExecTileGroupTask'' \<and> attr ''binding_id'' x = k) ''tasks is inconsistent'',
           validate_group_task self x]) (map_items (attr ''tasks'' v)),
      for_each (\<lambda>(k, x). checks [text_check False k, (if x = PNone then None else uint_check False x)])
        (map_items (attr ''context_pins'' v)),
      typed_tuple ''ExecDeviceOp'' True (attr ''body'' v), for_each validate_device_op (items (attr ''body'' v)),
      typed_tuple ''ExecGlobalInput'' False (attr ''inputs'' v), for_each validate_global_input (items (attr ''inputs'' v))]"

definition entry_check :: "(pyval \<Rightarrow> check) \<Rightarrow> pyval \<Rightarrow> check" where
  "entry_check self p =
     (if attr ''entry_kind'' p = PStr ''standalone'' then checks
        [instance_check ''ExecTileGroupTask'' (attr ''entry'' p) ''standalone entry must be ExecTileGroupTask'',
         validate_group_task self (attr ''entry'' p)]
      else if attr ''entry_kind'' p = PStr ''model'' then checks
        [instance_check ''ExecModel'' (attr ''entry'' p) ''model entry must be ExecModel'',
         validate_model self (attr ''entry'' p)]
      else Some (ValueError ''invalid compiled entry kind''))"

definition typed_map_check :: "string \<Rightarrow> pyval \<Rightarrow> check" where
  "typed_map_check c v = checks
     [require (is_frozen_map v) ''must be immutable'',
      for_each (\<lambda>(k, x). checks [text_check False k, instance_check c x ''has invalid type'']) (map_items v)]"

definition plain_map_check :: "pyval \<Rightarrow> check" where
  "plain_map_check v = checks
     [require (is_frozen_map v) ''must be immutable'',
      require (\<forall>k \<in> set (dict_keys (map_items v)). is_str k \<and> \<not> is_blank (str_of k)) ''keys must be nonempty strings'',
      plain_check v]"

definition validate_compiled_program :: "py_env \<Rightarrow> bool \<Rightarrow> (pyval \<Rightarrow> check) \<Rightarrow> pyval \<Rightarrow> check" where
  "validate_compiled_program env allow_unsealed self p = checks
     [require (attr ''schema_version'' p = PInt 3 \<and> attr ''compiler_abi'' p = PStr ''v3'')
        ''unsupported compiled schema or ABI; recompile the source with this compiler'',
      text_check False (attr ''source_ir'' p), digest_check False (attr ''source_hash'' p),
      digest_matches env (attr ''source_ir'' p) (attr ''source_hash'' p) ''source_hash does not match source_ir'',
      digest_check False (attr ''registry_hash'' p), digest_check False (attr ''target_hash'' p),
      digest_check allow_unsealed (attr ''artifact_hash'' p),
      require (class_of (attr ''registry'' p) = ''ProfileRegistry''
          \<and> attr ''registry_hash'' (attr ''registry'' p) = attr ''registry_hash'' p)
        ''embedded Registry hash disagrees with package'',
      entry_check self p,
      typed_tuple ''ExecDeviceOp'' False (attr ''entry_prefix'' p), for_each validate_device_op (items (attr ''entry_prefix'' p)),
      typed_map_check ''CallBinding'' (attr ''call_bindings'' p), typed_map_check ''SourceRef'' (attr ''source_map'' p),
      typed_map_check ''ResourceBudget'' (attr ''resource_budgets'' p),
      typed_tuple ''Relocation'' False (attr ''relocations'' p),
      plain_map_check (attr ''dependency_proofs'' p), plain_map_check (attr ''static_effects'' p),
      require (class_of (attr ''entry_profiles'' p) = ''ProfileState'' \<and> class_of (attr ''exit_profiles'' p) = ''ProfileState'')
        ''entry_profiles and exit_profiles must be ProfileState values'',
      typed_tuple ''BindingGuard'' False (attr ''binding_guards'' p),
      instance_check ''WorkloadInfo'' (attr ''workload_info'' p) ''workload_info must be WorkloadInfo'']"

text \<open>The dispatch on the class, and the recursive validator.\<close>

definition validate_with :: "py_env \<Rightarrow> (pyval \<Rightarrow> check) \<Rightarrow> pyval \<Rightarrow> check" where
  "validate_with env self v =
     (let c = class_of v in
      if c \<in> set (dict_keys profile_classes) then None
      else if c = ''WorkloadInfo'' then plain_check (attr ''expected'' v)
      else if c \<in> {''Relocation'', ''BindingGuard''} then None
      else if c = ''CompiledProgram'' then validate_compiled_program env True self v
      else if c = ''GlobalBinding'' then validate_global_binding v
      else if c = ''ExecGlobalInput'' then validate_global_input v
      else if c = ''ExecMemoryView'' then validate_view v
      else if c = ''ExecIndexedMap'' then validate_indexed_map v
      else if c \<in> {''ExecTileGatherDesc'', ''ExecTileScatterDesc''} then validate_gather self v
      else if c = ''ExecHostAccess'' then validate_host_access v
      else if c = ''ExecHostCall'' then validate_host_call v
      else if c = ''ExecTransfer'' then validate_transfer v
      else if c \<in> {''ExecL1Buffer'', ''ExecL2Buffer''} then validate_buffer v
      else if c = ''ExecTileFormal'' then validate_tile_formal v
      else if c = ''ExecTaskDomain'' then validate_task_domain v
      else if c = ''ExecSignalPolicy'' then validate_signal_policy v
      else if c = ''ExecDispatchRequest'' then validate_dispatch_request v
      else if c = ''ExecSharedInput'' then validate_shared_input v
      else if c = ''ExecPublishRequest'' then validate_publish_request v
      else if c = ''ExecReleaseRequest'' then validate_release_request v
      else if c = ''ExecTileInst'' then validate_instruction v
      else if c = ''ExecGroupAction'' then validate_group_action v
      else if c = ''ExecStreamDesc'' then validate_stream_desc v
      else if c = ''ExecEngineDesc'' then validate_engine self v
      else if c = ''ExecTileProgram'' then validate_tile_program self v
      else if c = ''ExecTileRoleBinding'' then validate_role_binding self v
      else if c = ''ExecTileGroupTask'' then validate_group_task self v
      else if c = ''ExecDeviceOp'' then validate_device_op v
      else if c = ''ExecModel'' then validate_model self v
      else Some (ValueError ''has unregistered type''))"

lemma attr_size: "class_of v = c \<Longrightarrow> c \<noteq> '''' \<Longrightarrow> size (attr n v) < size v"
proof (cases v)
  case (PObj d fs)
  have "dict_get fs n = Some x \<Longrightarrow> size x < Suc (size_list (size_prod (\<lambda>_. 0) size) fs)" for x
    by (induction fs) (auto split: if_splits)
  then show ?thesis by (auto simp: PObj attr_def split: option.splits)
qed (simp_all add: class_of_def)

lemma items_size: "x \<in> set (items v) \<Longrightarrow> size x < size v"
  by (cases v) (auto simp: items_def less_Suc_eq_le intro: size_list_estimation')

lemma map_items_size: "(k, x) \<in> set (map_items v) \<Longrightarrow> size x < size v"
proof -
  have "(k, x) \<in> set ps \<Longrightarrow> size x < Suc (size_list (size_prod size size) ps)" for ps :: "(pyval \<times> pyval) list"
    by (induction ps) auto
  then show "(k, x) \<in> set (map_items v) \<Longrightarrow> size x < size v" by (cases v) (auto simp: map_items_def)
qed

lemma param_size: "class_of v = c \<Longrightarrow> c \<noteq> '''' \<Longrightarrow> size (param n v) < size v"
proof -
  assume c: "class_of v = c" "c \<noteq> ''''"
  have "size (param n v) \<le> size (attr ''params'' v)"
    by (auto simp: param_def or_none_def map_get_def split: option.splits
        dest!: dict_get_in_set map_items_size [THEN less_imp_le])
  also have "\<dots> < size v" by (rule attr_size [OF c])
  finally show ?thesis .
qed

text \<open>\<open>agree n f g\<close>: two validators agree on the values smaller than \<open>n\<close>.\<close>

definition agree :: "nat \<Rightarrow> (pyval \<Rightarrow> check) \<Rightarrow> (pyval \<Rightarrow> check) \<Rightarrow> bool" where
  "agree n f g \<longleftrightarrow> (\<forall>u. size u < n \<longrightarrow> f u = g u)"

lemma agree_less: "agree n f g \<Longrightarrow> m \<le> n \<Longrightarrow> agree m f g"
  by (simp add: agree_def)

lemma for_each_pairs_cong:
  "(\<And>k x. (k, x) \<in> set ps \<Longrightarrow> f k x = g k x) \<Longrightarrow> for_each (\<lambda>(k, x). f k x) ps = for_each (\<lambda>(k, x). g k x) ps"
  by (rule for_each_cong) auto

lemma validate_gather_cong:
  "agree (size v) f g \<Longrightarrow> class_of v \<noteq> '''' \<Longrightarrow> validate_gather f v = validate_gather g v"
  by (simp add: validate_gather_def agree_def attr_size [OF refl])

lemma validate_engine_cong:
  assumes "agree (size v) f g" "class_of v \<noteq> ''''"
  shows "validate_engine f v = validate_engine g v"
proof -
  have "f (param n v) = g (param n v)" for n using assms param_size [OF refl assms(2)] by (simp add: agree_def)
  then show ?thesis unfolding validate_engine_def by (simp only: Let_def)
qed

lemma typed_entry_cong:
  assumes "\<And>x. agree (size x) f g \<Longrightarrow> class_of x \<noteq> '''' \<Longrightarrow> V f x = V g x" "agree (size v) f g" "c \<noteq> ''''"
  shows "for_each (\<lambda>(k, x). checks [key k, require (class_of x = c \<and> P k x) msg, V f x]) (map_items v) =
    for_each (\<lambda>(k, x). checks [key k, require (class_of x = c \<and> P k x) msg, V g x]) (map_items v)"
proof (rule for_each_pairs_cong)
  fix k x assume "(k, x) \<in> set (map_items v)"
  then have "agree (size x) f g" using map_items_size agree_less [OF assms(2)] less_imp_le by blast
  then have "class_of x = c \<Longrightarrow> V f x = V g x" using assms(1,3) by blast
  then show "checks [key k, require (class_of x = c \<and> P k x) msg, V f x] = checks [key k, require (class_of x = c \<and> P k x) msg, V g x]"
    by (auto simp: checks.simps require_def split: option.splits)
qed

lemma typed_part_cong:
  assumes "\<And>x. agree (size x) f g \<Longrightarrow> class_of x \<noteq> '''' \<Longrightarrow> V f x = V g x" "agree (size x) f g" "c \<noteq> ''''"
  shows "checks (instance_check c x msg # V f x # rest) = checks (instance_check c x msg # V g x # rest)"
  using assms by (auto simp: checks.simps instance_check_def require_def)

lemma agree_attr: "agree (size v) f g \<Longrightarrow> class_of v \<noteq> '''' \<Longrightarrow> agree (size (attr n v)) f g"
  using attr_size [OF refl, of v n] by (auto intro: agree_less)

lemma validate_tile_program_cong:
  assumes "agree (size v) f g" "class_of v \<noteq> ''''"
  shows "validate_tile_program f v = validate_tile_program g v"
  unfolding validate_tile_program_def
  by (subst typed_entry_cong [where V = validate_engine, OF validate_engine_cong agree_attr [OF assms]]) simp_all

lemma validate_role_binding_cong:
  assumes "agree (size v) f g" "class_of v \<noteq> ''''"
  shows "validate_role_binding f v = validate_role_binding g v"
proof -
  have "checks (a # b # instance_check c x msg # validate_tile_program f x # rest) =
      checks (a # b # instance_check c x msg # validate_tile_program g x # rest)"
    if "agree (size x) f g" "c \<noteq> ''''" for a b c x msg rest
    using typed_part_cong [where V = validate_tile_program, OF validate_tile_program_cong that, of msg rest]
    by (simp add: checks.simps split: option.splits)
  then show ?thesis unfolding validate_role_binding_def using agree_attr [OF assms] by simp
qed

lemma validate_group_task_cong:
  assumes "agree (size v) f g" "class_of v \<noteq> ''''"
  shows "validate_group_task f v = validate_group_task g v"
  unfolding validate_group_task_def
  by (subst typed_entry_cong [where V = validate_role_binding, OF validate_role_binding_cong agree_attr [OF assms]]) simp_all

lemma validate_model_cong:
  assumes "agree (size v) f g" "class_of v \<noteq> ''''"
  shows "validate_model f v = validate_model g v"
  unfolding validate_model_def
  by (subst typed_entry_cong [where V = validate_group_task, OF validate_group_task_cong agree_attr [OF assms]]) simp_all

lemma entry_check_cong:
  assumes "agree (size v) f g" "class_of v \<noteq> ''''"
  shows "entry_check f v = entry_check g v"
  unfolding entry_check_def
  using typed_part_cong [where V = validate_group_task, OF validate_group_task_cong agree_attr [OF assms]]
    typed_part_cong [where V = validate_model, OF validate_model_cong agree_attr [OF assms]] by simp

lemma validate_with_cong [fundef_cong]:
  assumes "env = env'" "v = w" "\<And>u. size u < size w \<Longrightarrow> f u = g u"
  shows "validate_with env f v = validate_with env' g w"
proof (cases "class_of w = ''''")
  case True
  then show ?thesis unfolding validate_with_def assms(1,2) Let_def by simp
next
  case False
  have ag: "agree (size w) f g" using assms(3) by (simp add: agree_def)
  have "validate_compiled_program env' True f w = validate_compiled_program env' True g w"
    unfolding validate_compiled_program_def entry_check_cong [OF ag False] by (rule refl)
  then show ?thesis
    unfolding validate_with_def assms(1,2) validate_gather_cong [OF ag False] validate_engine_cong [OF ag False]
      validate_tile_program_cong [OF ag False] validate_role_binding_cong [OF ag False]
      validate_group_task_cong [OF ag False] validate_model_cong [OF ag False] by (simp only:)
qed

function validate_executable_value :: "py_env \<Rightarrow> pyval \<Rightarrow> check" where
  "validate_executable_value env v = validate_with env (\<lambda>u. validate_executable_value env u) v"
  by pat_completeness auto

termination validate_executable_value
  by (relation "measure (\<lambda>(env, v). size v)") auto

declare validate_executable_value.simps [simp del]

end
