(* ===== verification/Program_Codec.thy ===== *)
theory Program_Codec
  imports Program_Validation
begin

text \<open>
  Construction, encoding and loading of the executable package:
  \<open>src/pipeline_validator/compiled_program.py\<close> (the classes \<open>WorkloadInfo\<close>, \<open>Relocation\<close>,
  \<open>BindingGuard\<close>, \<open>CompiledProgram\<close>, the codec, sealing and parsing), with the record base class of
  \<open>src/pipeline_validator/immutable.py\<close>. Files are JSON trees here: the text layer of the
  standard library is the compact printer used for digests.
\<close>

section \<open>Constructor checks\<close>

definition workload_info_checks :: "pyval \<Rightarrow> check" where
  "workload_info_checks v = checks
     [text_check False (attr ''name'' v), text_check False (attr ''description'' v),
      require (is_mapping (attr ''expected'' v)) ''must be a mapping'',
      require (\<forall>k \<in> set (dict_keys (map_items (attr ''expected'' v))). is_str k \<and> \<not> is_blank (str_of k))
        ''workload expected keys must be nonempty strings'',
      (case freeze (\<lambda>_. None) (attr ''expected'' v) of Inl e \<Rightarrow> Some e | Inr x \<Rightarrow> plain_check x)]"

definition simple_relocations :: "(string \<times> string \<times> string) list" where
  "simple_relocations =
     [(''group'', ''dst'', ''event''), (''group'', ''dependencies'', ''event_tuple''), (''group'', ''args'', ''dispatch_events''),
      (''group'', ''args'', ''event_tuple''), (''group'', ''args'', ''release_events''), (''group'', ''args'', ''publish_events''),
      (''group'', ''args'', ''profile_frontier''), (''group'', ''args'', ''maintenance_dependencies''),
      (''task'', ''completion_event'', ''event''), (''task'', ''event_uses'', ''event_map''), (''stream'', ''queue_id'', ''queue'')]"

definition index_check :: "pyval \<Rightarrow> string \<Rightarrow> check" where
  "index_check v msg = require (is_int v \<and> -1 \<le> int_of v) msg"

definition relocation_form_check :: "string \<times> string \<times> string \<Rightarrow> int \<Rightarrow> int \<Rightarrow> int \<Rightarrow> check" where
  "relocation_form_check form ordinal argument role =
     (if form \<in> set simple_relocations then checks
        [require (argument = -1 \<and> role = -1) ''simple relocation cannot carry argument or role indices'',
         require (fst form \<noteq> ''task'' \<or> ordinal = 0) ''task relocation requires ordinal=0'']
      else if form = (''group'', ''args'', ''queue'')
      then require (argument = 0 \<and> role = -1) ''stream-init relocation requires argument_index=0''
      else if form = (''context'', ''global_view'', ''binding'')
      then require (0 \<le> argument \<and> role = -1) ''Context binding relocation requires an input index''
      else if form \<in> {(''role'', ''in_stream'', ''queue''), (''role'', ''out_stream'', ''queue'')}
      then require (ordinal = 0 \<and> argument = -1 \<and> 0 \<le> role) ''role stream relocation requires ordinal=0 and a role ID''
      else if form = (''tile_role'', ''global_actuals'', ''binding'')
      then require (0 \<le> argument \<and> 0 \<le> role) ''Tile role binding relocation requires input and role indices''
      else Some (ValueError ''unsupported relocation form''))"

definition relocation_checks :: "pyval \<Rightarrow> check" where
  "relocation_checks v = checks
     [text_check False (attr ''binding_id'' v), text_check False (attr ''scope'' v), uint_check False (attr ''ordinal'' v),
      text_check False (attr ''field'' v), text_check False (attr ''kind'' v),
      index_check (attr ''argument_index'' v) ''relocation argument_index must be -1 or nonnegative'',
      index_check (attr ''role_id'' v) ''relocation role_id must be -1 or nonnegative'',
      require (iattr ''argument_index'' v \<le> uint64_max \<and> iattr ''role_id'' v \<le> uint64_max) ''relocation index exceeds uint64'',
      relocation_form_check (str_of (attr ''scope'' v), str_of (attr ''field'' v), str_of (attr ''kind'' v))
        (iattr ''ordinal'' v) (iattr ''argument_index'' v) (iattr ''role_id'' v)]"

definition binding_guard_checks :: "pyval \<Rightarrow> check" where
  "binding_guard_checks v = checks
     [text_check False (attr ''name'' v), uint_check False (attr ''minimum_bytes'' v),
      require (one_of (attr ''permissions'' v) [''r'', ''w'', ''rw'']) ''invalid binding guard permissions'']"

text \<open>\<open>tuple(x)\<close> iterates sequences, strings and the keys of mappings, and raises otherwise.\<close>

definition iterated :: "pyval \<Rightarrow> pyval list option" where
  "iterated v = (case v of PTuple xs \<Rightarrow> Some xs | PList xs \<Rightarrow> Some xs | PStr n \<Rightarrow> Some (map (\<lambda>c. PStr [c]) n)
     | PMap ps \<Rightarrow> Some (dict_keys ps) | PDict ps \<Rightarrow> Some (dict_keys ps) | _ \<Rightarrow> None)"

definition over_iterated :: "pyval \<Rightarrow> (pyval list \<Rightarrow> check) \<Rightarrow> check" where
  "over_iterated v f = (case iterated v of None \<Rightarrow> Some (TypeError ''object is not iterable'') | Some xs \<Rightarrow> f xs)"

definition host_access_init :: "pyval \<Rightarrow> check" where
  "host_access_init a = checks
     [require (is_int (attr ''input_index'' a)) ''input_index must be an int'',
      require (0 \<le> iattr ''input_index'' a) ''input_index must be non-negative'',
      require (is_int (attr ''offset'' a) \<and> 0 \<le> iattr ''offset'' a) ''offset must be non-negative'',
      require (is_int (attr ''bytes'' a) \<and> 0 < iattr ''bytes'' a) ''bytes must be positive'',
      require (one_of (attr ''mode'' a) [''read'', ''write'', ''readwrite'']) ''mode is invalid'']"

definition host_call_init :: "pyval \<Rightarrow> check" where
  "host_call_init v = checks
     [require (is_str (attr ''name'' v) \<and> \<not> is_blank (str_of (attr ''name'' v))) ''host call name must be a non-empty string'',
      over_iterated (attr ''accesses'' v) (\<lambda>xs. checks
        [require (\<forall>x \<in> set xs. class_of x = ''ExecHostAccess'') ''host call accesses must be ExecHostAccess values'',
         for_each host_access_init xs]),
      over_iterated (attr ''scopes'' v) (\<lambda>xs. checks
        [require (\<forall>x \<in> set xs. is_str x \<and> \<not> is_blank (str_of x)) ''host call scopes must be non-empty strings'',
         require (distinct xs) ''host call scopes must be unique''])]"

definition init_checks :: "py_env \<Rightarrow> pyval \<Rightarrow> check" where
  "init_checks env v =
     (let c = class_of v in
      if c = ''WorkloadInfo'' then workload_info_checks v
      else if c = ''Relocation'' then relocation_checks v
      else if c = ''BindingGuard'' then binding_guard_checks v
      else if c = ''ExecHostCall'' then host_call_init v
      else if c = ''CompiledProgram'' then validate_compiled_program env True (validate_executable_value env) v
      else profile_checks env v)"

definition frozen_records :: "string list" where
  "frozen_records = [''CompiledProgram'', ''ExecTileInst'', ''ExecGroupAction'', ''ExecStreamDesc'', ''ExecEngineDesc'',
     ''ExecTileProgram'', ''ExecTileRoleBinding'', ''ExecTileGroupTask'', ''ExecDeviceOp'', ''ExecModel'']"

definition init_field :: "py_env \<Rightarrow> string \<Rightarrow> string \<times> pyval \<Rightarrow> py_error + string \<times> pyval" where
  "init_field env c =
     (if c \<in> set frozen_records then (\<lambda>(n, x). with_value n (freeze (init_checks env) x))
      else normal_field (init_checks env) c)"

text \<open>The frozen records normalise their fields before they are checked, the others after.\<close>

definition construct :: "py_env \<Rightarrow> string \<Rightarrow> (string \<times> pyval) list \<Rightarrow> py_error + pyval" where
  "construct env c fs =
     (if c \<in> set frozen_records then
        (case traverse (init_field env c) fs of
           Inl e \<Rightarrow> Inl e
         | Inr gs \<Rightarrow> (case init_checks env (PObj c gs) of Some e \<Rightarrow> Inl e | None \<Rightarrow> Inr (PObj c gs)))
      else
        (case init_checks env (PObj c fs) of
           Some e \<Rightarrow> Inl e
         | None \<Rightarrow> on_result (PObj c) (traverse (init_field env c) fs)))"

section \<open>The codec\<close>

fun hex_text :: "nat \<Rightarrow> int \<Rightarrow> string" where
  "hex_text 0 i = ''''"
| "hex_text (Suc n) i = hex_text n (i div 16) @ [hex_digit (nat (i mod 16))]"

definition hex_digit_value :: "char \<Rightarrow> int" where
  "hex_digit_value c = (let n = of_char c :: int in if n \<ge> 97 then n - 87 else n - 48)"

definition hex_value :: "string \<Rightarrow> int" where
  "hex_value n = foldl (\<lambda>i c. 16 * i + hex_digit_value c) 0 n"

definition encode_field :: "(pyval \<Rightarrow> py_error + json) \<Rightarrow> string \<times> pyval \<Rightarrow> py_error + string \<times> json" where
  "encode_field self = (\<lambda>(n, x).
     if n = ''program_hash'' then
       (if is_int x \<and> 0 < int_of x \<and> int_of x < 2 ^ 256 then Inr (n, JStr (hex_text 64 (int_of x)))
        else Inl (ValueError ''program hash must be a nonzero SHA-256 integer''))
     else with_value n (self x))"

definition encode_map :: "(py_float \<Rightarrow> string) \<Rightarrow> (json \<times> json) list \<Rightarrow> json" where
  "encode_map ft ps = JObj [(''$map'', JArr (map (\<lambda>(k, x). JArr [k, x]) (sort_key (\<lambda>p. dumps ft (fst p)) ps)))]"

lemma encode_field_cong [fundef_cong]:
  "p = q \<Longrightarrow> (\<And>n x. q = (n, x) \<Longrightarrow> f x = g x) \<Longrightarrow> encode_field f p = encode_field g q"
  by (cases q) (auto simp: encode_field_def)

fun encode :: "py_env \<Rightarrow> pyval \<Rightarrow> py_error + json" where
  "encode env (PEnum c n) =
     (if dict_get enums c = None then Inl (ValueError ''unregistered enum'')
      else Inr (JObj [(''$enum'', JStr c), (''value'', JStr n)]))"
| "encode env (PObj c fs) =
     (if class_fields c = None then Inl (ValueError ''unregistered executable object'')
      else on_result (\<lambda>ps. JObj ((''$type'', JStr c) # ps)) (traverse (\<lambda>p. encode_field (\<lambda>x. encode env x) p) fs))"
| "encode env (PMap ps) =
     on_result (encode_map (pe_float_text env)) (traverse (\<lambda>(k, x). pair_result (encode env k) (encode env x)) ps)"
| "encode env (PDict ps) =
     on_result (encode_map (pe_float_text env)) (traverse (\<lambda>(k, x). pair_result (encode env k) (encode env x)) ps)"
| "encode env (PTuple xs) = on_result JArr (traverse (\<lambda>x. encode env x) xs)"
| "encode env (PList xs) = on_result JArr (traverse (\<lambda>x. encode env x) xs)"
| "encode env PNone = Inr JNull"
| "encode env (PStr n) = Inr (JStr n)"
| "encode env (PInt i) = Inr (JInt i)"
| "encode env (PBool b) = Inr (JBool b)"
| "encode env (PFloat f) =
     (if f = NonFinite then Inl (ValueError ''unsupported executable value'') else Inr (JFloat f))"

text \<open>
  Decoding. The fields of an instance are decoded in declaration order, where the code iterates a
  set of their names; the type, attribute and key errors of construction and validation become
  value errors.
\<close>

definition decode_pair :: "(json \<Rightarrow> py_error + pyval) \<Rightarrow> json \<Rightarrow> py_error + pyval \<times> pyval" where
  "decode_pair self p =
     (case p of JArr [k, x] \<Rightarrow> pair_result (self k) (self x) | _ \<Rightarrow> Inl (ValueError ''invalid mapping pair''))"

fun collect_pairs ::
  "(json \<Rightarrow> py_error + pyval) \<Rightarrow> json list \<Rightarrow> (pyval, pyval) dict \<Rightarrow> py_error + (pyval, pyval) dict" where
  "collect_pairs self [] d = Inr d"
| "collect_pairs self (p # ps) d =
     (case decode_pair self p of
        Inl e \<Rightarrow> Inl e
      | Inr (k, x) \<Rightarrow>
          if \<not> (is_str k \<or> is_int k) \<or> dict_get d k \<noteq> None then Inl (ValueError ''invalid or duplicate mapping key'')
          else collect_pairs self ps (d @ [(k, x)]))"

definition decode_map :: "py_env \<Rightarrow> (json \<Rightarrow> py_error + pyval) \<Rightarrow> (string \<times> json) list \<Rightarrow> py_error + pyval" where
  "decode_map env self ps =
     (case ps of
        [(k, JArr pairs)] \<Rightarrow>
          (case collect_pairs self pairs [] of Inl e \<Rightarrow> Inl e | Inr d \<Rightarrow> freeze (init_checks env) (PDict d))
      | _ \<Rightarrow> Inl (ValueError ''invalid mapping encoding''))"

definition decode_enum :: "(string \<times> json) list \<Rightarrow> py_error + pyval" where
  "decode_enum ps =
     (if set (dict_keys ps) \<noteq> {''$enum'', ''value''} then Inl (ValueError ''unknown executable enum'')
      else case dict_get ps ''$enum'' of
             Some (JStr c) \<Rightarrow>
               (case dict_get enums c of
                  None \<Rightarrow> Inl (ValueError ''unknown executable enum'')
                | Some members \<Rightarrow>
                    (case dict_get ps ''value'' of
                       Some (JStr n) \<Rightarrow> (if n \<in> set members then Inr (PEnum c n) else Inl (ValueError ''is not a valid member''))
                     | _ \<Rightarrow> Inl (ValueError ''is not a valid member'')))
           | Some (JArr _) \<Rightarrow> Inl (TypeError ''unhashable type'')
           | Some (JObj _) \<Rightarrow> Inl (TypeError ''unhashable type'')
           | _ \<Rightarrow> Inl (ValueError ''unknown executable enum''))"

definition decode_field :: "(json \<Rightarrow> py_error + pyval) \<Rightarrow> (string \<times> json) list \<Rightarrow> string \<Rightarrow> py_error + string \<times> pyval" where
  "decode_field self ps n =
     (case dict_get ps n of
        None \<Rightarrow> Inl KeyError
      | Some x \<Rightarrow>
          if n = ''program_hash'' then
            (case x of
               JStr t \<Rightarrow> (if is_hex64 t \<and> \<not> hex_zero t then Inr (n, PInt (hex_value t))
                          else Inl (ValueError ''invalid program identity hash''))
             | _ \<Rightarrow> Inl (ValueError ''invalid program identity hash''))
          else with_value n (self x))"

definition as_value_error :: "py_error \<Rightarrow> py_error" where
  "as_value_error e = (case e of TypeError _ \<Rightarrow> ValueError ''invalid instance'' | AttributeError \<Rightarrow> ValueError ''invalid instance''
     | KeyError \<Rightarrow> ValueError ''invalid instance'' | _ \<Rightarrow> e)"

definition decode_instance :: "py_env \<Rightarrow> string \<Rightarrow> (string \<times> pyval) list \<Rightarrow> py_error + pyval" where
  "decode_instance env c kwargs =
     (case construct env c kwargs of
        Inl e \<Rightarrow> Inl (as_value_error e)
      | Inr v \<Rightarrow> (case validate_executable_value env v of Some e \<Rightarrow> Inl (as_value_error e) | None \<Rightarrow> Inr v))"

definition decode_object :: "py_env \<Rightarrow> (json \<Rightarrow> py_error + pyval) \<Rightarrow> (string \<times> json) list \<Rightarrow> py_error + pyval" where
  "decode_object env self ps =
     (case dict_get ps ''$type'' of
        Some (JStr c) \<Rightarrow>
          (case class_fields c of
             None \<Rightarrow> Inl (ValueError ''unknown executable type'')
           | Some ns \<Rightarrow>
               if set (dict_keys ps) \<noteq> insert ''$type'' (set ns) then Inl (ValueError ''invalid fields'')
               else case traverse (decode_field self ps) ns of Inl e \<Rightarrow> Inl e | Inr kwargs \<Rightarrow> decode_instance env c kwargs)
      | _ \<Rightarrow> Inl (ValueError ''unknown executable type''))"

definition decode_with :: "py_env \<Rightarrow> (json \<Rightarrow> py_error + pyval) \<Rightarrow> json \<Rightarrow> py_error + pyval" where
  "decode_with env self j =
     (case j of
        JArr xs \<Rightarrow> on_result PTuple (traverse self xs)
      | JNull \<Rightarrow> Inr PNone
      | JStr n \<Rightarrow> Inr (PStr n)
      | JBool b \<Rightarrow> Inr (PBool b)
      | JInt i \<Rightarrow> Inr (PInt i)
      | JFloat f \<Rightarrow> (if f = NonFinite then Inl (ValueError ''invalid executable scalar'') else Inr (PFloat f))
      | JObj ps \<Rightarrow>
          if ''$map'' \<in> set (dict_keys ps) then decode_map env self ps
          else if ''$enum'' \<in> set (dict_keys ps) then decode_enum ps
          else decode_object env self ps)"

lemma collect_pairs_cong:
  assumes "\<And>k x. JArr [k, x] \<in> set ps \<Longrightarrow> f k = g k \<and> f x = g x"
  shows "collect_pairs f ps d = collect_pairs g ps d"
  using assms
proof (induction ps arbitrary: d)
  case (Cons p ps)
  have "\<forall>k x. p = JArr [k, x] \<longrightarrow> f k = g k \<and> f x = g x" using Cons.prems by auto
  then have "decode_pair f p = decode_pair g p" by (auto simp: decode_pair_def split: json.splits list.splits)
  with Cons show ?case by (auto split: sum.splits)
qed simp

lemma json_size:
  "x \<in> set xs \<Longrightarrow> size x < size (JArr xs)" "(n, x) \<in> set ps \<Longrightarrow> size x < size (JObj ps)"
  by (auto simp: less_Suc_eq_le size_list_estimation' json_pair_size)

lemma decode_with_cong [fundef_cong]:
  assumes "env = env'" "j = i" "\<And>u. size u < size i \<Longrightarrow> f u = g u"
  shows "decode_with env f j = decode_with env' g i"
proof -
  have "traverse f xs = traverse g xs" if "i = JArr xs" for xs
    by (rule traverse_cong [OF refl]) (use assms(3) json_size(1) that in blast)
  moreover have "decode_map env' f ps = decode_map env' g ps" if i: "i = JObj ps" for ps
  proof -
    have "collect_pairs f qs [] = collect_pairs g qs []" if "ps = [(k, JArr qs)]" for k qs
      by (rule collect_pairs_cong) (use assms(3) json_size(1) that i in \<open>force simp: less_Suc_eq_le dest: size_list_estimation'\<close>)
    then show ?thesis by (auto simp: decode_map_def split: list.splits json.splits)
  qed
  moreover have "decode_object env' f ps = decode_object env' g ps" if "i = JObj ps" for ps
  proof -
    have eq: "decode_field f ps = decode_field g ps"
      using assms(3) json_size(2) that by (auto simp: decode_field_def fun_eq_iff split: option.splits dest!: dict_get_in_set)
    show ?thesis unfolding decode_object_def eq by (rule refl)
  qed
  ultimately show ?thesis using assms(1,2) by (cases i) (auto simp: decode_with_def)
qed

function decode :: "py_env \<Rightarrow> json \<Rightarrow> py_error + pyval" where
  "decode env j = decode_with env (\<lambda>u. decode env u) j"
  by pat_completeness auto

termination decode
  by (relation "measure (\<lambda>(env, j). size j)") auto

declare decode.simps [simp del]

section \<open>Sealing and loading\<close>

definition compact_text :: "py_env \<Rightarrow> json \<Rightarrow> string" where
  "compact_text env j = dumps (pe_float_text env) j"

definition without :: "string \<Rightarrow> json \<Rightarrow> json" where
  "without n j = (case j of JObj ps \<Rightarrow> JObj (filter (\<lambda>p. fst p \<noteq> n) ps) | _ \<Rightarrow> j)"

definition raising :: "check \<Rightarrow> py_error + 'a \<Rightarrow> py_error + 'a" where
  "raising c r = (case c of Some e \<Rightarrow> Inl e | None \<Rightarrow> r)"

definition validate_program :: "py_env \<Rightarrow> bool \<Rightarrow> pyval \<Rightarrow> check" where
  "validate_program env allow_unsealed p = checks
     [instance_check ''CompiledProgram'' p ''expected CompiledProgram'',
      validate_compiled_program env allow_unsealed (validate_executable_value env) p]"

definition artifact_digest :: "py_env \<Rightarrow> pyval \<Rightarrow> py_error + string" where
  "artifact_digest env p = raising (validate_program env True p)
     (on_result (\<lambda>j. pe_sha256 env (compact_text env (without ''artifact_hash'' j))) (encode env p))"

definition seal_program :: "py_env \<Rightarrow> pyval \<Rightarrow> py_error + pyval" where
  "seal_program env p = raising (validate_program env True p)
     (case artifact_digest env p of
        Inl e \<Rightarrow> Inl e
      | Inr d \<Rightarrow> (case set_attr ''artifact_hash'' (PStr d) p of PObj c fs \<Rightarrow> construct env c fs | v \<Rightarrow> Inr v))"

definition artifact_check :: "py_env \<Rightarrow> pyval \<Rightarrow> check" where
  "artifact_check env p =
     (case artifact_digest env p of
        Inl e \<Rightarrow> Some e | Inr d \<Rightarrow> require (attr ''artifact_hash'' p = PStr d) ''compiled artifact hash mismatch'')"

definition serialize_compiled_program :: "py_env \<Rightarrow> pyval \<Rightarrow> py_error + json" where
  "serialize_compiled_program env p =
     raising (validate_program env False p) (raising (artifact_check env p) (encode env p))"

definition parse_catches :: "py_error \<Rightarrow> py_error" where
  "parse_catches e =
     (case e of TypeError _ \<Rightarrow> ValueError ''invalid compiled artifact'' | KeyError \<Rightarrow> ValueError ''invalid compiled artifact'' | _ \<Rightarrow> e)"

definition schema_check :: "json \<Rightarrow> check" where
  "schema_check j =
     (case j of
        JObj ps \<Rightarrow> require (\<not> (dict_get ps ''$type'' = Some (JStr ''CompiledProgram'')
            \<and> (dict_get ps ''schema_version'' \<notin> {Some (JInt 3), Some (JFloat (Finite 3))} \<or> dict_get ps ''compiler_abi'' \<noteq> Some (JStr ''v3''))))
          ''unsupported compiled schema or ABI; recompile from source''
      | _ \<Rightarrow> None)"

definition parse_compiled_program :: "py_env \<Rightarrow> json \<Rightarrow> py_error + pyval" where
  "parse_compiled_program env j =
     (case raising (schema_check j) (decode env j) of
        Inl e \<Rightarrow> Inl (parse_catches e)
      | Inr p \<Rightarrow> raising (checks [validate_program env False p, artifact_check env p]) (Inr p))"

end
