(* ===== verification/Codec_Props.thy ===== *)
theory Codec_Props
  imports Program_Codec "HOL-Library.Multiset"
begin

text \<open>
  What the package codec guarantees: a loaded package written again gives the text it was loaded
  from, and the hash stored in it is the hash of that text.
\<close>

section \<open>Frozen values\<close>

fun frozen :: "pyval \<Rightarrow> bool" where
  "frozen (PTuple xs) = (\<forall>x \<in> set xs. frozen x)"
| "frozen (PObj c fs) = (\<forall>(n, x) \<in> set fs. frozen x)"
| "frozen (PList xs) = False"
| "frozen (PDict ps) = False"
| "frozen _ = True"

lemma traverse_id: "(\<And>x. x \<in> set xs \<Longrightarrow> f x = Inr x) \<Longrightarrow> traverse f xs = Inr xs"
  by (induction xs) auto

lemma freeze_id: "frozen v \<Longrightarrow> freeze init v = Inr v"
proof (induction v rule: frozen.induct)
  case (1 xs)
  then show ?case by (simp add: traverse_id on_result_def)
next
  case (2 c fs)
  have "traverse (\<lambda>(n, x). with_value n (freeze init x)) fs = Inr fs"
    by (rule traverse_id) (use 2 in \<open>fastforce simp: with_value_def\<close>)
  then show ?case by simp
qed simp_all

lemma dict_of_distinct: "distinct (map fst ps) \<Longrightarrow> dict_of ps = ps"
proof (induction ps rule: rev_induct)
  case (snoc p ps)
  then show ?case by (cases p) (auto simp: dict_of_def dict_set_fresh dict_get_None_iff)
qed (simp add: dict_of_def)

lemma freeze_dict:
  assumes "distinct (map fst d)" "\<And>k x. (k, x) \<in> set d \<Longrightarrow> frozen k \<and> frozen x"
  shows "freeze init (PDict d) = Inr (PMap d)"
proof -
  have "traverse (\<lambda>(k, x). pair_result (freeze init k) (freeze init x)) d = Inr d"
    by (rule traverse_id) (use assms(2) in \<open>auto simp: freeze_id pair_result_def with_value_def\<close>)
  then show ?thesis using assms(1) by (simp add: on_result_def dict_of_distinct)
qed

lemma to_tuple_frozen: "frozen v \<Longrightarrow> to_tuple v = v"
  by (cases v) (simp_all add: to_tuple_def)

lemma frozen_seq: "frozen v \<Longrightarrow> is_seq v \<Longrightarrow> v = PTuple (items v)"
  by (cases v) (simp_all add: is_seq_def items_def)

section \<open>Construction keeps frozen fields\<close>

lemma attr_of: "distinct (map fst fs) \<Longrightarrow> (n, x) \<in> set fs \<Longrightarrow> attr n (PObj c fs) = x"
  by (simp add: attr_def)

lemma init_field_id:
  assumes "distinct (map fst fs)" "(n, x) \<in> set fs" "frozen x"
    and "c \<notin> set frozen_records \<Longrightarrow> init_checks env (PObj c fs) = None"
  shows "init_field env c (n, x) = Inr (n, x)"
proof (cases "c = ''ProfileReconfigDesc'' \<and> n = ''member_ids''")
  case True
  have "reconfig_checks (PObj c fs) = None"
    using assms(4) True by (simp add: frozen_records_def init_checks_def profile_checks_def class_of_def)
  then have "is_seq x" using True assms(1,2)
    by (auto simp: reconfig_checks_def seq_check_def attr_of)
  then have "x = PTuple (items x)" by (rule frozen_seq [OF assms(3)])
  moreover have "frozen y" if "y \<in> set (items x)" for y using assms(3) that by (cases x) (auto simp: items_def)
  ultimately have "tuple_field c n x = x" using True by (simp add: tuple_field_def to_tuple_frozen map_idI)
  then show ?thesis using True assms(3) by (simp add: init_field_def frozen_records_def normal_field_def with_value_def freeze_id)
next
  case False
  then have "tuple_field c n x = x" using assms(3) by (auto simp: tuple_field_def to_tuple_frozen)
  then show ?thesis using assms(3) by (simp add: init_field_def normal_field_def with_value_def freeze_id)
qed

lemma construct_frozen:
  assumes "construct env c fs = Inr v" "distinct (map fst fs)" "\<And>n x. (n, x) \<in> set fs \<Longrightarrow> frozen x"
  shows "v = PObj c fs"
proof -
  have "traverse (init_field env c) fs = Inr fs" if "c \<notin> set frozen_records \<Longrightarrow> init_checks env (PObj c fs) = None"
    by (rule traverse_id) (use assms(2,3) that init_field_id in fast)
  then show ?thesis using assms(1)
    by (auto simp: construct_def on_result_def split: if_splits option.splits)
qed

lemma class_fields_ok: "class_fields c = Some ns \<Longrightarrow> distinct ns \<and> ''$type'' \<notin> set ns"
proof -
  have "\<forall>(c, ns) \<in> set types. distinct ns \<and> ''$type'' \<notin> set ns" by code_simp
  moreover assume "class_fields c = Some ns"
  ultimately show ?thesis by (auto simp: class_fields_def dest!: dict_get_in_set)
qed

section \<open>Hexadecimal identities\<close>

lemma hex_digit_char: "c \<in> set ''0123456789abcdef'' \<Longrightarrow>
    hex_digit (nat (hex_digit_value c)) = c \<and> 0 \<le> hex_digit_value c \<and> hex_digit_value c < 16
    \<and> (hex_digit_value c = 0 \<longleftrightarrow> c = CHR ''0'')"
proof -
  have "\<forall>c \<in> set ''0123456789abcdef''. hex_digit (nat (hex_digit_value c)) = c \<and> 0 \<le> hex_digit_value c \<and> hex_digit_value c < 16
    \<and> (hex_digit_value c = 0 \<longleftrightarrow> c = CHR ''0'')" by code_simp
  then show "c \<in> set ''0123456789abcdef'' \<Longrightarrow> ?thesis" by blast
qed

lemma hex_value_snoc [simp]: "hex_value [] = 0" "hex_value (t @ [c]) = 16 * hex_value t + hex_digit_value c"
  by (simp_all add: hex_value_def)

lemma hex_value_text:
  "list_all (\<lambda>c. c \<in> set ''0123456789abcdef'') t \<Longrightarrow>
   hex_text (length t) (hex_value t) = t \<and> 0 \<le> hex_value t \<and> hex_value t < 16 ^ length t
   \<and> (hex_value t = 0 \<longleftrightarrow> hex_zero t)"
proof (induction t rule: rev_induct)
  case (snoc c t)
  then have c: "c \<in> set ''0123456789abcdef''" and t: "list_all (\<lambda>c. c \<in> set ''0123456789abcdef'') t" by (auto simp del: set_simps)
  note h = hex_digit_char [OF c] and ih = snoc.IH [OF t]
  have div: "(16 * hex_value t + hex_digit_value c) div 16 = hex_value t" "(16 * hex_value t + hex_digit_value c) mod 16 = hex_digit_value c"
    using h by (auto simp: div_mult_self4)
  have "16 * hex_value t + hex_digit_value c < 16 * 16 ^ length t" using h ih by linarith
  moreover have "16 * hex_value t + hex_digit_value c = 0 \<longleftrightarrow> hex_value t = 0 \<and> hex_digit_value c = 0" using h ih by linarith
  ultimately show ?case using h ih div by (auto simp: hex_zero_def)
qed (simp add: hex_zero_def)

lemma program_hash_round_trip:
  "is_hex64 t \<Longrightarrow> \<not> hex_zero t \<Longrightarrow> hex_text 64 (hex_value t) = t \<and> 0 < hex_value t \<and> hex_value t < 2 ^ 256"
  using hex_value_text [of t] by (auto simp: is_hex64_def)

section \<open>Printing does not see the order of keys\<close>

lemma map_sort_key_fst:
  fixes ps :: "('k :: linorder \<times> 'v) list"
  shows "map (\<lambda>(k, x). (k, f x)) (sort_key fst ps) = sort_key fst (map (\<lambda>(k, x). (k, f x)) ps)"
proof -
  have "map (\<lambda>(k, x). (k, f x)) (insort_key fst p ps) = insort_key fst (case p of (k, x) \<Rightarrow> (k, f x)) (map (\<lambda>(k, x). (k, f x)) ps)"
    for p and ps :: "('k \<times> 'v) list" by (induction ps) (auto split: prod.splits)
  then show ?thesis by (induction ps) auto
qed

definition same_object :: "(py_float \<Rightarrow> string) \<Rightarrow> (string \<times> json) list \<Rightarrow> (string \<times> json) list \<Rightarrow> bool" where
  "same_object ft ps qs \<longleftrightarrow> distinct (map fst ps) \<and> distinct (map fst qs)
     \<and> (\<forall>n. map_option (dumps ft) (dict_get ps n) = map_option (dumps ft) (dict_get qs n))"

lemma same_object_sorted:
  assumes "same_object ft ps qs"
  shows "map (\<lambda>(k, x). (k, dumps ft x)) (sort_key fst ps) = map (\<lambda>(k, x). (k, dumps ft x)) (sort_key fst qs)"
proof -
  let ?f = "map (\<lambda>(k, x). (k, dumps ft x))"
  have keys: "distinct (map fst (?f ps))" "distinct (map fst (?f qs))" using assms by (auto simp: same_object_def comp_def case_prod_beta)
  have eq: "dict_get (?f ps) n = dict_get (?f qs) n" for n using assms by (simp add: same_object_def map_of_map_snd)
  have "set (?f ps) = set (?f qs)"
  proof (intro set_eqI)
    fix p show "p \<in> set (?f ps) \<longleftrightarrow> p \<in> set (?f qs)"
      using eq dict_get_iff [OF keys(1)] dict_get_iff [OF keys(2)] by (cases p) (metis (no_types))
  qed
  moreover have "distinct (?f ps)" "distinct (?f qs)" using keys distinct_map [of fst "?f ps"] distinct_map [of fst "?f qs"] by blast+
  ultimately have "mset (?f ps) = mset (?f qs)" using set_eq_iff_mset_eq_distinct by blast
  moreover have "inj_on fst (set (?f ps))" using keys(1) distinct_map [of fst "?f ps"] by blast
  ultimately show ?thesis unfolding map_sort_key_fst by (intro sort_key_eq_sort_key) simp_all
qed

lemma same_object_dumps: "same_object ft ps qs \<Longrightarrow> dumps ft (JObj ps) = dumps ft (JObj qs)"
proof -
  assume "same_object ft ps qs"
  note eq = same_object_sorted [OF this]
  have body: "map (\<lambda>(k, x). json_string k @ '':'' @ dumps ft x) rs
      = map (\<lambda>(k, y). json_string k @ '':'' @ y) (map (\<lambda>(k, x). (k, dumps ft x)) rs)" for rs by auto
  show ?thesis unfolding dumps.simps body eq by (rule refl)
qed

lemma same_object_filter: "same_object ft ps qs \<Longrightarrow> same_object ft (filter (\<lambda>p. fst p \<noteq> n) ps) (filter (\<lambda>p. fst p \<noteq> n) qs)"
proof -
  have get: "dict_get (filter (\<lambda>p. fst p \<noteq> n) rs) m = (if m = n then None else dict_get rs m)" for rs :: "(string \<times> json) list" and m
    by (induction rs) auto
  show "same_object ft ps qs \<Longrightarrow> ?thesis"
    by (auto simp: same_object_def get distinct_map_filter)
qed

section \<open>Writing a loaded value\<close>

text \<open>
  A canonical tree, as \<open>json.loads\<close> builds it from a written file: no duplicate keys, and the pairs
  of an encoded mapping in the order of their keys' text.
\<close>

definition pair_key :: "(py_float \<Rightarrow> string) \<Rightarrow> json \<Rightarrow> string" where
  "pair_key ft p = (case p of JArr (k # _) \<Rightarrow> dumps ft k | _ \<Rightarrow> '''')"

fun canonical_tree :: "(py_float \<Rightarrow> string) \<Rightarrow> json \<Rightarrow> bool" where
  "canonical_tree ft (JArr xs) = (\<forall>x \<in> set xs. canonical_tree ft x)"
| "canonical_tree ft (JObj ps) =
     (distinct (map fst ps) \<and> (\<forall>(n, x) \<in> set ps. canonical_tree ft x)
      \<and> (case ps of [(n, JArr pairs)] \<Rightarrow> n = ''$map'' \<longrightarrow> sorted (map (pair_key ft) pairs) | _ \<Rightarrow> True))"
| "canonical_tree ft _ = True"

lemma collect_pairs_Inr:
  "collect_pairs f ps d = Inr d' \<Longrightarrow> distinct (map fst d) \<Longrightarrow>
   \<exists>e. d' = d @ e \<and> distinct (map fst d') \<and> (\<forall>(k, x) \<in> set e. is_str k \<or> is_int k)
     \<and> list_all2 (\<lambda>p (k, x). \<exists>a b. p = JArr [a, b] \<and> f a = Inr k \<and> f b = Inr x) ps e"
proof (induction ps arbitrary: d)
  case (Cons p ps)
  from Cons.prems(1) obtain k x where kx: "decode_pair f p = Inr (k, x)" "is_str k \<or> is_int k" "dict_get d k = None"
      "collect_pairs f ps (d @ [(k, x)]) = Inr d'"
    by (auto split: sum.splits prod.splits if_splits)
  have p: "\<exists>a b. p = JArr [a, b] \<and> f a = Inr k \<and> f b = Inr x"
    using kx(1) by (auto simp: decode_pair_def pair_result_def with_value_def split: json.splits list.splits sum.splits)
  have "distinct (map fst (d @ [(k, x)]))" using Cons.prems(2) kx(3) by (auto simp: dict_get_None_iff)
  from Cons.IH [OF kx(4) this] obtain e where e: "d' = (d @ [(k, x)]) @ e" "distinct (map fst d')"
      "\<forall>(k, x) \<in> set e. is_str k \<or> is_int k"
      "list_all2 (\<lambda>p (k, x). \<exists>a b. p = JArr [a, b] \<and> f a = Inr k \<and> f b = Inr x) ps e" by blast
  show ?case by (intro exI [of _ "(k, x) # e"]) (use e kx(2) p in auto)
qed simp

lemma decode_scalars [simp]:
  "decode env JNull = Inr PNone" "decode env (JStr n) = Inr (PStr n)" "decode env (JBool b) = Inr (PBool b)"
  "decode env (JInt i) = Inr (PInt i)"
  "decode env (JFloat f) = (if f = NonFinite then Inl (ValueError ''invalid executable scalar'') else Inr (PFloat f))"
  "decode env (JArr xs) = on_result PTuple (traverse (decode env) xs)"
  by (subst decode.simps, simp add: decode_with_def)+

lemma decode_enum_Inr:
  assumes "decode_enum ps = Inr v"
  shows "\<exists>c n. v = PEnum c n \<and> dict_get enums c \<noteq> None \<and> set (dict_keys ps) = {''$enum'', ''value''}
     \<and> dict_get ps ''$enum'' = Some (JStr c) \<and> dict_get ps ''value'' = Some (JStr n)"
proof -
  have keys: "set (dict_keys ps) = {''$enum'', ''value''}" using assms by (rule contrapos_pp) (simp add: decode_enum_def)
  obtain c where c: "dict_get ps ''$enum'' = Some (JStr c)"
    using assms keys by (cases "dict_get ps ''$enum''"; cases "the (dict_get ps ''$enum'')") (simp_all add: decode_enum_def)
  obtain ms where ms: "dict_get enums c = Some ms"
    using assms keys c by (cases "dict_get enums c") (simp_all add: decode_enum_def)
  obtain n where n: "dict_get ps ''value'' = Some (JStr n)"
    using assms keys c ms by (cases "dict_get ps ''value''"; cases "the (dict_get ps ''value'')") (simp_all add: decode_enum_def)
  have "v = PEnum c n" using assms keys c ms n by (cases "n \<in> set ms") (simp_all add: decode_enum_def)
  with keys c ms n show ?thesis by simp
qed

lemma decode_object_Inr:
  assumes "decode_object env f ps = Inr v"
  shows "\<exists>c ns kwargs. dict_get ps ''$type'' = Some (JStr c) \<and> class_fields c = Some ns
     \<and> set (dict_keys ps) = insert ''$type'' (set ns) \<and> traverse (decode_field f ps) ns = Inr kwargs
     \<and> construct env c kwargs = Inr v"
proof -
  obtain c where c: "dict_get ps ''$type'' = Some (JStr c)"
    using assms by (cases "dict_get ps ''$type''"; cases "the (dict_get ps ''$type'')") (simp_all add: decode_object_def)
  obtain ns where ns: "class_fields c = Some ns"
    using assms c by (cases "class_fields c") (simp_all add: decode_object_def)
  have keys: "set (dict_keys ps) = insert ''$type'' (set ns)"
    using assms c ns by (cases "set (dict_keys ps) = insert ''$type'' (set ns)") (simp_all add: decode_object_def)
  obtain kwargs where kw: "traverse (decode_field f ps) ns = Inr kwargs"
    using assms c ns keys by (cases "traverse (decode_field f ps) ns") (simp_all add: decode_object_def)
  have "construct env c kwargs = Inr v"
    using assms c ns keys kw by (auto simp: decode_object_def decode_instance_def split: sum.splits option.splits)
  with c ns keys kw show ?thesis by blast
qed

lemma decode_map_Inr:
  assumes "decode_map env f ps = Inr v"
  shows "\<exists>n pairs d. ps = [(n, JArr pairs)] \<and> collect_pairs f pairs [] = Inr d \<and> freeze (init_checks env) (PDict d) = Inr v"
  using assms by (auto simp: decode_map_def split: list.splits json.splits sum.splits prod.splits)

lemma construct_instance: "construct env c kwargs = Inr v \<Longrightarrow> \<exists>fs. v = PObj c fs"
  by (auto simp: construct_def on_result_def split: option.splits if_splits sum.splits)

lemma freeze_dict_map: "freeze init (PDict d) = Inr v \<Longrightarrow> \<exists>qs. v = PMap qs"
  by (auto simp: on_result_def split: sum.splits)

lemma decode_JObj:
  "decode env (JObj ps) =
     (if ''$map'' \<in> set (dict_keys ps) then decode_map env (decode env) ps
      else if ''$enum'' \<in> set (dict_keys ps) then decode_enum ps else decode_object env (decode env) ps)"
  by (subst decode.simps) (simp add: decode_with_def)

lemma decode_scalar_key:
  assumes "decode env j = Inr k" "is_str k \<or> is_int k"
  shows "j = (case k of PStr n \<Rightarrow> JStr n | PInt i \<Rightarrow> JInt i | _ \<Rightarrow> JNull)"
proof -
  have "False" if j: "j = JObj ps" for ps
  proof -
    from assms(1) j consider "decode_map env (decode env) ps = Inr k" | "decode_enum ps = Inr k"
      | "decode_object env (decode env) ps = Inr k" by (auto simp: decode_JObj split: if_splits)
    then have "(\<exists>qs. k = PMap qs) \<or> (\<exists>c n. k = PEnum c n) \<or> (\<exists>c fs. k = PObj c fs)"
    proof cases
      case 1
      from decode_map_Inr [OF this] obtain d where "freeze (init_checks env) (PDict d) = Inr k" by (elim exE conjE)
      from freeze_dict_map [OF this] show ?thesis by blast
    next
      case 2
      from decode_enum_Inr [OF this] show ?thesis by blast
    next
      case 3
      from decode_object_Inr [OF this] obtain c kwargs where "construct env c kwargs = Inr k" by (elim exE conjE)
      from construct_instance [OF this] show ?thesis by blast
    qed
    then show False using assms(2) by (auto simp: is_str_def is_int_def)
  qed
  moreover have "False" if "j = JArr xs" for xs
    using assms that by (auto simp: on_result_def is_str_def is_int_def split: sum.splits)
  ultimately show ?thesis
    using assms by (cases k; cases j) (simp_all add: is_str_def is_int_def split: if_splits)
qed

lemma list_all2_choice: "\<forall>x \<in> set xs. \<exists>y. R x y \<Longrightarrow> \<exists>ys. list_all2 R xs ys"
proof (induction xs)
  case (Cons x xs)
  then obtain y ys where "R x y" "list_all2 R xs ys" by auto
  then show ?case by (intro exI [of _ "y # ys"]) simp
qed (auto intro: exI [of _ "[]"])

text \<open>What the recursive calls of a decoding step give back, for the trees smaller than \<open>n\<close>.\<close>

definition rewritten :: "py_env \<Rightarrow> json \<Rightarrow> pyval \<Rightarrow> bool" where
  "rewritten env j v \<longleftrightarrow> frozen v \<and> (canonical_tree (pe_float_text env) j \<longrightarrow>
     (\<exists>j'. encode env v = Inr j' \<and> compact_text env j' = compact_text env j))"

definition rewritten_below :: "nat \<Rightarrow> py_env \<Rightarrow> bool" where
  "rewritten_below n env \<longleftrightarrow> (\<forall>u w. size u < n \<longrightarrow> decode env u = Inr w \<longrightarrow> rewritten env u w)"

lemma decode_field_rewritten:
  assumes "rewritten_below (size (JObj ps)) env" "decode_field (decode env) ps n = Inr (m, x)"
  shows "m = n \<and> frozen x \<and> (canonical_tree (pe_float_text env) (JObj ps) \<longrightarrow>
     (\<exists>e. encode_field (encode env) (n, x) = Inr (n, e) \<and> map_option (compact_text env) (dict_get ps n) = Some (compact_text env e)))"
proof -
  obtain u where u: "dict_get ps n = Some u"
    using assms(2) by (cases "dict_get ps n") (simp_all add: decode_field_def)
  have mem: "(n, u) \<in> set ps" by (rule dict_get_in_set [OF u])
  show ?thesis
  proof (cases "n = ''program_hash''")
    case True
    then obtain t where t: "u = JStr t" "is_hex64 t" "\<not> hex_zero t" "m = n" "x = PInt (hex_value t)"
      using assms(2) u by (cases u) (auto simp: decode_field_def split: if_splits)
    then show ?thesis
      using program_hash_round_trip [OF t(2,3)] True u
      by (simp add: encode_field_def is_int_def int_of_def)
  next
    case False
    then have d: "decode env u = Inr x" "m = n"
      using assms(2) u by (auto simp: decode_field_def with_value_def split: sum.splits)
    then have r: "rewritten env u x" using assms(1) json_size(2) [OF mem] by (simp add: rewritten_below_def)
    show ?thesis
    proof (intro conjI impI)
      show "frozen x" using r by (simp add: rewritten_def)
      assume "canonical_tree (pe_float_text env) (JObj ps)"
      then have "canonical_tree (pe_float_text env) u" using mem by auto
      with r obtain e where "encode env x = Inr e" "compact_text env e = compact_text env u" by (auto simp: rewritten_def)
      then show "\<exists>e. encode_field (encode env) (n, x) = Inr (n, e) \<and> map_option (compact_text env) (dict_get ps n) = Some (compact_text env e)"
        using False u by (auto simp: encode_field_def with_value_def)
    qed (rule d(2))
  qed
qed

lemma decode_object_rewritten:
  assumes "rewritten_below (size (JObj ps)) env" "decode_object env (decode env) ps = Inr v"
  shows "frozen v \<and> (canonical_tree (pe_float_text env) (JObj ps) \<longrightarrow>
     (\<exists>qs. encode env v = Inr (JObj qs) \<and> same_object (pe_float_text env) qs ps))"
proof -
  from decode_object_Inr [OF assms(2)] obtain c ns kwargs where
    c: "dict_get ps ''$type'' = Some (JStr c)" "class_fields c = Some ns" and
    keys: "set (dict_keys ps) = insert ''$type'' (set ns)" and
    kw: "traverse (decode_field (decode env) ps) ns = Inr kwargs" and con: "construct env c kwargs = Inr v"
    by (elim exE conjE)
  have ns: "distinct ns" "''$type'' \<notin> set ns" using class_fields_ok [OF c(2)] by simp_all
  have each: "list_all2 (\<lambda>n p. decode_field (decode env) ps n = Inr p) ns kwargs" using kw by (simp add: traverse_Inr)
  have names: "map fst kwargs = ns"
    using each by (induction rule: list_all2_induct) (auto dest!: decode_field_rewritten [OF assms(1)])
  have from_field: "decode_field (decode env) ps n = Inr (n, x)" if "(n, x) \<in> set kwargs" for n x
  proof -
    have "\<forall>p \<in> set kwargs. \<exists>m. decode_field (decode env) ps m = Inr p"
      using each by (induction rule: list_all2_induct) auto
    then obtain m where "decode_field (decode env) ps m = Inr (n, x)" using \<open>(n, x) \<in> set kwargs\<close> by blast
    then show ?thesis using decode_field_rewritten [OF assms(1)] by fastforce
  qed
  note fr = decode_field_rewritten [OF assms(1) from_field]
  have v: "v = PObj c kwargs"
    by (rule construct_frozen [OF con]) (use names ns(1) fr in auto)
  have "frozen v" using v fr by auto
  moreover have "\<exists>qs. encode env v = Inr (JObj qs) \<and> same_object (pe_float_text env) qs ps"
    if can: "canonical_tree (pe_float_text env) (JObj ps)"
  proof -
    have "\<forall>p \<in> set kwargs. \<exists>q. encode_field (encode env) p = Inr q \<and> fst q = fst p
        \<and> map_option (compact_text env) (dict_get ps (fst p)) = Some (compact_text env (snd q))"
      using fr can by fastforce
    from list_all2_choice [OF this] obtain es where
      es: "list_all2 (\<lambda>p q. encode_field (encode env) p = Inr q \<and> fst q = fst p
        \<and> map_option (compact_text env) (dict_get ps (fst p)) = Some (compact_text env (snd q))) kwargs es" by blast
    have "list_all2 (\<lambda>p q. encode_field (encode env) p = Inr q) kwargs es"
      by (rule list_all2_mono [OF es]) simp
    then have "traverse (encode_field (encode env)) kwargs = Inr es" by (simp add: traverse_Inr)
    then have enc: "encode env v = Inr (JObj ((''$type'', JStr c) # es))"
      using c(2) by (simp add: v on_result_def)
    have "map fst es = map fst kwargs" using es by (induction rule: list_all2_induct) auto
    then have fst_es: "map fst es = ns" using names by simp
    have "\<forall>(n, e) \<in> set es. map_option (compact_text env) (dict_get ps n) = Some (compact_text env e)"
      using es by (induction rule: list_all2_induct) auto
    then have val: "map_option (compact_text env) (dict_get ps n) = Some (compact_text env e)" if "(n, e) \<in> set es" for n e
      using that by blast
    have "map_option (compact_text env) (dict_get ((''$type'', JStr c) # es) n) = map_option (compact_text env) (dict_get ps n)" for n
    proof (cases "n = ''$type''")
      case False
      show ?thesis
      proof (cases "dict_get es n")
        case None
        then have "n \<notin> set (dict_keys ps)" using False keys fst_es by (auto simp: dict_get_None_iff)
        then have "dict_get ps n = None" by (simp add: dict_get_None_iff)
        with None False show ?thesis by simp
      next
        case (Some e)
        with val [OF dict_get_in_set [OF Some]] False show ?thesis by auto
      qed
    qed (simp add: c)
    then have "same_object (pe_float_text env) ((''$type'', JStr c) # es) ps"
      using can fst_es ns by (simp add: same_object_def compact_text_def [abs_def])
    with enc show ?thesis by blast
  qed
  ultimately show ?thesis by blast
qed

lemma encoded_pairs:
  assumes "list_all2 (\<lambda>p (k, x). \<exists>a b. p = JArr [a, b] \<and> decode env a = Inr k \<and> decode env b = Inr x) pairs d"
    and "\<forall>(k, x) \<in> set d. is_str k \<or> is_int k"
    and "\<And>a b x. JArr [a, b] \<in> set pairs \<Longrightarrow> decode env b = Inr x \<Longrightarrow> \<exists>e. encode env x = Inr e \<and> compact_text env e = compact_text env b"
  shows "\<exists>qs. list_all2 (\<lambda>(k, x) q. pair_result (encode env k) (encode env x) = Inr q) d qs
     \<and> list_all2 (\<lambda>p q. \<exists>b. p = JArr [fst q, b] \<and> compact_text env (snd q) = compact_text env b) pairs qs"
  using assms
proof (induction rule: list_all2_induct)
  case Nil
  show ?case by (intro exI [of _ "[]"]) simp
next
  case (Cons p pairs q d)
  obtain k x where q: "q = (k, x)" by (cases q)
  with Cons.hyps obtain a b where p: "p = JArr [a, b]" "decode env a = Inr k" "decode env b = Inr x" by auto
  have k: "is_str k \<or> is_int k" using Cons.prems(1) q by simp
  then have ek: "encode env k = Inr a" using decode_scalar_key [OF p(2)] by (cases k) (simp_all add: is_str_def is_int_def)
  obtain e where e: "encode env x = Inr e" "compact_text env e = compact_text env b" using Cons.prems(2) p by force
  obtain qs where "list_all2 (\<lambda>(k, x) q. pair_result (encode env k) (encode env x) = Inr q) d qs"
      "list_all2 (\<lambda>p q. \<exists>b. p = JArr [fst q, b] \<and> compact_text env (snd q) = compact_text env b) pairs qs"
    using Cons.IH Cons.prems by force
  then show ?case
    by (intro exI [of _ "(a, e) # qs"]) (use q p ek e in \<open>auto simp: pair_result_def with_value_def\<close>)
qed

lemma decode_map_rewritten:
  assumes "rewritten_below (size (JObj ps)) env" "decode_map env (decode env) ps = Inr v" "''$map'' \<in> set (dict_keys ps)"
  shows "rewritten env (JObj ps) v"
proof -
  from decode_map_Inr [OF assms(2)] obtain n pairs d where
    ps: "ps = [(n, JArr pairs)]" and d: "collect_pairs (decode env) pairs [] = Inr d" and
    v: "freeze (init_checks env) (PDict d) = Inr v" by (elim exE conjE)
  have n: "n = ''$map''" using assms(3) ps by simp
  from collect_pairs_Inr [OF d] have dist: "distinct (map fst d)" and keys: "\<forall>(k, x) \<in> set d. is_str k \<or> is_int k"
    and each: "list_all2 (\<lambda>p (k, x). \<exists>a b. p = JArr [a, b] \<and> decode env a = Inr k \<and> decode env b = Inr x) pairs d" by auto
  have origin: "\<exists>a b. JArr [a, b] \<in> set pairs \<and> decode env a = Inr k \<and> decode env b = Inr x" if "(k, x) \<in> set d" for k x
  proof -
    have "\<forall>q \<in> set d. case q of (k, x) \<Rightarrow> \<exists>a b. JArr [a, b] \<in> set pairs \<and> decode env a = Inr k \<and> decode env b = Inr x"
      using each by (induction rule: list_all2_induct) fastforce+
    with that show ?thesis by blast
  qed
  have below: "rewritten env a k" if "JArr [a, b] \<in> set pairs" "decode env a = Inr k" for a b k
    using assms(1) json_size(1) [OF that(1)] that(2) by (simp add: rewritten_below_def ps)
  have below': "rewritten env b x" if "JArr [a, b] \<in> set pairs" "decode env b = Inr x" for a b x
    using assms(1) json_size(1) [OF that(1)] that(2) by (simp add: rewritten_below_def ps)
  have fro: "frozen k \<and> frozen x" if "(k, x) \<in> set d" for k x
    using origin [OF that] below below' by (auto simp: rewritten_def)
  have vm: "v = PMap d" using v freeze_dict [OF dist fro] by simp
  have "\<exists>j'. encode env v = Inr j' \<and> compact_text env j' = compact_text env (JObj ps)"
    if can: "canonical_tree (pe_float_text env) (JObj ps)"
  proof -
    have sorted: "sorted (map (pair_key (pe_float_text env)) pairs)" and cp: "\<forall>p \<in> set pairs. canonical_tree (pe_float_text env) p"
      using can by (simp_all add: ps n)
    have "\<exists>qs. list_all2 (\<lambda>(k, x) q. pair_result (encode env k) (encode env x) = Inr q) d qs
        \<and> list_all2 (\<lambda>p q. \<exists>b. p = JArr [fst q, b] \<and> compact_text env (snd q) = compact_text env b) pairs qs"
      by (rule encoded_pairs [OF each keys]) (use below' cp in \<open>fastforce simp: rewritten_def\<close>)
    then obtain qs where enc: "traverse (\<lambda>(k, x). pair_result (encode env k) (encode env x)) d = Inr qs"
      and qs: "list_all2 (\<lambda>p q. \<exists>b. p = JArr [fst q, b] \<and> compact_text env (snd q) = compact_text env b) pairs qs"
      by (auto simp: traverse_Inr case_prod_beta')
    have "map (pair_key (pe_float_text env)) pairs = map (\<lambda>q. dumps (pe_float_text env) (fst q)) qs"
      using qs by (induction rule: list_all2_induct) (auto simp: pair_key_def)
    then have "sort_key (\<lambda>q. dumps (pe_float_text env) (fst q)) qs = qs"
      using sorted by (simp add: sort_key_id_if_sorted)
    then have e: "encode env v = Inr (JObj [(''$map'', JArr (map (\<lambda>(k, x). JArr [k, x]) qs))])"
      by (simp add: vm enc on_result_def encode_map_def)
    have "map (dumps (pe_float_text env)) (map (\<lambda>(k, x). JArr [k, x]) qs) = map (dumps (pe_float_text env)) pairs"
      using qs by (induction rule: list_all2_induct) (auto simp: compact_text_def)
    then have "dumps (pe_float_text env) (JArr (map (\<lambda>(k, x). JArr [k, x]) qs)) = dumps (pe_float_text env) (JArr pairs)"
      unfolding dumps.simps by (rule arg_cong)
    then have "compact_text env (JObj [(''$map'', JArr (map (\<lambda>(k, x). JArr [k, x]) qs))]) = compact_text env (JObj ps)"
      unfolding compact_text_def ps n by (intro same_object_dumps) (auto simp: same_object_def)
    with e show ?thesis by blast
  qed
  then show ?thesis using fro by (simp add: rewritten_def vm)
qed

lemma decode_array_rewritten:
  assumes "rewritten_below (size (JArr xs)) env" "decode env (JArr xs) = Inr v"
  shows "rewritten env (JArr xs) v"
proof -
  from assms(2) obtain vs where vs: "traverse (decode env) xs = Inr vs" "v = PTuple vs"
    by (auto simp: on_result_def split: sum.splits)
  then have each: "list_all2 (\<lambda>j x. decode env j = Inr x) xs vs" by (simp add: traverse_Inr)
  have sub: "list_all2 (\<lambda>j x. rewritten env j x) xs vs"
    by (rule list.rel_mono_strong [OF each]) (use assms(1) json_size(1) in \<open>simp add: rewritten_below_def\<close>)
  have fro: "\<forall>x \<in> set vs. frozen x" using sub by (induction rule: list_all2_induct) (auto simp: rewritten_def)
  have "\<exists>j'. encode env v = Inr j' \<and> compact_text env j' = compact_text env (JArr xs)"
    if "canonical_tree (pe_float_text env) (JArr xs)"
  proof -
    have "\<exists>es. traverse (encode env) vs = Inr es \<and> map (dumps (pe_float_text env)) es = map (dumps (pe_float_text env)) xs"
      using sub that by (induction rule: list_all2_induct) (auto simp: rewritten_def compact_text_def)
    then obtain es where es: "traverse (encode env) vs = Inr es"
        "map (dumps (pe_float_text env)) es = map (dumps (pe_float_text env)) xs" by blast
    have "compact_text env (JArr es) = compact_text env (JArr xs)" unfolding compact_text_def dumps.simps es(2) by (rule refl)
    then show ?thesis using es(1) by (simp add: vs on_result_def)
  qed
  then show ?thesis using fro vs by (simp add: rewritten_def)
qed

lemma decode_enum_rewritten:
  assumes "decode_enum ps = Inr v"
  shows "rewritten env (JObj ps) v"
proof -
  from decode_enum_Inr [OF assms] obtain c n where v: "v = PEnum c n" "dict_get enums c \<noteq> None"
    "set (dict_keys ps) = {''$enum'', ''value''}" "dict_get ps ''$enum'' = Some (JStr c)" "dict_get ps ''value'' = Some (JStr n)"
    by (elim exE conjE)
  have "compact_text env (JObj [(''$enum'', JStr c), (''value'', JStr n)]) = compact_text env (JObj ps)"
    if "canonical_tree (pe_float_text env) (JObj ps)"
  proof -
    have "dict_get ps m = None" if "m \<noteq> ''$enum''" "m \<noteq> ''value''" for m
      using that v(3) by (simp add: dict_get_None_iff)
    then show ?thesis
      unfolding compact_text_def using that v by (intro same_object_dumps) (auto simp: same_object_def)
  qed
  then show ?thesis using v(1,2) by (auto simp: rewritten_def simp del: canonical_tree.simps)
qed

lemma decode_rewritten: "decode env j = Inr v \<Longrightarrow> rewritten env j v"
proof (induction "size j" arbitrary: j v rule: less_induct)
  case less
  then have below: "rewritten_below (size j) env" by (simp add: rewritten_below_def)
  show ?case
  proof (cases j)
    case (JObj ps)
    consider "decode_map env (decode env) ps = Inr v" "''$map'' \<in> set (dict_keys ps)" | "decode_enum ps = Inr v"
      | "decode_object env (decode env) ps = Inr v"
      using less.prems unfolding JObj decode_JObj by (cases "''$map'' \<in> set (dict_keys ps)"; cases "''$enum'' \<in> set (dict_keys ps)") simp_all
    then show ?thesis
    proof cases
      case 1
      then show ?thesis using decode_map_rewritten below unfolding JObj by blast
    next
      case 2
      then show ?thesis unfolding JObj by (rule decode_enum_rewritten)
    next
      case 3
      from decode_object_rewritten [OF below [unfolded JObj] this] show ?thesis
        unfolding rewritten_def JObj by (auto simp: compact_text_def dest: same_object_dumps)
    qed
  next
    case (JArr xs)
    then show ?thesis using decode_array_rewritten below less.prems unfolding JArr by blast
  qed (use less.prems in \<open>auto simp: rewritten_def split: if_splits\<close>)
qed

section \<open>Loading and saving\<close>

lemma parse_Inr:
  assumes "parse_compiled_program env j = Inr p"
  shows "decode env j = Inr p \<and> validate_program env False p = None \<and> artifact_check env p = None"
  using assms by (auto simp: parse_compiled_program_def raising_def split: sum.splits option.splits)

lemma loaded_object:
  assumes "parse_compiled_program env j = Inr p" "canonical_tree (pe_float_text env) j"
  shows "\<exists>ps qs. j = JObj ps \<and> encode env p = Inr (JObj qs) \<and> same_object (pe_float_text env) qs ps"
proof -
  note p = parse_Inr [OF assms(1)]
  have cls: "class_of p = ''CompiledProgram''" using p by (auto simp: validate_program_def instance_check_def)
  show ?thesis
  proof (cases j)
    case (JObj ps)
    consider "decode_map env (decode env) ps = Inr p" | "decode_enum ps = Inr p" | "decode_object env (decode env) ps = Inr p"
      using p unfolding JObj decode_JObj by (cases "''$map'' \<in> set (dict_keys ps)"; cases "''$enum'' \<in> set (dict_keys ps)") simp_all
    then show ?thesis
    proof cases
      case 1
      from decode_map_Inr [OF this] obtain d where "freeze (init_checks env) (PDict d) = Inr p" by (elim exE conjE)
      from freeze_dict_map [OF this] cls show ?thesis by (auto simp: class_of_def)
    next
      case 2
      from decode_enum_Inr [OF this] obtain c n where "p = PEnum c n" by (elim exE conjE)
      with cls show ?thesis by (simp add: class_of_def)
    next
      case 3
      have "rewritten_below (size (JObj ps)) env" using decode_rewritten by (simp add: rewritten_below_def)
      from decode_object_rewritten [OF this 3] assms(2) JObj show ?thesis by blast
    qed
  qed (use p cls in \<open>auto simp: class_of_def on_result_def split: if_splits sum.splits\<close>)
qed

lemma canonical_check_sealed: "digest_check False v = None \<Longrightarrow> digest_check True v = None"
  by (auto simp: digest_check_def)

lemma validate_unsealed: "validate_program env False p = None \<Longrightarrow> validate_program env True p = None"
  by (simp add: validate_program_def validate_compiled_program_def canonical_check_sealed)

text \<open>C7. Loading and saving are inverse on the text. Whatever program a canonical file loads as,
  saving it succeeds and prints the same canonical text, so no field, order of arguments,
  identity hash or mapping key is lost or changed by a round trip; and the artifact hash
  the program carries is the hash of exactly the text it was loaded from, without the hash
  field itself.
\<close>

theorem load_save_round_trip:
  assumes "parse_compiled_program env j = Inr p" "canonical_tree (pe_float_text env) j"
  shows "\<exists>j'. serialize_compiled_program env p = Inr j' \<and> compact_text env j' = compact_text env j
     \<and> attr ''artifact_hash'' p = PStr (pe_sha256 env (compact_text env (without ''artifact_hash'' j)))"
proof -
  note p = parse_Inr [OF assms(1)]
  from loaded_object [OF assms] obtain ps qs where
    j: "j = JObj ps" and enc: "encode env p = Inr (JObj qs)" and same: "same_object (pe_float_text env) qs ps"
    by (elim exE conjE)
  have printed: "compact_text env (JObj qs) = compact_text env (JObj ps)"
    unfolding compact_text_def by (rule same_object_dumps [OF same])
  have stripped: "compact_text env (without ''artifact_hash'' (JObj qs)) = compact_text env (without ''artifact_hash'' (JObj ps))"
    unfolding compact_text_def without_def by (simp only: json.case same_object_dumps [OF same_object_filter [OF same]])
  have "artifact_digest env p = Inr (pe_sha256 env (compact_text env (without ''artifact_hash'' (JObj qs))))"
    using p enc by (simp add: artifact_digest_def raising_def validate_unsealed on_result_def)
  then have "attr ''artifact_hash'' p = PStr (pe_sha256 env (compact_text env (without ''artifact_hash'' (JObj ps))))"
    using p stripped by (auto simp: artifact_check_def split: sum.splits)
  moreover have "serialize_compiled_program env p = Inr (JObj qs)"
    using p enc by (simp add: serialize_compiled_program_def raising_def)
  ultimately show ?thesis using printed j by auto
qed

section \<open>A concrete file\<close>

definition demo_hash :: string where
  "demo_hash = replicate 64 CHR ''1''"

definition demo_env :: py_env where
  "demo_env = \<lparr>pe_sha256 = (\<lambda>_. demo_hash), pe_float_text = (\<lambda>_. ''0.0''), pe_str = (\<lambda>_. '''')\<rparr>"

definition json_object :: "string \<Rightarrow> (string \<times> json) list \<Rightarrow> json" where
  "json_object c fs = JObj ((''$type'', JStr c) # fs)"

definition json_map :: "(json \<times> json) list \<Rightarrow> json" where
  "json_map ps = JObj [(''$map'', JArr (map (\<lambda>(k, x). JArr [k, x]) ps))]"

definition demo_source_ref :: json where
  "demo_source_ref = json_object ''SourceRef''
     [(''source_name'', JStr ''s''), (''symbol'', JStr ''f''), (''body_op_index'', JInt 0), (''op_name'', JStr ''o''),
      (''generated_by'', JStr ''''), (''reason'', JStr '''')]"

definition demo_target :: json where
  "demo_target = json_object ''MemoryLevelTarget''
     [(''system_reserved_spm_per_bank'', JInt 0), (''reset_mode'', JInt 0), (''spm_mapping_id'', JStr ''striped_arena_v0''),
      (''cache_org_id'', JStr ''profiled_lru_v0''), (''cache_write_policy'', JStr ''write_back''), (''maintenance_caps'', JArr [])]"

definition demo_profile :: "string \<Rightarrow> json" where
  "demo_profile level = json_object ''MemoryProfile''
     [(''level'', JStr level), (''mode'', JInt 0), (''bank_bytes'', JInt 64), (''banks'', JInt 1), (''pools'', JInt 1),
      (''spm_bytes_per_bank'', JInt 64), (''cache_bytes_per_bank'', JInt 0), (''system_reserved_spm_per_bank'', JInt 0),
      (''alignment'', JInt 64), (''spm_mapping_id'', JStr ''striped_arena_v0''), (''cache_org_id'', JStr ''profiled_lru_v0''),
      (''cache_write_policy'', JStr ''write_back''), (''maintenance_caps'', JArr [])]"

definition demo_registry :: json where
  "demo_registry = json_object ''ProfileRegistry''
     [(''l1'', json_map [(JInt 0, demo_profile ''l1'')]), (''l2'', json_map [(JInt 0, demo_profile ''l2'')]),
      (''target'', json_object ''MemoryTargetConfig''
        [(''l1'', demo_target), (''l2'', demo_target), (''profile_command_timeout_cycles'', JInt 9)]),
      (''registry_hash'', JStr demo_hash), (''abi'', JStr ''v0'')]"

definition demo_action_json :: json where
  "demo_action_json = json_object ''ExecGroupAction''
     [(''op'', JObj [(''$enum'', JStr ''ExecGroupActionOp''), (''value'', JStr ''signal.event'')]), (''args'', JArr [JStr ''e'']),
      (''dst'', JNull), (''comment'', JStr ''''), (''dependencies'', JArr []), (''reads'', JArr []), (''writes'', JArr []),
      (''source_ref'', demo_source_ref), (''instruction_id'', JStr ''i'')]"

definition demo_entry :: json where
  "demo_entry = json_object ''ExecTileGroupTask''
     [(''name'', JStr ''t''), (''actions'', JArr [demo_action_json]), (''streams'', JArr []), (''role_bindings'', json_map []),
      (''completion_event'', JStr ''e''), (''global_inputs'', JArr []), (''l2_buffers'', JArr []),
      (''resource_contract'', json_object ''ContextResources''
        [(''l2_mode'', JInt 0), (''allowed_profiles'', JArr [JInt 0]), (''logical_tasks'', JInt 1), (''l2_spm_bytes'', JInt 0),
         (''requested_contexts_per_tile'', JInt 1), (''l2_cache'', JNull)]),
      (''layout'', json_object ''ArenaLayout''
        [(''alignment'', JInt 64), (''stripe_bytes'', JInt 64), (''reserved_bytes'', JInt 64), (''per_bank_bytes'', JArr [JInt 64]),
         (''buffer_layouts'', JArr []), (''layout_hash'', JStr '''')]),
      (''binding_id'', JStr ''b''), (''event_uses'', json_map [(JStr ''e'', JInt 0)]), (''shared_inputs'', JArr [])]"

definition demo_state :: json where
  "demo_state = json_object ''ProfileState'' [(''l1_mode'', JInt 0), (''l2_mode'', JInt 0)]"

definition demo_file :: json where
  "demo_file = json_object ''CompiledProgram''
     [(''schema_version'', JInt 3), (''compiler_abi'', JStr ''v3''), (''source_hash'', JStr demo_hash), (''source_ir'', JStr ''x''),
      (''registry'', demo_registry), (''registry_hash'', JStr demo_hash), (''target_hash'', JStr demo_hash),
      (''artifact_hash'', JStr demo_hash), (''entry_kind'', JStr ''standalone''), (''entry'', demo_entry), (''entry_prefix'', JArr []),
      (''call_bindings'', json_map []), (''relocations'', JArr []), (''source_map'', json_map []),
      (''dependency_proofs'', json_map []), (''entry_profiles'', demo_state), (''exit_profiles'', demo_state),
      (''static_effects'', json_map []), (''resource_budgets'', json_map []), (''binding_guards'', JArr []),
      (''workload_info'', json_object ''WorkloadInfo''
        [(''name'', JStr ''w''), (''description'', JStr ''d''), (''expected'', json_map [])])]"

text \<open>The action of the file as it is loaded.\<close>

definition demo_loaded_action :: pyval where
  "demo_loaded_action = PObj ''ExecGroupAction''
     [(''op'', PEnum ''ExecGroupActionOp'' ''signal.event''), (''args'', PTuple [PStr ''e'']), (''dst'', PNone),
      (''comment'', PStr ''''), (''dependencies'', PTuple []), (''reads'', PTuple []), (''writes'', PTuple []),
      (''source_ref'', PObj ''SourceRef''
        [(''source_name'', PStr ''s''), (''symbol'', PStr ''f''), (''body_op_index'', PInt 0), (''op_name'', PStr ''o''),
         (''generated_by'', PStr ''''), (''reason'', PStr '''')]), (''instruction_id'', PStr ''i'')]"

lemma demo_file_loads:
  "case parse_compiled_program demo_env demo_file of Inl e \<Rightarrow> False
   | Inr p \<Rightarrow> attr ''entry_kind'' p = PStr ''standalone'' \<and> items (attr ''actions'' (attr ''entry'' p)) = [demo_loaded_action]"
  by code_simp

lemma demo_file_canonical: "canonical_tree (pe_float_text demo_env) demo_file"
  by code_simp

theorem load_save_round_trip_witness:
  "\<exists>p j'. parse_compiled_program demo_env demo_file = Inr p \<and> serialize_compiled_program demo_env p = Inr j'
     \<and> compact_text demo_env j' = compact_text demo_env demo_file"
proof -
  obtain p where p: "parse_compiled_program demo_env demo_file = Inr p"
    using demo_file_loads by (cases "parse_compiled_program demo_env demo_file") auto
  from load_save_round_trip [OF p demo_file_canonical] p show ?thesis by blast
qed

end
