(* ===== verification/Action_Typing.thy ===== *)
theory Action_Typing
  imports Scheduler_Props Codec_Props
begin

text \<open>
  The loader and the scheduler together. A validated \<open>ExecGroupAction\<close> of a package
  (\<open>src/pipeline_validator/compiled_program.py\<close>) is read as the action record the sequencer issues
  (\<open>src/pipeline_validator/tile_group_sequencer.py\<close>), and the argument checks of the validator are
  shown to be the ones the issue handlers rely on: no handler runs past the end of an argument
  tuple, finds an argument of the wrong class or calls the group with one.
\<close>

section \<open>Errors of an operation\<close>

text \<open>\<open>calm r\<close>: the outcome keeps the invariant and raises at most the exceptions \<open>caught\<close> accepts.\<close>

locale error_logic =
  fixes inv :: "'s \<Rightarrow> bool" and caught :: "py_error \<Rightarrow> bool"
begin

definition calm :: "('s, 'a) outcome \<Rightarrow> bool" where
  "calm r \<longleftrightarrow> inv (snd r) \<and> (\<forall>e. fst r = Inl e \<longrightarrow> caught e)"

lemma calm_ret: "inv s \<Longrightarrow> calm (Inr x, s)"
  by (simp add: calm_def)

lemma calm_raise: "inv s \<Longrightarrow> caught e \<Longrightarrow> calm (Inl e, s)"
  by (simp add: calm_def)

lemma calm_and_then:
  assumes "calm r" "\<And>x s. r = (Inr x, s) \<Longrightarrow> inv s \<Longrightarrow> calm (k x s)"
  shows "calm (and_then r k)"
  using assms by (auto simp: calm_def and_then_def split: prod.splits sum.splits)

lemma calm_if: "(b \<Longrightarrow> calm x) \<Longrightarrow> (\<not> b \<Longrightarrow> calm y) \<Longrightarrow> calm (if b then x else y)"
  by simp

lemma calm_opt:
  "(m = None \<Longrightarrow> calm x) \<Longrightarrow> (\<And>e. m = Some e \<Longrightarrow> calm (f e)) \<Longrightarrow> calm (case m of None \<Rightarrow> x | Some e \<Rightarrow> f e)"
  by (simp split: option.splits)

lemma calm_sum:
  "(\<And>e. w = Inl e \<Longrightarrow> calm (f e)) \<Longrightarrow> (\<And>x. w = Inr x \<Longrightarrow> calm (g x)) \<Longrightarrow>
   calm (case w of Inl e \<Rightarrow> f e | Inr x \<Rightarrow> g x)"
  by (simp split: sum.splits)

lemmas calm_rules = calm_ret calm_raise calm_and_then calm_if calm_opt calm_sum

end

section \<open>Events raise protocol errors\<close>

interpretation ev: error_logic "\<lambda>_ :: event_table. True" is_protocol_error .

lemma is_protocol_error_simps [simp]: "is_protocol_error (EventProtocolError m)"
  by (simp add: is_protocol_error_def)

lemma calm_et_quota: "ev.calm (et_quota owner gen t)"
  by (simp add: et_quota_def ev.calm_def split: option.splits)

lemma calm_validate_identity: "ev.calm (validate_identity e owner gen b t)"
  by (simp add: validate_identity_def ev.calm_def)

lemma calm_retire_entry: "ev.calm (retire_entry name cycle reason t)"
  by (simp add: retire_entry_def ev.calm_def Let_def split: option.splits)

lemma calm_maybe_reclaim: "ev.calm (maybe_reclaim name cycle reason t)"
  by (auto simp: maybe_reclaim_def intro!: ev.calm_rules calm_retire_entry)

lemma calm_check_entries: "ev.calm (check_entries names owner gen absent good bad t)"
  by (induction names arbitrary: t) (auto intro!: ev.calm_rules calm_validate_identity)

lemma calm_update_and_reclaim: "ev.calm (update_and_reclaim f names cycle reason t)"
  by (induction names arbitrary: t) (auto intro!: ev.calm_rules calm_maybe_reclaim)

lemma calm_unique_names:
  "(\<And>names'. ev.calm (f names')) \<Longrightarrow> ev.calm (case unique_names names kind of Inl e \<Rightarrow> raise e t | Inr names' \<Rightarrow> f names')"
  by (auto simp: unique_names_def ev.calm_def split: if_splits)

lemma calm_cancel_outputs: "ev.calm (cancel_outputs names owner gen producer cycle t)"
  unfolding cancel_outputs_def
  by (intro calm_unique_names ev.calm_and_then calm_check_entries calm_update_and_reclaim)

lemma calm_cancel_dependencies: "ev.calm (cancel_dependencies names owner gen cycle t)"
  unfolding cancel_dependencies_def
  by (intro calm_unique_names ev.calm_and_then calm_et_quota calm_check_entries calm_update_and_reclaim)

lemma calm_abandon_future_uses: "ev.calm (abandon_future_uses owner gen cycle t)"
  unfolding abandon_future_uses_def
  by (intro ev.calm_and_then ev.calm_if ev.calm_raise calm_et_quota calm_update_and_reclaim) simp_all

lemma calm_signal_entry: "ev.calm (signal_entry name e status producer cycle code eo eg es t)"
  unfolding signal_entry_def
  by (auto simp: Let_def split: prod.splits sum.splits intro!: ev.calm_rules calm_maybe_reclaim)

lemma calm_signal: "ev.calm (signal name status producer cycle code eo eg es t)"
  unfolding signal_def
  by (auto split: prod.splits sum.splits intro!: ev.calm_rules calm_signal_entry)

lemma calm_cancel_all_dependencies: "ev.calm (cancel_all_dependencies recs owner gen cycle t)"
  by (induction recs arbitrary: t) (auto intro!: ev.calm_rules calm_cancel_dependencies)

lemma calm_cancel_all_outputs:
  "\<forall>rec \<in> set recs. \<exists>outs. output_events (ra_action rec) = Inr outs \<Longrightarrow> ev.calm (cancel_all_outputs recs owner gen cycle t)"
  by (induction recs arbitrary: t) (auto intro!: ev.calm_rules calm_cancel_outputs)

lemma calm_cancel_context_events_of:
  "\<forall>rec \<in> set recs. \<exists>outs. output_events (ra_action rec) = Inr outs
     \<Longrightarrow> ev.calm (cancel_context_events_of recs owner gen cycle t)"
  unfolding cancel_context_events_of_def
  by (intro ev.calm_and_then calm_cancel_all_outputs calm_cancel_all_dependencies calm_abandon_future_uses)

section \<open>Actions of a package\<close>

definition op_table :: "(string \<times> group_action_op) list" where
  "op_table =
     [(''init.stream'', INIT_STREAM), (''dma.prefetch'', DMA_PREFETCH), (''dma.store'', DMA_STORE),
      (''dispatch.role'', DISPATCH_ROLE), (''wait.event'', WAIT_EVENT), (''barrier.group'', BARRIER_GROUP),
      (''collective.run'', COLLECTIVE_RUN), (''signal.event'', SIGNAL_EVENT), (''release.l2'', RELEASE_L2),
      (''bind.l2.view'', BIND_L2_VIEW), (''publish.l2'', PUBLISH_L2), (''bind.l2.import'', BIND_L2_IMPORT),
      (''profile.reconfig'', PROFILE_RECONFIG), (''memory.maintenance'', MEMORY_MAINTENANCE)]"

definition optional_of :: "pyval \<Rightarrow> string option" where
  "optional_of v = (case v of PStr n \<Rightarrow> Some n | _ \<Rightarrow> None)"

definition strings_of :: "pyval \<Rightarrow> string list" where
  "strings_of v = map str_of (items v)"

definition ints_of :: "pyval \<Rightarrow> int list" where
  "ints_of v = map int_of (items v)"

definition dispatch_of :: "pyval \<Rightarrow> exec_dispatch_request" where
  "dispatch_of v =
     \<lparr>dq_role_id = iattr ''role_id'' v, dq_dispatch_ordinal = iattr ''dispatch_ordinal'' v,
      dq_signal_policy = \<lparr>sp_input_released = optional_of (attr ''input_released'' (attr ''signal_policy'' v)),
        sp_output_ready = optional_of (attr ''output_ready'' (attr ''signal_policy'' v))\<rparr>,
      dq_input_released_event = str_of (attr ''input_released_event'' v),
      dq_output_ready_event = str_of (attr ''output_ready_event'' v),
      dq_requested_l1_mode = iattr ''requested_l1_mode'' v, dq_resolved_l1_mode = iattr ''resolved_l1_mode'' v,
      dq_binding_id = str_of (attr ''binding_id'' v)\<rparr>"

definition release_of :: "pyval \<Rightarrow> exec_release_request" where
  "release_of v =
     \<lparr>lq_buffer_slot = str_of (attr ''buffer_slot'' v), lq_buffer_role = str_of (attr ''buffer_role'' v),
      lq_reader_dispatch_ordinals = ints_of (attr ''reader_dispatch_ordinals'' v),
      lq_writer_dispatch_ordinals = ints_of (attr ''writer_dispatch_ordinals'' v),
      lq_dependency_events = strings_of (attr ''dependency_events'' v)\<rparr>"

definition publish_of :: "pyval \<Rightarrow> exec_publish_request" where
  "publish_of v =
     \<lparr>pq_buffer_slot = str_of (attr ''buffer_slot'' v),
      pq_reader_dispatch_ordinals = ints_of (attr ''reader_dispatch_ordinals'' v),
      pq_writer_dispatch_ordinals = ints_of (attr ''writer_dispatch_ordinals'' v),
      pq_dependency_events = strings_of (attr ''dependency_events'' v)\<rparr>"

text \<open>
  The argument a handler sees. A control descriptor carries its dependencies only where its
  class has them; transfers, and literals no handler looks into, stay values.
\<close>

definition arg_of :: "pyval \<Rightarrow> pyval group_arg" where
  "arg_of v =
     (if is_str v then ArgStr (str_of v)
      else if is_int v then ArgInt (int_of v)
      else if class_of v = ''ExecDispatchRequest'' then ArgDispatch (dispatch_of v)
      else if class_of v = ''ExecReleaseRequest'' then ArgRelease (release_of v)
      else if class_of v = ''ExecPublishRequest'' then ArgPublish (publish_of v)
      else if class_of v = ''ProfileReconfigDesc'' then ArgCommand (str_of (attr ''command_id'' v)) None v
      else if class_of v = ''MemoryMaintenanceDesc''
      then ArgCommand (str_of (attr ''command_id'' v)) (Some (strings_of (attr ''dependencies'' v))) v
      else ArgTransfer v)"

definition op_of :: "pyval \<Rightarrow> group_action_op option" where
  "op_of v = (case attr ''op'' v of PEnum c n \<Rightarrow> if c = ''ExecGroupActionOp'' then dict_get op_table n else None | _ \<Rightarrow> None)"

definition action_of :: "pyval \<Rightarrow> pyval exec_group_action option" where
  "action_of v = map_option (\<lambda>op.
     \<lparr>ac_op = op, ac_args = map arg_of (items (attr ''args'' v)), ac_dst = optional_of (attr ''dst'' v),
      ac_comment = str_of (attr ''comment'' v), ac_dependencies = strings_of (attr ''dependencies'' v),
      ac_reads = strings_of (attr ''reads'' v), ac_writes = strings_of (attr ''writes'' v),
      ac_instruction_id = str_of (attr ''instruction_id'' v)\<rparr>) (op_of v)"

text \<open>The argument tuple each operation is issued with.\<close>

definition shaped :: "group_action_op \<Rightarrow> pyval group_arg list \<Rightarrow> bool" where
  "shaped op args \<longleftrightarrow> (case op of
       DMA_PREFETCH \<Rightarrow> (\<exists>d x. args = [ArgStr d, ArgTransfer x] \<and> validate_transfer x = None)
     | DMA_STORE \<Rightarrow> (\<exists>d x. args = [ArgStr d, ArgTransfer x] \<and> validate_transfer x = None)
     | DISPATCH_ROLE \<Rightarrow> (\<exists>q. args = [ArgDispatch q])
     | RELEASE_L2 \<Rightarrow> (\<exists>q. args = [ArgRelease q])
     | PUBLISH_L2 \<Rightarrow> (\<exists>q. args = [ArgPublish q])
     | PROFILE_RECONFIG \<Rightarrow> (\<exists>c x. args = [ArgCommand c None x])
     | MEMORY_MAINTENANCE \<Rightarrow> (\<exists>c deps x. args = [ArgCommand c (Some deps) x])
     | BIND_L2_VIEW \<Rightarrow> (\<exists>b i. args = [ArgStr b, ArgInt i] \<and> 0 \<le> i)
     | BIND_L2_IMPORT \<Rightarrow> (\<exists>b i. args = [ArgStr b, ArgInt i] \<and> 0 \<le> i)
     | WAIT_EVENT \<Rightarrow> (\<exists>e. args = [ArgStr e] \<and> e \<noteq> '''')
     | SIGNAL_EVENT \<Rightarrow> (\<exists>e. args = [ArgStr e] \<and> e \<noteq> '''')
     | BARRIER_GROUP \<Rightarrow> args = []
     | INIT_STREAM \<Rightarrow> (\<exists>i d p c. args = [ArgInt i, ArgInt d, ArgInt p, ArgInt c] \<and> 0 < d \<and> 0 < p \<and> 0 < c)
     | COLLECTIVE_RUN \<Rightarrow> True)"

lemma is_strE: "is_str v \<Longrightarrow> (\<And>n. v = PStr n \<Longrightarrow> P) \<Longrightarrow> P"
  by (cases v) (simp_all add: is_str_def)

lemma is_intE: "is_int v \<Longrightarrow> (\<And>i. v = PInt i \<Longrightarrow> P) \<Longrightarrow> P"
  by (cases v) (simp_all add: is_int_def)

lemma arg_of_text: "text_check False v = None \<Longrightarrow> \<exists>n. n \<noteq> '''' \<and> arg_of v = ArgStr n"
  by (auto simp: text_check_def arg_of_def split: if_splits)

lemma arg_of_uint: "uint_check b v = None \<Longrightarrow> \<exists>i. (if b then 0 < i else 0 \<le> i) \<and> arg_of v = ArgInt i"
  by (auto simp: uint_check_def arg_of_def is_int_def is_str_def split: pyval.splits if_splits)

lemma class_of_scalar: "is_str v \<Longrightarrow> class_of v = ''''" "is_int v \<Longrightarrow> class_of v = ''''"
  by (auto simp: class_of_def elim: is_strE is_intE)

lemma typed_argument_None:
  "typed_argument c xs f = None \<longleftrightarrow> (\<exists>x. xs = [x] \<and> class_of x = c \<and> f x = None)"
  by (cases xs; cases "tl xs") (auto simp: typed_argument_def)

lemma length_one: "length xs = Suc 0 \<Longrightarrow> \<exists>x. xs = [x]"
  by (cases xs) auto

lemma length_two: "length xs = 2 \<Longrightarrow> \<exists>x y. xs = [x, y]"
  by (cases xs; cases "tl xs") auto

lemma length_four: "length xs = 4 \<Longrightarrow> \<exists>a b c d. xs = [a, b, c, d]"
  by (auto simp: numeral_eq_Suc length_Suc_conv)

fun op_name :: "group_action_op \<Rightarrow> string" where
  "op_name INIT_STREAM = ''init.stream''"
| "op_name DMA_PREFETCH = ''dma.prefetch''"
| "op_name DMA_STORE = ''dma.store''"
| "op_name DISPATCH_ROLE = ''dispatch.role''"
| "op_name WAIT_EVENT = ''wait.event''"
| "op_name BARRIER_GROUP = ''barrier.group''"
| "op_name COLLECTIVE_RUN = ''collective.run''"
| "op_name SIGNAL_EVENT = ''signal.event''"
| "op_name RELEASE_L2 = ''release.l2''"
| "op_name BIND_L2_VIEW = ''bind.l2.view''"
| "op_name PUBLISH_L2 = ''publish.l2''"
| "op_name BIND_L2_IMPORT = ''bind.l2.import''"
| "op_name PROFILE_RECONFIG = ''profile.reconfig''"
| "op_name MEMORY_MAINTENANCE = ''memory.maintenance''"

lemma op_table_named: "list_all (\<lambda>(n, op). op_name op = n) op_table"
  by (simp add: op_table_def)

lemma op_of_name: "op_of v = Some op \<Longrightarrow> attr ''op'' v = PEnum ''ExecGroupActionOp'' (op_name op)"
  using op_table_named
  by (auto simp: op_of_def list_all_iff split: pyval.splits if_splits dest!: dict_get_in_set)

lemma op_in_name: "op_of v = Some op \<Longrightarrow> op_in ''ExecGroupActionOp'' names v \<longleftrightarrow> op_name op \<in> set names"
  by (simp add: op_in_def op_of_name)

lemma arg_of_typed:
  assumes "class_of x = c" "c \<noteq> ''''"
  shows "\<not> is_str x" "\<not> is_int x"
  using assms class_of_scalar by auto

lemma shaped_args:
  assumes "op_of v = Some op" "action_args_check v = None"
  shows "shaped op (map arg_of (items (attr ''args'' v)))"
proof -
  note a = assms(2) [unfolded action_args_check_def Let_def op_in_name [OF assms(1)]]
  show ?thesis
    by (cases op; insert a)
      (auto simp: shaped_def typed_argument_None arg_of_def arg_of_typed require_def split: if_splits
        dest!: arg_of_text arg_of_uint length_one length_two length_four)
qed


section \<open>Issue handlers on shaped actions\<close>

text \<open>
  The group behind the ports may raise. \<open>esc\<close> is the set of exceptions that may pass: an outcome
  is polite when it raises only these or the exceptions the issue guard turns into a fault result.
  \<open>port_raises\<close> are the exceptions that the ports raise themselves, on arguments of the shapes
  the validator gives them; a port is never called with others.
\<close>

definition polite :: "(py_error \<Rightarrow> bool) \<Rightarrow> ('e, 'a) outcome \<Rightarrow> bool" where
  "polite esc r \<longleftrightarrow> (\<forall>e. fst r = Inl e \<longrightarrow> issue_catches e \<or> esc e)"

definition polite_ports :: "(py_error \<Rightarrow> bool) \<Rightarrow> (pyval, 'e) group_ports \<Rightarrow> bool" where
  "polite_ports esc ports \<longleftrightarrow>
     (\<forall>owner deps cycle e. polite esc (gp_note_dependencies ports owner deps cycle e))
   \<and> (\<forall>c deps x owner cycle e. polite esc (gp_submit_control ports (ArgCommand c deps x) owner cycle e))
   \<and> (\<forall>c cycle e. polite esc (gp_request_cancel ports c cycle e))
   \<and> (\<forall>owner i event cycle e. polite esc (gp_note_await ports owner i [ArgStr event] cycle e))
   \<and> (\<forall>b i sq cycle e. 0 \<le> i \<longrightarrow> polite esc (gp_bind_l2_view ports (ArgStr b) (ArgInt i) sq cycle e))
   \<and> (\<forall>b i sq e. 0 \<le> i \<longrightarrow> polite esc (gp_bind_l2_import ports (ArgStr b) (ArgInt i) sq e))
   \<and> (\<forall>i d p c e. 0 < d \<and> 0 < p \<and> 0 < c \<longrightarrow> polite esc (gp_init_stream ports (ArgInt i) (ArgInt d) (ArgInt p) (ArgInt c) e))
   \<and> (\<forall>op event cycle d x sq e. validate_transfer x = None
        \<longrightarrow> polite esc (gp_submit_transfer ports op event cycle (ArgStr d) (ArgTransfer x) sq e))
   \<and> (\<forall>b cycle q event sq e. polite esc (gp_dispatch_role ports b cycle q event sq e))
   \<and> (\<forall>sq cycle e. polite esc (gp_retire_context_arena ports sq cycle e))
   \<and> (\<forall>q sq cycle e. polite esc (gp_publish_l2 ports q sq cycle e))
   \<and> (\<forall>q sq cycle e. polite esc (gp_release_l2 ports q sq cycle e))
   \<and> (\<forall>sq event cycle e. polite esc (gp_note_l2_protocol_event ports sq event cycle e))"

definition port_raises :: "(pyval, 'e) group_ports \<Rightarrow> py_error \<Rightarrow> bool" where
  "port_raises ports x \<longleftrightarrow>
     (\<exists>owner deps cycle e. fst (gp_note_dependencies ports owner deps cycle e) = Inl x)
   \<or> (\<exists>c deps d owner cycle e. fst (gp_submit_control ports (ArgCommand c deps d) owner cycle e) = Inl x)
   \<or> (\<exists>c cycle e. fst (gp_request_cancel ports c cycle e) = Inl x)
   \<or> (\<exists>owner i event cycle e. fst (gp_note_await ports owner i [ArgStr event] cycle e) = Inl x)
   \<or> (\<exists>b i sq cycle e. 0 \<le> i \<and> fst (gp_bind_l2_view ports (ArgStr b) (ArgInt i) sq cycle e) = Inl x)
   \<or> (\<exists>b i sq e. 0 \<le> i \<and> fst (gp_bind_l2_import ports (ArgStr b) (ArgInt i) sq e) = Inl x)
   \<or> (\<exists>i d p c e. 0 < d \<and> 0 < p \<and> 0 < c \<and> fst (gp_init_stream ports (ArgInt i) (ArgInt d) (ArgInt p) (ArgInt c) e) = Inl x)
   \<or> (\<exists>op event cycle d t sq e. validate_transfer t = None
        \<and> fst (gp_submit_transfer ports op event cycle (ArgStr d) (ArgTransfer t) sq e) = Inl x)
   \<or> (\<exists>b cycle q event sq e. fst (gp_dispatch_role ports b cycle q event sq e) = Inl x)
   \<or> (\<exists>sq cycle e. fst (gp_retire_context_arena ports sq cycle e) = Inl x)
   \<or> (\<exists>q sq cycle e. fst (gp_publish_l2 ports q sq cycle e) = Inl x)
   \<or> (\<exists>q sq cycle e. fst (gp_release_l2 ports q sq cycle e) = Inl x)
   \<or> (\<exists>sq event cycle e. fst (gp_note_l2_protocol_event ports sq event cycle e) = Inl x)"

lemma ports_polite: "polite_ports (port_raises ports) ports"
  unfolding polite_ports_def polite_def port_raises_def by (intro conjI allI impI; rule disjI2; meson)

definition well_shaped :: "pyval exec_group_action \<Rightarrow> bool" where
  "well_shaped a \<longleftrightarrow> shaped (ac_op a) (ac_args a)"

lemma well_shaped_outputs: "well_shaped a \<Longrightarrow> \<exists>outs. output_events a = Inr outs"
  by (cases "ac_op a") (auto simp: well_shaped_def shaped_def output_events_def Let_def)

definition sched_shaped :: "(pyval, 'e) group_scheduler \<Rightarrow> bool" where
  "sched_shaped s \<longleftrightarrow> ring_slots (gs_fault_ring s) \<noteq> 0 \<and> (\<forall>r \<in> set (gs_queued s). well_shaped (ra_action (gs_recs s r)))"

interpretation gs: error_logic sched_shaped "\<lambda>e. issue_catches e \<or> esc e" for esc :: "py_error \<Rightarrow> bool" .

lemma issue_catches_protocol: "is_protocol_error e \<Longrightarrow> issue_catches e"
  by (cases e) (simp_all add: is_protocol_error_def issue_catches_def)

lemma issue_catches_simps [simp]:
  "issue_catches (ValueError m)" "issue_catches (RuntimeError m)" "issue_catches (EventProtocolError m)"
  by (simp_all add: issue_catches_def)

lemma sched_shaped_updates [simp]:
  "sched_shaped (upd_seq q f s) = sched_shaped s"
  "sched_shaped (seq_event q n s) = sched_shaped s"
  "sched_shaped (s\<lparr>gs_env := e\<rparr>) = sched_shaped s"
  "sched_shaped (s\<lparr>gs_event_table := t\<rparr>) = sched_shaped s"
  "sched_shaped (s\<lparr>gs_group_pmu := p\<rparr>) = sched_shaped s"
  "sched_shaped (s\<lparr>gs_reset_domain := d\<rparr>) = sched_shaped s"
  "sched_shaped (s\<lparr>gs_pmu := p\<rparr>) = sched_shaped s"
  "sched_shaped (s\<lparr>gs_inflight_by_event := i\<rparr>) = sched_shaped s"
  "sched_shaped (s\<lparr>gs_adapter_used := u\<rparr>) = sched_shaped s"
  "sched_shaped (s\<lparr>gs_epoch_inflight := m\<rparr>) = sched_shaped s"
  "sched_shaped (s\<lparr>gs_epoch_key := k\<rparr>) = sched_shaped s"
  "sched_shaped (gs_event n s) = sched_shaped s"
  "sched_shaped (count_completed s) = sched_shaped s"
  "sched_shaped (count_protocol_fault s) = sched_shaped s"
  by (simp_all add: sched_shaped_def upd_seq_def seq_event_def gs_event_def count_completed_def count_protocol_fault_def)

lemma calm_env: "sched_shaped s \<Longrightarrow> polite esc (f (gs_env s)) \<Longrightarrow> gs.calm esc (on_env f s)"
  by (auto simp: gs.calm_def on_env_def polite_def split: prod.splits)

lemma calm_events: "sched_shaped s \<Longrightarrow> ev.calm (f (gs_event_table s)) \<Longrightarrow> gs.calm esc (on_events f s)"
  by (auto simp: gs.calm_def ev.calm_def on_events_def issue_catches_protocol split: prod.splits)

lemma polite_portsD:
  assumes "polite_ports esc ports"
  shows "polite esc (gp_note_dependencies ports owner deps cycle e)"
    "polite esc (gp_submit_control ports (ArgCommand c d x) owner cycle e)"
    "polite esc (gp_request_cancel ports c cycle e)"
    "polite esc (gp_note_await ports owner i [ArgStr event] cycle e)"
    "0 \<le> j \<Longrightarrow> polite esc (gp_bind_l2_view ports (ArgStr b) (ArgInt j) sq cycle e)"
    "0 \<le> j \<Longrightarrow> polite esc (gp_bind_l2_import ports (ArgStr b) (ArgInt j) sq e)"
    "0 < n \<Longrightarrow> 0 < p \<Longrightarrow> 0 < k \<Longrightarrow> polite esc (gp_init_stream ports (ArgInt j) (ArgInt n) (ArgInt p) (ArgInt k) e)"
    "validate_transfer x = None \<Longrightarrow> polite esc (gp_submit_transfer ports op event cycle (ArgStr b) (ArgTransfer x) sq e)"
    "polite esc (gp_dispatch_role ports rb cycle dq event sq e)"
    "polite esc (gp_retire_context_arena ports sq cycle e)"
    "polite esc (gp_publish_l2 ports pq sq cycle e)"
    "polite esc (gp_release_l2 ports lq sq cycle e)"
    "polite esc (gp_note_l2_protocol_event ports sq event cycle e)"
  using assms by (simp_all add: polite_ports_def)

lemma polite_and_then:
  "polite esc r \<Longrightarrow> (\<And>x s. polite esc (k x s)) \<Longrightarrow> polite esc (and_then r k)"
  by (auto simp: polite_def and_then_def split: prod.splits sum.splits)

lemma calm_request_cancels: "polite_ports esc ports \<Longrightarrow> polite esc (request_cancels ports cycle cs e)"
  by (induction cs arbitrary: e) (simp add: polite_def, simp add: polite_and_then polite_portsD(3))

lemma typed_trigger_fault: "sched_shaped s \<Longrightarrow> gs.calm esc (trigger_fault ports code tile cycle desc s)"
  by (auto simp: trigger_fault_def gs.calm_def ring_write_def Let_def sched_shaped_def)

lemma typed_on_scheduler_fault: "sched_shaped s \<Longrightarrow> gs.calm esc (on_scheduler_fault ports q reason cycle s)"
  unfolding on_scheduler_fault_def Let_def by (intro gs.calm_rules typed_trigger_fault) simp_all

lemma calm_cancel_context:
  assumes "polite_ports esc ports" "sched_shaped s"
  shows "gs.calm esc (cancel_context ports q cycle s)"
proof -
  have "gs.calm esc (case on_events (cancel_context_events_of (map (gs_recs s) (filter (of_seq q s) (gs_queued s))) owner gen cycle) s of
            (Inl e, s) \<Rightarrow> raise e (if is_protocol_error e then count_protocol_fault s else s)
          | (Inr _, s) \<Rightarrow>
              ret () (upd_seq q (fold note_action_cancelled (map (gs_recs s0) rs))
                (s\<lparr>gs_queued := filter (\<lambda>r. \<not> of_seq q s r) (gs_queued s)\<rparr>)))"
    if "sched_shaped s" for s s0 rs owner gen
  proof -
    have "\<forall>rec \<in> set (map (gs_recs s) (filter (of_seq q s) (gs_queued s))). \<exists>outs. output_events (ra_action rec) = Inr outs"
      using that well_shaped_outputs by (auto simp: sched_shaped_def)
    then have calm: "gs.calm esc (on_events (cancel_context_events_of (map (gs_recs s) (filter (of_seq q s) (gs_queued s))) owner gen cycle) s)"
      by (intro calm_events that calm_cancel_context_events_of)
    obtain v t where r: "on_events (cancel_context_events_of (map (gs_recs s) (filter (of_seq q s) (gs_queued s))) owner gen cycle) s = (v, t)"
      by fastforce
    with calm have "sched_shaped t" "\<forall>e. v = Inl e \<longrightarrow> issue_catches e \<or> esc e" by (simp_all add: gs.calm_def)
    moreover from this have "sched_shaped (t\<lparr>gs_queued := filter (\<lambda>r. \<not> of_seq q t r) (gs_queued t)\<rparr>)"
      by (simp add: sched_shaped_def)
    ultimately show ?thesis unfolding r by (cases v) (simp_all add: gs.calm_def)
  qed
  then show ?thesis
    unfolding cancel_context_def Let_def using assms
    by (intro gs.calm_and_then calm_env calm_request_cancels) auto
qed

lemma calm_signal_event:
  "sched_shaped s \<Longrightarrow> gs.calm esc (on_events (signal name status producer cycle code eo eg es) s)"
  by (intro calm_events calm_signal)

lemma calm_fault_context:
  "polite_ports esc ports \<Longrightarrow> sched_shaped s \<Longrightarrow> gs.calm esc (fault_context ports q reason cycle s)"
  unfolding fault_context_def by (intro gs.calm_and_then typed_on_scheduler_fault calm_cancel_context)

lemma calm_refuse_event:
  "polite_ports esc ports \<Longrightarrow> sched_shaped s \<Longrightarrow> gs.calm esc (refuse_event ports q reason cycle s)"
  unfolding refuse_event_def by (intro gs.calm_and_then gs.calm_ret typed_on_scheduler_fault calm_cancel_context)

lemma calm_release_epoch: "sched_shaped s \<Longrightarrow> gs.calm esc (release_epoch s)"
  unfolding release_epoch_def Let_def by (intro gs.calm_rules) simp_all

lemma calm_note_completion:
  assumes "polite_ports esc ports" "sched_shaped s"
  shows "gs.calm esc (note_completion ports q event cycle status s)"
proof (cases "dict_get (gs_inflight_by_event s) event")
  case None
  then show ?thesis using assms by (simp add: note_completion_def gs.calm_def)
next
  case (Some p)
  obtain r adapter where p: "p = (r, adapter)" by fastforce
  show ?thesis
    unfolding note_completion_def Some p option.case prod.case Let_def
    by (intro gs.calm_if gs.calm_and_then calm_fault_context calm_release_epoch gs.calm_ret) (simp_all add: assms)
qed

lemma calm_notify_event:
  assumes "polite_ports esc ports" "sched_shaped s"
  shows "gs.calm esc (notify_event ports q event cycle status code s)"
  unfolding notify_event_def Let_def
  using assms
  by (intro gs.calm_opt gs.calm_and_then gs.calm_if gs.calm_ret calm_refuse_event calm_signal_event calm_env
      calm_note_completion calm_cancel_context polite_portsD) simp_all

lemma calm_signal_completion:
  "polite_ports esc ports \<Longrightarrow> sched_shaped s \<Longrightarrow> gs.calm esc (signal_completion ports q d reason cycle s)"
  unfolding signal_completion_def by (intro gs.calm_opt gs.calm_and_then gs.calm_ret calm_notify_event)

lemma typed_issue_control:
  assumes "polite_ports esc ports" "sched_shaped s" "well_shaped a" "ac_op a \<in> {PROFILE_RECONFIG, MEMORY_MAINTENANCE}"
  shows "gs.calm esc (issue_control ports q a cycle s)"
proof -
  obtain c d x where args: "ac_args a = [ArgCommand c d x]" and d: "ac_op a = MEMORY_MAINTENANCE \<Longrightarrow> \<exists>deps. d = Some deps"
    using assms(3,4) by (auto simp: well_shaped_def shaped_def)
  have receipt: "gs.calm esc (note_receipt ports q a owner (ArgCommand c d x) cycle s)" for owner
  proof (cases "ac_op a = MEMORY_MAINTENANCE")
    case True
    with d obtain deps where "d = Some deps" by blast
    then show ?thesis
      unfolding note_receipt_def by (auto intro!: gs.calm_rules calm_env polite_portsD assms)
  qed (simp add: note_receipt_def gs.calm_def assms)
  show ?thesis
    unfolding issue_control_def args list.case Let_def group_arg.case
    by (intro gs.calm_opt gs.calm_and_then gs.calm_if gs.calm_ret receipt calm_env polite_portsD assms)
qed

lemma typed_issue_bind:
  assumes "polite_ports esc ports" "sched_shaped s" "well_shaped a"
  shows "ac_op a = BIND_L2_VIEW \<Longrightarrow> gs.calm esc (issue_bind_l2_view ports q a cycle s)"
    "ac_op a = BIND_L2_IMPORT \<Longrightarrow> gs.calm esc (issue_bind_l2_import ports q a cycle s)"
  using assms(3)
  by (auto simp: well_shaped_def shaped_def issue_bind_l2_view_def issue_bind_l2_import_def
      intro!: gs.calm_and_then calm_env polite_portsD calm_signal_completion assms)

lemma typed_issue_init_stream:
  "polite_ports esc ports \<Longrightarrow> sched_shaped s \<Longrightarrow> well_shaped a \<Longrightarrow> ac_op a = INIT_STREAM \<Longrightarrow> gs.calm esc (issue_init_stream ports q a s)"
  by (auto simp: well_shaped_def shaped_def issue_init_stream_def
      intro!: gs.calm_and_then gs.calm_ret calm_env polite_portsD)

lemma typed_issue_dma:
  assumes "polite_ports esc ports" "sched_shaped s" "well_shaped a" "ac_op a \<in> {DMA_PREFETCH, DMA_STORE}"
  shows "gs.calm esc (issue_dma ports q a cycle s)"
proof -
  obtain b x where args: "ac_args a = [ArgStr b, ArgTransfer x]" and x: "validate_transfer x = None"
    using assms(3,4) by (auto simp: well_shaped_def shaped_def)
  show ?thesis
    unfolding issue_dma_def Let_def args list.case
    by (intro gs.calm_opt gs.calm_and_then gs.calm_if gs.calm_ret calm_env polite_portsD assms x) simp_all
qed

lemma typed_issue_dispatch:
  assumes "polite_ports esc ports" "sched_shaped s" "well_shaped a" "ac_op a = DISPATCH_ROLE"
  shows "gs.calm esc (issue_dispatch ports q a cycle s)"
proof -
  obtain dq where args: "ac_args a = [ArgDispatch dq]" using assms(3,4) by (auto simp: well_shaped_def shaped_def)
  show ?thesis
    unfolding issue_dispatch_def Let_def args
    by (auto split: option.splits intro!: gs.calm_rules calm_env polite_portsD assms)
qed

lemma typed_issue_wait:
  assumes "polite_ports esc ports" "sched_shaped s" "well_shaped a" "ac_op a = WAIT_EVENT"
  shows "gs.calm esc (issue_wait ports q a cycle s)"
proof -
  obtain e where args: "ac_args a = [ArgStr e]" using assms(3,4) by (auto simp: well_shaped_def shaped_def)
  show ?thesis
    unfolding issue_wait_def Let_def args
    by (intro gs.calm_opt gs.calm_and_then gs.calm_ret calm_env polite_portsD assms) (simp_all add: assms)
qed

lemma typed_issue_collective: "sched_shaped s \<Longrightarrow> gs.calm esc (issue_collective ports q a cycle s)"
  unfolding issue_collective_def Let_def by (auto split: option.splits list.splits intro!: gs.calm_rules)

lemma typed_issue_signal:
  assumes "polite_ports esc ports" "sched_shaped s" "well_shaped a" "ac_op a = SIGNAL_EVENT"
  shows "gs.calm esc (issue_signal ports q a cycle s)"
proof -
  obtain e where args: "ac_args a = [ArgStr e]" using assms(3,4) by (auto simp: well_shaped_def shaped_def)
  show ?thesis
    unfolding issue_signal_def args list.case group_arg.case
    by (intro gs.calm_and_then gs.calm_opt gs.calm_if gs.calm_ret calm_env polite_portsD calm_notify_event assms)
      simp_all
qed

lemma typed_issue_publish:
  assumes "polite_ports esc ports" "sched_shaped s" "well_shaped a" "ac_op a = PUBLISH_L2"
  shows "gs.calm esc (issue_publish ports q a cycle s)"
proof -
  obtain pq where args: "ac_args a = [ArgPublish pq]" using assms(3,4) by (auto simp: well_shaped_def shaped_def)
  show ?thesis
    unfolding issue_publish_def args list.case group_arg.case
    by (intro gs.calm_and_then gs.calm_ret calm_env polite_portsD calm_signal_completion assms) simp_all
qed

lemma typed_issue_release:
  assumes "polite_ports esc ports" "sched_shaped s" "well_shaped a" "ac_op a = RELEASE_L2"
  shows "gs.calm esc (issue_release ports q a cycle s)"
proof -
  obtain lq where args: "ac_args a = [ArgRelease lq]" using assms(3,4) by (auto simp: well_shaped_def shaped_def)
  show ?thesis
    unfolding issue_release_def args list.case group_arg.case
    by (intro gs.calm_and_then gs.calm_opt gs.calm_ret calm_env polite_portsD calm_signal_completion assms) simp_all
qed

lemma typed_issue_body:
  assumes "polite_ports esc ports" "sched_shaped s" "well_shaped a"
  shows "gs.calm esc (issue_body ports q a cycle s)"
proof (cases "gated_by_l2 (ac_op a) \<and> gp_issue_gate_closed ports ''l2'' (gs_env s)")
  case True
  then show ?thesis using assms by (simp add: issue_body_def gs.calm_def)
next
  case False
  note handlers = typed_issue_control [OF assms] typed_issue_bind [OF assms] typed_issue_init_stream [OF assms]
    typed_issue_dma [OF assms] typed_issue_dispatch [OF assms] typed_issue_wait [OF assms]
    typed_issue_collective [OF assms(2)] typed_issue_signal [OF assms] typed_issue_publish [OF assms] typed_issue_release [OF assms]
  show ?thesis
    unfolding issue_body_def if_not_P [OF False]
    by (cases "ac_op a") (simp_all add: handlers gs.calm_ret assms)
qed

lemma issue_registered_returns:
  assumes "polite_ports esc ports" "sched_shaped s" "well_shaped (ra_action (gs_recs s r))"
  shows "case issue_registered ports r cycle s of (Inl e, t) \<Rightarrow> \<not> issue_catches e \<and> esc e | (Inr result, t) \<Rightarrow> True"
proof -
  have "gs.calm esc (issue_body ports (ra_sequencer (gs_recs s r)) (ra_action (gs_recs s r)) cycle s)"
    by (rule typed_issue_body [OF assms])
  then show ?thesis
    by (auto simp: issue_registered_def Let_def gs.calm_def split: prod.splits sum.splits)
qed


section \<open>Loaded programs\<close>

definition program_actions :: "pyval \<Rightarrow> pyval list" where
  "program_actions p =
     (let actions = (\<lambda>task. items (attr ''actions'' task)) in
      if attr ''entry_kind'' p = PStr ''standalone'' then actions (attr ''entry'' p)
      else concat (map (\<lambda>(k, task). actions task) (map_items (attr ''tasks'' (attr ''entry'' p)))))"

lemma task_actions_validated:
  "validate_group_task self task = None \<Longrightarrow> v \<in> set (items (attr ''actions'' task)) \<Longrightarrow> validate_group_action v = None"
  by (simp add: validate_group_task_def)

lemma model_tasks_validated:
  "validate_model self v = None \<Longrightarrow> (k, task) \<in> set (map_items (attr ''tasks'' v)) \<Longrightarrow> validate_group_task self task = None"
  by (auto simp: validate_model_def)

lemma loaded_actions_validated:
  assumes "parse_compiled_program env j = Inr p" "v \<in> set (program_actions p)"
  shows "validate_group_action v = None"
proof -
  have "entry_check (validate_executable_value env) p = None"
    using parse_Inr [OF assms(1)] by (simp add: validate_program_def validate_compiled_program_def)
  then show ?thesis
    using assms(2) by (auto simp: program_actions_def entry_check_def Let_def split: if_splits
        dest: model_tasks_validated task_actions_validated)
qed

lemma validated_well_shaped:
  "validate_group_action v = None \<Longrightarrow> action_of v = Some a \<Longrightarrow> well_shaped a"
  by (auto simp: validate_group_action_def action_of_def well_shaped_def intro: shaped_args)

text \<open>C8. A loaded program cannot crash the scheduler on the shape of an action. Every action of a
  program the loader accepts names its output events, and issuing it, in every state of the
  scheduler whose queued actions come from the program and whose fault ring has a slot, returns
  a result unless the group behind the ports raises: an exception that leaves the scheduler is
  one that a port raised itself, on arguments of the shape the validator promises, and that the
  issue guard does not handle. So no handler raises for a missing argument, an argument of the
  wrong class or a missing attribute. Nothing is assumed of the ports.
\<close>

theorem loaded_actions_issue:
  assumes "parse_compiled_program env j = Inr p" "ring_slots (gs_fault_ring s) \<noteq> 0"
    and "\<forall>r' \<in> insert r (set (gs_queued s)). \<exists>v \<in> set (program_actions p). action_of v = Some (ra_action (gs_recs s r'))"
  shows "(\<exists>outs. output_events (ra_action (gs_recs s r)) = Inr outs)
     \<and> (case issue_registered ports r cycle s of
          (Inr result, t) \<Rightarrow> True
        | (Inl e, t) \<Rightarrow> \<not> issue_catches e \<and> port_raises ports e)"
proof -
  have "\<forall>r' \<in> insert r (set (gs_queued s)). well_shaped (ra_action (gs_recs s r'))"
    using assms(3) loaded_actions_validated [OF assms(1)] validated_well_shaped by blast
  then have "well_shaped (ra_action (gs_recs s r))" "sched_shaped s" using assms(2) by (auto simp: sched_shaped_def)
  from well_shaped_outputs [OF this(1)] issue_registered_returns [OF ports_polite this(2,1)] show ?thesis by (rule conjI)
qed

text \<open>The action of the concrete file, issued on a group whose ports accept everything.\<close>

definition plain_ports :: "(pyval, unit) group_ports" where
  "plain_ports =
     \<lparr>gp_crc32 = (\<lambda>_. 0), gp_note_dependencies = (\<lambda>_ _ _. ret ()), gp_submit_control = (\<lambda>_ _ _. ret True),
      gp_issue_gate_closed = (\<lambda>_ _. False), gp_control_status = (\<lambda>_ _. Inr ''completed''),
      gp_request_cancel = (\<lambda>_ _. ret ()), gp_note_await = (\<lambda>_ _ _ _. ret ()), gp_bind_l2_view = (\<lambda>_ _ _ _. ret ()),
      gp_bind_l2_import = (\<lambda>_ _ _. ret ()), gp_init_stream = (\<lambda>_ _ _ _. ret ()),
      gp_submit_transfer = (\<lambda>_ _ _ _ _ _. ret True), gp_dispatch_role = (\<lambda>_ _ _ _ _. ret issue_accepted),
      gp_schedule_collective = (\<lambda>_ _ _ _ _ _ e. e), gp_retire_context_arena = (\<lambda>_ _. ret True),
      gp_publish_l2 = (\<lambda>_ _ _. ret True), gp_release_l2 = (\<lambda>_ _ _. ret True),
      gp_note_l2_protocol_event = (\<lambda>_ _ _. ret ()), gp_context_cleanup_ready = (\<lambda>_ _. True)\<rparr>"

definition loaded_record :: "pyval registered_action" where
  "loaded_record = \<lparr>ra_sequencer = 0, ra_ordinal = 0, ra_action = the (action_of demo_loaded_action),
     ra_registered_cycle = 0, ra_issue_cycle = 0\<rparr>"

definition loaded_state :: "(pyval, unit) group_scheduler" where
  "loaded_state = gs_new demo_config demo_events (\<lambda>_. ts_new) loaded_record None (ring_new 4) (rd_new None) ()"

lemma loaded_action_read: "action_of demo_loaded_action = Some (ra_action (gs_recs loaded_state 0))"
proof -
  have "action_of demo_loaded_action \<noteq> None" by (simp add: action_of_def op_of_def demo_loaded_action_def op_table_def attr_def)
  then show ?thesis by (auto simp: loaded_state_def gs_new_def loaded_record_def)
qed

lemma plain_ports_quiet: "\<not> port_raises plain_ports e"
  by (simp add: port_raises_def plain_ports_def)

theorem loaded_actions_issue_witness:
  "\<exists>p result t. parse_compiled_program demo_env demo_file = Inr p \<and> program_actions p = [demo_loaded_action]
     \<and> issue_registered plain_ports 0 5 loaded_state = (Inr result, t)"
proof -
  obtain p where p: "parse_compiled_program demo_env demo_file = Inr p"
    and a: "program_actions p = [demo_loaded_action]"
    using demo_file_loads by (cases "parse_compiled_program demo_env demo_file") (auto simp: program_actions_def)
  have "ring_slots (gs_fault_ring loaded_state) \<noteq> 0" "gs_queued loaded_state = []"
    by (simp_all add: loaded_state_def gs_new_def ring_new_def)
  with loaded_actions_issue [OF p, of loaded_state 0 plain_ports 5] loaded_action_read a p plain_ports_quiet
  show ?thesis by (auto split: prod.splits sum.splits)
qed

end
