(* ===== verification/L1_Slot_Frame.thy ===== *)
theory L1_Slot_Frame
  imports Allocator Profiles
begin

text \<open>
  \<open>src/pipeline_validator/memory/l1_slot_frame.py\<close>: the slot frame of an L1 context. A frame is
  prepared with a committed arena and its layout, bound, then views are installed into the slots
  the compiler chose and released one by one. Slots are never changed in place, so the three
  copies the code keeps (active, shadow, prepared) are lists of values. The layout and the
  profile of an arena are the package values of \<open>Profiles\<close>.
\<close>

section \<open>State\<close>

datatype slot_lifetime = PER_COMMAND | PER_TILE_PROGRAM | PER_ROLE | RESIDENT

datatype frame_state =
    FRAME_IDLE | FETCH_FRAME_DESC | VALIDATE_ABI | VALIDATE_SLOT_TABLE | CHECK_OVERLAP_ALIGNMENT
  | CHECK_BANK_POLICY | INSTALL_SHADOW | FRAME_ACTIVE | FRAME_FAULTED

definition slot_role_workspace :: int where
  "slot_role_workspace = 8"

record slot =
  sl_slot_id :: int
  sl_base :: int
  sl_size :: int
  sl_layout :: int
  sl_role :: int
  sl_alignment :: int
  sl_bank_policy :: int
  sl_lifetime :: slot_lifetime
  sl_allocation_id :: "string option"
  sl_generation :: int
  sl_owner :: "memory_owner option"
  sl_flags :: int
  sl_arena_id :: string
  sl_profile_generation :: int

definition slot_new :: "int \<Rightarrow> slot" where
  "slot_new i = \<lparr>sl_slot_id = i, sl_base = 0, sl_size = 0, sl_layout = 0, sl_role = 0, sl_alignment = 0,
     sl_bank_policy = 0, sl_lifetime = PER_COMMAND, sl_allocation_id = None, sl_generation = 0, sl_owner = None,
     sl_flags = 0, sl_arena_id = '''', sl_profile_generation = 0\<rparr>"

record arena_handle =
  ah_arena_id :: string
  ah_memory_space :: string
  ah_reserve :: "bank_segment list"
  ah_layout :: pyval
  ah_profile :: pyval
  ah_profile_generation :: int
  ah_allocation_generation :: int

record shadow_frame =
  sh_frame_id :: int
  sh_l1_bytes :: int
  sh_slot_count :: nat
  sh_state :: frame_state
  sh_slots :: "slot list"
  sh_arena :: "arena_handle option"
  sh_layout :: "pyval option"

record slot_frame =
  fm_frame_id :: int
  fm_l1_bytes :: int
  fm_slot_count :: nat
  fm_state :: frame_state
  fm_slots :: "slot list"
  fm_shadow :: "shadow_frame option"
  fm_shadow_slots :: "slot list option"
  fm_bank_conflict_cycles :: int
  fm_permission_faults :: int
  fm_arena :: "arena_handle option"
  fm_layout :: "pyval option"
  fm_slot_segments :: "(int, bank_segment list) dict"

definition blank_slots :: "nat \<Rightarrow> slot list" where
  "blank_slots n = map (\<lambda>i. slot_new (int i)) [0..<n]"

definition frame_new :: "int \<Rightarrow> int \<Rightarrow> nat \<Rightarrow> slot_frame" where
  "frame_new frame_id l1_bytes n = \<lparr>fm_frame_id = frame_id, fm_l1_bytes = l1_bytes, fm_slot_count = n,
     fm_state = FRAME_IDLE, fm_slots = blank_slots n, fm_shadow = None, fm_shadow_slots = None,
     fm_bank_conflict_cycles = 0, fm_permission_faults = 0, fm_arena = None, fm_layout = None, fm_slot_segments = []\<rparr>"

section \<open>Operations\<close>

definition is_available :: "slot_frame \<Rightarrow> bool" where
  "is_available f \<longleftrightarrow> fm_state f = FRAME_IDLE \<and> fm_shadow f = None \<and> fm_shadow_slots f = None
     \<and> list_all (\<lambda>s. sl_allocation_id s = None) (fm_slots f)"

definition frame_generation :: "slot_frame \<Rightarrow> int option" where
  "frame_generation f = map_option ah_allocation_generation (fm_arena f)"

definition permission_fault :: "slot_frame \<Rightarrow> slot_frame" where
  "permission_fault f = f\<lparr>fm_permission_faults := fm_permission_faults f + 1\<rparr>"

definition arena_matches :: "slot_frame \<Rightarrow> arena_handle \<Rightarrow> pyval \<Rightarrow> bool" where
  "arena_matches f arena layout \<longleftrightarrow> (let profile = ah_profile arena in
     is_available f \<and> ah_memory_space arena = ''l1'' \<and> attr ''level'' profile = PStr ''l1''
     \<and> iattr ''bank_bytes'' profile * iattr ''banks'' profile = fm_l1_bytes f \<and> ah_layout arena = layout
     \<and> (\<forall>b \<in> set (items (attr ''buffer_layouts'' layout)). 0 \<le> iattr ''slot_id'' b \<and> iattr ''slot_id'' b < int (fm_slot_count f)))"

text \<open>Alignments are positive in every constructed layout.\<close>

definition reserve_ok :: "pyval \<Rightarrow> pyval \<Rightarrow> bank_segment \<Rightarrow> bool" where
  "reserve_ok profile layout seg \<longleftrightarrow>
     (let start = seg_address seg - seg_bank_id seg * iattr ''bank_bytes'' profile in
      0 \<le> seg_bank_id seg \<and> seg_bank_id seg < iattr ''banks'' profile
      \<and> iattr ''system_reserved_spm_per_bank'' profile \<le> start \<and> start mod iattr ''alignment'' layout = 0
      \<and> 0 < seg_size_bytes seg \<and> start + seg_size_bytes seg \<le> iattr ''spm_bytes_per_bank'' profile)"

definition prepare :: "arena_handle \<Rightarrow> pyval \<Rightarrow> slot_frame \<Rightarrow> (slot_frame, bool) outcome" where
  "prepare arena layout f =
     (if \<not> arena_matches f arena layout then ret False (permission_fault f)
      else if \<not> list_all (reserve_ok (ah_profile arena) layout) (ah_reserve arena) then ret False (permission_fault f)
      else if sum_list (map seg_size_bytes (ah_reserve arena)) \<noteq> iattr ''reserved_bytes'' layout
      then ret False (permission_fault f)
      else ret True (f\<lparr>fm_arena := Some arena, fm_layout := Some layout, fm_slot_segments := [],
                       fm_shadow_slots := Some (blank_slots (fm_slot_count f))\<rparr>))"

definition overlaps :: "bank_segment \<Rightarrow> bank_segment \<Rightarrow> bool" where
  "overlaps s t \<longleftrightarrow> seg_address s < seg_address t + seg_size_bytes t \<and> seg_address t < seg_address s + seg_size_bytes s"

definition inside :: "bank_segment \<Rightarrow> bank_segment \<Rightarrow> bool" where
  "inside s r \<longleftrightarrow> seg_bank_id r = seg_bank_id s \<and> seg_address r \<le> seg_address s
     \<and> seg_address s + seg_size_bytes s \<le> seg_address r + seg_size_bytes r"

fun segment_problem :: "bank_segment list \<Rightarrow> bank_segment list list \<Rightarrow> bank_segment list \<Rightarrow> py_error option" where
  "segment_problem reserve live [] = None"
| "segment_problem reserve live (s # ss) =
     (if \<not> list_ex (inside s) reserve then Some (MemoryInvariantError ''L1 view escapes Arena reservation'')
      else if list_ex (list_ex (overlaps s)) live then Some (MemoryInvariantError ''L1 view overlaps a live Frame binding'')
      else segment_problem reserve live ss)"

definition view_slot :: "int \<Rightarrow> string handle \<Rightarrow> slot" where
  "view_slot i h = (slot_new i)\<lparr>sl_base := hd_base_address h, sl_size := hd_size_bytes h, sl_alignment := hd_alignment h,
     sl_role := slot_role_workspace, sl_lifetime := PER_TILE_PROGRAM, sl_allocation_id := Some (hd_allocation_id h),
     sl_generation := hd_generation h, sl_owner := Some (hd_owner h), sl_arena_id := hd_arena_id h,
     sl_profile_generation := hd_profile_generation h\<rparr>"

text \<open>Write one slot into the three copies.\<close>

definition install_slot :: "nat \<Rightarrow> slot \<Rightarrow> slot_frame \<Rightarrow> slot_frame" where
  "install_slot k s f = f\<lparr>fm_slots := (fm_slots f)[k := s],
     fm_shadow := map_option (\<lambda>sh. sh\<lparr>sh_slots := (sh_slots sh)[k := s]\<rparr>) (fm_shadow f),
     fm_shadow_slots := map_option (\<lambda>ss. ss[k := s]) (fm_shadow_slots f)\<rparr>"

definition find_layout :: "pyval \<Rightarrow> string \<Rightarrow> pyval option" where
  "find_layout layout buffer_id =
     find (\<lambda>b. attr ''buffer_id'' b = PStr buffer_id) (items (attr ''buffer_layouts'' layout))"

text \<open>The checks of a bind, giving the slot id and its place in the slot list.\<close>

definition view_target :: "string \<Rightarrow> string handle \<Rightarrow> slot_frame \<Rightarrow> arena_handle \<Rightarrow> pyval \<Rightarrow> py_error + int \<times> nat" where
  "view_target buffer_id h f arena layout =
     (case find_layout layout buffer_id of
        None \<Rightarrow> Inl (MemoryInvariantError ''L1 allocation differs from compiled buffer layout'')
      | Some item \<Rightarrow>
          if hd_size_bytes h \<noteq> iattr ''logical_bytes'' item
          then Inl (MemoryInvariantError ''L1 allocation differs from compiled buffer layout'')
          else if hd_arena_id h \<noteq> ah_arena_id arena \<or> hd_profile_generation h \<noteq> ah_profile_generation arena
          then Inl (MemoryInvariantError ''L1 slot generation or live binding mismatch'')
          else (case py_index (length (fm_slots f)) (iattr ''slot_id'' item) of
            None \<Rightarrow> Inl IndexError
          | Some k \<Rightarrow>
              if sl_allocation_id (fm_slots f ! k) \<noteq> None
                 \<or> sum_list (map seg_size_bytes (hd_bank_segments h)) \<noteq> iattr ''logical_bytes'' item
              then Inl (MemoryInvariantError ''L1 slot generation or live binding mismatch'')
              else (case segment_problem (ah_reserve arena) (dict_values (fm_slot_segments f)) (hd_bank_segments h) of
                Some e \<Rightarrow> Inl e | None \<Rightarrow> Inr (iattr ''slot_id'' item, k))))"

definition bind_view :: "string \<Rightarrow> string handle \<Rightarrow> slot_frame \<Rightarrow> (slot_frame, int) outcome" where
  "bind_view buffer_id h f =
     (case (fm_arena f, fm_layout f) of
        (Some arena, Some layout) \<Rightarrow>
          if fm_state f \<noteq> FRAME_ACTIVE then raise (MemoryInvariantError ''L1 allocation without an active Arena Frame'') f
          else (case view_target buffer_id h f arena layout of
            Inl e \<Rightarrow> raise e f
          | Inr (i, k) \<Rightarrow>
              if fm_shadow f = None \<or> fm_shadow_slots f = None then raise AssertionError f
              else ret i ((install_slot k (view_slot i h) f)
                     \<lparr>fm_slot_segments := dict_set i (hd_bank_segments h) (fm_slot_segments f)\<rparr>))
      | _ \<Rightarrow> raise (MemoryInvariantError ''L1 allocation without an active Arena Frame'') f)"

definition bind_frame :: "int \<Rightarrow> slot_frame \<Rightarrow> (slot_frame, bool \<times> int) outcome" where
  "bind_frame bind_cycles f =
     (case fm_shadow_slots f of
        None \<Rightarrow> ret (False, 0) ((permission_fault f)\<lparr>fm_state := FRAME_FAULTED\<rparr>)
      | Some ss \<Rightarrow>
          ret (True, bind_cycles)
            (f\<lparr>fm_state := FRAME_ACTIVE,
               fm_shadow := Some \<lparr>sh_frame_id = fm_frame_id f, sh_l1_bytes = fm_l1_bytes f, sh_slot_count = fm_slot_count f,
                 sh_state = FRAME_ACTIVE, sh_slots = ss, sh_arena = fm_arena f, sh_layout = fm_layout f\<rparr>,
               fm_slots := ss\<rparr>))"

definition frame_release :: "slot_frame \<Rightarrow> slot_frame" where
  "frame_release f = f\<lparr>fm_slots := blank_slots (fm_slot_count f), fm_shadow := None, fm_shadow_slots := None,
     fm_state := FRAME_IDLE, fm_arena := None, fm_layout := None, fm_slot_segments := []\<rparr>"

definition slot_matches :: "slot \<Rightarrow> string handle \<Rightarrow> bool" where
  "slot_matches s h \<longleftrightarrow> sl_allocation_id s = Some (hd_allocation_id h) \<and> sl_generation s = hd_generation h
     \<and> sl_arena_id s = hd_arena_id h \<and> sl_profile_generation s = hd_profile_generation h
     \<and> sl_owner s = Some (hd_owner h) \<and> sl_base s = hd_base_address h \<and> sl_size s = hd_size_bytes h"

fun copies_match :: "(string \<times> slot list) list \<Rightarrow> int \<Rightarrow> string handle \<Rightarrow> py_error option" where
  "copies_match [] i h = None"
| "copies_match ((copy_name, slots) # rest) i h =
     (if i < 0 \<or> int (length slots) \<le> i then Some (MemoryInvariantError ''L1 slot id is out of range'')
      else if \<not> slot_matches (slots ! nat i) h
      then Some (MemoryInvariantError (''L1 '' @ copy_name @ '' slot binding does not match allocation''))
      else copies_match rest i h)"

definition assert_slot_binding :: "int \<Rightarrow> string handle \<Rightarrow> slot_frame \<Rightarrow> py_error option" where
  "assert_slot_binding i h f =
     (if fm_state f \<noteq> FRAME_ACTIVE then Some (MemoryInvariantError ''L1 slot frame is not active'')
      else case (fm_shadow f, fm_shadow_slots f) of
          (Some sh, Some ss) \<Rightarrow> copies_match [(''active'', fm_slots f), (''shadow'', sh_slots sh), (''prepared'', ss)] i h
        | _ \<Rightarrow> Some (MemoryInvariantError ''L1 slot frame copies are missing''))"

definition release_slot :: "int \<Rightarrow> string handle \<Rightarrow> slot_frame \<Rightarrow> (slot_frame, unit) outcome" where
  "release_slot i h f =
     (case assert_slot_binding i h f of
        Some e \<Rightarrow> raise e f
      | None \<Rightarrow>
          let f = install_slot (nat i) (slot_new i) f in
          if dict_get (fm_slot_segments f) i = None then raise KeyError f
          else ret () (f\<lparr>fm_slot_segments := dict_del i (fm_slot_segments f)\<rparr>))"

definition frame_reset :: "slot_frame \<Rightarrow> slot_frame" where
  "frame_reset f = (frame_release f)\<lparr>fm_bank_conflict_cycles := 0, fm_permission_faults := 0\<rparr>"

record frame_snapshot =
  fs_frame_id :: int
  fs_generation :: "int option"
  fs_state :: frame_state
  fs_slot_count :: nat
  fs_active_slots :: nat
  fs_bank_conflict_cycles :: int
  fs_permission_faults :: int

definition frame_snapshot_of :: "slot_frame \<Rightarrow> frame_snapshot" where
  "frame_snapshot_of f = \<lparr>fs_frame_id = fm_frame_id f, fs_generation = frame_generation f, fs_state = fm_state f,
     fs_slot_count = fm_slot_count f, fs_active_slots = length (filter (\<lambda>s. 0 < sl_size s) (fm_slots f)),
     fs_bank_conflict_cycles = fm_bank_conflict_cycles f, fs_permission_faults = fm_permission_faults f\<rparr>"

section \<open>Runs and the invariant\<close>

datatype frame_op =
    FramePrepare arena_handle pyval
  | FrameBind int
  | FrameBindView string "string handle"
  | FrameReleaseSlot int "string handle"
  | FrameRelease
  | FrameReset

fun frame_exec :: "frame_op \<Rightarrow> slot_frame \<Rightarrow> slot_frame" where
  "frame_exec (FramePrepare arena layout) f = snd (prepare arena layout f)"
| "frame_exec (FrameBind n) f = snd (bind_frame n f)"
| "frame_exec (FrameBindView b h) f = snd (bind_view b h f)"
| "frame_exec (FrameReleaseSlot i h) f = snd (release_slot i h f)"
| "frame_exec FrameRelease f = frame_release f"
| "frame_exec FrameReset f = frame_reset f"

text \<open>
  A bank segment within the part of its bank that the profile gives to users, and the facts
  about a frame: what is prepared, which slots are live, and where their bytes are.
\<close>

definition user_spm :: "pyval \<Rightarrow> bank_segment \<Rightarrow> bool" where
  "user_spm profile s \<longleftrightarrow> (let base = seg_bank_id s * iattr ''bank_bytes'' profile in
     0 \<le> seg_bank_id s \<and> seg_bank_id s < iattr ''banks'' profile
     \<and> base + iattr ''system_reserved_spm_per_bank'' profile \<le> seg_address s
     \<and> seg_address s + seg_size_bytes s \<le> base + iattr ''spm_bytes_per_bank'' profile)"

definition prepared_ok :: "slot_frame \<Rightarrow> bool" where
  "prepared_ok f \<longleftrightarrow> (\<exists>arena layout ss. fm_arena f = Some arena \<and> fm_layout f = Some layout \<and> fm_shadow_slots f = Some ss
     \<and> length ss = fm_slot_count f
     \<and> (\<forall>r \<in> set (ah_reserve arena). user_spm (ah_profile arena) r)
     \<and> (\<forall>b \<in> set (items (attr ''buffer_layouts'' layout)). 0 \<le> iattr ''slot_id'' b \<and> iattr ''slot_id'' b < int (fm_slot_count f)))"

definition views_ok :: "slot_frame \<Rightarrow> bool" where
  "views_ok f \<longleftrightarrow> keys_distinct (fm_slot_segments f)
     \<and> (\<forall>i segs. dict_get (fm_slot_segments f) i = Some segs \<longrightarrow>
          0 \<le> i \<and> i < int (fm_slot_count f) \<and> (\<exists>arena. fm_arena f = Some arena \<and> (\<forall>s \<in> set segs. user_spm (ah_profile arena) s)))
     \<and> (\<forall>i j segs segs'. dict_get (fm_slot_segments f) i = Some segs \<longrightarrow> dict_get (fm_slot_segments f) j = Some segs' \<longrightarrow>
          i \<noteq> j \<longrightarrow> (\<forall>s \<in> set segs. \<forall>t \<in> set segs'. \<not> overlaps s t))"

definition live_ok :: "slot_frame \<Rightarrow> bool" where
  "live_ok f \<longleftrightarrow> (\<forall>k < fm_slot_count f. sl_allocation_id (fm_slots f ! k) \<noteq> None \<longleftrightarrow> dict_get (fm_slot_segments f) (int k) \<noteq> None)
     \<and> (\<forall>k < fm_slot_count f. dict_get (fm_slot_segments f) (int k) = None \<longrightarrow> fm_slots f ! k = slot_new (int k))"

definition copies_ok :: "slot_frame \<Rightarrow> bool" where
  "copies_ok f \<longleftrightarrow> fm_shadow_slots f = Some (fm_slots f) \<and> map_option sh_slots (fm_shadow f) = Some (fm_slots f)"

definition frame_inv :: "slot_frame \<Rightarrow> bool" where
  "frame_inv f \<longleftrightarrow> length (fm_slots f) = fm_slot_count f \<and> views_ok f \<and> live_ok f
     \<and> (case fm_state f of
          FRAME_ACTIVE \<Rightarrow> prepared_ok f \<and> copies_ok f
        | FRAME_IDLE \<Rightarrow> fm_slot_segments f = [] \<and> fm_shadow f = None
            \<and> (fm_shadow_slots f \<noteq> None \<longrightarrow> prepared_ok f \<and> fm_shadow_slots f = Some (blank_slots (fm_slot_count f)))
        | FRAME_FAULTED \<Rightarrow> fm_slot_segments f = [] \<and> fm_shadow f = None \<and> fm_shadow_slots f = None
        | _ \<Rightarrow> False)"

lemma length_blank_slots [simp]: "length (blank_slots n) = n"
  by (simp add: blank_slots_def)

lemma slot_new_id [simp]: "sl_allocation_id (slot_new i) = None"
  by (simp add: slot_new_def)

lemma nth_blank_slots [simp]: "k < n \<Longrightarrow> blank_slots n ! k = slot_new (int k)"
  by (simp add: blank_slots_def)

lemma counters_keep:
  "prepared_ok (f\<lparr>fm_permission_faults := n\<rparr>) = prepared_ok f" "copies_ok (f\<lparr>fm_permission_faults := n\<rparr>) = copies_ok f"
  "views_ok (f\<lparr>fm_permission_faults := n\<rparr>) = views_ok f" "live_ok (f\<lparr>fm_permission_faults := n\<rparr>) = live_ok f"
  by (simp_all add: prepared_ok_def copies_ok_def views_ok_def live_ok_def)

lemma permission_fault_inv: "frame_inv f \<Longrightarrow> frame_inv (permission_fault f)"
  by (cases "fm_state f") (simp_all add: permission_fault_def frame_inv_def counters_keep)

lemma frame_new_inv: "frame_inv (frame_new frame_id l1_bytes n)"
  by (simp add: frame_inv_def frame_new_def views_ok_def live_ok_def)

lemma frame_release_inv: "frame_inv (frame_release f)"
  by (simp add: frame_inv_def frame_release_def views_ok_def live_ok_def)

lemma frame_reset_inv: "frame_inv (frame_reset f)"
  by (simp add: frame_inv_def frame_reset_def frame_release_def views_ok_def live_ok_def)

lemma reserve_user_spm: "reserve_ok profile layout s \<Longrightarrow> user_spm profile s"
  by (auto simp: reserve_ok_def user_spm_def Let_def)

lemma user_spm_inside: "user_spm profile r \<Longrightarrow> inside s r \<Longrightarrow> user_spm profile s"
  by (auto simp: user_spm_def inside_def Let_def)

lemma prepare_inv:
  assumes "frame_inv f"
  shows "frame_inv (snd (prepare arena layout f))"
proof (cases "arena_matches f arena layout \<and> list_all (reserve_ok (ah_profile arena) layout) (ah_reserve arena)
    \<and> sum_list (map seg_size_bytes (ah_reserve arena)) = iattr ''reserved_bytes'' layout")
  case True
  then have idle: "fm_state f = FRAME_IDLE" and m: "arena_matches f arena layout"
    by (simp_all add: arena_matches_def is_available_def Let_def)
  have "prepared_ok (snd (prepare arena layout f))"
    using True by (auto simp: prepare_def prepared_ok_def list_all_iff arena_matches_def Let_def intro: reserve_user_spm)
  with True idle assms show ?thesis
    by (simp add: prepare_def frame_inv_def views_ok_def live_ok_def)
next
  case False
  then show ?thesis using permission_fault_inv [OF assms] by (auto simp: prepare_def)
qed

lemma bind_frame_inv:
  assumes "frame_inv f"
  shows "frame_inv (snd (bind_frame n f))"
proof (cases "fm_shadow_slots f")
  case None
  with assms have "fm_state f \<noteq> FRAME_ACTIVE" by (auto simp: frame_inv_def copies_ok_def)
  with None assms show ?thesis
    by (auto simp: bind_frame_def permission_fault_def frame_inv_def views_ok_def live_ok_def split: frame_state.splits)
next
  case (Some ss)
  then have "prepared_ok f" and act: "fm_state f = FRAME_ACTIVE \<Longrightarrow> ss = fm_slots f"
    and idle: "fm_state f \<noteq> FRAME_ACTIVE \<Longrightarrow> ss = blank_slots (fm_slot_count f) \<and> fm_slot_segments f = []"
    using assms by (auto simp: frame_inv_def copies_ok_def split: frame_state.splits)
  moreover from this have "length ss = fm_slot_count f" using Some by (auto simp: prepared_ok_def)
  moreover have "live_ok (f\<lparr>fm_slots := ss\<rparr>)"
    using act idle assms by (cases "fm_state f = FRAME_ACTIVE") (auto simp: live_ok_def frame_inv_def)
  ultimately show ?thesis
    using Some assms by (simp add: bind_frame_def frame_inv_def prepared_ok_def copies_ok_def views_ok_def live_ok_def)
qed

text \<open>Installing one slot in a bound frame.\<close>

lemma active_frame:
  assumes "frame_inv f" "fm_state f = FRAME_ACTIVE"
  obtains arena layout sh where "fm_arena f = Some arena" "fm_layout f = Some layout" "fm_shadow f = Some sh"
    "fm_shadow_slots f = Some (fm_slots f)" "sh_slots sh = fm_slots f" "length (fm_slots f) = fm_slot_count f"
    "\<forall>r \<in> set (ah_reserve arena). user_spm (ah_profile arena) r"
    "\<forall>b \<in> set (items (attr ''buffer_layouts'' layout)). 0 \<le> iattr ''slot_id'' b \<and> iattr ''slot_id'' b < int (fm_slot_count f)"
  using assms by (auto simp: frame_inv_def prepared_ok_def copies_ok_def)

lemma install_inv:
  assumes inv: "frame_inv f" "fm_state f = FRAME_ACTIVE" and k: "k < fm_slot_count f"
    and views: "views_ok (f\<lparr>fm_slot_segments := d\<rparr>)"
    and live: "sl_allocation_id s \<noteq> None \<longleftrightarrow> dict_get d (int k) \<noteq> None"
    and free: "dict_get d (int k) = None \<Longrightarrow> s = slot_new (int k)"
    and other: "\<And>j. j \<noteq> int k \<Longrightarrow> dict_get d j = dict_get (fm_slot_segments f) j"
  shows "frame_inv ((install_slot k s f)\<lparr>fm_slot_segments := d\<rparr>)"
proof -
  obtain arena layout sh where f: "fm_arena f = Some arena" "fm_layout f = Some layout" "fm_shadow f = Some sh"
    "fm_shadow_slots f = Some (fm_slots f)" "sh_slots sh = fm_slots f" "length (fm_slots f) = fm_slot_count f"
    by (rule active_frame [OF inv])
  let ?g = "(install_slot k s f)\<lparr>fm_slot_segments := d\<rparr>"
  have "prepared_ok ?g" using inv by (auto simp: frame_inv_def prepared_ok_def install_slot_def)
  moreover have "copies_ok ?g" using f by (simp add: copies_ok_def install_slot_def)
  moreover have "views_ok ?g" using views by (simp add: views_ok_def install_slot_def)
  moreover have "live_ok ?g"
    unfolding live_ok_def
  proof (intro conjI allI impI)
    fix j assume j: "j < fm_slot_count ?g"
    then have old: "(sl_allocation_id (fm_slots f ! j) \<noteq> None) = (dict_get (fm_slot_segments f) (int j) \<noteq> None)"
      "dict_get (fm_slot_segments f) (int j) = None \<longrightarrow> fm_slots f ! j = slot_new (int j)"
      using inv(1) by (simp_all add: frame_inv_def live_ok_def install_slot_def)
    then show "(sl_allocation_id (fm_slots ?g ! j) \<noteq> None) = (dict_get (fm_slot_segments ?g) (int j) \<noteq> None)"
      using k f(6) live other [of "int j"] by (cases "j = k") (simp_all add: install_slot_def)
    show "fm_slots ?g ! j = slot_new (int j)" if "dict_get (fm_slot_segments ?g) (int j) = None"
      using that old(2) k f(6) free other [of "int j"] by (cases "j = k") (simp_all add: install_slot_def)
  qed
  ultimately show ?thesis using f(6) inv(2) by (simp add: frame_inv_def install_slot_def)
qed

lemma segment_problem_None:
  "segment_problem reserve live ss = None \<longleftrightarrow>
     (\<forall>s \<in> set ss. (\<exists>r \<in> set reserve. inside s r) \<and> (\<forall>l \<in> set live. \<forall>t \<in> set l. \<not> overlaps s t))"
  by (induction ss) (auto simp: list_ex_iff)

lemma overlaps_sym: "overlaps s t \<longleftrightarrow> overlaps t s"
  by (auto simp: overlaps_def)

lemma views_ok_set:
  assumes "views_ok f" "fm_arena f = Some arena" "0 \<le> i" "i < int (fm_slot_count f)"
    and "\<forall>s \<in> set segs. user_spm (ah_profile arena) s"
    and "\<forall>l \<in> set (dict_values (fm_slot_segments f)). \<forall>t \<in> set l. \<forall>s \<in> set segs. \<not> overlaps s t"
  shows "views_ok (f\<lparr>fm_slot_segments := dict_set i segs (fm_slot_segments f)\<rparr>)"
proof -
  have far: "\<not> overlaps s t" if "dict_get (fm_slot_segments f) j = Some l" "t \<in> set l" "s \<in> set segs" for j l t s
    using assms(6) that dict_get_in_set [OF that(1)] by force
  have get: "dict_get (dict_set i segs (fm_slot_segments f)) j = (if j = i then Some segs else dict_get (fm_slot_segments f) j)" for j
    by (simp add: AList.update_conv')
  show ?thesis
    using assms(1-5) far overlaps_sym unfolding views_ok_def
    by (simp add: get AList.distinct_update) blast
qed

lemma view_target_Inr:
  assumes "view_target b h f arena layout = Inr (i, k)"
  shows "\<exists>item. find_layout layout b = Some item \<and> i = iattr ''slot_id'' item \<and> hd_size_bytes h = iattr ''logical_bytes'' item
     \<and> hd_arena_id h = ah_arena_id arena \<and> hd_profile_generation h = ah_profile_generation arena
     \<and> py_index (length (fm_slots f)) i = Some k \<and> sl_allocation_id (fm_slots f ! k) = None
     \<and> segment_problem (ah_reserve arena) (dict_values (fm_slot_segments f)) (hd_bank_segments h) = None"
  using assms by (auto simp: view_target_def split: option.splits if_splits)

lemma bind_view_cases:
  obtains e where "bind_view b h f = (Inl e, f)"
  | arena layout i k where "fm_arena f = Some arena" "fm_layout f = Some layout" "fm_state f = FRAME_ACTIVE"
      "view_target b h f arena layout = Inr (i, k)"
      "bind_view b h f = (Inr i, (install_slot k (view_slot i h) f)\<lparr>fm_slot_segments := dict_set i (hd_bank_segments h) (fm_slot_segments f)\<rparr>)"
proof (cases "fm_arena f = None \<or> fm_layout f = None \<or> fm_state f \<noteq> FRAME_ACTIVE \<or> fm_shadow f = None \<or> fm_shadow_slots f = None")
  case True
  then have "\<exists>e. bind_view b h f = (Inl e, f)" unfolding bind_view_def by (auto split: option.splits sum.splits prod.splits)
  with that(1) show ?thesis by blast
next
  case False
  then obtain arena layout where a: "fm_arena f = Some arena" "fm_layout f = Some layout" "fm_state f = FRAME_ACTIVE" by auto
  show ?thesis
  proof (cases "view_target b h f arena layout")
    case (Inl e)
    with a that(1) show ?thesis by (simp add: bind_view_def)
  next
    case (Inr p)
    obtain i k where "p = (i, k)" by fastforce
    with Inr a False show ?thesis by (intro that(2) [of arena layout i k]) (simp_all add: bind_view_def)
  qed
qed

lemma bind_view_inv:
  assumes "frame_inv f"
  shows "frame_inv (snd (bind_view b h f))"
proof (cases rule: bind_view_cases [of b h f])
  case (1 e)
  with assms show ?thesis by simp
next
  case (2 arena layout i k)
  from view_target_Inr [OF 2(4)] obtain item where item: "find_layout layout b = Some item" and i: "i = iattr ''slot_id'' item"
    and k: "py_index (length (fm_slots f)) i = Some k"
    and segs: "segment_problem (ah_reserve arena) (dict_values (fm_slot_segments f)) (hd_bank_segments h) = None"
    by (elim exE conjE)
  obtain arena' layout' sh where fr: "fm_arena f = Some arena'" "fm_layout f = Some layout'" "length (fm_slots f) = fm_slot_count f"
    "\<forall>r \<in> set (ah_reserve arena'). user_spm (ah_profile arena') r"
    "\<forall>b \<in> set (items (attr ''buffer_layouts'' layout')). 0 \<le> iattr ''slot_id'' b \<and> iattr ''slot_id'' b < int (fm_slot_count f)"
    by (rule active_frame [OF assms 2(3)]) blast
  have "item \<in> set (items (attr ''buffer_layouts'' layout))"
    using item by (auto simp: find_layout_def find_Some_iff)
  then have range: "0 \<le> i" "i < int (fm_slot_count f)" using fr(2,5) 2(2) i by auto
  then have ki: "k = nat i" using k fr(3) by (simp add: py_index_def)
  have inside: "\<forall>s \<in> set (hd_bank_segments h). user_spm (ah_profile arena) s"
    using segs [unfolded segment_problem_None] fr(1,4) 2(1) user_spm_inside by (metis option.inject)
  have "views_ok (f\<lparr>fm_slot_segments := dict_set i (hd_bank_segments h) (fm_slot_segments f)\<rparr>)"
    using assms segs by (intro views_ok_set [OF _ 2(1) range inside]) (auto simp: frame_inv_def segment_problem_None)
  then show ?thesis
    unfolding 2(5) snd_conv using range ki
    by (intro install_inv [OF assms 2(3)]) (auto simp: AList.update_conv' view_slot_def)
qed

lemma copies_match_None:
  "copies_match cs i h = None \<longleftrightarrow> (\<forall>(n, ss) \<in> set cs. 0 \<le> i \<and> i < int (length ss) \<and> slot_matches (ss ! nat i) h)"
  by (induction cs i h rule: copies_match.induct) auto

lemma release_slot_live:
  assumes "frame_inv f" "assert_slot_binding i h f = None"
  shows "fm_state f = FRAME_ACTIVE" "0 \<le> i" "i < int (fm_slot_count f)" "dict_get (fm_slot_segments f) i \<noteq> None"
proof -
  show act: "fm_state f = FRAME_ACTIVE" using assms(2) by (auto simp: assert_slot_binding_def split: if_splits)
  obtain sh ss where "copies_match [(''active'', fm_slots f), (''shadow'', sh), (''prepared'', ss)] i h = None"
    using assms(2) act by (auto simp: assert_slot_binding_def split: option.splits)
  then have i: "0 \<le> i" "i < int (length (fm_slots f))" and m: "slot_matches (fm_slots f ! nat i) h"
    unfolding copies_match_None by simp_all
  then show "0 \<le> i" "i < int (fm_slot_count f)" using assms(1) by (auto simp: frame_inv_def)
  then show "dict_get (fm_slot_segments f) i \<noteq> None"
    using m assms(1) unfolding frame_inv_def live_ok_def slot_matches_def
    by (metis nat_less_iff int_nat_eq option.distinct(1))
qed

lemma release_slot_inv:
  assumes "frame_inv f"
  shows "frame_inv (snd (release_slot i h f))"
proof (cases "assert_slot_binding i h f")
  case None
  note l = release_slot_live [OF assms None]
  have "views_ok (f\<lparr>fm_slot_segments := dict_del i (fm_slot_segments f)\<rparr>)"
    using assms by (auto simp: frame_inv_def views_ok_def AList.distinct_delete AList.delete_conv' split: if_splits)
  then have "frame_inv ((install_slot (nat i) (slot_new i) f)\<lparr>fm_slot_segments := dict_del i (fm_slot_segments f)\<rparr>)"
    using l by (intro install_inv [OF assms l(1)]) (auto simp: AList.delete_conv')
  moreover obtain segs where "dict_get (fm_slot_segments f) i = Some segs" using l(4) by blast
  ultimately show ?thesis using None by (simp add: release_slot_def Let_def install_slot_def)
qed (simp add: release_slot_def assms)

interpretation frame: total_machine frame_exec frame_inv
proof (unfold_locales)
  show "frame_inv f \<Longrightarrow> frame_inv (frame_exec x f)" for x f
    by (cases x) (simp_all add: prepare_inv bind_frame_inv bind_view_inv release_slot_inv frame_release_inv frame_reset_inv)
qed


section \<open>Properties\<close>

text \<open>C11. Live views of a slot frame never share bytes. After any sequence of operations, accepted or
  refused, the bytes of two different live slots are disjoint and every byte of a live slot
  lies in the part of an existing bank that the profile of the committed arena leaves to users;
  in a bound frame the active, the shadow and the prepared copy of the slots agree, and the
  live slots are exactly those with segments on record.
\<close>

theorem l1_views_exclusive:
  "let f = run_ops frame_exec xs (frame_new frame_id l1_bytes n) in
     (\<forall>i segs. dict_get (fm_slot_segments f) i = Some segs \<longrightarrow>
        (\<exists>arena. fm_arena f = Some arena \<and> (\<forall>s \<in> set segs. user_spm (ah_profile arena) s))
      \<and> (\<forall>j segs'. dict_get (fm_slot_segments f) j = Some segs' \<longrightarrow> i \<noteq> j \<longrightarrow>
           (\<forall>s \<in> set segs. \<forall>t \<in> set segs'. \<not> overlaps s t)))
   \<and> (fm_state f = FRAME_ACTIVE \<longrightarrow>
        fm_shadow_slots f = Some (fm_slots f) \<and> map_option sh_slots (fm_shadow f) = Some (fm_slots f)
      \<and> (\<forall>k < n. sl_allocation_id (fm_slots f ! k) \<noteq> None \<longleftrightarrow> dict_get (fm_slot_segments f) (int k) \<noteq> None))"
proof -
  define f where "f = run_ops frame_exec xs (frame_new frame_id l1_bytes n)"
  have inv: "frame_inv f" unfolding f_def by (rule frame.any_run_inv [OF frame_new_inv])
  have "fm_slot_count (frame_exec x g) = fm_slot_count g" for x g
    by (cases x) (auto simp: prepare_def permission_fault_def bind_frame_def frame_release_def frame_reset_def install_slot_def
        bind_view_def release_slot_def Let_def split: option.splits sum.splits prod.splits)
  then have "fm_slot_count (run_ops frame_exec xs g) = fm_slot_count g" for g by (induction xs arbitrary: g) simp_all
  then have n: "fm_slot_count f = n" by (simp add: f_def frame_new_def)
  have "views_ok f" "live_ok f" "fm_state f = FRAME_ACTIVE \<longrightarrow> copies_ok f"
    using inv by (auto simp: frame_inv_def)
  then show ?thesis
    unfolding f_def [symmetric] Let_def views_ok_def live_ok_def copies_ok_def n by blast
qed

lemma dict_del_absent: "dict_get d i = None \<Longrightarrow> dict_del i d = d"
  by (simp add: map_of_eq_None_iff AList.delete_idem)

text \<open>C13. Binding a view and releasing it again is the identity. In every reachable frame, if a view
  is installed, releasing its slot with the same handle succeeds and gives back exactly the
  frame as it was; a release with any handle that differs in identity, generation, owner,
  arena or placement raises and changes nothing.
\<close>

theorem l1_bind_release_round_trip:
  assumes "f = run_ops frame_exec xs (frame_new frame_id l1_bytes n)" "bind_view b h f = (Inr i, g)"
  shows "release_slot i h g = (Inr (), f)
     \<and> (\<forall>h'. \<not> slot_matches (view_slot i h) h' \<longrightarrow> (\<exists>m. release_slot i h' g = (Inl (MemoryInvariantError m), g)))"
proof -
  have inv: "frame_inv f" unfolding assms(1) by (rule frame.any_run_inv [OF frame_new_inv])
  obtain arena layout i' k where a: "fm_arena f = Some arena" "fm_layout f = Some layout" "fm_state f = FRAME_ACTIVE"
    and t: "view_target b h f arena layout = Inr (i', k)"
    and g: "bind_view b h f = (Inr i', (install_slot k (view_slot i' h) f)\<lparr>fm_slot_segments := dict_set i' (hd_bank_segments h) (fm_slot_segments f)\<rparr>)"
    by (rule bind_view_cases [of b h f]) (use assms(2) in auto)
  then have ii: "i' = i" and g': "g = (install_slot k (view_slot i h) f)\<lparr>fm_slot_segments := dict_set i (hd_bank_segments h) (fm_slot_segments f)\<rparr>"
    using assms(2) by simp_all
  obtain arena' layout' sh where fr: "fm_layout f = Some layout'" "fm_shadow f = Some sh" "fm_shadow_slots f = Some (fm_slots f)"
    "sh_slots sh = fm_slots f" "length (fm_slots f) = fm_slot_count f"
    "\<forall>b \<in> set (items (attr ''buffer_layouts'' layout')). 0 \<le> iattr ''slot_id'' b \<and> iattr ''slot_id'' b < int (fm_slot_count f)"
    by (rule active_frame [OF inv a(3)]) blast
  from view_target_Inr [OF t] obtain item where item: "find_layout layout b = Some item" "i = iattr ''slot_id'' item"
    and k: "py_index (length (fm_slots f)) i = Some k" and free: "sl_allocation_id (fm_slots f ! k) = None"
    unfolding ii by (elim exE conjE)
  have "item \<in> set (items (attr ''buffer_layouts'' layout))" using item(1) by (auto simp: find_layout_def find_Some_iff)
  then have range: "0 \<le> i" "i < int (fm_slot_count f)" using fr(1,6) a(2) item(2) by auto
  then have ki: "k = nat i" "k < length (fm_slots f)" using k fr(5) by (simp_all add: py_index_def nat_less_iff)
  have absent: "dict_get (fm_slot_segments f) i = None" and old: "fm_slots f ! k = slot_new i"
    using inv free ki range fr(5) unfolding frame_inv_def live_ok_def by (metis int_nat_eq)+
  have same: "(fm_slots f)[k := slot_new i] = fm_slots f" using list_update_id [of "fm_slots f" k] old by simp
  have bound: "assert_slot_binding i h' g = None \<longleftrightarrow> slot_matches (view_slot i h) h'" for h'
    using range ki fr a(3) by (auto simp: assert_slot_binding_def g' install_slot_def copies_match_None simp del: copies_match.simps)
  have "slot_matches (view_slot i h) h" by (simp add: slot_matches_def view_slot_def)
  then have "assert_slot_binding i h g = None" using bound by blast
  moreover have "(install_slot k (slot_new i) g)\<lparr>fm_slot_segments := dict_del i (fm_slot_segments g)\<rparr> = f"
    using fr same absent by (cases f; cases sh) (simp add: g' install_slot_def dict_del_absent)
  moreover have "dict_get (fm_slot_segments g) i \<noteq> None" by (simp add: g' AList.update_conv')
  ultimately have "release_slot i h g = (Inr (), f)"
    unfolding release_slot_def Let_def ki(1) [symmetric] by (auto simp: install_slot_def)
  moreover have "\<exists>m. release_slot i h' g = (Inl (MemoryInvariantError m), g)" if "\<not> slot_matches (view_slot i h) h'" for h'
  proof -
    have "\<exists>m. assert_slot_binding i h' g = Some (MemoryInvariantError m)"
      using that range ki fr a(3) by (auto simp: assert_slot_binding_def g' install_slot_def)
    then show ?thesis by (auto simp: release_slot_def)
  qed
  ultimately show ?thesis by blast
qed

text \<open>Two 64-byte buffers in the slots 0 and 1 of an arena over two banks.\<close>

definition demo_item :: "string \<Rightarrow> int \<Rightarrow> int \<Rightarrow> pyval" where
  "demo_item b i off = PObj ''BufferLayout''
     [(''buffer_id'', PStr b), (''logical_bytes'', PInt 64), (''slot_id'', PInt i), (''arena_offset'', PInt off),
      (''stripe_bytes'', PInt 64), (''banks'', PInt 2), (''role'', PStr '''')]"

definition demo_l1_layout :: pyval where
  "demo_l1_layout = PObj ''ArenaLayout''
     [(''alignment'', PInt 64), (''stripe_bytes'', PInt 64), (''reserved_bytes'', PInt 256),
      (''per_bank_bytes'', PTuple [PInt 128, PInt 128]),
      (''buffer_layouts'', PTuple [demo_item ''x'' 0 0, demo_item ''y'' 1 128]), (''layout_hash'', PStr '''')]"

definition demo_l1_profile :: pyval where
  "demo_l1_profile = PObj ''MemoryProfile''
     [(''level'', PStr ''l1''), (''mode'', PInt 0), (''bank_bytes'', PInt 256), (''banks'', PInt 2), (''pools'', PInt 1),
      (''spm_bytes_per_bank'', PInt 192), (''cache_bytes_per_bank'', PInt 64), (''system_reserved_spm_per_bank'', PInt 64),
      (''alignment'', PInt 64)]"

definition demo_l1_arena :: arena_handle where
  "demo_l1_arena = \<lparr>ah_arena_id = ''a'', ah_memory_space = ''l1'',
     ah_reserve = [\<lparr>seg_bank_id = 0, seg_address = 64, seg_size_bytes = 128\<rparr>, \<lparr>seg_bank_id = 1, seg_address = 320, seg_size_bytes = 128\<rparr>],
     ah_layout = demo_l1_layout, ah_profile = demo_l1_profile, ah_profile_generation = 1, ah_allocation_generation = 1\<rparr>"

definition demo_view :: "string \<Rightarrow> int \<Rightarrow> string handle" where
  "demo_view name address = \<lparr>hd_allocation_id = name, hd_memory_space = ''l1'', hd_owner = ExternalOwner ''t'',
     hd_base_address = address, hd_size_bytes = 64, hd_alignment = 64,
     hd_bank_segments = [\<lparr>seg_bank_id = 0, seg_address = address, seg_size_bytes = 64\<rparr>], hd_generation = 1,
     hd_allocate_cycle = 0, hd_arena_id = ''a'', hd_profile_generation = 1, hd_backing_id = ''''\<rparr>"

definition demo_bound :: "frame_op list" where
  "demo_bound = [FramePrepare demo_l1_arena demo_l1_layout, FrameBind 8, FrameBindView ''x'' (demo_view ''v1'' 64)]"

lemma demo_second_view:
  "fst (bind_view ''y'' (demo_view ''v2'' 128) (run_ops frame_exec demo_bound (frame_new 0 512 16))) = Inr 1"
  by code_simp

lemma demo_views:
  "fm_slot_segments (run_ops frame_exec (demo_bound @ [FrameBindView ''y'' (demo_view ''v2'' 128)]) (frame_new 0 512 16))
     = [(0, hd_bank_segments (demo_view ''v1'' 64)), (1, hd_bank_segments (demo_view ''v2'' 128))]"
  by code_simp

theorem l1_views_exclusive_witness:
  "let f = run_ops frame_exec (demo_bound @ [FrameBindView ''y'' (demo_view ''v2'' 128)]) (frame_new 0 512 16) in
     \<forall>s \<in> set (hd_bank_segments (demo_view ''v1'' 64)). \<forall>t \<in> set (hd_bank_segments (demo_view ''v2'' 128)). \<not> overlaps s t"
proof -
  let ?f = "run_ops frame_exec (demo_bound @ [FrameBindView ''y'' (demo_view ''v2'' 128)]) (frame_new 0 512 16)"
  have "dict_get (fm_slot_segments ?f) 0 = Some (hd_bank_segments (demo_view ''v1'' 64))"
    "dict_get (fm_slot_segments ?f) 1 = Some (hd_bank_segments (demo_view ''v2'' 128))"
    unfolding demo_views by simp_all
  moreover have "(0 :: int) \<noteq> 1" by simp
  ultimately show ?thesis
    using l1_views_exclusive [of "demo_bound @ [FrameBindView ''y'' (demo_view ''v2'' 128)]" 0 512 16]
    unfolding Let_def by blast
qed

theorem l1_bind_release_round_trip_witness:
  "let f = run_ops frame_exec demo_bound (frame_new 0 512 16) in
     release_slot 1 (demo_view ''v2'' 128) (snd (bind_view ''y'' (demo_view ''v2'' 128) f)) = (Inr (), f)"
proof -
  let ?f = "run_ops frame_exec demo_bound (frame_new 0 512 16)"
  have "bind_view ''y'' (demo_view ''v2'' 128) ?f = (Inr 1, snd (bind_view ''y'' (demo_view ''v2'' 128) ?f))"
    using demo_second_view by (simp only: prod_eq_iff fst_conv snd_conv)
  from l1_bind_release_round_trip [OF refl this] show ?thesis by (simp only: Let_def)
qed

end
