(* ===== verification/Group_Port.thy ===== *)
theory Group_Port
  imports Allocator Group_Scheduler
begin

text \<open>
  \<open>src/pipeline_validator/runtime/group_port.py\<close>: the adapter between the CPU model and one tile
  group. Launch requests wait in two queues (those that got the L2 mode they asked for, and
  those that run in a compatible one), are admitted into the context slots of the group, and
  leave with exactly one completion; control commands pass through to the profile controller.

  Records are mutable and shared between the tables of the adapter, so they live in a heap by
  request id. The group (\<open>tile_group.py\<close>), its sequencers and its profile controller are ports on
  a state of their own. Tracing and the report snapshot are left out.
\<close>

section \<open>Messages and records\<close>

datatype completion_status = COMPLETION_SUCCESS | COMPLETION_ERROR

record 'x launch_request =
  lr_request_id :: int
  lr_binding_id :: string
  lr_task_name :: string
  lr_context_name :: string
  lr_group_affinity :: "int option"
  lr_body :: 'x

record device_completion =
  dc_request_id :: int
  dc_status :: completion_status
  dc_reason :: string
  dc_cycle :: int

record 'x control_request =
  cr_command_id :: string
  cr_descriptor_id :: string
  cr_command :: 'x

record control_completion =
  cc_command_id :: string
  cc_status :: string
  cc_reason :: string
  cc_cycle :: int

record call_binding =
  cb_binding_id :: string
  cb_context_name :: string
  cb_requested_l2_mode :: int
  cb_resolved_l2_mode :: int
  cb_permitted_l2_modes :: "int list"

datatype lifecycle = LC_PENDING | LC_ACTIVE | LC_COMPLETE | LC_FAILED

record ('x, 'q) root_record =
  rr_request :: "'x launch_request"
  rr_ready_seq :: int
  rr_category :: string
  rr_submit_cycle :: int
  rr_lifecycle :: lifecycle
  rr_slot_index :: "int option"
  rr_sequencer :: "'q option"
  rr_active_cycle :: "int option"
  rr_completion_cycle :: "int option"
  rr_status :: "completion_status option"
  rr_reason :: string
  rr_wait_reason :: "admission_wait_reason option"
  rr_wait_start_cycle :: "int option"
  rr_retry_count :: int

record ('x, 'q, 'v, 'e) group_port =
  gq_active_context_capacity :: int
  gq_context_pending_capacity :: int
  gq_run_generation :: int
  gq_slots :: "int option list"
  gq_pending :: "int list"
  gq_mirror :: "int list"
  gq_same :: "int list"
  gq_compatible :: "int list"
  gq_ready_completions :: "device_completion list"
  gq_seen_request_ids :: "int set"
  gq_records :: "int \<Rightarrow> ('x, 'q) root_record"
  gq_next_ready_seq :: int
  gq_pending_changed :: bool
  gq_slot_version :: int
  gq_last_admission_token :: "('v \<times> int) option"
  gq_ready_control_completions :: "control_completion list"
  gq_control_inflight :: "string set"
  gq_seen_control_ids :: "string set"
  gq_controls_submitted :: int
  gq_controls_completed :: int
  gq_controls_failed :: int
  gq_control_backpressure :: int
  gq_slot_peak :: int
  gq_pending_peak :: int
  gq_submitted :: int
  gq_completed :: int
  gq_failed :: int
  gq_backpressure :: int
  gq_fault_reason :: "string option"
  gq_out :: "device_completion list"
  gq_env :: 'e

text \<open>\<open>gq_out\<close> is the completion list of the poll that is running.\<close>

type_synonym ('x, 'q, 'v, 'e, 'a) gq_result = "(('x, 'q, 'v, 'e) group_port, 'a) outcome"

record ('x, 'q, 'v, 'e) root_ports =
  rp_run_generation :: "'e \<Rightarrow> int"
  rp_reset_active :: "'e \<Rightarrow> bool"
  rp_reset_done :: "'e \<Rightarrow> bool"
  rp_call_bindings :: "'e \<Rightarrow> (string, call_binding) dict option"
  rp_active_l2_mode :: "'e \<Rightarrow> int option"
  rp_try_admit :: "'x launch_request \<Rightarrow> int \<Rightarrow> int \<Rightarrow> 'e \<Rightarrow> ('e, 'q option) outcome"
  rp_last_admission_wait :: "'e \<Rightarrow> admission_wait_reason option"
  rp_retained_blocks :: "'x launch_request \<Rightarrow> string list \<Rightarrow> 'e \<Rightarrow> py_error + bool"
  rp_admission_version :: "'e \<Rightarrow> 'v"
  rp_seq_active :: "'q \<Rightarrow> 'e \<Rightarrow> bool"
  rp_seq_faulted :: "'q \<Rightarrow> 'e \<Rightarrow> bool"
  rp_seq_done :: "'q \<Rightarrow> 'e \<Rightarrow> bool"
  rp_seq_fault_reason :: "'q \<Rightarrow> 'e \<Rightarrow> string"
  rp_submit_control :: "'x \<Rightarrow> string \<Rightarrow> int \<Rightarrow> 'e \<Rightarrow> ('e, bool) outcome"
  rp_control_status :: "string \<Rightarrow> 'e \<Rightarrow> py_error + string"
  rp_command_reason :: "string \<Rightarrow> 'e \<Rightarrow> py_error + string"
  rp_note_dependencies :: "string \<Rightarrow> string list \<Rightarrow> int \<Rightarrow> 'e \<Rightarrow> ('e, unit) outcome"
  rp_note_await :: "string \<Rightarrow> string \<Rightarrow> string list \<Rightarrow> int \<Rightarrow> 'e \<Rightarrow> ('e, unit) outcome"

definition gq_new ::
  "int \<Rightarrow> int \<Rightarrow> int \<Rightarrow> int list \<Rightarrow> ('x, 'q) root_record \<Rightarrow> 'e \<Rightarrow> py_error + ('x, 'q, 'v, 'e) group_port" where
  "gq_new active_capacity pending_capacity run_generation stale blank env =
     (if active_capacity < 1 then Inl (ValueError ''active_context_capacity must be a positive integer'')
      else if pending_capacity < 1 then Inl (ValueError ''context_pending_capacity must be a positive integer'')
      else if stale \<noteq> [] then Inl (RuntimeError ''Group has stale pending root requests at run start'')
      else Inr \<lparr>gq_active_context_capacity = active_capacity, gq_context_pending_capacity = pending_capacity,
        gq_run_generation = run_generation, gq_slots = replicate (nat active_capacity) None, gq_pending = [],
        gq_mirror = [], gq_same = [], gq_compatible = [], gq_ready_completions = [], gq_seen_request_ids = {},
        gq_records = (\<lambda>_. blank), gq_next_ready_seq = 0, gq_pending_changed = False, gq_slot_version = 0,
        gq_last_admission_token = None, gq_ready_control_completions = [], gq_control_inflight = {},
        gq_seen_control_ids = {}, gq_controls_submitted = 0, gq_controls_completed = 0, gq_controls_failed = 0,
        gq_control_backpressure = 0, gq_slot_peak = 0, gq_pending_peak = 0, gq_submitted = 0, gq_completed = 0,
        gq_failed = 0, gq_backpressure = 0, gq_fault_reason = None, gq_out = [], gq_env = env\<rparr>)"

section \<open>Submission\<close>

definition active_ids :: "('x, 'q, 'v, 'e) group_port \<Rightarrow> int list" where
  "active_ids s = map the (filter (\<lambda>x. x \<noteq> None) (gq_slots s))"

definition active_count :: "('x, 'q, 'v, 'e) group_port \<Rightarrow> int" where
  "active_count s = int (length (active_ids s))"

definition pending_count :: "('x, 'q, 'v, 'e) group_port \<Rightarrow> int" where
  "pending_count s = int (length (gq_pending s))"

definition control_owner :: "('x, 'q, 'v, 'e) root_ports \<Rightarrow> ('x, 'q, 'v, 'e) group_port \<Rightarrow> py_error + string" where
  "control_owner ports s =
     (if rp_run_generation ports (gq_env s) \<noteq> gq_run_generation s
      then Inl (RuntimeError ''GroupPortAdapter run generation is stale'')
      else Inr (''device@'' @ show_int (gq_run_generation s)))"

definition group_fault :: "('x, 'q, 'v, 'e) root_ports \<Rightarrow> ('x, 'q, 'v, 'e) group_port \<Rightarrow> string option" where
  "group_fault ports s =
     (case gq_fault_reason s of
        Some reason \<Rightarrow> Some reason
      | None \<Rightarrow>
          if rp_reset_active ports (gq_env s) then Some ''Group reset is draining the current run''
          else if rp_reset_done ports (gq_env s) then Some ''Group reset cancelled the current run''
          else None)"

definition profile_category ::
  "('x, 'q, 'v, 'e) root_ports \<Rightarrow> 'x launch_request \<Rightarrow> ('x, 'q, 'v, 'e) group_port \<Rightarrow> py_error + string" where
  "profile_category ports req s =
     (let binding_id = lr_binding_id req in
      if binding_id = '''' then Inl (ValueError ''root launch task has no binding_id'')
      else case rp_call_bindings ports (gq_env s) of
        None \<Rightarrow> Inl (ValueError ''root launch requires a loaded compiled program'')
      | Some bindings \<Rightarrow>
          (case dict_get bindings binding_id of
             None \<Rightarrow> Inl (ValueError (''unknown compiled call binding '' @ quoted binding_id))
           | Some b \<Rightarrow>
               if cb_binding_id b \<noteq> binding_id \<or> cb_context_name b \<noteq> lr_context_name req
               then Inl (ValueError ''root launch identity disagrees with its compiled call binding'')
               else if lr_task_name req \<noteq> lr_context_name req
               then Inl (ValueError ''root launch report name disagrees with its executable task'')
               else case rp_active_l2_mode ports (gq_env s) of
                 None \<Rightarrow> Inl (ValueError ''ProfileController has no active L2 mode'')
               | Some active \<Rightarrow>
                   if active \<noteq> cb_resolved_l2_mode b
                   then Inl (ValueError (''binding '' @ quoted binding_id @ '' resolved L2 mode '' @ show_int (cb_resolved_l2_mode b)
                               @ '', but the active mode is '' @ show_int active))
                   else if active \<notin> set (cb_permitted_l2_modes b)
                   then Inl (ValueError (''active L2 mode '' @ show_int active @ '' is outside binding '' @ quoted binding_id
                               @ '' permitted profiles''))
                   else Inr (if active = cb_requested_l2_mode b then ''same'' else ''compatible'')))"

definition new_record ::
  "'x launch_request \<Rightarrow> int \<Rightarrow> string \<Rightarrow> ('x, 'q, 'v, 'e) group_port \<Rightarrow> ('x, 'q, 'v, 'e) group_port" where
  "new_record req cycle category s =
     (let r = \<lparr>rr_request = req, rr_ready_seq = gq_next_ready_seq s, rr_category = category, rr_submit_cycle = cycle,
               rr_lifecycle = LC_PENDING, rr_slot_index = None, rr_sequencer = None, rr_active_cycle = None,
               rr_completion_cycle = None, rr_status = None, rr_reason = '''', rr_wait_reason = None,
               rr_wait_start_cycle = None, rr_retry_count = 0\<rparr>
      in s\<lparr>gq_next_ready_seq := gq_next_ready_seq s + 1,
           gq_seen_request_ids := insert (lr_request_id req) (gq_seen_request_ids s),
           gq_records := (gq_records s)(lr_request_id req := r), gq_submitted := gq_submitted s + 1\<rparr>)"

definition upd_record ::
  "int \<Rightarrow> (('x, 'q) root_record \<Rightarrow> ('x, 'q) root_record) \<Rightarrow> ('x, 'q, 'v, 'e) group_port \<Rightarrow> ('x, 'q, 'v, 'e) group_port" where
  "upd_record i f s = s\<lparr>gq_records := (gq_records s)(i := f (gq_records s i))\<rparr>"

text \<open>\<open>a or b\<close> on an optional text.\<close>

definition first_reason :: "string option \<Rightarrow> string \<Rightarrow> string option" where
  "first_reason a b = (case a of Some r \<Rightarrow> if r \<noteq> '''' then Some r else Some b | None \<Rightarrow> Some b)"

definition fail_record :: "string \<Rightarrow> int \<Rightarrow> ('x, 'q) root_record \<Rightarrow> ('x, 'q) root_record" where
  "fail_record reason cycle r = r\<lparr>rr_lifecycle := LC_FAILED, rr_completion_cycle := Some cycle,
     rr_status := Some COMPLETION_ERROR, rr_reason := reason\<rparr>"

definition note_failure :: "string \<Rightarrow> ('x, 'q, 'v, 'e) group_port \<Rightarrow> ('x, 'q, 'v, 'e) group_port" where
  "note_failure reason s = s\<lparr>gq_failed := gq_failed s + 1, gq_fault_reason := first_reason (gq_fault_reason s) reason\<rparr>"

definition error_completion :: "int \<Rightarrow> string \<Rightarrow> int \<Rightarrow> device_completion" where
  "error_completion i reason cycle = \<lparr>dc_request_id = i, dc_status = COMPLETION_ERROR, dc_reason = reason, dc_cycle = cycle\<rparr>"

definition reject_submit ::
  "'x launch_request \<Rightarrow> int \<Rightarrow> string \<Rightarrow> ('x, 'q, 'v, 'e) group_port \<Rightarrow> ('x, 'q, 'v, 'e) group_port" where
  "reject_submit req cycle reason s =
     (let i = lr_request_id req;
          s = note_failure reason (upd_record i (fail_record reason cycle) (new_record req cycle ''invalid'' s))
      in s\<lparr>gq_ready_completions := gq_ready_completions s @ [error_completion i reason cycle]\<rparr>)"

text \<open>The exceptions \<open>except (RuntimeError, ValueError)\<close> accepts.\<close>

definition is_value_or_runtime :: "py_error \<Rightarrow> bool" where
  "is_value_or_runtime e = (case e of RuntimeError _ \<Rightarrow> True | EventProtocolError _ \<Rightarrow> True | ValueError _ \<Rightarrow> True | _ \<Rightarrow> False)"

definition enqueue :: "string \<Rightarrow> int \<Rightarrow> ('x, 'q, 'v, 'e) group_port \<Rightarrow> ('x, 'q, 'v, 'e) group_port" where
  "enqueue category i s =
     (if category = ''same'' then s\<lparr>gq_same := gq_same s @ [i]\<rparr> else s\<lparr>gq_compatible := gq_compatible s @ [i]\<rparr>)"

definition try_submit ::
  "('x, 'q, 'v, 'e) root_ports \<Rightarrow> 'x launch_request \<Rightarrow> int \<Rightarrow> ('x, 'q, 'v, 'e) group_port \<Rightarrow> ('x, 'q, 'v, 'e, bool) gq_result" where
  "try_submit ports req cycle s =
     (let i = lr_request_id req in
      if i \<in> gq_seen_request_ids s then raise (ValueError (''duplicate device request_id '' @ show_int i)) s
      else if (case lr_group_affinity req of None \<Rightarrow> False | Some a \<Rightarrow> a < 0 \<or> gq_active_context_capacity s \<le> a)
      then ret True (reject_submit req cycle
             (''request '' @ show_int i @ '' targets unavailable Group context slot '' @ show_int (the (lr_group_affinity req))) s)
      else case group_fault ports s of
        Some fault \<Rightarrow> ret True (reject_submit req cycle fault s)
      | None \<Rightarrow>
          (case profile_category ports req s of
             Inl e \<Rightarrow> if is_value_or_runtime e then ret True (reject_submit req cycle (error_text e) s) else raise e s
           | Inr category \<Rightarrow>
               if gq_context_pending_capacity s \<le> pending_count s
               then ret False (s\<lparr>gq_backpressure := gq_backpressure s + 1\<rparr>)
               else let s = new_record req cycle category s;
                        s = enqueue category i (s\<lparr>gq_pending := gq_pending s @ [i], gq_mirror := gq_mirror s @ [i]\<rparr>)
                    in ret True (s\<lparr>gq_pending_changed := True, gq_pending_peak := max (gq_pending_peak s) (pending_count s)\<rparr>)))"

section \<open>Admission\<close>

definition vacant_slot :: "int \<Rightarrow> ('x, 'q, 'v, 'e) group_port \<Rightarrow> int option" where
  "vacant_slot i s =
     (case lr_group_affinity (rr_request (gq_records s i)) of
        Some a \<Rightarrow> if gq_slots s ! nat a = None then Some a else None
      | None \<Rightarrow> map_option int (find (\<lambda>k. gq_slots s ! k = None) [0..<length (gq_slots s)]))"

definition remove_pending :: "int \<Rightarrow> ('x, 'q, 'v, 'e) group_port \<Rightarrow> ('x, 'q, 'v, 'e, unit) gq_result" where
  "remove_pending i s =
     (let both = (i \<in> set (gq_pending s) \<and> i \<in> set (gq_mirror s));
          s = s\<lparr>gq_pending := filter (\<lambda>j. j \<noteq> i) (gq_pending s), gq_mirror := filter (\<lambda>j. j \<noteq> i) (gq_mirror s)\<rparr>
      in if \<not> both then raise (RuntimeError (''pending root request '' @ show_int i @ '' lost its mirrored identity'')) s
         else ret () s)"

definition fail_pending :: "int \<Rightarrow> string \<Rightarrow> int \<Rightarrow> ('x, 'q, 'v, 'e) group_port \<Rightarrow> ('x, 'q, 'v, 'e, unit) gq_result" where
  "fail_pending i reason cycle s =
     and_then (remove_pending i s) (\<lambda>_ s.
       let s = note_failure reason (upd_record i (fail_record reason cycle) s)
       in ret () (s\<lparr>gq_out := gq_out s @ [error_completion i reason cycle]\<rparr>))"

definition category_queue :: "string \<Rightarrow> ('x, 'q, 'v, 'e) group_port \<Rightarrow> int list" where
  "category_queue category s = (if category = ''same'' then gq_same s else gq_compatible s)"

definition drop_stale :: "string \<Rightarrow> ('x, 'q, 'v, 'e) group_port \<Rightarrow> ('x, 'q, 'v, 'e) group_port" where
  "drop_stale category s =
     (let queue = dropWhile (\<lambda>i. i \<notin> set (gq_pending s)) (category_queue category s)
      in if category = ''same'' then s\<lparr>gq_same := queue\<rparr> else s\<lparr>gq_compatible := queue\<rparr>)"

definition note_wait :: "admission_wait_reason \<Rightarrow> int \<Rightarrow> ('x, 'q) root_record \<Rightarrow> ('x, 'q) root_record" where
  "note_wait reason cycle r = r\<lparr>rr_wait_reason := Some reason,
     rr_wait_start_cycle := (case rr_wait_start_cycle r of None \<Rightarrow> Some cycle | w \<Rightarrow> w)\<rparr>"

datatype attempt = EMPTY | BLOCKED | ADMITTED | FAULTED

definition fail_attempt :: "int \<Rightarrow> string \<Rightarrow> int \<Rightarrow> ('x, 'q, 'v, 'e) group_port \<Rightarrow> ('x, 'q, 'v, 'e, attempt) gq_result" where
  "fail_attempt i reason cycle s = and_then (fail_pending i reason cycle s) (\<lambda>_ s. ret FAULTED s)"

definition wait_attempt :: "int \<Rightarrow> admission_wait_reason \<Rightarrow> int \<Rightarrow> ('x, 'q, 'v, 'e) group_port \<Rightarrow> ('x, 'q, 'v, 'e, attempt) gq_result" where
  "wait_attempt i reason cycle s = ret BLOCKED (upd_record i (note_wait reason cycle) s)"

definition later_bindings :: "string \<Rightarrow> int \<Rightarrow> ('x, 'q, 'v, 'e) group_port \<Rightarrow> string list" where
  "later_bindings category i s =
     map (\<lambda>j. lr_binding_id (rr_request (gq_records s j)))
       (filter (\<lambda>j. j \<in> set (gq_pending s) \<and> j \<noteq> i) (category_queue category s))"

text \<open>The group refused for now: wait, unless the retained shared backings block the head for ever.\<close>

definition refused ::
  "('x, 'q, 'v, 'e) root_ports \<Rightarrow> string \<Rightarrow> int \<Rightarrow> int \<Rightarrow> ('x, 'q, 'v, 'e) group_port \<Rightarrow> ('x, 'q, 'v, 'e, attempt) gq_result" where
  "refused ports category i cycle s =
     (case rp_last_admission_wait ports (gq_env s) of
        None \<Rightarrow> raise AssertionError s
      | Some reason \<Rightarrow>
          if reason = admission_wait_reason.WAIT_CAPACITY \<or> reason = WAIT_FRAGMENTATION then
            (case rp_retained_blocks ports (rr_request (gq_records s i)) (later_bindings category i s) (gq_env s) of
               Inl e \<Rightarrow> if issue_catches e then fail_attempt i (error_text e) cycle s else raise e s
             | Inr impossible \<Rightarrow>
                 if impossible
                 then fail_attempt i ''L2 capacity fault: retained shared extents prevent FIFO-head admission'' cycle s
                 else wait_attempt i reason cycle s)
          else wait_attempt i reason cycle s)"

definition activate :: "int \<Rightarrow> int \<Rightarrow> 'q \<Rightarrow> int \<Rightarrow> ('x, 'q, 'v, 'e) group_port \<Rightarrow> ('x, 'q, 'v, 'e, attempt) gq_result" where
  "activate i slot q cycle s =
     and_then (remove_pending i s) (\<lambda>_ s.
       let s = upd_record i (\<lambda>r. r\<lparr>rr_sequencer := Some q, rr_slot_index := Some slot, rr_active_cycle := Some cycle,
                                   rr_lifecycle := LC_ACTIVE\<rparr>) s;
           s = s\<lparr>gq_slots := (gq_slots s)[nat slot := Some i]\<rparr>
       in ret ADMITTED (s\<lparr>gq_slot_peak := max (gq_slot_peak s) (active_count s)\<rparr>))"

definition admit_into ::
  "('x, 'q, 'v, 'e) root_ports \<Rightarrow> string \<Rightarrow> int \<Rightarrow> int \<Rightarrow> int \<Rightarrow> ('x, 'q, 'v, 'e) group_port \<Rightarrow> ('x, 'q, 'v, 'e, attempt) gq_result" where
  "admit_into ports category i slot cycle s =
     (case rp_try_admit ports (rr_request (gq_records s i)) slot cycle (gq_env s) of
        (Inl e, env) \<Rightarrow>
          let s = s\<lparr>gq_env := env\<rparr> in
          if issue_catches e then fail_attempt i (error_text e) cycle s else raise e s
      | (Inr None, env) \<Rightarrow> refused ports category i cycle (s\<lparr>gq_env := env\<rparr>)
      | (Inr (Some q), env) \<Rightarrow>
          let s = s\<lparr>gq_env := env\<rparr> in
          if \<not> rp_seq_active ports q env \<or> rp_seq_faulted ports q env \<or> rp_seq_done ports q env
          then let reason = rp_seq_fault_reason ports q env in
               fail_attempt i (if reason \<noteq> '''' then reason else ''Group rejected root admission permanently'') cycle
                 (upd_record i (\<lambda>r. r\<lparr>rr_sequencer := Some q\<rparr>) s)
          else activate i slot q cycle s)"

definition attempt_head ::
  "('x, 'q, 'v, 'e) root_ports \<Rightarrow> string \<Rightarrow> int \<Rightarrow> int \<Rightarrow> ('x, 'q, 'v, 'e) group_port \<Rightarrow> ('x, 'q, 'v, 'e, attempt) gq_result" where
  "attempt_head ports category i cycle s =
     (let s = (if rr_wait_reason (gq_records s i) \<noteq> None
               then upd_record i (\<lambda>r. r\<lparr>rr_retry_count := rr_retry_count r + 1\<rparr>) s else s)
      in case profile_category ports (rr_request (gq_records s i)) s of
           Inl e \<Rightarrow> if is_value_or_runtime e then fail_attempt i (error_text e) cycle s else raise e s
         | Inr actual \<Rightarrow>
             if actual \<noteq> category
             then fail_attempt i (''request '' @ show_int i @ '' profile category changed while pending'') cycle s
             else (case vacant_slot i s of
                 None \<Rightarrow> wait_attempt i WAIT_SLOT cycle s
               | Some slot \<Rightarrow> admit_into ports category i slot cycle s))"

definition attempt_category ::
  "('x, 'q, 'v, 'e) root_ports \<Rightarrow> string \<Rightarrow> int \<Rightarrow> ('x, 'q, 'v, 'e) group_port \<Rightarrow> ('x, 'q, 'v, 'e, attempt) gq_result" where
  "attempt_category ports category cycle s =
     (let s = drop_stale category s in
      case category_queue category s of
        [] \<Rightarrow> ret EMPTY s
      | i # _ \<Rightarrow> attempt_head ports category i cycle s)"

text \<open>
  Every admission takes a request out of the pending table, so the admission loop ends; the
  measure is the number of pending requests.
\<close>

definition shrinks :: "bool \<Rightarrow> ('x, 'q, 'v, 'e) group_port \<Rightarrow> ('x, 'q, 'v, 'e, attempt) gq_result \<Rightarrow> bool" where
  "shrinks strict s r \<longleftrightarrow> length (gq_pending (snd r)) \<le> length (gq_pending s)
     \<and> (fst r = Inr ADMITTED \<longrightarrow> length (gq_pending (snd r)) < length (gq_pending s))"

lemma pending_updates [simp]:
  "gq_pending (upd_record i f s) = gq_pending s" "gq_pending (note_failure reason s) = gq_pending s"
  "gq_pending (drop_stale category s) = gq_pending s"
  by (simp_all add: upd_record_def note_failure_def drop_stale_def Let_def)

lemma remove_pending_length:
  "length (gq_pending (snd (remove_pending i s))) \<le> length (gq_pending s)"
  "fst (remove_pending i s) = Inr u \<Longrightarrow> length (gq_pending (snd (remove_pending i s))) < length (gq_pending s)"
  by (auto simp: remove_pending_def Let_def intro!: length_filter_less split: if_splits)

lemma shrinks_fail: "shrinks b s (fail_attempt i reason cycle t) \<longleftrightarrow> length (gq_pending (snd (fail_attempt i reason cycle t))) \<le> length (gq_pending s)"
  by (auto simp: shrinks_def fail_attempt_def fail_pending_def and_then_def Let_def split: prod.splits sum.splits)

lemma fail_attempt_length: "length (gq_pending (snd (fail_attempt i reason cycle t))) \<le> length (gq_pending t)"
  using remove_pending_length(1) [of i t]
  by (auto simp: fail_attempt_def fail_pending_def and_then_def Let_def split: prod.splits sum.splits)

lemma shrinks_activate:
  assumes "length (gq_pending t) = length (gq_pending s)"
  shows "shrinks b s (activate i slot q cycle t)"
proof -
  have "fst (activate i slot q cycle t) = Inr ADMITTED \<Longrightarrow> \<exists>u. fst (remove_pending i t) = Inr u"
    by (auto simp: activate_def and_then_def split: prod.splits sum.splits)
  moreover have "gq_pending (snd (activate i slot q cycle t)) = gq_pending (snd (remove_pending i t))"
    by (auto simp: activate_def and_then_def Let_def split: prod.splits sum.splits)
  ultimately show ?thesis
    using remove_pending_length(1) [of i t] remove_pending_length(2) [of i t] assms by (auto simp: shrinks_def)
qed

lemma shrinks_same: "length (gq_pending t) = length (gq_pending s) \<Longrightarrow> x \<noteq> Inr ADMITTED \<Longrightarrow> shrinks b s (x, t)"
  by (simp add: shrinks_def)

lemma shrinks_refused:
  assumes "length (gq_pending t) = length (gq_pending s)"
  shows "shrinks b s (refused ports category i cycle t)"
  using assms fail_attempt_length [of i _ cycle t]
  by (auto simp: refused_def wait_attempt_def shrinks_fail split: option.splits sum.splits intro!: shrinks_same)

lemma shrinks_admit_into:
  assumes "length (gq_pending t) = length (gq_pending s)"
  shows "shrinks b s (admit_into ports category i slot cycle t)"
proof -
  have fail: "shrinks b s (fail_attempt j reason cycle u)" if "length (gq_pending u) = length (gq_pending s)" for j reason u
    using fail_attempt_length [of j reason cycle u] that by (simp add: shrinks_fail)
  show ?thesis
    using assms unfolding admit_into_def
    by (auto simp: Let_def split: prod.splits sum.splits option.splits
        intro!: fail shrinks_same shrinks_refused shrinks_activate)
qed

lemma shrinks_attempt_head:
  assumes "length (gq_pending t) = length (gq_pending s)"
  shows "shrinks b s (attempt_head ports category i cycle t)"
proof -
  define u where "u = (if rr_wait_reason (gq_records t i) \<noteq> None
    then upd_record i (\<lambda>r. r\<lparr>rr_retry_count := rr_retry_count r + 1\<rparr>) t else t)"
  have u: "length (gq_pending u) = length (gq_pending s)" using assms by (simp add: u_def)
  have fail: "shrinks b s (fail_attempt j reason cycle u)" for j reason
    using fail_attempt_length [of j reason cycle u] u by (simp add: shrinks_fail)
  show ?thesis
    unfolding attempt_head_def u_def [symmetric] Let_def wait_attempt_def
    using u by (auto split: sum.splits option.splits intro!: fail shrinks_same shrinks_admit_into)
qed

lemma shrinks_attempt: "shrinks b s (attempt_category ports category cycle s)"
  unfolding attempt_category_def Let_def
  by (auto split: list.splits intro!: shrinks_same shrinks_attempt_head)

lemma attempt_lengths:
  assumes "attempt_category ports category cycle s = (Inr x, t)"
  shows "length (gq_pending t) \<le> length (gq_pending s)"
    "x = ADMITTED \<Longrightarrow> length (gq_pending t) < length (gq_pending s)"
  using shrinks_attempt [of True s ports category cycle] assms by (simp_all add: shrinks_def)

lemma admitted_less:
  "ret ADMITTED t = attempt_category ports category cycle s \<Longrightarrow> length (gq_pending t) < length (gq_pending s)"
  by (rule attempt_lengths(2) [OF sym refl])

lemma admitted_second:
  "ret x t = attempt_category ports category cycle s \<Longrightarrow> ret ADMITTED u = attempt_category ports category' cycle t
     \<Longrightarrow> length (gq_pending u) < length (gq_pending s)"
  using admitted_less [of u ports category' cycle t] attempt_lengths(1) [OF sym, of x t ports category cycle s] by simp

function admit_loop ::
  "('x, 'q, 'v, 'e) root_ports \<Rightarrow> int \<Rightarrow> ('x, 'q, 'v, 'e) group_port \<Rightarrow> ('x, 'q, 'v, 'e, unit) gq_result" where
  "admit_loop ports cycle s =
     (if gq_pending s = [] \<or> group_fault ports s \<noteq> None then ret () s
      else case attempt_category ports ''same'' cycle s of
        (Inl e, t) \<Rightarrow> raise e t
      | (Inr ADMITTED, t) \<Rightarrow> admit_loop ports cycle t
      | (Inr FAULTED, t) \<Rightarrow> ret () t
      | (Inr _, t) \<Rightarrow>
          (case attempt_category ports ''compatible'' cycle t of
             (Inl e, u) \<Rightarrow> raise e u
           | (Inr ADMITTED, u) \<Rightarrow> admit_loop ports cycle u
           | (Inr _, u) \<Rightarrow> ret () u))"
  by pat_completeness auto

termination admit_loop
  by (relation "measure (\<lambda>(ports, cycle, s). length (gq_pending s))")
    (auto intro: admitted_less admitted_second)

declare admit_loop.simps [simp del]

definition settle_token :: "('x, 'q, 'v, 'e) root_ports \<Rightarrow> ('x, 'q, 'v, 'e) group_port \<Rightarrow> ('x, 'q, 'v, 'e) group_port" where
  "settle_token ports s = s\<lparr>gq_pending_changed := False,
     gq_last_admission_token := Some (rp_admission_version ports (gq_env s), gq_slot_version s)\<rparr>"

definition admit_pending ::
  "('x, 'q, 'v, 'e) root_ports \<Rightarrow> int \<Rightarrow> ('x, 'q, 'v, 'e) group_port \<Rightarrow> ('x, 'q, 'v, 'e, unit) gq_result" where
  "admit_pending ports cycle s =
     (if gq_pending s = [] then ret () (settle_token ports s)
      else if \<not> gq_pending_changed s
              \<and> Some (rp_admission_version ports (gq_env s), gq_slot_version s) = gq_last_admission_token s
      then ret () s
      else and_then (admit_loop ports cycle s) (\<lambda>_ s. ret () (settle_token ports s)))"

section \<open>Completions\<close>

fun fail_all :: "int list \<Rightarrow> string \<Rightarrow> int \<Rightarrow> ('x, 'q, 'v, 'e) group_port \<Rightarrow> ('x, 'q, 'v, 'e, unit) gq_result" where
  "fail_all [] reason cycle s = ret () s"
| "fail_all (i # is) reason cycle s = and_then (fail_pending i reason cycle s) (\<lambda>_ s. fail_all is reason cycle s)"

definition cancel_pending :: "string \<Rightarrow> int \<Rightarrow> ('x, 'q, 'v, 'e) group_port \<Rightarrow> ('x, 'q, 'v, 'e, unit) gq_result" where
  "cancel_pending reason cycle s =
     and_then (fail_all (gq_pending s) reason cycle s) (\<lambda>_ s. ret () (s\<lparr>gq_pending_changed := False\<rparr>))"

definition retire_status ::
  "('x, 'q, 'v, 'e) root_ports \<Rightarrow> 'q \<Rightarrow> bool \<Rightarrow> ('x, 'q, 'v, 'e) group_port \<Rightarrow> completion_status \<times> string" where
  "retire_status ports q resetting s =
     (if rp_seq_faulted ports q (gq_env s)
      then (COMPLETION_ERROR, let r = rp_seq_fault_reason ports q (gq_env s) in if r \<noteq> '''' then r else ''Group context failed'')
      else if resetting
      then (COMPLETION_ERROR, the (first_reason (gq_fault_reason s) ''Group reset cancelled the launch''))
      else (COMPLETION_SUCCESS, ''''))"

definition retire_slot ::
  "nat \<Rightarrow> int \<Rightarrow> completion_status \<times> string \<Rightarrow> int \<Rightarrow> ('x, 'q, 'v, 'e) group_port \<Rightarrow> ('x, 'q, 'v, 'e) group_port" where
  "retire_slot k i outcome cycle s =
     (case outcome of (status, reason) \<Rightarrow>
        let s = upd_record i (\<lambda>r. r\<lparr>rr_completion_cycle := Some cycle, rr_status := Some status, rr_reason := reason,
                  rr_lifecycle := (if status = COMPLETION_SUCCESS then LC_COMPLETE else LC_FAILED)\<rparr>) s;
            s = s\<lparr>gq_out := gq_out s @ [\<lparr>dc_request_id = i, dc_status = status, dc_reason = reason, dc_cycle = cycle\<rparr>],
                  gq_slots := (gq_slots s)[k := None], gq_slot_version := gq_slot_version s + 1\<rparr>
        in if status = COMPLETION_SUCCESS then s\<lparr>gq_completed := gq_completed s + 1\<rparr> else note_failure reason s)"

fun retire_slots ::
  "('x, 'q, 'v, 'e) root_ports \<Rightarrow> bool \<Rightarrow> bool \<Rightarrow> int \<Rightarrow> (nat \<times> int option) list \<Rightarrow> ('x, 'q, 'v, 'e) group_port
   \<Rightarrow> ('x, 'q, 'v, 'e, unit) gq_result" where
  "retire_slots ports active finished cycle [] s = ret () s"
| "retire_slots ports active finished cycle ((k, None) # rest) s = retire_slots ports active finished cycle rest s"
| "retire_slots ports active finished cycle ((k, Some i) # rest) s =
     (case rr_sequencer (gq_records s i) of
        None \<Rightarrow> raise (RuntimeError ''occupied Group slot has no sequencer'') s
      | Some q \<Rightarrow>
          if (active \<and> \<not> rp_seq_faulted ports q (gq_env s)) \<or> (\<not> rp_seq_done ports q (gq_env s) \<and> \<not> finished)
          then retire_slots ports active finished cycle rest s
          else retire_slots ports active finished cycle rest
                 (retire_slot k i (retire_status ports q (active \<or> finished) s) cycle s))"

definition poll_completions ::
  "('x, 'q, 'v, 'e) root_ports \<Rightarrow> int \<Rightarrow> ('x, 'q, 'v, 'e) group_port \<Rightarrow> ('x, 'q, 'v, 'e, device_completion list) gq_result" where
  "poll_completions ports cycle s =
     (let s = s\<lparr>gq_out := gq_ready_completions s, gq_ready_completions := []\<rparr> in
      and_then (retire_slots ports (rp_reset_active ports (gq_env s)) (rp_reset_done ports (gq_env s)) cycle
                  (enumerate 0 (gq_slots s)) s) (\<lambda>_ s.
        and_then (case group_fault ports s of
                    Some fault \<Rightarrow> cancel_pending fault cycle s
                  | None \<Rightarrow>
                      and_then (admit_pending ports cycle s) (\<lambda>_ s.
                        case group_fault ports s of
                          Some fault \<Rightarrow> cancel_pending fault cycle s
                        | None \<Rightarrow> ret () s)) (\<lambda>_ s.
          ret (gq_out s) (s\<lparr>gq_out := []\<rparr>))))"

section \<open>Control commands\<close>

definition on_group :: "('e \<Rightarrow> ('e, 'a) outcome) \<Rightarrow> ('x, 'q, 'v, 'e) group_port \<Rightarrow> ('x, 'q, 'v, 'e, 'a) gq_result" where
  "on_group f s = (case f (gq_env s) of (r, e) \<Rightarrow> (r, s\<lparr>gq_env := e\<rparr>))"

definition try_submit_control ::
  "('x, 'q, 'v, 'e) root_ports \<Rightarrow> 'x control_request \<Rightarrow> int \<Rightarrow> ('x, 'q, 'v, 'e) group_port \<Rightarrow> ('x, 'q, 'v, 'e, bool) gq_result" where
  "try_submit_control ports req cycle s =
     (case control_owner ports s of
        Inl e \<Rightarrow> raise e s
      | Inr owner \<Rightarrow>
          let c = cr_command_id req in
          if c \<noteq> cr_descriptor_id req then raise (ValueError ''control request ID disagrees with its descriptor'') s
          else if c \<in> gq_seen_control_ids s then raise (ValueError (''duplicate device control command '' @ quoted c)) s
          else case on_group (rp_submit_control ports (cr_command req) owner cycle) s of
            (Inl e, s) \<Rightarrow>
              if is_value_or_runtime e
              then ret True (s\<lparr>gq_seen_control_ids := insert c (gq_seen_control_ids s),
                     gq_controls_submitted := gq_controls_submitted s + 1, gq_controls_failed := gq_controls_failed s + 1,
                     gq_ready_control_completions := gq_ready_control_completions s
                       @ [\<lparr>cc_command_id = c, cc_status = ''faulted'', cc_reason = error_text e, cc_cycle = cycle\<rparr>]\<rparr>)
              else raise e s
          | (Inr False, s) \<Rightarrow> ret False (s\<lparr>gq_control_backpressure := gq_control_backpressure s + 1\<rparr>)
          | (Inr True, s) \<Rightarrow>
              ret True (s\<lparr>gq_seen_control_ids := insert c (gq_seen_control_ids s),
                gq_control_inflight := insert c (gq_control_inflight s),
                gq_controls_submitted := gq_controls_submitted s + 1\<rparr>))"

text \<open>
  The status of a command with its reason; \<open>None\<close> while it runs. \<open>key_or_value\<close> are the exceptions
  turned into a fault; the text of a \<open>KeyError\<close> is not modelled.
\<close>

definition key_or_value :: "py_error \<Rightarrow> bool" where
  "key_or_value e \<longleftrightarrow> e = KeyError \<or> is_value_or_runtime e"

definition control_outcome ::
  "('x, 'q, 'v, 'e) root_ports \<Rightarrow> string \<Rightarrow> 'e \<Rightarrow> py_error + (string \<times> string) option" where
  "control_outcome ports c env =
     (let faulted = (\<lambda>e. if key_or_value e then Inr (Some (''faulted'', error_text e)) else Inl e) in
      case rp_control_status ports c env of
        Inl e \<Rightarrow> faulted e
      | Inr status \<Rightarrow>
          if status \<in> {''pending'', ''running''} then Inr None
          else if status \<notin> {''completed'', ''faulted'', ''cancelled''}
          then Inr (Some (''faulted'', ''ProfileController returned invalid status for '' @ quoted c))
          else (case rp_command_reason ports c env of Inl e \<Rightarrow> faulted e | Inr reason \<Rightarrow> Inr (Some (status, reason))))"

definition note_control :: "string \<Rightarrow> string \<Rightarrow> string \<Rightarrow> ('x, 'q, 'v, 'e) group_port \<Rightarrow> ('x, 'q, 'v, 'e) group_port" where
  "note_control c status reason s =
     (let s = s\<lparr>gq_control_inflight := gq_control_inflight s - {c}\<rparr> in
      if status = ''completed'' then s\<lparr>gq_controls_completed := gq_controls_completed s + 1\<rparr>
      else s\<lparr>gq_controls_failed := gq_controls_failed s + 1,
             gq_fault_reason := first_reason (gq_fault_reason s)
               (if reason \<noteq> '''' then reason else ''control command '' @ c @ '' '' @ status)\<rparr>)"

fun poll_controls_in ::
  "('x, 'q, 'v, 'e) root_ports \<Rightarrow> int \<Rightarrow> string list \<Rightarrow> control_completion list \<Rightarrow> ('x, 'q, 'v, 'e) group_port
   \<Rightarrow> ('x, 'q, 'v, 'e, control_completion list) gq_result" where
  "poll_controls_in ports cycle [] out s = ret out s"
| "poll_controls_in ports cycle (c # cs) out s =
     (case control_outcome ports c (gq_env s) of
        Inl e \<Rightarrow> raise e s
      | Inr None \<Rightarrow> poll_controls_in ports cycle cs out s
      | Inr (Some (status, reason)) \<Rightarrow>
          poll_controls_in ports cycle cs
            (out @ [\<lparr>cc_command_id = c, cc_status = status, cc_reason = reason, cc_cycle = cycle\<rparr>])
            (note_control c status reason s))"

text \<open>The commands in flight are a set; \<open>order\<close> is the order in which it is iterated.\<close>

definition poll_control_completions ::
  "('x, 'q, 'v, 'e) root_ports \<Rightarrow> int \<Rightarrow> string list \<Rightarrow> ('x, 'q, 'v, 'e) group_port
   \<Rightarrow> ('x, 'q, 'v, 'e, control_completion list) gq_result" where
  "poll_control_completions ports cycle order s =
     (case control_owner ports s of
        Inl e \<Rightarrow> raise e s
      | Inr _ \<Rightarrow> poll_controls_in ports cycle order (gq_ready_control_completions s) (s\<lparr>gq_ready_control_completions := []\<rparr>))"

definition port_note_dependencies ::
  "('x, 'q, 'v, 'e) root_ports \<Rightarrow> string list \<Rightarrow> int \<Rightarrow> ('x, 'q, 'v, 'e) group_port \<Rightarrow> ('x, 'q, 'v, 'e, unit) gq_result" where
  "port_note_dependencies ports events cycle s =
     (case control_owner ports s of
        Inl e \<Rightarrow> raise e s
      | Inr owner \<Rightarrow> on_group (rp_note_dependencies ports owner events cycle) s)"

definition port_note_await ::
  "('x, 'q, 'v, 'e) root_ports \<Rightarrow> string \<Rightarrow> string list \<Rightarrow> int \<Rightarrow> ('x, 'q, 'v, 'e) group_port \<Rightarrow> ('x, 'q, 'v, 'e, unit) gq_result" where
  "port_note_await ports instruction events cycle s =
     (if instruction = '''' \<or> events = [] \<or> \<not> distinct events
      then raise (ValueError ''ordinary await proof requires an instruction ID and unique events'') s
      else case control_owner ports s of
          Inl e \<Rightarrow> raise e s
        | Inr owner \<Rightarrow> on_group (rp_note_await ports owner instruction events cycle) s)"


section \<open>The calls of a run\<close>

datatype 'x port_op =
    SubmitLaunch "'x launch_request" int
  | PollLaunches int
  | SubmitControl "'x control_request" int
  | PollControls int "string list"
  | NoteDependencies "string list" int
  | NoteAwait string "string list" int
  | GroupStep nat

text \<open>
  Between the calls of the adapter the group runs on its own: \<open>step n\<close> is any change of its state.
  A run carries the completions delivered so far.
\<close>

definition run_poll ::
  "('x, 'q, 'v, 'e) root_ports \<Rightarrow> int \<Rightarrow> ('x, 'q, 'v, 'e) group_port \<times> device_completion list
   \<Rightarrow> ('x, 'q, 'v, 'e) group_port \<times> device_completion list" where
  "run_poll ports cycle sd =
     (case poll_completions ports cycle (fst sd) of
        (Inl e, s) \<Rightarrow> (s, snd sd) | (Inr out, s) \<Rightarrow> (s, snd sd @ out))"

fun port_exec ::
  "('x, 'q, 'v, 'e) root_ports \<Rightarrow> (nat \<Rightarrow> 'e \<Rightarrow> 'e) \<Rightarrow> 'x port_op \<Rightarrow> ('x, 'q, 'v, 'e) group_port \<times> device_completion list
   \<Rightarrow> ('x, 'q, 'v, 'e) group_port \<times> device_completion list" where
  "port_exec ports step (SubmitLaunch req cycle) sd = apfst (\<lambda>s. snd (try_submit ports req cycle s)) sd"
| "port_exec ports step (PollLaunches cycle) sd = run_poll ports cycle sd"
| "port_exec ports step (SubmitControl req cycle) sd = apfst (\<lambda>s. snd (try_submit_control ports req cycle s)) sd"
| "port_exec ports step (PollControls cycle order) sd = apfst (\<lambda>s. snd (poll_control_completions ports cycle order s)) sd"
| "port_exec ports step (NoteDependencies events cycle) sd = apfst (\<lambda>s. snd (port_note_dependencies ports events cycle s)) sd"
| "port_exec ports step (NoteAwait i events cycle) sd = apfst (\<lambda>s. snd (port_note_await ports i events cycle s)) sd"
| "port_exec ports step (GroupStep n) sd = apfst (\<lambda>s. s\<lparr>gq_env := step n (gq_env s)\<rparr>) sd"

text \<open>A poll that raises ends the run of the device; every other call may raise.\<close>

fun port_enabled ::
  "('x, 'q, 'v, 'e) root_ports \<Rightarrow> 'x port_op \<Rightarrow> ('x, 'q, 'v, 'e) group_port \<times> device_completion list \<Rightarrow> bool" where
  "port_enabled ports (PollLaunches cycle) sd = is_ok (poll_completions ports cycle (fst sd))"
| "port_enabled ports _ sd = True"

end
