(* ===== verification/Group_Port_Safety.thy ===== *)
theory Group_Port_Safety
  imports Group_Port "HOL-Library.Multiset"
begin

text \<open>
  The invariant of the group port: a ledger in which every accepted request is pending, active
  in a slot, or answered, exactly once; and queues in submission order.
\<close>

section \<open>The ledger\<close>

definition answered :: "device_completion list \<Rightarrow> ('x, 'q, 'v, 'e) group_port \<Rightarrow> int list" where
  "answered d s = map dc_request_id (d @ gq_ready_completions s @ gq_out s)"

definition ledger :: "device_completion list \<Rightarrow> ('x, 'q, 'v, 'e) group_port \<Rightarrow> int multiset" where
  "ledger d s = mset (gq_pending s) + mset (active_ids s) + mset (answered d s)"

definition books_ok :: "device_completion list \<Rightarrow> ('x, 'q, 'v, 'e) group_port \<Rightarrow> bool" where
  "books_ok d s \<longleftrightarrow> finite (gq_seen_request_ids s) \<and> ledger d s = mset_set (gq_seen_request_ids s)
     \<and> gq_mirror s = gq_pending s \<and> 1 \<le> gq_active_context_capacity s
     \<and> length (gq_slots s) = nat (gq_active_context_capacity s)
     \<and> int (length (gq_pending s)) \<le> gq_context_pending_capacity s
     \<and> gq_submitted s = int (card (gq_seen_request_ids s))
     \<and> gq_completed s + gq_failed s = int (length (answered d s))"

definition records_ok :: "('x, 'q, 'v, 'e) group_port \<Rightarrow> bool" where
  "records_ok s \<longleftrightarrow>
     (\<forall>i \<in> set (gq_pending s). \<forall>a. lr_group_affinity (rr_request (gq_records s i)) = Some a
        \<longrightarrow> 0 \<le> a \<and> a < gq_active_context_capacity s)
   \<and> (\<forall>i \<in> gq_seen_request_ids s. rr_ready_seq (gq_records s i) < gq_next_ready_seq s)"

definition queue_ok :: "string \<Rightarrow> ('x, 'q, 'v, 'e) group_port \<Rightarrow> bool" where
  "queue_ok c s \<longleftrightarrow>
     sorted_wrt (\<lambda>i j. rr_ready_seq (gq_records s i) < rr_ready_seq (gq_records s j)) (category_queue c s)
   \<and> (\<forall>i \<in> set (category_queue c s). i \<in> gq_seen_request_ids s \<and> rr_category (gq_records s i) = c)"

definition queues_ok :: "('x, 'q, 'v, 'e) group_port \<Rightarrow> bool" where
  "queues_ok s \<longleftrightarrow> queue_ok ''same'' s \<and> queue_ok ''compatible'' s
     \<and> (\<forall>i \<in> set (gq_pending s). rr_category (gq_records s i) \<in> {''same'', ''compatible''}
          \<and> i \<in> set (category_queue (rr_category (gq_records s i)) s))"

definition port_ok :: "device_completion list \<Rightarrow> ('x, 'q, 'v, 'e) group_port \<Rightarrow> bool" where
  "port_ok d s \<longleftrightarrow> books_ok d s \<and> records_ok s \<and> queues_ok s"

lemmas port_ok_defs = port_ok_def books_ok_def records_ok_def queues_ok_def queue_ok_def ledger_def answered_def
  active_ids_def category_queue_def

lemma books_distinct:
  assumes "books_ok d s"
  shows "distinct (gq_pending s @ active_ids s @ answered d s)"
    "set (gq_pending s @ active_ids s @ answered d s) = gq_seen_request_ids s"
proof -
  have m: "mset (gq_pending s @ active_ids s @ answered d s) = mset_set (gq_seen_request_ids s)"
    and fin: "finite (gq_seen_request_ids s)"
    using assms by (simp_all add: books_ok_def ledger_def add.assoc)
  then show set: "set (gq_pending s @ active_ids s @ answered d s) = gq_seen_request_ids s"
    by (metis finite_set_mset_mset_set set_mset_mset)
  show "distinct (gq_pending s @ active_ids s @ answered d s)"
    unfolding distinct_count_atmost_1 m using fin by (simp add: set [symmetric] del: set_append)
qed

section \<open>Updates that do not touch the books\<close>

definition keeps_identity :: "(('x, 'q) root_record \<Rightarrow> ('x, 'q) root_record) \<Rightarrow> bool" where
  "keeps_identity f \<longleftrightarrow> (\<forall>r. rr_request (f r) = rr_request r \<and> rr_ready_seq (f r) = rr_ready_seq r \<and> rr_category (f r) = rr_category r)"

lemma keeps_identity_simps [simp]:
  "keeps_identity (fail_record reason cycle)" "keeps_identity (note_wait w cycle)"
  "keeps_identity (\<lambda>r. r\<lparr>rr_retry_count := rr_retry_count r + 1\<rparr>)" "keeps_identity (\<lambda>r. r\<lparr>rr_sequencer := q\<rparr>)"
  "keeps_identity (\<lambda>r. r\<lparr>rr_sequencer := q, rr_slot_index := k, rr_active_cycle := c, rr_lifecycle := l\<rparr>)"
  "keeps_identity (\<lambda>r. r\<lparr>rr_completion_cycle := c, rr_status := st, rr_reason := reason, rr_lifecycle := l\<rparr>)"
  by (simp_all add: keeps_identity_def fail_record_def note_wait_def)

lemma upd_record_fields:
  assumes "keeps_identity f"
  shows "rr_request (gq_records (upd_record i f s) j) = rr_request (gq_records s j)"
    "rr_ready_seq (gq_records (upd_record i f s) j) = rr_ready_seq (gq_records s j)"
    "rr_category (gq_records (upd_record i f s) j) = rr_category (gq_records s j)"
  using assms by (simp_all add: upd_record_def keeps_identity_def)

lemma port_ok_upd_record [simp]:
  assumes "keeps_identity f"
  shows "port_ok d (upd_record i f s) = port_ok d s"
proof -
  have "books_ok d (upd_record i f s) = books_ok d s"
    by (simp add: books_ok_def ledger_def answered_def active_ids_def upd_record_def)
  moreover have "records_ok (upd_record i f s) = records_ok s"
    unfolding records_ok_def upd_record_fields [OF assms] by (simp add: upd_record_def)
  moreover have "queues_ok (upd_record i f s) = queues_ok s"
    unfolding queues_ok_def queue_ok_def upd_record_fields [OF assms] by (simp add: upd_record_def category_queue_def)
  ultimately show ?thesis by (simp add: port_ok_def)
qed

lemma port_ok_env [simp]: "port_ok d (s\<lparr>gq_env := e\<rparr>) = port_ok d s"
  by (simp add: port_ok_defs)

lemma port_ok_counters [simp]:
  "port_ok d (s\<lparr>gq_backpressure := n\<rparr>) = port_ok d s"
  "port_ok d (s\<lparr>gq_slot_peak := n\<rparr>) = port_ok d s"
  "port_ok d (s\<lparr>gq_pending_changed := b\<rparr>) = port_ok d s"
  "port_ok d (s\<lparr>gq_pending_changed := b, gq_last_admission_token := t\<rparr>) = port_ok d s"
  by (simp_all add: port_ok_defs)

text \<open>Dropping stale heads keeps every pending request in its queue.\<close>

lemma pending_after_drop: "i \<in> set xs \<Longrightarrow> P i \<Longrightarrow> i \<in> set (dropWhile (\<lambda>j. \<not> P j) xs)"
  by (induction xs) auto

lemma sorted_wrt_dropWhile: "sorted_wrt r xs \<Longrightarrow> sorted_wrt r (dropWhile P xs)"
  by (induction xs) auto

lemma port_ok_drop_stale:
  assumes "port_ok d s"
  shows "port_ok d (drop_stale c s)"
proof -
  have b: "books_ok d (drop_stale c s)" "records_ok (drop_stale c s)"
    using assms by (simp_all add: drop_stale_def Let_def port_ok_defs)
  have q: "category_queue c' (drop_stale c s) =
      (if (c = ''same'') = (c' = ''same'') then dropWhile (\<lambda>i. i \<notin> set (gq_pending s)) (category_queue c' s) else category_queue c' s)" for c'
    by (simp add: drop_stale_def category_queue_def Let_def)
  have r: "gq_records (drop_stale c s) = gq_records s" "gq_seen_request_ids (drop_stale c s) = gq_seen_request_ids s"
    by (simp_all add: drop_stale_def Let_def)
  have "queue_ok c' (drop_stale c s)" if "queue_ok c' s" for c'
    using that unfolding queue_ok_def q r by (auto intro: sorted_wrt_dropWhile dest: set_dropWhileD)
  moreover have "i \<in> set (category_queue c' (drop_stale c s))" if "i \<in> set (gq_pending s)" "i \<in> set (category_queue c' s)" for i c'
    unfolding q using that pending_after_drop [of i "category_queue c' s" "\<lambda>j. j \<in> set (gq_pending s)"] by simp
  ultimately have "queues_ok (drop_stale c s)"
    using assms unfolding port_ok_def queues_ok_def r pending_updates by blast
  with b show ?thesis by (simp add: port_ok_def)
qed

section \<open>Moving a request\<close>

lemma mset_remove_distinct: "distinct xs \<Longrightarrow> i \<in> set xs \<Longrightarrow> mset xs = add_mset i (mset (filter (\<lambda>j. j \<noteq> i) xs))"
proof (induction xs)
  case (Cons a xs)
  then have "a \<notin> set xs \<Longrightarrow> filter (\<lambda>j. j \<noteq> a) xs = xs" by (auto simp: filter_id_conv)
  with Cons show ?case by (auto simp del: mset_filter)
qed simp

lemma active_ids_set:
  assumes "k < length xs" "xs ! k = None"
  shows "mset (map the (filter (\<lambda>x. x \<noteq> None) (xs[k := Some i]))) = add_mset i (mset (map the (filter (\<lambda>x. x \<noteq> None) xs)))"
proof -
  have "mset (xs[k := Some i]) = add_mset (Some i) (mset xs - {#None#})" using assms by (simp add: mset_update)
  then have "filter_mset (\<lambda>x. x \<noteq> None) (mset (xs[k := Some i])) = add_mset (Some i) (filter_mset (\<lambda>x. x \<noteq> None) (mset xs))"
    using assms by (simp add: nth_mem_mset)
  then show ?thesis by (simp only: mset_map mset_filter image_mset_add_mset option.sel)
qed

lemma active_ids_clear:
  assumes "k < length xs" "xs ! k = Some i"
  shows "mset (map the (filter (\<lambda>x. x \<noteq> None) xs)) = add_mset i (mset (map the (filter (\<lambda>x. x \<noteq> None) (xs[k := None]))))"
  using active_ids_set [of k "xs[k := None]" i] assms list_update_id [of xs k] by simp

lemma pending_distinct: "port_ok d s \<Longrightarrow> distinct (gq_pending s)"
  using books_distinct(1) by (auto simp: port_ok_def)

lemma pending_seen: "port_ok d s \<Longrightarrow> i \<in> set (gq_pending s) \<Longrightarrow> i \<in> gq_seen_request_ids s"
  using books_distinct(2) by (fastforce simp: port_ok_def)

lemma answer_ok:
  assumes ok: "port_ok d s" and i: "i \<in> set (gq_pending s)" and c: "dc_request_id c = i"
  shows "port_ok d (s\<lparr>gq_pending := filter (\<lambda>j. j \<noteq> i) (gq_pending s), gq_mirror := filter (\<lambda>j. j \<noteq> i) (gq_pending s),
     gq_failed := gq_failed s + 1, gq_fault_reason := reason, gq_out := gq_out s @ [c]\<rparr>)"
    (is "port_ok d ?t")
proof -
  have m: "mset (gq_pending s) = add_mset i (mset (filter (\<lambda>j. j \<noteq> i) (gq_pending s)))"
    by (rule mset_remove_distinct [OF pending_distinct [OF ok] i])
  have "ledger d ?t = ledger d s"
    unfolding ledger_def by (simp add: m answered_def active_ids_def c del: mset_filter)
  moreover have "length (filter (\<lambda>j. j \<noteq> i) (gq_pending s)) \<le> length (gq_pending s)" by simp
  then have "int (length (filter (\<lambda>j. j \<noteq> i) (gq_pending s))) \<le> gq_context_pending_capacity s"
    using ok by (simp only: port_ok_def books_ok_def) linarith
  ultimately have "books_ok d ?t" using ok by (simp add: port_ok_def books_ok_def answered_def)
  moreover have "records_ok ?t" "queues_ok ?t"
    using ok by (auto simp: port_ok_def records_ok_def queues_ok_def queue_ok_def category_queue_def)
  ultimately show ?thesis by (simp add: port_ok_def)
qed

lemma fail_pending_ok:
  assumes "port_ok d s" "i \<in> set (gq_pending s)"
  shows "\<exists>t. fail_pending i reason cycle s = (Inr (), t) \<and> port_ok d t \<and> gq_pending t = filter (\<lambda>j. j \<noteq> i) (gq_pending s)
    \<and> gq_env t = gq_env s"
proof -
  have mirror: "gq_mirror s = gq_pending s" using assms(1) by (simp add: port_ok_def books_ok_def)
  let ?u = "s\<lparr>gq_pending := filter (\<lambda>j. j \<noteq> i) (gq_pending s), gq_mirror := filter (\<lambda>j. j \<noteq> i) (gq_pending s),
     gq_failed := gq_failed s + 1, gq_fault_reason := first_reason (gq_fault_reason s) reason,
     gq_out := gq_out s @ [error_completion i reason cycle]\<rparr>"
  have "fail_pending i reason cycle s = (Inr (), upd_record i (fail_record reason cycle) ?u)"
    using assms(2) by (simp add: fail_pending_def remove_pending_def mirror Let_def note_failure_def upd_record_def)
  moreover have "port_ok d ?u" by (rule answer_ok [OF assms]) (simp add: error_completion_def)
  then have "port_ok d (upd_record i (fail_record reason cycle) ?u)" by simp
  moreover have "gq_pending (upd_record i (fail_record reason cycle) ?u) = filter (\<lambda>j. j \<noteq> i) (gq_pending s)"
    "gq_env (upd_record i (fail_record reason cycle) ?u) = gq_env s" by (simp_all add: upd_record_def)
  ultimately show ?thesis by blast
qed

lemma activate_ok:
  assumes ok: "port_ok d s" and i: "i \<in> set (gq_pending s)" and k: "nat slot < length (gq_slots s)" "gq_slots s ! nat slot = None"
  shows "\<exists>t. activate i slot q cycle s = (Inr ADMITTED, t) \<and> port_ok d t \<and> gq_pending t = filter (\<lambda>j. j \<noteq> i) (gq_pending s)"
proof -
  have mirror: "gq_mirror s = gq_pending s" using ok by (simp add: port_ok_def books_ok_def)
  let ?u = "s\<lparr>gq_pending := filter (\<lambda>j. j \<noteq> i) (gq_pending s), gq_mirror := filter (\<lambda>j. j \<noteq> i) (gq_pending s),
     gq_slots := (gq_slots s)[nat slot := Some i]\<rparr>"
  let ?f = "\<lambda>r. r\<lparr>rr_sequencer := Some q, rr_slot_index := Some slot, rr_active_cycle := Some cycle, rr_lifecycle := LC_ACTIVE\<rparr>"
  have m: "mset (gq_pending s) = add_mset i (mset (filter (\<lambda>j. j \<noteq> i) (gq_pending s)))"
    by (rule mset_remove_distinct [OF pending_distinct [OF ok] i])
  have a: "mset (active_ids ?u) = add_mset i (mset (active_ids s))"
    using active_ids_set [OF k, of i] by (simp add: active_ids_def)
  have "ledger d ?u = ledger d s"
    unfolding ledger_def a by (simp add: m answered_def del: mset_filter)
  moreover have "length (filter (\<lambda>j. j \<noteq> i) (gq_pending s)) \<le> length (gq_pending s)" by simp
  then have "int (length (filter (\<lambda>j. j \<noteq> i) (gq_pending s))) \<le> gq_context_pending_capacity s"
    using ok by (simp only: port_ok_def books_ok_def) linarith
  ultimately have "books_ok d ?u" using ok by (simp add: port_ok_def books_ok_def answered_def)
  moreover have "records_ok ?u" "queues_ok ?u"
    using ok by (auto simp: port_ok_def records_ok_def queues_ok_def queue_ok_def category_queue_def)
  ultimately have "port_ok d ?u" by (simp add: port_ok_def)
  then have "port_ok d ((upd_record i ?f ?u)\<lparr>gq_slot_peak := max (gq_slot_peak s) (active_count ?u)\<rparr>)" by simp
  moreover have "activate i slot q cycle s = (Inr ADMITTED, (upd_record i ?f ?u)\<lparr>gq_slot_peak := max (gq_slot_peak s) (active_count ?u)\<rparr>)"
    using i mirror by (cases s) (simp add: activate_def remove_pending_def Let_def upd_record_def active_count_def active_ids_def)
  moreover have "gq_pending ((upd_record i ?f ?u)\<lparr>gq_slot_peak := max (gq_slot_peak s) (active_count ?u)\<rparr>) = filter (\<lambda>j. j \<noteq> i) (gq_pending s)"
    by (simp add: upd_record_def)
  ultimately show ?thesis by blast
qed

section \<open>Submission keeps the books\<close>

lemma queue_ok_fresh:
  assumes "queue_ok c s" "gq_records t = (gq_records s)(i := r)" "gq_seen_request_ids t = insert i (gq_seen_request_ids s)"
    "i \<notin> gq_seen_request_ids s" "category_queue c t = category_queue c s"
  shows "queue_ok c t"
proof -
  have same: "gq_records t j = gq_records s j" if "j \<in> set (category_queue c s)" for j
    using assms(1,2,4) that by (auto simp: queue_ok_def)
  have "sorted_wrt (\<lambda>j k. rr_ready_seq (gq_records t j) < rr_ready_seq (gq_records t k)) (category_queue c s)"
    using assms(1) unfolding queue_ok_def by (elim conjE, elim sorted_wrt_mono_rel [rotated]) (simp add: same)
  with assms same show ?thesis by (simp add: queue_ok_def)
qed

lemma queue_ok_append:
  assumes "queue_ok c s" "records_ok s" "gq_records t = (gq_records s)(i := r)" "rr_ready_seq r = gq_next_ready_seq s" "rr_category r = c"
    "gq_seen_request_ids t = insert i (gq_seen_request_ids s)" "i \<notin> gq_seen_request_ids s"
    "category_queue c t = category_queue c s @ [i]"
  shows "queue_ok c t"
proof -
  have seen: "j \<in> gq_seen_request_ids s" if "j \<in> set (category_queue c s)" for j
    using assms(1) that by (auto simp: queue_ok_def)
  have same: "gq_records t j = gq_records s j" if "j \<in> set (category_queue c s)" for j
    using seen [OF that] assms(3,7) by auto
  have "sorted_wrt (\<lambda>j k. rr_ready_seq (gq_records t j) < rr_ready_seq (gq_records t k)) (category_queue c s)"
    using assms(1) unfolding queue_ok_def by (elim conjE, elim sorted_wrt_mono_rel [rotated]) (simp add: same)
  moreover have "rr_ready_seq (gq_records t j) < rr_ready_seq (gq_records t i)" if "j \<in> set (category_queue c s)" for j
    using same [OF that] seen [OF that] assms(2-4) by (simp add: records_ok_def)
  moreover have "rr_category (gq_records t j) = c" if "j \<in> set (category_queue c s)" for j
    using same [OF that] assms(1) that by (simp add: queue_ok_def)
  ultimately show ?thesis
    using assms(3,5,6,8) seen by (auto simp: queue_ok_def sorted_wrt_append)
qed

lemma reject_submit_ok:
  assumes ok: "port_ok d s" and new: "lr_request_id req \<notin> gq_seen_request_ids s"
  shows "port_ok d (reject_submit req cycle reason s)" (is "port_ok d ?t")
proof -
  let ?i = "lr_request_id req"
  have fields: "gq_pending ?t = gq_pending s" "gq_mirror ?t = gq_mirror s" "gq_slots ?t = gq_slots s"
    "gq_seen_request_ids ?t = insert ?i (gq_seen_request_ids s)" "gq_out ?t = gq_out s"
    "gq_ready_completions ?t = gq_ready_completions s @ [error_completion ?i reason cycle]"
    "gq_active_context_capacity ?t = gq_active_context_capacity s" "gq_context_pending_capacity ?t = gq_context_pending_capacity s"
    "gq_submitted ?t = gq_submitted s + 1" "gq_completed ?t = gq_completed s" "gq_failed ?t = gq_failed s + 1"
    "gq_next_ready_seq ?t = gq_next_ready_seq s + 1" "category_queue c ?t = category_queue c s" for c
    by (simp_all add: reject_submit_def new_record_def note_failure_def upd_record_def Let_def category_queue_def)
  obtain r where r: "gq_records ?t = (gq_records s)(?i := r)" "rr_ready_seq r = gq_next_ready_seq s"
    by (simp add: reject_submit_def new_record_def note_failure_def upd_record_def Let_def fail_record_def)
  have "ledger d ?t = add_mset ?i (ledger d s)"
    by (simp add: ledger_def answered_def active_ids_def fields error_completion_def)
  then have "books_ok d ?t"
    using ok new by (simp add: port_ok_def books_ok_def fields answered_def)
  moreover have "records_ok ?t"
    using ok new pending_seen [OF ok] by (auto simp: port_ok_def records_ok_def fields r)
  moreover have "queues_ok ?t"
    using ok new pending_seen [OF ok] queue_ok_fresh [OF _ r(1) fields(4) new fields(13)]
    by (auto simp: port_ok_def queues_ok_def fields r)
  ultimately show ?thesis by (simp add: port_ok_def)
qed

lemma profile_category_values: "profile_category ports req s = Inr c \<Longrightarrow> c = ''same'' \<or> c = ''compatible''"
  by (auto simp: profile_category_def Let_def split: if_splits option.splits)

lemma accept_ok:
  fixes cycle :: int
  assumes ok: "port_ok d s" and new: "lr_request_id req \<notin> gq_seen_request_ids s"
    and c: "c = ''same'' \<or> c = ''compatible''" and room: "pending_count s < gq_context_pending_capacity s"
    and aff: "\<And>a. lr_group_affinity req = Some a \<Longrightarrow> 0 \<le> a \<and> a < gq_active_context_capacity s"
  defines "u \<equiv> new_record req cycle c s"
  defines "t \<equiv> enqueue c (lr_request_id req) (u\<lparr>gq_pending := gq_pending u @ [lr_request_id req], gq_mirror := gq_mirror u @ [lr_request_id req]\<rparr>)"
  shows "port_ok d (t\<lparr>gq_pending_changed := b, gq_pending_peak := n\<rparr>)"
proof -
  let ?i = "lr_request_id req" and ?t = "t\<lparr>gq_pending_changed := b, gq_pending_peak := n\<rparr>"
  have fields: "gq_pending ?t = gq_pending s @ [?i]" "gq_mirror ?t = gq_mirror s @ [?i]" "gq_slots ?t = gq_slots s"
    "gq_seen_request_ids ?t = insert ?i (gq_seen_request_ids s)" "gq_out ?t = gq_out s"
    "gq_ready_completions ?t = gq_ready_completions s"
    "gq_active_context_capacity ?t = gq_active_context_capacity s" "gq_context_pending_capacity ?t = gq_context_pending_capacity s"
    "gq_submitted ?t = gq_submitted s + 1" "gq_completed ?t = gq_completed s" "gq_failed ?t = gq_failed s"
    "gq_next_ready_seq ?t = gq_next_ready_seq s + 1"
    by (simp_all add: t_def u_def enqueue_def new_record_def Let_def)
  have queue: "category_queue c' ?t = (if (c = ''same'') = (c' = ''same'') then category_queue c' s @ [?i] else category_queue c' s)" for c'
    by (simp add: t_def u_def enqueue_def new_record_def Let_def category_queue_def)
  define r where "r = gq_records ?t ?i"
  have r: "gq_records ?t = (gq_records s)(?i := r)" "rr_ready_seq r = gq_next_ready_seq s" "rr_category r = c" "rr_request r = req"
    by (simp_all add: r_def t_def u_def enqueue_def new_record_def Let_def)
  have "ledger d ?t = add_mset ?i (ledger d s)"
    by (simp add: ledger_def answered_def active_ids_def fields)
  then have "books_ok d ?t"
    using ok new room by (simp add: port_ok_def books_ok_def fields answered_def pending_count_def)
  moreover have "records_ok ?t"
    using ok new pending_seen [OF ok] aff unfolding port_ok_def records_ok_def fields r(1)
    by (auto simp: r(2,4))
  moreover have "queue_ok c' ?t" if c': "c' = ''same'' \<or> c' = ''compatible''" for c'
  proof -
    have q: "queue_ok c' s" "records_ok s" using c' ok by (auto simp: port_ok_def queues_ok_def)
    show ?thesis
    proof (cases "c = c'")
      case True
      then have "rr_category r = c'" "category_queue c' ?t = category_queue c' s @ [?i]" by (simp_all only: r(3) queue simp_thms if_True)
      then show ?thesis by (intro queue_ok_append [OF q r(1,2) _ fields(4) new])
    next
      case False
      with c c' have "category_queue c' ?t = category_queue c' s" unfolding queue by auto
      then show ?thesis by (intro queue_ok_fresh [OF q(1) r(1) fields(4) new])
    qed
  qed
  moreover have "rr_category (gq_records ?t j) \<in> {''same'', ''compatible''} \<and> j \<in> set (category_queue (rr_category (gq_records ?t j)) ?t)"
    if "j \<in> set (gq_pending ?t)" for j
  proof (cases "j = ?i")
    case True
    then have "rr_category (gq_records ?t j) = c" unfolding r(1) by (simp add: r(3))
    with c True show ?thesis unfolding queue by auto
  next
    case False
    with that have p: "j \<in> set (gq_pending s)" unfolding fields by simp
    from False have "gq_records ?t j = gq_records s j" unfolding r(1) by simp
    with p ok show ?thesis unfolding queue port_ok_def queues_ok_def by auto
  qed
  ultimately show ?thesis by (simp add: port_ok_def queues_ok_def)
qed

lemma try_submit_ok:
  assumes "port_ok d s"
  shows "port_ok d (snd (try_submit ports req cycle s))"
proof (cases "lr_request_id req \<in> gq_seen_request_ids s")
  case True
  with assms show ?thesis by (simp add: try_submit_def Let_def)
next
  case False
  note reject = reject_submit_ok [OF assms False]
  show ?thesis
  proof (cases "case lr_group_affinity req of None \<Rightarrow> False | Some a \<Rightarrow> a < 0 \<or> gq_active_context_capacity s \<le> a")
    case True
    with False reject show ?thesis by (simp add: try_submit_def Let_def)
  next
    case aff: False
    then have a: "lr_group_affinity req = Some a \<Longrightarrow> 0 \<le> a \<and> a < gq_active_context_capacity s" for a by simp
    have "port_ok d (let s = new_record req cycle c s;
              s = enqueue c (lr_request_id req) (s\<lparr>gq_pending := gq_pending s @ [lr_request_id req], gq_mirror := gq_mirror s @ [lr_request_id req]\<rparr>)
          in s\<lparr>gq_pending_changed := True, gq_pending_peak := max (gq_pending_peak s) (pending_count s)\<rparr>)"
      if "profile_category ports req s = Inr c" "\<not> gq_context_pending_capacity s \<le> pending_count s" for c
      unfolding Let_def using that(2) by (intro accept_ok [OF assms False profile_category_values [OF that(1)] _ a]) simp_all
    with False aff reject assms show ?thesis
      unfolding try_submit_def
      by (simp add: Let_def split: option.splits sum.splits)
  qed
qed

section \<open>Admission keeps the books\<close>

text \<open>An attempt on \<open>i\<close> keeps the invariant, and admits nothing but \<open>i\<close>.\<close>

definition fine :: "device_completion list \<Rightarrow> int \<Rightarrow> int list \<Rightarrow> ('x, 'q, 'v, 'e, attempt) gq_result \<Rightarrow> bool" where
  "fine d i pending r \<longleftrightarrow> port_ok d (snd r) \<and> (fst r = Inr ADMITTED \<longrightarrow> gq_pending (snd r) = filter (\<lambda>j. j \<noteq> i) pending)"

lemma fine_fail: "port_ok d s \<Longrightarrow> i \<in> set (gq_pending s) \<Longrightarrow> fine d i pending (fail_attempt i reason cycle s)"
  using fail_pending_ok [of d s i reason cycle] by (auto simp: fine_def fail_attempt_def)

lemma fine_same: "port_ok d s \<Longrightarrow> x \<noteq> Inr ADMITTED \<Longrightarrow> fine d i pending (x, s)"
  by (simp add: fine_def)

lemma fine_wait: "port_ok d s \<Longrightarrow> fine d i pending (wait_attempt i reason cycle s)"
  by (simp add: fine_def wait_attempt_def)

lemma fine_refused:
  "port_ok d s \<Longrightarrow> i \<in> set (gq_pending s) \<Longrightarrow> fine d i pending (refused ports c i cycle s)"
  unfolding refused_def by (auto split: option.splits sum.splits intro: fine_fail fine_wait fine_same)

lemma vacant_slot_free:
  assumes ok: "port_ok d s" and i: "i \<in> set (gq_pending s)" and v: "vacant_slot i s = Some slot"
  shows "nat slot < length (gq_slots s)" "gq_slots s ! nat slot = None"
proof -
  have len: "length (gq_slots s) = nat (gq_active_context_capacity s)" using ok by (simp add: port_ok_def books_ok_def)
  have "nat slot < length (gq_slots s) \<and> gq_slots s ! nat slot = None"
  proof (cases "lr_group_affinity (rr_request (gq_records s i))")
    case None
    with v show ?thesis by (auto simp: vacant_slot_def find_Some_iff)
  next
    case (Some a)
    with ok i have "0 \<le> a \<and> a < gq_active_context_capacity s" by (simp add: port_ok_def records_ok_def)
    with Some v len show ?thesis by (auto simp: vacant_slot_def split: if_splits)
  qed
  then show "nat slot < length (gq_slots s)" "gq_slots s ! nat slot = None" by simp_all
qed

lemma fine_activate:
  assumes "port_ok d s" "i \<in> set (gq_pending s)" "nat slot < length (gq_slots s)" "gq_slots s ! nat slot = None"
  shows "fine d i (gq_pending s) (activate i slot q cycle s)"
  using activate_ok [OF assms, of q cycle] by (auto simp: fine_def)

lemma fine_admit_into:
  assumes ok: "port_ok d s" and i: "i \<in> set (gq_pending s)" and k: "nat slot < length (gq_slots s)" "gq_slots s ! nat slot = None"
  shows "fine d i (gq_pending s) (admit_into ports c i slot cycle s)"
proof -
  let ?e = "\<lambda>e. s\<lparr>gq_env := e\<rparr>"
  have e: "port_ok d (?e e)" "i \<in> set (gq_pending (?e e))" for e using ok i by simp_all
  have "fine d i (gq_pending s) (activate i slot q cycle (?e e))" for q e
    using fine_activate [of d "?e e" i slot q cycle] e k by simp
  moreover have "fine d i (gq_pending s) (fail_attempt i reason cycle (?e e))" for reason e by (rule fine_fail [OF e])
  moreover have "fine d i (gq_pending s) (fail_attempt i reason cycle (upd_record i (\<lambda>r. r\<lparr>rr_sequencer := q\<rparr>) (?e e)))" for reason e q
    using e by (intro fine_fail) simp_all
  moreover have "fine d i (gq_pending s) (refused ports c i cycle (?e e))" for e by (rule fine_refused [OF e])
  ultimately show ?thesis
    unfolding admit_into_def Let_def by (auto split: prod.splits sum.splits option.splits intro!: fine_same e(1))
qed

lemma fine_attempt_head:
  assumes ok: "port_ok d s" and i: "i \<in> set (gq_pending s)"
  shows "fine d i (gq_pending s) (attempt_head ports c i cycle s)"
proof -
  define u where "u = (if rr_wait_reason (gq_records s i) \<noteq> None
    then upd_record i (\<lambda>r. r\<lparr>rr_retry_count := rr_retry_count r + 1\<rparr>) s else s)"
  have u: "port_ok d u" "i \<in> set (gq_pending u)" "gq_pending u = gq_pending s" using ok i by (simp_all add: u_def)
  have "fine d i (gq_pending s) (admit_into ports c i slot cycle u)" if "vacant_slot i u = Some slot" for slot
    using fine_admit_into [OF u(1,2) vacant_slot_free [OF u(1,2) that]] by (simp add: u(3))
  moreover note fine_fail [OF u(1,2)] fine_wait [OF u(1)] fine_same [OF u(1)]
  ultimately show ?thesis
    unfolding attempt_head_def u_def [symmetric] Let_def by (auto split: sum.splits option.splits)
qed

lemma stale_head:
  assumes "category_queue c (drop_stale c s) = i # rest"
  shows "i \<in> set (gq_pending s)"
  using assms by (auto simp: drop_stale_def category_queue_def Let_def dropWhile_eq_Cons_conv split: if_splits)

lemma attempt_category_ok:
  assumes "port_ok d s"
  shows "port_ok d (snd (attempt_category ports c cycle s))"
proof (cases "category_queue c (drop_stale c s)")
  case Nil
  with port_ok_drop_stale [OF assms] show ?thesis by (simp add: attempt_category_def Let_def)
next
  case (Cons i rest)
  then show ?thesis
    using fine_attempt_head [OF port_ok_drop_stale [OF assms, of c], of i ports c cycle] stale_head [OF Cons]
    by (simp add: attempt_category_def Let_def fine_def)
qed

lemma admit_loop_ok: "port_ok d s \<Longrightarrow> port_ok d (snd (admit_loop ports cycle s))"
proof (induction "length (gq_pending s)" arbitrary: s rule: less_induct)
  case less
  let ?att = "\<lambda>c. attempt_category ports c cycle"
  have t: "port_ok d t" if "?att ''same'' s = (x, t)" for x t
    using attempt_category_ok [OF less.prems, of ports "''same''" cycle] that by simp
  have u: "port_ok d u" if "?att ''same'' s = (x, t)" "?att ''compatible'' t = (y, u)" for x t y u
    using attempt_category_ok [OF t [OF that(1)], of ports "''compatible''" cycle] that(2) by simp
  have first: "port_ok d (snd (admit_loop ports cycle t))" if a: "?att ''same'' s = (Inr ADMITTED, t)" for t
    by (rule less.hyps [OF attempt_lengths(2) [OF a refl] t [OF a]])
  have second: "port_ok d (snd (admit_loop ports cycle u))"
    if a: "?att ''same'' s = (Inr x, t)" and b: "?att ''compatible'' t = (Inr ADMITTED, u)" for x t u
    using attempt_lengths(1) [OF a] attempt_lengths(2) [OF b refl] by (intro less.hyps u [OF a b]) simp
  show ?case
    unfolding admit_loop.simps [of ports cycle s]
    using less.prems by (auto split: prod.splits sum.splits attempt.splits intro: t u first second)
qed

lemma admit_pending_ok: "port_ok d s \<Longrightarrow> port_ok d (snd (admit_pending ports cycle s))"
  using admit_loop_ok [of d s ports cycle]
  by (auto simp: admit_pending_def settle_token_def and_then_def split: prod.splits sum.splits)

lemma fail_all_ok:
  assumes "port_ok d s" "set is \<subseteq> set (gq_pending s)" "distinct is"
  shows "\<exists>t. fail_all is reason cycle s = (Inr (), t) \<and> port_ok d t \<and> gq_pending t = filter (\<lambda>j. j \<notin> set is) (gq_pending s)"
  using assms
proof (induction "is" arbitrary: s)
  case (Cons i "is")
  then obtain t where t: "fail_pending i reason cycle s = (Inr (), t)" "port_ok d t" "gq_pending t = filter (\<lambda>j. j \<noteq> i) (gq_pending s)"
    using fail_pending_ok [of d s i reason cycle] by auto
  with Cons.prems have "set is \<subseteq> set (gq_pending t)" "distinct is" by auto
  from Cons.IH [OF t(2) this] t(1,3) show ?case by (auto intro: filter_cong)
qed simp

lemma cancel_pending_ok:
  assumes "port_ok d s"
  shows "\<exists>t. cancel_pending reason cycle s = (Inr (), t) \<and> port_ok d t \<and> gq_pending t = []"
  using fail_all_ok [OF assms subset_refl pending_distinct [OF assms], of reason cycle]
  by (auto simp: cancel_pending_def filter_empty_conv)

lemma rest_cong:
  assumes "port_ok d s" "gq_records t = gq_records s" "gq_pending t = gq_pending s" "gq_seen_request_ids t = gq_seen_request_ids s"
    "gq_same t = gq_same s" "gq_compatible t = gq_compatible s" "gq_next_ready_seq t = gq_next_ready_seq s"
    "gq_active_context_capacity t = gq_active_context_capacity s"
  shows "records_ok t" "queues_ok t"
proof -
  have "category_queue c t = category_queue c s" for c using assms(5,6) by (simp add: category_queue_def)
  with assms show "records_ok t" "queues_ok t"
    unfolding port_ok_def records_ok_def queues_ok_def queue_ok_def by metis+
qed

lemma retire_slot_ok:
  assumes ok: "port_ok d s" and k: "k < length (gq_slots s)" "gq_slots s ! k = Some i"
  shows "port_ok d (retire_slot k i outcome cycle s)"
proof (cases outcome)
  case (Pair status reason)
  let ?f = "\<lambda>r. r\<lparr>rr_completion_cycle := Some cycle, rr_status := Some status, rr_reason := reason,
                  rr_lifecycle := (if status = COMPLETION_SUCCESS then LC_COMPLETE else LC_FAILED)\<rparr>"
  let ?c = "\<lparr>dc_request_id = i, dc_status = status, dc_reason = reason, dc_cycle = cycle\<rparr>"
  let ?u = "s\<lparr>gq_out := gq_out s @ [?c], gq_slots := (gq_slots s)[k := None], gq_slot_version := gq_slot_version s + 1\<rparr>"
  let ?t = "if status = COMPLETION_SUCCESS then ?u\<lparr>gq_completed := gq_completed s + 1\<rparr> else note_failure reason ?u"
  have a: "mset (active_ids s) = add_mset i (mset (active_ids ?t))"
    using active_ids_clear [OF k] by (simp add: active_ids_def note_failure_def)
  have "ledger d ?t = ledger d s"
    unfolding ledger_def a by (simp add: answered_def note_failure_def)
  then have "books_ok d ?t" using ok by (simp add: port_ok_def books_ok_def answered_def note_failure_def)
  moreover have "records_ok ?t" "queues_ok ?t"
    by (rule rest_cong [OF ok]; simp add: note_failure_def)+
  ultimately have "port_ok d ?t" unfolding port_ok_def by blast
  then have "port_ok d (upd_record i ?f ?t)" by (subst port_ok_upd_record) (rule keeps_identity_simps)
  moreover have "retire_slot k i outcome cycle s = upd_record i ?f ?t"
    by (cases s) (simp add: retire_slot_def Pair Let_def upd_record_def note_failure_def)
  ultimately show ?thesis by simp
qed

lemma retire_slots_ok:
  assumes "port_ok d s" "\<forall>(k, x) \<in> set ks. k < length (gq_slots s) \<and> gq_slots s ! k = x" "distinct (map fst ks)"
  shows "port_ok d (snd (retire_slots ports active finished cycle ks s))"
  using assms
proof (induction ports active finished cycle ks s rule: retire_slots.induct)
  case (3 ports active finished cycle k i rest s)
  show ?case
  proof (cases "rr_sequencer (gq_records s i)")
    case None
    with 3 show ?thesis by simp
  next
    case (Some q)
    let ?t = "retire_slot k i (retire_status ports q (active \<or> finished) s) cycle s"
    have slots: "gq_slots ?t = (gq_slots s)[k := None]"
      by (simp add: retire_slot_def Let_def note_failure_def upd_record_def split: prod.splits)
    have t: "port_ok d ?t" using 3 by (intro retire_slot_ok) auto
    have "\<forall>(k', x) \<in> set rest. k' < length (gq_slots ?t) \<and> gq_slots ?t ! k' = x"
      using 3(4,5) by (force simp: slots nth_list_update)
    with 3 t Some show ?thesis by (auto split: if_splits)
  qed
qed auto

lemma port_ok_start_poll:
  assumes "gq_out s = []" "port_ok d s"
  shows "port_ok d (s\<lparr>gq_out := gq_ready_completions s, gq_ready_completions := []\<rparr>)" (is "port_ok d ?t")
proof -
  have "books_ok d ?t" using assms by (simp add: port_ok_def books_ok_def ledger_def answered_def active_ids_def)
  moreover have "records_ok ?t" "queues_ok ?t" by (rule rest_cong [OF assms(2)]; simp)+
  ultimately show ?thesis by (simp add: port_ok_def)
qed

lemma port_ok_deliver:
  assumes "port_ok d s"
  shows "port_ok (d @ gq_out s) (s\<lparr>gq_out := []\<rparr>)"
proof -
  have "ledger (d @ gq_out s) (s\<lparr>gq_out := []\<rparr>) = ledger d s"
    by (simp add: ledger_def answered_def active_ids_def)
  with assms have "books_ok (d @ gq_out s) (s\<lparr>gq_out := []\<rparr>)" by (simp add: port_ok_def books_ok_def answered_def)
  moreover have "records_ok (s\<lparr>gq_out := []\<rparr>)" "queues_ok (s\<lparr>gq_out := []\<rparr>)"
    by (rule rest_cong [OF assms]; simp)+
  ultimately show ?thesis by (simp add: port_ok_def)
qed

text \<open>What a poll does after the retirements.\<close>

definition after_retire ::
  "('x, 'q, 'v, 'e) root_ports \<Rightarrow> int \<Rightarrow> ('x, 'q, 'v, 'e) group_port \<Rightarrow> ('x, 'q, 'v, 'e, unit) gq_result" where
  "after_retire ports cycle s =
     (case group_fault ports s of
        Some fault \<Rightarrow> cancel_pending fault cycle s
      | None \<Rightarrow>
          and_then (admit_pending ports cycle s) (\<lambda>_ s.
            case group_fault ports s of
              Some fault \<Rightarrow> cancel_pending fault cycle s
            | None \<Rightarrow> ret () s))"

lemma cancel_snd_ok: "port_ok d s \<Longrightarrow> port_ok d (snd (cancel_pending reason cycle s))"
  using cancel_pending_ok [of d s reason cycle] by auto

lemma after_retire_ok: "port_ok d s \<Longrightarrow> port_ok d (snd (after_retire ports cycle s))"
  using admit_pending_ok [of d s ports cycle]
  by (auto simp: after_retire_def and_then_def intro: cancel_snd_ok split: option.splits prod.splits sum.splits)

lemma poll_split:
  assumes ok: "port_ok d s" "gq_out s = []" and p: "poll_completions ports cycle s = (Inr out, t)"
  shows "\<exists>u v. port_ok d u \<and> after_retire ports cycle u = (Inr (), v) \<and> out = gq_out v \<and> t = v\<lparr>gq_out := []\<rparr>"
proof -
  let ?s = "s\<lparr>gq_out := gq_ready_completions s, gq_ready_completions := []\<rparr>"
  let ?r = "retire_slots ports (rp_reset_active ports (gq_env ?s)) (rp_reset_done ports (gq_env ?s)) cycle (enumerate 0 (gq_slots ?s)) ?s"
  have r: "port_ok d (snd ?r)"
    by (rule retire_slots_ok [OF port_ok_start_poll [OF ok(2,1)]]) (auto simp: in_set_enumerate_eq)
  have "and_then ?r (\<lambda>_ s. and_then (after_retire ports cycle s) (\<lambda>_ s. ret (gq_out s) (s\<lparr>gq_out := []\<rparr>))) = (Inr out, t)"
    using p unfolding poll_completions_def after_retire_def Let_def .
  then obtain u v where "?r = (Inr (), u)" "after_retire ports cycle u = (Inr (), v)" "out = gq_out v" "t = v\<lparr>gq_out := []\<rparr>"
    by (auto simp: and_then_def split: prod.splits sum.splits)
  with r show ?thesis by auto
qed

lemma poll_ok:
  assumes "port_ok d s" "gq_out s = []" "poll_completions ports cycle s = (Inr out, t)"
  shows "port_ok (d @ out) t \<and> gq_out t = []"
proof -
  obtain u v where uv: "port_ok d u" "after_retire ports cycle u = (Inr (), v)" "out = gq_out v" "t = v\<lparr>gq_out := []\<rparr>"
    using poll_split [OF assms] by blast
  then have "port_ok d v" using after_retire_ok [of d u ports cycle] by simp
  from port_ok_deliver [OF this] uv(3,4) show ?thesis by simp
qed

section \<open>Control commands leave the books alone\<close>

lemma port_ok_cong:
  assumes "port_ok d s" "gq_records t = gq_records s" "gq_pending t = gq_pending s" "gq_seen_request_ids t = gq_seen_request_ids s"
    "gq_same t = gq_same s" "gq_compatible t = gq_compatible s" "gq_next_ready_seq t = gq_next_ready_seq s"
    "gq_active_context_capacity t = gq_active_context_capacity s" "gq_context_pending_capacity t = gq_context_pending_capacity s"
    "gq_mirror t = gq_mirror s" "gq_slots t = gq_slots s" "gq_out t = gq_out s" "gq_ready_completions t = gq_ready_completions s"
    "gq_submitted t = gq_submitted s" "gq_completed t = gq_completed s" "gq_failed t = gq_failed s"
  shows "port_ok d t"
  using rest_cong [OF assms(1-8)] assms
  by (simp add: port_ok_def books_ok_def ledger_def answered_def active_ids_def)

text \<open>The state at a boundary between two calls of the adapter.\<close>

definition port_inv :: "('x, 'q, 'v, 'e) group_port \<times> device_completion list \<Rightarrow> bool" where
  "port_inv sd \<longleftrightarrow> port_ok (snd sd) (fst sd) \<and> gq_out (fst sd) = []"

lemma inv_cong:
  assumes "port_inv (s, d)" "gq_records t = gq_records s" "gq_pending t = gq_pending s" "gq_seen_request_ids t = gq_seen_request_ids s"
    "gq_same t = gq_same s" "gq_compatible t = gq_compatible s" "gq_next_ready_seq t = gq_next_ready_seq s"
    "gq_active_context_capacity t = gq_active_context_capacity s" "gq_context_pending_capacity t = gq_context_pending_capacity s"
    "gq_mirror t = gq_mirror s" "gq_slots t = gq_slots s" "gq_out t = gq_out s" "gq_ready_completions t = gq_ready_completions s"
    "gq_submitted t = gq_submitted s" "gq_completed t = gq_completed s" "gq_failed t = gq_failed s"
  shows "port_inv (t, d)"
  using assms port_ok_cong [OF _ assms(2-)] by (simp add: port_inv_def)

lemma on_group_inv: "port_inv (s, d) \<Longrightarrow> port_inv (snd (on_group f s), d)"
  by (auto simp: on_group_def port_inv_def split: prod.splits)

lemma submit_control_inv:
  assumes "port_inv (s, d)"
  shows "port_inv (snd (try_submit_control ports req cycle s), d)"
proof -
  obtain r t where g: "on_group (rp_submit_control ports (cr_command req) (''device@'' @ show_int (gq_run_generation s)) cycle) s = (r, t)"
    by fastforce
  then have t: "port_inv (t, d)" using on_group_inv [OF assms] by (metis snd_conv)
  show ?thesis
    unfolding try_submit_control_def control_owner_def Let_def
    using assms t g by (auto split: sum.splits bool.splits intro!: inv_cong [OF t])
qed

lemma note_control_inv: "port_inv (s, d) \<Longrightarrow> port_inv (note_control c status reason s, d)"
  by (erule inv_cong) (simp_all add: note_control_def Let_def)

lemma poll_controls_in_inv: "port_inv (s, d) \<Longrightarrow> port_inv (snd (poll_controls_in ports cycle cs out s), d)"
proof (induction ports cycle cs out s rule: poll_controls_in.induct)
  case (2 ports cycle c cs out s)
  show ?case
  proof (cases "control_outcome ports c (gq_env s)")
    case (Inl e)
    with 2 show ?thesis by simp
  next
    case (Inr w)
    with 2 note_control_inv [of s d c] show ?thesis by (cases w) auto
  qed
qed simp

lemma poll_controls_inv:
  assumes "port_inv (s, d)"
  shows "port_inv (snd (poll_control_completions ports cycle order s), d)"
proof -
  have "port_inv (s\<lparr>gq_ready_control_completions := []\<rparr>, d)" by (rule inv_cong [OF assms]) simp_all
  with assms show ?thesis
    by (simp add: poll_control_completions_def poll_controls_in_inv split: sum.splits)
qed

lemma submit_out: "gq_out (snd (try_submit ports req cycle s)) = gq_out s"
  by (simp add: try_submit_def reject_submit_def enqueue_def new_record_def note_failure_def upd_record_def Let_def
      split: option.splits sum.splits)

section \<open>The run of a port\<close>

interpretation port: guarded_machine "port_enabled ports" "port_exec ports step" port_inv
proof
  fix sd :: "('a, 'b, 'c, 'd) group_port \<times> device_completion list" and x :: "'a port_op"
  assume inv: "port_inv sd" and en: "port_enabled ports x sd"
  obtain s d where sd: "sd = (s, d)" by fastforce
  note inv' = inv [unfolded sd]
  show "port_inv (port_exec ports step x sd)"
  proof (cases x)
    case (SubmitLaunch req cycle)
    with inv' try_submit_ok [of d s ports req cycle] show ?thesis by (simp add: sd port_inv_def submit_out)
  next
    case (PollLaunches cycle)
    with en obtain out t where "poll_completions ports cycle s = (Inr out, t)"
      by (auto simp: sd is_ok_def split: sum.splits) (metis prod.collapse)
    with PollLaunches inv' poll_ok [of d s ports cycle] show ?thesis by (simp add: sd run_poll_def port_inv_def)
  next
    case (SubmitControl req cycle)
    with inv' show ?thesis by (simp add: sd submit_control_inv)
  next
    case (PollControls cycle order)
    with inv' show ?thesis by (simp add: sd poll_controls_inv)
  next
    case (NoteDependencies events cycle)
    with inv' show ?thesis by (auto simp: sd port_note_dependencies_def on_group_inv split: sum.splits)
  next
    case (NoteAwait i events cycle)
    with inv' show ?thesis by (auto simp: sd port_note_await_def on_group_inv split: sum.splits)
  next
    case (GroupStep n)
    with inv' show ?thesis by (simp add: sd port_inv_def)
  qed
qed

lemma gq_new_inv:
  assumes "gq_new active pending gen stale blank env = Inr s"
  shows "port_inv (s, [])"
  using assms
  by (auto simp: gq_new_def port_inv_def port_ok_defs split: if_splits)

lemma ledger_books:
  assumes "port_inv (s, d)"
  defines "tables \<equiv> gq_pending s @ active_ids s @ map dc_request_id (d @ gq_ready_completions s)"
  shows "distinct tables" "set tables = gq_seen_request_ids s" "gq_submitted s = int (length tables)"
    "gq_completed s + gq_failed s = int (length (d @ gq_ready_completions s))"
proof -
  have b: "books_ok d s" and out: "gq_out s = []" using assms(1) by (simp_all add: port_inv_def port_ok_def)
  from books_distinct [OF b] show d: "distinct tables" and s: "set tables = gq_seen_request_ids s"
    by (simp_all add: tables_def answered_def out)
  show "gq_submitted s = int (length tables)"
    using b distinct_card [OF d] unfolding s by (simp add: books_ok_def)
  show "gq_completed s + gq_failed s = int (length (d @ gq_ready_completions s))"
    using b by (simp add: books_ok_def answered_def out)
qed

lemma submit_seen: "fst (try_submit ports req cycle s) = Inr True \<Longrightarrow> lr_request_id req \<in> gq_seen_request_ids (snd (try_submit ports req cycle s))"
  by (simp add: try_submit_def reject_submit_def enqueue_def new_record_def note_failure_def upd_record_def Let_def
      split: option.splits sum.splits if_splits)

lemma active_ids_bound: "port_ok d s \<Longrightarrow> int (length (active_ids s)) \<le> gq_active_context_capacity s"
  using length_filter_le [of "\<lambda>x. x \<noteq> None" "gq_slots s"] unfolding port_ok_def books_ok_def active_ids_def length_map by linarith

section \<open>What the port promises\<close>

text \<open>C9. In every run of the port, every accepted launch request is in exactly one place: the pending
  table, one context slot, or the completions (delivered, or ready for the next poll). So no request is
  answered twice, lost, or admitted twice; the counters of submissions and of outcomes are exact, both
  capacities hold, a submission that returns \<open>True\<close> leaves its request in one of the tables, and a
  request identifier that is in a table is refused.\<close>

theorem request_answered_once:
  assumes "gq_new active pending gen stale blank env = Inr s0"
    and "legal_run (port_enabled ports) (port_exec ports step) xs (s0, [])"
    and "run_ops (port_exec ports step) xs (s0, []) = (s, d)"
  defines "tables \<equiv> (\<lambda>s. gq_pending s @ active_ids s @ map dc_request_id (d @ gq_ready_completions s))"
  shows "distinct (tables s) \<and> gq_submitted s = int (length (tables s))
    \<and> gq_completed s + gq_failed s = int (length d + length (gq_ready_completions s))
    \<and> pending_count s \<le> gq_context_pending_capacity s \<and> active_count s \<le> gq_active_context_capacity s
    \<and> (fst (try_submit ports req cycle s) = Inr True \<longrightarrow> lr_request_id req \<in> set (tables (snd (try_submit ports req cycle s))))
    \<and> (lr_request_id req \<in> set (tables s)
        \<longrightarrow> try_submit ports req cycle s = (Inl (ValueError (''duplicate device request_id '' @ show_int (lr_request_id req))), s))"
proof -
  have inv: "port_inv (s, d)"
    using port.run_inv [OF gq_new_inv [OF assms(1)] assms(2)] assms(3) by simp
  then have ok: "port_ok d s" by (simp add: port_inv_def)
  have sub: "port_inv (snd (try_submit ports req cycle s), d)"
    using try_submit_ok [OF ok, of ports req cycle] inv by (simp add: port_inv_def submit_out)
  have "pending_count s \<le> gq_context_pending_capacity s" "active_count s \<le> gq_active_context_capacity s"
    using ok active_ids_bound [OF ok] by (simp_all add: port_ok_def books_ok_def pending_count_def active_count_def)
  moreover have "set (tables (snd (try_submit ports req cycle s))) = gq_seen_request_ids (snd (try_submit ports req cycle s))"
    using ledger_books(2) [OF sub] by (simp add: tables_def)
  moreover have "lr_request_id req \<in> set (tables s) \<longrightarrow>
      try_submit ports req cycle s = (Inl (ValueError (''duplicate device request_id '' @ show_int (lr_request_id req))), s)"
    using ledger_books(2) [OF inv] by (simp add: tables_def try_submit_def Let_def)
  ultimately show ?thesis
    using ledger_books(1,3,4) [OF inv] submit_seen [of ports req cycle s] by (simp add: tables_def)
qed

lemma attempt_admits_head:
  assumes "port_ok d s" "attempt_category ports c cycle s = (Inr ADMITTED, t)"
  shows "\<exists>i rest. category_queue c (drop_stale c s) = i # rest \<and> i \<in> set (gq_pending s)
    \<and> gq_pending t = filter (\<lambda>j. j \<noteq> i) (gq_pending s)"
proof (cases "category_queue c (drop_stale c s)")
  case Nil
  with assms(2) show ?thesis by (simp add: attempt_category_def Let_def)
next
  case (Cons i rest)
  have i: "i \<in> set (gq_pending s)" by (rule stale_head [OF Cons])
  have "attempt_head ports c i cycle (drop_stale c s) = (Inr ADMITTED, t)"
    using assms(2) Cons by (simp add: attempt_category_def Let_def)
  with fine_attempt_head [OF port_ok_drop_stale [OF assms(1), of c], of i ports c cycle] i
  have "gq_pending t = filter (\<lambda>j. j \<noteq> i) (gq_pending s)" by (simp add: fine_def)
  with Cons i show ?thesis by blast
qed

text \<open>C10. Admission is first in, first out within a profile category: after any run of the port, an
  attempt on a category that admits a request takes the pending request of that category that was
  submitted first, and leaves every other pending request in place.\<close>

theorem oldest_request_admitted:
  assumes "gq_new active pending gen stale blank env = Inr s0"
    and "legal_run (port_enabled ports) (port_exec ports step) xs (s0, [])"
    and "run_ops (port_exec ports step) xs (s0, []) = (s, d)"
    and "c \<in> {''same'', ''compatible''}"
    and "attempt_category ports c cycle s = (Inr ADMITTED, t)"
  shows "\<exists>i \<in> set (gq_pending s). rr_category (gq_records s i) = c \<and> gq_pending t = filter (\<lambda>j. j \<noteq> i) (gq_pending s)
    \<and> (\<forall>j \<in> set (gq_pending s). rr_category (gq_records s j) = c \<longrightarrow>
         j = i \<or> rr_ready_seq (gq_records s i) < rr_ready_seq (gq_records s j))"
proof -
  have ok: "port_ok d s"
    using port.run_inv [OF gq_new_inv [OF assms(1)] assms(2)] assms(3) by (simp add: port_inv_def)
  let ?s = "drop_stale c s"
  have recs: "gq_records ?s = gq_records s" by (simp add: drop_stale_def Let_def)
  have ok': "port_ok d ?s" by (rule port_ok_drop_stale [OF ok])
  from attempt_admits_head [OF ok assms(5)] obtain i rest where i: "category_queue c ?s = i # rest"
    "i \<in> set (gq_pending s)" "gq_pending t = filter (\<lambda>j. j \<noteq> i) (gq_pending s)" by blast
  have q: "queue_ok c ?s" using ok' assms(4) by (auto simp: port_ok_def queues_ok_def)
  have cat: "rr_category (gq_records s i) = c" using q i(1) by (simp add: queue_ok_def recs)
  have first: "\<forall>j \<in> set rest. rr_ready_seq (gq_records s i) < rr_ready_seq (gq_records s j)"
    using q by (simp add: queue_ok_def i(1) recs)
  have mem: "j \<in> set (i # rest)" if j: "j \<in> set (gq_pending s)" "rr_category (gq_records s j) = c" for j
  proof -
    have "queues_ok ?s" using ok' by (simp add: port_ok_def)
    then have "\<forall>k \<in> set (gq_pending s). k \<in> set (category_queue (rr_category (gq_records s k)) ?s)"
      by (simp only: queues_ok_def recs pending_updates) blast
    with j have "j \<in> set (category_queue c ?s)" by blast
    then show ?thesis by (simp only: i(1))
  qed
  show ?thesis
    using i(2,3) cat first mem by (intro bexI [of _ i]) auto
qed

lemma cancel_drains: "port_ok d s \<Longrightarrow> cancel_pending reason cycle s = (x, t) \<Longrightarrow> gq_pending t = []"
  using cancel_pending_ok [of d s reason cycle] by auto

lemma after_retire_drains:
  assumes ok: "port_ok d s" and r: "after_retire ports cycle s = (Inr u, t)" and f: "group_fault ports t \<noteq> None"
  shows "gq_pending t = []"
proof (cases "group_fault ports s")
  case (Some fault)
  with r show ?thesis by (intro cancel_drains [OF ok]) (simp add: after_retire_def)
next
  case None
  obtain x v where a: "admit_pending ports cycle s = (x, v)" by fastforce
  have v: "port_ok d v" using admit_pending_ok [OF ok, of ports cycle] a by simp
  show ?thesis
  proof (cases "group_fault ports v")
    case Some': (Some fault)
    with r None a show ?thesis
      by (intro cancel_drains [OF v, of fault cycle "Inr u"]) (simp add: after_retire_def and_then_def split: sum.splits)
  next
    case None': None
    with r None a f show ?thesis by (simp add: after_retire_def and_then_def split: sum.splits)
  qed
qed

text \<open>C12. A faulted or reset group keeps nobody waiting: when a poll of the port returns and the group
  has a fault (of its own, of a control command, or a reset that drains or has cancelled the run), no
  launch request is pending any more, and every accepted request that holds no context slot has its
  completion.\<close>

theorem fault_drains_pending:
  assumes "gq_new active pending gen stale blank env = Inr s0"
    and "legal_run (port_enabled ports) (port_exec ports step) xs (s0, [])"
    and "run_ops (port_exec ports step) xs (s0, []) = (s, d)"
    and "poll_completions ports cycle s = (Inr out, t)"
    and "group_fault ports t \<noteq> None"
  shows "gq_pending t = [] \<and> gq_seen_request_ids t = set (active_ids t) \<union> dc_request_id ` set (d @ out @ gq_ready_completions t)"
proof -
  have inv: "port_ok d s" "gq_out s = []"
    using port.run_inv [OF gq_new_inv [OF assms(1)] assms(2)] assms(3) by (simp_all add: port_inv_def)
  let ?s = "s\<lparr>gq_out := gq_ready_completions s, gq_ready_completions := []\<rparr>"
  obtain u v where uv: "port_ok d u" "after_retire ports cycle u = (Inr (), v)" "t = v\<lparr>gq_out := []\<rparr>"
    using poll_split [OF inv assms(4)] by blast
  have "group_fault ports t = group_fault ports v" by (simp add: uv(3) group_fault_def cong: option.case_cong)
  with assms(5) have "gq_pending v = []" by (intro after_retire_drains [OF uv(1,2)]) simp
  with uv(3) have p: "gq_pending t = []" by simp
  have "port_inv (t, d @ out)" using poll_ok [OF inv assms(4)] by (simp add: port_inv_def)
  from ledger_books(2) [OF this] p show ?thesis by auto
qed

section \<open>A concrete run\<close>

text \<open>
  A group whose state is a clock: a context that was admitted at one time is done at every later
  time, and a reset cancels the run from 4 on. One context slot, three pending places.
\<close>

definition demo_binding :: call_binding where
  "demo_binding = \<lparr>cb_binding_id = ''b'', cb_context_name = ''ctx'', cb_requested_l2_mode = 0, cb_resolved_l2_mode = 0,
     cb_permitted_l2_modes = [0]\<rparr>"

definition demo_ports :: "(unit, int, nat, nat) root_ports" where
  "demo_ports = \<lparr>rp_run_generation = (\<lambda>_. 0), rp_reset_active = (\<lambda>_. False), rp_reset_done = (\<lambda>e. 4 \<le> e),
     rp_call_bindings = (\<lambda>_. Some [(''b'', demo_binding)]), rp_active_l2_mode = (\<lambda>_. Some 0),
     rp_try_admit = (\<lambda>req slot cycle e. (Inr (Some (int e)), e)), rp_last_admission_wait = (\<lambda>_. Some WAIT_SLOT),
     rp_retained_blocks = (\<lambda>_ _ _. Inr False), rp_admission_version = (\<lambda>e. e), rp_seq_active = (\<lambda>_ _. True),
     rp_seq_faulted = (\<lambda>_ _. False), rp_seq_done = (\<lambda>q e. q < int e), rp_seq_fault_reason = (\<lambda>_ _. ''''),
     rp_submit_control = (\<lambda>_ _ _ e. (Inr True, e)), rp_control_status = (\<lambda>_ _. Inr ''completed''),
     rp_command_reason = (\<lambda>_ _. Inr ''''), rp_note_dependencies = (\<lambda>_ _ _ e. (Inr (), e)),
     rp_note_await = (\<lambda>_ _ _ _ e. (Inr (), e))\<rparr>"

definition demo_launch :: "int \<Rightarrow> unit launch_request" where
  "demo_launch i = \<lparr>lr_request_id = i, lr_binding_id = ''b'', lr_task_name = ''ctx'', lr_context_name = ''ctx'',
     lr_group_affinity = None, lr_body = ()\<rparr>"

definition demo_blank :: "(unit, int) root_record" where
  "demo_blank = \<lparr>rr_request = demo_launch 0, rr_ready_seq = 0, rr_category = '''', rr_submit_cycle = 0,
     rr_lifecycle = LC_PENDING, rr_slot_index = None, rr_sequencer = None, rr_active_cycle = None,
     rr_completion_cycle = None, rr_status = None, rr_reason = '''', rr_wait_reason = None,
     rr_wait_start_cycle = None, rr_retry_count = 0\<rparr>"

definition demo_port :: "(unit, int, nat, nat) group_port" where
  "demo_port = (case gq_new 1 3 0 [] demo_blank 0 of Inr s \<Rightarrow> s)"

definition demo_step :: "nat \<Rightarrow> nat \<Rightarrow> nat" where "demo_step n e = n"

definition demo_waiting :: "unit port_op list" where
  "demo_waiting = [SubmitLaunch (demo_launch 7) 0, PollLaunches 1, SubmitLaunch (demo_launch 8) 2, SubmitLaunch (demo_launch 9) 2]"

definition demo_served :: "unit port_op list" where
  "demo_served = demo_waiting @ [GroupStep 2, PollLaunches 3, GroupStep 3, PollLaunches 4]"

lemma demo_port_new: "gq_new 1 3 0 [] demo_blank 0 = Inr demo_port"
  by (simp add: demo_port_def gq_new_def)

lemma demo_served_legal: "legal_run (port_enabled demo_ports) (port_exec demo_ports demo_step) demo_served (demo_port, [])"
  by code_simp

lemma demo_served_out:
  "map dc_request_id (snd (run_ops (port_exec demo_ports demo_step) demo_served (demo_port, []))) = [7, 8]"
  by code_simp

theorem request_answered_once_witness:
  "let (s, d) = run_ops (port_exec demo_ports demo_step) demo_served (demo_port, []) in
     gq_completed s + gq_failed s = int (length d + length (gq_ready_completions s)) \<and> map dc_request_id d = [7, 8]"
proof -
  let ?r = "run_ops (port_exec demo_ports demo_step) demo_served (demo_port, [])"
  have "?r = (fst ?r, snd ?r)" by simp
  from request_answered_once [OF demo_port_new demo_served_legal this, of "demo_launch 0" 0] demo_served_out
  show ?thesis by (simp add: case_prod_unfold)
qed

definition demo_first :: "unit port_op list" where
  "demo_first = [SubmitLaunch (demo_launch 8) 0, SubmitLaunch (demo_launch 9) 0]"

lemma demo_first_legal: "legal_run (port_enabled demo_ports) (port_exec demo_ports demo_step) demo_first (demo_port, [])"
  by code_simp

lemma demo_first_attempt:
  "fst (attempt_category demo_ports ''same'' 1 (fst (run_ops (port_exec demo_ports demo_step) demo_first (demo_port, [])))) = Inr ADMITTED"
  by code_simp

lemma demo_first_pending: "gq_pending (fst (run_ops (port_exec demo_ports demo_step) demo_first (demo_port, []))) = [8, 9]"
  by code_simp

theorem oldest_request_admitted_witness:
  "let s = fst (run_ops (port_exec demo_ports demo_step) demo_first (demo_port, []));
       t = snd (attempt_category demo_ports ''same'' 1 s) in
     \<exists>i \<in> {8, 9}. gq_pending t = filter (\<lambda>j. j \<noteq> i) [8, 9]"
proof -
  let ?r = "run_ops (port_exec demo_ports demo_step) demo_first (demo_port, [])"
  let ?a = "attempt_category demo_ports ''same'' 1 (fst ?r)"
  have r: "?r = (fst ?r, snd ?r)" by simp
  have a: "?a = (Inr ADMITTED, snd ?a)" using demo_first_attempt by (simp only: prod_eq_iff fst_conv snd_conv)
  have c: "''same'' \<in> {''same'', ''compatible''}" by simp
  from oldest_request_admitted [OF demo_port_new demo_first_legal r c a]
  show ?thesis unfolding Let_def demo_first_pending by auto
qed

definition demo_cancelled :: "unit port_op list" where
  "demo_cancelled = demo_waiting @ [GroupStep 4]"

lemma demo_cancelled_legal: "legal_run (port_enabled demo_ports) (port_exec demo_ports demo_step) demo_cancelled (demo_port, [])"
  by code_simp

lemma demo_cancelled_poll:
  "let r = poll_completions demo_ports 5 (fst (run_ops (port_exec demo_ports demo_step) demo_cancelled (demo_port, []))) in
     is_ok r \<and> group_fault demo_ports (snd r) \<noteq> None"
  by code_simp

lemma ok_result: "is_ok r \<Longrightarrow> \<exists>v. r = (Inr v, snd r)"
  by (cases r) (auto simp: is_ok_def split: sum.splits)

theorem fault_drains_pending_witness:
  "gq_pending (snd (poll_completions demo_ports 5 (fst (run_ops (port_exec demo_ports demo_step) demo_cancelled (demo_port, []))))) = []"
proof -
  let ?r = "run_ops (port_exec demo_ports demo_step) demo_cancelled (demo_port, [])"
  let ?p = "poll_completions demo_ports 5 (fst ?r)"
  have r: "?r = (fst ?r, snd ?r)" by simp
  note poll = demo_cancelled_poll [unfolded Let_def]
  note ok = conjunct1 [OF poll] and f = conjunct2 [OF poll]
  from ok_result [OF ok] obtain out where "?p = (Inr out, snd ?p)" by blast
  from fault_drains_pending [OF demo_port_new demo_cancelled_legal r this f] show ?thesis by (rule conjunct1)
qed

end
