(* ===== verification/Spec2Isabelle.thy ===== *)
theory Spec2Isabelle
  imports Pmu Stream_Queue Mshr_Table Noc_Router Fault_Ring Program_Table Allocator_Props Event_Safety Lru_Safety Page_Safety Reset_Domain Scheduler_Props Profile_Props Action_Typing
    L1_Slot_Frame Group_Port_Safety
begin

text \<open>
  \<^bold>\<open>A verification library for the ELENOR pipeline validator\<close>

  The program under \<open>src/pipeline_validator\<close> is a cycle-level simulator of an accelerator: a
  compiler lowers a workload to an execution program, and a device of tile groups, tiles and
  engines executes it against a memory system with explicit ownership. What makes the simulator
  trustworthy as a \<^emph>\<open>validator\<close> is the bookkeeping its components keep and check: credits,
  generations, reservations, pins, epochs and event states. This library models those
  components and proves the bookkeeping right.

  \<^bold>\<open>Parts of the program and the theories that model them.\<close>

  \<^item> \<open>Elenor_Prelude\<close>: Python exceptions as values (\<open>py_error\<close>); operations that may raise after
    having changed their object (an outcome is the exception or the result together with the
    object left behind); insertion-ordered dictionaries as association lists (\<open>dict_get\<close>,
    \<open>dict_put\<close>, \<open>dict_del\<close>); slices and decimal printing; the locales \<open>guarded_machine\<close>,
    \<open>total_machine\<close>, \<open>monotone_machine\<close> (an executable step, an invariant it keeps, runs as
    folds over operation lists) and \<open>outcome_logic\<close> (one proof rule per construct of the
    outcome monad).
  \<^item> \<open>Extents\<close>, \<open>Allocator\<close>, \<open>Allocator_Cover\<close>, \<open>Allocator_Safety\<close>, \<open>Allocator_Props\<close>:
    \<open>memory/allocator.py\<close>. The pool state is the record \<open>allocator\<close> (free extents per bank, live
    records, exact reservations, pool version, byte counters); \<open>plan\<close>, \<open>commit\<close>, \<open>reserve_exact\<close>,
    pins, \<open>release\<close>, \<open>resolve\<close>, \<open>reconfigure\<close> and \<open>reset\<close> are the methods. Every byte of a bank is
    read through its \<^emph>\<open>cover\<close>; the invariant says that it is free or held exactly once. The
    properties are about a client (\<open>pool_client\<close>) that commits plans it got from \<open>plan_bundle\<close> since
    the last reset, and whose window follows the reconfigurations.
  \<^item> \<open>Event_Table\<close>, \<open>Event_Safety\<close>: \<open>runtime/event_table.py\<close>. Entries by name, launch quotas and use
    counts; reservation, producers, consumers, signals, reclamation, release.
  \<^item> \<open>Stream_Queue\<close>: \<open>stream_queue.py\<close>, credit-controlled token queues. \<open>Noc_Router\<close>:
    \<open>memory/noc.py\<close>, four virtual channels with credits. \<open>Mshr_Table\<close>: \<open>memory/mshr.py\<close>.
  \<^item> \<open>Lru_Cache\<close>, \<open>Lru_Safety\<close>: \<open>memory/cache.py\<close>, the profiled LRU cache with dirty lines, clean
    requests and the range index.
  \<^item> \<open>Byte_Store\<close>, \<open>Byte_Safety\<close>: \<open>memory/byte_store.py\<close>, sparse pages with per-byte validity; the
    registered caches live in a heap because one cache object may serve two pools. The locale
    \<open>flat_memory\<close> is the contract (a partial map from addresses to bytes); its interpretation
    \<open>mem\<close> discharges the laws for the page loops.
  \<^item> \<open>Hbm_Region\<close>: \<open>memory/hbm_region.py\<close>, bindings with generations above the byte store.
  \<^item> \<open>Page_Pool\<close>, \<open>Page_Safety\<close>: \<open>memory/page_pool.py\<close>, page ownership, epochs, leases and pins above
    the HBM region and the byte store.
  \<^item> \<open>Fault_Ring\<close>, \<open>Program_Table\<close>, \<open>Pmu\<close>: \<open>runtime/fault_ring.py\<close>, \<open>runtime/program_table.py\<close> and
    \<open>pmu.py\<close>.
  \<^item> \<open>Reset_Domain\<close>: \<open>runtime/reset_domain.py\<close>, the drain state machine of a group reset, with the
    group and its probes as ports on a state of their own.
  \<^item> \<open>Group_Scheduler\<close>, \<open>Scheduler_Safety\<close>, \<open>Scheduler_Props\<close>: \<open>group_scheduler.py\<close> and the sequencer
    of \<open>tile_group_sequencer.py\<close>. Contexts queue actions, the issue scan picks one per call under
    event dependencies, barriers and credits, and completions return the credits. The calls into
    \<open>tile_group.py\<close> are ports.
  \<^item> \<open>Group_Port\<close>, \<open>Group_Port_Safety\<close>: \<open>runtime/group_port.py\<close>, the adapter between the CPU model and
    one group. Request records live in a heap by request id (the code shares them between its
    tables); two queues by profile category, a pending table and its mirror in the group, context
    slots, completions, control commands. The group, its sequencers and the profile controller
    are ports on a state that may change between any two calls (\<open>GroupStep\<close>).
  \<^item> \<open>L1_Slot_Frame\<close>: \<open>memory/l1_slot_frame.py\<close>, the slot table of an L1 context in its three copies:
    prepared with an arena, bound, then views are installed and released slot by slot.
  \<^item> \<open>Py_Value\<close>: \<open>immutable.py\<close>, the values of the compiled package with freezing, canonical form and
    canonical JSON text, and the scalar checks of \<open>compiled_program.py\<close>.
  \<^item> \<open>Profiles\<close>, \<open>Profile_Props\<close>: \<open>profiles.py\<close>, every class with its constructor checks, the registry
    and its builder, the stripes of a buffer in its arena and the configuration parsers.
  \<^item> \<open>Program_Validation\<close>, \<open>Program_Codec\<close>, \<open>Codec_Props\<close>: \<open>compiled_program.py\<close> and the classes of
    \<open>execution_ir.py\<close>: the class tables, the validator of every class, constructors, encoding,
    decoding, sealing, loading and saving of a package as a JSON tree.
  \<^item> \<open>Action_Typing\<close> joins the two ends: what the loader accepts, the scheduler can issue.
  \<^bold>\<open>How a component is verified.\<close> Each stateful component has a datatype of operations and an
  executable step function that runs the modelled method, error branches included. An
  interpretation of one of the machine locales shows that every operation keeps the component's
  invariant, also when it raises; the properties are then read off the invariant for every run
  (a list of operations, so that every interleaving is covered). Where a property compares two
  moments of a run, the component's \<open>outcome_logic\<close> interpretation carries a transition relation
  (\<open>step_rel\<close>, \<open>lc_rel\<close>, \<open>hr_rel\<close>, \<open>pool_rel\<close>) beside the invariant. Operations that nest many checks
  are split into a check that gives the target and a step that installs it (\<open>view_target\<close> and
  \<open>bind_view\<close>, \<open>init_checks\<close> and \<open>construct\<close>), and runs that deliver results carry them beside the state.

  \<^bold>\<open>What the properties show.\<close> Resources: bytes, pages, credits, event slots, MSHR entries and
  cache lines are never double-owned, never exceed their capacity and are conserved by every
  operation. Staleness: plans, handles, bindings, leases and refills of an older generation are
  rejected. Function: resolution, first fit, signalling, end-of-stream detection, arbitration and
  the fault ring compute what they promise. Scheduling: an action is issued after its dependencies
  and barriers, a fault stays in its context, a launch request is answered exactly once and
  admitted in submission order, and a faulted group leaves no request waiting. Types and round
  trips: a loaded package saves to the text it came from, its actions have the arguments the
  scheduler reads, and the stripes of its layouts stay in their banks. Refinement: the paged
  store implements a flat memory and a reset follows the documented chain of states. The theorems that record departures of the code
  from its documentation are marked as such.

  \<^bold>\<open>Termination and bounds.\<close> Every loop of the models is total. The page loops of the byte store
  recurse on the bytes left, the coverage loop on the distance to the end of the range (each
  binding step moves forward), the allocator's and cache's loops on their lists. The eviction
  loop of the cache runs at most once per resident line, the bound the code's own loop has,
  since each round removes a line or stops. No result depends on fuel.
  The admission loop of the group port recurses on the number of pending requests: each admission
  takes one out (\<open>attempt_lengths\<close>), and any other outcome ends the loop.
  \<^bold>\<open>Parameters.\<close> SHA-256 and the text of a float are arguments of the package functions; the
  tile group, its sequencers, engines, transfer manager and profile controller are ports of the
  components that call them (\<open>group_ports\<close>, \<open>reset_ports\<close> and \<open>root_ports\<close> records of functions on a
  state of their own), with no assumption on what they return or raise, except that
  \<open>drain_exit_isolated\<close> takes retiring isolated jobs to add no work to a tile. Some runs keep a
  discipline of the callers, which the theorem's text states: \<open>gs_enabled\<close> (when a context or the
  scheduler may be reset), \<open>client_enabled\<close> (where a committed plan comes from), \<open>port_enabled\<close>
  (a poll that raises ends the run). What happens outside is stated where the code allows it:
  \<open>reset_revives_stale_plan\<close> for a plan that survives a reset, \<open>reset_refusal_leaks_credit\<close> for a
  refused scheduler reset.

  \<^bold>\<open>Not modelled.\<close> Tracing, report snapshots and floating-point figures (bandwidth, utilisation,
  cold latency) have no effect on the modelled state and are absent or parameters. JSON text is
  read and printed by the standard library; the package is modelled from the JSON tree on, and the
  loaded-program record, the per-program digests and the relocation passes above it are left out.
  \<open>memory/arena.py\<close>, \<open>memory/profile_controller.py\<close> and \<open>memory/transfer.py\<close> (arenas, reconfiguration
  and multi-stage transfers) call most of the components modelled here and are left out for size;
  of an arena only the handle the slot frame reads is modelled. The cycle loops of \<open>tile_group.py\<close>,
  \<open>tile.py\<close>, \<open>engines.py\<close> and \<open>device.py\<close> integrate the components with floating-point latencies. The
  compiler, the MLIR dialect and the execution verifier work on the object model of a third-party
  package. Configuration files, the command line, reports and traces are input and output.
\<close>

end
